(* ===== verification/Go_Base.thy ===== *)
theory Go_Base
  imports Main
begin

text \<open>
  Prelude: Go's error values, the string rendering the messages of the program use, and the
  generic lemmas and collections the component theories share.

  Go's \<^verbatim>\<open>error\<close> is an interface; what the code does with it is to compare it with a sentinel
  (\<^verbatim>\<open>errors.Is\<close>), to look for a concrete type in its chain (\<^verbatim>\<open>errors.As\<close>), and to render it.
  The datatype below keeps exactly that structure.  The sentinels and the error structs are those
  of errors.go, usage_limits.go, validator.go, internal/core/errors.go and of the harness packages
  (capability, runtime, contextpolicy, store, sessionloop/actor).
\<close>

named_theorems frame
  "components of the loop state an operation leaves alone"

named_theorems log_simps
  "what an operation appends to the effect log"

subsection \<open>Rendering numbers and quoted strings\<close>

definition digit_char :: "nat \<Rightarrow> char" where
  "digit_char d = char_of (48 + d)"

fun show_nat :: "nat \<Rightarrow> string" where
  "show_nat n = (if n < 10 then [digit_char n] else show_nat (n div 10) @ [digit_char (n mod 10)])"

declare show_nat.simps [simp del]

definition show_int :: "int \<Rightarrow> string" where
  "show_int i = (if i < 0 then ''-'' @ show_nat (nat (- i)) else show_nat (nat i))"

text \<open>\<^verbatim>\<open>strconv.Quote\<close> (the \<^verbatim>\<open>%q\<close> verb) on UTF-8 text: the escapes of ASCII control
  characters, the double quote and the backslash; bytes of multi-byte characters pass unchanged.\<close>

definition hex_digit :: "nat \<Rightarrow> char" where
  "hex_digit d = (if d < 10 then char_of (48 + d) else char_of (87 + d))"

definition quote_char :: "char \<Rightarrow> string" where
  "quote_char c =
     (let n = (of_char c :: nat) in
      if n = 34 then [char_of (92::nat), char_of (34::nat)]
      else if n = 92 then [char_of (92::nat), char_of (92::nat)]
      else if n = 7 then [char_of (92::nat), CHR ''a'']
      else if n = 8 then [char_of (92::nat), CHR ''b'']
      else if n = 9 then [char_of (92::nat), CHR ''t'']
      else if n = 10 then [char_of (92::nat), CHR ''n'']
      else if n = 11 then [char_of (92::nat), CHR ''v'']
      else if n = 12 then [char_of (92::nat), CHR ''f'']
      else if n = 13 then [char_of (92::nat), CHR ''r'']
      else if n < 32 \<or> n = 127
           then [char_of (92::nat), CHR ''x'', hex_digit (n div 16), hex_digit (n mod 16)]
      else [c])"

definition quote :: "string \<Rightarrow> string" where
  "quote s = [char_of (34::nat)] @ concat (map quote_char s) @ [char_of (34::nat)]"

subsection \<open>Error values\<close>

datatype err_kind =
    ErrNilDeps | ErrDriverRequired | ErrDriveInput | ErrTranscriptInvalid
  | ErrSuspensionVersion | ErrSuspensionMismatch | ErrResumeDecision | ErrTurnDecision
  | ErrExecutionSuspended | ErrExecutionStopped | ErrExecutionInterrupted | ErrExecutionFailed
  | ErrToolHandlerSuspension | CtxCanceled | CtxDeadlineExceeded
  | ErrGateBroadened | ErrDuplicateCapability | ErrMissingOrdering | ErrCapabilityCycle
  | ErrInvalidResumeRequest | ErrUnsupportedDeferral | ErrDuplicatePlanner | ErrInvalidConfig
  | ErrInvalidTransform | ErrCompactionInvalid | ErrContextWindowExceeded | ErrInvalidSessionID
  | ErrSessionExists | ErrSessionNotFound | ErrSessionOpen | ErrJournalClosed
  | ErrConflict | ErrCorruptLog | ErrInvalidCommand | ErrLeaseHeld
  | ErrLeaseLost | ErrNoWork | ErrCommandConflict | ErrCommandNotFound
  | ErrInvalidReceipt | ErrGenerationExhausted | ErrWorkerRunning
  | ErrUnsupported | ErrSessionBusy | ErrStaleRun | ErrSuspended
  | ErrNotRunning | ErrSessionFaulted | ErrSessionClosed | ErrRegistryFrozen
  | ErrDuplicateTool | ErrDuplicateEffect | ErrContextConfigured | ErrUnknownTool
  | ErrDuplicateSelection | ErrInstructionsConfigured | ErrLoopConflict | ErrLoopOpen
  | ErrUnknownPosition | ErrLagged

datatype go_error =
    Sentinel err_kind                     \<comment> \<open>a package-level \<^verbatim>\<open>errors.New\<close> variable\<close>
  | Plain string                          \<comment> \<open>an unnamed \<^verbatim>\<open>errors.New\<close> or \<^verbatim>\<open>fmt.Errorf\<close> without \<^verbatim>\<open>%w\<close>\<close>
  | ModelRetry string
  | MaxIterationsError int
  | ProviderError string
  | UsageLimitExceededError string int int
  | ValidationError string
  | Wrapped string go_error               \<comment> \<open>\<^verbatim>\<open>fmt.Errorf\<close> with \<^verbatim>\<open>%w\<close>: rendered text and cause\<close>
  | RuntimePanic string                   \<comment> \<open>not an error value: the goroutine panics\<close>
  | Joined go_error go_error              \<comment> \<open>\<^verbatim>\<open>errors.Join\<close> of two non-nil errors\<close>

fun kind_text :: "err_kind \<Rightarrow> string" where
  "kind_text ErrNilDeps = ''agent dependencies must not be nil''"
| "kind_text ErrDriverRequired = ''runner must implement agentic.Driver''"
| "kind_text ErrDriveInput = ''invalid driver input''"
| "kind_text ErrTranscriptInvalid = ''invalid transcript''"
| "kind_text ErrSuspensionVersion = ''unsupported suspension version''"
| "kind_text ErrSuspensionMismatch = ''suspension does not match execution''"
| "kind_text ErrResumeDecision = ''invalid tool resume decision''"
| "kind_text ErrTurnDecision = ''invalid turn decision''"
| "kind_text ErrExecutionSuspended = ''agent execution suspended''"
| "kind_text ErrExecutionStopped = ''agent execution stopped''"
| "kind_text ErrExecutionInterrupted = ''agent execution interrupted''"
| "kind_text ErrExecutionFailed = ''agent execution failed''"
| "kind_text ErrToolHandlerSuspension = ''invalid tool handler suspension''"
| "kind_text CtxCanceled = ''context canceled''"
| "kind_text CtxDeadlineExceeded = ''context deadline exceeded''"
| "kind_text ErrGateBroadened = ''tool gate middleware broadened a prior decision''"
| "kind_text ErrDuplicateCapability = ''duplicate capability ID''"
| "kind_text ErrMissingOrdering = ''capability ordering reference is missing''"
| "kind_text ErrCapabilityCycle = ''capability ordering contains a cycle''"
| "kind_text ErrInvalidResumeRequest = ''invalid harness resume request''"
| "kind_text ErrUnsupportedDeferral = ''unsupported harness deferral''"
| "kind_text ErrDuplicatePlanner = ''duplicate harness resume planner''"
| "kind_text ErrInvalidConfig = ''invalid context policy configuration''"
| "kind_text ErrInvalidTransform = ''context transform violated append-only rules''"
| "kind_text ErrCompactionInvalid = ''context compaction does not match the durable prefix''"
| "kind_text ErrContextWindowExceeded = ''context cannot be compacted to the configured target''"
| "kind_text ErrInvalidSessionID = ''invalid session ID''"
| "kind_text ErrSessionExists = ''session already exists''"
| "kind_text ErrSessionNotFound = ''session not found''"
| "kind_text ErrSessionOpen = ''session already has an open journal''"
| "kind_text ErrJournalClosed = ''session journal is closed''"
| "kind_text ErrConflict = ''session journal cursor conflict''"
| "kind_text ErrCorruptLog = ''corrupt session log''"
| "kind_text ErrInvalidCommand = ''sessionloop: invalid command''"
| "kind_text ErrLeaseHeld = ''session actor: lease is held elsewhere''"
| "kind_text ErrLeaseLost = ''session actor: lease was lost''"
| "kind_text ErrNoWork = ''session actor: no recoverable work''"
| "kind_text ErrCommandConflict = ''session actor: command identity conflict''"
| "kind_text ErrCommandNotFound = ''session actor: command not found''"
| "kind_text ErrInvalidReceipt = ''session actor: receipt does not prove acceptance''"
| "kind_text ErrGenerationExhausted = ''session actor: ownership generation exhausted''"
| "kind_text ErrWorkerRunning = ''session actor: worker already running''"
| "kind_text ErrUnsupported = ''sessionloop: operation not supported by this host''"
| "kind_text ErrSessionBusy = ''sessionloop: session already has an active run''"
| "kind_text ErrStaleRun = ''sessionloop: command targets a run that is no longer active''"
| "kind_text ErrSuspended = ''sessionloop: run is suspended''"
| "kind_text ErrNotRunning = ''sessionloop: session has no active run''"
| "kind_text ErrSessionFaulted = ''sessionloop: session is faulted''"
| "kind_text ErrSessionClosed = ''sessionloop: session is closed''"
| "kind_text ErrRegistryFrozen = ''capability registry is frozen''"
| "kind_text ErrDuplicateTool = ''duplicate capability tool''"
| "kind_text ErrDuplicateEffect = ''duplicate tool effect resolver''"
| "kind_text ErrContextConfigured = ''context policy is already configured''"
| "kind_text ErrUnknownTool = ''capability tool is not registered''"
| "kind_text ErrDuplicateSelection = ''duplicate selected capability tool''"
| "kind_text ErrLoopConflict = ''sessionloop: command conflicts with current session activity''"
| "kind_text ErrLoopOpen = ''sessionloop: session is already open elsewhere''"
| "kind_text ErrUnknownPosition = ''sessionloop: unknown replay position''"
| "kind_text ErrLagged = ''sessionloop: subscriber lagged behind authoritative events''"
| "kind_text ErrInstructionsConfigured = ''exchange instruction provider is already configured''"

fun err_text :: "go_error \<Rightarrow> string" where
  "err_text (Sentinel k) = kind_text k"
| "err_text (Plain s) = s"
| "err_text (ModelRetry s) = s"
| "err_text (MaxIterationsError n) = ''agent reached maximum iterations ('' @ show_int n @ '')''"
| "err_text (ProviderError r) =
     (if r = '''' then ''provider returned no usable response''
      else ''provider returned no usable response: '' @ r)"
| "err_text (UsageLimitExceededError l c m) =
     ''usage limit exceeded: '' @ l @ '' ('' @ show_int c @ '' > '' @ show_int m @ '')''"
| "err_text (ValidationError s) = s"
| "err_text (RuntimePanic s) = s"
| "err_text (Wrapped s _) = s"
| "err_text (Joined a b) = err_text a @ [char_of (10::nat)] @ err_text b"

text \<open>\<^verbatim>\<open>fmt.Errorf("%w: text", cause)\<close> and \<^verbatim>\<open>fmt.Errorf("text: %w", cause)\<close>.\<close>

definition wrap_kind :: "err_kind \<Rightarrow> string \<Rightarrow> go_error" where
  "wrap_kind k s = Wrapped (kind_text k @ '': '' @ s) (Sentinel k)"

definition wrap_cause :: "string \<Rightarrow> go_error \<Rightarrow> go_error" where
  "wrap_cause s e = Wrapped (s @ '': '' @ err_text e) e"

text \<open>\<^verbatim>\<open>errors.Is\<close> against a sentinel and \<^verbatim>\<open>errors.As\<close> for the \<^verbatim>\<open>*ModelRetry\<close> type.\<close>

fun errors_is :: "err_kind \<Rightarrow> go_error \<Rightarrow> bool" where
  "errors_is k (Sentinel k') = (k = k')"
| "errors_is k (Wrapped _ e) = errors_is k e"
| "errors_is k (Joined a b) = (errors_is k a \<or> errors_is k b)"
| "errors_is k _ = False"

fun as_model_retry :: "go_error \<Rightarrow> bool" where
  "as_model_retry (ModelRetry _) = True"
| "as_model_retry (Wrapped _ e) = as_model_retry e"
| "as_model_retry (Joined a b) = (as_model_retry a \<or> as_model_retry b)"
| "as_model_retry _ = False"

definition errors_join :: "go_error option \<Rightarrow> go_error option \<Rightarrow> go_error option" where
  "errors_join a b =
     (case (a, b) of
        (None, _) \<Rightarrow> b
      | (_, None) \<Rightarrow> a
      | (Some x, Some y) \<Rightarrow> Some (Joined x y))"

lemma errors_is_wrap_kind [simp]: "errors_is k (wrap_kind k' s) \<longleftrightarrow> k = k'"
  by (simp add: wrap_kind_def)

lemma errors_is_wrap_cause [simp]: "errors_is k (wrap_cause s e) \<longleftrightarrow> errors_is k e"
  by (simp add: wrap_cause_def)

lemma as_model_retry_wrap_kind [simp]: "\<not> as_model_retry (wrap_kind k s)"
  by (simp add: wrap_kind_def)

lemma errors_join_None [simp]:
  "errors_join a b = None \<longleftrightarrow> a = None \<and> b = None"
  by (auto simp: errors_join_def split: option.splits)

subsection \<open>Sums and lists\<close>

text \<open>A Go function with results \<^verbatim>\<open>(T, error)\<close> returns a value of \<^typ>\<open>go_error + 'a\<close>.\<close>

type_synonym 'a result = "go_error + 'a"

definition is_ok :: "'e + 'a \<Rightarrow> bool" where
  "is_ok r = (case r of Inl _ \<Rightarrow> False | Inr _ \<Rightarrow> True)"

lemma is_ok_simps [simp]: "\<not> is_ok (Inl e)" "is_ok (Inr a)"
  by (simp_all add: is_ok_def)

fun mem_str :: "string \<Rightarrow> string list \<Rightarrow> bool" where
  "mem_str s [] = False"
| "mem_str s (x # xs) = (s = x \<or> mem_str s xs)"

lemma mem_str_iff [simp]: "mem_str s xs \<longleftrightarrow> s \<in> set xs"
  by (induction xs) auto

text \<open>Membership in a filtered or mapped list, and the last element of an extended one.\<close>

lemma last_in_set_append: "ys \<noteq> [] \<Longrightarrow> last (xs @ ys) = last ys"
  by simp

lemma sum_list_append_int: "sum_list (map (f :: 'a \<Rightarrow> int) (xs @ ys)) =
    sum_list (map f xs) + sum_list (map f ys)"
  by simp

lemma filter_empty_not_in: "filter P xs = [] \<longleftrightarrow> (\<forall>x \<in> set xs. \<not> P x)"
  by (simp add: filter_empty_conv)

end
