(* ===== verification/Messages.thy ===== *)
theory Messages
  imports Go_Base
begin

text \<open>
  The data of a conversation (internal/core/message.go): roles, the eleven content types, message
  parts with their optional payloads, tool calls and tool results, the constructors of tool and
  text messages and the accessors that read them.

  A Go string type with named constants (\<^verbatim>\<open>MessageRole\<close>, \<^verbatim>\<open>ContentType\<close>) can hold any string; the
  last constructor of the datatype stands for the strings that are none of the constants.  A
  pointer field is an option.  A \<^verbatim>\<open>map[string]interface{}\<close> is a value of \<^verbatim>\<open>json\<close>; nothing in the
  modelled code looks inside numbers, which are kept as integers.
\<close>

datatype json =
    JNull
  | JBool bool
  | JNum int
  | JStr string
  | JArr "json list"
  | JObj "(string \<times> json) list"

datatype message_role =
    RoleSystem | RoleUser | RoleAssistant | RoleTool | RoleOther string

datatype content_type =
    ContentText | ContentImageURL | ContentToolUse | ContentToolResult | ContentThinking
  | ContentImageData | ContentAudioURL | ContentVideoURL | ContentDocumentURL
  | ContentCachePoint | ContentUploadedFile | ContentOther string

record image_url =
  iu_url :: string
  iu_detail :: string
  iu_media_type :: string

record thinking_block =
  tb_text :: string
  tb_id :: string
  tb_signature :: string
  tb_provider_name :: string
  tb_provider_details :: json

definition IsRedacted :: "thinking_block \<Rightarrow> bool" where
  "IsRedacted tb = (tb_id tb = ''redacted_thinking'')"

record image_data =
  id_data :: string
  id_media_type :: string
  id_vendor :: json

record audio_url =
  au_url :: string
  au_format :: string
  au_vendor :: json

record video_url =
  vu_url :: string
  vu_media_type :: string
  vu_vendor :: json

record document_url =
  du_url :: string
  du_media_type :: string
  du_vendor :: json

record cache_point =
  cp_ttl :: string

record uploaded_file =
  uf_file_id :: string
  uf_provider_name :: string
  uf_vendor :: json

record tool_use =
  tu_id :: string
  tu_name :: string
  tu_input :: json

record tool_result =
  tr_tool_use_id :: string
  tr_name :: string
  tr_content :: string
  tr_is_error :: bool

record part =
  p_type :: content_type
  p_text :: string
  p_image_url :: "image_url option"
  p_tool_use :: "tool_use option"
  p_tool_result :: "tool_result option"
  p_thinking :: "thinking_block option"
  p_image_data :: "image_data option"
  p_audio_url :: "audio_url option"
  p_video_url :: "video_url option"
  p_document_url :: "document_url option"
  p_cache_point :: "cache_point option"
  p_uploaded_file :: "uploaded_file option"

record message =
  m_role :: message_role
  m_content :: "part list"

text \<open>A composite literal \<^verbatim>\<open>Part{Type: t}\<close>: every other field has its zero value.\<close>

definition zero_part :: "content_type \<Rightarrow> part" where
  "zero_part t = \<lparr>p_type = t, p_text = '''', p_image_url = None, p_tool_use = None,
     p_tool_result = None, p_thinking = None, p_image_data = None, p_audio_url = None,
     p_video_url = None, p_document_url = None, p_cache_point = None, p_uploaded_file = None\<rparr>"

definition NewTextMessage :: "message_role \<Rightarrow> string \<Rightarrow> message" where
  "NewTextMessage role text =
     \<lparr>m_role = role, m_content = [(zero_part ContentText)\<lparr>p_text := text\<rparr>]\<rparr>"

definition NewToolUseMessage :: "tool_use list \<Rightarrow> message" where
  "NewToolUseMessage toolUses =
     \<lparr>m_role = RoleAssistant,
      m_content = map (\<lambda>tu. (zero_part ContentToolUse)\<lparr>p_tool_use := Some tu\<rparr>) toolUses\<rparr>"

definition NewToolResultMessageFor :: "string \<Rightarrow> string \<Rightarrow> string \<Rightarrow> bool \<Rightarrow> message" where
  "NewToolResultMessageFor toolUseID toolName content isError =
     \<lparr>m_role = RoleTool,
      m_content = [(zero_part ContentToolResult)\<lparr>p_tool_result :=
        Some \<lparr>tr_tool_use_id = toolUseID, tr_name = toolName,
              tr_content = content, tr_is_error = isError\<rparr>\<rparr>]\<rparr>"

definition NewToolResultMessage :: "string \<Rightarrow> string \<Rightarrow> bool \<Rightarrow> message" where
  "NewToolResultMessage toolUseID content isError =
     NewToolResultMessageFor toolUseID '''' content isError"

subsection \<open>Accessors\<close>

fun text_of_parts :: "part list \<Rightarrow> string" where
  "text_of_parts [] = ''''"
| "text_of_parts (p # ps) = (if p_type p = ContentText then p_text p else '''') @ text_of_parts ps"

definition GetTextContent :: "message \<Rightarrow> string" where
  "GetTextContent m = text_of_parts (m_content m)"

fun uses_of_parts :: "part list \<Rightarrow> tool_use list" where
  "uses_of_parts [] = []"
| "uses_of_parts (p # ps) =
     (case p_tool_use p of
        Some tu \<Rightarrow> if p_type p = ContentToolUse then tu # uses_of_parts ps else uses_of_parts ps
      | None \<Rightarrow> uses_of_parts ps)"

definition GetToolUses :: "message \<Rightarrow> tool_use list" where
  "GetToolUses m = uses_of_parts (m_content m)"

fun results_of_parts :: "part list \<Rightarrow> tool_result list" where
  "results_of_parts [] = []"
| "results_of_parts (p # ps) =
     (case p_tool_result p of
        Some r \<Rightarrow> if p_type p = ContentToolResult then r # results_of_parts ps else results_of_parts ps
      | None \<Rightarrow> results_of_parts ps)"

definition GetToolResults :: "message \<Rightarrow> tool_result list" where
  "GetToolResults m = results_of_parts (m_content m)"

fun thinking_of_parts :: "part list \<Rightarrow> string" where
  "thinking_of_parts [] = ''''"
| "thinking_of_parts (p # ps) =
     (case p_thinking p of
        Some tb \<Rightarrow> (if p_type p = ContentThinking then tb_text tb else '''') @ thinking_of_parts ps
      | None \<Rightarrow> thinking_of_parts ps)"

definition GetThinkingContent :: "message \<Rightarrow> string" where
  "GetThinkingContent m = thinking_of_parts (m_content m)"

subsection \<open>What the accessors read from the constructed messages\<close>

lemma uses_of_parts_append [simp]: "uses_of_parts (ps @ qs) = uses_of_parts ps @ uses_of_parts qs"
  by (induction ps) (auto split: option.splits)

lemma results_of_parts_append [simp]:
  "results_of_parts (ps @ qs) = results_of_parts ps @ results_of_parts qs"
  by (induction ps) (auto split: option.splits)

lemma text_of_parts_append [simp]: "text_of_parts (ps @ qs) = text_of_parts ps @ text_of_parts qs"
  by (induction ps) auto

lemma NewTextMessage_sel [simp]:
  "m_role (NewTextMessage r t) = r"
  "GetToolUses (NewTextMessage r t) = []"
  "GetToolResults (NewTextMessage r t) = []"
  "GetTextContent (NewTextMessage r t) = t"
  by (simp_all add: NewTextMessage_def GetToolUses_def GetToolResults_def GetTextContent_def
      zero_part_def)

lemma uses_of_use_parts:
  "uses_of_parts (map (\<lambda>tu. (zero_part ContentToolUse)\<lparr>p_tool_use := Some tu\<rparr>) us) = us"
  by (induction us) (simp_all add: zero_part_def)

lemma results_of_use_parts:
  "results_of_parts (map (\<lambda>tu. (zero_part ContentToolUse)\<lparr>p_tool_use := Some tu\<rparr>) us) = []"
  by (induction us) (simp_all add: zero_part_def)

lemma NewToolUseMessage_sel [simp]:
  "m_role (NewToolUseMessage us) = RoleAssistant"
  "GetToolUses (NewToolUseMessage us) = us"
  "GetToolResults (NewToolUseMessage us) = []"
  by (simp_all add: NewToolUseMessage_def GetToolUses_def GetToolResults_def uses_of_use_parts
      results_of_use_parts)

lemma NewToolResultMessageFor_sel [simp]:
  "m_role (NewToolResultMessageFor i n c e) = RoleTool"
  "GetToolUses (NewToolResultMessageFor i n c e) = []"
  "GetToolResults (NewToolResultMessageFor i n c e) =
     [\<lparr>tr_tool_use_id = i, tr_name = n, tr_content = c, tr_is_error = e\<rparr>]"
  by (simp_all add: NewToolResultMessageFor_def GetToolUses_def GetToolResults_def zero_part_def)

end
