(* ===== verification/Usage.thy ===== *)
theory Usage
  imports Go_Base
begin

text \<open>
  Token and request accounting: \<^verbatim>\<open>Usage\<close> and \<^verbatim>\<open>Usage.Add\<close> (internal/core/request.go), the limits of
  one run (usage_limits.go), and the session's budget arithmetic over whole runs
  (harness/session/helpers.go: \<^verbatim>\<open>usageDelta\<close>, \<^verbatim>\<open>addUsage\<close>, \<^verbatim>\<open>remainingLimits\<close>).  A Go \<^verbatim>\<open>int\<close> counter is
  an unbounded integer here: no run comes near \<^verbatim>\<open>2^63\<close> tokens or requests.  A limit pointer is an
  option; \<^verbatim>\<open>nil\<close> means no limit.
\<close>

record request_usage =
  ru_prompt :: int
  ru_completion :: int
  ru_total :: int
  ru_cache_read :: int
  ru_cache_creation :: int
  ru_reasoning :: int

record usage =
  us_prompt :: int
  us_completion :: int
  us_total :: int
  us_cache_read :: int
  us_cache_creation :: int
  us_reasoning :: int
  us_requests :: int
  us_tool_calls :: int
  us_request_usages :: "request_usage list"

definition zero_usage :: usage where
  "zero_usage = \<lparr>us_prompt = 0, us_completion = 0, us_total = 0, us_cache_read = 0,
     us_cache_creation = 0, us_reasoning = 0, us_requests = 0, us_tool_calls = 0,
     us_request_usages = []\<rparr>"

text \<open>\<^verbatim>\<open>Usage.Add\<close>: adds one request; it counts the request itself and ignores the argument's
  request and tool-call counters.\<close>

definition usage_Add :: "usage \<Rightarrow> usage \<Rightarrow> usage" where
  "usage_Add u other =
     u\<lparr>us_prompt := us_prompt u + us_prompt other,
       us_completion := us_completion u + us_completion other,
       us_total := us_total u + us_total other,
       us_cache_read := us_cache_read u + us_cache_read other,
       us_cache_creation := us_cache_creation u + us_cache_creation other,
       us_reasoning := us_reasoning u + us_reasoning other,
       us_request_usages := us_request_usages u @
         [\<lparr>ru_prompt = us_prompt other, ru_completion = us_completion other,
           ru_total = us_total other, ru_cache_read = us_cache_read other,
           ru_cache_creation = us_cache_creation other, ru_reasoning = us_reasoning other\<rparr>],
       us_requests := us_requests u + 1\<rparr>"

lemma usage_Add_sel [simp]:
  "us_requests (usage_Add u v) = us_requests u + 1"
  "us_tool_calls (usage_Add u v) = us_tool_calls u"
  "us_prompt (usage_Add u v) = us_prompt u + us_prompt v"
  "us_completion (usage_Add u v) = us_completion u + us_completion v"
  "us_total (usage_Add u v) = us_total u + us_total v"
  "length (us_request_usages (usage_Add u v)) = length (us_request_usages u) + 1"
  by (simp_all add: usage_Add_def)

subsection \<open>Limits of one run\<close>

record usage_limits =
  max_request_tokens :: "int option"
  max_response_tokens :: "int option"
  max_total_tokens :: "int option"
  max_requests :: "int option"
  max_tool_calls :: "int option"

definition DefaultUsageLimits :: usage_limits where
  "DefaultUsageLimits = \<lparr>max_request_tokens = None, max_response_tokens = None,
     max_total_tokens = None, max_requests = Some 50, max_tool_calls = None\<rparr>"

definition at_limit :: "int option \<Rightarrow> int \<Rightarrow> bool" where
  "at_limit l v = (case l of None \<Rightarrow> False | Some m \<Rightarrow> v \<ge> m)"

definition over_limit :: "int option \<Rightarrow> int \<Rightarrow> bool" where
  "over_limit l v = (case l of None \<Rightarrow> False | Some m \<Rightarrow> v > m)"

definition limit_error :: "string \<Rightarrow> int \<Rightarrow> int option \<Rightarrow> go_error option" where
  "limit_error name current l =
     (case l of None \<Rightarrow> None | Some m \<Rightarrow> Some (UsageLimitExceededError name current m))"

definition checkBeforeRequest :: "usage_limits \<Rightarrow> usage \<Rightarrow> go_error option" where
  "checkBeforeRequest l u =
     (if at_limit (max_requests l) (us_requests u)
        then limit_error ''requests'' (us_requests u) (max_requests l)
      else if over_limit (max_request_tokens l) (us_prompt u)
        then limit_error ''request_tokens'' (us_prompt u) (max_request_tokens l)
      else if over_limit (max_total_tokens l) (us_total u)
        then limit_error ''total_tokens'' (us_total u) (max_total_tokens l)
      else None)"

definition checkAfterResponse :: "usage_limits \<Rightarrow> usage \<Rightarrow> go_error option" where
  "checkAfterResponse l u =
     (if over_limit (max_request_tokens l) (us_prompt u)
        then limit_error ''request_tokens'' (us_prompt u) (max_request_tokens l)
      else if over_limit (max_response_tokens l) (us_completion u)
        then limit_error ''response_tokens'' (us_completion u) (max_response_tokens l)
      else if over_limit (max_total_tokens l) (us_total u)
        then limit_error ''total_tokens'' (us_total u) (max_total_tokens l)
      else None)"

definition checkBeforeToolCalls :: "usage_limits \<Rightarrow> int \<Rightarrow> int \<Rightarrow> go_error option" where
  "checkBeforeToolCalls l currentToolCalls pendingCalls =
     (let projected = currentToolCalls + pendingCalls in
      if over_limit (max_tool_calls l) projected
        then limit_error ''tool_calls'' projected (max_tool_calls l)
      else None)"

lemma limit_error_None [simp]: "limit_error n c l = None \<longleftrightarrow> l = None"
  by (simp add: limit_error_def split: option.splits)

lemma at_limit_None [simp]: "\<not> at_limit None v" by (simp add: at_limit_def)
lemma over_limit_None [simp]: "\<not> over_limit None v" by (simp add: over_limit_def)

text \<open>The checks as conditions on the counters.\<close>

lemma at_limitD [dest]: "at_limit l v \<Longrightarrow> \<exists>m. l = Some m \<and> m \<le> v"
  by (cases l) (auto simp: at_limit_def)

lemma over_limitD [dest]: "over_limit l v \<Longrightarrow> \<exists>m. l = Some m \<and> m < v"
  by (cases l) (auto simp: over_limit_def)

lemma checkBeforeRequest_None:
  "checkBeforeRequest l u = None \<longleftrightarrow>
     \<not> at_limit (max_requests l) (us_requests u) \<and> \<not> over_limit (max_request_tokens l) (us_prompt u) \<and>
     \<not> over_limit (max_total_tokens l) (us_total u)"
  by (auto simp: checkBeforeRequest_def)

lemma checkAfterResponse_None:
  "checkAfterResponse l u = None \<longleftrightarrow>
     \<not> over_limit (max_request_tokens l) (us_prompt u) \<and>
     \<not> over_limit (max_response_tokens l) (us_completion u) \<and>
     \<not> over_limit (max_total_tokens l) (us_total u)"
  by (auto simp: checkAfterResponse_def)

lemma checkBeforeToolCalls_None:
  "checkBeforeToolCalls l c p = None \<longleftrightarrow> \<not> over_limit (max_tool_calls l) (c + p)"
  by (auto simp: checkBeforeToolCalls_def Let_def)

lemmas limit_checks = checkBeforeRequest_None checkAfterResponse_None checkBeforeToolCalls_None

subsection \<open>The session budget\<close>

definition usage_backwards :: "usage \<Rightarrow> usage \<Rightarrow> bool" where
  "usage_backwards current previous \<longleftrightarrow>
     us_prompt current < us_prompt previous \<or> us_completion current < us_completion previous \<or>
     us_total current < us_total previous \<or> us_cache_read current < us_cache_read previous \<or>
     us_cache_creation current < us_cache_creation previous \<or>
     us_reasoning current < us_reasoning previous \<or>
     us_requests current < us_requests previous \<or> us_tool_calls current < us_tool_calls previous \<or>
     length (us_request_usages current) < length (us_request_usages previous)"

definition usageDelta :: "usage \<Rightarrow> usage \<Rightarrow> usage result" where
  "usageDelta current previous =
     (if usage_backwards current previous
        then Inl (Plain ''driver usage counters moved backwards'')
      else Inr \<lparr>us_prompt = us_prompt current - us_prompt previous,
        us_completion = us_completion current - us_completion previous,
        us_total = us_total current - us_total previous,
        us_cache_read = us_cache_read current - us_cache_read previous,
        us_cache_creation = us_cache_creation current - us_cache_creation previous,
        us_reasoning = us_reasoning current - us_reasoning previous,
        us_requests = us_requests current - us_requests previous,
        us_tool_calls = us_tool_calls current - us_tool_calls previous,
        us_request_usages = drop (length (us_request_usages previous)) (us_request_usages current)\<rparr>)"

definition addUsage :: "usage \<Rightarrow> usage \<Rightarrow> usage" where
  "addUsage tot delta =
     \<lparr>us_prompt = us_prompt tot + us_prompt delta,
      us_completion = us_completion tot + us_completion delta,
      us_total = us_total tot + us_total delta,
      us_cache_read = us_cache_read tot + us_cache_read delta,
      us_cache_creation = us_cache_creation tot + us_cache_creation delta,
      us_reasoning = us_reasoning tot + us_reasoning delta,
      us_requests = us_requests tot + us_requests delta,
      us_tool_calls = us_tool_calls tot + us_tool_calls delta,
      us_request_usages = us_request_usages tot @ us_request_usages delta\<rparr>"

definition usageEmpty :: "usage \<Rightarrow> bool" where
  "usageEmpty u \<longleftrightarrow> us_prompt u = 0 \<and> us_completion u = 0 \<and> us_total u = 0 \<and>
     us_cache_read u = 0 \<and> us_cache_creation u = 0 \<and> us_reasoning u = 0 \<and>
     us_requests u = 0 \<and> us_tool_calls u = 0 \<and> us_request_usages u = []"

text \<open>\<^verbatim>\<open>BudgetError\<close> matches \<^verbatim>\<open>ErrBudgetExceeded\<close>; here it is a wrapped error.\<close>

definition budget_error :: "string \<Rightarrow> go_error" where
  "budget_error name =
     Wrapped (''session budget exceeded: '' @ name @ '' exhausted'') (Plain (name @ '' exhausted''))"

text \<open>One row of the table of checks: what is left of a limit, or an exhausted budget.\<close>

definition remaining_one :: "int option \<Rightarrow> int \<Rightarrow> string \<Rightarrow> (int option) result" where
  "remaining_one limit used name =
     (case limit of
        None \<Rightarrow> Inr None
      | Some m \<Rightarrow>
          let value = m - used in
          if name = ''tool_calls'' \<and> value = 0 then Inr (Some value)
          else if value \<le> 0 then Inl (budget_error name)
          else Inr (Some value))"

definition remainingLimits :: "usage_limits \<Rightarrow> usage \<Rightarrow> usage_limits result" where
  "remainingLimits budget used =
     (case remaining_one (max_request_tokens budget) (us_prompt used) ''request_tokens'' of
        Inl e \<Rightarrow> Inl e | Inr a \<Rightarrow>
      (case remaining_one (max_response_tokens budget) (us_completion used) ''response_tokens'' of
        Inl e \<Rightarrow> Inl e | Inr b \<Rightarrow>
      (case remaining_one (max_total_tokens budget) (us_total used) ''total_tokens'' of
        Inl e \<Rightarrow> Inl e | Inr c \<Rightarrow>
      (case remaining_one (max_requests budget) (us_requests used) ''requests'' of
        Inl e \<Rightarrow> Inl e | Inr d \<Rightarrow>
      (case remaining_one (max_tool_calls budget) (us_tool_calls used) ''tool_calls'' of
        Inl e \<Rightarrow> Inl e | Inr f \<Rightarrow>
        Inr \<lparr>max_request_tokens = a, max_response_tokens = b, max_total_tokens = c,
             max_requests = d, max_tool_calls = f\<rparr>)))))"

lemma addUsage_sel [simp]:
  "us_prompt (addUsage t d) = us_prompt t + us_prompt d"
  "us_completion (addUsage t d) = us_completion t + us_completion d"
  "us_total (addUsage t d) = us_total t + us_total d"
  "us_requests (addUsage t d) = us_requests t + us_requests d"
  "us_tool_calls (addUsage t d) = us_tool_calls t + us_tool_calls d"
  by (simp_all add: addUsage_def)

lemma remaining_one_Inr:
  "remaining_one l used n = Inr r \<Longrightarrow> r = map_option (\<lambda>m. m - used) l"
  by (auto simp: remaining_one_def Let_def split: option.splits if_splits)

lemma at_limit_shift: "at_limit (map_option (\<lambda>m. m - used) l) v \<longleftrightarrow> at_limit l (used + v)"
  by (auto simp: at_limit_def split: option.splits)

lemma over_limit_shift: "over_limit (map_option (\<lambda>m. m - used) l) v \<longleftrightarrow> over_limit l (used + v)"
  by (auto simp: over_limit_def split: option.splits)

lemma remainingLimits_Inr:
  "remainingLimits b used = Inr rem \<Longrightarrow>
     rem = \<lparr>max_request_tokens = map_option (\<lambda>m. m - us_prompt used) (max_request_tokens b),
            max_response_tokens = map_option (\<lambda>m. m - us_completion used) (max_response_tokens b),
            max_total_tokens = map_option (\<lambda>m. m - us_total used) (max_total_tokens b),
            max_requests = map_option (\<lambda>m. m - us_requests used) (max_requests b),
            max_tool_calls = map_option (\<lambda>m. m - us_tool_calls used) (max_tool_calls b)\<rparr>"
  by (auto simp: remainingLimits_def dest!: remaining_one_Inr split: sum.splits)

text \<open>
  The session's budget arithmetic is exact: when a run is started with the limits that
  \<^verbatim>\<open>remainingLimits\<close> leaves of the session budget, each of the driver's three checks passes at a
  usage of that run exactly when the whole budget's check passes at the session's accumulated
  usage.
\<close>

theorem remainingLimits_exact:
  assumes "remainingLimits budget used = Inr rem"
  shows "(checkBeforeRequest rem run = None \<longleftrightarrow> checkBeforeRequest budget (addUsage used run) = None) \<and>
    (checkAfterResponse rem run = None \<longleftrightarrow> checkAfterResponse budget (addUsage used run) = None) \<and>
    (checkBeforeToolCalls rem (us_tool_calls run) p = None \<longleftrightarrow>
       checkBeforeToolCalls budget (us_tool_calls (addUsage used run)) p = None)"
  using remainingLimits_Inr [OF assms]
  by (simp add: limit_checks at_limit_shift over_limit_shift add.assoc)

definition sample_budget :: usage_limits where
  "sample_budget = \<lparr>max_request_tokens = Some 100, max_response_tokens = None,
     max_total_tokens = Some 200, max_requests = Some 5, max_tool_calls = Some 2\<rparr>"

definition sample_used :: usage where
  "sample_used = zero_usage\<lparr>us_prompt := 40, us_total := 70, us_requests := 3, us_tool_calls := 2\<rparr>"

lemma sample_remaining:
  "remainingLimits sample_budget sample_used =
     Inr \<lparr>max_request_tokens = Some 60, max_response_tokens = None, max_total_tokens = Some 130,
          max_requests = Some 2, max_tool_calls = Some 0\<rparr>"
  by (simp add: remainingLimits_def remaining_one_def sample_budget_def sample_used_def
      zero_usage_def)

theorem remainingLimits_exact_witness:
  "checkBeforeToolCalls sample_budget (us_tool_calls (addUsage sample_used zero_usage)) 1 \<noteq> None"
  using remainingLimits_exact [OF sample_remaining, of zero_usage 1]
  by (simp add: checkBeforeToolCalls_None over_limit_def zero_usage_def)

text \<open>
  Accounting is lossless: the delta of a run recomputed from the accumulated total is the
  delta that was added, for every delta whose counters did not move backwards.
\<close>

theorem usageDelta_addUsage:
  "usageDelta (addUsage tot delta) tot =
     (if usage_backwards (addUsage zero_usage delta) zero_usage
      then Inl (Plain ''driver usage counters moved backwards'') else Inr delta)"
  by (auto simp: usageDelta_def usage_backwards_def addUsage_def zero_usage_def)

end
