(* ===== verification/Chat.thy ===== *)
theory Chat
  imports Complex_Main Messages Usage
begin

text \<open>
  Requests and responses of a model (internal/core/request.go): tool definitions, the options of a
  request, the prompt-cache intent, finish reasons, and \<^verbatim>\<open>ChatRequest.Validate\<close>.  A
  \<^verbatim>\<open>float64\<close> is a rational, an infinity or NaN; the code only compares it.
\<close>

datatype float64 = FNum rat | FPosInf | FNegInf | FNaN

fun float_less :: "float64 \<Rightarrow> float64 \<Rightarrow> bool" where
  "float_less FNaN _ = False"
| "float_less _ FNaN = False"
| "float_less (FNum a) (FNum b) = (a < b)"
| "float_less (FNum _) FPosInf = True"
| "float_less (FNum _) FNegInf = False"
| "float_less FPosInf _ = False"
| "float_less FNegInf FNegInf = False"
| "float_less FNegInf _ = True"

record tool_function =
  fn_name :: string
  fn_description :: string
  fn_parameters :: json

record tool =
  tool_type :: string
  tool_fn :: tool_function

datatype tool_choice = ToolChoiceNone | ToolChoiceAuto | ToolChoiceRequired | ToolChoiceOther string

record json_schema_format =
  jsf_name :: string
  jsf_description :: string
  jsf_schema :: json
  jsf_strict :: "bool option"

record response_format =
  rf_type :: string
  rf_json_schema :: "json_schema_format option"

record thinking_config =
  tc_enabled :: bool
  tc_budget_tokens :: int

datatype cache_retention =
  CacheUnset | PromptCacheNone | PromptCacheShort | PromptCacheLong | CacheOther string

record prompt_cache =
  pc_key :: string
  pc_retention :: cache_retention

definition cache_Enabled :: "prompt_cache option \<Rightarrow> bool" where
  "cache_Enabled c =
     (case c of None \<Rightarrow> False
      | Some p \<Rightarrow> pc_key p \<noteq> '''' \<and> pc_retention p \<noteq> PromptCacheNone)"

definition cache_TTL :: "prompt_cache option \<Rightarrow> string" where
  "cache_TTL c =
     (if \<not> cache_Enabled c then ''''
      else (case c of None \<Rightarrow> ''''
            | Some p \<Rightarrow> if pc_retention p = PromptCacheLong then ''1h'' else ''5m''))"

record chat_request =
  rq_model :: string
  rq_messages :: "message list"
  rq_temperature :: "float64 option"
  rq_max_tokens :: "int option"
  rq_top_p :: "float64 option"
  rq_tools :: "tool list"
  rq_tool_choice :: "tool_choice option"
  rq_stream :: bool
  rq_response_format :: "response_format option"
  rq_thinking :: "thinking_config option"
  rq_prompt_cache :: "prompt_cache option"
  rq_stop_sequences :: "string list"
  rq_provider_options :: json

text \<open>A request literal that sets model and messages only.\<close>

definition plain_request :: "string \<Rightarrow> message list \<Rightarrow> chat_request" where
  "plain_request model msgs = \<lparr>rq_model = model, rq_messages = msgs, rq_temperature = None,
     rq_max_tokens = None, rq_top_p = None, rq_tools = [], rq_tool_choice = None,
     rq_stream = False, rq_response_format = None, rq_thinking = None, rq_prompt_cache = None,
     rq_stop_sequences = [], rq_provider_options = JNull\<rparr>"

definition ChatRequest_Validate :: "chat_request \<Rightarrow> go_error option" where
  "ChatRequest_Validate r =
     (if rq_model r = '''' then Some (Plain ''model cannot be empty'')
      else if rq_messages r = [] then Some (Plain ''messages cannot be empty'')
      else if (case rq_temperature r of None \<Rightarrow> False
               | Some t \<Rightarrow> float_less t (FNum 0) \<or> float_less (FNum 2) t)
        then Some (Plain ''temperature must be between 0 and 2'')
      else if (case rq_max_tokens r of None \<Rightarrow> False | Some n \<Rightarrow> n < 0)
        then Some (Plain ''max tokens must be non-negative'')
      else (case rq_prompt_cache r of None \<Rightarrow> None
            | Some p \<Rightarrow>
                (case pc_retention p of
                   CacheOther _ \<Rightarrow> Some (Plain ''prompt cache retention is invalid'')
                 | _ \<Rightarrow>
                     if pc_retention p \<noteq> PromptCacheNone \<and> pc_key p = ''''
                     then Some (Plain ''prompt cache key cannot be empty when caching is enabled'')
                     else None)))"

datatype finish_reason =
    FinishReasonStop | FinishReasonLength | FinishReasonToolCalls | FinishReasonContentFilter
  | FinishReasonError | FinishReasonUnknown | FinishReasonOther string

text \<open>The string of a finish reason; the empty string is the zero value of the type.\<close>

fun finish_text :: "finish_reason \<Rightarrow> string" where
  "finish_text FinishReasonStop = ''stop''"
| "finish_text FinishReasonLength = ''length''"
| "finish_text FinishReasonToolCalls = ''tool_calls''"
| "finish_text FinishReasonContentFilter = ''content_filter''"
| "finish_text FinishReasonError = ''error''"
| "finish_text FinishReasonUnknown = ''unknown''"
| "finish_text (FinishReasonOther s) = s"

record chat_response =
  rs_id :: string
  rs_model :: string
  rs_message :: message
  rs_usage :: usage
  rs_finish_reason :: finish_reason
  rs_raw_finish_reason :: string

text \<open>A request that validates may turn caching on, and then it carries a key.\<close>

lemma validated_cache_has_key:
  assumes "ChatRequest_Validate r = None" "rq_prompt_cache r = Some p"
    "pc_retention p \<noteq> PromptCacheNone"
  shows "cache_Enabled (rq_prompt_cache r) \<and> cache_TTL (rq_prompt_cache r) \<in> {''1h'', ''5m''}"
  using assms
  by (auto simp: ChatRequest_Validate_def cache_Enabled_def cache_TTL_def
      split: if_splits cache_retention.splits)

end
