(* ===== verification/Tool_Types.thy ===== *)
theory Tool_Types
  imports Chat
begin

text \<open>
  Results of tool calls (internal/core/handler.go, driver.go): \<^verbatim>\<open>ToolExecutionResult\<close>, its
  formatting for the model, the error result the driver synthesises, and the identity check every
  result passes before it is committed (tool_scheduler.go).

  The content of a result is an \<^verbatim>\<open>interface{}\<close>; the cases the code tells apart are nil, a string, the
  two forms of a handler suspension, and everything else.
\<close>

record tool_deferral =
  td_kind :: string
  td_payload :: string

datatype content_value =
    CNil
  | CText string
  | CJson json
  | CSuspension tool_deferral                 \<comment> \<open>\<^verbatim>\<open>ToolHandlerSuspension\<close>\<close>
  | CSuspensionPtr "tool_deferral option"     \<comment> \<open>\<^verbatim>\<open>*ToolHandlerSuspension\<close>, possibly nil\<close>

record tool_execution_result =
  er_tool_use_id :: string
  er_tool_name :: string
  er_content :: content_value
  er_is_error :: bool
  er_error :: "go_error option"

text \<open>\<^verbatim>\<open>json.Marshal\<close> of a content value is the parameter \<open>marshal\<close>.\<close>

definition FormatToolResult :: "(content_value \<Rightarrow> string result) \<Rightarrow> content_value \<Rightarrow> string" where
  "FormatToolResult marshal c =
     (case c of
        CNil \<Rightarrow> ''''
      | CText s \<Rightarrow> s
      | _ \<Rightarrow> (case marshal c of
                Inl e \<Rightarrow> ''Error formatting result: '' @ err_text e
              | Inr data \<Rightarrow> data))"

definition makeToolResultError :: "tool_use \<Rightarrow> string \<Rightarrow> go_error option \<Rightarrow> tool_execution_result" where
  "makeToolResultError call msg cause =
     \<lparr>er_tool_use_id = tu_id call, er_tool_name = tu_name call, er_content = CText msg,
      er_is_error = True,
      er_error = Some (case cause of None \<Rightarrow> Plain msg | Some e \<Rightarrow> e)\<rparr>"

definition validateToolResultIdentity :: "tool_use \<Rightarrow> tool_execution_result \<Rightarrow> go_error option" where
  "validateToolResultIdentity call r =
     (if er_tool_use_id r \<noteq> tu_id call then
        Some (Plain (''tool result ID '' @ quote (er_tool_use_id r) @ '' does not match call '' @
          quote (tu_id call)))
      else if er_tool_name r \<noteq> tu_name call then
        Some (Plain (''tool result name '' @ quote (er_tool_name r) @ '' does not match call '' @
          quote (tu_name call)))
      else None)"

text \<open>A result that belongs to a call.\<close>

definition result_for :: "tool_use \<Rightarrow> tool_execution_result \<Rightarrow> bool" where
  "result_for call r \<longleftrightarrow> er_tool_use_id r = tu_id call \<and> er_tool_name r = tu_name call"

lemma validateToolResultIdentity_None [simp]:
  "validateToolResultIdentity call r = None \<longleftrightarrow> result_for call r"
  by (simp add: validateToolResultIdentity_def result_for_def)

lemma result_for_makeToolResultError [simp]: "result_for call (makeToolResultError call s c)"
  by (simp add: result_for_def makeToolResultError_def)

lemma makeToolResultError_sel [simp]:
  "er_tool_use_id (makeToolResultError call s c) = tu_id call"
  "er_tool_name (makeToolResultError call s c) = tu_name call"
  "er_is_error (makeToolResultError call s c)"
  "er_error (makeToolResultError call s (Some e)) = Some e"
  "er_error (makeToolResultError call s c) \<noteq> None"
  by (simp_all add: makeToolResultError_def)

text \<open>transcript.go: the calls and results a history already holds.\<close>

definition result_of_transcript :: "tool_result \<Rightarrow> tool_execution_result" where
  "result_of_transcript r =
     \<lparr>er_tool_use_id = tr_tool_use_id r, er_tool_name = tr_name r, er_content = CText (tr_content r),
      er_is_error = tr_is_error r, er_error = None\<rparr>"

fun transcriptToolState :: "message list \<Rightarrow> tool_use list \<times> tool_execution_result list" where
  "transcriptToolState [] = ([], [])"
| "transcriptToolState (m # ms) =
     (let (calls, results) = transcriptToolState ms in
      (GetToolUses m @ calls, map result_of_transcript (GetToolResults m) @ results))"

end
