(* ===== verification/Tool_Registry.thy ===== *)
theory Tool_Registry
  imports Tool_Types
begin

text \<open>
  Registries of tools: the default registry (tool/registry.go), toolsets (tool/toolset.go) and the
  per-run registry that lays run toolsets over the agent's own registry (run_state.go).

  A tool handler is an interface value.  What the code asks of it statically is its name, whether it
  declares suspension and its retry override; what its \<^verbatim>\<open>Execute\<close> returns is decided by the outside
  world and is passed in as a \<open>handler_reply\<close>.  Validation of arguments against a JSON schema
  (tool/schema_validation.go) is the parameter \<open>validate\<close>.  The mutex of the registry
  makes each operation atomic; each operation is one function here.
\<close>

type_synonym handler_reply = "content_value result"

record tool_handler =
  h_name :: string
  h_may_suspend :: bool           \<comment> \<open>implements \<^verbatim>\<open>SuspendableToolHandler\<close> and says yes\<close>
  h_max_retries :: "int option"   \<comment> \<open>\<^verbatim>\<open>ToolConfig().MaxRetries\<close>, where the handler has one\<close>

text \<open>The part of the interface \<^verbatim>\<open>ToolRegistry\<close> a run uses, as a record of functions.\<close>

record tool_registry =
  reg_get :: "string \<Rightarrow> tool_handler option"
  reg_execute :: "tool_use \<Rightarrow> handler_reply \<Rightarrow> tool_execution_result \<times> go_error option"
  reg_tools :: "tool list"

abbreviation tool_name :: "tool \<Rightarrow> string" where
  "tool_name t \<equiv> fn_name (tool_fn t)"

subsection \<open>The default registry\<close>

record default_registry =
  dr_tools :: "string \<rightharpoonup> tool"
  dr_handlers :: "string \<rightharpoonup> tool_handler"
  dr_order :: "string list"

definition NewRegistry :: default_registry where
  "NewRegistry = \<lparr>dr_tools = Map.empty, dr_handlers = Map.empty, dr_order = []\<rparr>"

definition Register :: "default_registry \<Rightarrow> tool \<Rightarrow> tool_handler \<Rightarrow> default_registry result" where
  "Register r t h =
     (let name = tool_name t in
      if h_name h \<noteq> name then
        Inl (Plain (''handler name '' @ quote (h_name h) @ '' does not match tool name '' @ quote name))
      else if dr_handlers r name \<noteq> None then
        Inl (Plain (''tool '' @ quote name @ '' already registered''))
      else Inr \<lparr>dr_tools = (dr_tools r)(name \<mapsto> t), dr_handlers = (dr_handlers r)(name \<mapsto> h),
                dr_order = dr_order r @ [name]\<rparr>)"

definition registry_Tools :: "default_registry \<Rightarrow> tool list" where
  "registry_Tools r = List.map_filter (dr_tools r) (dr_order r)"

definition registry_Has :: "default_registry \<Rightarrow> string \<Rightarrow> bool" where
  "registry_Has r name = (dr_handlers r name \<noteq> None)"

definition registry_Count :: "default_registry \<Rightarrow> nat" where
  "registry_Count r = card (dom (dr_handlers r))"

definition unknown_tool_result :: "tool_use \<Rightarrow> tool_execution_result" where
  "unknown_tool_result call =
     \<lparr>er_tool_use_id = tu_id call, er_tool_name = tu_name call,
      er_content = CText (''Unknown tool: '' @ tu_name call), er_is_error = True,
      er_error = Some (Plain (''unknown tool: '' @ tu_name call))\<rparr>"

definition error_result :: "tool_use \<Rightarrow> go_error \<Rightarrow> tool_execution_result" where
  "error_result call e =
     \<lparr>er_tool_use_id = tu_id call, er_tool_name = tu_name call, er_content = CText (err_text e),
      er_is_error = True, er_error = Some e\<rparr>"

definition registry_Execute ::
  "(json \<Rightarrow> json \<Rightarrow> go_error option) \<Rightarrow> default_registry \<Rightarrow> tool_use \<Rightarrow> handler_reply \<Rightarrow>
     tool_execution_result \<times> go_error option" where
  "registry_Execute validate r call reply =
     (case dr_handlers r (tu_name call) of
        None \<Rightarrow> (unknown_tool_result call, None)
      | Some h \<Rightarrow>
          let parameters = (case dr_tools r (tu_name call) of
                              None \<Rightarrow> JNull | Some t \<Rightarrow> fn_parameters (tool_fn t)) in
          (case validate (tu_input call) parameters of
             Some e \<Rightarrow>
               (error_result call (ModelRetry (''Invalid arguments for tool '' @
                  quote (tu_name call) @ '': '' @ err_text e)), None)
           | None \<Rightarrow>
               (case reply of
                  Inl e \<Rightarrow> (error_result call e, None)
                | Inr c \<Rightarrow>
                    (\<lparr>er_tool_use_id = tu_id call, er_tool_name = tu_name call, er_content = c,
                      er_is_error = False, er_error = None\<rparr>, None))))"

text \<open>\<^verbatim>\<open>ExecuteBatch\<close> runs the calls concurrently, one slot per call, and then reports the first
  error in call order.\<close>

definition ExecuteBatch ::
  "(tool_use \<Rightarrow> handler_reply \<Rightarrow> tool_execution_result \<times> go_error option) \<Rightarrow>
     tool_use list \<Rightarrow> handler_reply list \<Rightarrow> tool_execution_result list result" where
  "ExecuteBatch execute calls replies =
     (let outs = map2 execute calls replies in
      case List.find (\<lambda>(c, o'). snd o' \<noteq> None) (zip calls outs) of
        Some (c, (_, Some e)) \<Rightarrow> Inl (wrap_cause (''execute tool '' @ quote (tu_name c)) e)
      | _ \<Rightarrow> Inr (map fst outs))"

definition default_iface ::
  "(json \<Rightarrow> json \<Rightarrow> go_error option) \<Rightarrow> default_registry \<Rightarrow> tool_registry" where
  "default_iface validate r =
     \<lparr>reg_get = dr_handlers r, reg_execute = registry_Execute validate r,
      reg_tools = registry_Tools r\<rparr>"

subsection \<open>Toolsets\<close>

text \<open>What \<^verbatim>\<open>ToolsAndHandlers\<close> returns.  Reading past the end of the handlers panics.\<close>

record toolset =
  ts_tools :: "tool list"
  ts_handlers :: "tool_handler list"

definition NewToolset :: toolset where
  "NewToolset = \<lparr>ts_tools = [], ts_handlers = []\<rparr>"

definition toolset_Add :: "toolset \<Rightarrow> tool \<Rightarrow> tool_handler \<Rightarrow> toolset" where
  "toolset_Add ts t h = \<lparr>ts_tools = ts_tools ts @ [t], ts_handlers = ts_handlers ts @ [h]\<rparr>"

definition index_panic :: go_error where
  "index_panic = RuntimePanic ''index out of range''"

fun add_all :: "toolset \<Rightarrow> tool list \<Rightarrow> tool_handler list \<Rightarrow> toolset result" where
  "add_all acc [] hs = Inr acc"
| "add_all acc (t # ts) [] = Inl index_panic"
| "add_all acc (t # ts) (h # hs) = add_all (toolset_Add acc t h) ts hs"

fun combine_loop :: "toolset \<Rightarrow> toolset list \<Rightarrow> toolset result" where
  "combine_loop acc [] = Inr acc"
| "combine_loop acc (s # ss) =
     (case add_all acc (ts_tools s) (ts_handlers s) of
        Inl e \<Rightarrow> Inl e | Inr acc' \<Rightarrow> combine_loop acc' ss)"

definition CombineToolsets :: "toolset list \<Rightarrow> toolset result" where
  "CombineToolsets sets = combine_loop NewToolset sets"

fun filter_loop ::
  "(string \<Rightarrow> bool) \<Rightarrow> toolset \<Rightarrow> tool list \<Rightarrow> tool_handler list \<Rightarrow> toolset result" where
  "filter_loop keep acc [] hs = Inr acc"
| "filter_loop keep acc (t # ts) [] =
     (if keep (tool_name t) then Inl index_panic else filter_loop keep acc ts [])"
| "filter_loop keep acc (t # ts) (h # hs) =
     filter_loop keep (if keep (tool_name t) then toolset_Add acc t h else acc) ts hs"

definition FilterToolset :: "toolset \<Rightarrow> (string \<Rightarrow> bool) \<Rightarrow> toolset result" where
  "FilterToolset s predicate = filter_loop predicate NewToolset (ts_tools s) (ts_handlers s)"

text \<open>A renamed handler forwards execution to the inner one under the new name; the wrapper type
  implements neither of the optional interfaces of the inner handler.\<close>

definition renamedHandler :: "tool_handler \<Rightarrow> string \<Rightarrow> tool_handler" where
  "renamedHandler inner name = \<lparr>h_name = name, h_may_suspend = False, h_max_retries = None\<rparr>"

fun prefix_loop :: "string \<Rightarrow> toolset \<Rightarrow> tool list \<Rightarrow> tool_handler list \<Rightarrow> toolset result" where
  "prefix_loop prefix acc [] hs = Inr acc"
| "prefix_loop prefix acc (t # ts) [] = Inl index_panic"
| "prefix_loop prefix acc (t # ts) (h # hs) =
     (let name = prefix @ ''__'' @ tool_name t;
          t' = t\<lparr>tool_fn := (tool_fn t)\<lparr>fn_name := name\<rparr>\<rparr> in
      prefix_loop prefix (toolset_Add acc t' (renamedHandler h name)) ts hs)"

definition PrefixToolset :: "toolset \<Rightarrow> string \<Rightarrow> toolset result" where
  "PrefixToolset s prefix = prefix_loop prefix NewToolset (ts_tools s) (ts_handlers s)"

text \<open>\<^verbatim>\<open>RegisterToolset\<close> takes any registry, hence any \<open>register\<close>.\<close>

fun RegisterToolset ::
  "('r \<Rightarrow> tool \<Rightarrow> tool_handler \<Rightarrow> 'r result) \<Rightarrow> 'r \<Rightarrow> tool list \<Rightarrow> tool_handler list \<Rightarrow> 'r result" where
  "RegisterToolset register r [] hs = Inr r"
| "RegisterToolset register r (t # ts) [] = Inl index_panic"
| "RegisterToolset register r (t # ts) (h # hs) =
     (case register r t h of Inl e \<Rightarrow> Inl e | Inr r' \<Rightarrow> RegisterToolset register r' ts hs)"

subsection \<open>The contract of a registry\<close>

text \<open>What registering a tool promises: it succeeds only for a handler of the tool's name that is
  not yet taken, and then the table has exactly one more entry, at the end of the order.\<close>

locale tool_table =
  fixes register :: "'r \<Rightarrow> tool \<Rightarrow> tool_handler \<Rightarrow> 'r result"
    and get :: "'r \<Rightarrow> string \<Rightarrow> tool_handler option"
    and names :: "'r \<Rightarrow> string list"
    and inv :: "'r \<Rightarrow> bool"
  assumes register_guard: "register r t h = Inr r' \<Longrightarrow>
      h_name h = tool_name t \<and> get r (tool_name t) = None"
    and get_register: "register r t h = Inr r' \<Longrightarrow> get r' = (get r)(tool_name t \<mapsto> h)"
    and names_register: "register r t h = Inr r' \<Longrightarrow> names r' = names r @ [tool_name t]"
    and inv_register: "inv r \<Longrightarrow> register r t h = Inr r' \<Longrightarrow> inv r'"
    and inv_names: "inv r \<Longrightarrow> dom (get r) = set (names r) \<and> distinct (names r)"
begin

lemma registered_fresh:
  "inv r \<Longrightarrow> register r t h = Inr r' \<Longrightarrow> tool_name t \<notin> set (names r)"
  using register_guard inv_names by (metis domIff)

lemma toolset_registered:
  "RegisterToolset register r ts hs = Inr r' \<Longrightarrow> inv r \<Longrightarrow>
     inv r' \<and> names r' = names r @ map tool_name ts \<and>
     (\<forall>n. n \<notin> set (map tool_name ts) \<longrightarrow> get r' n = get r n) \<and>
     (\<forall>t \<in> set ts. \<exists>h. get r' (tool_name t) = Some h \<and> h_name h = tool_name t)"
proof (induction ts arbitrary: r hs)
  case (Cons t ts)
  then obtain h hs' r1 where hs: "hs = h # hs'" and r1: "register r t h = Inr r1"
      "RegisterToolset register r1 ts hs' = Inr r'"
    by (cases hs) (auto split: sum.splits)
  have inv1: "inv r1" using Cons.prems r1 inv_register by blast
  note rest = Cons.IH [OF r1(2) inv1]
  have reg: "names r1 = names r @ [tool_name t]" "get r1 = (get r)(tool_name t \<mapsto> h)"
    "h_name h = tool_name t"
    using r1(1) names_register get_register register_guard by blast+
  have "distinct (names r1 @ map tool_name ts)" using rest inv_names by metis
  then have "tool_name t \<notin> set (map tool_name ts)" using reg by auto
  then have "get r' (tool_name t) = Some h" using rest reg by simp
  then show ?case using rest reg by auto
qed auto

lemma toolset_distinct:
  "RegisterToolset register r ts hs = Inr r' \<Longrightarrow> inv r \<Longrightarrow> distinct (names r @ map tool_name ts)"
  using toolset_registered inv_names by metis

end

definition registry_wf :: "default_registry \<Rightarrow> bool" where
  "registry_wf r \<longleftrightarrow> dom (dr_handlers r) = set (dr_order r) \<and> dom (dr_tools r) = set (dr_order r) \<and>
     distinct (dr_order r) \<and>
     (\<forall>n h. dr_handlers r n = Some h \<longrightarrow> h_name h = n) \<and>
     (\<forall>n t. dr_tools r n = Some t \<longrightarrow> tool_name t = n)"

lemma registry_wf_New [simp]: "registry_wf NewRegistry"
  by (simp add: registry_wf_def NewRegistry_def)

lemma Register_InrD:
  assumes "Register r t h = Inr r'"
  shows "h_name h = tool_name t" "dr_handlers r (tool_name t) = None"
    "dr_handlers r' = (dr_handlers r)(tool_name t \<mapsto> h)"
    "dr_tools r' = (dr_tools r)(tool_name t \<mapsto> t)" "dr_order r' = dr_order r @ [tool_name t]"
  using assms by (auto simp: Register_def Let_def split: if_splits)

lemma registry_wf_Register: "registry_wf r \<Longrightarrow> Register r t h = Inr r' \<Longrightarrow> registry_wf r'"
  using Register_InrD [of r t h r'] by (auto simp: registry_wf_def)

lemma registry_wf_names:
  "registry_wf r \<Longrightarrow> dom (dr_handlers r) = set (dr_order r) \<and> distinct (dr_order r)"
  by (simp add: registry_wf_def)

lemma Register_guard:
  "Register r t h = Inr r' \<Longrightarrow> h_name h = tool_name t \<and> dr_handlers r (tool_name t) = None"
  using Register_InrD(1,2) by blast

interpretation rt: tool_table Register dr_handlers dr_order registry_wf
  by unfold_locales
    (fact Register_guard Register_InrD registry_wf_Register registry_wf_names)+

lemma registry_Count_order: "registry_wf r \<Longrightarrow> registry_Count r = length (dr_order r)"
  by (metis distinct_card registry_Count_def registry_wf_names)

text \<open>
  Registering a toolset in a well-formed registry succeeds only if all names stay distinct; then
  the registry lists its old tools and the new ones in order, every new tool has a handler of its
  own name, every other name keeps its handler, and the number of tools grows by the size of the
  toolset.
\<close>

theorem RegisterToolset_registers:
  assumes "registry_wf r" "RegisterToolset Register r ts hs = Inr r'"
  shows "dr_order r' = dr_order r @ map tool_name ts \<and> distinct (dr_order r') \<and>
    registry_Count r' = registry_Count r + length ts \<and>
    (\<forall>t \<in> set ts. \<exists>h. dr_handlers r' (tool_name t) = Some h \<and> h_name h = tool_name t) \<and>
    (\<forall>n. n \<notin> set (map tool_name ts) \<longrightarrow> dr_handlers r' n = dr_handlers r n)"
proof -
  note reg = rt.toolset_registered [OF assms(2,1)]
  then have "registry_wf r'" "dr_order r' = dr_order r @ map tool_name ts" by blast+
  moreover have "registry_Count r' = registry_Count r + length ts"
    using calculation registry_Count_order assms(1) by simp
  ultimately show ?thesis using reg registry_wf_names by blast
qed

definition example_tool :: "string \<Rightarrow> tool" where
  "example_tool n = \<lparr>tool_type = ''function'',
     tool_fn = \<lparr>fn_name = n, fn_description = '''', fn_parameters = JNull\<rparr>\<rparr>"

definition example_handler :: "string \<Rightarrow> tool_handler" where
  "example_handler n = \<lparr>h_name = n, h_may_suspend = False, h_max_retries = None\<rparr>"

lemma RegisterToolset_registers_witness:
  "\<exists>r'. RegisterToolset Register NewRegistry [example_tool ''a'', example_tool ''b'']
      [example_handler ''a'', example_handler ''b''] = Inr r' \<and>
     dr_order r' = [''a'', ''b''] \<and> registry_Count r' = 2"
proof -
  obtain r' where r': "RegisterToolset Register NewRegistry [example_tool ''a'', example_tool ''b'']
      [example_handler ''a'', example_handler ''b''] = Inr r'"
    by (simp add: Register_def NewRegistry_def example_tool_def example_handler_def Let_def)
  show ?thesis
    using RegisterToolset_registers [OF registry_wf_New r'] r'
    by (simp add: example_tool_def NewRegistry_def registry_Count_def)
qed

subsection \<open>The registry of one run\<close>

text \<open>run_state.go, \<^verbatim>\<open>executionToolRegistry\<close>: run toolsets overlay the agent's own registry; the owner
  of a name says which of the two executes it.\<close>

datatype tool_owner = OwnerBase | OwnerOverlay

record exec_registry =
  xr_tools :: "tool list"
  xr_by_name :: "string \<rightharpoonup> tool"
  xr_owner :: "string \<rightharpoonup> tool_owner"
  xr_has_executor :: bool
  xr_base :: "tool_registry option"
  xr_overlay :: default_registry

definition empty_exec_registry :: "tool_registry option \<Rightarrow> exec_registry" where
  "empty_exec_registry base =
     \<lparr>xr_tools = [], xr_by_name = Map.empty, xr_owner = Map.empty,
      xr_has_executor = (base \<noteq> None), xr_base = base, xr_overlay = NewRegistry\<rparr>"

definition xr_add :: "exec_registry \<Rightarrow> tool \<Rightarrow> tool_owner \<Rightarrow> exec_registry" where
  "xr_add r t owner =
     r\<lparr>xr_tools := xr_tools r @ [t], xr_by_name := (xr_by_name r)(tool_name t \<mapsto> t),
       xr_owner := (xr_owner r)(tool_name t \<mapsto> owner)\<rparr>"

fun add_base_tools :: "exec_registry \<Rightarrow> tool list \<Rightarrow> exec_registry result" where
  "add_base_tools r [] = Inr r"
| "add_base_tools r (t # ts) =
     (if tool_name t = '''' then Inl (Plain ''agent registry contains a tool with an empty name'')
      else if xr_by_name r (tool_name t) \<noteq> None then
        Inl (Plain (''agent registry contains duplicate tool '' @ quote (tool_name t)))
      else add_base_tools (xr_add r t OwnerBase) ts)"

fun add_overlay_tools :: "exec_registry \<Rightarrow> tool list \<Rightarrow> tool_handler list \<Rightarrow> exec_registry result" where
  "add_overlay_tools r [] hs = Inr r"
| "add_overlay_tools r (t # ts) [] = Inl index_panic"
| "add_overlay_tools r (t # ts) (h # hs) =
     (let name = tool_name t in
      if name = '''' then Inl (Plain ''run toolset contains a tool with an empty name'')
      else if xr_by_name r name \<noteq> None then
        Inl (Plain (''run tool overlay duplicates registered tool '' @ quote name))
      else (case Register (xr_overlay r) t h of
              Inl e \<Rightarrow> Inl (wrap_cause (''register run tool '' @ quote name) e)
            | Inr ov \<Rightarrow>
                add_overlay_tools
                  ((xr_add r t OwnerOverlay)\<lparr>xr_overlay := ov, xr_has_executor := True\<rparr>) ts hs))"

fun add_toolsets :: "exec_registry \<Rightarrow> toolset option list \<Rightarrow> exec_registry result" where
  "add_toolsets r [] = Inr r"
| "add_toolsets r (None # sets) = Inl (Plain ''run toolset must not be nil'')"
| "add_toolsets r (Some s # sets) =
     (if length (ts_tools s) \<noteq> length (ts_handlers s) then
        Inl (Plain (''run toolset returned '' @ show_nat (length (ts_tools s)) @
          '' definitions for '' @ show_nat (length (ts_handlers s)) @ '' handlers''))
      else (case add_overlay_tools r (ts_tools s) (ts_handlers s) of
              Inl e \<Rightarrow> Inl e
            | Inr r' \<Rightarrow> add_toolsets r' sets))"

definition buildExecutionToolRegistry ::
  "tool_registry option \<Rightarrow> toolset option list \<Rightarrow> exec_registry result" where
  "buildExecutionToolRegistry base sets =
     (case add_base_tools (empty_exec_registry base)
             (case base of None \<Rightarrow> [] | Some b \<Rightarrow> reg_tools b) of
        Inl e \<Rightarrow> Inl e
      | Inr r \<Rightarrow> add_toolsets r sets)"

definition xr_Count :: "exec_registry \<Rightarrow> nat" where
  "xr_Count r = length (xr_tools r)"

definition xr_Tool :: "exec_registry \<Rightarrow> string \<Rightarrow> tool option" where
  "xr_Tool r name = xr_by_name r name"

definition xr_Get :: "exec_registry \<Rightarrow> string \<Rightarrow> tool_handler option" where
  "xr_Get r name =
     (case xr_owner r name of
        None \<Rightarrow> None
      | Some OwnerOverlay \<Rightarrow> dr_handlers (xr_overlay r) name
      | Some OwnerBase \<Rightarrow> (case xr_base r of None \<Rightarrow> None | Some b \<Rightarrow> reg_get b name))"

definition xr_Execute ::
  "(json \<Rightarrow> json \<Rightarrow> go_error option) \<Rightarrow> exec_registry \<Rightarrow> tool_use \<Rightarrow> handler_reply \<Rightarrow>
     tool_execution_result \<times> go_error option" where
  "xr_Execute validate r call reply =
     (case xr_owner r (tu_name call) of
        Some OwnerOverlay \<Rightarrow> registry_Execute validate (xr_overlay r) call reply
      | _ \<Rightarrow>
          (case xr_base r of
             Some b \<Rightarrow> reg_execute b call reply
           | None \<Rightarrow> (makeToolResultError call (''Unknown tool: '' @ tu_name call) None, None)))"

subsection \<open>What building it establishes\<close>

definition xr_wf :: "exec_registry \<Rightarrow> bool" where
  "xr_wf r \<longleftrightarrow>
     distinct (map tool_name (xr_tools r)) \<and> '''' \<notin> set (map tool_name (xr_tools r)) \<and>
     dom (xr_by_name r) = set (map tool_name (xr_tools r)) \<and>
     dom (xr_owner r) = set (map tool_name (xr_tools r)) \<and>
     registry_wf (xr_overlay r) \<and>
     (\<forall>n. xr_owner r n = Some OwnerOverlay \<longleftrightarrow> dr_handlers (xr_overlay r) n \<noteq> None) \<and>
     (\<forall>n t. xr_by_name r n = Some t \<longrightarrow> tool_name t = n) \<and>
     (xr_tools r \<noteq> [] \<longrightarrow> xr_has_executor r)"

lemma xr_wf_fresh:
  assumes "xr_wf r"
  shows "xr_by_name r n = None \<longleftrightarrow> n \<notin> set (map tool_name (xr_tools r))"
    "xr_owner r n = None \<longleftrightarrow> n \<notin> set (map tool_name (xr_tools r))"
    "xr_owner r n = Some OwnerOverlay \<longleftrightarrow> dr_handlers (xr_overlay r) n \<noteq> None"
  using assms unfolding xr_wf_def by (metis domIff)+

lemma xr_wf_empty: "xr_wf (empty_exec_registry base)"
  by (simp add: xr_wf_def empty_exec_registry_def NewRegistry_def registry_wf_def)

lemma xr_wf_base:
  "xr_wf r \<Longrightarrow> xr_has_executor r \<Longrightarrow> add_base_tools r ts = Inr r' \<Longrightarrow>
     xr_wf r' \<and> xr_base r' = xr_base r \<and> xr_overlay r' = xr_overlay r \<and> xr_has_executor r'"
proof (induction r ts rule: add_base_tools.induct)
  case (2 r t ts)
  then have new: "xr_by_name r (tool_name t) = None" "tool_name t \<noteq> ''''"
    and rest: "add_base_tools (xr_add r t OwnerBase) ts = Inr r'"
    by (auto split: if_splits)
  note fresh = xr_wf_fresh [OF "2.prems"(1), of "tool_name t"]
  have wf: "xr_wf (xr_add r t OwnerBase)"
    using new fresh "2.prems"(1,2) unfolding xr_wf_def xr_add_def by (simp add: insert_commute)
  have "xr_has_executor (xr_add r t OwnerBase)" using "2.prems"(2) by (simp add: xr_add_def)
  from "2.IH" [OF new(2) _ wf this rest] new(1) show ?case
    by (simp add: xr_add_def)
qed simp

lemma xr_wf_overlay_step:
  assumes "xr_wf r" "tool_name t \<noteq> ''''" "xr_by_name r (tool_name t) = None"
    "Register (xr_overlay r) t h = Inr ov"
  shows "xr_wf ((xr_add r t OwnerOverlay)\<lparr>xr_overlay := ov, xr_has_executor := True\<rparr>)"
proof -
  have "registry_wf (xr_overlay r)" using assms(1) by (simp add: xr_wf_def)
  then have "registry_wf ov" using assms(4) registry_wf_Register by blast
  then show ?thesis
    using assms(1,2,3) Register_InrD [OF assms(4)] xr_wf_fresh [OF assms(1), of "tool_name t"]
    unfolding xr_wf_def xr_add_def by simp
qed

lemma xr_wf_overlay:
  "xr_wf r \<Longrightarrow> add_overlay_tools r ts hs = Inr r' \<Longrightarrow> xr_wf r' \<and> xr_base r' = xr_base r"
proof (induction r ts hs rule: add_overlay_tools.induct)
  case (3 r t ts h hs)
  then obtain ov where ov: "tool_name t \<noteq> ''''" "xr_by_name r (tool_name t) = None"
      "Register (xr_overlay r) t h = Inr ov"
    by (auto simp: Let_def split: if_splits sum.splits)
  note wf = xr_wf_overlay_step [OF "3.prems"(1) ov]
  from "3.IH" [OF refl _ _ ov(3) wf] ov "3.prems"(2) show ?case
    by (simp add: Let_def xr_add_def)
qed auto

lemma xr_wf_toolsets:
  "xr_wf r \<Longrightarrow> add_toolsets r sets = Inr r' \<Longrightarrow> xr_wf r' \<and> xr_base r' = xr_base r"
proof (induction r sets rule: add_toolsets.induct)
  case (3 r s sets)
  then obtain r1 where r1: "add_overlay_tools r (ts_tools s) (ts_handlers s) = Inr r1"
      "add_toolsets r1 sets = Inr r'" "\<not> length (ts_tools s) \<noteq> length (ts_handlers s)"
    by (simp split: if_splits sum.splits)
  from xr_wf_overlay [OF "3.prems"(1) r1(1)] "3.IH" [OF r1(3,1) _ r1(2)] show ?case by simp
qed simp_all

lemma buildExecutionToolRegistry_wf:
  "buildExecutionToolRegistry base sets = Inr r \<Longrightarrow> xr_wf r \<and> xr_base r = base"
proof (cases base)
  case None
  assume "buildExecutionToolRegistry base sets = Inr r"
  then have "add_toolsets (empty_exec_registry base) sets = Inr r"
    using None by (simp add: buildExecutionToolRegistry_def)
  from xr_wf_toolsets [OF xr_wf_empty this] show ?thesis by (simp add: empty_exec_registry_def)
next
  case (Some b)
  assume "buildExecutionToolRegistry base sets = Inr r"
  then obtain r1 where r1: "add_base_tools (empty_exec_registry base) (reg_tools b) = Inr r1"
      "add_toolsets r1 sets = Inr r"
    using Some by (auto simp: buildExecutionToolRegistry_def split: sum.splits)
  have "xr_has_executor (empty_exec_registry base)" "xr_base (empty_exec_registry base) = base"
    using Some by (simp_all add: empty_exec_registry_def)
  then show ?thesis
    using xr_wf_base [OF xr_wf_empty _ r1(1)] xr_wf_toolsets [OF _ r1(2)] by simp
qed

lemma result_for_registry [simp]: "result_for call (fst (registry_Execute validate r call reply))"
  by (auto simp: registry_Execute_def unknown_tool_result_def error_result_def result_for_def
      Let_def split: option.splits sum.splits)

lemma result_for_xr_Execute:
  assumes "\<forall>b. xr_base r = Some b \<longrightarrow> result_for call (fst (reg_execute b call reply))"
  shows "result_for call (fst (xr_Execute validate r call reply))"
  using assms by (auto simp: xr_Execute_def split: option.splits tool_owner.splits)

text \<open>
  A run registry that builds has distinct, non-empty tool names; a tool added by a run toolset
  has a handler of its own name and is executed by the overlay, and no such tool shadows one of the
  agent's registry.
\<close>

theorem buildExecutionToolRegistry_routes:
  assumes "buildExecutionToolRegistry base sets = Inr r"
  shows "distinct (map tool_name (xr_tools r)) \<and> '''' \<notin> set (map tool_name (xr_tools r)) \<and>
    (\<forall>t \<in> set (xr_tools r). xr_Tool r (tool_name t) \<noteq> None \<and>
       (xr_owner r (tool_name t) = Some OwnerOverlay \<longrightarrow>
          (\<exists>h. xr_Get r (tool_name t) = Some h \<and> h_name h = tool_name t)) \<and>
       (xr_owner r (tool_name t) \<noteq> Some OwnerOverlay \<longrightarrow>
          dr_handlers (xr_overlay r) (tool_name t) = None))"
proof -
  have wf: "xr_wf r" using buildExecutionToolRegistry_wf [OF assms] by simp
  have get: "\<exists>h. xr_Get r n = Some h \<and> h_name h = n" if own: "xr_owner r n = Some OwnerOverlay" for n
  proof -
    obtain h where "dr_handlers (xr_overlay r) n = Some h"
      using own xr_wf_fresh(3) [OF wf] by blast
    moreover have "registry_wf (xr_overlay r)" using wf by (simp add: xr_wf_def)
    ultimately show ?thesis using own by (auto simp: xr_Get_def registry_wf_def)
  qed
  have "xr_Tool r (tool_name t) \<noteq> None" if "t \<in> set (xr_tools r)" for t
    using that xr_wf_fresh(1) [OF wf, of "tool_name t"] by (auto simp: xr_Tool_def)
  then show ?thesis using get wf xr_wf_fresh(3) [OF wf] unfolding xr_wf_def by blast
qed

lemma buildExecutionToolRegistry_routes_witness:
  "\<exists>r. buildExecutionToolRegistry None
       [Some \<lparr>ts_tools = [example_tool ''a''], ts_handlers = [example_handler ''a'']\<rparr>] = Inr r \<and>
     (\<exists>h. xr_Get r ''a'' = Some h \<and> h_name h = ''a'')"
proof -
  obtain r where r: "buildExecutionToolRegistry None
      [Some \<lparr>ts_tools = [example_tool ''a''], ts_handlers = [example_handler ''a'']\<rparr>] = Inr r"
      "xr_tools r = [example_tool ''a'']" "xr_owner r ''a'' = Some OwnerOverlay"
    by (simp add: buildExecutionToolRegistry_def Register_def NewRegistry_def example_tool_def
        example_handler_def Let_def empty_exec_registry_def xr_add_def)
  then show ?thesis
    using buildExecutionToolRegistry_routes [OF r(1)] by (auto simp: example_tool_def)
qed

end
