(* ===== verification/Tool_Gate.thy ===== *)
theory Tool_Gate
  imports Tool_Types
begin

text \<open>
  tool_control.go and \<^verbatim>\<open>validateToolBatchDecision\<close> of tool_scheduler.go: the contract between the
  driver and a tool gate.  A gate sees the whole batch of regular calls before any handler starts and
  returns one disposition per call; the driver accepts the answer only if it is coherent.

  The interface is the locale \<open>tool_gate\<close>: what a gate promises, and what the driver may then rely
  on.  The default gate interprets it here, the permission gate in the theory Permission.
\<close>

datatype disposition_kind =
    ToolDispositionInvalid | ToolDispositionExecute | ToolDispositionReturn | ToolDispositionSuspend
  | DispositionOther nat

record tool_disposition =
  di_kind :: disposition_kind
  di_result :: "tool_execution_result option"
  di_continue :: bool

record tool_batch_decision =
  bd_calls :: "tool_disposition list"
  bd_deferral :: "tool_deferral option"

definition allowAllToolGate :: "tool_use list \<Rightarrow> tool_batch_decision" where
  "allowAllToolGate calls =
     \<lparr>bd_calls = map (\<lambda>_. \<lparr>di_kind = ToolDispositionExecute, di_result = None,
                            di_continue = False\<rparr>) calls,
      bd_deferral = None\<rparr>"

subsection \<open>The check of the driver\<close>

definition check_disposition :: "tool_use \<Rightarrow> tool_disposition \<Rightarrow> go_error option" where
  "check_disposition call d =
     (case di_kind d of
        ToolDispositionExecute \<Rightarrow>
          if di_result d \<noteq> None then
            Some (Plain (''tool gate supplied a result for executable call '' @ quote (tu_id call)))
          else None
      | ToolDispositionReturn \<Rightarrow>
          (case di_result d of
             None \<Rightarrow> Some (Plain (''tool gate returned no result for call '' @ quote (tu_id call)))
           | Some r \<Rightarrow> validateToolResultIdentity call r)
      | ToolDispositionSuspend \<Rightarrow>
          if di_result d \<noteq> None \<or> di_continue d then
            Some (Plain (''tool gate supplied result or continuation for suspended call '' @
              quote (tu_id call)))
          else None
      | _ \<Rightarrow> Some (Plain (''tool gate returned an invalid disposition for call '' @
                quote (tu_id call))))"

fun check_dispositions ::
  "bool \<Rightarrow> tool_use list \<Rightarrow> tool_disposition list \<Rightarrow> bool result" where
  "check_dispositions hasSuspend (c # cs) (d # ds) =
     (case check_disposition c d of
        Some e \<Rightarrow> Inl e
      | None \<Rightarrow> check_dispositions (hasSuspend \<or> di_kind d = ToolDispositionSuspend) cs ds)"
| "check_dispositions hasSuspend _ _ = Inr hasSuspend"

definition validateToolBatchDecision :: "tool_use list \<Rightarrow> tool_batch_decision \<Rightarrow> bool result" where
  "validateToolBatchDecision calls decision =
     (if length (bd_calls decision) \<noteq> length calls then
        Inl (Plain (''tool gate returned '' @ show_nat (length (bd_calls decision)) @
          '' dispositions for '' @ show_nat (length calls) @ '' calls''))
      else (case check_dispositions False calls (bd_calls decision) of
              Inl e \<Rightarrow> Inl e
            | Inr True \<Rightarrow>
                (case bd_deferral decision of
                   Some d \<Rightarrow> if td_kind d = ''''
                     then Inl (Plain ''tool gate suspension requires one non-empty deferral'')
                     else Inr True
                 | None \<Rightarrow> Inl (Plain ''tool gate suspension requires one non-empty deferral''))
            | Inr False \<Rightarrow>
                if bd_deferral decision \<noteq> None
                then Inl (Plain ''tool gate returned a deferral without a suspended call'')
                else Inr False))"

subsection \<open>What an accepted decision is\<close>

definition coherent :: "tool_use \<Rightarrow> tool_disposition \<Rightarrow> bool" where
  "coherent call d \<longleftrightarrow>
     di_kind d = ToolDispositionExecute \<and> di_result d = None \<or>
     di_kind d = ToolDispositionReturn \<and> (\<exists>r. di_result d = Some r \<and> result_for call r) \<or>
     di_kind d = ToolDispositionSuspend \<and> di_result d = None \<and> \<not> di_continue d"

definition some_suspended :: "tool_batch_decision \<Rightarrow> bool" where
  "some_suspended decision \<longleftrightarrow> (\<exists>d \<in> set (bd_calls decision). di_kind d = ToolDispositionSuspend)"

definition decision_ok :: "tool_use list \<Rightarrow> tool_batch_decision \<Rightarrow> bool" where
  "decision_ok calls decision \<longleftrightarrow>
     list_all2 coherent calls (bd_calls decision) \<and>
     (some_suspended decision \<longrightarrow> (\<exists>d. bd_deferral decision = Some d \<and> td_kind d \<noteq> '''')) \<and>
     (\<not> some_suspended decision \<longrightarrow> bd_deferral decision = None)"

lemma check_disposition_None: "check_disposition call d = None \<longleftrightarrow> coherent call d"
  by (auto simp: check_disposition_def coherent_def split: disposition_kind.splits option.splits)

lemma check_dispositions_Inr:
  "length cs = length ds \<Longrightarrow>
     check_dispositions s cs ds = Inr b \<longleftrightarrow>
       list_all2 coherent cs ds \<and> b = (s \<or> (\<exists>d \<in> set ds. di_kind d = ToolDispositionSuspend))"
proof (induction s cs ds rule: check_dispositions.induct)
  case (1 s c cs d ds)
  then show ?case
    by (cases "check_disposition c d") (auto simp: check_disposition_None [symmetric])
qed auto

lemma validateToolBatchDecision_Inr:
  "validateToolBatchDecision calls decision = Inr b \<longleftrightarrow>
     decision_ok calls decision \<and> b = some_suspended decision"
proof (cases "length calls = length (bd_calls decision)")
  case True
  note check = check_dispositions_Inr [OF True, of False]
  show ?thesis
  proof (cases "check_dispositions False calls (bd_calls decision)")
    case (Inl e)
    then have "\<not> list_all2 coherent calls (bd_calls decision)"
      using check by (metis Inl_Inr_False)
    with Inl True show ?thesis by (simp add: validateToolBatchDecision_def decision_ok_def)
  next
    case (Inr s)
    then have "list_all2 coherent calls (bd_calls decision)" "s = some_suspended decision"
      using check [of s] by (simp_all add: some_suspended_def)
    then show ?thesis
      using Inr True
      by (auto simp: validateToolBatchDecision_def decision_ok_def split: bool.splits option.splits)
  qed
next
  case False
  then show ?thesis
    by (auto simp: validateToolBatchDecision_def decision_ok_def dest: list_all2_lengthD)
qed

text \<open>
  The driver accepts a gate's decision exactly when it has one coherent disposition per call, in
  order (an executable call carries no result, a returned result names its call, a suspended call
  carries neither result nor continuation), and a deferral of non-empty kind exactly when some call
  is suspended; the flag it returns says whether the batch is suspended.
\<close>

theorem validateToolBatchDecision_decides:
  "case validateToolBatchDecision calls decision of
     Inl e \<Rightarrow> \<not> decision_ok calls decision
   | Inr suspended \<Rightarrow> decision_ok calls decision \<and> suspended = some_suspended decision"
  using validateToolBatchDecision_Inr [of calls decision]
  by (cases "validateToolBatchDecision calls decision") auto

subsection \<open>The interface of a gate\<close>

locale tool_gate =
  fixes evaluate :: "'s \<Rightarrow> tool_use list \<Rightarrow> tool_batch_decision result"
    and inv :: "'s \<Rightarrow> bool"
  assumes evaluate_ok: "inv s \<Longrightarrow> evaluate s calls = Inr d \<Longrightarrow> decision_ok calls d"
begin

lemma accepted:
  "inv s \<Longrightarrow> evaluate s calls = Inr d \<Longrightarrow>
     validateToolBatchDecision calls d = Inr (some_suspended d)"
  using evaluate_ok validateToolBatchDecision_Inr by blast

lemma executes_only_without_suspension:
  "inv s \<Longrightarrow> evaluate s calls = Inr d \<Longrightarrow> bd_deferral d = None \<Longrightarrow>
     list_all2 (\<lambda>c x. di_kind x = ToolDispositionExecute \<or>
       (\<exists>r. di_kind x = ToolDispositionReturn \<and> di_result x = Some r \<and> result_for c r))
     calls (bd_calls d)"
  using evaluate_ok [of s calls d]
  by (auto simp: decision_ok_def coherent_def some_suspended_def list_all2_conv_all_nth all_set_conv_all_nth)

end

lemma decision_ok_allowAll: "decision_ok calls (allowAllToolGate calls)"
  by (auto simp: decision_ok_def allowAllToolGate_def some_suspended_def coherent_def
      list_all2_conv_all_nth)

interpretation allow_all: tool_gate "\<lambda>(_::unit) calls. Inr (allowAllToolGate calls)" "\<lambda>_. True"
  by unfold_locales (use decision_ok_allowAll in auto)

end
