(* ===== verification/History.thy ===== *)
theory History
  imports Chat
begin

text \<open>
  history_processor.go: the transformations of a history before it is sent to the model.  A
  processor maps messages to messages or an error; the context it receives is not read by these
  four.  A slice expression with a bound out of range is a run-time panic and is a branch here.
\<close>

type_synonym history_proc = "message list \<Rightarrow> message list result"

fun role_text :: "message_role \<Rightarrow> string" where
  "role_text RoleSystem = ''system''"
| "role_text RoleUser = ''user''"
| "role_text RoleAssistant = ''assistant''"
| "role_text RoleTool = ''tool''"
| "role_text (RoleOther s) = s"

text \<open>The system prompt, if it is the first message, and the rest.\<close>

definition split_system :: "message list \<Rightarrow> message list \<times> message list" where
  "split_system messages =
     (case messages of
        m # ms \<Rightarrow> if m_role m = RoleSystem then ([m], ms) else ([], messages)
      | [] \<Rightarrow> ([], []))"

definition slice_panic :: go_error where
  "slice_panic = RuntimePanic ''slice bounds out of range''"

definition TruncateHistory :: "int \<Rightarrow> history_proc" where
  "TruncateHistory maxMessages messages =
     (if int (length messages) \<le> maxMessages then Inr messages
      else let (prefix, rest) = split_system messages in
        if int (length rest) \<le> maxMessages then Inr messages
        else if maxMessages < 0 then Inl slice_panic
        else Inr (prefix @ drop (length rest - nat maxMessages) rest))"

text \<open>The backwards walk: the unread part of the rest is given in reverse order.\<close>

fun window_loop :: "(message \<Rightarrow> int) \<Rightarrow> int \<Rightarrow> message list \<Rightarrow> message list \<Rightarrow> message list" where
  "window_loop cost budget [] window = window"
| "window_loop cost budget (m # older) window =
     (if budget - cost m < 0 then window
      else window_loop cost (budget - cost m) older (m # window))"

definition SlidingWindowHistory :: "int \<Rightarrow> (message \<Rightarrow> int) \<Rightarrow> history_proc" where
  "SlidingWindowHistory maxTokens tokenCounter messages =
     (if messages = [] then Inr messages
      else let (systemMsg, rest) = split_system messages;
               budget = maxTokens - sum_list (map tokenCounter systemMsg) in
        if budget \<le> 0 then Inr systemMsg
        else Inr (systemMsg @ window_loop tokenCounter budget (rev rest) []))"

definition summary_prompt :: "message list \<Rightarrow> string" where
  "summary_prompt old =
     ''Summarize the following conversation concisely, preserving key facts and decisions:'' @
     [char_of (10::nat), char_of (10::nat)] @
     concat (map (\<lambda>m. ''['' @ role_text (m_role m) @ '']: '' @ GetTextContent m @
       [char_of (10::nat)]) old)"

definition SummarizeHistory ::
  "string \<Rightarrow> (chat_request \<Rightarrow> chat_response result) \<Rightarrow> int \<Rightarrow> history_proc" where
  "SummarizeHistory modelName request maxMessages messages =
     (if int (length messages) \<le> maxMessages then Inr messages
      else let (systemMsg, rest) = split_system messages in
        if int (length rest) \<le> maxMessages then Inr messages
        else if maxMessages < 0 then Inl slice_panic
        else let cutoff = length rest - nat maxMessages;
                 old = take cutoff rest; recent = drop cutoff rest in
          (case request (plain_request modelName [NewTextMessage RoleUser (summary_prompt old)]) of
             Inl e \<Rightarrow> Inl (wrap_cause ''summarize history'' e)
           | Inr resp \<Rightarrow>
               let summaryText = GetTextContent (rs_message resp) in
               if summaryText = ''''
               then Inl (wrap_cause ''summarize history''
                      (ProviderError ''summary response contained no text''))
               else Inr (systemMsg @
                 [NewTextMessage RoleUser (''[Conversation summary]: '' @ summaryText)] @ recent)))"

fun ChainProcessors :: "history_proc list \<Rightarrow> history_proc" where
  "ChainProcessors [] messages = Inr messages"
| "ChainProcessors (p # ps) messages =
     (case p messages of Inl e \<Rightarrow> Inl e | Inr current \<Rightarrow> ChainProcessors ps current)"

subsection \<open>Shape of the results\<close>

lemma split_system_append: "split_system ms = (pre, rest) \<Longrightarrow> ms = pre @ rest \<and> length pre \<le> 1"
  by (auto simp: split_system_def split: list.splits if_splits)

lemma split_system_system: "split_system ms = (pre, rest) \<Longrightarrow> \<forall>m \<in> set pre. m_role m = RoleSystem"
  by (auto simp: split_system_def split: list.splits if_splits)

lemma window_loop_spec:
  "\<exists>n. window_loop cost b older w = rev (take n older) @ w \<and> n \<le> length older \<and>
     (0 \<le> b \<longrightarrow> sum_list (map cost (take n older)) \<le> b) \<and>
     (n < length older \<longrightarrow> sum_list (map cost (take (Suc n) older)) > b)"
proof (induction older arbitrary: b w)
  case Nil
  then show ?case by simp
next
  case (Cons m older)
  show ?case
  proof (cases "b - cost m < 0")
    case True
    then show ?thesis by (intro exI [of _ 0]) simp
  next
    case False
    obtain n where n: "window_loop cost (b - cost m) older (m # w) = rev (take n older) @ m # w"
      "n \<le> length older" "0 \<le> b - cost m \<longrightarrow> sum_list (map cost (take n older)) \<le> b - cost m"
      "n < length older \<longrightarrow> sum_list (map cost (take (Suc n) older)) > b - cost m"
      using Cons.IH [of "b - cost m" "m # w"] by auto
    show ?thesis using False n by (intro exI [of _ "Suc n"]) auto
  qed
qed

text \<open>The longest suffix that fits a budget.\<close>

definition longest_fitting :: "(message \<Rightarrow> int) \<Rightarrow> int \<Rightarrow> message list \<Rightarrow> message list \<Rightarrow> bool" where
  "longest_fitting cost b rest w \<longleftrightarrow>
     (\<exists>older. rest = older @ w \<and> sum_list (map cost w) \<le> b \<and>
        (older = [] \<or> sum_list (map cost (last older # w)) > b))"

lemma window_loop_longest:
  assumes "0 \<le> b"
  shows "longest_fitting cost b rest (window_loop cost b (rev rest) [])"
proof -
  obtain n where n: "window_loop cost b (rev rest) [] = rev (take n (rev rest))"
    "n \<le> length rest" "sum_list (map cost (take n (rev rest))) \<le> b"
    "n < length rest \<longrightarrow> sum_list (map cost (take (Suc n) (rev rest))) > b"
    using window_loop_spec [of cost b "rev rest" "[]"] assms by auto
  let ?w = "rev (take n (rev rest))" and ?o = "take (length rest - n) rest"
  have w: "?w = drop (length rest - n) rest" using n(2) by (simp add: rev_take)
  have sums: "sum_list (map cost ?w) = sum_list (map cost (take n (rev rest)))"
    by (metis rev_map sum_list_rev)
  have step: "sum_list (map cost (take (Suc n) (rev rest))) = sum_list (map cost (last ?o # ?w))"
    if "n < length rest"
  proof -
    have l: "last ?o = rest ! (length rest - n - 1)"
      using that by (subst last_conv_nth) auto
    have "take (Suc n) (rev rest) = take n (rev rest) @ [rest ! (length rest - n - 1)]"
      using that by (simp add: take_Suc_conv_app_nth rev_nth)
    then have "sum_list (map cost (take (Suc n) (rev rest))) =
        sum_list (map cost (take n (rev rest))) + cost (rest ! (length rest - n - 1))"
      by simp
    then show ?thesis using sums l by (simp add: add.commute)
  qed
  have "rest = ?o @ ?w" using w by simp
  moreover have "?o = [] \<or> sum_list (map cost (last ?o # ?w)) > b"
    using n(4) step by (cases "n < length rest") auto
  ultimately show ?thesis unfolding longest_fitting_def n(1)
    using sums n(3) by (intro exI [of _ ?o]) simp
qed

text \<open>
  The sliding window is optimal: whenever the system prompt leaves a positive budget, the
  result is the system prompt followed by the longest suffix of the other messages whose total
  cost fits that budget; otherwise it is the system prompt alone.
\<close>

theorem SlidingWindowHistory_longest:
  "case SlidingWindowHistory maxTokens cost messages of
     Inl e \<Rightarrow> False
   | Inr out \<Rightarrow>
       (let (sys, rest) = split_system messages; b = maxTokens - sum_list (map cost sys) in
        if messages = [] then out = []
        else if b \<le> 0 then out = sys
        else (\<exists>w. out = sys @ w \<and> longest_fitting cost b rest w))"
  using window_loop_longest
  by (auto simp: SlidingWindowHistory_def Let_def split: prod.splits)

text \<open>
  Truncation keeps the system prompt and exactly the last \<^verbatim>\<open>maxMessages\<close> of the other messages,
  for every limit that is not negative.
\<close>

theorem TruncateHistory_suffix:
  assumes "0 \<le> maxMessages" "split_system messages = (sys, rest)"
  shows "\<exists>older recent. rest = older @ recent \<and> TruncateHistory maxMessages messages = Inr (sys @ recent) \<and>
    int (length recent) = min (int (length rest)) maxMessages"
proof (cases "int (length rest) \<le> maxMessages")
  case True
  then show ?thesis using split_system_append [OF assms(2)] assms
    by (intro exI [of _ "[]"] exI [of _ rest]) (auto simp: TruncateHistory_def)
next
  case False
  let ?k = "length rest - nat maxMessages"
  show ?thesis using split_system_append [OF assms(2)] assms False
    by (intro exI [of _ "take ?k rest"] exI [of _ "drop ?k rest"]) (auto simp: TruncateHistory_def)
qed

theorem TruncateHistory_suffix_witness:
  "TruncateHistory 1 [NewTextMessage RoleSystem ''s'', NewTextMessage RoleUser ''a'',
      NewTextMessage RoleUser ''b''] =
   Inr [NewTextMessage RoleSystem ''s'', NewTextMessage RoleUser ''b'']"
proof -
  have s: "split_system [NewTextMessage RoleSystem ''s'', NewTextMessage RoleUser ''a'',
      NewTextMessage RoleUser ''b''] =
    ([NewTextMessage RoleSystem ''s''], [NewTextMessage RoleUser ''a'', NewTextMessage RoleUser ''b''])"
    by (simp add: split_system_def)
  obtain older recent where "[NewTextMessage RoleUser ''a'', NewTextMessage RoleUser ''b''] = older @ recent"
    "TruncateHistory 1 [NewTextMessage RoleSystem ''s'', NewTextMessage RoleUser ''a'',
      NewTextMessage RoleUser ''b''] = Inr ([NewTextMessage RoleSystem ''s''] @ recent)"
    "int (length recent) = 1"
    using TruncateHistory_suffix [OF _ s, of 1] by auto
  moreover from this have "recent = [NewTextMessage RoleUser ''b'']"
    by (cases older) (auto simp: Cons_eq_append_conv)
  ultimately show ?thesis by simp
qed

end
