(* ===== verification/Loop_State.thy ===== *)
theory Loop_State
  imports Tool_Registry Tool_Gate History
begin

text \<open>
  The state of one agent run (run_state.go), the events it emits (events.go), and the outside world
  it talks to.

  Everything a run calls that is not its own code is a field of the record \<open>env\<close>: the event sink,
  the context, the model, the gate, the result processor, the turn hook, the completion evaluator,
  the handlers, JSON and hashing.  These calls are not functions of their arguments alone; each
  receives the list of everything the run has done so far (the effect log \<open>ls_log\<close>), so it may
  answer differently at each call.  Properties quantify over all environments.

  Instrumentation spans (instrumentation.go) observe a run without influencing it and are left out.
\<close>

subsection \<open>Events\<close>

datatype execution_status =
  ExecutionCompleted | ExecutionSuspended | ExecutionStopped | ExecutionInterrupted | ExecutionFailed

record suspension =
  sp_id :: string
  sp_kind :: string
  sp_frontier_hash :: string
  sp_payload :: string

datatype completion_source = CompletionNone | CompletionText | CompletionOutputTool

record completion_candidate =
  cc_source :: completion_source
  cc_tool_call_id :: string

definition no_candidate :: completion_candidate where
  "no_candidate = \<lparr>cc_source = CompletionNone, cc_tool_call_id = ''''\<rparr>"

definition candidate_Valid :: "completion_candidate \<Rightarrow> bool" where
  "candidate_Valid c = (cc_source c \<noteq> CompletionNone)"

text \<open>The first argument of every event is its turn index.\<close>

datatype event =
    TextPreview int string
  | ThinkingPreview int string string string string
  | ToolCallPreview int tool_use
  | ToolArgumentPreview int string string
  | AssistantCommitted int message
  | ToolBatchPlanned int "tool_use list"
  | ToolStarted int tool_use int
  | ToolResultCommitted int tool_execution_result
  | OutputValidated int completion_candidate
  | TurnMessagesInjected int "message list"
  | RunStarted int
  | TurnStarted int
  | TurnEnded int completion_candidate usage
  | RunSuspended int suspension
  | RunCompleted int usage finish_reason
  | RunInterrupted int
  | RunError int go_error
  | RunEnded int execution_status

datatype event_nature = EventPreview | EventAuthoritative | EventLifecycle

fun event_Nature :: "event \<Rightarrow> event_nature" where
  "event_Nature (TextPreview _ _) = EventPreview"
| "event_Nature (ThinkingPreview _ _ _ _ _) = EventPreview"
| "event_Nature (ToolCallPreview _ _) = EventPreview"
| "event_Nature (ToolArgumentPreview _ _ _) = EventPreview"
| "event_Nature (AssistantCommitted _ _) = EventAuthoritative"
| "event_Nature (ToolBatchPlanned _ _) = EventAuthoritative"
| "event_Nature (ToolStarted _ _ _) = EventAuthoritative"
| "event_Nature (ToolResultCommitted _ _) = EventAuthoritative"
| "event_Nature (OutputValidated _ _) = EventAuthoritative"
| "event_Nature (TurnMessagesInjected _ _) = EventAuthoritative"
| "event_Nature _ = EventLifecycle"

text \<open>The state a turn hook sees, and what it may answer.\<close>

record turn =
  tn_index :: int
  tn_messages :: "message list"
  tn_assistant :: message
  tn_results :: "tool_execution_result list"
  tn_usage :: usage
  tn_candidate :: completion_candidate

datatype turn_action = TurnDefault | TurnContinue | TurnStop | TurnActionOther nat

record turn_decision =
  td_action :: turn_action
  td_inject :: "message list"

text \<open>A streamed response (internal/core/stream.go): the events the channel yields until it closes.\<close>

record stream_fields =
  se_delta :: string
  se_tool_use :: "tool_use option"
  se_tool_call_id :: string
  se_usage :: "usage option"
  se_error :: go_error
  se_signature :: string
  se_provider_name :: string
  se_thinking_id :: string
  se_finish_reason :: finish_reason

datatype stream_type =
    StreamTextDelta | StreamToolCallStart | StreamToolCallDelta | StreamToolResult | StreamDone
  | StreamError | StreamThinkingDelta

type_synonym stream_event = "stream_type \<times> stream_fields"

subsection \<open>Effects and the environment\<close>

record tool_resume_context =
  rc_suspension_id :: string
  rc_deferral :: tool_deferral
  rc_payload :: string

datatype effect =
    EmitE event
  | CtxPoll
  | HistoryProcess "message list"
  | PrepareTools "tool list"
  | ModelReq chat_request
  | StreamReq chat_request
  | GateEval "tool_use list"
  | ExecTool tool_use "tool_resume_context option"
  | ProcessResult tool_use tool_execution_result
  | HookCall turn
  | EvalCall message
  | FreshId

text \<open>What the scheduler of a tool batch observes, in the order it observes it: the reply of the
  i-th handler, the cancellation of the context, the end of the cancellation grace.\<close>

datatype arrival = Arrive nat handler_reply | Cancelled | GraceFired

datatype end_strategy = EndStrategyExhaustive | EndStrategyEarly

text \<open>The payload of a suspension (suspension.go).\<close>

record tool_suspension_payload =
  py_version :: int
  py_suspension_id :: string
  py_handler_suspension :: bool
  py_calls :: "tool_use list"
  py_executable_call_ids :: "string list"
  py_iteration :: int
  py_usage :: usage
  py_retry_counts :: "string \<rightharpoonup> int"
  py_total_retries :: int
  py_validation_retries :: int
  py_end_strategy :: end_strategy
  py_config_fingerprint :: string
  py_last_finish_reason :: finish_reason
  py_deferral :: tool_deferral

record 'o env =
  ev_sink :: "(effect list \<Rightarrow> event \<Rightarrow> go_error option) option"
  ev_ctx_err :: "effect list \<Rightarrow> go_error option"
  ev_prepare :: "(effect list \<Rightarrow> tool list \<Rightarrow> tool list result) option"
  ev_model :: "effect list \<Rightarrow> chat_request \<Rightarrow> chat_response result"
  ev_stream :: "(effect list \<Rightarrow> chat_request \<Rightarrow> stream_event list result) option"
  ev_gate :: "(effect list \<Rightarrow> tool_use list \<Rightarrow> tool_batch_decision result) option"
  ev_processor :: "(effect list \<Rightarrow> tool_use \<Rightarrow> tool_execution_result \<Rightarrow> tool_execution_result result) option"
  ev_hook :: "(effect list \<Rightarrow> turn \<Rightarrow> turn_decision result) option"
  ev_evaluate :: "effect list \<Rightarrow> message \<Rightarrow> 'o result"
  ev_arrivals :: "effect list \<Rightarrow> arrival list"
  ev_fresh_id :: "effect list \<Rightarrow> string"
  ev_marshal :: "content_value \<Rightarrow> string result"
  ev_validate :: "json \<Rightarrow> json \<Rightarrow> go_error option"
  ev_parse_args :: "string \<Rightarrow> json result"
  ev_encode :: "tool_suspension_payload \<Rightarrow> string result"
  ev_decode :: "string \<Rightarrow> tool_suspension_payload result"
  ev_frontier_hash :: "message list \<Rightarrow> tool_use list \<Rightarrow> string"
  ev_same_call :: "tool_use \<Rightarrow> tool_use \<Rightarrow> bool"

text \<open>A history processor may be one of the program's own (theory History) or the caller's; it
  reads the transcript only, so it is a function of the log and the messages as well.\<close>

type_synonym history_processor = "effect list \<Rightarrow> message list \<Rightarrow> message list result"

subsection \<open>Configuration\<close>

text \<open>\<^verbatim>\<open>agentCore\<close> and \<^verbatim>\<open>agentConfig\<close> (agent.go, agent_options.go), less the callbacks, which
  are in the environment, and the instrumentation.\<close>

record agent_core =
  ac_model_name :: string
  ac_system_prompt :: string
  ac_dynamic_prompt :: "string result option"
  ac_system_prompts :: "string list"
  ac_system_prompt_suffix :: string
  ac_registry :: "tool_registry option"
  ac_output_tool_names :: "string \<Rightarrow> bool"
  ac_response_format :: "response_format option"
  ac_temperature :: "float64 option"
  ac_max_tokens :: "int option"
  ac_top_p :: "float64 option"
  ac_max_iterations :: int
  ac_tool_choice :: "tool_choice option"
  ac_max_retries :: int
  ac_max_validation_retries :: int
  ac_usage_limits :: "usage_limits option"
  ac_thinking :: "thinking_config option"
  ac_prompt_cache :: "prompt_cache option"
  ac_end_strategy :: end_strategy
  ac_history_processor :: "history_processor option"

record run_options =
  op_messages :: "message list"
  op_temperature :: "float64 option"
  op_max_tokens :: "int option"
  op_top_p :: "float64 option"
  op_max_iterations :: "int option"
  op_tool_choice :: "tool_choice option"
  op_usage_limits :: "usage_limits option"
  op_end_strategy :: "end_strategy option"
  op_history_processor :: "history_processor option"
  op_toolsets :: "toolset option list"
  op_model_streaming :: "bool option"
  op_prompt_cache :: "prompt_cache option"

definition firstNonNil :: "'a option \<Rightarrow> 'a option \<Rightarrow> 'a option" where
  "firstNonNil a b = (case a of Some x \<Rightarrow> Some x | None \<Rightarrow> b)"

record loop_state =
  ls_messages :: "message list"
  ls_history_len :: nat
  ls_max_iterations :: int
  ls_usage_limits :: "usage_limits option"
  ls_end_strategy :: end_strategy
  ls_history_processor :: "history_processor option"
  ls_options :: run_options
  ls_registry :: exec_registry
  ls_all_tool_calls :: "tool_use list"
  ls_all_tool_results :: "tool_execution_result list"
  ls_total_usage :: usage
  ls_retry_counts :: "string \<rightharpoonup> int"
  ls_total_retries :: int
  ls_validation_retries :: int
  ls_iteration :: int
  ls_last_finish_reason :: finish_reason
  ls_config_fingerprint :: string
  ls_log :: "effect list"      \<comment> \<open>not in the code: what the run has done so far\<close>

text \<open>Indexing a Go map of integers reads zero for a missing key.\<close>

definition retry_count :: "(string \<rightharpoonup> int) \<Rightarrow> string \<Rightarrow> int" where
  "retry_count m name = (case m name of None \<Rightarrow> 0 | Some n \<Rightarrow> n)"

subsection \<open>Emitting, and the limits\<close>

definition log_effect :: "effect \<Rightarrow> loop_state \<Rightarrow> loop_state" where
  "log_effect e ls = ls\<lparr>ls_log := ls_log ls @ [e]\<rparr>"

definition emit :: "'o env \<Rightarrow> event \<Rightarrow> loop_state \<Rightarrow> loop_state \<times> go_error option" where
  "emit env event ls =
     (case ev_sink env of
        None \<Rightarrow> (ls, None)
      | Some sink \<Rightarrow> (log_effect (EmitE event) ls, sink (ls_log ls) event))"

definition ctx_Err :: "'o env \<Rightarrow> loop_state \<Rightarrow> loop_state \<times> go_error option" where
  "ctx_Err env ls = (log_effect CtxPoll ls, ev_ctx_err env (ls_log ls))"

definition checkPreRequestLimits :: "loop_state \<Rightarrow> go_error option" where
  "checkPreRequestLimits ls =
     (case ls_usage_limits ls of None \<Rightarrow> None | Some l \<Rightarrow> checkBeforeRequest l (ls_total_usage ls))"

definition checkPostResponseLimits :: "loop_state \<Rightarrow> go_error option" where
  "checkPostResponseLimits ls =
     (case ls_usage_limits ls of None \<Rightarrow> None | Some l \<Rightarrow> checkAfterResponse l (ls_total_usage ls))"

definition checkToolCallLimits :: "loop_state \<Rightarrow> nat \<Rightarrow> go_error option" where
  "checkToolCallLimits ls pendingCalls =
     (case ls_usage_limits ls of
        None \<Rightarrow> None
      | Some l \<Rightarrow> checkBeforeToolCalls l (us_tool_calls (ls_total_usage ls)) (int pendingCalls))"

definition resolveMaxRetries :: "tool_handler \<Rightarrow> int \<Rightarrow> int" where
  "resolveMaxRetries handler globalDefault =
     (case h_max_retries handler of Some n \<Rightarrow> n | None \<Rightarrow> globalDefault)"

subsection \<open>Building a request\<close>

definition buildRequest ::
  "'o env \<Rightarrow> agent_core \<Rightarrow> bool \<Rightarrow> loop_state \<Rightarrow> loop_state \<times> chat_request result" where
  "buildRequest env c stream ls =
     (let (ls, msgs) =
        (case ls_history_processor ls of
           None \<Rightarrow> (ls, Inr (ls_messages ls))
         | Some process \<Rightarrow>
             (log_effect (HistoryProcess (ls_messages ls)) ls,
              case process (ls_log ls) (ls_messages ls) of
                Inl e \<Rightarrow> Inl (wrap_cause ''history processor'' e)
              | Inr ms \<Rightarrow> Inr ms)) in
      case msgs of
        Inl e \<Rightarrow> (ls, Inl e)
      | Inr requestMessages \<Rightarrow>
          let request = (plain_request (ac_model_name c) requestMessages)
                \<lparr>rq_temperature := firstNonNil (op_temperature (ls_options ls)) (ac_temperature c),
                 rq_max_tokens := firstNonNil (op_max_tokens (ls_options ls)) (ac_max_tokens c),
                 rq_top_p := firstNonNil (op_top_p (ls_options ls)) (ac_top_p c),
                 rq_stream := stream,
                 rq_prompt_cache := firstNonNil (op_prompt_cache (ls_options ls)) (ac_prompt_cache c)\<rparr>;
              (ls, available) =
                (if xr_Count (ls_registry ls) = 0 then (ls, Inr None)
                 else (case ev_prepare env of
                         None \<Rightarrow> (ls, Inr (Some (xr_tools (ls_registry ls))))
                       | Some prepare \<Rightarrow>
                           (log_effect (PrepareTools (xr_tools (ls_registry ls))) ls,
                            case prepare (ls_log ls) (xr_tools (ls_registry ls)) of
                              Inl e \<Rightarrow> Inl (wrap_cause ''tool prepare'' e)
                            | Inr ts \<Rightarrow> Inr (Some ts)))) in
          (case available of
             Inl e \<Rightarrow> (ls, Inl e)
           | Inr offered \<Rightarrow>
               let request = (case offered of
                     None \<Rightarrow> request
                   | Some tools \<Rightarrow> request\<lparr>rq_tools := tools,
                       rq_tool_choice := firstNonNil (op_tool_choice (ls_options ls)) (ac_tool_choice c)\<rparr>) in
               (ls, Inr (request\<lparr>rq_response_format := ac_response_format c,
                                 rq_thinking := ac_thinking c\<rparr>))))"

end
