(* ===== verification/Scheduler.thy ===== *)
theory Scheduler
  imports Loop_State
begin

text \<open>
  tool_scheduler.go: running an admitted batch of tool calls, and the checks on what handlers and
  result processors return.

  The handlers of a batch run concurrently and report over one channel.  The model of that is the
  list of \<open>arrival\<close>s the collecting loop receives, in any order: a completion of the i-th call, the
  cancellation of the context, the end of the grace period (whose length is wall-clock time and not
  modelled).  A select that has nothing to receive blocks; then the result is \<open>None\<close>.
\<close>

subsection \<open>One handler\<close>

text \<open>Whether the content of a result asks to suspend, and whether the handler may.  The results of
  the Go function are a deferral, a flag that says it is there, and an error.\<close>

definition handlerDeferral ::
  "exec_registry \<Rightarrow> tool_use \<Rightarrow> tool_execution_result \<Rightarrow> tool_deferral option result" where
  "handlerDeferral registry call r =
     (let invalid = (\<lambda>s. Inl (wrap_kind ErrToolHandlerSuspension
                             (''handler '' @ quote (tu_name call) @ s)));
          check = (\<lambda>d.
            (case xr_Get registry (tu_name call) of
               None \<Rightarrow> invalid '' did not declare suspension''
             | Some h \<Rightarrow>
                 if \<not> h_may_suspend h then invalid '' did not declare suspension''
                 else (case validateToolResultIdentity call r of
                         Some e \<Rightarrow> invalid ('' returned mismatched suspension identity: '' @ err_text e)
                       | None \<Rightarrow>
                           if er_is_error r \<or> er_error r \<noteq> None \<or> td_kind d = ''''
                           then invalid '' returned an invalid deferral''
                           else Inr (Some d)))) in
      case er_content r of
        CSuspension d \<Rightarrow> check d
      | CSuspensionPtr None \<Rightarrow> invalid '' returned a nil suspension''
      | CSuspensionPtr (Some d) \<Rightarrow> check d
      | _ \<Rightarrow> Inr None)"

record scheduled_result =
  sr_index :: nat
  sr_result :: tool_execution_result
  sr_err :: "go_error option"
  sr_deferral :: "tool_deferral option"      \<comment> \<open>present exactly when \<^verbatim>\<open>suspended\<close>\<close>
  sr_suspension_err :: "go_error option"

text \<open>What the goroutine of the i-th call sends when its handler replies.\<close>

definition run_handler ::
  "'o env \<Rightarrow> exec_registry \<Rightarrow> nat \<Rightarrow> tool_use \<Rightarrow> handler_reply \<Rightarrow> scheduled_result" where
  "run_handler env registry i call reply =
     (let (r, err) = xr_Execute (ev_validate env) registry call reply in
      case handlerDeferral registry call r of
        Inl e \<Rightarrow> \<lparr>sr_index = i, sr_result = r, sr_err = err, sr_deferral = None,
                  sr_suspension_err = Some e\<rparr>
      | Inr d \<Rightarrow> \<lparr>sr_index = i, sr_result = r, sr_err = err, sr_deferral = d,
                  sr_suspension_err = None\<rparr>)"

subsection \<open>Collecting the batch\<close>

text \<open>The variables of the collecting loop: a result slot per call (empty while not received), the
  first error, the deferral, and whether the context was found cancelled.\<close>

record collector =
  co_slots :: "tool_execution_result option list"
  co_first_err :: "go_error option"
  co_deferral :: "tool_deferral option"
  co_grace :: bool

definition start_collect :: "tool_use list \<Rightarrow> collector" where
  "start_collect calls =
     \<lparr>co_slots = replicate (length calls) None, co_first_err = None, co_deferral = None,
      co_grace = False\<rparr>"

definition acceptCompletion :: "tool_use list \<Rightarrow> collector \<Rightarrow> scheduled_result \<Rightarrow> collector" where
  "acceptCompletion calls s c =
     (let i = sr_index c in
      if co_slots s ! i \<noteq> None then s
      else (case errors_join (sr_err c) (sr_suspension_err c) of
              Some e \<Rightarrow>
                s\<lparr>co_first_err :=
                    (case co_first_err s of
                       None \<Rightarrow> Some (wrap_cause (''execute tool '' @ quote (tu_name (calls ! i))) e)
                     | Some e0 \<Rightarrow> Some e0),
                  co_slots := (co_slots s)
                    [i := Some (makeToolResultError (calls ! i) (err_text e) (Some e))]\<rparr>
            | None \<Rightarrow>
                s\<lparr>co_slots := (co_slots s)[i := Some (sr_result c)],
                  co_deferral := (case sr_deferral c of
                                    Some d \<Rightarrow> Some d | None \<Rightarrow> co_deferral s)\<rparr>))"

definition not_stopped :: string where
  "not_stopped = ''Tool execution did not stop before cancellation grace; side effects may still be running.''"

definition fill_slots :: "tool_use list \<Rightarrow> collector \<Rightarrow> collector" where
  "fill_slots calls s =
     s\<lparr>co_slots := map2 (\<lambda>call slot.
         (case slot of
            Some r \<Rightarrow> Some r
          | None \<Rightarrow> Some (makeToolResultError call not_stopped (Some (Sentinel ErrExecutionInterrupted)))))
         calls (co_slots s)\<rparr>"

definition receive ::
  "'o env \<Rightarrow> exec_registry \<Rightarrow> tool_use list \<Rightarrow> collector \<Rightarrow> arrival \<Rightarrow> collector" where
  "receive env registry calls s a =
     (case a of
        Arrive i reply \<Rightarrow>
          if i < length calls
          then acceptCompletion calls s (run_handler env registry i (calls ! i) reply)
          else s
      | Cancelled \<Rightarrow> s\<lparr>co_grace := True\<rparr>
      | GraceFired \<Rightarrow> if co_grace s then fill_slots calls s else s)"

definition remaining :: "collector \<Rightarrow> nat" where
  "remaining s = length (filter (\<lambda>r. r = None) (co_slots s))"

fun collect ::
  "'o env \<Rightarrow> exec_registry \<Rightarrow> tool_use list \<Rightarrow> collector \<Rightarrow> arrival list \<Rightarrow> collector option" where
  "collect env registry calls s [] = (if remaining s = 0 then Some s else None)"
| "collect env registry calls s (a # as) =
     (if remaining s = 0 then Some s
      else collect env registry calls (receive env registry calls s a) as)"

subsection \<open>The batch\<close>

fun emit_starts :: "'o env \<Rightarrow> tool_use list \<Rightarrow> loop_state \<Rightarrow> loop_state \<times> go_error option" where
  "emit_starts env [] ls = (ls, None)"
| "emit_starts env (call # calls) ls =
     (case emit env (ToolStarted (ls_iteration ls) call
                       (retry_count (ls_retry_counts ls) (tu_name call) + 1)) ls of
        (ls, Some e) \<Rightarrow> (ls, Some e)
      | (ls, None) \<Rightarrow> emit_starts env calls ls)"

type_synonym batch_result =
  "tool_execution_result list \<times> tool_deferral option \<times> go_error option"

definition executeAdmittedTools ::
  "'o env \<Rightarrow> tool_use list \<Rightarrow> (string \<rightharpoonup> tool_resume_context) \<Rightarrow> loop_state \<Rightarrow>
     (loop_state \<times> batch_result) option" where
  "executeAdmittedTools env calls resumes ls =
     (if calls = [] then Some (ls, ([], None, None))
      else (case emit_starts env calls ls of
              (ls, Some e) \<Rightarrow> Some (ls, ([], None, Some e))
            | (ls, None) \<Rightarrow>
                let ls = ls\<lparr>ls_log := ls_log ls @ map (\<lambda>c. ExecTool c (resumes (tu_id c))) calls\<rparr> in
                (case collect env (ls_registry ls) calls (start_collect calls)
                        (ev_arrivals env (ls_log ls)) of
                   None \<Rightarrow> None
                 | Some s \<Rightarrow>
                     Some (ls, if co_deferral s \<noteq> None then ([], co_deferral s, co_first_err s)
                               else (map the (co_slots s), None, co_first_err s)))))"

definition may_suspend :: "exec_registry \<Rightarrow> tool_use \<Rightarrow> bool" where
  "may_suspend registry call =
     (case xr_Get registry (tu_name call) of None \<Rightarrow> False | Some h \<Rightarrow> h_may_suspend h)"

definition validateSuspendableBatch ::
  "exec_registry \<Rightarrow> tool_use list \<Rightarrow> tool_use list \<Rightarrow> go_error option" where
  "validateSuspendableBatch registry regular executable =
     (case List.find (\<lambda>call. may_suspend registry call \<and>
                             (length regular \<noteq> 1 \<or> length executable \<noteq> 1)) executable of
        None \<Rightarrow> None
      | Some call \<Rightarrow> Some (wrap_kind ErrToolHandlerSuspension
          (''suspendable handler '' @ quote (tu_name call) @
           '' must be the only regular call in its batch'')))"

definition projectToolResult ::
  "'o env \<Rightarrow> tool_use \<Rightarrow> tool_execution_result \<Rightarrow> loop_state \<Rightarrow>
     loop_state \<times> tool_execution_result \<times> go_error option" where
  "projectToolResult env call r ls =
     (case validateToolResultIdentity call r of
        Some e \<Rightarrow> (ls, makeToolResultError call
                     ''Tool execution returned an invalid result identity.'' (Some e), Some e)
      | None \<Rightarrow>
          (case ev_processor env of
             None \<Rightarrow> (ls, r, None)
           | Some process \<Rightarrow>
               let ls' = log_effect (ProcessResult call r) ls in
               (case process (ls_log ls) call r of
                  Inl e \<Rightarrow> (ls', makeToolResultError call
                    (''Tool handler may have completed, but result processing failed: '' @ err_text e)
                    (Some e), Some e)
                | Inr projected \<Rightarrow>
                    (case validateToolResultIdentity call projected of
                       Some e \<Rightarrow> (ls', makeToolResultError call
                         ''Tool result processing changed call identity.'' (Some e), Some e)
                     | None \<Rightarrow>
                         if er_is_error r \<and> \<not> er_is_error projected then
                           let e = Plain ''tool result processor changed an error into success'' in
                           (ls', makeToolResultError call
                             ''Tool result processing changed an error into success.'' (Some e), Some e)
                         else if er_error r \<noteq> None \<and> er_error projected = None then
                           let e = Plain ''tool result processor removed an execution error'' in
                           (ls', makeToolResultError call
                             ''Tool result processing removed execution error truth.'' (Some e), Some e)
                         else (ls', projected, None)))))"

subsection \<open>What a handler may do\<close>

lemma handlerDeferral_Some:
  "handlerDeferral registry call r = Inr (Some d) \<Longrightarrow>
     may_suspend registry call \<and> result_for call r \<and>
     \<not> er_is_error r \<and> er_error r = None \<and> td_kind d \<noteq> '''' \<and>
     (er_content r = CSuspension d \<or> er_content r = CSuspensionPtr (Some d))"
  by (auto simp: handlerDeferral_def Let_def may_suspend_def
      split: content_value.splits option.splits if_splits)

lemma run_handler_index [simp]: "sr_index (run_handler env registry i call reply) = i"
  by (simp add: run_handler_def split: prod.splits sum.splits)

lemma validateSuspendableBatch_None:
  "validateSuspendableBatch registry regular executable = None \<longleftrightarrow>
     (\<forall>call \<in> set executable. may_suspend registry call \<longrightarrow>
        length regular = 1 \<and> length executable = 1)"
  by (auto simp: validateSuspendableBatch_def find_None_iff find_Some_iff split: option.split)

subsection \<open>The collecting loop\<close>

text \<open>The result a call ends up with when its handler's reply is received.\<close>

definition settled ::
  "'o env \<Rightarrow> exec_registry \<Rightarrow> tool_use \<Rightarrow> handler_reply \<Rightarrow> tool_execution_result" where
  "settled env registry call reply =
     (let c = run_handler env registry 0 call reply in
      case errors_join (sr_err c) (sr_suspension_err c) of
        Some e \<Rightarrow> makeToolResultError call (err_text e) (Some e)
      | None \<Rightarrow> sr_result c)"

lemma run_handler_any_index:
  "run_handler env registry i call reply = (run_handler env registry 0 call reply)\<lparr>sr_index := i\<rparr>"
  by (simp add: run_handler_def split: prod.splits sum.splits)

lemma errors_join_nil [simp]: "errors_join None None = None"
  by (simp add: errors_join_def)

lemma acceptCompletion_slots:
  "co_slots (acceptCompletion calls s (run_handler env registry i (calls ! i) reply)) =
     (if co_slots s ! i \<noteq> None then co_slots s
      else (co_slots s)[i := Some (settled env registry (calls ! i) reply)])"
  by (subst (1) run_handler_any_index)
    (cases "errors_join (sr_err (run_handler env registry 0 (calls ! i) reply))
              (sr_suspension_err (run_handler env registry 0 (calls ! i) reply))";
     simp add: acceptCompletion_def settled_def Let_def)

lemma receive_slots:
  "co_slots (receive env registry calls s (Arrive i reply)) =
     (if i < length calls \<and> co_slots s ! i = None
      then (co_slots s)[i := Some (settled env registry (calls ! i) reply)] else co_slots s)"
  "co_slots (receive env registry calls s Cancelled) = co_slots s"
  by (simp_all add: receive_def acceptCompletion_slots)

lemma fill_slots_nth:
  "length (co_slots s) = length calls \<Longrightarrow> i < length calls \<Longrightarrow>
     co_slots (fill_slots calls s) ! i =
       (case co_slots s ! i of Some r \<Rightarrow> Some r
        | None \<Rightarrow> Some (makeToolResultError (calls ! i) not_stopped
                   (Some (Sentinel ErrExecutionInterrupted))))"
  by (simp add: fill_slots_def)

lemma receive_length [simp]:
  "length (co_slots s) = length calls \<Longrightarrow>
     length (co_slots (receive env registry calls s a)) = length calls"
  by (cases a) (simp_all add: receive_slots receive_def fill_slots_def acceptCompletion_slots)

lemma receive_keeps:
  "length (co_slots s) = length calls \<Longrightarrow> i < length calls \<Longrightarrow> co_slots s ! i = Some r \<Longrightarrow>
     co_slots (receive env registry calls s a) ! i = Some r"
proof (cases a)
  case (Arrive j reply)
  assume "length (co_slots s) = length calls" "i < length calls" "co_slots s ! i = Some r"
  then show ?thesis unfolding Arrive by (simp add: receive_slots nth_list_update)
next
  case GraceFired
  assume "length (co_slots s) = length calls" "i < length calls" "co_slots s ! i = Some r"
  then show ?thesis unfolding GraceFired by (simp add: receive_def fill_slots_nth)
qed (simp add: receive_slots)

lemma remaining_zero: "remaining s = 0 \<longleftrightarrow> None \<notin> set (co_slots s)"
  unfolding remaining_def length_0_conv filter_empty_conv by metis

lemma remaining_nth:
  "length (co_slots s) = length calls \<Longrightarrow>
     remaining s = 0 \<longleftrightarrow> (\<forall>i < length calls. co_slots s ! i \<noteq> None)"
  unfolding remaining_zero by (metis in_set_conv_nth)

text \<open>Whatever arrives in whatever order, the loop ends as soon as everything was received, and a
  slot once filled keeps its value.\<close>

lemma collect_blocked:
  "collect env registry calls s as = None \<Longrightarrow> remaining (foldl (receive env registry calls) s as) \<noteq> 0"
  by (induction as arbitrary: s) (auto split: if_splits)

lemma collect_ends:
  "length (co_slots s) = length calls \<Longrightarrow> collect env registry calls s as = Some s' \<Longrightarrow>
     length (co_slots s') = length calls \<and> None \<notin> set (co_slots s') \<and>
     (\<forall>i < length calls. co_slots s ! i \<noteq> None \<longrightarrow> co_slots s' ! i = co_slots s ! i)"
proof (induction as arbitrary: s)
  case (Cons a as)
  show ?case
  proof (cases "remaining s = 0")
    case False
    then have "collect env registry calls (receive env registry calls s a) as = Some s'"
      using Cons.prems by simp
    note IH = Cons.IH [OF receive_length [OF Cons.prems(1)] this]
    have "co_slots s' ! i = co_slots s ! i" if i: "i < length calls" "co_slots s ! i \<noteq> None" for i
    proof -
      obtain r where r: "co_slots s ! i = Some r" using i by blast
      then have "co_slots (receive env registry calls s a) ! i = Some r"
        using receive_keeps [OF Cons.prems(1) i(1)] by blast
      then show ?thesis using IH i r by (metis option.discI)
    qed
    then show ?thesis using IH by blast
  qed (use Cons.prems in \<open>auto simp: remaining_zero\<close>)
qed (auto simp: remaining_zero split: if_splits)

definition enough :: "nat \<Rightarrow> arrival list \<Rightarrow> bool" where
  "enough n as \<longleftrightarrow>
     (\<forall>i < n. \<exists>reply. Arrive i reply \<in> set as) \<or>
     (\<exists>pre post. as = pre @ post \<and> Cancelled \<in> set pre \<and> GraceFired \<in> set post)"

lemma foldl_receive_length [simp]:
  "length (co_slots s) = length calls \<Longrightarrow>
     length (co_slots (foldl (receive env registry calls) s as)) = length calls"
  by (induction as arbitrary: s) simp_all

lemma foldl_receive_keeps:
  "length (co_slots s) = length calls \<Longrightarrow> i < length calls \<Longrightarrow> co_slots s ! i \<noteq> None \<Longrightarrow>
     co_slots (foldl (receive env registry calls) s as) ! i \<noteq> None"
proof (induction as arbitrary: s)
  case (Cons a as)
  then obtain r where "co_slots s ! i = Some r" by blast
  then have "co_slots (receive env registry calls s a) ! i \<noteq> None"
    using receive_keeps Cons.prems by (metis option.discI)
  then show ?case using Cons by simp
qed simp

lemma foldl_receive_arrives:
  assumes "length (co_slots s) = length calls" "i < length calls" "Arrive i reply \<in> set as"
  shows "co_slots (foldl (receive env registry calls) s as) ! i \<noteq> None"
proof -
  obtain pre post where as: "as = pre @ Arrive i reply # post" using assms(3) split_list by metis
  let ?s = "foldl (receive env registry calls) s pre"
  have len: "length (co_slots ?s) = length calls" using assms by simp
  have "co_slots (receive env registry calls ?s (Arrive i reply)) ! i \<noteq> None"
    using len assms(2) by (simp add: receive_slots)
  then have "co_slots (foldl (receive env registry calls)
      (receive env registry calls ?s (Arrive i reply)) post) ! i \<noteq> None"
    by (rule foldl_receive_keeps [OF receive_length [OF len] assms(2)])
  then show ?thesis by (simp add: as)
qed

lemma grace_stays:
  "co_grace s \<Longrightarrow> co_grace (foldl (receive env registry calls) s as)"
proof (induction as arbitrary: s)
  case (Cons a as)
  have "co_grace (receive env registry calls s a)"
    using Cons.prems
    by (auto simp: receive_def acceptCompletion_def fill_slots_def split: arrival.split option.split)
  then show ?case using Cons.IH by simp
qed simp

lemma foldl_receive_grace:
  assumes "length (co_slots s) = length calls" "Cancelled \<in> set pre" "GraceFired \<in> set post"
  shows "remaining (foldl (receive env registry calls) s (pre @ post)) = 0"
proof -
  obtain p1 p2 where pre: "pre = p1 @ Cancelled # p2" using assms(2) split_list by metis
  obtain q1 q2 where post: "post = q1 @ GraceFired # q2" using assms(3) split_list by metis
  let ?s1 = "foldl (receive env registry calls) s p1"
  let ?s = "foldl (receive env registry calls) (receive env registry calls ?s1 Cancelled) (p2 @ q1)"
  have grace: "co_grace ?s" by (rule grace_stays) (simp add: receive_def)
  have len: "length (co_slots ?s) = length calls"
    using assms(1) by (simp only: foldl_receive_length receive_length)
  let ?t = "receive env registry calls ?s GraceFired"
  have "co_slots ?t ! i \<noteq> None" if "i < length calls" for i
    using grace fill_slots_nth [OF len that] by (simp add: receive_def split: option.splits)
  then have "co_slots (foldl (receive env registry calls) ?t q2) ! i \<noteq> None" if "i < length calls" for i
    using that foldl_receive_keeps [OF receive_length [OF len] that] by blast
  moreover have "foldl (receive env registry calls) s (pre @ post) =
      foldl (receive env registry calls) ?t q2"
    by (simp add: pre post)
  moreover have "length (co_slots (foldl (receive env registry calls) ?t q2)) = length calls"
    using len by (simp only: foldl_receive_length receive_length)
  ultimately show ?thesis using remaining_nth by metis
qed

lemma start_collect_length [simp]: "length (co_slots (start_collect calls)) = length calls"
  by (simp add: start_collect_def)

lemma collect_returns:
  assumes "length (co_slots s) = length calls" "enough (length calls) as"
  shows "\<exists>s'. collect env registry calls s as = Some s'"
proof (rule ccontr)
  assume "\<not> ?thesis"
  then have "remaining (foldl (receive env registry calls) s as) \<noteq> 0" using collect_blocked by fast
  moreover have "remaining (foldl (receive env registry calls) s as) = 0"
    using assms(2) unfolding enough_def
  proof
    assume "\<forall>i < length calls. \<exists>reply. Arrive i reply \<in> set as"
    then have "\<forall>i < length calls. co_slots (foldl (receive env registry calls) s as) ! i \<noteq> None"
      using foldl_receive_arrives [OF assms(1)] by blast
    then show ?thesis using remaining_nth [OF foldl_receive_length [OF assms(1)]] by blast
  qed (use foldl_receive_grace [OF assms(1)] in auto)
  ultimately show False by simp
qed

subsection \<open>A concrete environment and call\<close>

definition example_env :: "string env" where
  "example_env = \<lparr>ev_sink = None, ev_ctx_err = (\<lambda>_. None), ev_prepare = None,
     ev_model = (\<lambda>_ _. Inl (Plain ''offline'')), ev_stream = None, ev_gate = None,
     ev_processor = Some (\<lambda>_ _ r. Inr (r\<lparr>er_is_error := False\<rparr>)), ev_hook = None,
     ev_evaluate = (\<lambda>_ m. Inr (GetTextContent m)), ev_arrivals = (\<lambda>_. []),
     ev_fresh_id = (\<lambda>_. ''id''), ev_marshal = (\<lambda>_. Inr ''{}''), ev_validate = (\<lambda>_ _. None),
     ev_parse_args = (\<lambda>_. Inr (JObj [])), ev_encode = (\<lambda>_. Inr ''p''), ev_decode = (\<lambda>_. Inl (Plain ''x'')),
     ev_frontier_hash = (\<lambda>_ _. ''h''), ev_same_call = (=)\<rparr>"

definition example_call :: "string \<Rightarrow> string \<Rightarrow> tool_use" where
  "example_call i n = \<lparr>tu_id = i, tu_name = n, tu_input = JNull\<rparr>"

subsection \<open>The order of results\<close>

text \<open>Receiving the replies of the calls in any order: the slots filled are those of the calls that
  arrived, each with the settled result of its own reply.\<close>

lemma collect_slots:
  assumes "distinct is" "set is \<subseteq> {..<length calls}" "length (co_slots s) = length calls"
    "\<forall>i \<in> set is. co_slots s ! i = None"
  shows "i < length calls \<Longrightarrow>
     co_slots (foldl (receive env registry calls) s (map (\<lambda>i. Arrive i (replies i)) is)) ! i =
       (if i \<in> set is then Some (settled env registry (calls ! i) (replies i)) else co_slots s ! i)"
  using assms
proof (induction "is" arbitrary: s)
  case (Cons j js)
  let ?s = "receive env registry calls s (Arrive j (replies j))"
  have slots: "co_slots ?s = (co_slots s)[j := Some (settled env registry (calls ! j) (replies j))]"
    using Cons.prems by (simp add: receive_slots)
  have "\<forall>i \<in> set js. co_slots ?s ! i = None"
  proof
    fix k assume "k \<in> set js"
    then show "co_slots ?s ! k = None" using Cons.prems slots by (cases "k = j") auto
  qed
  from Cons.IH [OF Cons.prems(1) _ _ _ this] Cons.prems show ?case
    by (auto simp: slots)
qed simp

lemma collect_full:
  "remaining (foldl (receive env registry calls) s as) = 0 \<Longrightarrow>
     (\<And>pre a post. as = pre @ a # post \<Longrightarrow> remaining (foldl (receive env registry calls) s pre) \<noteq> 0) \<Longrightarrow>
     collect env registry calls s as = Some (foldl (receive env registry calls) s as)"
proof (induction as arbitrary: s)
  case (Cons a as)
  have "remaining s \<noteq> 0" using Cons.prems(2) [of "[]" a as] by simp
  moreover have "collect env registry calls (receive env registry calls s a) as =
      Some (foldl (receive env registry calls) (receive env registry calls s a) as)"
  proof (rule Cons.IH)
    fix pre b post
    assume "as = pre @ b # post"
    then show "remaining (foldl (receive env registry calls) (receive env registry calls s a) pre) \<noteq> 0"
      using Cons.prems(2) [of "a # pre" b post] by simp
  qed (use Cons.prems(1) in simp)
  ultimately show ?case by simp
qed simp

lemma collect_any_order:
  assumes "distinct is" "set is = {..<length calls}"
  shows "\<exists>s. collect env registry calls (start_collect calls) (map (\<lambda>i. Arrive i (replies i)) is) = Some s \<and>
     co_slots s = map (\<lambda>i. Some (settled env registry (calls ! i) (replies i))) [0..<length calls]"
proof -
  let ?as = "map (\<lambda>i. Arrive i (replies i)) is"
  let ?s = "foldl (receive env registry calls) (start_collect calls) ?as"
  have none: "co_slots (start_collect calls) ! i = None" if "i < length calls" for i
    using that by (simp add: start_collect_def)
  have slots: "co_slots ?s ! i = Some (settled env registry (calls ! i) (replies i))"
    if "i < length calls" for i
    using collect_slots [of "is" calls "start_collect calls" i env registry replies] assms none that
    by auto
  have full: "remaining ?s = 0"
    using remaining_nth [of ?s calls] slots by simp
  have early: "\<And>pre a post. ?as = pre @ a # post \<Longrightarrow>
      remaining (foldl (receive env registry calls) (start_collect calls) pre) \<noteq> 0"
  proof -
    fix pre a post
    assume split: "?as = pre @ a # post"
    obtain xs j ys where is_eq: "is = xs @ j # ys" and pre: "pre = map (\<lambda>i. Arrive i (replies i)) xs"
      using split by (auto simp: map_eq_append_conv Cons_eq_map_conv)
    have "j \<notin> set xs" "j < length calls" using assms is_eq by auto
    moreover have "set xs \<subseteq> {..<length calls}" "distinct xs" using assms is_eq by auto
    ultimately have "co_slots (foldl (receive env registry calls) (start_collect calls) pre) ! j = None"
      using collect_slots [of xs calls "start_collect calls" j env registry replies] none pre by auto
    then show "remaining (foldl (receive env registry calls) (start_collect calls) pre) \<noteq> 0"
      using \<open>j < length calls\<close> remaining_nth [of "foldl (receive env registry calls) (start_collect calls) pre" calls]
      by auto
  qed
  from collect_full [OF full early]
  have "collect env registry calls (start_collect calls) ?as = Some ?s" by fast
  moreover have "co_slots ?s = map (\<lambda>i. Some (settled env registry (calls ! i) (replies i))) [0..<length calls]"
    using slots by (intro nth_equalityI) simp_all
  ultimately show ?thesis by blast
qed

text \<open>
  C37. The results of a batch do not depend on the order in which handlers finish: when every handler
  replies, in whatever order, the collecting loop returns, and the results are those of the calls in
  call order, each settled from its own handler's reply.
\<close>

theorem collect_order_independent:
  assumes "distinct order" "set order = {..<length calls}"
  shows "\<exists>s. collect env registry calls (start_collect calls)
        (map (\<lambda>i. Arrive i (replies i)) order) = Some s \<and>
     map the (co_slots s) = map (\<lambda>i. settled env registry (calls ! i) (replies i)) [0..<length calls]"
proof -
  obtain s where s: "collect env registry calls (start_collect calls)
        (map (\<lambda>i. Arrive i (replies i)) order) = Some s"
      "co_slots s = map (\<lambda>i. Some (settled env registry (calls ! i) (replies i))) [0..<length calls]"
    using collect_any_order [OF assms, of env registry replies] by blast
  then show ?thesis by simp
qed

lemma collect_order_independent_witness:
  "\<exists>s. collect example_env (empty_exec_registry None) [example_call ''a'' ''f'', example_call ''b'' ''g'']
      (start_collect [example_call ''a'' ''f'', example_call ''b'' ''g''])
      (map (\<lambda>i. Arrive i (Inr CNil)) [1, 0]) = Some s \<and>
     map er_tool_use_id (map the (co_slots s)) = [''a'', ''b'']"
proof -
  let ?calls = "[example_call ''a'' ''f'', example_call ''b'' ''g'']"
  have order: "distinct [1, 0::nat]" "set [1, 0] = {..<length ?calls}" by auto
  obtain s where s: "collect example_env (empty_exec_registry None) ?calls (start_collect ?calls)
      (map (\<lambda>i. Arrive i (Inr CNil)) [1, 0]) = Some s"
    "map the (co_slots s) = map (\<lambda>i. settled example_env (empty_exec_registry None) (?calls ! i) (Inr CNil))
      [0..<length ?calls]"
    using collect_order_independent [OF order, of example_env "empty_exec_registry None" "\<lambda>_. Inr CNil"]
    by blast
  show ?thesis
  proof (intro exI conjI)
    show "map er_tool_use_id (map the (co_slots s)) = [''a'', ''b'']"
      unfolding s(2)
      by (simp add: settled_def run_handler_def xr_Execute_def empty_exec_registry_def example_call_def
          handlerDeferral_def makeToolResultError_def upt_rec)
  qed (rule s(1))
qed

text \<open>
  The collecting loop returns whenever every handler replies, and also when the context is
  cancelled and the grace period ends afterwards, however many handlers never reply; it never waits
  for more.
\<close>

theorem collect_terminates:
  assumes "enough (length calls) as"
  shows "\<exists>s. collect env registry calls (start_collect calls) as = Some s \<and>
     length (co_slots s) = length calls \<and> None \<notin> set (co_slots s)"
  using collect_returns [OF start_collect_length assms] collect_ends [OF start_collect_length] by blast

lemma collect_terminates_witness:
  "\<exists>s. collect example_env (empty_exec_registry None) [example_call ''a'' ''f'']
      (start_collect [example_call ''a'' ''f'']) [Cancelled, GraceFired] = Some s \<and>
     length (co_slots s) = length [example_call ''a'' ''f'']"
proof -
  have "enough (length [example_call ''a'' ''f'']) [Cancelled, GraceFired]"
    unfolding enough_def by (rule disjI2) (rule exI [of _ "[Cancelled]"], simp)
  from collect_terminates [OF this, of example_env "empty_exec_registry None"] show ?thesis by blast
qed

subsection \<open>What a result processor may do\<close>

lemma projectToolResult_for:
  "projectToolResult env call r ls = (ls', p, e) \<Longrightarrow> result_for call p"
  by (auto simp: projectToolResult_def Let_def
      split: option.splits sum.splits if_splits)

text \<open>
  Projecting a tool result keeps its identity and its truth: the projected result names the
  call, an error stays an error, and a recorded execution error is never removed; and a refused
  projection is itself an error result.
\<close>

theorem projectToolResult_truthful:
  "case projectToolResult env call r ls of (ls', p, e) \<Rightarrow>
     result_for call p \<and> (er_is_error r \<longrightarrow> er_is_error p) \<and>
     (er_error r \<noteq> None \<longrightarrow> er_error p \<noteq> None) \<and>
     (e \<noteq> None \<longrightarrow> er_is_error p \<and> er_error p = e)"
  by (auto simp: projectToolResult_def Let_def split: option.splits sum.splits)

lemma projectToolResult_truthful_witness:
  "\<forall>ls. case projectToolResult example_env (example_call ''a'' ''f'')
       (makeToolResultError (example_call ''a'' ''f'') ''failed'' None) ls of
     (ls', p, e) \<Rightarrow> er_is_error p \<and> er_error p \<noteq> None \<and> er_tool_use_id p = ''a''"
proof
  fix ls
  let ?call = "example_call ''a'' ''f''"
  show "case projectToolResult example_env ?call (makeToolResultError ?call ''failed'' None) ls of
     (ls', p, e) \<Rightarrow> er_is_error p \<and> er_error p \<noteq> None \<and> er_tool_use_id p = ''a''"
    using projectToolResult_truthful [where env = example_env and call = ?call and ls = ls
        and r = "makeToolResultError ?call ''failed'' None"]
    by (auto simp: result_for_def example_call_def split: prod.splits)
qed

end
