(* ===== verification/Transcript.thy ===== *)
theory Transcript
  imports Messages
begin

text \<open>
  transcript.go: pairing of tool calls and tool results.  \<^verbatim>\<open>inspectTranscript\<close> is the checker the
  driver runs on every history it is given; the grammar \<open>closed_transcript\<close> below is what it
  decides: a transcript is a sequence of plain messages and of answered frontiers (an assistant
  message with calls, then tool messages that answer each call exactly once), possibly ending in
  one frontier that is still open.

  \<^verbatim>\<open>cloneMessages\<close> and its siblings copy values through JSON so that no caller shares memory with
  the run; values of HOL have no identity, so a copy is the value itself.
\<close>

subsection \<open>The checker\<close>

definition transcript_error :: "string \<Rightarrow> go_error" where
  "transcript_error s = wrap_kind ErrTranscriptInvalid s"

text \<open>The inner loop over the calls of one frontier: IDs are non-empty and not repeated.\<close>

fun check_call_ids :: "nat \<Rightarrow> string list \<Rightarrow> tool_use list \<Rightarrow> unit result" where
  "check_call_ids i seen [] = Inr ()"
| "check_call_ids i seen (c # cs) =
     (if tu_id c = '''' then
        Inl (transcript_error (''tool call at message '' @ show_nat i @ '' has an empty ID''))
      else if tu_id c \<in> set seen then
        Inl (transcript_error
          (''duplicate tool call ID '' @ quote (tu_id c) @ '' in one frontier''))
      else check_call_ids i (tu_id c # seen) cs)"

text \<open>The map \<^verbatim>\<open>callsByID\<close>, filled in order.\<close>

definition callsByID :: "tool_use list \<Rightarrow> (string \<rightharpoonup> tool_use)" where
  "callsByID cs = foldl (\<lambda>m c. m(tu_id c \<mapsto> c)) Map.empty cs"

fun resolve_results ::
  "(string \<rightharpoonup> tool_use) \<Rightarrow> string list \<Rightarrow> tool_result list \<Rightarrow> (string list) result" where
  "resolve_results calls resolved [] = Inr resolved"
| "resolve_results calls resolved (r # rs) =
     (case calls (tr_tool_use_id r) of
        None \<Rightarrow> Inl (transcript_error (''result for unknown tool call '' @ quote (tr_tool_use_id r)))
      | Some call \<Rightarrow>
          if tr_tool_use_id r \<in> set resolved then
            Inl (transcript_error (''duplicate result for tool call '' @ quote (tr_tool_use_id r)))
          else if tr_name r \<noteq> '''' \<and> tr_name r \<noteq> tu_name call then
            Inl (transcript_error (''result for '' @ quote (tr_tool_use_id r) @ '' names '' @
              quote (tr_name r) @ '' instead of '' @ quote (tu_name call)))
          else resolve_results calls (resolved @ [tr_tool_use_id r]) rs)"

text \<open>One iteration of the message loop.  The state is the open frontier and the IDs resolved in
  it.\<close>

type_synonym frontier_state = "tool_use list \<times> string list"

definition inspect_uses :: "nat \<Rightarrow> frontier_state \<Rightarrow> message \<Rightarrow> frontier_state result" where
  "inspect_uses i st m =
     (let uses = GetToolUses m; (frontier, resolved) = st in
      if uses = [] then Inr st
      else if m_role m \<noteq> RoleAssistant then
        Inl (transcript_error (''message '' @ show_nat i @
          '' contains tool calls outside an assistant message''))
      else if frontier \<noteq> [] then
        Inl (transcript_error (''message '' @ show_nat i @
          '' starts a new tool frontier before the previous one is paired''))
      else (case check_call_ids i [] uses of
              Inl e \<Rightarrow> Inl e
            | Inr _ \<Rightarrow> Inr (uses, [])))"

definition inspect_message :: "nat \<Rightarrow> frontier_state \<Rightarrow> message \<Rightarrow> frontier_state result" where
  "inspect_message i st m =
     (case inspect_uses i st m of
        Inl e \<Rightarrow> Inl e
      | Inr (frontier, resolved) \<Rightarrow>
          let uses = GetToolUses m; results = GetToolResults m in
          if results \<noteq> [] then
            if m_role m \<noteq> RoleTool then
              Inl (transcript_error (''message '' @ show_nat i @
                '' contains tool results outside a tool message''))
            else if frontier = [] then
              Inl (transcript_error (''tool result at message '' @ show_nat i @
                '' has no open call frontier''))
            else (case resolve_results (callsByID frontier) resolved results of
                    Inl e \<Rightarrow> Inl e
                  | Inr resolved' \<Rightarrow>
                      if (\<forall>c \<in> set frontier. tu_id c \<in> set resolved') then Inr ([], [])
                      else Inr (frontier, resolved'))
          else if frontier \<noteq> [] \<and> m_role m \<noteq> RoleTool \<and> uses = [] then
            Inl (transcript_error (''message '' @ show_nat i @
              '' appears before the open tool frontier is paired''))
          else Inr (frontier, resolved))"

fun inspect_loop :: "nat \<Rightarrow> frontier_state \<Rightarrow> message list \<Rightarrow> frontier_state result" where
  "inspect_loop i st [] = Inr st"
| "inspect_loop i st (m # ms) =
     (case inspect_message i st m of
        Inl e \<Rightarrow> Inl e
      | Inr st' \<Rightarrow> inspect_loop (Suc i) st' ms)"

definition inspectTranscript :: "message list \<Rightarrow> tool_use list result" where
  "inspectTranscript ms =
     (case inspect_loop 0 ([], []) ms of
        Inl e \<Rightarrow> Inl e
      | Inr (frontier, _) \<Rightarrow> Inr frontier)"

subsection \<open>What is a transcript\<close>

definition call_ids :: "tool_use list \<Rightarrow> string list" where
  "call_ids us = map tu_id us"

definition wf_calls :: "tool_use list \<Rightarrow> bool" where
  "wf_calls us \<longleftrightarrow> '''' \<notin> set (call_ids us) \<and> distinct (call_ids us)"

definition opens_frontier :: "message \<Rightarrow> tool_use list \<Rightarrow> bool" where
  "opens_frontier m us \<longleftrightarrow>
     m_role m = RoleAssistant \<and> GetToolUses m = us \<and> us \<noteq> [] \<and> wf_calls us \<and> GetToolResults m = []"

definition plain_message :: "message \<Rightarrow> bool" where
  "plain_message m \<longleftrightarrow> GetToolUses m = [] \<and> GetToolResults m = []"

definition answer_results :: "message list \<Rightarrow> tool_result list" where
  "answer_results ts = concat (map GetToolResults ts)"

definition answer_ids :: "message list \<Rightarrow> string list" where
  "answer_ids ts = map tr_tool_use_id (answer_results ts)"

definition answers_call :: "tool_use list \<Rightarrow> tool_result \<Rightarrow> bool" where
  "answers_call us r \<longleftrightarrow>
     (\<exists>c \<in> set us. tu_id c = tr_tool_use_id r \<and> (tr_name r = '''' \<or> tr_name r = tu_name c))"

definition answer_run :: "tool_use list \<Rightarrow> message list \<Rightarrow> bool" where
  "answer_run us ts \<longleftrightarrow>
     (\<forall>t \<in> set ts. m_role t = RoleTool \<and> GetToolUses t = []) \<and>
     distinct (answer_ids ts) \<and> (\<forall>r \<in> set (answer_results ts). answers_call us r)"

definition all_answered :: "tool_use list \<Rightarrow> message list \<Rightarrow> bool" where
  "all_answered us ts \<longleftrightarrow> set (call_ids us) \<subseteq> set (answer_ids ts)"

inductive closed_transcript :: "message list \<Rightarrow> bool" where
  closed_Nil: "closed_transcript []"
| closed_plain: "closed_transcript ms \<Longrightarrow> plain_message m \<Longrightarrow> closed_transcript (ms @ [m])"
| closed_answered: "closed_transcript ms \<Longrightarrow> opens_frontier a us \<Longrightarrow> answer_run us (ts @ [t]) \<Longrightarrow>
    all_answered us (ts @ [t]) \<Longrightarrow> GetToolResults t \<noteq> [] \<Longrightarrow>
    closed_transcript (ms @ a # ts @ [t])"

definition open_transcript :: "message list \<Rightarrow> tool_use list \<Rightarrow> bool" where
  "open_transcript ms us \<longleftrightarrow>
     (\<exists>ms0 a ts. ms = ms0 @ a # ts \<and> closed_transcript ms0 \<and> opens_frontier a us \<and>
        answer_run us ts \<and> \<not> all_answered us ts)"

subsection \<open>The checker decides the grammar\<close>

lemma check_call_ids_Inr:
  "check_call_ids i seen us = Inr () \<longleftrightarrow> wf_calls us \<and> set (call_ids us) \<inter> set seen = {}"
  by (induction us arbitrary: seen) (auto simp: wf_calls_def call_ids_def)

lemma callsByID_snoc [simp]: "callsByID (us @ [c]) = (callsByID us)(tu_id c \<mapsto> c)"
  by (simp add: callsByID_def)

lemma callsByID_Nil [simp]: "callsByID [] = Map.empty"
  by (simp add: callsByID_def)

lemma callsByID_Some:
  "distinct (call_ids us) \<Longrightarrow> callsByID us k = Some c \<longleftrightarrow> c \<in> set us \<and> tu_id c = k"
  by (induction us rule: rev_induct) (auto simp: call_ids_def image_iff)

lemma callsByID_None: "callsByID us k = None \<longleftrightarrow> k \<notin> set (call_ids us)"
  by (induction us rule: rev_induct) (auto simp: call_ids_def)

lemma resolve_results_Inr:
  assumes "distinct (call_ids us)"
  shows "resolve_results (callsByID us) r rs = Inr r' \<longleftrightarrow>
    r' = r @ map tr_tool_use_id rs \<and> (\<forall>x \<in> set rs. answers_call us x) \<and>
    distinct (map tr_tool_use_id rs) \<and> set (map tr_tool_use_id rs) \<inter> set r = {}"
proof (induction rs arbitrary: r)
  case Nil
  then show ?case by auto
next
  case (Cons x rs)
  show ?case
  proof (cases "callsByID us (tr_tool_use_id x)")
    case None
    then have "\<not> answers_call us x"
      by (auto simp: callsByID_None call_ids_def answers_call_def image_iff)
    with None show ?thesis by simp
  next
    case (Some c)
    then have c: "c \<in> set us" "tu_id c = tr_tool_use_id x"
      using callsByID_Some [OF assms] by auto
    then have "answers_call us x \<longleftrightarrow> tr_name x = '''' \<or> tr_name x = tu_name c"
      using callsByID_Some [OF assms] Some
      by (metis answers_call_def option.inject)
    with Some show ?thesis
      by (auto simp: Cons.IH)
  qed
qed

lemma inspect_loop_append:
  "inspect_loop i st (xs @ ys) =
     (case inspect_loop i st xs of Inl e \<Rightarrow> Inl e | Inr st' \<Rightarrow> inspect_loop (i + length xs) st' ys)"
  by (induction xs arbitrary: i st) (auto split: sum.splits)

lemma inspect_loop_snoc:
  "inspect_loop i st (xs @ [m]) =
     (case inspect_loop i st xs of Inl e \<Rightarrow> Inl e | Inr st' \<Rightarrow> inspect_message (i + length xs) st' m)"
  by (simp add: inspect_loop_append split: sum.splits)

lemma answer_results_simps [simp]:
  "answer_results [] = []"
  "answer_results (t # ts) = GetToolResults t @ answer_results ts"
  "answer_results (ts @ ts') = answer_results ts @ answer_results ts'"
  by (simp_all add: answer_results_def)

lemma answer_ids_simps [simp]:
  "answer_ids [] = []"
  "answer_ids (t # ts) = map tr_tool_use_id (GetToolResults t) @ answer_ids ts"
  "answer_ids (ts @ ts') = answer_ids ts @ answer_ids ts'"
  by (simp_all add: answer_ids_def)

text \<open>One message, by what it is.\<close>

lemma inspect_plain:
  "plain_message m \<Longrightarrow> inspect_message i ([], []) m = Inr ([], [])"
  by (simp add: inspect_message_def inspect_uses_def plain_message_def)

lemma inspect_opens:
  "opens_frontier m us \<Longrightarrow> inspect_message i ([], []) m = Inr (us, [])"
  using check_call_ids_Inr [of i "[]" us]
  by (simp add: inspect_message_def inspect_uses_def opens_frontier_def)

lemma inspect_answer:
  assumes "us \<noteq> []" "distinct (call_ids us)" "m_role t = RoleTool" "GetToolUses t = []"
  shows "inspect_message i (us, r) t =
    (if GetToolResults t = [] then Inr (us, r)
     else case resolve_results (callsByID us) r (GetToolResults t) of
            Inl e \<Rightarrow> Inl e
          | Inr r' \<Rightarrow> if set (call_ids us) \<subseteq> set r' then Inr ([], []) else Inr (us, r'))"
  using assms
  by (auto simp: inspect_message_def inspect_uses_def call_ids_def split: sum.splits)

lemma inspect_message_cases:
  assumes "inspect_message i (us, r) m = Inr st" "us \<noteq> [] \<or> r = []" "wf_calls us"
  obtains (plain) "us = []" "plain_message m" "st = ([], [])"
  | (opens) us' where "us = []" "opens_frontier m us'" "st = (us', [])"
  | (answer) "us \<noteq> []" "m_role m = RoleTool" "GetToolUses m = []"
proof (cases "GetToolUses m = []")
  case True
  show thesis
  proof (cases "us = []")
    case True
    then show thesis
      using assms \<open>GetToolUses m = []\<close> plain
      by (auto simp: inspect_message_def inspect_uses_def plain_message_def Let_def
          split: if_splits sum.splits)
  next
    case False
    then have "m_role m = RoleTool"
      using assms \<open>GetToolUses m = []\<close>
      by (auto simp: inspect_message_def inspect_uses_def Let_def split: if_splits)
    then show thesis using False True answer by blast
  qed
next
  case False
  then have "us = []" "m_role m = RoleAssistant" "wf_calls (GetToolUses m)"
     "GetToolResults m = []" "st = (GetToolUses m, [])"
    using assms
    by (auto simp: inspect_message_def inspect_uses_def Let_def check_call_ids_Inr
        split: if_splits sum.splits)
  then show thesis using False opens by (auto simp: opens_frontier_def)
qed

lemma answer_run_butlast: "answer_run us (ts @ [t]) \<Longrightarrow> answer_run us ts"
  by (auto simp: answer_run_def)

lemma all_answered_mono: "all_answered us ts \<Longrightarrow> all_answered us (ts @ ts')"
  by (auto simp: all_answered_def)

lemma opens_frontier_wf: "opens_frontier a us \<Longrightarrow> us \<noteq> [] \<and> wf_calls us \<and> distinct (call_ids us)"
  by (auto simp: opens_frontier_def wf_calls_def)

lemma answer_step:
  assumes us: "us \<noteq> []" "wf_calls us"
    and t: "m_role t = RoleTool" "GetToolUses t = []"
    and run: "answer_run us ts" and open_: "\<not> all_answered us ts"
  shows "inspect_message i (us, answer_ids ts) t = Inr st \<longleftrightarrow>
     answer_run us (ts @ [t]) \<and>
     st = (if all_answered us (ts @ [t]) then ([], []) else (us, answer_ids (ts @ [t])))"
proof -
  have d: "distinct (call_ids us)" using us by (simp add: wf_calls_def)
  show ?thesis
  proof (cases "GetToolResults t = []")
    case True
    then show ?thesis using assms d
      by (auto simp: inspect_answer answer_run_def all_answered_def)
  next
    case False
    let ?ok = "(\<forall>x \<in> set (GetToolResults t). answers_call us x) \<and>
      distinct (map tr_tool_use_id (GetToolResults t)) \<and>
      set (map tr_tool_use_id (GetToolResults t)) \<inter> set (answer_ids ts) = {}"
    have ok: "answer_run us (ts @ [t]) \<longleftrightarrow> ?ok"
      using t run by (auto simp: answer_run_def)
    have res: "resolve_results (callsByID us) (answer_ids ts) (GetToolResults t) = Inr r' \<longleftrightarrow>
       r' = answer_ids (ts @ [t]) \<and> ?ok" for r'
      using resolve_results_Inr [OF d] by auto
    show ?thesis
    proof (cases ?ok)
      case True
      then have "resolve_results (callsByID us) (answer_ids ts) (GetToolResults t) =
          Inr (answer_ids (ts @ [t]))" using res by blast
      then show ?thesis using True ok False us d t
        by (auto simp: inspect_answer all_answered_def)
    next
      case noOk: False
      then obtain e where "resolve_results (callsByID us) (answer_ids ts) (GetToolResults t) = Inl e"
        using res by (cases "resolve_results (callsByID us) (answer_ids ts) (GetToolResults t)") blast+
      then show ?thesis using noOk ok False us d t by (auto simp: inspect_answer)
    qed
  qed
qed

lemma last_answer_open:
  assumes "answer_run us (ts @ [t])" "GetToolResults t \<noteq> []"
  shows "\<not> all_answered us ts"
proof
  assume all: "all_answered us ts"
  obtain r where r: "r \<in> set (GetToolResults t)" using assms(2) by (cases "GetToolResults t") auto
  then have "answers_call us r" using assms(1) by (auto simp: answer_run_def)
  then have "tr_tool_use_id r \<in> set (answer_ids ts)"
    using all by (auto simp: answers_call_def all_answered_def call_ids_def)
  then show False using r assms(1) by (force simp: answer_run_def)
qed

text \<open>What the loop state says of the messages read so far.\<close>

definition reads :: "message list \<Rightarrow> tool_use list \<Rightarrow> string list \<Rightarrow> bool" where
  "reads ms f r \<longleftrightarrow>
     f = [] \<and> r = [] \<and> closed_transcript ms \<or>
     (\<exists>ms0 a ts. ms = ms0 @ a # ts \<and> closed_transcript ms0 \<and> opens_frontier a f \<and>
        answer_run f ts \<and> \<not> all_answered f ts \<and> r = answer_ids ts)"

lemma reads_wf: "reads ms f r \<Longrightarrow> (f = [] \<longrightarrow> r = []) \<and> wf_calls f"
  by (auto simp: reads_def opens_frontier_def wf_calls_def call_ids_def)

lemma inspect_loop_reads:
  "inspect_loop 0 ([], []) ms = Inr (f, r) \<Longrightarrow> reads ms f r"
proof (induction ms arbitrary: f r rule: rev_induct)
  case Nil
  then show ?case by (auto simp: reads_def intro: closed_transcript.intros)
next
  case (snoc m ms)
  then obtain f0 r0 where prev: "inspect_loop 0 ([], []) ms = Inr (f0, r0)"
    and step: "inspect_message (length ms) (f0, r0) m = Inr (f, r)"
    by (auto simp: inspect_loop_snoc split: sum.splits)
  from snoc.IH [OF prev] have rd: "reads ms f0 r0" .
  from reads_wf [OF rd] have wf: "f0 \<noteq> [] \<or> r0 = []" "wf_calls f0" by auto
  from step wf show ?case
  proof (cases rule: inspect_message_cases)
    case plain
    with rd show ?thesis
      by (auto simp: reads_def opens_frontier_def intro: closed_transcript.intros)
  next
    case (opens us')
    then have "closed_transcript ms" using rd by (auto simp: reads_def opens_frontier_def)
    moreover have "answer_run us' []" "\<not> all_answered us' []"
      using opens by (auto simp: answer_run_def all_answered_def opens_frontier_def call_ids_def)
    ultimately show ?thesis using opens unfolding reads_def
      by (intro disjI2 exI [of _ ms] exI [of _ m] exI [of _ "[]"]) auto
  next
    case answer
    then obtain ms0 a ts where ms: "ms = ms0 @ a # ts" "closed_transcript ms0"
      and a: "opens_frontier a f0" and run: "answer_run f0 ts" "\<not> all_answered f0 ts"
      and r0: "r0 = answer_ids ts"
      using rd by (auto simp: reads_def)
    have st: "answer_run f0 (ts @ [m])"
      "(f, r) = (if all_answered f0 (ts @ [m]) then ([], []) else (f0, answer_ids (ts @ [m])))"
      using answer_step [OF answer(1) wf(2) answer(2,3) run] step r0 by auto
    show ?thesis
    proof (cases "all_answered f0 (ts @ [m])")
      case True
      then have "GetToolResults m \<noteq> []" using run by (auto simp: all_answered_def)
      then have "closed_transcript (ms0 @ a # ts @ [m])"
        using closed_answered [OF ms(2) a st(1) True] by blast
      then show ?thesis using True st ms by (auto simp: reads_def)
    next
      case False
      then show ?thesis using st ms a unfolding reads_def
        by (intro disjI2 exI [of _ ms0] exI [of _ a] exI [of _ "ts @ [m]"]) auto
    qed
  qed
qed

lemma inspect_loop_answers:
  assumes "us \<noteq> []" "wf_calls us"
  shows "answer_run us ts \<Longrightarrow> \<not> all_answered us ts \<Longrightarrow>
    inspect_loop i (us, []) ts = Inr (us, answer_ids ts)"
proof (induction ts rule: rev_induct)
  case Nil
  then show ?case by simp
next
  case (snoc t ts)
  then have prefix: "answer_run us ts" "\<not> all_answered us ts"
    using answer_run_butlast all_answered_mono by blast+
  have t: "m_role t = RoleTool" "GetToolUses t = []"
    using snoc.prems by (auto simp: answer_run_def)
  show ?case
    using snoc.IH [OF prefix] answer_step [OF assms t prefix] snoc.prems
    by (auto simp: inspect_loop_snoc)
qed

lemma closed_inspect: "closed_transcript ms \<Longrightarrow> inspect_loop 0 ([], []) ms = Inr ([], [])"
proof (induction rule: closed_transcript.induct)
  case closed_Nil
  then show ?case by simp
next
  case (closed_plain ms m)
  then show ?case by (simp add: inspect_loop_snoc inspect_plain)
next
  case (closed_answered ms a us ts t)
  note us = opens_frontier_wf [OF closed_answered.hyps(2)]
  have pre: "answer_run us ts" "\<not> all_answered us ts"
    using closed_answered.hyps answer_run_butlast last_answer_open by blast+
  have t: "m_role t = RoleTool" "GetToolUses t = []"
    using closed_answered.hyps by (auto simp: answer_run_def)
  have "inspect_message i (us, answer_ids ts) t = Inr ([], [])" for i
    using answer_step [OF _ _ t pre] us closed_answered.hyps by auto
  then show ?case
    using closed_answered inspect_loop_answers [OF _ _ pre] us
    by (simp add: inspect_loop_append inspect_opens)
qed

lemma open_inspect:
  assumes "open_transcript ms us"
  shows "inspectTranscript ms = Inr us"
proof -
  obtain ms0 a ts where ms: "ms = ms0 @ a # ts" "closed_transcript ms0" "opens_frontier a us"
    "answer_run us ts" "\<not> all_answered us ts"
    using assms by (auto simp: open_transcript_def)
  then show ?thesis
    using closed_inspect [OF ms(2)] inspect_loop_answers [OF _ _ ms(4,5)]
      opens_frontier_wf [OF ms(3)]
    by (simp add: inspectTranscript_def inspect_loop_append inspect_opens)
qed

lemma inspectTranscript_closed: "inspectTranscript ms = Inr [] \<longleftrightarrow> closed_transcript ms"
  using closed_inspect inspect_loop_reads
  by (fastforce simp: inspectTranscript_def reads_def opens_frontier_def split: sum.splits prod.splits)

lemma inspectTranscript_open: "us \<noteq> [] \<Longrightarrow> inspectTranscript ms = Inr us \<longleftrightarrow> open_transcript ms us"
proof
  assume "us \<noteq> []" "inspectTranscript ms = Inr us"
  then obtain r where "inspect_loop 0 ([], []) ms = Inr (us, r)"
    by (auto simp: inspectTranscript_def split: sum.splits prod.splits)
  then have "reads ms us r" by (rule inspect_loop_reads)
  then show "open_transcript ms us" using \<open>us \<noteq> []\<close>
    by (auto simp: reads_def open_transcript_def)
qed (rule open_inspect)

text \<open>
  C13. The transcript checker decides the grammar: it returns no open call exactly on the closed
  transcripts, and a non-empty list of calls exactly on the transcripts whose last frontier is
  open with these calls; on everything else it returns an error.
\<close>

theorem inspectTranscript_decides:
  "inspectTranscript ms = Inr us \<longleftrightarrow>
     (if us = [] then closed_transcript ms else open_transcript ms us)"
  using inspectTranscript_closed inspectTranscript_open by auto

subsection \<open>Building transcripts\<close>

lemma closed_append: "closed_transcript ys \<Longrightarrow> closed_transcript xs \<Longrightarrow> closed_transcript (xs @ ys)"
proof (induction rule: closed_transcript.induct)
  case (closed_answered ms a us ts t)
  then show ?case
    using closed_transcript.closed_answered [of "xs @ ms" a us ts t] by simp
qed (auto intro: closed_plain simp flip: append_assoc)

text \<open>The message the driver commits for one call.\<close>

definition answers_with :: "tool_use \<Rightarrow> message \<Rightarrow> bool" where
  "answers_with c t \<longleftrightarrow> m_role t = RoleTool \<and> GetToolUses t = [] \<and>
     (\<exists>r. GetToolResults t = [r] \<and> tr_tool_use_id r = tu_id c \<and> tr_name r = tu_name c)"

lemma answers_with_ids:
  "list_all2 answers_with us ts \<Longrightarrow> answer_ids ts = call_ids us"
  by (induction rule: list_all2_induct) (auto simp: answers_with_def call_ids_def)

lemma answers_with_results:
  "list_all2 answers_with us ts \<Longrightarrow> r \<in> set (answer_results ts) \<Longrightarrow>
    \<exists>c \<in> set us. tr_tool_use_id r = tu_id c \<and> tr_name r = tu_name c"
  by (induction rule: list_all2_induct) (auto simp: answers_with_def)

lemma answers_with_messages:
  "list_all2 answers_with us ts \<Longrightarrow> t \<in> set ts \<Longrightarrow> \<exists>c. answers_with c t"
  by (induction rule: list_all2_induct) auto

lemma answers_with_run:
  assumes "list_all2 answers_with us ts" "wf_calls us"
  shows "answer_run us ts \<and> all_answered us ts"
  using answers_with_ids [OF assms(1)] answers_with_results [OF assms(1)]
    answers_with_messages [OF assms(1)] assms(2)
  by (fastforce simp: answer_run_def all_answered_def wf_calls_def answers_call_def answers_with_def)

lemma closed_turn:
  assumes "closed_transcript ms" "opens_frontier a us" "list_all2 answers_with us ts"
  shows "closed_transcript (ms @ a # ts)"
proof -
  note wf = opens_frontier_wf [OF assms(2)]
  then have "ts \<noteq> []" using assms(3) by auto
  then obtain ts' t where ts: "ts = ts' @ [t]" by (metis rev_exhaust)
  moreover have "GetToolResults t \<noteq> []"
    using answers_with_messages [OF assms(3)] ts by (fastforce simp: answers_with_def)
  ultimately show ?thesis
    using closed_answered [OF assms(1,2)] answers_with_run [OF assms(3)] wf by auto
qed

lemma open_turn: "closed_transcript ms \<Longrightarrow> opens_frontier a us \<Longrightarrow> open_transcript (ms @ [a]) us"
  unfolding open_transcript_def
  by (intro exI [of _ ms] exI [of _ a] exI [of _ "[]"])
    (auto simp: answer_run_def all_answered_def call_ids_def opens_frontier_def)

end
