(* ===== verification/Suspension.thy ===== *)
theory Suspension
  imports Scheduler Transcript
begin

text \<open>
  suspension.go: the durable description of a suspended tool frontier.  The JSON codec of the payload
  and the SHA-256 of the JSON of a frontier are parameters (\<open>ev_encode\<close>, \<open>ev_decode\<close>,
  \<open>ev_frontier_hash\<close>).  The only law of the codec that is ever assumed speaks of the payload at
  hand: decoding its encoding gives back its fields, with calls that encode alike, and with the kind of
  its deferral.  The bytes of the deferral payload are left open: the codec compacts them, and turns a
  missing one into \<^verbatim>\<open>null\<close>.
\<close>

definition toolSuspensionPayloadVersion :: int where
  "toolSuspensionPayloadVersion = 1"

text \<open>What the configuration fingerprint hashes.\<close>

record fingerprint_payload =
  fp_version :: int
  fp_model :: string
  fp_tools :: "tool list"
  fp_output_tool_names :: "string \<Rightarrow> bool"
  fp_response_format :: "response_format option"
  fp_end_strategy :: end_strategy
  fp_max_iterations :: int
  fp_usage_limits :: "usage_limits option"
  fp_max_retries :: int
  fp_max_validation_retries :: int
  fp_tool_choice :: "tool_choice option"
  fp_prompt_cache :: "prompt_cache option"

definition fingerprint_of :: "agent_core \<Rightarrow> loop_state \<Rightarrow> fingerprint_payload" where
  "fingerprint_of c ls =
     \<lparr>fp_version = 1, fp_model = ac_model_name c, fp_tools = xr_tools (ls_registry ls),
      fp_output_tool_names = ac_output_tool_names c, fp_response_format = ac_response_format c,
      fp_end_strategy = ls_end_strategy ls, fp_max_iterations = ls_max_iterations ls,
      fp_usage_limits = ls_usage_limits ls, fp_max_retries = ac_max_retries c,
      fp_max_validation_retries = ac_max_validation_retries c,
      fp_tool_choice = firstNonNil (op_tool_choice (ls_options ls)) (ac_tool_choice c),
      fp_prompt_cache = firstNonNil (op_prompt_cache (ls_options ls)) (ac_prompt_cache c)\<rparr>"

definition executionFingerprint ::
  "(fingerprint_payload \<Rightarrow> string) \<Rightarrow> agent_core \<Rightarrow> loop_state \<Rightarrow> string" where
  "executionFingerprint hash c ls = hash (fingerprint_of c ls)"

text \<open>A copied map of counts; an empty map and a nil map read the same.\<close>

definition copyRetryCounts :: "(string \<rightharpoonup> int) \<Rightarrow> (string \<rightharpoonup> int)" where
  "copyRetryCounts counts = counts"

definition suspension_payload ::
  "loop_state \<Rightarrow> string \<Rightarrow> tool_use list \<Rightarrow> tool_use list \<Rightarrow> tool_deferral \<Rightarrow> bool \<Rightarrow>
     tool_suspension_payload" where
  "suspension_payload ls i calls executable deferral handlerSuspension =
     \<lparr>py_version = toolSuspensionPayloadVersion, py_suspension_id = i,
      py_handler_suspension = handlerSuspension, py_calls = calls,
      py_executable_call_ids = map tu_id executable, py_iteration = ls_iteration ls,
      py_usage = ls_total_usage ls, py_retry_counts = copyRetryCounts (ls_retry_counts ls),
      py_total_retries = ls_total_retries ls, py_validation_retries = ls_validation_retries ls,
      py_end_strategy = ls_end_strategy ls, py_config_fingerprint = ls_config_fingerprint ls,
      py_last_finish_reason = ls_last_finish_reason ls, py_deferral = deferral\<rparr>"

definition newToolSuspension ::
  "'o env \<Rightarrow> tool_use list \<Rightarrow> tool_use list \<Rightarrow> tool_deferral \<Rightarrow> bool \<Rightarrow> loop_state \<Rightarrow>
     loop_state \<times> suspension result" where
  "newToolSuspension env calls executable deferral handlerSuspension ls =
     (let i = ev_fresh_id env (ls_log ls);
          ls' = log_effect FreshId ls;
          payload = suspension_payload ls i calls executable deferral handlerSuspension in
      case ev_encode env payload of
        Inl e \<Rightarrow> (ls', Inl (wrap_cause ''marshal tool suspension'' e))
      | Inr encoded \<Rightarrow>
          (case inspectTranscript (ls_messages ls) of
             Inl e \<Rightarrow> (ls', Inl e)
           | Inr frontier \<Rightarrow>
               (ls', Inr \<lparr>sp_id = i, sp_kind = td_kind deferral,
                         sp_frontier_hash = ev_frontier_hash env (ls_messages ls) frontier,
                         sp_payload = encoded\<rparr>)))"

definition decodeToolSuspension :: "'o env \<Rightarrow> suspension \<Rightarrow> tool_suspension_payload result" where
  "decodeToolSuspension env s =
     (case ev_decode env (sp_payload s) of
        Inl e \<Rightarrow> Inl (wrap_kind ErrSuspensionVersion (''decode payload: '' @ err_text e))
      | Inr payload \<Rightarrow>
          if py_version payload \<noteq> toolSuspensionPayloadVersion then
            Inl (wrap_kind ErrSuspensionVersion (''got '' @ show_int (py_version payload)))
          else if py_suspension_id payload = '''' \<or> py_calls payload = [] \<or>
                  py_executable_call_ids payload = [] then
            Inl (wrap_kind ErrSuspensionMismatch ''missing suspended tool calls'')
          else Inr payload)"

text \<open>Two payloads that a resumption cannot tell apart: equal but for the bytes inside the calls and the
  deferral.\<close>

definition payload_same :: "'o env \<Rightarrow> tool_suspension_payload \<Rightarrow> tool_suspension_payload \<Rightarrow> bool" where
  "payload_same env p q \<longleftrightarrow>
     list_all2 (ev_same_call env) (py_calls p) (py_calls q) \<and>
     td_kind (py_deferral q) = td_kind (py_deferral p) \<and>
     q = p\<lparr>py_calls := py_calls q, py_deferral := py_deferral q\<rparr>"

text \<open>The codec carries a payload: if it encodes it, the encoding decodes to one that is the same.\<close>

definition codec_carries :: "'o env \<Rightarrow> tool_suspension_payload \<Rightarrow> bool" where
  "codec_carries env p \<longleftrightarrow>
     (case ev_encode env p of
        Inl _ \<Rightarrow> True
      | Inr s \<Rightarrow> (case ev_decode env s of Inl _ \<Rightarrow> False | Inr q \<Rightarrow> payload_same env p q))"

lemma newToolSuspension_Inr:
  assumes "newToolSuspension env calls executable deferral h ls = (ls', Inr s)"
  obtains frontier where "inspectTranscript (ls_messages ls) = Inr frontier"
    "sp_id s = ev_fresh_id env (ls_log ls)" "sp_kind s = td_kind deferral"
    "sp_frontier_hash s = ev_frontier_hash env (ls_messages ls) frontier"
    "ev_encode env (suspension_payload ls (sp_id s) calls executable deferral h) = Inr (sp_payload s)"
    "ls' = log_effect FreshId ls"
  using assms by (auto simp: newToolSuspension_def Let_def split: sum.splits)

lemma newToolSuspension_state:
  "fst (newToolSuspension env calls executable deferral h ls) = log_effect FreshId ls"
  by (simp add: newToolSuspension_def Let_def split: sum.splits)

lemma decodeToolSuspension_Inr:
  "decodeToolSuspension env s = Inr p \<Longrightarrow>
     ev_decode env (sp_payload s) = Inr p \<and> py_version p = toolSuspensionPayloadVersion \<and>
     py_suspension_id p \<noteq> '''' \<and> py_calls p \<noteq> [] \<and> py_executable_call_ids p \<noteq> []"
  by (auto simp: decodeToolSuspension_def split: sum.splits if_splits)

lemma suspension_roundtrip:
  assumes "codec_carries env (suspension_payload ls (sp_id s) calls executable deferral h)"
    "newToolSuspension env calls executable deferral h ls = (ls', Inr s)"
    "executable \<noteq> []" "calls \<noteq> []" "sp_id s \<noteq> ''''"
  obtains calls' deferral' where
    "decodeToolSuspension env s = Inr (suspension_payload ls (sp_id s) calls' executable deferral' h)"
    "list_all2 (ev_same_call env) calls calls'" "td_kind deferral' = td_kind deferral"
proof -
  let ?p = "suspension_payload ls (sp_id s) calls executable deferral h"
  have "ev_encode env ?p = Inr (sp_payload s)"
    using newToolSuspension_Inr [OF assms(2)] by blast
  then obtain q where q: "ev_decode env (sp_payload s) = Inr q" "payload_same env ?p q"
    using assms(1) by (auto simp: codec_carries_def split: sum.splits)
  then have same: "list_all2 (ev_same_call env) calls (py_calls q)" "td_kind (py_deferral q) = td_kind deferral"
    and "q = ?p\<lparr>py_calls := py_calls q, py_deferral := py_deferral q\<rparr>"
    by (simp_all add: payload_same_def suspension_payload_def)
  then have p: "q = suspension_payload ls (sp_id s) (py_calls q) executable (py_deferral q) h"
    by (simp add: suspension_payload_def)
  have "py_calls q \<noteq> []" using same(1) assms(4) by auto
  moreover have "py_version q = toolSuspensionPayloadVersion" "py_suspension_id q = sp_id s"
      "py_executable_call_ids q = map tu_id executable"
    using arg_cong [OF p, of py_version] arg_cong [OF p, of py_suspension_id]
      arg_cong [OF p, of py_executable_call_ids] by (simp_all add: suspension_payload_def)
  ultimately have "decodeToolSuspension env s = Inr q"
    using q(1) assms(3,5) by (simp add: decodeToolSuspension_def)
  with p same show ?thesis using that by metis
qed

text \<open>
  A suspension round-trips: decoding the suspension that was built restores the identity, the
  calls, the executable call IDs and every counter of the run at the moment it suspended, and its
  hash is that of the run's transcript and open frontier.
\<close>

theorem newToolSuspension_roundtrip:
  assumes "codec_carries env (suspension_payload ls (sp_id s) calls executable deferral h)"
    "newToolSuspension env calls executable deferral h ls = (ls', Inr s)"
    "executable \<noteq> []" "calls \<noteq> []" "sp_id s \<noteq> ''''"
  shows "\<exists>p frontier. decodeToolSuspension env s = Inr p \<and>
     py_suspension_id p = sp_id s \<and> td_kind (py_deferral p) = sp_kind s \<and>
     list_all2 (ev_same_call env) calls (py_calls p) \<and>
     py_executable_call_ids p = map tu_id executable \<and> py_handler_suspension p = h \<and>
     py_iteration p = ls_iteration ls \<and> py_usage p = ls_total_usage ls \<and>
     py_retry_counts p = ls_retry_counts ls \<and> py_total_retries p = ls_total_retries ls \<and>
     py_validation_retries p = ls_validation_retries ls \<and>
     inspectTranscript (ls_messages ls) = Inr frontier \<and>
     sp_frontier_hash s = ev_frontier_hash env (ls_messages ls) frontier"
proof -
  obtain frontier where "inspectTranscript (ls_messages ls) = Inr frontier"
    "sp_kind s = td_kind deferral"
    "sp_frontier_hash s = ev_frontier_hash env (ls_messages ls) frontier"
    using newToolSuspension_Inr [OF assms(2)] by metis
  then show ?thesis
    by (rule_tac suspension_roundtrip [OF assms]) (simp add: suspension_payload_def copyRetryCounts_def)
qed

subsection \<open>A concrete run\<close>

definition example_core :: agent_core where
  "example_core = \<lparr>ac_model_name = ''m'', ac_system_prompt = '''', ac_dynamic_prompt = None,
     ac_system_prompts = [], ac_system_prompt_suffix = '''', ac_registry = None,
     ac_output_tool_names = (\<lambda>_. False), ac_response_format = None, ac_temperature = None,
     ac_max_tokens = None, ac_top_p = None, ac_max_iterations = 10, ac_tool_choice = None,
     ac_max_retries = 1, ac_max_validation_retries = 3, ac_usage_limits = None, ac_thinking = None,
     ac_prompt_cache = None, ac_end_strategy = EndStrategyExhaustive, ac_history_processor = None\<rparr>"

definition example_options :: run_options where
  "example_options = \<lparr>op_messages = [], op_temperature = None, op_max_tokens = None, op_top_p = None,
     op_max_iterations = None, op_tool_choice = None, op_usage_limits = None, op_end_strategy = None,
     op_history_processor = None, op_toolsets = [], op_model_streaming = None,
     op_prompt_cache = None\<rparr>"

definition example_state :: "message list \<Rightarrow> loop_state" where
  "example_state msgs = \<lparr>ls_messages = msgs, ls_history_len = 0, ls_max_iterations = 10,
     ls_usage_limits = None, ls_end_strategy = EndStrategyExhaustive, ls_history_processor = None,
     ls_options = example_options, ls_registry = empty_exec_registry None, ls_all_tool_calls = [],
     ls_all_tool_results = [], ls_total_usage = zero_usage, ls_retry_counts = Map.empty,
     ls_total_retries = 0, ls_validation_retries = 0, ls_iteration = 0,
     ls_last_finish_reason = FinishReasonOther '''', ls_config_fingerprint = ''cfg'', ls_log = []\<rparr>"

definition example_deferral :: tool_deferral where
  "example_deferral = \<lparr>td_kind = ''approval'', td_payload = ''''\<rparr>"

definition example_payload :: tool_suspension_payload where
  "example_payload = suspension_payload (example_state [NewTextMessage RoleUser ''hi'']) ''id''
     [example_call ''a'' ''f''] [example_call ''a'' ''f''] example_deferral False"

text \<open>The bytes of a missing deferral payload come back as \<^verbatim>\<open>null\<close>.\<close>

definition nulled :: "tool_suspension_payload \<Rightarrow> tool_suspension_payload" where
  "nulled p = p\<lparr>py_deferral := (py_deferral p)\<lparr>td_payload := ''null''\<rparr>\<rparr>"

lemma payload_same_nulled: "ev_same_call env = (=) \<Longrightarrow> payload_same env p (nulled p)"
  by (simp add: payload_same_def nulled_def list_all2_eq [symmetric])

definition example_codec_env :: "string env" where
  "example_codec_env = example_env
     \<lparr>ev_encode := (\<lambda>p. if p = example_payload then Inr ''p'' else Inl (Plain ''other'')),
      ev_decode := (\<lambda>_. Inr (nulled example_payload))\<rparr>"

lemma newToolSuspension_roundtrip_witness:
  "\<exists>ls' s p. newToolSuspension example_codec_env [example_call ''a'' ''f''] [example_call ''a'' ''f'']
       example_deferral False (example_state [NewTextMessage RoleUser ''hi'']) = (ls', Inr s) \<and>
     decodeToolSuspension example_codec_env s = Inr p \<and> py_executable_call_ids p = [''a'']"
proof -
  let ?ls = "example_state [NewTextMessage RoleUser ''hi'']"
  let ?calls = "[example_call ''a'' ''f'']"
  have codec: "codec_carries example_codec_env p" for p
    using payload_same_nulled [of example_codec_env p]
    by (cases "p = example_payload") (simp_all add: codec_carries_def example_codec_env_def example_env_def)
  have "inspectTranscript (ls_messages ?ls) = Inr []"
    by (simp add: example_state_def inspectTranscript_def inspect_message_def inspect_uses_def Let_def)
  then obtain ls' s where s: "newToolSuspension example_codec_env ?calls ?calls example_deferral False ?ls
      = (ls', Inr s)" "sp_id s = ''id''"
    by (simp add: newToolSuspension_def example_codec_env_def example_payload_def example_env_def)
  have "?calls \<noteq> []" "sp_id s \<noteq> ''''" using s(2) by simp_all
  from newToolSuspension_roundtrip [OF codec s(1) this(1,1,2)] s(1) show ?thesis
    by (auto simp: example_call_def)
qed

end
