(* ===== verification/Turn.thy ===== *)
theory Turn
  imports Suspension
begin

text \<open>
  turn.go: one assistant turn.  \<^verbatim>\<open>executeRegularTurn\<close> plans, gates and runs the regular tool calls;
  \<^verbatim>\<open>completeAssistantTurn\<close> pairs every call of the assistant message with exactly one result, decides
  whether the turn yields a validated output, and commits the results to the transcript.

  A turn blocks (result \<open>None\<close>) only where the scheduler blocks.
\<close>

subsection \<open>State of a turn\<close>

record regular_turn_state =
  rg_results :: "string \<rightharpoonup> tool_execution_result"
  rg_continuation :: bool
  rg_suspension :: "suspension option"
  rg_fatal :: "go_error option"

definition new_regular :: regular_turn_state where
  "new_regular = \<lparr>rg_results = Map.empty, rg_continuation = False, rg_suspension = None,
     rg_fatal = None\<rparr>"

record 'o turn_outcome =
  to_assistant :: message
  to_results :: "tool_execution_result list"
  to_candidate :: "('o \<times> completion_candidate) option"
  to_continuation :: bool
  to_suspension :: "suspension option"
  to_fatal :: "go_error option"

text \<open>\<^verbatim>\<open>checkOutputTool\<close>: the index of the first output tool call, or -1 (here \<open>None\<close>).\<close>

fun checkOutputTool :: "agent_core \<Rightarrow> tool_use list \<Rightarrow> nat option" where
  "checkOutputTool c [] = None"
| "checkOutputTool c (u # us) =
     (if ac_output_tool_names c (tu_name u) then Some 0
      else map_option Suc (checkOutputTool c us))"

subsection \<open>Settling the results of a batch\<close>

definition fail_calls ::
  "tool_use list \<Rightarrow> string \<Rightarrow> go_error \<Rightarrow> regular_turn_state \<Rightarrow> regular_turn_state" where
  "fail_calls calls msg e st =
     st\<lparr>rg_fatal := Some e,
        rg_results := foldl (\<lambda>m call. m(tu_id call \<mapsto> makeToolResultError call msg (Some e)))
                        (rg_results st) calls\<rparr>"

text \<open>\<^verbatim>\<open>applyRetryState\<close> (execution_loop.go); \<^verbatim>\<open>executeRegularTurn\<close> holds the same statements inline.\<close>

definition applyRetryState ::
  "agent_core \<Rightarrow> tool_use \<Rightarrow> tool_execution_result \<Rightarrow> loop_state \<times> regular_turn_state \<Rightarrow>
     loop_state \<times> regular_turn_state" where
  "applyRetryState c call r s =
     (let (ls, st) = s;
          maxRetries = (case xr_Get (ls_registry ls) (tu_name call) of
                          Some h \<Rightarrow> resolveMaxRetries h (ac_max_retries c)
                        | None \<Rightarrow> ac_max_retries c);
          count = retry_count (ls_retry_counts ls) (tu_name call) in
      case er_error r of
        None \<Rightarrow> (ls, st)
      | Some e \<Rightarrow>
          if \<not> as_model_retry e \<or> count \<ge> maxRetries then (ls, st)
          else (ls\<lparr>ls_retry_counts := (ls_retry_counts ls)(tu_name call \<mapsto> count + 1),
                   ls_total_retries := ls_total_retries ls + 1\<rparr>,
                st\<lparr>rg_continuation := True\<rparr>))"

definition settle_result ::
  "'o env \<Rightarrow> agent_core \<Rightarrow> tool_use \<Rightarrow> tool_execution_result \<Rightarrow> loop_state \<times> regular_turn_state \<Rightarrow>
     loop_state \<times> regular_turn_state" where
  "settle_result env c call r s =
     (let (ls, st) = s;
          (ls, projected, err) = projectToolResult env call r ls;
          st = st\<lparr>rg_results := (rg_results st)(tu_id call \<mapsto> projected),
                  rg_fatal := (case (err, rg_fatal st) of
                     (Some e, None) \<Rightarrow> Some (wrap_cause ''tool result processor'' e)
                   | _ \<Rightarrow> rg_fatal st)\<rparr>;
          (ls, st) = applyRetryState c call projected (ls, st) in
      (ls\<lparr>ls_total_usage := (ls_total_usage ls)
            \<lparr>us_tool_calls := us_tool_calls (ls_total_usage ls) + 1\<rparr>\<rparr>, st))"

fun settle_results ::
  "'o env \<Rightarrow> agent_core \<Rightarrow> (tool_use \<times> tool_execution_result) list \<Rightarrow>
     loop_state \<times> regular_turn_state \<Rightarrow> loop_state \<times> regular_turn_state" where
  "settle_results env c [] s = s"
| "settle_results env c ((call, r) # rest) s =
     settle_results env c rest (settle_result env c call r s)"

text \<open>What follows the scheduler, in \<^verbatim>\<open>executeRegularTurn\<close>: a handler deferral suspends the run,
  otherwise every result is settled.\<close>

definition after_batch ::
  "'o env \<Rightarrow> agent_core \<Rightarrow> tool_use list \<Rightarrow> tool_use list \<Rightarrow> regular_turn_state \<Rightarrow>
     loop_state \<Rightarrow> batch_result \<Rightarrow> loop_state \<times> regular_turn_state" where
  "after_batch env c calls executable st ls batch =
     (let (results, deferral, executionErr) = batch in
      case deferral of
        Some d \<Rightarrow>
          (case newToolSuspension env calls executable d True ls of
             (ls, Inl e) \<Rightarrow> (ls, fail_calls executable ''Unable to persist tool suspension.'' e st)
           | (ls, Inr suspension) \<Rightarrow> (ls, st\<lparr>rg_suspension := Some suspension\<rparr>))
      | None \<Rightarrow>
          let (ls, st) = settle_results env c (zip executable results) (ls, st) in
          (ls, if executionErr \<noteq> None \<and> rg_fatal st = None then st\<lparr>rg_fatal := executionErr\<rparr>
               else st))"

text \<open>The dispositions of an accepted, unsuspended decision.\<close>

fun apply_dispositions ::
  "tool_use list \<Rightarrow> tool_disposition list \<Rightarrow> regular_turn_state \<Rightarrow>
     tool_use list \<times> regular_turn_state" where
  "apply_dispositions (call # calls) (d # ds) st =
     (let st = st\<lparr>rg_continuation := rg_continuation st \<or> di_continue d\<rparr> in
      case (di_kind d, di_result d) of
        (ToolDispositionReturn, Some r) \<Rightarrow>
          apply_dispositions calls ds (st\<lparr>rg_results := (rg_results st)(tu_id call \<mapsto> r)\<rparr>)
      | (ToolDispositionExecute, _) \<Rightarrow>
          (let (executable, st) = apply_dispositions calls ds st in (call # executable, st))
      | _ \<Rightarrow> apply_dispositions calls ds st)"
| "apply_dispositions _ _ st = ([], st)"

definition run_admitted ::
  "'o env \<Rightarrow> agent_core \<Rightarrow> tool_use list \<Rightarrow> tool_use list \<Rightarrow> tool_use list \<Rightarrow> regular_turn_state \<Rightarrow>
     loop_state \<Rightarrow> (loop_state \<times> regular_turn_state) option" where
  "run_admitted env c calls regular executable st ls =
     (if executable = [] then Some (ls, st)
      else if xr_Count (ls_registry ls) = 0 \<and> \<not> xr_has_executor (ls_registry ls) then
        let e = Plain ''model requested tool calls but no tools are registered'' in
        Some (ls, fail_calls executable (err_text e) e st)
      else (case checkToolCallLimits ls (length executable) of
              Some e \<Rightarrow> Some (ls, fail_calls executable (err_text e) e st)
            | None \<Rightarrow>
                (case validateSuspendableBatch (ls_registry ls) regular executable of
                   Some e \<Rightarrow> Some (ls, fail_calls executable (err_text e) e st)
                 | None \<Rightarrow>
                     (case executeAdmittedTools env executable Map.empty ls of
                        None \<Rightarrow> None
                      | Some (ls, batch) \<Rightarrow> Some (after_batch env c calls executable st ls batch)))))"

definition evaluate_gate ::
  "'o env \<Rightarrow> tool_use list \<Rightarrow> loop_state \<Rightarrow> loop_state \<times> tool_batch_decision result" where
  "evaluate_gate env regular ls =
     (case ev_gate env of
        None \<Rightarrow> (ls, Inr (allowAllToolGate regular))
      | Some gate \<Rightarrow> (log_effect (GateEval regular) ls, gate (ls_log ls) regular))"

definition regular_calls :: "agent_core \<Rightarrow> tool_use list \<Rightarrow> tool_use list" where
  "regular_calls c calls = filter (\<lambda>call. \<not> ac_output_tool_names c (tu_name call)) calls"

definition executeRegularTurn ::
  "'o env \<Rightarrow> agent_core \<Rightarrow> tool_use list \<Rightarrow> loop_state \<Rightarrow>
     (loop_state \<times> regular_turn_state) option" where
  "executeRegularTurn env c calls ls =
     (let regular = regular_calls c calls; st = new_regular in
      if regular = [] then Some (ls, st)
      else (case emit env (ToolBatchPlanned (ls_iteration ls) regular) ls of
              (ls, Some e) \<Rightarrow> Some (ls, fail_calls regular ''Tool batch planning failed.'' e st)
            | (ls, None) \<Rightarrow>
                (case evaluate_gate env regular ls of
                   (ls, Inl e) \<Rightarrow>
                     Some (ls, (fail_calls regular
                       (''Tool batch denied because the tool gate failed: '' @ err_text e) e st)
                       \<lparr>rg_fatal := Some (wrap_cause ''tool gate'' e)\<rparr>)
                 | (ls, Inr decision) \<Rightarrow>
                     (case validateToolBatchDecision regular decision of
                        Inl e \<Rightarrow>
                          Some (ls, (fail_calls regular
                            ''Tool batch denied because the tool gate returned an invalid decision.'' e st)
                            \<lparr>rg_fatal := Some (wrap_cause ''tool gate'' e)\<rparr>)
                      | Inr True \<Rightarrow>
                          (case newToolSuspension env calls regular (the (bd_deferral decision)) False ls of
                             (ls, Inl e) \<Rightarrow>
                               Some (ls, fail_calls regular ''Unable to persist tool suspension.'' e st)
                           | (ls, Inr suspension) \<Rightarrow>
                               Some (ls, st\<lparr>rg_suspension := Some suspension\<rparr>))
                      | Inr False \<Rightarrow>
                          (case apply_dispositions regular (bd_calls decision) st of
                             (executable, st) \<Rightarrow>
                               run_admitted env c calls regular executable st ls)))))"

subsection \<open>Committing results\<close>

definition result_message :: "'o env \<Rightarrow> tool_execution_result \<Rightarrow> message" where
  "result_message env r =
     NewToolResultMessageFor (er_tool_use_id r) (er_tool_name r)
       (FormatToolResult (ev_marshal env) (er_content r)) (er_is_error r)"

fun emit_commits ::
  "'o env \<Rightarrow> tool_execution_result list \<Rightarrow> loop_state \<Rightarrow> loop_state \<times> go_error option" where
  "emit_commits env [] ls = (ls, None)"
| "emit_commits env (r # rs) ls =
     (case emit env (ToolResultCommitted (ls_iteration ls) r) ls of
        (ls, Some e) \<Rightarrow> (ls, Some e)
      | (ls, None) \<Rightarrow> emit_commits env rs ls)"

definition commitToolResults ::
  "'o env \<Rightarrow> tool_execution_result list \<Rightarrow> loop_state \<Rightarrow> loop_state \<times> go_error option" where
  "commitToolResults env results ls =
     emit_commits env results
       (ls\<lparr>ls_all_tool_results := ls_all_tool_results ls @ results,
           ls_messages := ls_messages ls @ map (result_message env) results\<rparr>)"

subsection \<open>The turn\<close>

text \<open>A result slot before the candidate is judged.  The slot of the first output call is filled
  afterwards, on every path; until then it is the zero value.\<close>

definition zero_result :: tool_execution_result where
  "zero_result = \<lparr>er_tool_use_id = '''', er_tool_name = '''', er_content = CNil,
     er_is_error = False, er_error = None\<rparr>"

definition slot_result ::
  "agent_core \<Rightarrow> end_strategy \<Rightarrow> nat option \<Rightarrow> regular_turn_state \<Rightarrow> nat \<Rightarrow> tool_use \<Rightarrow>
     tool_execution_result" where
  "slot_result c strategy outputIndex regular index call =
     (if ac_output_tool_names c (tu_name call) then
        (if outputIndex \<noteq> Some index
         then makeToolResultError call
                ''Skipped because the first output tool is the completion candidate.'' None
         else zero_result)
      else if outputIndex \<noteq> None \<and> strategy = EndStrategyEarly then
        makeToolResultError call ''Skipped because early output ended the tool batch.'' None
      else (case rg_results regular (tu_id call) of
              Some r \<Rightarrow> r
            | None \<Rightarrow> makeToolResultError call
                ''Tool execution did not produce a paired result.'' (rg_fatal regular)))"

definition fill_output ::
  "tool_use list \<Rightarrow> nat option \<Rightarrow> (tool_use \<Rightarrow> tool_execution_result) \<Rightarrow>
     tool_execution_result list \<Rightarrow> tool_execution_result list" where
  "fill_output calls outputIndex f results =
     (case outputIndex of None \<Rightarrow> results | Some i \<Rightarrow> results[i := f (calls ! i)])"

definition accepted_result :: "tool_use \<Rightarrow> tool_execution_result" where
  "accepted_result call =
     \<lparr>er_tool_use_id = tu_id call, er_tool_name = tu_name call, er_content = CText ''Output accepted.'',
      er_is_error = False, er_error = None\<rparr>"

definition newline :: string where
  "newline = [char_of (10::nat)]"

definition feedback_message :: "go_error \<Rightarrow> message" where
  "feedback_message e = NewTextMessage RoleUser
     (''Output validation error: '' @ err_text e @ newline @ ''Please try again.'')"

text \<open>The evaluator rejected the candidate.\<close>

definition reject_candidate ::
  "'o env \<Rightarrow> agent_core \<Rightarrow> tool_use list \<Rightarrow> nat option \<Rightarrow> go_error \<Rightarrow> tool_execution_result list \<Rightarrow>
     'o turn_outcome \<Rightarrow> loop_state \<Rightarrow> loop_state \<times> 'o turn_outcome \<times> tool_execution_result list" where
  "reject_candidate env c calls outputIndex e results outcome ls =
     (let outcome = outcome\<lparr>to_continuation := True\<rparr>;
          ls = ls\<lparr>ls_validation_retries := ls_validation_retries ls + 1\<rparr>;
          (ls, outcome, results) =
            (if outputIndex \<noteq> None then
               (ls, outcome, fill_output calls outputIndex (\<lambda>call. makeToolResultError call
                  (''Output validation failed: '' @ err_text e) (Some e)) results)
             else
               (let ls = ls\<lparr>ls_messages := ls_messages ls @ [feedback_message e]\<rparr>;
                    (ls, emitErr) =
                      emit env (TurnMessagesInjected (ls_iteration ls) [feedback_message e]) ls in
                (ls, (if emitErr \<noteq> None then outcome\<lparr>to_fatal := emitErr\<rparr> else outcome), results))) in
      (ls,
       (if ls_validation_retries ls > ac_max_validation_retries c
        then outcome\<lparr>to_fatal := Some (wrap_cause (''output validation failed after '' @
               show_int (ac_max_validation_retries c) @ '' retries'') e)\<rparr>
        else outcome),
       results))"

text \<open>The evaluator accepted it.\<close>

definition accept_candidate ::
  "'o env \<Rightarrow> tool_use list \<Rightarrow> nat option \<Rightarrow> 'o \<Rightarrow> tool_execution_result list \<Rightarrow>
     'o turn_outcome \<Rightarrow> loop_state \<Rightarrow> loop_state \<times> 'o turn_outcome \<times> tool_execution_result list" where
  "accept_candidate env calls outputIndex output results outcome ls =
     (let meta = (case outputIndex of
                    None \<Rightarrow> \<lparr>cc_source = CompletionText, cc_tool_call_id = ''''\<rparr>
                  | Some i \<Rightarrow> \<lparr>cc_source = CompletionOutputTool, cc_tool_call_id = tu_id (calls ! i)\<rparr>);
          outcome = outcome\<lparr>to_candidate := Some (output, meta)\<rparr>;
          (ls, emitErr) = emit env (OutputValidated (ls_iteration ls) meta) ls in
      (ls, (if emitErr \<noteq> None then outcome\<lparr>to_fatal := emitErr\<rparr> else outcome),
       fill_output calls outputIndex accepted_result results))"

definition judge_candidate ::
  "'o env \<Rightarrow> agent_core \<Rightarrow> tool_use list \<Rightarrow> nat option \<Rightarrow> regular_turn_state \<Rightarrow>
     tool_execution_result list \<Rightarrow> 'o turn_outcome \<Rightarrow> loop_state \<Rightarrow>
     loop_state \<times> 'o turn_outcome \<times> tool_execution_result list" where
  "judge_candidate env c calls outputIndex regular results outcome ls =
     (case rg_fatal regular of
        Some e \<Rightarrow>
          (ls, outcome\<lparr>to_fatal := Some e, to_continuation := True\<rparr>,
           fill_output calls outputIndex (\<lambda>call. makeToolResultError call
             ''Output discarded because tool execution failed.'' (Some e)) results)
      | None \<Rightarrow>
          if (calls = [] \<or> outputIndex \<noteq> None) \<and> \<not> rg_continuation regular then
            (case ev_evaluate env (ls_log ls) (to_assistant outcome) of
               Inl e \<Rightarrow> reject_candidate env c calls outputIndex e results outcome
                         (log_effect (EvalCall (to_assistant outcome)) ls)
             | Inr output \<Rightarrow> accept_candidate env calls outputIndex output results outcome
                         (log_effect (EvalCall (to_assistant outcome)) ls))
          else if outputIndex \<noteq> None then
            (ls, outcome\<lparr>to_continuation := True\<rparr>,
             fill_output calls outputIndex (\<lambda>call. makeToolResultError call
               ''Output discarded because another tool requires continuation.'' None) results)
          else (ls, outcome, results))"

text \<open>From the regular results to the committed turn.\<close>

definition finish_assistant ::
  "'o env \<Rightarrow> agent_core \<Rightarrow> tool_use list \<Rightarrow> nat option \<Rightarrow> regular_turn_state \<Rightarrow>
     'o turn_outcome \<Rightarrow> loop_state \<Rightarrow> loop_state \<times> 'o turn_outcome" where
  "finish_assistant env c calls outputIndex regular outcome ls =
     (let results = map2 (slot_result c (ls_end_strategy ls) outputIndex regular)
                      [0..<length calls] calls;
          (ls, outcome, results) =
            judge_candidate env c calls outputIndex regular results outcome ls;
          outcome = (if rg_continuation regular then outcome\<lparr>to_continuation := True\<rparr> else outcome);
          (ls, outcome) =
            (if results = [] then (ls, outcome)
             else (case commitToolResults env results ls of
                     (ls, Some e) \<Rightarrow>
                       (ls, if to_fatal outcome = None then outcome\<lparr>to_fatal := Some e\<rparr> else outcome)
                   | (ls, None) \<Rightarrow> (ls, outcome))) in
      (ls, outcome\<lparr>to_results := results\<rparr>))"

text \<open>The regular calls of a turn: those a resumption already settled, or a run of the batch, or,
  when an output call ends the batch early, none.\<close>

definition regular_phase ::
  "'o env \<Rightarrow> agent_core \<Rightarrow> tool_use list \<Rightarrow> regular_turn_state option \<Rightarrow> loop_state \<Rightarrow>
     (loop_state \<times> regular_turn_state) option" where
  "regular_phase env c calls resumed ls =
     (case resumed of
        Some regular \<Rightarrow> Some (ls, regular)
      | None \<Rightarrow>
          if checkOutputTool c calls = None \<or> ls_end_strategy ls \<noteq> EndStrategyEarly
          then executeRegularTurn env c calls ls
          else Some (ls, new_regular))"

definition completeAssistantTurn ::
  "'o env \<Rightarrow> agent_core \<Rightarrow> message \<Rightarrow> bool \<Rightarrow> regular_turn_state option \<Rightarrow> loop_state \<Rightarrow>
     (loop_state \<times> 'o turn_outcome) option" where
  "completeAssistantTurn env c assistant recordedCalls resumed ls =
     (let outcome = \<lparr>to_assistant = assistant, to_results = [], to_candidate = None,
                     to_continuation = False, to_suspension = None, to_fatal = None\<rparr>;
          calls = GetToolUses assistant;
          ls = (if recordedCalls then ls
                else ls\<lparr>ls_all_tool_calls := ls_all_tool_calls ls @ calls\<rparr>) in
      case regular_phase env c calls resumed ls of
        None \<Rightarrow> None
      | Some (ls, regular) \<Rightarrow>
          Some (if rg_suspension regular \<noteq> None
                then (ls, outcome\<lparr>to_suspension := rg_suspension regular\<rparr>)
                else finish_assistant env c calls (checkOutputTool c calls) regular outcome ls))"

end
