(* ===== verification/Turn_Props.thy ===== *)
theory Turn_Props
  imports Turn
begin

text \<open>
  Properties of one assistant turn: what it leaves alone, what it appends to the effect log, that
  every call of the assistant message gets exactly one paired result, that a handler runs only after
  the gate admitted it, and that a turn ends whenever the scheduler does.
\<close>

subsection \<open>Frames\<close>

text \<open>The fields no operation of a turn changes, and the extension of the log by effects that
  satisfy \<open>P\<close>.\<close>

definition same_run :: "loop_state \<Rightarrow> loop_state \<Rightarrow> bool" where
  "same_run ls ls' \<longleftrightarrow>
     ls_history_len ls' = ls_history_len ls \<and> ls_max_iterations ls' = ls_max_iterations ls \<and>
     ls_usage_limits ls' = ls_usage_limits ls \<and> ls_end_strategy ls' = ls_end_strategy ls \<and>
     ls_history_processor ls' = ls_history_processor ls \<and> ls_options ls' = ls_options ls \<and>
     ls_registry ls' = ls_registry ls \<and> ls_iteration ls' = ls_iteration ls \<and>
     ls_config_fingerprint ls' = ls_config_fingerprint ls"

definition moves :: "(effect \<Rightarrow> bool) \<Rightarrow> loop_state \<Rightarrow> loop_state \<Rightarrow> bool" where
  "moves P ls ls' \<longleftrightarrow>
     same_run ls ls' \<and> us_requests (ls_total_usage ls') = us_requests (ls_total_usage ls) \<and>
     ls_last_finish_reason ls' = ls_last_finish_reason ls \<and>
     (\<exists>es. ls_log ls' = ls_log ls @ es \<and> (\<forall>e \<in> set es. P e))"

text \<open>A step that leaves the transcript alone too.\<close>

definition regular_step :: "(effect \<Rightarrow> bool) \<Rightarrow> loop_state \<Rightarrow> loop_state \<Rightarrow> bool" where
  "regular_step P ls ls' \<longleftrightarrow>
     moves P ls ls' \<and> ls_messages ls' = ls_messages ls \<and>
     ls_validation_retries ls' = ls_validation_retries ls"

lemma same_run_refl [simp]: "same_run ls ls"
  by (simp add: same_run_def)

lemma same_run_trans: "same_run a b \<Longrightarrow> same_run b c \<Longrightarrow> same_run a c"
  by (simp add: same_run_def)

lemma moves_refl [simp]: "moves P ls ls"
  by (simp add: moves_def)

lemma moves_trans: "moves P a b \<Longrightarrow> moves P b c \<Longrightarrow> moves P a c"
  unfolding moves_def by (auto intro: same_run_trans)

lemma regular_step_refl [simp]: "regular_step P ls ls"
  by (simp add: regular_step_def)

lemma regular_step_trans: "regular_step P a b \<Longrightarrow> regular_step P b c \<Longrightarrow> regular_step P a c"
  unfolding regular_step_def by (auto intro: moves_trans)

lemma moves_mono: "moves P a b \<Longrightarrow> (\<And>e. P e \<Longrightarrow> Q e) \<Longrightarrow> moves Q a b"
  unfolding moves_def by blast

lemma regular_step_log: "P e \<Longrightarrow> regular_step P ls (log_effect e ls)"
  by (simp add: regular_step_def moves_def same_run_def log_effect_def)

lemma emit_step: "emit env ev ls = (ls', err) \<Longrightarrow> P (EmitE ev) \<Longrightarrow> regular_step P ls ls'"
  by (auto simp: emit_def regular_step_log split: option.splits)

lemma moves_step: "regular_step P a b \<Longrightarrow> moves P a b"
  by (simp add: regular_step_def)

lemma step_messages: "regular_step P a b \<Longrightarrow> ls_messages b = ls_messages a"
  by (simp add: regular_step_def)

lemma moves_log_length: "moves P a b \<Longrightarrow> length (ls_log a) \<le> length (ls_log b)"
  by (auto simp: moves_def)

text \<open>The effects of a turn.\<close>

fun turn_event :: "event \<Rightarrow> bool" where
  "turn_event (ToolBatchPlanned _ _) = True"
| "turn_event (ToolStarted _ _ _) = True"
| "turn_event (ToolResultCommitted _ _) = True"
| "turn_event (OutputValidated _ _) = True"
| "turn_event (TurnMessagesInjected _ _) = True"
| "turn_event _ = False"

fun turn_effect :: "effect \<Rightarrow> bool" where
  "turn_effect (EmitE ev) = turn_event ev"
| "turn_effect (GateEval _) = True"
| "turn_effect (ExecTool _ _) = True"
| "turn_effect (ProcessResult _ _) = True"
| "turn_effect (EvalCall _) = True"
| "turn_effect FreshId = True"
| "turn_effect _ = False"

text \<open>Effects of a turn in which only handlers of the calls in \<open>S\<close> are started.\<close>

definition exec_only :: "tool_use set \<Rightarrow> effect \<Rightarrow> bool" where
  "exec_only S e \<longleftrightarrow> turn_effect e \<and> (\<forall>c rc. e = ExecTool c rc \<longrightarrow> c \<in> S)"

lemma exec_only_simps [simp]:
  "exec_only S (EmitE ev) = turn_event ev"
  "exec_only S (ExecTool c rc) \<longleftrightarrow> c \<in> S"
  "exec_only S (GateEval calls)" "exec_only S (ProcessResult c r)" "exec_only S (EvalCall m)"
  "exec_only S FreshId"
  by (simp_all add: exec_only_def)

abbreviation step_in :: "tool_use set \<Rightarrow> loop_state \<Rightarrow> loop_state \<Rightarrow> bool" where
  "step_in S \<equiv> regular_step (exec_only S)"

lemma step_in_mono: "step_in S a b \<Longrightarrow> S \<subseteq> T \<Longrightarrow> step_in T a b"
  unfolding regular_step_def moves_def exec_only_def by blast

lemma turn_step_emit [frame]: "emit env ev ls = (ls', err) \<Longrightarrow> turn_event ev \<Longrightarrow> step_in S ls ls'"
  by (rule emit_step) simp_all

lemma turn_step_emit_starts [frame]: "emit_starts env calls ls = (ls', err) \<Longrightarrow> step_in S ls ls'"
proof (induction calls arbitrary: ls)
  case (Cons call calls)
  obtain ls1 e1 where e1: "emit env (ToolStarted (ls_iteration ls) call
      (retry_count (ls_retry_counts ls) (tu_name call) + 1)) ls = (ls1, e1)" by fastforce
  have "step_in S ls ls1" by (rule turn_step_emit [OF e1]) simp
  then show ?case
    using Cons e1 by (auto split: option.splits intro: regular_step_trans)
qed simp

lemma turn_step_execute [frame]:
  assumes "executeAdmittedTools env calls resumes ls = Some (ls', batch)" "set calls \<subseteq> S"
  shows "step_in S ls ls'"
proof -
  obtain ls1 e1 where e1: "emit_starts env calls ls = (ls1, e1)" by fastforce
  have "step_in S ls1 (ls1\<lparr>ls_log := ls_log ls1 @ map (\<lambda>c. ExecTool c (resumes (tu_id c))) calls\<rparr>)"
    using assms(2) by (auto simp: regular_step_def moves_def same_run_def)
  with turn_step_emit_starts [OF e1] show ?thesis
    using assms e1
    by (auto simp: executeAdmittedTools_def Let_def split: if_splits option.splits
        intro: regular_step_trans)
qed

lemma turn_step_project [frame]:
  "projectToolResult env call r ls = (ls', p, e) \<Longrightarrow> step_in S ls ls'"
  by (auto simp: projectToolResult_def Let_def regular_step_log
      split: option.splits sum.splits if_splits)

lemma turn_step_retry: "applyRetryState c call r (ls, st) = (ls', st') \<Longrightarrow> step_in S ls ls'"
  by (auto simp: applyRetryState_def Let_def regular_step_def moves_def same_run_def
      split: option.splits if_splits)

lemma turn_step_settle [frame]:
  assumes "settle_result env c call r (ls, st) = (ls', st')"
  shows "step_in S ls ls'"
proof -
  obtain ls1 p e where p: "projectToolResult env call r ls = (ls1, p, e)" using prod_cases3 by blast
  obtain st1 ls2 st2 where r: "applyRetryState c call p (ls1, st1) = (ls2, st2)"
    and ls': "ls' = ls2\<lparr>ls_total_usage := (ls_total_usage ls2)
            \<lparr>us_tool_calls := us_tool_calls (ls_total_usage ls2) + 1\<rparr>\<rparr>"
    using assms p by (auto simp: settle_result_def split: prod.splits)
  have "step_in S ls2 ls'" unfolding ls' by (simp add: regular_step_def moves_def same_run_def)
  with turn_step_project [OF p] turn_step_retry [OF r] show ?thesis
    by (blast intro: regular_step_trans)
qed

lemma turn_step_settle_all [frame]:
  "settle_results env c rs (ls, st) = (ls', st') \<Longrightarrow> step_in S ls ls'"
proof (induction rs arbitrary: ls st)
  case (Cons x rs)
  obtain call r where x: "x = (call, r)" by fastforce
  obtain ls1 st1 where 1: "settle_result env c call r (ls, st) = (ls1, st1)" by fastforce
  then have "settle_results env c rs (ls1, st1) = (ls', st')" using Cons.prems x by simp
  with Cons.IH turn_step_settle [OF 1] show ?case by (blast intro: regular_step_trans)
qed simp

lemma turn_step_suspend [frame]:
  "newToolSuspension env calls executable d h ls = (ls', s) \<Longrightarrow> step_in S ls ls'"
  using newToolSuspension_state [of env calls executable d h ls]
  by (auto simp: regular_step_log)

lemma turn_step_after [frame]:
  "after_batch env c calls executable st ls batch = (ls', st') \<Longrightarrow> step_in S ls ls'"
  by (auto simp: after_batch_def Let_def split: prod.splits option.splits sum.splits
      dest: turn_step_suspend turn_step_settle_all)

lemma turn_step_admitted [frame]:
  "run_admitted env c calls regular executable st ls = Some (ls', st') \<Longrightarrow>
     set executable \<subseteq> S \<Longrightarrow> step_in S ls ls'"
  by (auto simp: run_admitted_def Let_def split: if_splits option.splits prod.splits
      dest!: turn_step_execute [where S = S] turn_step_after [where S = S] intro: regular_step_trans)

lemma turn_step_gate [frame]: "evaluate_gate env regular ls = (ls', d) \<Longrightarrow> step_in S ls ls'"
  by (auto simp: evaluate_gate_def regular_step_log split: option.splits)

lemma apply_dispositions_executable:
  "apply_dispositions calls ds st = (executable, st') \<Longrightarrow> set executable \<subseteq> set calls"
  by (induction calls ds st arbitrary: executable st' rule: apply_dispositions.induct)
    (fastforce simp: Let_def split: disposition_kind.splits option.splits prod.splits)+

lemma turn_step_regular [frame]:
  assumes "executeRegularTurn env c calls ls = Some (ls', st)" "set (regular_calls c calls) \<subseteq> S"
  shows "step_in S ls ls'"
proof (cases "regular_calls c calls = []")
  case False
  let ?regular = "regular_calls c calls"
  obtain ls1 e1 where e1: "emit env (ToolBatchPlanned (ls_iteration ls) ?regular) ls = (ls1, e1)"
    by fastforce
  have s1: "step_in S ls ls1" by (rule turn_step_emit [OF e1]) simp
  obtain ls2 d where d: "evaluate_gate env ?regular ls1 = (ls2, d)" by fastforce
  note s2 = turn_step_gate [OF d, of S]
  have "step_in S ls1 ls' \<or> ls' = ls1"
    using assms False e1 d s2
    by (auto simp: executeRegularTurn_def Let_def split: option.splits sum.splits bool.splits prod.splits
        dest!: turn_step_admitted turn_step_suspend [where S = S] apply_dispositions_executable
        intro: regular_step_trans; meson order_trans regular_step_trans step_in_mono)
  then show ?thesis using s1 by (auto intro: regular_step_trans)
qed (use assms in \<open>simp add: executeRegularTurn_def\<close>)

subsection \<open>A handler starts only after the gate\<close>

text \<open>A property of every effect from position \<open>n\<close> of a log on, given what precedes it.\<close>

definition since :: "(effect list \<Rightarrow> effect \<Rightarrow> bool) \<Rightarrow> nat \<Rightarrow> effect list \<Rightarrow> bool" where
  "since A n l \<longleftrightarrow> (\<forall>i. n \<le> i \<and> i < length l \<longrightarrow> A (take i l) (l ! i))"

lemma since_refl [simp]: "since A (length l) l"
  by (auto simp: since_def)

lemma since_append:
  assumes "since A n l" "\<And>j. j < length es \<Longrightarrow> A (l @ take j es) (es ! j)"
  shows "since A n (l @ es)"
  unfolding since_def
proof (intro allI impI)
  fix i assume i: "n \<le> i \<and> i < length (l @ es)"
  show "A (take i (l @ es)) ((l @ es) ! i)"
  proof (cases "i < length l")
    case True
    then show ?thesis using assms(1) i by (simp add: since_def nth_append)
  next
    case False
    then have "i - length l < length es" using i by auto
    from assms(2) [OF this] False show ?thesis by (simp add: nth_append)
  qed
qed

lemma since_moves:
  assumes "since A n (ls_log a)" "moves P a b" "\<And>es e. P e \<Longrightarrow> A (ls_log a @ es) e"
  shows "since A n (ls_log b)"
proof -
  obtain es where es: "ls_log b = ls_log a @ es" "\<forall>e \<in> set es. P e"
    using assms(2) by (auto simp: moves_def)
  have "A (ls_log a @ take j es) (es ! j)" if "j < length es" for j
    using assms(3) es(2) that by simp
  then show ?thesis using since_append [OF assms(1)] es(1) by simp
qed

text \<open>At or after position \<open>n\<close> of the log, the gate was asked about a batch with the call, answered with an acceptable decision that
  suspends nothing, and gave the call the disposition to execute.\<close>

definition admitted_by :: "'o env \<Rightarrow> nat \<Rightarrow> effect list \<Rightarrow> tool_use \<Rightarrow> bool" where
  "admitted_by env n pre call \<longleftrightarrow>
     (case ev_gate env of
        None \<Rightarrow> True
      | Some gate \<Rightarrow>
          (\<exists>p q batch d i. pre = p @ GateEval batch # q \<and> n \<le> length p \<and> gate p batch = Inr d \<and> decision_ok batch d \<and>
             \<not> some_suspended d \<and> i < length batch \<and> batch ! i = call \<and>
             di_kind (bd_calls d ! i) = ToolDispositionExecute))"

definition gate_ok :: "'o env \<Rightarrow> nat \<Rightarrow> effect list \<Rightarrow> effect \<Rightarrow> bool" where
  "gate_ok env n pre e \<longleftrightarrow> (\<forall>call rc. e = ExecTool call rc \<longrightarrow> admitted_by env n pre call)"

lemma admitted_by_mono: "admitted_by env n pre call \<Longrightarrow> admitted_by env n (pre @ es) call"
  by (fastforce simp: admitted_by_def split: option.splits)

lemma gate_ok_step:
  assumes "since (gate_ok env n) n (ls_log a)" "step_in S a b"
    "\<And>call. call \<in> S \<Longrightarrow> admitted_by env n (ls_log a) call"
  shows "since (gate_ok env n) n (ls_log b)"
proof (rule since_moves [OF assms(1)])
  show "moves (exec_only S) a b" using assms(2) by (simp add: regular_step_def)
  show "\<And>es e. exec_only S e \<Longrightarrow> gate_ok env n (ls_log a @ es) e"
    using assms(3) by (auto simp: gate_ok_def exec_only_def intro: admitted_by_mono)
qed

lemma apply_dispositions_execute:
  "length ds = length calls \<Longrightarrow> apply_dispositions calls ds st = (executable, st') \<Longrightarrow>
     call \<in> set executable \<Longrightarrow>
     \<exists>i < length calls. calls ! i = call \<and> di_kind (ds ! i) = ToolDispositionExecute"
proof (induction calls ds st arbitrary: executable st' rule: apply_dispositions.induct)
  case (1 c calls d ds st)
  show ?case
  proof (cases "di_kind d = ToolDispositionExecute \<and> call = c")
    case True
    then show ?thesis by (intro exI [of _ 0]) simp
  next
    case False
    obtain st1 ex1 st2 where rest: "apply_dispositions calls ds st1 = (ex1, st2)" "call \<in> set ex1"
      and IH: "\<And>e s. apply_dispositions calls ds st1 = (e, s) \<Longrightarrow> call \<in> set e \<Longrightarrow>
        \<exists>i < length calls. calls ! i = call \<and> di_kind (ds ! i) = ToolDispositionExecute"
      using "1.prems" False "1.IH"
      by (fastforce simp: Let_def split: disposition_kind.splits option.splits prod.splits)
    then obtain i where "i < length calls" "calls ! i = call" "di_kind (ds ! i) = ToolDispositionExecute"
      by blast
    then show ?thesis by (intro exI [of _ "Suc i"]) simp
  qed
qed auto

lemma evaluate_gate_admits:
  assumes "evaluate_gate env regular ls = (ls', Inr d)" "decision_ok regular d" "\<not> some_suspended d"
    "apply_dispositions regular (bd_calls d) st = (executable, st')" "call \<in> set executable"
    "n \<le> length (ls_log ls)"
  shows "admitted_by env n (ls_log ls') call"
proof (cases "ev_gate env")
  case (Some gate)
  then have g: "gate (ls_log ls) regular = Inr d" "ls_log ls' = ls_log ls @ GateEval regular # []"
    using assms(1) by (auto simp: evaluate_gate_def log_effect_def)
  have "length (bd_calls d) = length regular"
    using assms(2) by (auto simp: decision_ok_def dest: list_all2_lengthD)
  from apply_dispositions_execute [OF this assms(4,5)] g assms(2,3,6) Some show ?thesis
    unfolding admitted_by_def by (simp del: append_Cons) blast
qed (simp add: admitted_by_def)

lemma executeRegularTurn_gated:
  assumes "executeRegularTurn env c calls ls = Some (ls', st)" "since (gate_ok env n) n (ls_log ls)"
    "n \<le> length (ls_log ls)"
  shows "since (gate_ok env n) n (ls_log ls')"
proof (cases "regular_calls c calls = []")
  case False
  let ?regular = "regular_calls c calls"
  obtain ls1 e1 where e1: "emit env (ToolBatchPlanned (ls_iteration ls) ?regular) ls = (ls1, e1)"
    by fastforce
  have s1: "step_in {} ls ls1" by (rule turn_step_emit [OF e1]) simp
  then have n1: "n \<le> length (ls_log ls1)" using moves_log_length [OF moves_step] assms(3) by force
  from gate_ok_step [OF assms(2) s1] have g1: "since (gate_ok env n) n (ls_log ls1)" by blast
  obtain ls2 d where d: "evaluate_gate env ?regular ls1 = (ls2, d)" by fastforce
  from gate_ok_step [OF g1 turn_step_gate [OF d, of "{}"]]
  have g2: "since (gate_ok env n) n (ls_log ls2)" by blast
  have susp: "since (gate_ok env n) n (ls_log ls3)"
    if "newToolSuspension env calls ?regular x h ls2 = (ls3, s)" for x h ls3 s
    using gate_ok_step [OF g2 turn_step_suspend [OF that, of "{}"]] by blast
  have admitted: "since (gate_ok env n) n (ls_log ls3)"
    if "d = Inr dec" "validateToolBatchDecision ?regular dec = Inr False"
      "apply_dispositions ?regular (bd_calls dec) new_regular = (executable, st1)"
      "run_admitted env c calls ?regular executable st1 ls2 = Some (ls3, st3)"
    for dec executable st1 ls3 st3
  proof (rule gate_ok_step [OF g2 turn_step_admitted [OF that(4) subset_refl]])
    fix call assume "call \<in> set executable"
    then show "admitted_by env n (ls_log ls2) call"
      using evaluate_gate_admits [OF _ _ _ that(3)] d that(1,2) n1
      by (simp add: validateToolBatchDecision_Inr)
  qed
  show ?thesis
    using assms(1) False e1 d g1 g2 susp admitted
    by (auto simp: executeRegularTurn_def Let_def split: option.splits sum.splits bool.splits prod.splits)
qed (use assms in \<open>simp add: executeRegularTurn_def\<close>)

subsection \<open>Every recorded result belongs to its call\<close>

definition results_in :: "tool_use list \<Rightarrow> (string \<rightharpoonup> tool_execution_result) \<Rightarrow> bool" where
  "results_in calls m \<longleftrightarrow>
     (\<forall>k r. m k = Some r \<longrightarrow> (\<exists>call \<in> set calls. tu_id call = k \<and> result_for call r))"

lemma results_in_empty [simp]: "results_in calls Map.empty"
  by (simp add: results_in_def)

lemma results_in_upd:
  "results_in calls m \<Longrightarrow> call \<in> set calls \<Longrightarrow> result_for call r \<Longrightarrow>
     results_in calls (m(tu_id call \<mapsto> r))"
  by (auto simp: results_in_def)

lemma results_in_fail:
  "results_in calls (rg_results st) \<Longrightarrow> set cs \<subseteq> set calls \<Longrightarrow>
     results_in calls (rg_results (fail_calls cs msg e st))"
proof -
  have "results_in calls m \<Longrightarrow> set cs \<subseteq> set calls \<Longrightarrow>
      results_in calls (foldl (\<lambda>m call. m(tu_id call \<mapsto> makeToolResultError call msg (Some e))) m cs)" for m
  proof (induction cs arbitrary: m)
    case (Cons a cs)
    have "results_in calls (m(tu_id a \<mapsto> makeToolResultError a msg (Some e)))"
      by (rule results_in_upd) (use Cons.prems in simp_all)
    from Cons.IH [OF this] Cons.prems(2) show ?case by (simp only: foldl_Cons set_simps insert_subset)
  qed simp
  then show "results_in calls (rg_results st) \<Longrightarrow> set cs \<subseteq> set calls \<Longrightarrow>
     results_in calls (rg_results (fail_calls cs msg e st))"
    by (simp add: fail_calls_def)
qed

lemma applyRetryState_results:
  "applyRetryState c call r (ls, st) = (ls', st') \<Longrightarrow>
     rg_results st' = rg_results st \<and> rg_suspension st' = rg_suspension st \<and> rg_fatal st' = rg_fatal st"
  by (auto simp: applyRetryState_def Let_def split: option.splits if_splits)

lemma settle_result_in:
  assumes "settle_result env c call r (ls, st) = (ls', st')" "results_in calls (rg_results st)"
    "call \<in> set calls"
  shows "results_in calls (rg_results st')"
proof -
  obtain ls1 p e where p: "projectToolResult env call r ls = (ls1, p, e)" using prod_cases3 by blast
  have "rg_results st' = (rg_results st)(tu_id call \<mapsto> p)"
    using assms(1) p by (auto simp: settle_result_def Let_def split: prod.splits
        dest!: applyRetryState_results)
  then show ?thesis using results_in_upd [OF assms(2,3) projectToolResult_for [OF p]] by simp
qed

lemma settle_results_in:
  "settle_results env c rs (ls, st) = (ls', st') \<Longrightarrow> results_in calls (rg_results st) \<Longrightarrow>
     fst ` set rs \<subseteq> set calls \<Longrightarrow> results_in calls (rg_results st')"
proof (induction rs arbitrary: ls st)
  case (Cons x rs)
  obtain call r where x: "x = (call, r)" by fastforce
  obtain ls1 st1 where 1: "settle_result env c call r (ls, st) = (ls1, st1)" by fastforce
  have "results_in calls (rg_results st1)"
    using settle_result_in [OF 1 Cons.prems(2)] Cons.prems(3) x by auto
  moreover have "settle_results env c rs (ls1, st1) = (ls', st')" using Cons.prems x 1 by simp
  ultimately show ?case using Cons.IH Cons.prems(3) by auto
qed simp

lemma zip_fst_subset: "fst ` set (zip xs ys) \<subseteq> set xs"
  by (auto dest: set_zip_leftD)

lemma after_batch_in:
  assumes "after_batch env c calls executable st ls batch = (ls', st')"
    "results_in cs (rg_results st)" "set executable \<subseteq> set cs"
  shows "results_in cs (rg_results st')"
proof -
  obtain results deferral err where batch: "batch = (results, deferral, err)" using prod_cases3 by blast
  show ?thesis
  proof (cases deferral)
    case None
    obtain ls1 st1 where 1: "settle_results env c (zip executable results) (ls, st) = (ls1, st1)"
      by fastforce
    have "results_in cs (rg_results st1)"
      using settle_results_in [OF 1 assms(2)] zip_fst_subset assms(3) by fast
    then show ?thesis using assms(1) batch None 1 by (auto simp: after_batch_def split: if_splits)
  next
    case (Some d)
    then show ?thesis
      using assms batch results_in_fail [OF assms(2,3)]
      by (auto simp: after_batch_def split: prod.splits sum.splits)
  qed
qed

lemma apply_dispositions_in:
  "list_all2 coherent calls ds \<Longrightarrow> apply_dispositions calls ds st = (executable, st') \<Longrightarrow>
     results_in cs (rg_results st) \<Longrightarrow> set calls \<subseteq> set cs \<Longrightarrow> results_in cs (rg_results st')"
proof (induction calls arbitrary: ds st executable st')
  case (Cons c calls)
  then obtain d ds' where ds: "ds = d # ds'" "coherent c d" "list_all2 coherent calls ds'"
    by (auto simp: list_all2_Cons1)
  let ?st = "st\<lparr>rg_continuation := rg_continuation st \<or> di_continue d\<rparr>"
  have sub: "set calls \<subseteq> set cs" "c \<in> set cs" using Cons.prems by auto
  have st: "results_in cs (rg_results ?st)" using Cons.prems by simp
  note IH = Cons.IH [OF ds(3) _ _ sub(1)]
  consider "di_kind d = ToolDispositionExecute"
    | r where "di_kind d = ToolDispositionReturn" "di_result d = Some r" "result_for c r"
    | "di_kind d = ToolDispositionSuspend"
    using ds(2) by (auto simp: coherent_def)
  then show ?case
  proof cases
    case 1
    obtain ex1 st1 where "apply_dispositions calls ds' ?st = (ex1, st1)" by fastforce
    then show ?thesis using IH [OF _ st] Cons.prems(2) ds 1 by (auto simp: Let_def)
  next
    case 2
    have "results_in cs (rg_results (?st\<lparr>rg_results := (rg_results ?st)(tu_id c \<mapsto> r)\<rparr>))"
      using results_in_upd [OF st sub(2) 2(3)] by simp
    from IH [OF _ this] show ?thesis using Cons.prems(2) ds 2 by (simp add: Let_def)
  next
    case 3
    then show ?thesis using IH [OF _ st] Cons.prems(2) ds by (simp add: Let_def)
  qed
qed simp

lemma run_admitted_in:
  assumes "run_admitted env c calls regular executable st ls = Some (ls', st')"
    "results_in cs (rg_results st)" "set executable \<subseteq> set cs"
  shows "results_in cs (rg_results st')"
  using assms results_in_fail [OF assms(2,3)] after_batch_in [OF _ assms(2,3)]
  by (auto simp: run_admitted_def Let_def split: if_splits option.splits prod.splits)

lemma executeRegularTurn_in:
  assumes "executeRegularTurn env c calls ls = Some (ls', st)"
  shows "results_in calls (rg_results st)"
proof -
  let ?regular = "regular_calls c calls"
  have sub: "set ?regular \<subseteq> set calls" by (auto simp: regular_calls_def)
  have new: "results_in calls (rg_results new_regular)" by (simp add: new_regular_def)
  have admitted: "results_in calls (rg_results st3)"
    if "validateToolBatchDecision ?regular dec = Inr b"
      "apply_dispositions ?regular (bd_calls dec) new_regular = (executable, st1)"
      "run_admitted env c calls ?regular executable st1 ls2 = Some (ls3, st3)"
    for dec b executable st1 ls2 ls3 st3
  proof (rule run_admitted_in [OF that(3)])
    show "results_in calls (rg_results st1)"
      using apply_dispositions_in [OF _ that(2) new sub] that(1)
      by (simp add: validateToolBatchDecision_Inr decision_ok_def)
    show "set executable \<subseteq> set calls"
      using apply_dispositions_executable [OF that(2)] sub by blast
  qed
  show ?thesis
    using assms new admitted results_in_fail [OF new sub]
    by (auto simp: executeRegularTurn_def Let_def
        split: if_splits option.splits sum.splits bool.splits prod.splits)
qed

subsection \<open>One paired result per call\<close>

lemma checkOutputTool_Some:
  "checkOutputTool c calls = Some i \<Longrightarrow> i < length calls \<and> ac_output_tool_names c (tu_name (calls ! i))"
  by (induction calls arbitrary: i) (auto split: if_splits)

lemma checkOutputTool_None:
  "checkOutputTool c calls = None \<longleftrightarrow> (\<forall>call \<in> set calls. \<not> ac_output_tool_names c (tu_name call))"
  by (induction calls) auto

text \<open>Every slot but the one of the output call holds a result of its call.\<close>

definition slots_ok :: "tool_use list \<Rightarrow> nat option \<Rightarrow> tool_execution_result list \<Rightarrow> bool" where
  "slots_ok calls oi results \<longleftrightarrow>
     length results = length calls \<and> (\<forall>i. oi = Some i \<longrightarrow> i < length calls) \<and>
     (\<forall>i < length calls. oi \<noteq> Some i \<longrightarrow> result_for (calls ! i) (results ! i))"

lemma slots_ok_fill:
  "slots_ok calls oi results \<Longrightarrow> (\<And>call. result_for call (f call)) \<Longrightarrow>
     list_all2 result_for calls (fill_output calls oi f results)"
  by (auto simp: slots_ok_def fill_output_def list_all2_conv_all_nth nth_list_update
      split: option.splits)

lemma slots_ok_no_output: "slots_ok calls None results \<Longrightarrow> list_all2 result_for calls results"
  by (simp add: slots_ok_def list_all2_conv_all_nth)

lemma wf_calls_same_id:
  "wf_calls calls \<Longrightarrow> a \<in> set calls \<Longrightarrow> b \<in> set calls \<Longrightarrow> tu_id a = tu_id b \<Longrightarrow> a = b"
  by (auto simp: wf_calls_def call_ids_def distinct_map inj_on_def)

lemma result_for_slot:
  assumes "wf_calls calls" "results_in calls (rg_results regular)" "i < length calls"
    "checkOutputTool c calls \<noteq> Some i"
  shows "result_for (calls ! i)
    (slot_result c strategy (checkOutputTool c calls) regular i (calls ! i))"
proof -
  have "result_for (calls ! i) r" if r: "rg_results regular (tu_id (calls ! i)) = Some r" for r
  proof -
    obtain call where "call \<in> set calls" "tu_id call = tu_id (calls ! i)" "result_for call r"
      using assms(2) r unfolding results_in_def by blast
    then show ?thesis using wf_calls_same_id [OF assms(1)] nth_mem [OF assms(3)] by metis
  qed
  then show ?thesis using assms(4) by (simp add: slot_result_def split: option.splits)
qed

lemma slots_ok_start:
  assumes "wf_calls calls" "results_in calls (rg_results regular)"
  shows "slots_ok calls (checkOutputTool c calls)
    (map2 (slot_result c strategy (checkOutputTool c calls) regular) [0..<length calls] calls)"
  using result_for_slot [OF assms] checkOutputTool_Some
  by (auto simp: slots_ok_def)

lemma result_for_accepted [simp]: "result_for call (accepted_result call)"
  by (simp add: result_for_def accepted_result_def)

text \<open>What judging the candidate does to the transcript: nothing, or the feedback message when
  there is no call to answer.\<close>

definition feedback_only :: "tool_use list \<Rightarrow> loop_state \<Rightarrow> loop_state \<Rightarrow> bool" where
  "feedback_only calls ls ls' \<longleftrightarrow>
     ls_messages ls' = ls_messages ls \<or>
     calls = [] \<and> (\<exists>e. ls_messages ls' = ls_messages ls @ [feedback_message e])"

lemma reject_candidate_spec:
  assumes "reject_candidate env c calls oi e results outcome ls = (ls', outcome', results')"
    "slots_ok calls oi results" "calls = [] \<or> oi \<noteq> None"
  shows "list_all2 result_for calls results' \<and> feedback_only calls ls ls' \<and>
    moves (exec_only S) ls ls' \<and> to_candidate outcome' = to_candidate outcome \<and>
    to_continuation outcome' \<and> to_suspension outcome' = to_suspension outcome \<and>
    to_assistant outcome' = to_assistant outcome"
proof (cases oi)
  case (Some i)
  have "moves (exec_only S) ls (ls\<lparr>ls_validation_retries := ls_validation_retries ls + 1\<rparr>)"
    by (simp add: moves_def same_run_def)
  then show ?thesis
    using assms Some slots_ok_fill [OF assms(2)]
    by (auto simp: reject_candidate_def Let_def feedback_only_def split: if_splits)
next
  case None
  let ?ls = "ls\<lparr>ls_validation_retries := ls_validation_retries ls + 1,
    ls_messages := ls_messages ls @ [feedback_message e]\<rparr>"
  obtain ls1 e1 where e1: "emit env (TurnMessagesInjected (ls_iteration ls) [feedback_message e]) ?ls
      = (ls1, e1)" by fastforce
  have step: "step_in S ?ls ls1" by (rule turn_step_emit [OF e1]) simp
  have "moves (exec_only S) ls ?ls" by (simp add: moves_def same_run_def)
  then have "moves (exec_only S) ls ls1" using moves_step [OF step] by (rule moves_trans)
  moreover have "ls_messages ls1 = ls_messages ls @ [feedback_message e]"
    using step_messages [OF step] by simp
  moreover have "ls' = ls1" "results' = results" "to_candidate outcome' = to_candidate outcome"
    "to_continuation outcome'" "to_suspension outcome' = to_suspension outcome"
    "to_assistant outcome' = to_assistant outcome"
    using assms(1) None e1 by (auto simp: reject_candidate_def Let_def split: if_splits)
  ultimately show ?thesis
    using assms(2,3) None slots_ok_no_output by (auto simp: feedback_only_def)
qed

lemma accept_candidate_spec:
  assumes "accept_candidate env calls oi output results outcome ls = (ls', outcome', results')"
    "slots_ok calls oi results"
  shows "list_all2 result_for calls results' \<and> feedback_only calls ls ls' \<and>
    moves (exec_only S) ls ls' \<and> (\<exists>meta. to_candidate outcome' = Some (output, meta) \<and> candidate_Valid meta) \<and>
    to_continuation outcome' = to_continuation outcome \<and>
    to_suspension outcome' = to_suspension outcome \<and> to_assistant outcome' = to_assistant outcome"
proof -
  define meta where "meta = (case oi of
                    None \<Rightarrow> \<lparr>cc_source = CompletionText, cc_tool_call_id = ''''\<rparr>
                  | Some i \<Rightarrow> \<lparr>cc_source = CompletionOutputTool, cc_tool_call_id = tu_id (calls ! i)\<rparr>)"
  obtain ls1 e1 where e1: "emit env (OutputValidated (ls_iteration ls) meta) ls = (ls1, e1)"
    by fastforce
  have step: "step_in S ls ls1" by (rule turn_step_emit [OF e1]) simp
  have "ls' = ls1" "results' = fill_output calls oi accepted_result results"
    "to_candidate outcome' = Some (output, meta)" "to_continuation outcome' = to_continuation outcome"
    "to_suspension outcome' = to_suspension outcome" "to_assistant outcome' = to_assistant outcome"
    using assms(1) e1
    by (auto simp: accept_candidate_def Let_def simp flip: meta_def split: if_splits)
  moreover have "candidate_Valid meta"
    by (simp add: meta_def candidate_Valid_def split: option.splits)
  ultimately show ?thesis
    using slots_ok_fill [OF assms(2), of accepted_result] moves_step [OF step] step_messages [OF step]
    by (auto simp: feedback_only_def)
qed

lemma judge_candidate_spec:
  assumes "judge_candidate env c calls oi regular results outcome ls = (ls', outcome', results')"
    "slots_ok calls oi results"
  shows "list_all2 result_for calls results' \<and> feedback_only calls ls ls' \<and>
    moves (exec_only S) ls ls' \<and>
    to_suspension outcome' = to_suspension outcome \<and> to_assistant outcome' = to_assistant outcome"
proof -
  have eval: "moves (exec_only S) ls (log_effect (EvalCall m) ls)"
      "ls_messages (log_effect (EvalCall m) ls) = ls_messages ls" for m
    using moves_step [OF regular_step_log] by (simp_all add: log_effect_def)
  consider e where "rg_fatal regular = Some e"
    | "rg_fatal regular = None" "calls = [] \<or> oi \<noteq> None" "\<not> rg_continuation regular"
    | "rg_fatal regular = None" "\<not> ((calls = [] \<or> oi \<noteq> None) \<and> \<not> rg_continuation regular)"
    by fastforce
  then show ?thesis
  proof cases
    case 1
    then show ?thesis
      using assms slots_ok_fill [OF assms(2)] by (auto simp: judge_candidate_def feedback_only_def)
  next
    case 2
    let ?ls = "log_effect (EvalCall (to_assistant outcome)) ls"
    show ?thesis
    proof (cases "ev_evaluate env (ls_log ls) (to_assistant outcome)")
      case (Inl e)
      then have "reject_candidate env c calls oi e results outcome ?ls = (ls', outcome', results')"
        using assms(1) 2 by (auto simp: judge_candidate_def)
      from reject_candidate_spec [OF this assms(2) 2(2), of S] eval show ?thesis
        by (auto simp: feedback_only_def intro: moves_trans)
    next
      case (Inr out)
      then have "accept_candidate env calls oi out results outcome ?ls = (ls', outcome', results')"
        using assms(1) 2 by (auto simp: judge_candidate_def)
      from accept_candidate_spec [OF this assms(2), of S] eval show ?thesis
        by (auto simp: feedback_only_def intro: moves_trans)
    qed
  next
    case 3
    then show ?thesis
      using assms slots_ok_fill [OF assms(2)] slots_ok_no_output
      by (cases "oi = None") (auto simp: judge_candidate_def feedback_only_def)
  qed
qed

lemma emit_commits_step: "emit_commits env rs ls = (ls', err) \<Longrightarrow> step_in S ls ls'"
proof (induction rs arbitrary: ls)
  case (Cons r rs)
  obtain ls1 e1 where e1: "emit env (ToolResultCommitted (ls_iteration ls) r) ls = (ls1, e1)" by fastforce
  have "step_in S ls ls1" by (rule turn_step_emit [OF e1]) simp
  then show ?case using Cons e1 by (auto split: option.splits intro: regular_step_trans)
qed simp

lemma commitToolResults_spec:
  assumes "commitToolResults env results ls = (ls', err)"
  shows "moves (exec_only S) ls ls' \<and>
    ls_messages ls' = ls_messages ls @ map (result_message env) results"
proof -
  let ?ls = "ls\<lparr>ls_all_tool_results := ls_all_tool_results ls @ results,
           ls_messages := ls_messages ls @ map (result_message env) results\<rparr>"
  have step: "step_in S ?ls ls'"
    using assms emit_commits_step by (simp add: commitToolResults_def)
  have "moves (exec_only S) ls ?ls" by (simp add: moves_def same_run_def)
  from moves_trans [OF this moves_step [OF step]] step_messages [OF step] show ?thesis by simp
qed

lemma finish_assistant_spec:
  assumes "finish_assistant env c calls (checkOutputTool c calls) regular outcome ls = (ls', outcome')"
    "wf_calls calls" "results_in calls (rg_results regular)"
  shows "list_all2 result_for calls (to_results outcome') \<and> moves (exec_only S) ls ls' \<and>
    to_suspension outcome' = to_suspension outcome \<and> to_assistant outcome' = to_assistant outcome \<and>
    (\<exists>fb. ls_messages ls' = ls_messages ls @ fb @ map (result_message env) (to_results outcome') \<and>
       (fb = [] \<or> calls = [] \<and> (\<exists>e. fb = [feedback_message e])))"
proof -
  let ?oi = "checkOutputTool c calls"
  let ?results = "map2 (slot_result c (ls_end_strategy ls) ?oi regular) [0..<length calls] calls"
  obtain ls1 o1 results1 where judge:
    "judge_candidate env c calls ?oi regular ?results outcome ls = (ls1, o1, results1)"
    using prod_cases3 by blast
  note J = judge_candidate_spec [OF judge slots_ok_start [OF assms(2,3)], of S]
  obtain ls2 err where commit: "commitToolResults env results1 ls1 = (ls2, err)" by fastforce
  note C = commitToolResults_spec [OF commit, of S]
  have res: "to_results outcome' = results1" "to_suspension outcome' = to_suspension o1"
    "to_assistant outcome' = to_assistant o1" "ls' = (if results1 = [] then ls1 else ls2)"
    using assms(1) judge commit
    by (auto simp: finish_assistant_def Let_def split: if_splits option.splits)
  have "\<exists>fb. ls_messages ls1 = ls_messages ls @ fb \<and>
      (fb = [] \<or> calls = [] \<and> (\<exists>e. fb = [feedback_message e]))"
    using J by (auto simp: feedback_only_def)
  moreover have "moves (exec_only S) ls ls'" using J C res by (auto intro: moves_trans)
  moreover have "ls_messages ls' = ls_messages ls1 @ map (result_message env) results1"
    using C res by auto
  ultimately show ?thesis using J res by auto
qed

lemma answers_result_message: "result_for call r \<Longrightarrow> answers_with call (result_message env r)"
  by (simp add: answers_with_def result_message_def result_for_def)

lemma answers_result_messages:
  "list_all2 result_for calls rs \<Longrightarrow> list_all2 answers_with calls (map (result_message env) rs)"
  by (simp add: list_all2_map2 list_all2_mono answers_result_message)

text \<open>An assistant message the driver can pair.\<close>

definition wf_assistant :: "message \<Rightarrow> bool" where
  "wf_assistant m \<longleftrightarrow> m_role m = RoleAssistant \<and> wf_calls (GetToolUses m) \<and> GetToolResults m = []"

definition start_outcome :: "message \<Rightarrow> 'o turn_outcome" where
  "start_outcome m = \<lparr>to_assistant = m, to_results = [], to_candidate = None,
     to_continuation = False, to_suspension = None, to_fatal = None\<rparr>"

definition with_calls :: "bool \<Rightarrow> tool_use list \<Rightarrow> loop_state \<Rightarrow> loop_state" where
  "with_calls recorded calls ls =
     (if recorded then ls else ls\<lparr>ls_all_tool_calls := ls_all_tool_calls ls @ calls\<rparr>)"

lemma with_calls_step: "step_in S ls (with_calls recorded calls ls)"
  by (simp add: with_calls_def regular_step_def moves_def same_run_def)

lemma with_calls_log [simp]: "ls_log (with_calls recorded calls ls) = ls_log ls"
  by (simp add: with_calls_def)

lemma completeAssistantTurn_cases:
  assumes "completeAssistantTurn env c m recorded resumed ls = Some (ls', out)"
  obtains ls1 regular where
    "regular_phase env c (GetToolUses m) resumed (with_calls recorded (GetToolUses m) ls) = Some (ls1, regular)"
    "rg_suspension regular \<noteq> None \<Longrightarrow>
       ls' = ls1 \<and> out = (start_outcome m)\<lparr>to_suspension := rg_suspension regular\<rparr>"
    "rg_suspension regular = None \<Longrightarrow>
       finish_assistant env c (GetToolUses m) (checkOutputTool c (GetToolUses m)) regular
         (start_outcome m) ls1 = (ls', out)"
  using assms
  by (auto simp: completeAssistantTurn_def Let_def with_calls_def start_outcome_def
      split: option.splits prod.splits if_splits)

lemma regular_phase_spec:
  assumes "regular_phase env c calls resumed ls = Some (ls', regular)"
    "\<And>r. resumed = Some r \<Longrightarrow> results_in calls (rg_results r)"
  shows "step_in (set (regular_calls c calls)) ls ls' \<and> results_in calls (rg_results regular)"
  using assms turn_step_regular [OF _ subset_refl] executeRegularTurn_in
  by (auto simp: regular_phase_def new_regular_def split: option.splits if_splits)

lemma regular_phase_gated:
  assumes "regular_phase env c calls resumed ls = Some (ls', regular)"
    "since (gate_ok env n) n (ls_log ls)" "n \<le> length (ls_log ls)"
  shows "since (gate_ok env n) n (ls_log ls')"
  using assms executeRegularTurn_gated
  by (auto simp: regular_phase_def split: option.splits if_splits)

lemma completeAssistantTurn_gated:
  assumes "completeAssistantTurn env c m recorded resumed ls = Some (ls', out)"
    "wf_calls (GetToolUses m)" "\<And>r. resumed = Some r \<Longrightarrow> results_in (GetToolUses m) (rg_results r)"
    "since (gate_ok env n) n (ls_log ls)" "n \<le> length (ls_log ls)"
  shows "since (gate_ok env n) n (ls_log ls')"
proof -
  obtain ls1 regular where r:
    "regular_phase env c (GetToolUses m) resumed (with_calls recorded (GetToolUses m) ls) = Some (ls1, regular)"
    "rg_suspension regular \<noteq> None \<Longrightarrow>
       ls' = ls1 \<and> out = (start_outcome m)\<lparr>to_suspension := rg_suspension regular\<rparr>"
    "rg_suspension regular = None \<Longrightarrow>
       finish_assistant env c (GetToolUses m) (checkOutputTool c (GetToolUses m)) regular
         (start_outcome m) ls1 = (ls', out)"
    using completeAssistantTurn_cases [OF assms(1)] by blast
  have g: "since (gate_ok env n) n (ls_log ls1)" using regular_phase_gated [OF r(1)] assms(4,5) by simp
  show ?thesis
  proof (cases "rg_suspension regular")
    case None
    have "results_in (GetToolUses m) (rg_results regular)"
      using regular_phase_spec [OF r(1)] assms(3) by blast
    from finish_assistant_spec [OF r(3) [OF None] assms(2) this, of "{}"]
    have "moves (exec_only {}) ls1 ls'" by blast
    then show ?thesis
      by (rule since_moves [OF g]) (auto simp: gate_ok_def exec_only_def)
  qed (use r g in auto)
qed

text \<open>What a turn does to the transcript and the log, whatever it decides.\<close>

lemma completeAssistantTurn_spec:
  assumes "completeAssistantTurn env c m recorded resumed ls = Some (ls', out)"
    "wf_calls (GetToolUses m)" "\<And>r. resumed = Some r \<Longrightarrow> results_in (GetToolUses m) (rg_results r)"
  shows "moves turn_effect ls ls' \<and> to_assistant out = m \<and>
    (to_suspension out \<noteq> None \<longrightarrow> ls_messages ls' = ls_messages ls) \<and>
    (to_suspension out = None \<longrightarrow>
       list_all2 result_for (GetToolUses m) (to_results out) \<and>
       (\<exists>fb. ls_messages ls' = ls_messages ls @ fb @ map (result_message env) (to_results out) \<and>
          (fb = [] \<or> GetToolUses m = [] \<and> (\<exists>e. fb = [feedback_message e]))))"
proof -
  let ?calls = "GetToolUses m"
  obtain ls1 regular where r:
    "regular_phase env c ?calls resumed (with_calls recorded ?calls ls) = Some (ls1, regular)"
    "rg_suspension regular \<noteq> None \<Longrightarrow>
       ls' = ls1 \<and> out = (start_outcome m)\<lparr>to_suspension := rg_suspension regular\<rparr>"
    "rg_suspension regular = None \<Longrightarrow>
       finish_assistant env c ?calls (checkOutputTool c ?calls) regular (start_outcome m) ls1 = (ls', out)"
    using completeAssistantTurn_cases [OF assms(1)] by blast
  note phase = regular_phase_spec [OF r(1) assms(3)]
  have step: "step_in (set (regular_calls c ?calls)) ls ls1"
    using with_calls_step phase by (blast intro: regular_step_trans)
  have weaken: "moves (exec_only S) a b \<Longrightarrow> moves turn_effect a b" for S a b
    by (erule moves_mono) (simp add: exec_only_def)
  show ?thesis
  proof (cases "rg_suspension regular")
    case None
    from finish_assistant_spec [OF r(3) [OF None] assms(2), of "{}"] phase
    have F: "list_all2 result_for ?calls (to_results out)" "moves (exec_only {}) ls1 ls'"
      "to_suspension out = None" "to_assistant out = m"
      "\<exists>fb. ls_messages ls' = ls_messages ls1 @ fb @ map (result_message env) (to_results out) \<and>
        (fb = [] \<or> ?calls = [] \<and> (\<exists>e. fb = [feedback_message e]))"
      by (simp_all add: start_outcome_def)
    have "moves turn_effect ls ls'"
      using weaken [OF moves_step [OF step]] weaken [OF F(2)] by (rule moves_trans)
    then show ?thesis using F step_messages [OF step] by (simp add: start_outcome_def)
  next
    case (Some s)
    then show ?thesis
      using r(2) step_messages [OF step] weaken [OF moves_step [OF step]]
      by (simp add: start_outcome_def)
  qed
qed

lemma plain_feedback [simp]: "plain_message (feedback_message e)"
  by (simp add: plain_message_def feedback_message_def)

lemma no_calls_no_suspension:
  assumes "completeAssistantTurn env c m recorded None ls = Some (ls', out)" "GetToolUses m = []"
  shows "to_suspension out = None"
proof -
  obtain ls1 regular where r:
    "regular_phase env c [] None (with_calls recorded [] ls) = Some (ls1, regular)"
    "rg_suspension regular = None \<Longrightarrow>
       finish_assistant env c [] (checkOutputTool c []) regular (start_outcome m) ls1 = (ls', out)"
    using completeAssistantTurn_cases [OF assms(1), unfolded assms(2)] by metis
  have reg: "regular = new_regular"
    using r(1) by (simp add: regular_phase_def executeRegularTurn_def regular_calls_def)
  show ?thesis
    using finish_assistant_spec [OF r(2)] reg
    by (auto simp: new_regular_def wf_calls_def call_ids_def start_outcome_def)
qed

lemma turn_transcript:
  assumes "completeAssistantTurn env c m recorded None ls = Some (ls', out)"
    "wf_assistant m" "ls_messages ls = ms @ [m]" "closed_transcript ms"
  shows "if to_suspension out = None
     then closed_transcript (ls_messages ls') \<and> list_all2 result_for (GetToolUses m) (to_results out)
     else GetToolUses m \<noteq> [] \<and> open_transcript (ls_messages ls') (GetToolUses m)"
proof -
  have m: "wf_calls (GetToolUses m)" "m_role m = RoleAssistant" "GetToolResults m = []"
    using assms(2) by (simp_all add: wf_assistant_def)
  note T = completeAssistantTurn_spec [OF assms(1) m(1)]
  have plain: "plain_message m" if "GetToolUses m = []" using that m by (simp add: plain_message_def)
  have opens: "opens_frontier m (GetToolUses m)" if "GetToolUses m \<noteq> []"
    using that m by (simp add: opens_frontier_def)
  show ?thesis
  proof (cases "to_suspension out")
    case None
    then obtain fb where fb: "ls_messages ls' = ls_messages ls @ fb @ map (result_message env) (to_results out)"
        "fb = [] \<or> GetToolUses m = [] \<and> (\<exists>e. fb = [feedback_message e])"
        "list_all2 result_for (GetToolUses m) (to_results out)"
      using T by auto
    have "closed_transcript (ls_messages ls')"
    proof (cases "GetToolUses m = []")
      case True
      then have "closed_transcript (ms @ [m])" using closed_plain assms(4) plain by blast
      moreover have "to_results out = []" using True fb(3) by simp
      ultimately show ?thesis
        using fb(1,2) assms(3) closed_plain [of "ms @ [m]", OF _ plain_feedback] by auto
    next
      case False
      then have "ls_messages ls' = ms @ m # map (result_message env) (to_results out)"
        using fb assms(3) by auto
      then show ?thesis
        using closed_turn [OF assms(4) opens [OF False] answers_result_messages [OF fb(3)]] by simp
    qed
    then show ?thesis using None fb(3) by simp
  next
    case (Some s)
    then have "GetToolUses m \<noteq> []" using no_calls_no_suspension [OF assms(1)] by auto
    then show ?thesis
      using Some T assms(3) open_turn [OF assms(4) opens] by simp
  qed
qed


end
