(* ===== verification/Turn_Limits.thy ===== *)
theory Turn_Limits
  imports Turn_Props
begin

text \<open>
  Limits and liveness of one turn: the gate comes first, the tool-call limit of the run is never
  passed, a tool is retried at most as often as its limit allows, and the turn ends whenever the
  handlers answer or the context is cancelled.
\<close>

subsection \<open>A concrete tool environment\<close>

definition example_tool_state :: "message list \<Rightarrow> loop_state" where
  "example_tool_state msgs = (example_state msgs)
     \<lparr>ls_registry := (empty_exec_registry None)\<lparr>xr_has_executor := True\<rparr>\<rparr>"

definition example_gated_env :: "string env" where
  "example_gated_env = example_env
     \<lparr>ev_gate := Some (\<lambda>_ calls. Inr (allowAllToolGate calls)),
      ev_arrivals := (\<lambda>effs. map (\<lambda>i. Arrive i (Inr CNil)) [0..<length effs]),
      ev_processor := None\<rparr>"

definition example_assistant :: message where
  "example_assistant = NewToolUseMessage [example_call ''a'' ''f'']"

lemmas example_defs = example_tool_state_def example_state_def example_gated_env_def example_env_def
  example_core_def example_options_def example_call_def

lemmas turn_defs = completeAssistantTurn_def regular_phase_def executeRegularTurn_def regular_calls_def
  evaluate_gate_def emit_def run_admitted_def checkToolCallLimits_def validateSuspendableBatch_def
  executeAdmittedTools_def after_batch_def finish_assistant_def judge_candidate_def
  allowAllToolGate_def validateToolBatchDecision_def check_disposition_def new_regular_def
  settle_result_def projectToolResult_def applyRetryState_def commitToolResults_def
  slot_result_def log_effect_def

subsection \<open>The gate comes first\<close>

lemma since_nth: "since A n (xs @ e # ys) \<Longrightarrow> n \<le> length xs \<Longrightarrow> A xs e"
  unfolding since_def by (drule spec [of _ "length xs"]) simp

text \<open>
  No handler starts before the gate admitted its call: in what a turn appends to the run's
  history of effects, every start of a handler is preceded, within the same turn, by a gate
  evaluation of a batch with that call, whose answer was a coherent decision that suspends nothing
  and gives this call the disposition to execute.
\<close>

theorem executeRegularTurn_gate_first:
  assumes "executeRegularTurn env c calls ls = Some (ls', st)" "ev_gate env = Some gate"
    "ls_log ls' = ls_log ls @ before @ ExecTool call rc # after"
  shows "\<exists>p q batch d i. before = p @ GateEval batch # q \<and> gate (ls_log ls @ p) batch = Inr d \<and>
    decision_ok batch d \<and> \<not> some_suspended d \<and> i < length batch \<and> batch ! i = call \<and>
    di_kind (bd_calls d ! i) = ToolDispositionExecute"
proof -
  let ?n = "length (ls_log ls)"
  have "since (gate_ok env ?n) ?n (ls_log ls')"
    using executeRegularTurn_gated [OF assms(1) since_refl] by simp
  then have "since (gate_ok env ?n) ?n ((ls_log ls @ before) @ ExecTool call rc # after)"
    using assms(3) by simp
  from since_nth [OF this] have "admitted_by env ?n (ls_log ls @ before) call"
    by (simp add: gate_ok_def)
  then obtain p q batch d i where g: "ls_log ls @ before = p @ GateEval batch # q" "?n \<le> length p"
    "gate p batch = Inr d" "decision_ok batch d" "\<not> some_suspended d" "i < length batch" "batch ! i = call"
    "di_kind (bd_calls d ! i) = ToolDispositionExecute"
    using assms(2) unfolding admitted_by_def by auto
  then obtain p' where "p = ls_log ls @ p'" "before = p' @ GateEval batch # q"
    by (auto simp: append_eq_append_conv2)
  with g show ?thesis by blast
qed

lemma executeRegularTurn_gate_first_witness:
  "\<exists>ls' st. executeRegularTurn example_gated_env example_core [example_call ''a'' ''f'']
       (example_tool_state []) = Some (ls', st) \<and>
     (\<exists>p q batch. [GateEval [example_call ''a'' ''f'']] = p @ GateEval batch # q \<and>
        example_call ''a'' ''f'' \<in> set batch)"
proof -
  let ?call = "example_call ''a'' ''f''"
  obtain ls' st where run: "executeRegularTurn example_gated_env example_core [?call]
       (example_tool_state []) = Some (ls', st)"
    and log: "ls_log ls' = [GateEval [?call], ExecTool ?call None]"
    by (simp add: turn_defs example_defs empty_exec_registry_def start_collect_def remaining_def
        receive_def acceptCompletion_def run_handler_def xr_Execute_def handlerDeferral_def
        makeToolResultError_def result_for_def xr_Get_def xr_Count_def Let_def
        validateToolResultIdentity_def)
  have gate: "ev_gate example_gated_env = Some (\<lambda>_ calls. Inr (allowAllToolGate calls))"
    by (simp add: example_gated_env_def)
  have "ls_log ls' = ls_log (example_tool_state []) @ [GateEval [?call]] @ ExecTool ?call None # []"
    using log by (simp add: example_tool_state_def example_state_def)
  from executeRegularTurn_gate_first [OF run gate this] run nth_mem
  show ?thesis by metis
qed

subsection \<open>Counters\<close>

definition keeps_counters :: "loop_state \<Rightarrow> loop_state \<Rightarrow> bool" where
  "keeps_counters ls ls' \<longleftrightarrow>
     ls_total_usage ls' = ls_total_usage ls \<and> ls_retry_counts ls' = ls_retry_counts ls \<and>
     ls_usage_limits ls' = ls_usage_limits ls \<and> ls_registry ls' = ls_registry ls"

lemma keeps_counters_refl [simp]: "keeps_counters ls ls"
  by (simp add: keeps_counters_def)

lemma keeps_counters_trans: "keeps_counters a b \<Longrightarrow> keeps_counters b c \<Longrightarrow> keeps_counters a c"
  by (simp add: keeps_counters_def)

lemma keeps_log [simp]: "keeps_counters ls (log_effect e ls)"
  by (simp add: keeps_counters_def log_effect_def)

lemma keeps_emit: "emit env ev ls = (ls', e) \<Longrightarrow> keeps_counters ls ls'"
  by (auto simp: emit_def split: option.splits)

lemma keeps_emit_starts: "emit_starts env calls ls = (ls', e) \<Longrightarrow> keeps_counters ls ls'"
proof (induction calls arbitrary: ls)
  case (Cons call calls)
  obtain ls1 e1 where e1: "emit env (ToolStarted (ls_iteration ls) call
      (retry_count (ls_retry_counts ls) (tu_name call) + 1)) ls = (ls1, e1)" by fastforce
  then show ?case
    using Cons keeps_emit [OF e1] by (auto split: option.splits intro: keeps_counters_trans)
qed simp

lemma keeps_execute:
  "executeAdmittedTools env calls resumes ls = Some (ls', batch) \<Longrightarrow> keeps_counters ls ls'"
  by (auto simp: executeAdmittedTools_def Let_def keeps_counters_def
      split: if_splits option.splits prod.splits dest!: keeps_emit_starts)

lemma keeps_suspend: "newToolSuspension env calls ex d h ls = (ls', s) \<Longrightarrow> keeps_counters ls ls'"
  using newToolSuspension_state [of env calls ex d h ls] by auto

lemma keeps_gate: "evaluate_gate env regular ls = (ls', d) \<Longrightarrow> keeps_counters ls ls'"
  by (auto simp: evaluate_gate_def split: option.splits)

lemma keeps_project: "projectToolResult env call r ls = (ls', p, e) \<Longrightarrow> keeps_counters ls ls'"
  by (auto simp: projectToolResult_def Let_def split: option.splits sum.splits if_splits)

text \<open>The retry limit of a tool.\<close>

definition retry_limit :: "agent_core \<Rightarrow> loop_state \<Rightarrow> string \<Rightarrow> int" where
  "retry_limit c ls name =
     (case xr_Get (ls_registry ls) name of
        Some h \<Rightarrow> resolveMaxRetries h (ac_max_retries c) | None \<Rightarrow> ac_max_retries c)"

text \<open>What settling \<open>k\<close> results does to the counters.\<close>

definition settles :: "agent_core \<Rightarrow> nat \<Rightarrow> loop_state \<Rightarrow> loop_state \<Rightarrow> bool" where
  "settles c k ls ls' \<longleftrightarrow>
     us_tool_calls (ls_total_usage ls') = us_tool_calls (ls_total_usage ls) + int k \<and>
     ls_usage_limits ls' = ls_usage_limits ls \<and> ls_registry ls' = ls_registry ls \<and>
     (\<forall>n. retry_count (ls_retry_counts ls) n \<le> retry_count (ls_retry_counts ls') n \<and>
        retry_count (ls_retry_counts ls') n \<le>
          max (retry_count (ls_retry_counts ls) n) (retry_limit c ls n))"

lemma settles_keeps: "keeps_counters ls ls' \<Longrightarrow> settles c 0 ls ls'"
  by (simp add: keeps_counters_def settles_def)

lemma settles_trans: "settles c j a b \<Longrightarrow> settles c k b d \<Longrightarrow> settles c (j + k) a d"
  unfolding settles_def retry_limit_def by (smt (verit) of_nat_add)

lemma retry_count_upd [simp]:
  "retry_count (m(n \<mapsto> v)) k = (if k = n then v else retry_count m k)"
  by (simp add: retry_count_def)

lemma settles_retry: "applyRetryState c call r (ls, st) = (ls', st') \<Longrightarrow> settles c 0 ls ls'"
  by (auto simp: applyRetryState_def Let_def settles_def retry_limit_def
      split: option.splits if_splits)

lemma settles_result:
  assumes "settle_result env c call r (ls, st) = (ls', st')"
  shows "settles c 1 ls ls'"
proof -
  obtain ls1 p e where p: "projectToolResult env call r ls = (ls1, p, e)" using prod_cases3 by blast
  obtain st1 ls2 st2 where r: "applyRetryState c call p (ls1, st1) = (ls2, st2)"
    and ls': "ls' = ls2\<lparr>ls_total_usage := (ls_total_usage ls2)
            \<lparr>us_tool_calls := us_tool_calls (ls_total_usage ls2) + 1\<rparr>\<rparr>"
    using assms p by (auto simp: settle_result_def split: prod.splits)
  have "settles c (0 + 0) ls ls2"
    using settles_trans [OF settles_keeps [OF keeps_project [OF p]] settles_retry [OF r]] .
  moreover have "settles c 1 ls2 ls'" unfolding ls' by (simp add: settles_def)
  ultimately show ?thesis using settles_trans by fastforce
qed

lemma settles_results:
  "settle_results env c rs (ls, st) = (ls', st') \<Longrightarrow> settles c (length rs) ls ls'"
proof (induction rs arbitrary: ls st)
  case (Cons x rs)
  obtain call r where x: "x = (call, r)" by fastforce
  obtain ls1 st1 where 1: "settle_result env c call r (ls, st) = (ls1, st1)" by fastforce
  then have "settle_results env c rs (ls1, st1) = (ls', st')" using Cons.prems x by simp
  from settles_trans [OF settles_result [OF 1] Cons.IH [OF this]] show ?case by simp
qed (simp add: settles_keeps)

lemma settles_after:
  assumes "after_batch env c calls executable st ls batch = (ls', st')"
  shows "\<exists>k \<le> length executable. settles c k ls ls'"
proof -
  obtain results deferral err where batch: "batch = (results, deferral, err)" using prod_cases3 by blast
  show ?thesis
  proof (cases deferral)
    case None
    obtain ls1 st1 where 1: "settle_results env c (zip executable results) (ls, st) = (ls1, st1)"
      by fastforce
    then have "ls' = ls1" using assms batch None by (auto simp: after_batch_def)
    then show ?thesis using settles_results [OF 1] by (intro exI [of _ "length (zip executable results)"]) auto
  next
    case (Some d)
    obtain ls1 s where "newToolSuspension env calls executable d True ls = (ls1, s)" by fastforce
    then have "keeps_counters ls ls'"
      using assms batch Some keeps_suspend by (auto simp: after_batch_def split: sum.splits)
    then show ?thesis using settles_keeps by (intro exI [of _ 0]) auto
  qed
qed

definition within_tool_limit :: "loop_state \<Rightarrow> bool" where
  "within_tool_limit ls \<longleftrightarrow>
     (case ls_usage_limits ls of
        None \<Rightarrow> True | Some l \<Rightarrow> \<not> over_limit (max_tool_calls l) (us_tool_calls (ls_total_usage ls)))"

definition bounded_counters :: "agent_core \<Rightarrow> loop_state \<Rightarrow> loop_state \<Rightarrow> bool" where
  "bounded_counters c ls ls' \<longleftrightarrow>
     (within_tool_limit ls \<longrightarrow> within_tool_limit ls') \<and>
     us_tool_calls (ls_total_usage ls) \<le> us_tool_calls (ls_total_usage ls') \<and>
     ls_usage_limits ls' = ls_usage_limits ls \<and> ls_registry ls' = ls_registry ls \<and>
     (\<forall>n. retry_count (ls_retry_counts ls') n \<le>
          max (retry_count (ls_retry_counts ls) n) (retry_limit c ls n))"

lemma bounded_refl [simp]: "bounded_counters c ls ls"
  by (simp add: bounded_counters_def)

lemma bounded_trans: "bounded_counters c a b \<Longrightarrow> bounded_counters c b d \<Longrightarrow> bounded_counters c a d"
  unfolding bounded_counters_def retry_limit_def by (smt (verit))

lemma bounded_keeps: "keeps_counters ls ls' \<Longrightarrow> bounded_counters c ls ls'"
  by (simp add: keeps_counters_def bounded_counters_def within_tool_limit_def split: option.split)

lemma bounded_settles:
  assumes "settles c k ls ls'" "checkToolCallLimits ls m = None" "k \<le> m"
  shows "bounded_counters c ls ls'"
proof -
  have "within_tool_limit ls'"
    using assms
    by (auto simp: settles_def within_tool_limit_def checkToolCallLimits_def over_limit_def
        checkBeforeToolCalls_None split: option.splits)
  then show ?thesis using assms(1) by (auto simp: bounded_counters_def settles_def)
qed

lemma bounded_admitted:
  assumes "run_admitted env c calls regular executable st ls = Some (ls', st')"
  shows "bounded_counters c ls ls'"
proof (cases "\<exists>ls1 batch. executeAdmittedTools env executable Map.empty ls = Some (ls1, batch) \<and>
    after_batch env c calls executable st ls1 batch = (ls', st') \<and>
    checkToolCallLimits ls (length executable) = None")
  case True
  then obtain ls1 batch where x: "executeAdmittedTools env executable Map.empty ls = Some (ls1, batch)"
    "after_batch env c calls executable st ls1 batch = (ls', st')"
    "checkToolCallLimits ls (length executable) = None" by blast
  note k = keeps_execute [OF x(1)]
  then have "checkToolCallLimits ls1 (length executable) = None"
    using x(3) by (simp add: checkToolCallLimits_def keeps_counters_def split: option.splits)
  then have "bounded_counters c ls1 ls'" using settles_after [OF x(2)] bounded_settles by blast
  then show ?thesis using bounded_keeps [OF k] bounded_trans by blast
qed (use assms in \<open>auto simp: run_admitted_def Let_def split: if_splits option.splits prod.splits\<close>)

lemma bounded_regular:
  assumes "executeRegularTurn env c calls ls = Some (ls', st)"
  shows "bounded_counters c ls ls'"
proof -
  let ?regular = "regular_calls c calls"
  obtain ls1 e1 where e1: "emit env (ToolBatchPlanned (ls_iteration ls) ?regular) ls = (ls1, e1)"
    by fastforce
  obtain ls2 d where d: "evaluate_gate env ?regular ls1 = (ls2, d)" by fastforce
  have k: "keeps_counters ls ls1" "keeps_counters ls ls2"
    using keeps_emit [OF e1] keeps_gate [OF d] keeps_counters_trans by blast+
  have "keeps_counters ls ls' \<or> bounded_counters c ls2 ls'"
    using assms e1 d k
    by (auto simp: executeRegularTurn_def Let_def
        split: if_splits option.splits sum.splits bool.splits prod.splits
        dest!: bounded_admitted keeps_suspend intro: keeps_counters_trans)
  then show ?thesis using bounded_keeps [OF k(2)] bounded_keeps bounded_trans by blast
qed

text \<open>
  C36. The limits of a run hold through a turn: if the counted tool calls were within
  \<^verbatim>\<open>MaxToolCalls\<close> before it, they are after it, and no tool's retry count exceeds its limit (the
  handler's own, or the agent's) unless it did before.
\<close>

theorem executeRegularTurn_limits:
  assumes "executeRegularTurn env c calls ls = Some (ls', st)" "ls_usage_limits ls = Some l"
    "max_tool_calls l = Some m" "us_tool_calls (ls_total_usage ls) \<le> m"
    "retry_count (ls_retry_counts ls) name \<le> retry_limit c ls name"
  shows "us_tool_calls (ls_total_usage ls') \<le> m \<and>
    retry_count (ls_retry_counts ls') name \<le> retry_limit c ls name"
  using bounded_regular [OF assms(1)] assms(2-)
  by (auto simp: bounded_counters_def within_tool_limit_def over_limit_def max_def split: if_splits)

definition example_limited_state :: loop_state where
  "example_limited_state = (example_tool_state [])
     \<lparr>ls_usage_limits := Some (DefaultUsageLimits\<lparr>max_tool_calls := Some 5\<rparr>)\<rparr>"

subsection \<open>A turn ends\<close>

text \<open>
  The environment answers for every handler of the batch that was started last, or cancels and then fires the
  grace timer.  The handlers of that batch are the starts at the end of the log; what arrives is asked for right
  after they were started.
\<close>

definition is_start :: "effect \<Rightarrow> bool" where
  "is_start e = (case e of ExecTool _ _ \<Rightarrow> True | _ \<Rightarrow> False)"

definition started_last :: "effect list \<Rightarrow> nat" where
  "started_last effs = length (takeWhile is_start (rev effs))"

definition responsive :: "'o env \<Rightarrow> bool" where
  "responsive env \<longleftrightarrow> (\<forall>effs. enough (started_last effs) (ev_arrivals env effs))"

lemma enough_less: "enough n as \<Longrightarrow> m \<le> n \<Longrightarrow> enough m as"
  by (auto simp: enough_def)

lemma started_last_batch: "length calls \<le> started_last (effs @ map (\<lambda>c. ExecTool c (g c)) calls)"
proof -
  have "takeWhile is_start (rev (map (\<lambda>c. ExecTool c (g c)) calls) @ rev effs) =
      rev (map (\<lambda>c. ExecTool c (g c)) calls) @ takeWhile is_start (rev effs)"
    by (rule takeWhile_append2) (auto simp: is_start_def)
  then show ?thesis by (simp add: started_last_def)
qed

lemma executeAdmittedTools_returns:
  assumes "responsive env"
  shows "\<exists>r. executeAdmittedTools env calls resumes ls = Some r"
proof -
  obtain l e where starts: "emit_starts env calls ls = (l, e)" by fastforce
  let ?as = "ev_arrivals env (ls_log l @ map (\<lambda>c. ExecTool c (resumes (tu_id c))) calls)"
  have "enough (length calls) ?as"
    using assms enough_less started_last_batch [of calls "ls_log l" "\<lambda>c. resumes (tu_id c)"]
    unfolding responsive_def by blast
  from collect_returns [OF start_collect_length this]
  obtain s where "collect env (ls_registry l) calls (start_collect calls) ?as = Some s" by blast
  then show ?thesis
    using starts by (simp add: executeAdmittedTools_def Let_def split: option.split)
qed

lemma run_admitted_returns:
  assumes "responsive env"
  shows "\<exists>r. run_admitted env c calls regular executable st ls = Some r"
proof -
  obtain ls1 batch where "executeAdmittedTools env executable Map.empty ls = Some (ls1, batch)"
    using executeAdmittedTools_returns [OF assms] by (metis prod.exhaust)
  then show ?thesis
    by (simp add: run_admitted_def Let_def split: option.split)
qed

lemma executeRegularTurn_returns:
  assumes "responsive env"
  shows "\<exists>r. executeRegularTurn env c calls ls = Some r"
proof (cases "executeRegularTurn env c calls ls")
  case None
  let ?regular = "regular_calls c calls"
  obtain ls1 e1 where e1: "emit env (ToolBatchPlanned (ls_iteration ls) ?regular) ls = (ls1, e1)"
    by fastforce
  obtain ls2 d where d: "evaluate_gate env ?regular ls1 = (ls2, d)" by fastforce
  have "run_admitted env c calls ?regular ex st ls2 \<noteq> None" for ex st
    using run_admitted_returns [OF assms] by (metis option.discI)
  then show ?thesis
    using None e1 d
    by (auto simp: executeRegularTurn_def Let_def
        split: option.splits prod.splits sum.splits bool.splits if_splits simp del: not_None_eq)
qed simp

lemma completeAssistantTurn_returns:
  assumes "responsive env"
  shows "\<exists>ls' out. completeAssistantTurn env c m recorded resumed ls = Some (ls', out)"
proof -
  have "\<exists>r. regular_phase env c (GetToolUses m) resumed l = Some r" for l
    using executeRegularTurn_returns [OF assms] by (auto simp: regular_phase_def split: option.split)
  then obtain l reg where "regular_phase env c (GetToolUses m) resumed
      (with_calls recorded (GetToolUses m) ls) = Some (l, reg)" by fastforce
  then show ?thesis
    by (cases "finish_assistant env c (GetToolUses m) (checkOutputTool c (GetToolUses m)) reg
          (start_outcome m) l")
      (auto simp: completeAssistantTurn_def Let_def with_calls_def start_outcome_def)
qed

text \<open>
  A turn always ends if every started handler replies, or the context is cancelled and the
  cancellation grace runs out: no combination of gate, processor, evaluator and event sink answers
  makes it block.
\<close>

theorem completeAssistantTurn_ends:
  assumes "responsive env"
  shows "\<exists>ls' out. completeAssistantTurn env c m recorded resumed ls = Some (ls', out)"
  by (rule completeAssistantTurn_returns [OF assms])

lemma started_last_le: "started_last effs \<le> length effs"
  by (simp add: started_last_def) (metis length_rev length_takeWhile_le)

lemma responsive_example: "responsive example_gated_env"
  unfolding responsive_def enough_def
  by (intro allI impI disjI1 exI [of _ "Inr CNil"])
    (auto simp: example_gated_env_def image_iff intro: order_less_le_trans [OF _ started_last_le])

lemma completeAssistantTurn_ends_witness:
  "\<exists>ls' out. completeAssistantTurn example_gated_env example_core example_assistant False None
     (example_tool_state [example_assistant]) = Some (ls', out)"
  by (rule completeAssistantTurn_ends [OF responsive_example])

lemma executeRegularTurn_limits_witness:
  "\<exists>ls' st. executeRegularTurn example_gated_env example_core [example_call ''a'' ''f'']
       example_limited_state = Some (ls', st) \<and>
     us_tool_calls (ls_total_usage ls') \<le> 5 \<and> retry_count (ls_retry_counts ls') ''f'' \<le> 1"
proof -
  obtain ls' st where run: "executeRegularTurn example_gated_env example_core [example_call ''a'' ''f'']
       example_limited_state = Some (ls', st)"
    using executeRegularTurn_returns [OF responsive_example] by (metis prod.exhaust)
  have limits: "ls_usage_limits example_limited_state = Some (DefaultUsageLimits\<lparr>max_tool_calls := Some 5\<rparr>)"
    "max_tool_calls (DefaultUsageLimits\<lparr>max_tool_calls := Some 5\<rparr>) = Some 5"
    "us_tool_calls (ls_total_usage example_limited_state) \<le> 5"
    "retry_limit example_core example_limited_state ''f'' = 1"
    "retry_count (ls_retry_counts example_limited_state) ''f'' \<le> 1"
    by (simp_all add: example_limited_state_def example_defs zero_usage_def retry_limit_def xr_Get_def
        empty_exec_registry_def retry_count_def)
  show ?thesis
    using executeRegularTurn_limits [OF run limits(1,2,3), of "''f''"] limits(4,5) run by simp
qed


end
