(* ===== verification/Execution_Loop.thy ===== *)
theory Execution_Loop
  imports Turn_Limits
begin

text \<open>
  execution_loop.go: the fold that drives a run.  An iteration requests one assistant message,
  commits it, completes the turn and arbitrates how to go on; the run ends in exactly one of five
  states.  The loop is a function: it terminates because every iteration advances the iteration
  counter towards the bound of the run.
\<close>

subsection \<open>Results of a run\<close>

text \<open>\<^verbatim>\<open>Result[O]\<close>; the output is absent where the code stores the zero value of \<^verbatim>\<open>O\<close>.\<close>

record 'o run_result =
  rr_output :: "'o option"
  rr_messages :: "message list"
  rr_tool_calls :: "tool_use list"
  rr_tool_results :: "tool_execution_result list"
  rr_finish_reason :: finish_reason
  rr_usage :: usage
  rr_retries :: int
  rr_history_len :: nat

record 'o execution =
  ex_status :: execution_status
  ex_result :: "'o run_result"
  ex_suspension :: "suspension option"

type_synonym 'o ending = "'o execution \<times> go_error option"

definition makeResult :: "loop_state \<Rightarrow> 'o option \<Rightarrow> 'o run_result" where
  "makeResult ls output =
     \<lparr>rr_output = output, rr_messages = ls_messages ls, rr_tool_calls = ls_all_tool_calls ls,
      rr_tool_results = ls_all_tool_results ls, rr_finish_reason = ls_last_finish_reason ls,
      rr_usage = ls_total_usage ls, rr_retries = ls_total_retries ls,
      rr_history_len = ls_history_len ls\<rparr>"

definition NewMessages :: "'o run_result \<Rightarrow> message list" where
  "NewMessages r =
     (if rr_history_len r \<ge> length (rr_messages r) then [] else drop (rr_history_len r) (rr_messages r))"

definition emit_ignored :: "'o env \<Rightarrow> event \<Rightarrow> loop_state \<Rightarrow> loop_state" where
  "emit_ignored env ev ls = fst (emit env ev ls)"

definition failedExecution ::
  "'o env \<Rightarrow> go_error \<Rightarrow> bool \<Rightarrow> loop_state \<Rightarrow> loop_state \<times> 'o ending" where
  "failedExecution env cause sinkFailure ls =
     (let ls = (if sinkFailure then ls
                else emit_ignored env (RunEnded (ls_iteration ls) ExecutionFailed)
                       (emit_ignored env (RunError (ls_iteration ls) cause) ls)) in
      (ls, \<lparr>ex_status = ExecutionFailed, ex_result = makeResult ls None, ex_suspension = None\<rparr>,
       Some cause))"

definition interruptedExecution ::
  "'o env \<Rightarrow> go_error \<Rightarrow> bool \<Rightarrow> loop_state \<Rightarrow> loop_state \<times> 'o ending" where
  "interruptedExecution env cause sinkFailure ls =
     (let ls = (if sinkFailure then ls
                else emit_ignored env (RunEnded (ls_iteration ls) ExecutionInterrupted)
                       (emit_ignored env (RunInterrupted (ls_iteration ls)) ls)) in
      (ls, \<lparr>ex_status = ExecutionInterrupted, ex_result = makeResult ls None, ex_suspension = None\<rparr>,
       Some cause))"

definition completedExecution ::
  "'o env \<Rightarrow> 'o \<Rightarrow> loop_state \<Rightarrow> loop_state \<times> 'o ending" where
  "completedExecution env output ls =
     (let execution = \<lparr>ex_status = ExecutionCompleted, ex_result = makeResult ls (Some output),
                       ex_suspension = None\<rparr> in
      case emit env (RunCompleted (ls_iteration ls) (ls_total_usage ls) (ls_last_finish_reason ls)) ls of
        (ls, Some e) \<Rightarrow> failedExecution env e True ls
      | (ls, None) \<Rightarrow>
          (case emit env (RunEnded (ls_iteration ls) ExecutionCompleted) ls of
             (ls, Some e) \<Rightarrow> failedExecution env e True ls
           | (ls, None) \<Rightarrow> (ls, execution, None)))"

definition suspendedExecution ::
  "'o env \<Rightarrow> suspension \<Rightarrow> loop_state \<Rightarrow> loop_state \<times> 'o ending" where
  "suspendedExecution env s ls =
     (let execution = \<lparr>ex_status = ExecutionSuspended, ex_result = makeResult ls None,
                       ex_suspension = Some s\<rparr> in
      case emit env (RunSuspended (ls_iteration ls) s) ls of
        (ls, Some e) \<Rightarrow> failedExecution env e True ls
      | (ls, None) \<Rightarrow> (ls, execution, None))"

definition stoppedExecution :: "'o env \<Rightarrow> loop_state \<Rightarrow> loop_state \<times> 'o ending" where
  "stoppedExecution env ls =
     (let execution = \<lparr>ex_status = ExecutionStopped, ex_result = makeResult ls None,
                       ex_suspension = None\<rparr> in
      case emit env (RunEnded (ls_iteration ls) ExecutionStopped) ls of
        (ls, Some e) \<Rightarrow> failedExecution env e True ls
      | (ls, None) \<Rightarrow> (ls, execution, None))"

text \<open>driver.go, \<^verbatim>\<open>executionError\<close>: how the convenience methods report an execution.\<close>

fun status_error :: "execution_status \<Rightarrow> go_error option" where
  "status_error ExecutionSuspended = Some (Sentinel ErrExecutionSuspended)"
| "status_error ExecutionStopped = Some (Sentinel ErrExecutionStopped)"
| "status_error ExecutionInterrupted = Some (Sentinel ErrExecutionInterrupted)"
| "status_error ExecutionFailed = Some (Sentinel ErrExecutionFailed)"
| "status_error ExecutionCompleted = None"

definition executionError :: "'o execution option \<Rightarrow> go_error option \<Rightarrow> go_error option" where
  "executionError execution err =
     (case err of Some e \<Rightarrow> Some e
      | None \<Rightarrow> (case execution of None \<Rightarrow> None | Some x \<Rightarrow> status_error (ex_status x)))"

subsection \<open>Arbitration after a turn\<close>

definition validateTurnDecision :: "turn_decision \<Rightarrow> go_error option" where
  "validateTurnDecision d =
     (case td_action d of
        TurnActionOther n \<Rightarrow> Some (wrap_kind ErrTurnDecision (''unknown action '' @ show_nat n))
      | action \<Rightarrow>
          if action \<noteq> TurnContinue \<and> td_inject d \<noteq> [] then
            Some (wrap_kind ErrTurnDecision ''injected messages require TurnContinue'')
          else if action = TurnContinue \<and> td_inject d = [] then
            Some (wrap_kind ErrTurnDecision ''TurnContinue requires at least one user message'')
          else if \<exists>m \<in> set (td_inject d). m_role m \<noteq> RoleUser then
            Some (wrap_kind ErrTurnDecision ''turn hook may inject only user messages'')
          else None)"

definition ask_hook ::
  "'o env \<Rightarrow> 'o turn_outcome \<Rightarrow> completion_candidate \<Rightarrow> loop_state \<Rightarrow> loop_state \<times> turn_decision result" where
  "ask_hook env outcome candidate ls =
     (case ev_hook env of
        None \<Rightarrow> (ls, Inr \<lparr>td_action = TurnDefault, td_inject = []\<rparr>)
      | Some hook \<Rightarrow>
          let t = \<lparr>tn_index = ls_iteration ls, tn_messages = ls_messages ls,
                   tn_assistant = to_assistant outcome, tn_results = to_results outcome,
                   tn_usage = ls_total_usage ls, tn_candidate = candidate\<rparr> in
          (log_effect (HookCall t) ls, hook (ls_log ls) t))"

text \<open>The result \<open>None\<close> means that the run continues.\<close>

definition returns :: "loop_state \<times> 'o ending \<Rightarrow> loop_state \<times> 'o ending option" where
  "returns r = (case r of (ls, ending) \<Rightarrow> (ls, Some ending))"

definition finishTurn ::
  "'o env \<Rightarrow> 'o turn_outcome \<Rightarrow> loop_state \<Rightarrow> loop_state \<times> 'o ending option" where
  "finishTurn env outcome ls =
     (let candidate = (case to_candidate outcome of None \<Rightarrow> no_candidate | Some (_, meta) \<Rightarrow> meta) in
      case emit env (TurnEnded (ls_iteration ls) candidate (ls_total_usage ls)) ls of
        (ls, Some e) \<Rightarrow> returns (failedExecution env e True ls)
      | (ls, None) \<Rightarrow>
          (case to_fatal outcome of
             Some e \<Rightarrow> returns (failedExecution env e False ls)
           | None \<Rightarrow>
               (case ask_hook env outcome candidate ls of
                  (ls, Inl e) \<Rightarrow> returns (failedExecution env e False ls)
                | (ls, Inr decision) \<Rightarrow>
                    (case validateTurnDecision decision of
                       Some e \<Rightarrow> returns (failedExecution env e False ls)
                     | None \<Rightarrow>
                         (case td_action decision of
                            TurnContinue \<Rightarrow>
                              let ls = ls\<lparr>ls_messages := ls_messages ls @ td_inject decision\<rparr> in
                              (case emit env (TurnMessagesInjected (ls_iteration ls) (td_inject decision)) ls of
                                 (ls, Some e) \<Rightarrow> returns (failedExecution env e True ls)
                               | (ls, None) \<Rightarrow> (ls, None))
                          | TurnStop \<Rightarrow>
                              (case to_candidate outcome of
                                 Some (output, _) \<Rightarrow> returns (completedExecution env output ls)
                               | None \<Rightarrow> returns (stoppedExecution env ls))
                          | TurnDefault \<Rightarrow>
                              (case to_candidate outcome of
                                 Some (output, _) \<Rightarrow>
                                   if to_continuation outcome then (ls, None)
                                   else returns (completedExecution env output ls)
                               | None \<Rightarrow> (ls, None))
                          | TurnActionOther n \<Rightarrow>
                              returns (failedExecution env
                                (wrap_kind ErrTurnDecision (''unknown action '' @ show_nat n)) False ls))))))"

subsection \<open>Requesting an assistant message\<close>

text \<open>\<^verbatim>\<open>consumeStream\<close>: the accumulated message.  The map of calls and their order are one list.\<close>

record stream_call =
  sc_id :: string
  sc_name :: string
  sc_args :: string

record stream_acc =
  sa_text :: string
  sa_thinking :: string
  sa_signature :: string
  sa_provider :: string
  sa_thinking_id :: string
  sa_usage :: usage
  sa_finish :: finish_reason
  sa_calls :: "stream_call list"

definition empty_acc :: stream_acc where
  "empty_acc = \<lparr>sa_text = '''', sa_thinking = '''', sa_signature = '''', sa_provider = '''',
     sa_thinking_id = '''', sa_usage = zero_usage, sa_finish = FinishReasonOther '''', sa_calls = []\<rparr>"

definition or_keep :: "string \<Rightarrow> string \<Rightarrow> string" where
  "or_keep new old = (if new \<noteq> '''' then new else old)"

text \<open>One event: the preview to emit, and the accumulator after it; or the error that ends the
  stream; or nothing.\<close>

definition stream_step ::
  "int \<Rightarrow> stream_acc \<Rightarrow> stream_event \<Rightarrow> (event option \<times> stream_acc) result" where
  "stream_step i acc ev =
     (case ev of (kind, f) \<Rightarrow>
      (case kind of
         StreamTextDelta \<Rightarrow>
           Inr (Some (TextPreview i (se_delta f)), acc\<lparr>sa_text := sa_text acc @ se_delta f\<rparr>)
       | StreamThinkingDelta \<Rightarrow>
           Inr (Some (ThinkingPreview i (se_delta f) (se_signature f) (se_provider_name f) (se_thinking_id f)),
                acc\<lparr>sa_thinking := sa_thinking acc @ se_delta f,
                    sa_signature := or_keep (se_signature f) (sa_signature acc),
                    sa_provider := or_keep (se_provider_name f) (sa_provider acc),
                    sa_thinking_id := or_keep (se_thinking_id f) (sa_thinking_id acc)\<rparr>)
       | StreamToolCallStart \<Rightarrow>
           (case se_tool_use f of
              None \<Rightarrow> Inr (None, acc)
            | Some u \<Rightarrow>
                if \<exists>sc \<in> set (sa_calls acc). sc_id sc = tu_id u then
                  Inl (Plain (''stream contained duplicate tool call ID '' @ quote (tu_id u)))
                else Inr (Some (ToolCallPreview i u),
                          acc\<lparr>sa_calls := sa_calls acc @
                            [\<lparr>sc_id = tu_id u, sc_name = tu_name u, sc_args = ''''\<rparr>]\<rparr>))
       | StreamToolCallDelta \<Rightarrow>
           Inr (Some (ToolArgumentPreview i (se_tool_call_id f) (se_delta f)),
                acc\<lparr>sa_calls := map (\<lambda>sc. if sc_id sc = se_tool_call_id f
                                      then sc\<lparr>sc_args := sc_args sc @ se_delta f\<rparr> else sc)
                                (sa_calls acc)\<rparr>)
       | StreamDone \<Rightarrow>
           Inr (None, acc\<lparr>sa_usage := (case se_usage f of None \<Rightarrow> sa_usage acc | Some u \<Rightarrow> u),
                          sa_finish := (if se_finish_reason f = FinishReasonOther ''''
                                        then sa_finish acc else se_finish_reason f)\<rparr>)
       | StreamError \<Rightarrow> Inl (se_error f)
       | StreamToolResult \<Rightarrow> Inr (None, acc)))"

fun consume_events ::
  "'o env \<Rightarrow> stream_event list \<Rightarrow> stream_acc \<Rightarrow> loop_state \<Rightarrow> loop_state \<times> stream_acc result" where
  "consume_events env [] acc ls = (ls, Inr acc)"
| "consume_events env (ev # evs) acc ls =
     (case stream_step (ls_iteration ls) acc ev of
        Inl e \<Rightarrow> (ls, Inl e)
      | Inr (None, acc) \<Rightarrow> consume_events env evs acc ls
      | Inr (Some preview, acc) \<Rightarrow>
          (case emit env preview ls of
             (ls, Some e) \<Rightarrow> (ls, Inl e)
           | (ls, None) \<Rightarrow> consume_events env evs acc ls))"

fun stream_parts :: "'o env \<Rightarrow> stream_call list \<Rightarrow> part list result" where
  "stream_parts env [] = Inr []"
| "stream_parts env (sc # scs) =
     (case (if sc_args sc = '''' then Inr (JObj []) else ev_parse_args env (sc_args sc)) of
        Inl e \<Rightarrow> Inl (wrap_cause (''decode streamed tool arguments for '' @ quote (sc_id sc)) e)
      | Inr input \<Rightarrow>
          (case stream_parts env scs of
             Inl e \<Rightarrow> Inl e
           | Inr ps \<Rightarrow> Inr ((zero_part ContentToolUse)
               \<lparr>p_tool_use := Some \<lparr>tu_id = sc_id sc, tu_name = sc_name sc, tu_input = input\<rparr>\<rparr> # ps)))"

definition consumeStream ::
  "'o env \<Rightarrow> stream_event list \<Rightarrow> loop_state \<Rightarrow> loop_state \<times> (message \<times> usage \<times> finish_reason) result" where
  "consumeStream env evs ls =
     (case consume_events env evs empty_acc ls of
        (ls, Inl e) \<Rightarrow> (ls, Inl e)
      | (ls, Inr acc) \<Rightarrow>
          (ls, case stream_parts env (sa_calls acc) of
             Inl e \<Rightarrow> Inl e
           | Inr calls \<Rightarrow>
               let thinking = (if sa_thinking acc = '''' then []
                     else [(zero_part ContentThinking)\<lparr>p_thinking := Some
                            \<lparr>tb_text = sa_thinking acc, tb_id = sa_thinking_id acc,
                             tb_signature = sa_signature acc, tb_provider_name = sa_provider acc,
                             tb_provider_details = JNull\<rparr>\<rparr>]);
                   txt = (if sa_text acc = '''' then []
                     else [(zero_part ContentText)\<lparr>p_text := sa_text acc\<rparr>]) in
               Inr (\<lparr>m_role = RoleAssistant, m_content = thinking @ txt @ calls\<rparr>,
                    sa_usage acc, sa_finish acc)))"

definition requestTurn ::
  "'o env \<Rightarrow> agent_core \<Rightarrow> loop_state \<Rightarrow> loop_state \<times> chat_response result" where
  "requestTurn env c ls =
     (case (op_model_streaming (ls_options ls), ev_stream env) of
        (Some True, Some stream) \<Rightarrow>
          (case buildRequest env c True ls of
             (ls, Inl e) \<Rightarrow> (ls, Inl e)
           | (ls, Inr request) \<Rightarrow>
               (case stream (ls_log ls) request of
                  Inl e \<Rightarrow> (log_effect (StreamReq request) ls, Inl (wrap_cause ''model request'' e))
                | Inr evs \<Rightarrow>
                    (case consumeStream env evs (log_effect (StreamReq request) ls) of
                       (ls, Inl e) \<Rightarrow> (ls, Inl e)
                     | (ls, Inr (m, u, f)) \<Rightarrow>
                         (ls, Inr \<lparr>rs_id = '''', rs_model = '''', rs_message = m, rs_usage = u,
                                   rs_finish_reason = f, rs_raw_finish_reason = finish_text f\<rparr>))))
      | _ \<Rightarrow>
          (case buildRequest env c False ls of
             (ls, Inl e) \<Rightarrow> (ls, Inl e)
           | (ls, Inr request) \<Rightarrow>
               (log_effect (ModelReq request) ls,
                case ev_model env (ls_log ls) request of
                  Inl e \<Rightarrow> Inl (wrap_cause ''model request'' e)
                | Inr response \<Rightarrow> Inr response)))"

subsection \<open>The loop\<close>

definition halts :: "loop_state \<times> 'o ending \<Rightarrow> loop_state \<times> ('o ending + message)" where
  "halts r = (case r of (ls, ending) \<Rightarrow> (ls, Inl ending))"

text \<open>From the head of the loop to the committed assistant message.\<close>

definition commit_response ::
  "'o env \<Rightarrow> chat_response \<Rightarrow> loop_state \<Rightarrow> loop_state \<times> ('o ending + message)" where
  "commit_response env response ls =
     (let ls = ls\<lparr>ls_total_usage := usage_Add (ls_total_usage ls) (rs_usage response)\<rparr> in
      case checkPostResponseLimits ls of
        Some e \<Rightarrow> halts (failedExecution env e False ls)
      | None \<Rightarrow>
          let ls = ls\<lparr>ls_last_finish_reason := rs_finish_reason response\<rparr> in
          if rs_finish_reason response = FinishReasonError then
            halts (failedExecution env (ProviderError (rs_raw_finish_reason response)) False ls)
          else if rs_finish_reason response = FinishReasonLength then
            halts (failedExecution env
              (ProviderError ''response reached its output limit before completing a turn'') False ls)
          else if m_content (rs_message response) = [] then
            halts (failedExecution env (ProviderError ''empty response from provider'') False ls)
          else
            (case emit env (AssistantCommitted (ls_iteration ls) (rs_message response))
                    (ls\<lparr>ls_messages := ls_messages ls @ [rs_message response]\<rparr>) of
               (ls, Some e) \<Rightarrow> halts (failedExecution env e True ls)
             | (ls, None) \<Rightarrow> (ls, Inr (rs_message response))))"

definition take_turn ::
  "'o env \<Rightarrow> agent_core \<Rightarrow> loop_state \<Rightarrow> loop_state \<times> ('o ending + message)" where
  "take_turn env c ls =
     (case ctx_Err env ls of
        (ls, Some e) \<Rightarrow> halts (interruptedExecution env e False ls)
      | (ls, None) \<Rightarrow>
          if ls_iteration ls \<ge> ls_max_iterations ls then
            halts (failedExecution env (MaxIterationsError (ls_max_iterations ls)) False ls)
          else
            (case checkPreRequestLimits ls of
               Some e \<Rightarrow> halts (failedExecution env e False ls)
             | None \<Rightarrow>
                 (case emit env (TurnStarted (ls_iteration ls)) ls of
                    (ls, Some e) \<Rightarrow> halts (failedExecution env e True ls)
                  | (ls, None) \<Rightarrow>
                      (case requestTurn env c ls of
                         (ls, Inl e) \<Rightarrow>
                           if errors_is CtxCanceled e \<or> errors_is CtxDeadlineExceeded e
                           then halts (interruptedExecution env e False ls)
                           else halts (failedExecution env e False ls)
                       | (ls, Inr response) \<Rightarrow> commit_response env response ls))))"

text \<open>From a completed turn to the next iteration or the end of the run.\<close>

definition end_turn ::
  "'o env \<Rightarrow> 'o turn_outcome \<Rightarrow> loop_state \<Rightarrow> loop_state \<times> 'o ending option" where
  "end_turn env outcome ls =
     (case to_suspension outcome of
        Some s \<Rightarrow> returns (suspendedExecution env s ls)
      | None \<Rightarrow>
          (case finishTurn env outcome ls of
             (ls, Some ending) \<Rightarrow> (ls, Some ending)
           | (ls, None) \<Rightarrow> (ls\<lparr>ls_iteration := ls_iteration ls + 1\<rparr>, None)))"

subsection \<open>What a turn and its arbitration leave alone\<close>

text \<open>Fewer demands than \<open>moves\<close>: the usage may grow.\<close>

definition extends :: "(effect \<Rightarrow> bool) \<Rightarrow> loop_state \<Rightarrow> loop_state \<Rightarrow> bool" where
  "extends P ls ls' \<longleftrightarrow> same_run ls ls' \<and> (\<exists>es. ls_log ls' = ls_log ls @ es \<and> (\<forall>e \<in> set es. P e))"

lemma extends_refl [simp]: "extends P ls ls"
  by (simp add: extends_def)

lemma extends_trans: "extends P a b \<Longrightarrow> extends P b c \<Longrightarrow> extends P a c"
  unfolding extends_def by (auto intro: same_run_trans)

lemma extends_mono: "extends P a b \<Longrightarrow> (\<And>e. P e \<Longrightarrow> Q e) \<Longrightarrow> extends Q a b"
  unfolding extends_def by blast

lemma extends_moves: "moves P a b \<Longrightarrow> (\<And>e. P e \<Longrightarrow> Q e) \<Longrightarrow> extends Q a b"
  unfolding extends_def moves_def by blast

lemma extends_log: "P e \<Longrightarrow> extends P ls (log_effect e ls)"
  by (simp add: extends_def same_run_def log_effect_def)

lemma extends_emit: "emit env ev ls = (ls', err) \<Longrightarrow> P (EmitE ev) \<Longrightarrow> extends P ls ls'"
  by (auto simp: emit_def extends_log split: option.splits)

lemma extends_upd:
  "extends P ls (ls\<lparr>ls_messages := ms\<rparr>)" "extends P ls (ls\<lparr>ls_total_usage := u\<rparr>)"
  "extends P ls (ls\<lparr>ls_last_finish_reason := f\<rparr>)" "extends P ls (ls\<lparr>ls_validation_retries := v\<rparr>)"
  by (simp_all add: extends_def same_run_def)

lemma extends_reject:
  assumes "reject_candidate env c calls oi e results outcome ls = (ls', outcome', results')"
  shows "extends turn_effect ls ls'"
proof -
  let ?ls = "ls\<lparr>ls_validation_retries := ls_validation_retries ls + 1\<rparr>"
  let ?ls' = "?ls\<lparr>ls_messages := ls_messages ls @ [feedback_message e]\<rparr>"
  obtain ls1 e1 where e1: "emit env (TurnMessagesInjected (ls_iteration ls) [feedback_message e]) ?ls'
      = (ls1, e1)" by fastforce
  have "ls' = ?ls \<or> ls' = ls1"
    using assms e1 by (auto simp: reject_candidate_def Let_def split: if_splits)
  moreover have "extends turn_effect ?ls' ls1" by (rule extends_emit [OF e1]) simp
  then have "extends turn_effect ls ls1"
    by (rule extends_trans [rotated]) (simp add: extends_def same_run_def)
  ultimately show ?thesis using extends_upd by auto
qed

lemma extends_accept:
  assumes "accept_candidate env calls oi output results outcome ls = (ls', outcome', results')"
  shows "extends turn_effect ls ls'"
proof -
  define meta where "meta = (case oi of
                    None \<Rightarrow> \<lparr>cc_source = CompletionText, cc_tool_call_id = ''''\<rparr>
                  | Some i \<Rightarrow> \<lparr>cc_source = CompletionOutputTool, cc_tool_call_id = tu_id (calls ! i)\<rparr>)"
  obtain ls1 e1 where e1: "emit env (OutputValidated (ls_iteration ls) meta) ls = (ls1, e1)"
    by fastforce
  have "ls' = ls1" using assms e1 by (auto simp: accept_candidate_def Let_def simp flip: meta_def)
  then show ?thesis using extends_emit [OF e1] by simp
qed

lemma extends_judge:
  "judge_candidate env c calls oi regular results outcome ls = (ls', outcome', results') \<Longrightarrow>
     extends turn_effect ls ls'"
  by (auto simp: judge_candidate_def split: option.splits if_splits sum.splits
      dest!: extends_reject extends_accept intro: extends_trans [OF extends_log [of turn_effect "EvalCall m" for m, simplified]])

lemma extends_finish_assistant:
  assumes "finish_assistant env c calls oi regular outcome ls = (ls', outcome')"
  shows "extends turn_effect ls ls'"
proof -
  let ?results = "map2 (slot_result c (ls_end_strategy ls) oi regular) [0..<length calls] calls"
  obtain ls1 o1 results1 where judge:
    "judge_candidate env c calls oi regular ?results outcome ls = (ls1, o1, results1)"
    using prod_cases3 by blast
  obtain ls2 err where commit: "commitToolResults env results1 ls1 = (ls2, err)" by fastforce
  have "ls' = (if results1 = [] then ls1 else ls2)"
    using assms judge commit by (auto simp: finish_assistant_def Let_def split: if_splits option.splits)
  moreover have "extends turn_effect ls1 ls2"
    using commitToolResults_spec [OF commit, of "{}"]
    by (auto simp: exec_only_def intro: extends_moves)
  ultimately show ?thesis using extends_judge [OF judge] by (auto intro: extends_trans)
qed

lemma extends_turn:
  assumes "completeAssistantTurn env c m recorded resumed ls = Some (ls', out)"
  shows "extends turn_effect ls ls'"
proof -
  obtain ls1 regular where r:
    "regular_phase env c (GetToolUses m) resumed (with_calls recorded (GetToolUses m) ls) = Some (ls1, regular)"
    "rg_suspension regular \<noteq> None \<Longrightarrow> ls' = ls1"
    "rg_suspension regular = None \<Longrightarrow>
       finish_assistant env c (GetToolUses m) (checkOutputTool c (GetToolUses m)) regular
         (start_outcome m) ls1 = (ls', out)"
    using completeAssistantTurn_cases [OF assms] by metis
  have "step_in UNIV (with_calls recorded (GetToolUses m) ls) ls1"
    using r(1) turn_step_regular [where S = UNIV]
    by (auto simp: regular_phase_def split: option.splits if_splits)
  then have "step_in UNIV ls ls1" using with_calls_step by (blast intro: regular_step_trans)
  then have "extends turn_effect ls ls1"
    by (auto simp: exec_only_def dest!: moves_step intro: extends_moves)
  then show ?thesis using r(2,3) extends_finish_assistant extends_trans by blast
qed

text \<open>The effects around a turn.\<close>

fun loop_event :: "event \<Rightarrow> bool" where
  "loop_event (RunStarted _) = False"
| "loop_event (RunSuspended _ _) = False"
| "loop_event (RunCompleted _ _ _) = False"
| "loop_event (RunInterrupted _) = False"
| "loop_event (RunError _ _) = False"
| "loop_event (RunEnded _ _) = False"
| "loop_event _ = True"

definition loop_effect :: "effect \<Rightarrow> bool" where
  "loop_effect e \<longleftrightarrow> (\<forall>ev. e = EmitE ev \<longrightarrow> loop_event ev)"

text \<open>Effects that neither request the model nor start a handler.\<close>

definition quiet_effect :: "effect \<Rightarrow> bool" where
  "quiet_effect e \<longleftrightarrow> (\<forall>r. e \<noteq> ModelReq r \<and> e \<noteq> StreamReq r) \<and> (\<forall>c rc. e \<noteq> ExecTool c rc)"

lemma turn_effect_loop: "turn_effect e \<Longrightarrow> loop_effect e"
  unfolding loop_effect_def by (cases e) (auto elim: turn_event.elims)

lemma quiet_simps [simp]:
  "quiet_effect (EmitE ev)" "quiet_effect CtxPoll" "quiet_effect (HistoryProcess ms)"
  "quiet_effect (PrepareTools ts)" "quiet_effect (HookCall t)"
  by (simp_all add: quiet_effect_def)

lemma extends_failed: "failedExecution env e sf ls = (ls', x) \<Longrightarrow> extends quiet_effect ls ls'"
  using extends_emit [of env _ _ _ _ quiet_effect]
  by (auto simp: failedExecution_def emit_ignored_def Let_def intro: extends_trans split: if_splits)
    (metis extends_trans prod.collapse quiet_simps(1))

lemma extends_interrupted: "interruptedExecution env e sf ls = (ls', x) \<Longrightarrow> extends quiet_effect ls ls'"
  using extends_emit [of env _ _ _ _ quiet_effect]
  by (auto simp: interruptedExecution_def emit_ignored_def Let_def intro: extends_trans split: if_splits)
    (metis extends_trans prod.collapse quiet_simps(1))

lemma extends_completed: "completedExecution env out ls = (ls', x) \<Longrightarrow> extends quiet_effect ls ls'"
  by (auto simp: completedExecution_def Let_def split: prod.splits option.splits
      dest!: extends_failed extends_emit [where P = quiet_effect] intro: extends_trans)

lemma extends_suspended: "suspendedExecution env s ls = (ls', x) \<Longrightarrow> extends quiet_effect ls ls'"
  by (auto simp: suspendedExecution_def Let_def split: prod.splits option.splits
      dest!: extends_failed extends_emit [where P = quiet_effect] intro: extends_trans)

lemma extends_stopped: "stoppedExecution env ls = (ls', x) \<Longrightarrow> extends quiet_effect ls ls'"
  by (auto simp: stoppedExecution_def Let_def split: prod.splits option.splits
      dest!: extends_failed extends_emit [where P = quiet_effect] intro: extends_trans)

lemmas extends_endings = extends_failed extends_interrupted extends_completed extends_suspended
  extends_stopped

lemma returns_simps [simp]:
  "returns r = (ls, x) \<longleftrightarrow> (\<exists>e. r = (ls, e) \<and> x = Some e)"
  by (auto simp: returns_def split: prod.splits)

lemma halts_simps [simp]:
  "halts r = (ls, x) \<longleftrightarrow> (\<exists>e. r = (ls, e) \<and> x = Inl e)"
  by (auto simp: halts_def split: prod.splits)

lemma extends_hook: "ask_hook env out cand ls = (ls', d) \<Longrightarrow> extends quiet_effect ls ls'"
  by (auto simp: ask_hook_def Let_def split: option.splits intro: extends_log)

lemma validateTurnDecision_None:
  "validateTurnDecision d = None \<Longrightarrow>
     (td_action d = TurnContinue \<and> td_inject d \<noteq> [] \<or> td_action d \<noteq> TurnContinue \<and> td_inject d = []) \<and>
     (\<forall>m \<in> set (td_inject d). m_role m = RoleUser) \<and> (\<forall>n. td_action d \<noteq> TurnActionOther n)"
  by (auto simp: validateTurnDecision_def split: turn_action.splits if_splits)

text \<open>The three ways a turn's arbitration goes on: the run continues, with the injected messages or
  without; or it ends.\<close>

lemma finishTurn_continues:
  assumes "finishTurn env outcome ls = (ls', None)"
  obtains inject where "ls_messages ls' = ls_messages ls @ inject" "\<forall>m \<in> set inject. m_role m = RoleUser"
    "\<forall>m \<in> set inject. \<exists>hook effs t d. ev_hook env = Some hook \<and> hook effs t = Inr d \<and> m \<in> set (td_inject d)"
    "extends quiet_effect ls ls'" "extends loop_effect ls ls'"
proof -
  define cand where "cand = (case to_candidate outcome of None \<Rightarrow> no_candidate | Some (_, meta) \<Rightarrow> meta)"
  obtain ls1 e1 where e1: "emit env (TurnEnded (ls_iteration ls) cand (ls_total_usage ls)) ls = (ls1, e1)"
    by fastforce
  obtain ls2 d where d: "ask_hook env outcome cand ls1 = (ls2, d)" by fastforce
  have x: "e1 = None" "to_fatal outcome = None"
    using assms e1 by (auto simp: finishTurn_def Let_def simp flip: cand_def split: option.splits)
  then obtain dec where dec: "d = Inr dec" "validateTurnDecision dec = None"
    using assms e1 d
    by (auto simp: finishTurn_def Let_def simp flip: cand_def split: option.splits sum.splits)
  let ?ls3 = "ls2\<lparr>ls_messages := ls_messages ls2 @ td_inject dec\<rparr>"
  obtain ls4 e4 where e4: "emit env (TurnMessagesInjected (ls_iteration ls2) (td_inject dec)) ?ls3 = (ls4, e4)"
    by fastforce
  note v = validateTurnDecision_None [OF dec(2)]
  have fin: "ls' = ls4 \<and> td_action dec = TurnContinue \<or> ls' = ls2 \<and> td_inject dec = []"
    using assms e1 d x dec e4 v
    by (auto simp: finishTurn_def Let_def simp flip: cand_def
        split: option.splits sum.splits turn_action.splits if_splits)
  have q: "extends P ls ls2" if "P (EmitE (TurnEnded (ls_iteration ls) cand (ls_total_usage ls)))"
    "\<And>t. P (HookCall t)" for P
  proof -
    have "extends P ls1 ls2"
      using d that(2) by (auto simp: ask_hook_def Let_def split: option.splits intro: extends_log)
    then show ?thesis using extends_emit [where P = P, OF e1 that(1)] extends_trans by blast
  qed
  have m2: "ls_messages ls2 = ls_messages ls"
    using d e1 by (auto simp: ask_hook_def emit_def log_effect_def Let_def split: option.splits)
  have m4: "ls_messages ls4 = ls_messages ls @ td_inject dec"
    using e4 m2 by (auto simp: emit_def log_effect_def split: option.splits)
  have q4: "extends P ls2 ls4" if "P (EmitE (TurnMessagesInjected (ls_iteration ls2) (td_inject dec)))" for P
    using extends_trans [OF extends_upd(1) extends_emit [where P = P, OF e4 that]] .
  have hook: "\<exists>hook effs t d. ev_hook env = Some hook \<and> hook effs t = Inr d \<and> m \<in> set (td_inject d)"
    if m: "m \<in> set (td_inject dec)" for m
  proof (cases "ev_hook env")
    case None
    then have "td_inject dec = []" using d dec(1) by (auto simp: ask_hook_def)
    then show ?thesis using m by simp
  next
    case (Some h)
    then have "\<exists>effs t. h effs t = Inr dec" using d dec(1) by (auto simp: ask_hook_def Let_def)
    then show ?thesis using Some m by blast
  qed
  have ext: "extends quiet_effect ls ls2" "extends loop_effect ls ls2"
    "extends quiet_effect ls2 ls4" "extends loop_effect ls2 ls4"
    by (rule q q4; simp add: loop_effect_def)+
  show thesis
  proof (cases "ls' = ls4 \<and> td_action dec = TurnContinue")
    case True
    have "extends quiet_effect ls ls4" "extends loop_effect ls ls4"
      using ext extends_trans by blast+
    then show thesis using that [of "td_inject dec"] m4 v hook True by blast
  next
    case False
    then have "ls' = ls2" using fin by blast
    then show thesis using that [of "[]"] m2 ext(1,2) by simp
  qed
qed

lemma finishTurn_extends: "finishTurn env outcome ls = (ls', r) \<Longrightarrow> extends quiet_effect ls ls'"
proof (cases r)
  case None
  then show "finishTurn env outcome ls = (ls', r) \<Longrightarrow> ?thesis" using finishTurn_continues by blast
next
  case (Some x)
  define cand where "cand = (case to_candidate outcome of None \<Rightarrow> no_candidate | Some (_, meta) \<Rightarrow> meta)"
  assume run: "finishTurn env outcome ls = (ls', r)"
  obtain ls1 e1 where e1: "emit env (TurnEnded (ls_iteration ls) cand (ls_total_usage ls)) ls = (ls1, e1)"
    by fastforce
  obtain ls2 d where d: "ask_hook env outcome cand ls1 = (ls2, d)" by fastforce
  have q: "extends quiet_effect ls ls1" "extends quiet_effect ls ls2"
    using extends_emit [OF e1] extends_hook [OF d] extends_trans by (blast intro: quiet_simps)+
  have inj: "extends quiet_effect ls2 ls4"
    if "emit env ev (ls2\<lparr>ls_messages := ms\<rparr>) = (ls4, e4)" for ev ms ls4 e4
    using extends_trans [OF extends_upd(1) extends_emit [OF that]] by simp
  show ?thesis
    using run Some e1 d q
    by (auto simp: finishTurn_def Let_def simp flip: cand_def
        split: option.splits sum.splits turn_action.splits if_splits prod.splits
        dest!: extends_endings inj intro: extends_trans)
qed

end
