(* ===== verification/Run_Loop.thy ===== *)
theory Run_Loop
  imports Execution_Loop
begin

text \<open>
  The loop of \<^verbatim>\<open>driveLoop\<close> (execution_loop.go) as a terminating function, and what a request for an
  assistant message does to the state.
\<close>

subsection \<open>Requests\<close>

text \<open>Effects of requesting an assistant message from the state \<open>ls\<close>: previews, callbacks, and a model
  request that carries the transcript unless a history processor projects it.\<close>

definition request_effect :: "loop_state \<Rightarrow> effect \<Rightarrow> bool" where
  "request_effect ls e \<longleftrightarrow>
     loop_effect e \<and> (\<forall>c rc. e \<noteq> ExecTool c rc) \<and>
     (\<forall>r. e = ModelReq r \<or> e = StreamReq r \<longrightarrow>
        ls_history_processor ls = None \<longrightarrow> rq_messages r = ls_messages ls)"

fun is_request :: "effect \<Rightarrow> bool" where
  "is_request (ModelReq _) = True"
| "is_request (StreamReq _) = True"
| "is_request _ = False"

definition reqs :: "loop_state \<Rightarrow> nat" where
  "reqs ls = length (filter is_request (ls_log ls))"

lemma quiet_no_request: "quiet_effect e \<Longrightarrow> \<not> is_request e"
  by (cases e) (auto simp: quiet_effect_def)

lemma turn_no_request: "turn_effect e \<Longrightarrow> \<not> is_request e"
  by (cases e) auto

lemma extends_reqs: "extends P a b \<Longrightarrow> (\<And>e. P e \<Longrightarrow> \<not> is_request e) \<Longrightarrow> reqs b = reqs a"
  by (auto simp: extends_def reqs_def filter_empty_conv)

lemma reqs_log [simp]: "reqs (log_effect e ls) = reqs ls + (if is_request e then 1 else 0)"
  by (simp add: reqs_def log_effect_def)

lemma reqs_quiet: "extends quiet_effect a b \<Longrightarrow> reqs b = reqs a"
  by (erule extends_reqs) (rule quiet_no_request)

lemma reqs_turn: "extends turn_effect a b \<Longrightarrow> reqs b = reqs a"
  by (erule extends_reqs) (rule turn_no_request)

lemma reqs_upd [simp]:
  "reqs (ls\<lparr>ls_messages := ms\<rparr>) = reqs ls" "reqs (ls\<lparr>ls_total_usage := u\<rparr>) = reqs ls"
  "reqs (ls\<lparr>ls_last_finish_reason := f\<rparr>) = reqs ls" "reqs (ls\<lparr>ls_iteration := i\<rparr>) = reqs ls"
  by (simp_all add: reqs_def)

text \<open>The extension of the log by effects of a request, at most \<open>k\<close> of which are model requests.\<close>

definition request_step :: "loop_state \<Rightarrow> nat \<Rightarrow> loop_state \<Rightarrow> loop_state \<Rightarrow> bool" where
  "request_step ls0 k a b \<longleftrightarrow> regular_step (request_effect ls0) a b \<and> reqs b \<le> reqs a + k"

lemma request_step_refl [simp]: "request_step ls0 k a a"
  by (simp add: request_step_def)

lemma request_step_trans:
  "request_step ls0 j a b \<Longrightarrow> request_step ls0 k b d \<Longrightarrow> request_step ls0 (j + k) a d"
  unfolding request_step_def by (auto intro: regular_step_trans)

lemma request_step_log:
  "request_effect ls0 e \<Longrightarrow> (is_request e \<Longrightarrow> k = 1) \<Longrightarrow> request_step ls0 k a (log_effect e a)"
  by (auto simp: request_step_def intro: regular_step_log)

lemma request_step_emit:
  "emit env ev ls = (ls', e) \<Longrightarrow> loop_event ev \<Longrightarrow> request_step ls0 0 ls ls'"
  by (auto simp: emit_def request_effect_def loop_effect_def split: option.splits
      intro!: request_step_log)

lemma buildRequest_step:
  assumes "buildRequest env c s ls = (ls', r)" "ls_history_processor ls = ls_history_processor ls0"
    "ls_messages ls = ls_messages ls0"
  shows "request_step ls0 0 ls ls' \<and>
    (\<forall>req. r = Inr req \<longrightarrow> ls_history_processor ls0 = None \<longrightarrow> rq_messages req = ls_messages ls0)"
proof -
  have q: "request_step ls0 0 a (log_effect (HistoryProcess ms) a)"
    "request_step ls0 0 a (log_effect (PrepareTools ts) a)" for a ms ts
    by (auto simp: request_effect_def loop_effect_def intro: request_step_log)
  show ?thesis
    using assms request_step_trans [OF q(1) q(2)]
    by (auto simp: buildRequest_def Let_def plain_request_def q split: option.splits sum.splits if_splits)
qed

lemma consume_events_step:
  "consume_events env evs acc ls = (ls', r) \<Longrightarrow> request_step ls0 0 ls ls'"
proof (induction evs arbitrary: acc ls)
  case (Cons ev evs)
  show ?case
  proof (cases "stream_step (ls_iteration ls) acc ev")
    case (Inr x)
    obtain preview acc' where x: "x = (preview, acc')" by fastforce
    show ?thesis
    proof (cases preview)
      case (Some p)
      have "loop_event p"
        using Inr x Some
        by (auto simp: stream_step_def split: prod.splits stream_type.splits option.splits if_splits)
      obtain ls1 e1 where e1: "emit env p ls = (ls1, e1)" by fastforce
      from request_step_emit [OF e1 \<open>loop_event p\<close>, of ls0] Cons x Some Inr e1 show ?thesis
        by (auto split: option.splits dest: request_step_trans [where j = 0 and k = 0, simplified])
    qed (use Cons x Inr in auto)
  qed (use Cons in auto)
qed simp

lemma consumeStream_step:
  "consumeStream env evs ls = (ls', r) \<Longrightarrow> request_step ls0 0 ls ls'"
  by (auto simp: consumeStream_def split: prod.splits sum.splits dest!: consume_events_step)

lemma requestTurn_step:
  assumes "requestTurn env c ls = (ls', r)"
  shows "request_step ls 1 ls ls'"
proof -
  have req: "request_step ls 1 a (log_effect (ModelReq q) a)" "request_step ls 1 a (log_effect (StreamReq q) a)"
    if "ls_history_processor ls = None \<longrightarrow> rq_messages q = ls_messages ls" for a q
    using that by (auto simp: request_effect_def loop_effect_def intro!: request_step_log)
  obtain ls1 r1 where b1: "buildRequest env c True ls = (ls1, r1)" by fastforce
  obtain ls2 r2 where b2: "buildRequest env c False ls = (ls2, r2)" by fastforce
  note B1 = buildRequest_step [OF b1 refl refl] and B2 = buildRequest_step [OF b2 refl refl]
  have up: "request_step ls 0 ls a \<Longrightarrow> request_step ls 1 ls a" for a
    by (simp add: request_step_def)
  have s1: "request_step ls 1 ls (log_effect (StreamReq q) ls1)" if "r1 = Inr q" for q
    using request_step_trans [OF conjunct1 [OF B1] req(2)] B1 that by simp
  have s2: "request_step ls 1 ls (log_effect (ModelReq q) ls2)" if "r2 = Inr q" for q
    using request_step_trans [OF conjunct1 [OF B2] req(1)] B2 that by simp
  have s3: "request_step ls 1 ls ls3"
    if "r1 = Inr q" "consumeStream env evs (log_effect (StreamReq q) ls1) = (ls3, x)" for q evs ls3 x
    using request_step_trans [OF s1 [OF that(1)] consumeStream_step [OF that(2)]] by simp
  show ?thesis
    using assms b1 b2 B1 B2 up s1 s2 s3
    by (auto simp: requestTurn_def split: option.splits bool.splits sum.splits prod.splits)
qed

text \<open>A streamed message is an assistant message with distinct call IDs, by construction.\<close>

lemma consume_events_distinct:
  "consume_events env evs acc ls = (ls', Inr acc') \<Longrightarrow> distinct (map sc_id (sa_calls acc)) \<Longrightarrow>
     distinct (map sc_id (sa_calls acc'))"
proof (induction evs arbitrary: acc ls)
  case (Cons ev evs)
  have map_args: "map sc_id (map (\<lambda>sc. if sc_id sc = k then sc\<lparr>sc_args := sc_args sc @ d\<rparr> else sc) xs) =
      map sc_id xs" for xs k d by simp
  obtain preview acc1 where s: "stream_step (ls_iteration ls) acc ev = Inr (preview, acc1)"
    using Cons.prems by (auto split: sum.splits)
  have "distinct (map sc_id (sa_calls acc1))"
    using s Cons.prems(2)
    by (fastforce simp: stream_step_def map_args simp del: map_map
        split: prod.splits stream_type.splits option.splits if_splits)
  moreover have "\<exists>ls1. consume_events env evs acc1 ls1 = (ls', Inr acc')"
    using Cons.prems(1) s by (auto split: option.splits prod.splits)
  ultimately show ?case using Cons.IH by blast
qed simp

lemma stream_parts_calls:
  "stream_parts env scs = Inr ps \<Longrightarrow>
     map tu_id (uses_of_parts ps) = map sc_id scs \<and> results_of_parts ps = []"
  by (induction scs arbitrary: ps) (auto simp: zero_part_def split: sum.splits if_splits)

lemma consumeStream_message:
  assumes "consumeStream env evs ls = (ls', Inr (m, u, f))"
  shows "m_role m = RoleAssistant \<and> distinct (call_ids (GetToolUses m)) \<and> GetToolResults m = []"
proof -
  obtain acc ps where acc: "consume_events env evs empty_acc ls = (ls', Inr acc)"
      "stream_parts env (sa_calls acc) = Inr ps"
    and m: "m_role m = RoleAssistant" "\<exists>th tx. m_content m = th @ tx @ ps \<and>
       uses_of_parts th = [] \<and> uses_of_parts tx = [] \<and> results_of_parts th = [] \<and> results_of_parts tx = []"
    using assms by (fastforce simp: consumeStream_def Let_def zero_part_def split: prod.splits sum.splits)
  have "distinct (map sc_id (sa_calls acc))"
    using consume_events_distinct [OF acc(1)] by (simp add: empty_acc_def)
  then show ?thesis
    using m stream_parts_calls [OF acc(2)] by (auto simp: GetToolUses_def GetToolResults_def call_ids_def)
qed

subsection \<open>Committing the response\<close>

text \<open>What a model is assumed to return in the properties about transcripts: an assistant message
  whose calls have distinct, non-empty IDs and that carries no results.  A streamed message only needs
  non-empty IDs.\<close>

definition wf_provider :: "'o env \<Rightarrow> bool" where
  "wf_provider env \<longleftrightarrow>
     (\<forall>effs req rsp. ev_model env effs req = Inr rsp \<longrightarrow> wf_assistant (rs_message rsp)) \<and>
     (\<forall>stream effs req evs f u. ev_stream env = Some stream \<longrightarrow> stream effs req = Inr evs \<longrightarrow>
        (StreamToolCallStart, f) \<in> set evs \<longrightarrow> se_tool_use f = Some u \<longrightarrow> tu_id u \<noteq> '''')"

lemma consume_events_nonempty:
  "consume_events env evs acc ls = (ls', Inr acc') \<Longrightarrow>
     (\<And>f u. (StreamToolCallStart, f) \<in> set evs \<Longrightarrow> se_tool_use f = Some u \<Longrightarrow> tu_id u \<noteq> '''') \<Longrightarrow>
     '''' \<notin> sc_id ` set (sa_calls acc) \<Longrightarrow> '''' \<notin> sc_id ` set (sa_calls acc')"
proof (induction evs arbitrary: acc ls)
  case (Cons ev evs)
  obtain preview acc1 where s: "stream_step (ls_iteration ls) acc ev = Inr (preview, acc1)"
    using Cons.prems by (auto split: sum.splits)
  have "'''' \<notin> sc_id ` set (sa_calls acc1)"
  proof (cases "fst ev = StreamToolCallDelta")
    case True
    then have "map sc_id (sa_calls acc1) = map sc_id (sa_calls acc)"
      using s by (auto simp: stream_step_def split: prod.splits)
    then show ?thesis using Cons.prems(3) by (metis list.set_map)
  next
    case False
    then show ?thesis
      using s Cons.prems(3) Cons.prems(2) [of "snd ev"]
      by (fastforce simp: stream_step_def split: prod.splits stream_type.splits option.splits if_splits)
  qed
  moreover have "\<exists>ls1. consume_events env evs acc1 ls1 = (ls', Inr acc')"
    using Cons.prems(1) s by (auto split: option.splits prod.splits)
  moreover have "\<And>f u. (StreamToolCallStart, f) \<in> set evs \<Longrightarrow> se_tool_use f = Some u \<Longrightarrow> tu_id u \<noteq> ''''"
    using Cons.prems(2) by (meson list.set_intros(2))
  ultimately show ?case using Cons.IH by blast
qed simp

lemma consumeStream_wf:
  assumes "consumeStream env evs ls = (ls', Inr (m, u, f))"
    "\<And>f u. (StreamToolCallStart, f) \<in> set evs \<Longrightarrow> se_tool_use f = Some u \<Longrightarrow> tu_id u \<noteq> ''''"
  shows "wf_assistant m"
proof -
  obtain acc ps where acc: "consume_events env evs empty_acc ls = (ls', Inr acc)"
      "stream_parts env (sa_calls acc) = Inr ps"
    and m: "\<exists>th tx. m_content m = th @ tx @ ps \<and> uses_of_parts th = [] \<and> uses_of_parts tx = []"
    using assms(1) by (fastforce simp: consumeStream_def Let_def zero_part_def split: prod.splits sum.splits)
  have "'''' \<notin> sc_id ` set (sa_calls acc)"
    using consume_events_nonempty [OF acc(1) assms(2)] by (simp add: empty_acc_def)
  then have "'''' \<notin> set (call_ids (GetToolUses m))"
    using m stream_parts_calls [OF acc(2)] unfolding GetToolUses_def call_ids_def
    by (metis append_Nil list.set_map uses_of_parts_append)
  then show ?thesis
    using consumeStream_message [OF assms(1)] by (simp add: wf_assistant_def wf_calls_def)
qed

lemma requestTurn_wf:
  assumes "requestTurn env c ls = (ls', Inr rsp)" "wf_provider env"
  shows "wf_assistant (rs_message rsp)"
proof -
  have stream: "wf_assistant m"
    if "ev_stream env = Some stream" "stream effs req = Inr evs" "consumeStream env evs l = (l', Inr (m, u, f))"
    for stream effs req evs l l' m u f
    using consumeStream_wf [OF that(3)] that(1,2) assms(2) unfolding wf_provider_def by blast
  have model: "ev_model env effs req = Inr rsp \<Longrightarrow> wf_assistant (rs_message rsp)" for effs req
    using assms(2) unfolding wf_provider_def by blast
  show ?thesis
    using assms(1)
    by (auto simp: requestTurn_def split: option.splits bool.splits sum.splits prod.splits
        intro: stream model)
qed

text \<open>A committed response: the assistant message is appended and the usage has one more request.\<close>

lemma commit_response_Inr:
  assumes "commit_response env response ls = (ls', Inr m)"
  shows "m = rs_message response \<and> ls_messages ls' = ls_messages ls @ [m] \<and>
    extends quiet_effect ls ls' \<and> extends loop_effect ls ls' \<and>
    ls_total_usage ls' = usage_Add (ls_total_usage ls) (rs_usage response) \<and>
    ls_retry_counts ls' = ls_retry_counts ls"
proof -
  let ?ls = "ls\<lparr>ls_total_usage := usage_Add (ls_total_usage ls) (rs_usage response),
    ls_last_finish_reason := rs_finish_reason response,
    ls_messages := ls_messages ls @ [rs_message response]\<rparr>"
  have emit: "emit env (AssistantCommitted (ls_iteration ls) (rs_message response)) ?ls = (ls', None)"
    and m: "m = rs_message response"
    using assms by (auto simp: commit_response_def Let_def split: option.splits if_splits prod.splits)
  have "extends P ls ?ls" for P by (simp add: extends_def same_run_def)
  then have "extends P ls ls'" if "P (EmitE (AssistantCommitted (ls_iteration ls) (rs_message response)))" for P
    using extends_emit [OF emit, of P] that extends_trans by blast
  then have "extends quiet_effect ls ls'" "extends loop_effect ls ls'"
    by (simp_all add: loop_effect_def)
  then show ?thesis
    using emit m by (auto simp: emit_def log_effect_def split: option.splits)
qed

lemma commit_response_quiet:
  assumes "commit_response env response ls = (ls', r)"
  shows "extends quiet_effect ls ls'"
proof -
  let ?ls1 = "ls\<lparr>ls_total_usage := usage_Add (ls_total_usage ls) (rs_usage response)\<rparr>"
  let ?ls2 = "?ls1\<lparr>ls_last_finish_reason := rs_finish_reason response\<rparr>"
  let ?ls3 = "?ls2\<lparr>ls_messages := ls_messages ls @ [rs_message response]\<rparr>"
  have up: "extends quiet_effect ls ?ls1" "extends quiet_effect ls ?ls2" "extends quiet_effect ls ?ls3"
    by (simp_all add: extends_def same_run_def)
  obtain ls4 e4 where e4: "emit env (AssistantCommitted (ls_iteration ls) (rs_message response)) ?ls3 = (ls4, e4)"
    by fastforce
  have x4: "extends quiet_effect ls ls4" using extends_emit [OF e4] up(3) extends_trans by (blast intro: quiet_simps)
  have "\<exists>a. extends quiet_effect ls a \<and> (ls' = a \<or> (\<exists>e s x. failedExecution env e s a = (ls', x)))"
    using assms e4 up x4
    by (auto simp: commit_response_def Let_def split: option.splits if_splits)
  then show ?thesis using extends_failed extends_trans by blast
qed

subsection \<open>The head of the loop\<close>

lemma take_turn_Inr:
  assumes "take_turn env c ls = (ls', Inr m)"
  obtains ls1 ls2 rsp where
    "ls_iteration ls < ls_max_iterations ls" "checkPreRequestLimits ls = None"
    "extends quiet_effect ls ls1" "ls_messages ls1 = ls_messages ls"
    "ls_total_usage ls1 = ls_total_usage ls"
    "requestTurn env c ls1 = (ls2, Inr rsp)" "commit_response env rsp ls2 = (ls', Inr m)"
proof -
  obtain l0 e0 where c0: "ctx_Err env ls = (l0, e0)" by fastforce
  obtain l1 e1 where e1: "emit env (TurnStarted (ls_iteration l0)) l0 = (l1, e1)" by fastforce
  have l0: "extends quiet_effect ls l0" "ls_messages l0 = ls_messages ls" "ls_iteration l0 = ls_iteration ls"
    "ls_total_usage l0 = ls_total_usage ls" "ls_max_iterations l0 = ls_max_iterations ls"
    "checkPreRequestLimits l0 = checkPreRequestLimits ls"
    using c0 by (auto simp: ctx_Err_def checkPreRequestLimits_def log_effect_def extends_def same_run_def
        split: option.split)
  have l1: "extends quiet_effect ls l1" using extends_emit [OF e1] l0(1) extends_trans by (blast intro: quiet_simps)
  have l1': "ls_messages l1 = ls_messages ls" "ls_total_usage l1 = ls_total_usage ls"
    using e1 l0 by (auto simp: emit_def log_effect_def split: option.splits)
  obtain l2 r2 where r2: "requestTurn env c l1 = (l2, r2)" by fastforce
  have n: "e0 = None" "ls_iteration ls < ls_max_iterations ls" "checkPreRequestLimits ls = None" "e1 = None"
    using assms c0 e1 l0 by (auto simp: take_turn_def split: option.splits if_splits)
  then obtain rsp where "r2 = Inr rsp" "commit_response env rsp l2 = (ls', Inr m)"
    using assms c0 e1 l0 r2 by (auto simp: take_turn_def split: sum.splits if_splits option.splits)
  then show thesis using that n l1 l1' r2 by blast
qed

lemma take_turn_same_run:
  assumes "take_turn env c ls = (ls', Inr m)"
  shows "same_run ls ls' \<and> ls_iteration ls < ls_max_iterations ls"
proof -
  obtain ls1 ls2 rsp where t: "ls_iteration ls < ls_max_iterations ls" "extends quiet_effect ls ls1"
    "requestTurn env c ls1 = (ls2, Inr rsp)" "commit_response env rsp ls2 = (ls', Inr m)"
    using take_turn_Inr [OF assms] by metis
  have "same_run ls ls1" using t(2) by (simp add: extends_def)
  moreover have "same_run ls1 ls2"
    using requestTurn_step [OF t(3)] by (simp add: request_step_def regular_step_def moves_def)
  moreover have "same_run ls2 ls'" using commit_response_Inr [OF t(4)] by (simp add: extends_def)
  ultimately show ?thesis using t(1) same_run_trans by blast
qed

lemma end_turn_continues:
  "end_turn env out ls = (ls', None) \<Longrightarrow>
     \<exists>ls1. finishTurn env out ls = (ls1, None) \<and> ls' = ls1\<lparr>ls_iteration := ls_iteration ls1 + 1\<rparr> \<and>
       to_suspension out = None"
  by (auto simp: end_turn_def split: option.splits prod.splits)

lemma end_turn_iteration:
  assumes "end_turn env out ls = (ls', None)"
  shows "ls_iteration ls' = ls_iteration ls + 1 \<and> ls_max_iterations ls' = ls_max_iterations ls"
proof -
  obtain ls1 where f: "finishTurn env out ls = (ls1, None)" "ls' = ls1\<lparr>ls_iteration := ls_iteration ls1 + 1\<rparr>"
    using end_turn_continues [OF assms] by blast
  then have "same_run ls ls1" using finishTurn_extends [OF f(1)] by (simp add: extends_def)
  then show ?thesis using f(2) by (simp add: same_run_def)
qed

subsection \<open>The loop\<close>

function iterate :: "'o env \<Rightarrow> agent_core \<Rightarrow> loop_state \<Rightarrow> (loop_state \<times> 'o ending) option" where
  "iterate env c ls =
     (case take_turn env c ls of
        (ls1, Inl ending) \<Rightarrow> Some (ls1, ending)
      | (ls1, Inr assistant) \<Rightarrow>
          (case completeAssistantTurn env c assistant False None ls1 of
             None \<Rightarrow> None
           | Some (ls2, outcome) \<Rightarrow>
               (case end_turn env outcome ls2 of
                  (ls3, Some ending) \<Rightarrow> Some (ls3, ending)
                | (ls3, None) \<Rightarrow> iterate env c ls3)))"
  by pat_completeness auto

termination
proof (relation "measure (\<lambda>(env, c, ls). nat (ls_max_iterations ls - ls_iteration ls))", simp)
  fix env :: "'o env" and c ls ls1 x m ls2o ls2 out ls3 none
  assume t: "(ls1, x) = take_turn env c ls" "x = Inr m"
    and turn: "completeAssistantTurn env c m False None ls1 = Some ls2o" "(ls2, out) = ls2o"
    and fin: "(ls3, none) = end_turn env out ls2" "none = None"
  have 1: "same_run ls ls1" "ls_iteration ls < ls_max_iterations ls"
    using take_turn_same_run [of env c ls ls1 m] t by simp_all
  have "same_run ls1 ls2" using extends_turn turn unfolding extends_def by metis
  then have "same_run ls ls2" using 1 same_run_trans by blast
  then show "((env, c, ls3), env, c, ls) \<in>
      measure (\<lambda>(env, c, ls). nat (ls_max_iterations ls - ls_iteration ls))"
    using end_turn_iteration [of env out ls2 ls3] fin 1(2) by (simp add: same_run_def)
qed

declare iterate.simps [simp del]

text \<open>\<^verbatim>\<open>driveLoop\<close>: a resumption first completes the suspended turn.\<close>

record resume_turn =
  rt_assistant :: message
  rt_regular :: "regular_turn_state option"

definition add_resume_prompt ::
  "'o env \<Rightarrow> message option \<Rightarrow> loop_state \<times> 'o turn_outcome \<Rightarrow> loop_state \<times> 'o turn_outcome" where
  "add_resume_prompt env resumePrompt s =
     (case s of (ls, outcome) \<Rightarrow>
      (case resumePrompt of
         Some prompt \<Rightarrow>
           if to_fatal outcome = None \<and> to_suspension outcome = None then
             (case emit env (TurnMessagesInjected (ls_iteration ls) [prompt])
                     (ls\<lparr>ls_messages := ls_messages ls @ [prompt]\<rparr>) of
                (ls, Some e) \<Rightarrow> (ls, outcome\<lparr>to_continuation := True, to_fatal := Some e\<rparr>)
              | (ls, None) \<Rightarrow> (ls, outcome\<lparr>to_continuation := True\<rparr>))
           else s
       | None \<Rightarrow> s))"

definition driveLoop ::
  "'o env \<Rightarrow> agent_core \<Rightarrow> resume_turn option \<Rightarrow> message option \<Rightarrow> loop_state \<Rightarrow>
     (loop_state \<times> 'o ending) option" where
  "driveLoop env c resumed resumePrompt ls =
     (case emit env (RunStarted (ls_iteration ls)) ls of
        (ls, Some e) \<Rightarrow> Some (failedExecution env e True ls)
      | (ls, None) \<Rightarrow>
          (case resumed of
             None \<Rightarrow> iterate env c ls
           | Some rt \<Rightarrow>
               (case completeAssistantTurn env c (rt_assistant rt) True (rt_regular rt) ls of
                  None \<Rightarrow> None
                | Some (ls, outcome) \<Rightarrow>
                    (case to_suspension outcome of
                       Some s \<Rightarrow> Some (suspendedExecution env s ls)
                     | None \<Rightarrow>
                         (case add_resume_prompt env resumePrompt (ls, outcome) of
                            (ls, outcome) \<Rightarrow>
                              (case end_turn env outcome ls of
                                 (ls, Some ending) \<Rightarrow> Some (ls, ending)
                               | (ls, None) \<Rightarrow> iterate env c ls))))))"

end
