(* ===== verification/Run_Props.thy ===== *)
theory Run_Props
  imports Run_Loop
begin

text \<open>
  Properties of a whole run: the model is asked at most as often as the iteration bound allows and
  always with a paired transcript, handlers start only after the gate, a run ends, and a completed
  run carries an output its evaluator accepted.
\<close>

subsection \<open>The head of the loop\<close>

definition head_effect :: "loop_state \<Rightarrow> effect \<Rightarrow> bool" where
  "head_effect ls e \<longleftrightarrow> (\<forall>c rc. e \<noteq> ExecTool c rc) \<and>
     (\<forall>r. e = ModelReq r \<or> e = StreamReq r \<longrightarrow>
        ls_history_processor ls = None \<longrightarrow> rq_messages r = ls_messages ls)"

lemma quiet_head: "quiet_effect e \<Longrightarrow> head_effect ls e"
  by (simp add: quiet_effect_def head_effect_def)

lemma take_turn_step:
  assumes "take_turn env c ls = (ls', r)"
  shows "extends (head_effect ls) ls ls' \<and> reqs ls' \<le> reqs ls + 1 \<and>
    (ls_iteration ls \<ge> ls_max_iterations ls \<longrightarrow> reqs ls' = reqs ls \<and> (\<exists>x. r = Inl x))"
proof -
  obtain l0 e0 where c0: "ctx_Err env ls = (l0, e0)" by fastforce
  obtain l1 e1 where e1: "emit env (TurnStarted (ls_iteration l0)) l0 = (l1, e1)" by fastforce
  obtain l2 r2 where r2: "requestTurn env c l1 = (l2, r2)" by fastforce
  have l0: "extends quiet_effect ls l0" "ls_iteration l0 = ls_iteration ls"
    "ls_max_iterations l0 = ls_max_iterations ls"
    using c0 by (auto simp: ctx_Err_def log_effect_def extends_def same_run_def)
  have l1: "extends quiet_effect ls l1"
    using extends_emit [OF e1] l0(1) extends_trans by (blast intro: quiet_simps)
  have same: "ls_messages l1 = ls_messages ls" "ls_history_processor l1 = ls_history_processor ls"
    using c0 e1 by (auto simp: ctx_Err_def emit_def log_effect_def split: option.splits)
  have l2: "extends (head_effect ls) l1 l2" "reqs l2 \<le> reqs l1 + 1"
    using requestTurn_step [OF r2] same
    by (auto simp: request_step_def regular_step_def request_effect_def head_effect_def
        elim!: extends_moves)
  have h: "extends quiet_effect a b \<Longrightarrow> extends (head_effect ls) a b" for a b
    by (erule extends_mono) (rule quiet_head)
  have commit: "extends (head_effect ls) ls ls' \<and> reqs ls' \<le> reqs ls + 1"
    if "extends quiet_effect l2 ls'"
    using h [OF l1] l2 h [OF that] reqs_quiet [OF that] reqs_quiet [OF l1]
    by (auto intro: extends_trans)
  have early: "extends (head_effect ls) ls ls' \<and> reqs ls' = reqs ls" if "extends quiet_effect ls ls'"
    using h [OF that] reqs_quiet [OF that] by blast
  show ?thesis
  proof (cases "\<exists>x. r = Inl x \<and> (\<exists>a. extends quiet_effect ls a \<and>
      (\<exists>e s. failedExecution env e s a = (ls', x) \<or> interruptedExecution env e s a = (ls', x)))")
    case True
    then have "extends quiet_effect ls ls'" using extends_endings(1,2) extends_trans by blast
    then show ?thesis using early True by auto
  next
    case False
    then have "e0 = None" "ls_iteration ls < ls_max_iterations ls" "e1 = None"
      using assms c0 e1 l0 l1 by (auto simp: take_turn_def split: option.splits if_splits)
    moreover have "extends quiet_effect l2 ls'"
      using assms c0 e1 l0 r2 False calculation
      by (auto simp: take_turn_def split: option.splits sum.splits if_splits
          dest: extends_failed extends_interrupted commit_response_quiet)
    ultimately show ?thesis using commit by auto
  qed
qed

lemma end_turn_quiet:
  assumes "end_turn env out ls = (ls', r)"
  shows "\<exists>a. extends quiet_effect ls a \<and> (ls' = a \<or> ls' = a\<lparr>ls_iteration := ls_iteration a + 1\<rparr>)"
  using assms
  by (auto simp: end_turn_def split: option.splits prod.splits
      dest: extends_suspended finishTurn_extends)

lemma end_turn_log:
  assumes "end_turn env out ls = (ls', r)"
  shows "\<exists>es. ls_log ls' = ls_log ls @ es \<and> (\<forall>e \<in> set es. quiet_effect e)" "reqs ls' = reqs ls"
  using end_turn_quiet [OF assms] reqs_quiet by (auto simp: extends_def)

text \<open>Induction along the loop, in the form the properties use.\<close>

lemma iterate_induct:
  assumes run: "iterate env c ls = Some (ls', x)" and start: "I ls"
    and halt: "\<And>ls ls1 e. I ls \<Longrightarrow> take_turn env c ls = (ls1, Inl e) \<Longrightarrow> Q ls1 e"
    and fin: "\<And>ls ls1 m ls2 out ls3 e. I ls \<Longrightarrow> take_turn env c ls = (ls1, Inr m) \<Longrightarrow>
        completeAssistantTurn env c m False None ls1 = Some (ls2, out) \<Longrightarrow>
        end_turn env out ls2 = (ls3, Some e) \<Longrightarrow> Q ls3 e"
    and step: "\<And>ls ls1 m ls2 out ls3. I ls \<Longrightarrow> take_turn env c ls = (ls1, Inr m) \<Longrightarrow>
        completeAssistantTurn env c m False None ls1 = Some (ls2, out) \<Longrightarrow>
        end_turn env out ls2 = (ls3, None) \<Longrightarrow> I ls3"
  shows "Q ls' x"
  using run start
proof (induction "nat (ls_max_iterations ls - ls_iteration ls)" arbitrary: ls rule: less_induct)
  case less
  obtain ls1 r where t: "take_turn env c ls = (ls1, r)" by fastforce
  show ?case
  proof (cases r)
    case (Inl e)
    then show ?thesis using less.prems halt [of ls ls1 e] t by (simp add: iterate.simps)
  next
    case (Inr m)
    then obtain ls2 out where turn: "completeAssistantTurn env c m False None ls1 = Some (ls2, out)"
      using less.prems(1) t by (auto simp: iterate.simps split: option.splits)
    obtain ls3 y where e: "end_turn env out ls2 = (ls3, y)" by fastforce
    show ?thesis
    proof (cases y)
      case (Some z)
      then show ?thesis
        using less.prems fin [of ls ls1 m ls2 out ls3 z] t Inr turn e by (simp add: iterate.simps)
    next
      case None
      have "same_run ls ls2" "ls_iteration ls < ls_max_iterations ls"
        using take_turn_same_run [of env c ls ls1 m] t Inr extends_turn [OF turn] same_run_trans
        unfolding extends_def by blast+
      then have "nat (ls_max_iterations ls3 - ls_iteration ls3) < nat (ls_max_iterations ls - ls_iteration ls)"
        using end_turn_iteration [of env out ls2 ls3] e None by (simp add: same_run_def)
      moreover have "iterate env c ls3 = Some (ls', x)"
        using less.prems(1) t Inr turn e None by (simp add: iterate.simps)
      moreover have "I ls3" using step less.prems(2) t Inr turn e None by blast
      ultimately show ?thesis using less.hyps by blast
    qed
  qed
qed

lemma cycle_next:
  assumes "take_turn env c a = (a1, Inr m)" "completeAssistantTurn env c m False None a1 = Some (a2, out)"
    "end_turn env out a2 = (a3, None)"
  shows "ls_iteration a3 = ls_iteration a + 1 \<and> ls_max_iterations a3 = ls_max_iterations a \<and>
    ls_history_processor a3 = ls_history_processor a \<and> ls_usage_limits a3 = ls_usage_limits a \<and>
    ls_registry a3 = ls_registry a"
proof -
  have "same_run a a2"
    using take_turn_same_run [OF assms(1)] extends_turn [OF assms(2)] same_run_trans
    by (auto simp: extends_def)
  moreover obtain b where "finishTurn env out a2 = (b, None)" "a3 = b\<lparr>ls_iteration := ls_iteration b + 1\<rparr>"
    using end_turn_continues [OF assms(3)] by blast
  moreover have "same_run a2 b" using finishTurn_extends calculation by (metis extends_def)
  ultimately show ?thesis by (simp add: same_run_def)
qed

lemma cycle_reqs:
  assumes "take_turn env c a = (a1, Inr m)" "completeAssistantTurn env c m False None a1 = Some (a2, out)"
    "end_turn env out a2 = (a3, y)"
  shows "reqs a3 \<le> reqs a + 1 \<and> ls_iteration a < ls_max_iterations a"
  using take_turn_step [OF assms(1)] take_turn_same_run [OF assms(1)]
    reqs_turn [OF extends_turn [OF assms(2)]] end_turn_log(2) [OF assms(3)] by simp

subsection \<open>Requests are bounded\<close>

lemma iterate_reqs:
  assumes "iterate env c ls = Some (ls', x)"
  shows "int (reqs ls') \<le> int (reqs ls) + max 0 (ls_max_iterations ls - ls_iteration ls)"
proof -
  define I where "I l \<longleftrightarrow> int (reqs l) + max 0 (ls_max_iterations l - ls_iteration l) \<le>
    int (reqs ls) + max 0 (ls_max_iterations ls - ls_iteration ls)" for l
  have "int (reqs ls') \<le> int (reqs ls) + max 0 (ls_max_iterations ls - ls_iteration ls)"
  proof (rule iterate_induct [where I = I and Q = "\<lambda>l _. int (reqs l) \<le>
      int (reqs ls) + max 0 (ls_max_iterations ls - ls_iteration ls)", OF assms])
    fix a a1 e
    assume "I a" "take_turn env c a = (a1, Inl e)"
    then show "int (reqs a1) \<le> int (reqs ls) + max 0 (ls_max_iterations ls - ls_iteration ls)"
      using take_turn_step [of env c a a1] unfolding I_def by force
  next
    fix a a1 m a2 out a3 y
    assume a: "I a" "take_turn env c a = (a1, Inr m)"
      "completeAssistantTurn env c m False None a1 = Some (a2, out)" "end_turn env out a2 = (a3, Some y)"
    show "int (reqs a3) \<le> int (reqs ls) + max 0 (ls_max_iterations ls - ls_iteration ls)"
      using cycle_reqs [OF a(2-4)] a(1) by (simp add: I_def)
  next
    fix a a1 m a2 out a3
    assume a: "I a" "take_turn env c a = (a1, Inr m)"
      "completeAssistantTurn env c m False None a1 = Some (a2, out)" "end_turn env out a2 = (a3, None)"
    show "I a3"
      using cycle_reqs [OF a(2-4)] cycle_next [OF a(2-4)] a(1) by (simp add: I_def)
  qed (simp_all add: I_def)
  then show ?thesis .
qed

subsection \<open>Transcripts at every request\<close>

lemma since_extends:
  assumes "since A n (ls_log a)" "extends P a b" "\<And>es e. P e \<Longrightarrow> A (ls_log a @ es) e"
  shows "since A n (ls_log b)"
proof -
  obtain es where es: "ls_log b = ls_log a @ es" "\<forall>e \<in> set es. P e"
    using assms(2) by (auto simp: extends_def)
  then show ?thesis using since_append [OF assms(1), of es] assms(3) by simp
qed

lemma since_end_turn:
  assumes "since A n (ls_log a)" "end_turn env out a = (b, r)" "\<And>es e. quiet_effect e \<Longrightarrow> A (ls_log a @ es) e"
  shows "since A n (ls_log b)"
proof -
  obtain es where es: "ls_log b = ls_log a @ es" "\<forall>e \<in> set es. quiet_effect e"
    using end_turn_log(1) [OF assms(2)] by blast
  then show ?thesis using since_append [OF assms(1), of es] assms(3) by simp
qed

lemma take_turn_messages:
  assumes "take_turn env c ls = (ls', Inr m)"
  shows "ls_messages ls' = ls_messages ls @ [m]" "wf_provider env \<Longrightarrow> wf_assistant m"
proof -
  obtain ls1 ls2 rsp where t: "ls_messages ls1 = ls_messages ls"
    "requestTurn env c ls1 = (ls2, Inr rsp)" "commit_response env rsp ls2 = (ls', Inr m)"
    using take_turn_Inr [OF assms] by metis
  have "ls_messages ls2 = ls_messages ls1"
    using requestTurn_step [OF t(2)] by (simp add: request_step_def regular_step_def)
  then show "ls_messages ls' = ls_messages ls @ [m]" using t commit_response_Inr [OF t(3)] by simp
  show "wf_provider env \<Longrightarrow> wf_assistant m"
    using requestTurn_wf [OF t(2)] commit_response_Inr [OF t(3)] by simp
qed

text \<open>A turn hook whose injected messages are plain text; the code checks only their role.\<close>

definition wf_hook :: "'o env \<Rightarrow> bool" where
  "wf_hook env \<longleftrightarrow> (\<forall>hook effs t d m. ev_hook env = Some hook \<longrightarrow> hook effs t = Inr d \<longrightarrow>
     m \<in> set (td_inject d) \<longrightarrow> plain_message m)"

lemma closed_plain_messages:
  "closed_transcript ms \<Longrightarrow> \<forall>m \<in> set ns. plain_message m \<Longrightarrow> closed_transcript (ms @ ns)"
  by (induction ns rule: rev_induct) (auto intro: closed_plain simp flip: append_assoc)

lemma finishTurn_ending:
  assumes "finishTurn env out ls = (ls', Some (x, err))"
  shows "ex_status x = ExecutionFailed \<and> err \<noteq> None \<or>
    ex_status x = ExecutionStopped \<and> err = None \<and> to_fatal out = None \<and>
      rr_messages (ex_result x) = ls_messages ls \<and> to_candidate out = None \<or>
    (\<exists>output meta. ex_status x = ExecutionCompleted \<and> err = None \<and> to_fatal out = None \<and>
       rr_messages (ex_result x) = ls_messages ls \<and>
       to_candidate out = Some (output, meta) \<and> rr_output (ex_result x) = Some output)"
proof -
  define cand where "cand = (case to_candidate out of None \<Rightarrow> no_candidate | Some (_, meta) \<Rightarrow> meta)"
  obtain ls1 e1 where e1: "emit env (TurnEnded (ls_iteration ls) cand (ls_total_usage ls)) ls = (ls1, e1)"
    by fastforce
  obtain ls2 d where d: "ask_hook env out cand ls1 = (ls2, d)" by fastforce
  have msgs: "ls_messages ls2 = ls_messages ls"
    using e1 d by (auto simp: emit_def ask_hook_def log_effect_def Let_def split: option.splits)
  have failed: "failedExecution env e s a = (b, y) \<Longrightarrow> ex_status (fst y) = ExecutionFailed \<and> snd y \<noteq> None"
    for e s a b and y :: "'a ending"
    by (auto simp: failedExecution_def Let_def)
  have completed: "completedExecution env o' a = (b, y) \<Longrightarrow>
      ex_status (fst y) = ExecutionFailed \<and> snd y \<noteq> None \<or>
      ex_status (fst y) = ExecutionCompleted \<and> snd y = None \<and> rr_output (ex_result (fst y)) = Some o' \<and>
        rr_messages (ex_result (fst y)) = ls_messages a" for o' a b and y :: "'a ending"
    by (auto simp: completedExecution_def makeResult_def Let_def split: option.splits prod.splits dest!: failed)
  have stopped: "stoppedExecution env a = (b, y) \<Longrightarrow>
      ex_status (fst y) = ExecutionFailed \<and> snd y \<noteq> None \<or>
      ex_status (fst y) = ExecutionStopped \<and> snd y = None \<and>
        rr_messages (ex_result (fst y)) = ls_messages a" for a b and y :: "'a ending"
    by (auto simp: stoppedExecution_def makeResult_def Let_def split: option.splits prod.splits dest!: failed)
  show ?thesis
    using assms e1 d
    by (auto simp: finishTurn_def Let_def msgs simp flip: cand_def
        split: option.splits sum.splits turn_action.splits if_splits prod.splits
        dest!: failed completed stopped)
qed

lemma end_turn_ending:
  assumes "end_turn env out ls = (ls', Some (x, err))"
  shows "ex_status x = ExecutionFailed \<and> err \<noteq> None \<or>
    (\<exists>s. to_suspension out = Some s \<and> ex_status x = ExecutionSuspended \<and> err = None \<and>
       ex_suspension x = Some s \<and> rr_messages (ex_result x) = ls_messages ls) \<or>
    to_suspension out = None \<and> ex_status x = ExecutionStopped \<and> err = None \<and> to_fatal out = None \<and>
       rr_messages (ex_result x) = ls_messages ls \<or>
    to_suspension out = None \<and>
    (\<exists>output meta. ex_status x = ExecutionCompleted \<and> err = None \<and> to_fatal out = None \<and>
       rr_messages (ex_result x) = ls_messages ls \<and>
       to_candidate out = Some (output, meta) \<and> rr_output (ex_result x) = Some output)"
proof (cases "to_suspension out")
  case None
  then have "finishTurn env out ls = (ls', Some (x, err))"
    using assms by (auto simp: end_turn_def split: prod.splits option.splits)
  then show ?thesis using finishTurn_ending None by fastforce
next
  case (Some s)
  then show ?thesis
    using assms
    by (auto simp: end_turn_def suspendedExecution_def failedExecution_def makeResult_def Let_def
        split: option.splits prod.splits)
qed

definition paired_request :: "effect list \<Rightarrow> effect \<Rightarrow> bool" where
  "paired_request pre e \<longleftrightarrow>
     (\<forall>r. e = ModelReq r \<or> e = StreamReq r \<longrightarrow> inspectTranscript (rq_messages r) = Inr [])"

definition fair_ending :: "'o ending \<Rightarrow> bool" where
  "fair_ending e \<longleftrightarrow>
     (ex_status (fst e) \<in> {ExecutionCompleted, ExecutionStopped} \<longrightarrow>
        inspectTranscript (rr_messages (ex_result (fst e))) = Inr []) \<and>
     (ex_status (fst e) = ExecutionSuspended \<longrightarrow>
        (\<exists>us. us \<noteq> [] \<and> inspectTranscript (rr_messages (ex_result (fst e))) = Inr us))"

text \<open>One cycle of the loop keeps the transcript closed.\<close>

lemma cycle_transcript:
  assumes "closed_transcript (ls_messages a)" "wf_provider env"
    "take_turn env c a = (a1, Inr m)" "completeAssistantTurn env c m False None a1 = Some (a2, out)"
  shows "to_suspension out = None \<Longrightarrow> closed_transcript (ls_messages a2)"
    "to_suspension out \<noteq> None \<Longrightarrow> \<exists>us. us \<noteq> [] \<and> open_transcript (ls_messages a2) us"
  using turn_transcript [OF assms(4) take_turn_messages(2) [OF assms(3,2)]
      take_turn_messages(1) [OF assms(3)] assms(1)]
  by (auto split: if_splits)

lemma end_turn_closed:
  assumes "end_turn env out a = (b, None)" "closed_transcript (ls_messages a)" "wf_hook env"
  shows "closed_transcript (ls_messages b)"
proof -
  obtain b0 where f: "finishTurn env out a = (b0, None)" "b = b0\<lparr>ls_iteration := ls_iteration b0 + 1\<rparr>"
    using end_turn_continues [OF assms(1)] by blast
  obtain inject where i: "ls_messages b0 = ls_messages a @ inject"
    "\<forall>m \<in> set inject. \<exists>hook effs t d. ev_hook env = Some hook \<and> hook effs t = Inr d \<and> m \<in> set (td_inject d)"
    using finishTurn_continues [OF f(1)] by metis
  then have "\<forall>m \<in> set inject. plain_message m" using assms(3) unfolding wf_hook_def by blast
  then show ?thesis using closed_plain_messages [OF assms(2)] i(1) f(2) by simp
qed

lemma end_turn_fair:
  assumes "end_turn env out a = (b, Some e)"
    "to_suspension out = None \<Longrightarrow> closed_transcript (ls_messages a)"
    "to_suspension out \<noteq> None \<Longrightarrow> \<exists>us. us \<noteq> [] \<and> open_transcript (ls_messages a) us"
  shows "fair_ending e"
proof -
  obtain x err where e: "e = (x, err)" by fastforce
  show ?thesis
    using end_turn_ending [OF assms(1) [unfolded e]] assms(2,3)
    by (auto simp: e fair_ending_def inspectTranscript_closed [symmetric])
      (metis inspectTranscript_open)
qed

lemma take_turn_halts:
  assumes "take_turn env c ls = (ls', Inl e)"
  shows "ex_status (fst e) \<in> {ExecutionFailed, ExecutionInterrupted} \<and> snd e \<noteq> None"
proof -
  have failed: "failedExecution env e s a = (b, y) \<Longrightarrow> ex_status (fst y) = ExecutionFailed \<and> snd y \<noteq> None"
    "interruptedExecution env e s a = (b, y) \<Longrightarrow> ex_status (fst y) = ExecutionInterrupted \<and> snd y \<noteq> None"
    for e s a b and y :: "'a ending"
    by (auto simp: failedExecution_def interruptedExecution_def Let_def)
  show ?thesis
    using assms
    by (auto simp: take_turn_def commit_response_def Let_def
        split: option.splits prod.splits sum.splits if_splits dest!: failed)
qed

lemma iterate_transcripts:
  assumes "iterate env c ls = Some (ls', x)" "closed_transcript (ls_messages ls)"
    "ls_history_processor ls = None" "wf_provider env" "wf_hook env" "since paired_request n (ls_log ls)"
  shows "since paired_request n (ls_log ls') \<and> fair_ending x"
proof -
  define I where "I l \<longleftrightarrow> closed_transcript (ls_messages l) \<and> ls_history_processor l = None \<and>
    since paired_request n (ls_log l)" for l :: loop_state
  have quiet: "quiet_effect e \<Longrightarrow> paired_request pre e" for pre e
    by (auto simp: paired_request_def quiet_effect_def)
  have head: "since paired_request n (ls_log a1)" if "I a" "take_turn env c a = (a1, r)" for a a1 r
  proof (rule since_extends)
    show "extends (head_effect a) a a1" using take_turn_step [OF that(2)] by blast
    show "since paired_request n (ls_log a)" using that(1) by (simp add: I_def)
    show "paired_request (ls_log a @ es) e" if "head_effect a e" for es e
      using that \<open>I a\<close> by (auto simp: head_effect_def paired_request_def I_def inspectTranscript_closed)
  qed
  have turn: "since paired_request n (ls_log a2)"
    if "since paired_request n (ls_log a1)" "completeAssistantTurn env c m False None a1 = Some (a2, out)"
    for a1 m a2 out
    by (rule since_extends [OF that(1) extends_turn [OF that(2)]])
      (auto simp: paired_request_def)
  show ?thesis
  proof (rule iterate_induct [where I = I and Q = "\<lambda>l y. since paired_request n (ls_log l) \<and> fair_ending y",
        OF assms(1)])
    show "I ls" using assms by (simp add: I_def)
  next
    fix a a1 e
    assume a: "I a" "take_turn env c a = (a1, Inl e)"
    then show "since paired_request n (ls_log a1) \<and> fair_ending e"
      using head [OF a] take_turn_halts [OF a(2)] by (auto simp: fair_ending_def)
  next
    fix a a1 m a2 out a3 e
    assume a: "I a" "take_turn env c a = (a1, Inr m)"
      "completeAssistantTurn env c m False None a1 = Some (a2, out)" "end_turn env out a2 = (a3, Some e)"
    have closed: "closed_transcript (ls_messages a)" using a(1) by (simp add: I_def)
    show "since paired_request n (ls_log a3) \<and> fair_ending e"
      using since_end_turn [OF turn [OF head [OF a(1,2)] a(3)] a(4) quiet]
        end_turn_fair [OF a(4)] cycle_transcript [OF closed assms(4) a(2,3)] by blast
  next
    fix a a1 m a2 out a3
    assume a: "I a" "take_turn env c a = (a1, Inr m)"
      "completeAssistantTurn env c m False None a1 = Some (a2, out)" "end_turn env out a2 = (a3, None)"
    have closed: "closed_transcript (ls_messages a)" using a(1) by (simp add: I_def)
    have "to_suspension out = None" using end_turn_continues [OF a(4)] by blast
    then have "closed_transcript (ls_messages a3)"
      using cycle_transcript(1) [OF closed assms(4) a(2,3)] end_turn_closed [OF a(4) _ assms(5)] by blast
    then show "I a3"
      using since_end_turn [OF turn [OF head [OF a(1,2)] a(3)] a(4) quiet] cycle_next [OF a(2-4)] a(1)
      by (simp add: I_def)
  qed
qed

subsection \<open>The gate, the limits, the output\<close>

lemma head_gate_ok: "head_effect ls e \<Longrightarrow> gate_ok env n pre e"
  by (auto simp: head_effect_def gate_ok_def)

lemma quiet_gate_ok: "quiet_effect e \<Longrightarrow> gate_ok env n pre e"
  by (auto simp: quiet_effect_def gate_ok_def)

lemma extends_length: "extends P a b \<Longrightarrow> length (ls_log a) \<le> length (ls_log b)"
  by (auto simp: extends_def)

lemma iterate_gated:
  assumes "iterate env c ls = Some (ls', x)" "wf_provider env" "since (gate_ok env n) n (ls_log ls)"
    "n \<le> length (ls_log ls)"
  shows "since (gate_ok env n) n (ls_log ls')"
proof -
  define I where "I l \<longleftrightarrow> since (gate_ok env n) n (ls_log l) \<and> n \<le> length (ls_log l)" for l :: loop_state
  have head: "I a1" if "I a" "take_turn env c a = (a1, r)" for a a1 r
    using that take_turn_step [OF that(2)] extends_length [of "head_effect a" a a1]
      since_extends [of "gate_ok env n" n a "head_effect a" a1] head_gate_ok
    unfolding I_def by (meson order_trans)
  have turn: "I a2" if "I a1" "completeAssistantTurn env c m False None a1 = Some (a2, out)"
    "wf_assistant m" for a1 m a2 out
    using that completeAssistantTurn_gated [OF that(2), of n] extends_length [OF extends_turn [OF that(2)]]
    unfolding I_def wf_assistant_def by auto
  have fin: "I a3" if "I a2" "end_turn env out a2 = (a3, y)" for a2 out a3 y
  proof -
    have "since (gate_ok env n) n (ls_log a3)"
      using since_end_turn [OF _ that(2), of "gate_ok env n" n] that(1) quiet_gate_ok
      unfolding I_def by blast
    moreover have "length (ls_log a2) \<le> length (ls_log a3)" using end_turn_log(1) [OF that(2)] by auto
    ultimately show ?thesis using that(1) unfolding I_def by simp
  qed
  have "I ls'"
  proof (rule iterate_induct [where I = I and Q = "\<lambda>l _. I l", OF assms(1)])
    show "I ls" using assms by (simp add: I_def)
  next
    fix a a1 e
    assume "I a" "take_turn env c a = (a1, Inl e)"
    then show "I a1" using head by blast
  next
    fix a a1 m a2 out a3 e
    assume a: "I a" "take_turn env c a = (a1, Inr m)"
      "completeAssistantTurn env c m False None a1 = Some (a2, out)" "end_turn env out a2 = (a3, Some e)"
    show "I a3" using fin [OF turn [OF head [OF a(1,2)] a(3) take_turn_messages(2) [OF a(2) assms(2)]] a(4)] .
  next
    fix a a1 m a2 out a3
    assume a: "I a" "take_turn env c a = (a1, Inr m)"
      "completeAssistantTurn env c m False None a1 = Some (a2, out)" "end_turn env out a2 = (a3, None)"
    show "I a3" using fin [OF turn [OF head [OF a(1,2)] a(3) take_turn_messages(2) [OF a(2) assms(2)]] a(4)] .
  qed
  then show ?thesis by (simp add: I_def)
qed

text \<open>The loop ends.\<close>

lemma iterate_returns:
  assumes "responsive env"
  shows "\<exists>ls' x. iterate env c ls = Some (ls', x)"
proof (induction "nat (ls_max_iterations ls - ls_iteration ls)" arbitrary: ls rule: less_induct)
  case less
  obtain ls1 r where t: "take_turn env c ls = (ls1, r)" by fastforce
  show ?case
  proof (cases r)
    case (Inl e)
    then show ?thesis using t by (simp add: iterate.simps)
  next
    case (Inr m)
    obtain ls2 out where turn: "completeAssistantTurn env c m False None ls1 = Some (ls2, out)"
      using completeAssistantTurn_returns [OF assms] by metis
    obtain ls3 y where e: "end_turn env out ls2 = (ls3, y)" by fastforce
    show ?thesis
    proof (cases y)
      case None
      note t' = t [unfolded Inr] and e' = e [unfolded None]
      have "nat (ls_max_iterations ls3 - ls_iteration ls3) < nat (ls_max_iterations ls - ls_iteration ls)"
        using cycle_next [OF t' turn e'] take_turn_same_run [OF t'] by simp
      from less [OF this] show ?thesis using t' turn e' by (simp add: iterate.simps)
    qed (use t Inr turn e in \<open>simp add: iterate.simps\<close>)
  qed
qed

text \<open>A candidate is one the evaluator accepted.\<close>

definition accepted_output :: "'o env \<Rightarrow> nat \<Rightarrow> effect list \<Rightarrow> 'o \<Rightarrow> bool" where
  "accepted_output env n effs output \<longleftrightarrow>
     (\<exists>p m q. effs = p @ EvalCall m # q \<and> n \<le> length p \<and> ev_evaluate env p m = Inr output)"

lemma accepted_output_mono: "accepted_output env n effs x \<Longrightarrow> accepted_output env n (effs @ es) x"
  unfolding accepted_output_def by fastforce

lemma judge_accepted:
  assumes "judge_candidate env c calls oi regular results outcome ls = (ls', outcome', results')"
    "to_candidate outcome = None" "to_candidate outcome' = Some (output, meta)" "n \<le> length (ls_log ls)"
  shows "accepted_output env n (ls_log ls') output"
proof (cases "\<exists>out. ev_evaluate env (ls_log ls) (to_assistant outcome) = Inr out \<and>
    accept_candidate env calls oi out results outcome
      (log_effect (EvalCall (to_assistant outcome)) ls) = (ls', outcome', results')")
  case True
  then obtain out where a: "ev_evaluate env (ls_log ls) (to_assistant outcome) = Inr out"
    "accept_candidate env calls oi out results outcome
      (log_effect (EvalCall (to_assistant outcome)) ls) = (ls', outcome', results')" by blast
  then have "out = output"
    using assms(3) by (auto simp: accept_candidate_def Let_def split: prod.splits if_splits)
  moreover obtain es where "ls_log ls' = (ls_log ls @ [EvalCall (to_assistant outcome)]) @ es"
    using extends_accept [OF a(2)] by (auto simp: extends_def log_effect_def)
  ultimately show ?thesis
    using a(1) assms(4) unfolding accepted_output_def by (intro exI [of _ "ls_log ls"]) auto
next
  case False
  have "to_candidate outcome' = to_candidate outcome"
    if "reject_candidate env c calls oi e results outcome l = (ls', outcome', results')" for e l
    using that by (auto simp: reject_candidate_def Let_def split: prod.splits if_splits)
  then have "to_candidate outcome' = None"
    using assms(1,2) False
    by (auto simp: judge_candidate_def split: option.splits if_splits sum.splits)
  then show ?thesis using assms(3) by simp
qed

lemma finish_assistant_accepted:
  assumes "finish_assistant env c calls oi regular outcome ls = (ls', outcome')"
    "to_candidate outcome = None" "to_candidate outcome' = Some (output, meta)" "n \<le> length (ls_log ls)"
  shows "accepted_output env n (ls_log ls') output"
proof -
  let ?results = "map2 (slot_result c (ls_end_strategy ls) oi regular) [0..<length calls] calls"
  obtain ls1 o1 results1 where judge:
    "judge_candidate env c calls oi regular ?results outcome ls = (ls1, o1, results1)"
    using prod_cases3 by blast
  obtain ls2 err where commit: "commitToolResults env results1 ls1 = (ls2, err)" by fastforce
  have res: "ls' = (if results1 = [] then ls1 else ls2)" "to_candidate outcome' = to_candidate o1"
    using assms(1) judge commit by (auto simp: finish_assistant_def Let_def split: if_splits option.splits)
  have "accepted_output env n (ls_log ls1) output"
    using judge_accepted [OF judge assms(2) _ assms(4)] assms(3) res(2) by simp
  moreover have "\<exists>es. ls_log ls2 = ls_log ls1 @ es"
    using commitToolResults_spec [OF commit, of "{}"] by (auto simp: moves_def)
  ultimately show ?thesis using res(1) accepted_output_mono by (auto split: if_splits)
qed

lemma turn_accepted:
  assumes "completeAssistantTurn env c m recorded resumed ls = Some (ls', out)"
    "to_candidate out = Some (output, meta)" "n \<le> length (ls_log ls)"
  shows "accepted_output env n (ls_log ls') output"
proof -
  obtain ls1 regular where r:
    "regular_phase env c (GetToolUses m) resumed (with_calls recorded (GetToolUses m) ls) = Some (ls1, regular)"
    "rg_suspension regular \<noteq> None \<Longrightarrow> out = (start_outcome m)\<lparr>to_suspension := rg_suspension regular\<rparr>"
    "rg_suspension regular = None \<Longrightarrow>
       finish_assistant env c (GetToolUses m) (checkOutputTool c (GetToolUses m)) regular
         (start_outcome m) ls1 = (ls', out)"
    using completeAssistantTurn_cases [OF assms(1)] by metis
  have "rg_suspension regular = None"
    using r(2) assms(2) by (cases "rg_suspension regular") (auto simp: start_outcome_def)
  moreover have "step_in UNIV (with_calls recorded (GetToolUses m) ls) ls1"
    using r(1) turn_step_regular [where S = UNIV]
    by (auto simp: regular_phase_def split: option.splits if_splits)
  then have "n \<le> length (ls_log ls1)" using moves_log_length [OF moves_step] assms(3) by fastforce
  ultimately show ?thesis
    using finish_assistant_accepted [OF r(3)] assms(2) by (simp add: start_outcome_def)
qed

lemma iterate_completed:
  assumes "iterate env c ls = Some (ls', x)" "ex_status (fst x) = ExecutionCompleted"
    "n \<le> length (ls_log ls)"
  shows "\<exists>output. rr_output (ex_result (fst x)) = Some output \<and> accepted_output env n (ls_log ls') output"
proof -
  define Q where "Q l y \<longleftrightarrow> (ex_status (fst y) = ExecutionCompleted \<longrightarrow>
    (\<exists>output. rr_output (ex_result (fst y)) = Some output \<and> accepted_output env n (ls_log l) output))"
    for l :: loop_state and y :: "'a ending"
  have "Q ls' x"
  proof (rule iterate_induct [where I = "\<lambda>l. n \<le> length (ls_log l)" and Q = Q, OF assms(1,3)])
    fix a a1 e
    assume t: "take_turn env c a = (a1, Inl e)"
    show "Q a1 e" using take_turn_halts [OF t] by (auto simp: Q_def)
  next
    fix a a1 m a2 out a3 e
    assume a: "n \<le> length (ls_log a)" "take_turn env c a = (a1, Inr m)"
      "completeAssistantTurn env c m False None a1 = Some (a2, out)" "end_turn env out a2 = (a3, Some e)"
    have n1: "n \<le> length (ls_log a1)"
      using extends_length [OF conjunct1 [OF take_turn_step [OF a(2)]]] a(1) by simp
    obtain x err where e: "e = (x, err)" by fastforce
    obtain es where es: "ls_log a3 = ls_log a2 @ es" using end_turn_log(1) [OF a(4)] by blast
    have "accepted_output env n (ls_log a3) y" if "to_candidate out = Some (y, meta)"
      for y meta
      using accepted_output_mono [OF turn_accepted [OF a(3) that n1]] es by simp
    then show "Q a3 e"
      using end_turn_ending [OF a(4) [unfolded e]] unfolding Q_def e by auto
  next
    fix a a1 m a2 out a3
    assume a: "n \<le> length (ls_log a)" "take_turn env c a = (a1, Inr m)"
      "completeAssistantTurn env c m False None a1 = Some (a2, out)" "end_turn env out a2 = (a3, None)"
    obtain es where es: "ls_log a3 = ls_log a2 @ es" using end_turn_log(1) [OF a(4)] by blast
    have "length (ls_log a) \<le> length (ls_log a1)"
      by (rule extends_length [OF conjunct1 [OF take_turn_step [OF a(2)]]])
    moreover have "length (ls_log a1) \<le> length (ls_log a2)"
      by (rule extends_length [OF extends_turn [OF a(3)]])
    ultimately show "n \<le> length (ls_log a3)" using a(1) es by simp
  qed
  then show ?thesis using assms(2) by (simp add: Q_def)
qed

subsection \<open>Whole runs\<close>

lemma cycle_log:
  assumes "take_turn env c a = (a1, Inr m)" "completeAssistantTurn env c m False None a1 = Some (a2, out)"
    "end_turn env out a2 = (a3, y)"
  shows "\<exists>es. ls_log a3 = ls_log a @ es"
  using take_turn_step [OF assms(1)] extends_turn [OF assms(2)] end_turn_log(1) [OF assms(3)]
  by (auto simp: extends_def)

lemma iterate_log:
  assumes "iterate env c ls = Some (ls', x)"
  shows "\<exists>es. ls_log ls' = ls_log ls @ es"
proof (rule iterate_induct [where I = "\<lambda>a. \<exists>es. ls_log a = ls_log ls @ es"
      and Q = "\<lambda>a _. \<exists>es. ls_log a = ls_log ls @ es", OF assms])
  fix a a1 r
  assume a: "\<exists>es. ls_log a = ls_log ls @ es" "take_turn env c a = (a1, Inl r)"
  then show "\<exists>es. ls_log a1 = ls_log ls @ es" using take_turn_step [OF a(2)] by (auto simp: extends_def)
next
  fix a a1 m a2 out a3 e
  assume a: "\<exists>es. ls_log a = ls_log ls @ es" "take_turn env c a = (a1, Inr m)"
    "completeAssistantTurn env c m False None a1 = Some (a2, out)" "end_turn env out a2 = (a3, Some e)"
  show "\<exists>es. ls_log a3 = ls_log ls @ es" using cycle_log [OF a(2-4)] a(1) by auto
next
  fix a a1 m a2 out a3
  assume a: "\<exists>es. ls_log a = ls_log ls @ es" "take_turn env c a = (a1, Inr m)"
    "completeAssistantTurn env c m False None a1 = Some (a2, out)" "end_turn env out a2 = (a3, None)"
  show "\<exists>es. ls_log a3 = ls_log ls @ es" using cycle_log [OF a(2-4)] a(1) by auto
qed simp

lemma driveLoop_start:
  assumes "driveLoop env c None prompt ls = Some (ls', x)"
  obtains ls0 where "extends quiet_effect ls ls0" "ls_messages ls0 = ls_messages ls"
    "iterate env c ls0 = Some (ls', x) \<or>
     ls' = ls0 \<and> ex_status (fst x) = ExecutionFailed \<and> snd x \<noteq> None"
proof -
  obtain ls0 e where e: "emit env (RunStarted (ls_iteration ls)) ls = (ls0, e)" by fastforce
  have q: "extends quiet_effect ls ls0" using extends_emit [OF e] by simp
  have m: "ls_messages ls0 = ls_messages ls" using e by (auto simp: emit_def log_effect_def split: option.splits)
  show thesis
    using assms e that [OF q m]
    by (cases e) (auto simp: driveLoop_def failedExecution_def Let_def)
qed

lemma driveLoop_returns:
  assumes "responsive env"
  shows "\<exists>ls' x. driveLoop env c resumed prompt ls = Some (ls', x)"
proof -
  obtain ls0 e where e: "emit env (RunStarted (ls_iteration ls)) ls = (ls0, e)" by fastforce
  have turn: "\<exists>l out. completeAssistantTurn env c m True reg ls0 = Some (l, out)" for m reg
    using completeAssistantTurn_returns [OF assms] by metis
  show ?thesis
  proof (cases resumed)
    case None
    then show ?thesis
      using e iterate_returns [OF assms, of c ls0]
      by (cases e; cases "failedExecution env (the e) True ls0 :: loop_state \<times> 'a ending")
        (auto simp: driveLoop_def)
  next
    case (Some rt)
    obtain l out where t: "completeAssistantTurn env c (rt_assistant rt) True (rt_regular rt) ls0 = Some (l, out)"
      using turn by metis
    obtain l1 out1 where p: "add_resume_prompt env prompt (l, out) = (l1, out1)" by fastforce
    obtain l2 y where f: "end_turn env out1 l1 = (l2, y)" by fastforce
    have "iterate env c l2 \<noteq> None" using iterate_returns [OF assms, of c l2] by auto
    then have "driveLoop env c resumed prompt ls \<noteq> None"
      using e Some t p f by (simp add: driveLoop_def split: option.split del: not_None_eq)
    then show ?thesis by auto
  qed
qed

definition example_response :: chat_response where
  "example_response = \<lparr>rs_id = '''', rs_model = '''', rs_message = NewTextMessage RoleAssistant ''ok'',
     rs_usage = zero_usage, rs_finish_reason = FinishReasonStop, rs_raw_finish_reason = ''stop''\<rparr>"

definition example_run_env :: "string env" where
  "example_run_env = example_gated_env\<lparr>ev_model := (\<lambda>_ _. Inr example_response)\<rparr>"

lemma example_run_env_ok:
  "responsive example_run_env" "wf_provider example_run_env" "wf_hook example_run_env"
proof -
  show "responsive example_run_env"
    using responsive_example by (simp add: responsive_def example_run_env_def)
qed (simp_all add: wf_provider_def wf_hook_def example_run_env_def example_gated_env_def example_env_def
    example_response_def wf_assistant_def wf_calls_def call_ids_def)

text \<open>
  C1. A run always ends: if every handler of a started batch replies, or the context is cancelled and then the
  cancellation grace runs out, \<^verbatim>\<open>driveLoop\<close> returns an execution, for a fresh run as for a resumed one,
  whatever the model, the gate, the turn hook and the event sink answer.
\<close>

theorem driveLoop_terminates:
  assumes "responsive env"
  shows "\<exists>ls' x. driveLoop env c resumed prompt ls = Some (ls', x)"
  by (rule driveLoop_returns [OF assms])

lemma driveLoop_terminates_witness:
  "\<exists>ls' x. driveLoop example_run_env example_core None None
     (example_tool_state [NewTextMessage RoleUser ''hi'']) = Some (ls', x)"
  by (rule driveLoop_terminates [OF example_run_env_ok(1)])



text \<open>
  C2. In a fresh run the model never sees a broken transcript: when the history is closed, no history processor
  rewrites it, the provider returns well-formed assistant messages and the turn hook injects plain
  messages, every request of the run carries a closed transcript; and the run completes or stops with
  a closed transcript, and suspends with an open frontier.  Without the conditions on the processor and the
  provider the code does send transcripts its own checker refuses.
\<close>

theorem driveLoop_transcripts:
  assumes "driveLoop env c None prompt ls = Some (ls', x)" "inspectTranscript (ls_messages ls) = Inr []"
    "ls_history_processor ls = None" "wf_provider env" "wf_hook env" "ls_log ls = []"
  shows "(\<forall>r. ModelReq r \<in> set (ls_log ls') \<or> StreamReq r \<in> set (ls_log ls') \<longrightarrow>
       inspectTranscript (rq_messages r) = Inr []) \<and> fair_ending x"
proof -
  obtain ls0 where l: "extends quiet_effect ls ls0" "ls_messages ls0 = ls_messages ls"
    "iterate env c ls0 = Some (ls', x) \<or> ls' = ls0 \<and> ex_status (fst x) = ExecutionFailed"
    using driveLoop_start [OF assms(1)] by metis
  have s: "since paired_request 0 (ls_log ls0)"
    by (rule since_extends [OF _ l(1)]) (auto simp: since_def assms(6) paired_request_def quiet_effect_def)
  have c: "closed_transcript (ls_messages ls0)" "ls_history_processor ls0 = None"
    using l assms(2,3) by (simp_all add: inspectTranscript_closed extends_def same_run_def)
  have "since paired_request 0 (ls_log ls') \<and> fair_ending x"
    using l(3)
  proof
    assume "iterate env c ls0 = Some (ls', x)"
    then show ?thesis by (rule iterate_transcripts [OF _ c assms(4,5) s])
  qed (use s in \<open>auto simp: fair_ending_def\<close>)
  moreover have "inspectTranscript (rq_messages r) = Inr []"
    if "since paired_request 0 (ls_log ls')" "e \<in> set (ls_log ls')" "e = ModelReq r \<or> e = StreamReq r"
    for e r
    using that unfolding in_set_conv_nth since_def paired_request_def by blast
  ultimately show ?thesis by blast
qed

lemma driveLoop_transcripts_witness:
  "\<exists>ls' x. driveLoop example_run_env example_core None None
     (example_tool_state [NewTextMessage RoleUser ''hi'']) = Some (ls', x) \<and> fair_ending x"
proof -
  let ?ls = "example_tool_state [NewTextMessage RoleUser ''hi'']"
  obtain ls' x where run: "driveLoop example_run_env example_core None None ?ls = Some (ls', x)"
    using driveLoop_returns [OF example_run_env_ok(1)] by metis
  have start: "inspectTranscript (ls_messages ?ls) = Inr []" "ls_history_processor ?ls = None" "ls_log ?ls = []"
    by (simp_all add: example_tool_state_def example_state_def inspectTranscript_def inspect_message_def
        inspect_uses_def Let_def)
  from driveLoop_transcripts [OF run start(1,2) example_run_env_ok(2,3) start(3)] run show ?thesis by auto
qed

lemma extends_resume_prompt:
  "add_resume_prompt env prompt (ls, out) = (ls', out') \<Longrightarrow>
     \<exists>es. ls_log ls' = ls_log ls @ es \<and> (\<forall>e \<in> set es. quiet_effect e)"
  by (auto simp: add_resume_prompt_def emit_def log_effect_def quiet_effect_def
      split: option.splits if_splits prod.splits)

text \<open>What a resumption hands to the loop belongs to the calls of its assistant message.\<close>

definition resume_wf :: "resume_turn \<Rightarrow> bool" where
  "resume_wf rt \<longleftrightarrow> wf_calls (GetToolUses (rt_assistant rt)) \<and>
     (\<forall>r. rt_regular rt = Some r \<longrightarrow> results_in (GetToolUses (rt_assistant rt)) (rg_results r))"

lemma driveLoop_gated:
  assumes "driveLoop env c resumed prompt ls = Some (ls', x)" "wf_provider env"
    "case resumed of None \<Rightarrow> True | Some rt \<Rightarrow> resume_wf rt"
  shows "since (gate_ok env (length (ls_log ls))) (length (ls_log ls)) (ls_log ls')"
proof -
  let ?n = "length (ls_log ls)"
  let ?I = "\<lambda>l. since (gate_ok env ?n) ?n (ls_log l) \<and> ?n \<le> length (ls_log l)"
  obtain ls0 e where e: "emit env (RunStarted (ls_iteration ls)) ls = (ls0, e)" by fastforce
  have q: "extends quiet_effect ls ls0" using extends_emit [OF e] by simp
  have s: "?I ls0"
    using since_extends [OF since_refl q] quiet_gate_ok extends_length [OF q] by blast
  have iter: "?I l \<Longrightarrow> iterate env c l = Some (ls', x) \<Longrightarrow> since (gate_ok env ?n) ?n (ls_log ls')" for l
    using iterate_gated [OF _ assms(2)] by blast
  show ?thesis
  proof (cases "e = None \<and> resumed \<noteq> None")
    case False
    then show ?thesis using assms(1) e s iter
      by (cases e) (auto simp: driveLoop_def failedExecution_def Let_def)
  next
    case True
    then obtain rt where rt: "resumed = Some rt" "e = None" by auto
    obtain l out where t: "completeAssistantTurn env c (rt_assistant rt) True (rt_regular rt) ls0 = Some (l, out)"
      using assms(1) e rt by (auto simp: driveLoop_def split: option.splits)
    obtain l1 out1 where p: "add_resume_prompt env prompt (l, out) = (l1, out1)" by fastforce
    obtain l2 y where f: "end_turn env out1 l1 = (l2, y)" by fastforce
    have I: "?I l"
      using completeAssistantTurn_gated [OF t, of ?n] assms(3) s rt(1) extends_length [OF extends_turn [OF t]]
      by (auto simp: resume_wf_def)
    obtain es where es: "ls_log l1 = ls_log l @ es" "\<forall>e \<in> set es. quiet_effect e"
      using extends_resume_prompt [OF p] by blast
    have "since (gate_ok env ?n) ?n (ls_log l @ es)"
      by (rule since_append) (use I es(2) in \<open>auto intro: quiet_gate_ok\<close>)
    then have I1: "?I l1" using I es(1) by simp
    obtain fs where fs: "ls_log l2 = ls_log l1 @ fs" using end_turn_log(1) [OF f] by blast
    have "since (gate_ok env ?n) ?n (ls_log l2)"
      by (rule since_end_turn [OF _ f]) (use I1 in \<open>auto intro: quiet_gate_ok\<close>)
    then have I2: "?I l2" using I1 fs by simp
    have "(\<exists>s. suspendedExecution env s l = (ls', x)) \<or> ls' = l2 \<or> iterate env c l2 = Some (ls', x)"
      using assms(1) e rt t p f by (auto simp: driveLoop_def split: option.splits)
    moreover have "since (gate_ok env ?n) ?n (ls_log ls')" if "suspendedExecution env s l = (ls', x)" for s
      using since_extends [OF _ extends_suspended [OF that], of "gate_ok env ?n" ?n] I quiet_gate_ok by blast
    ultimately show ?thesis using I2 iter by blast
  qed
qed

text \<open>
  C5. With a gate and well-formed provider messages, the loop of a run starts no handler unless the gate
  admitted its call: every start of a handler is preceded, since the loop began, by a gate evaluation of a
  batch with that call whose coherent, unsuspended answer gives the call the disposition to execute.  The
  loop of a resumed run is included, when the results it is handed belong to the calls of its assistant
  message; the handlers a resumption itself starts before that loop are not asked of the gate again, but
  need the operator's decisions.
\<close>

theorem driveLoop_gate_first:
  assumes "driveLoop env c resumed prompt ls = Some (ls', x)" "wf_provider env" "ev_gate env = Some gate"
    "case resumed of None \<Rightarrow> True | Some rt \<Rightarrow> resume_wf rt"
    "ls_log ls' = ls_log ls @ before @ ExecTool call rc # after"
  shows "\<exists>p q batch d i. before = p @ GateEval batch # q \<and> gate (ls_log ls @ p) batch = Inr d \<and>
    decision_ok batch d \<and> \<not> some_suspended d \<and> i < length batch \<and> batch ! i = call \<and>
    di_kind (bd_calls d ! i) = ToolDispositionExecute"
proof -
  let ?n = "length (ls_log ls)"
  have "since (gate_ok env ?n) ?n (ls_log ls')"
    by (rule driveLoop_gated [OF assms(1,2,4)])
  then have "since (gate_ok env ?n) ?n ((ls_log ls @ before) @ ExecTool call rc # after)"
    using assms(5) by simp
  from since_nth [OF this] have "admitted_by env ?n (ls_log ls @ before) call"
    by (simp add: gate_ok_def)
  then obtain p q batch d i where g: "ls_log ls @ before = p @ GateEval batch # q" "?n \<le> length p"
    "gate p batch = Inr d" "decision_ok batch d" "\<not> some_suspended d" "i < length batch" "batch ! i = call"
    "di_kind (bd_calls d ! i) = ToolDispositionExecute"
    using assms(3) unfolding admitted_by_def by auto
  then obtain p' where "p = ls_log ls @ p'" "before = p' @ GateEval batch # q"
    by (auto simp: append_eq_append_conv2)
  with g show ?thesis by blast
qed

text \<open>
  A run reported as completed carries an output that the completion evaluator accepted during
  this run, for an assistant message of it.
\<close>

theorem driveLoop_completed_accepted:
  assumes "driveLoop env c None prompt ls = Some (ls', x)" "ex_status (fst x) = ExecutionCompleted"
  shows "\<exists>output p m q. rr_output (ex_result (fst x)) = Some output \<and>
    ls_log ls' = ls_log ls @ p @ EvalCall m # q \<and> ev_evaluate env (ls_log ls @ p) m = Inr output"
proof -
  let ?n = "length (ls_log ls)"
  obtain ls0 where l: "extends quiet_effect ls ls0" "iterate env c ls0 = Some (ls', x)"
    using driveLoop_start [OF assms(1)] assms(2) by (metis execution_status.distinct(7))
  obtain y where y: "rr_output (ex_result (fst x)) = Some y" "accepted_output env ?n (ls_log ls') y"
    using iterate_completed [OF l(2) assms(2) extends_length [OF l(1)]] by blast
  obtain es where es: "ls_log ls' = ls_log ls @ es"
    using iterate_log [OF l(2)] l(1) by (auto simp: extends_def)
  obtain p m q where p: "ls_log ls' = p @ EvalCall m # q" "?n \<le> length p" "ev_evaluate env p m = Inr y"
    using y(2) unfolding accepted_output_def by blast
  then obtain p' where "p = ls_log ls @ p'"
    using es by (auto simp: append_eq_append_conv2)
  then show ?thesis using p y(1) by auto
qed

lemma driveLoop_completed_accepted_witness:
  "\<exists>ls' x. driveLoop example_run_env example_core None None
     (example_tool_state [NewTextMessage RoleUser ''hi'']) = Some (ls', x) \<and>
     (\<exists>m. rr_output (ex_result (fst x)) = Some (GetTextContent m))"
proof -
  let ?ls = "example_tool_state [NewTextMessage RoleUser ''hi'']"
  have iter: "driveLoop example_run_env example_core None None ?ls =
      iterate example_run_env example_core ?ls"
    by (simp add: driveLoop_def emit_def example_run_env_def example_gated_env_def example_env_def)
  obtain ls' x where run: "driveLoop example_run_env example_core None None ?ls = Some (ls', x)"
    and status: "ex_status (fst x) = ExecutionCompleted"
    unfolding iter
    by (subst (asm) iterate.simps)
      (simp add: take_turn_def ctx_Err_def checkPreRequestLimits_def
        requestTurn_def buildRequest_def xr_Count_def empty_exec_registry_def commit_response_def
        checkPostResponseLimits_def example_response_def example_run_env_def NewTextMessage_def
        GetToolUses_def zero_part_def end_turn_def finishTurn_def ask_hook_def validateTurnDecision_def
        completedExecution_def accept_candidate_def Let_def turn_defs example_defs GetTextContent_def
        fill_output_def returns_def)
  have eval: "ev_evaluate example_run_env effs m = Inr (GetTextContent m)" for effs m
    by (simp add: example_run_env_def example_gated_env_def example_env_def)
  from driveLoop_completed_accepted [OF run status] run show ?thesis unfolding eval by auto
qed

definition example_tool_env :: "string env" where
  "example_tool_env = example_gated_env
     \<lparr>ev_model := (\<lambda>_ _. Inr (example_response\<lparr>rs_message := example_assistant\<rparr>)),
      ev_hook := Some (\<lambda>_ _. Inr \<lparr>td_action = TurnStop, td_inject = []\<rparr>)\<rparr>"

lemma driveLoop_gate_first_witness:
  "\<exists>ls' x before after. driveLoop example_tool_env example_core None None
       (example_tool_state [NewTextMessage RoleUser ''hi'']) = Some (ls', x) \<and>
     ls_log ls' = before @ ExecTool (example_call ''a'' ''f'') None # after \<and>
     (\<exists>p q batch. before = p @ GateEval batch # q \<and> example_call ''a'' ''f'' \<in> set batch)"
proof -
  let ?ls = "example_tool_state [NewTextMessage RoleUser ''hi'']" and ?call = "example_call ''a'' ''f''"
  have iter: "driveLoop example_tool_env example_core None None ?ls =
      iterate example_tool_env example_core ?ls"
    by (simp add: driveLoop_def emit_def example_tool_env_def example_gated_env_def example_env_def)
  have uses: "GetToolUses example_assistant = [?call]" "m_content example_assistant \<noteq> []"
    by (simp_all add: example_assistant_def NewToolUseMessage_def GetToolUses_def zero_part_def)
  have "\<exists>ls' x req t. iterate example_tool_env example_core ?ls = Some (ls', x) \<and>
      ls_log ls' = [CtxPoll, ModelReq req, GateEval [?call], ExecTool ?call None, HookCall t]"
    by (subst iterate.simps)
      (simp add: take_turn_def ctx_Err_def checkPreRequestLimits_def uses
        requestTurn_def buildRequest_def xr_Count_def empty_exec_registry_def commit_response_def
        checkPostResponseLimits_def example_response_def example_tool_env_def
        end_turn_def finishTurn_def ask_hook_def validateTurnDecision_def
        stoppedExecution_def Let_def turn_defs example_defs
        start_collect_def remaining_def receive_def acceptCompletion_def run_handler_def xr_Execute_def
        handlerDeferral_def makeToolResultError_def result_for_def xr_Get_def
        validateToolResultIdentity_def fill_output_def returns_def)
  then obtain ls' x req t where run: "driveLoop example_tool_env example_core None None ?ls = Some (ls', x)"
    and "ls_log ls' = [CtxPoll, ModelReq req, GateEval [?call], ExecTool ?call None, HookCall t]"
    using iter by auto
  then have effs: "ls_log ls' = ls_log ?ls @ [CtxPoll, ModelReq req, GateEval [?call]] @
      ExecTool ?call None # [HookCall t]"
    by (simp add: example_tool_state_def example_state_def)
  have env: "wf_provider example_tool_env"
    "ev_gate example_tool_env = Some (\<lambda>_ calls. Inr (allowAllToolGate calls))"
    by (simp_all add: wf_provider_def example_tool_env_def example_gated_env_def example_env_def
        wf_assistant_def wf_calls_def call_ids_def example_assistant_def example_call_def)
  obtain p q batch d i where "[CtxPoll, ModelReq req, GateEval [?call]] = p @ GateEval batch # q"
    "i < length batch" "batch ! i = ?call"
    using driveLoop_gate_first [OF run env _ effs] by auto
  moreover have "ls_log ls' = [CtxPoll, ModelReq req, GateEval [?call]] @ ExecTool ?call None # [HookCall t]"
    using effs by (simp add: example_tool_state_def example_state_def)
  ultimately show ?thesis using run nth_mem by metis
qed

end
