(* ===== verification/Go_Text.thy ===== *)
theory Go_Text
  imports Go_Base
begin

text \<open>
  The parts of Go's packages \<^verbatim>\<open>strings\<close> and \<^verbatim>\<open>unicode/utf8\<close> the harness uses.  A string is the
  list of its bytes.
\<close>

subsection \<open>Trimming white space\<close>

text \<open>The encodings of the runes for which \<^verbatim>\<open>unicode.IsSpace\<close> holds.\<close>

definition space_runes :: "string list" where
  "space_runes =
    [[CHR 0x09], [CHR 0x0A], [CHR 0x0B], [CHR 0x0C], [CHR 0x0D], [CHR 0x20],
     [CHR 0xC2, CHR 0x85], [CHR 0xC2, CHR 0xA0], [CHR 0xE1, CHR 0x9A, CHR 0x80],
     [CHR 0xE2, CHR 0x80, CHR 0x80], [CHR 0xE2, CHR 0x80, CHR 0x81],
     [CHR 0xE2, CHR 0x80, CHR 0x82], [CHR 0xE2, CHR 0x80, CHR 0x83],
     [CHR 0xE2, CHR 0x80, CHR 0x84], [CHR 0xE2, CHR 0x80, CHR 0x85],
     [CHR 0xE2, CHR 0x80, CHR 0x86], [CHR 0xE2, CHR 0x80, CHR 0x87],
     [CHR 0xE2, CHR 0x80, CHR 0x88], [CHR 0xE2, CHR 0x80, CHR 0x89],
     [CHR 0xE2, CHR 0x80, CHR 0x8A], [CHR 0xE2, CHR 0x80, CHR 0xA8],
     [CHR 0xE2, CHR 0x80, CHR 0xA9], [CHR 0xE2, CHR 0x80, CHR 0xAF],
     [CHR 0xE2, CHR 0x81, CHR 0x9F], [CHR 0xE3, CHR 0x80, CHR 0x80]]"

definition leading :: "string list \<Rightarrow> string \<Rightarrow> string option" where
  "leading rs s = List.find (\<lambda>r. r \<noteq> [] \<and> take (length r) s = r) rs"

lemma leading_Some: "leading rs s = Some r \<Longrightarrow> r \<noteq> [] \<and> take (length r) s = r \<and> s \<noteq> []"
  by (auto simp: leading_def find_Some_iff)

function trim_leading :: "string list \<Rightarrow> string \<Rightarrow> string" where
  "trim_leading rs s =
     (case leading rs s of None \<Rightarrow> s | Some r \<Rightarrow> trim_leading rs (drop (length r) s))"
  by pat_completeness auto
termination
  by (relation "measure (\<lambda>(rs, s). length s)") (auto dest!: leading_Some)

declare trim_leading.simps [simp del]

definition TrimSpace :: "string \<Rightarrow> string" where
  "TrimSpace s = rev (trim_leading (map rev space_runes) (rev (trim_leading space_runes s)))"

lemma TrimSpace_example: "TrimSpace '' a b  '' = ''a b''"
  by code_simp

lemma trim_leading_length: "length (trim_leading rs s) \<le> length s"
proof (induction rs s rule: trim_leading.induct)
  case (1 rs s)
  then show ?case by (subst trim_leading.simps) (fastforce split: option.split)
qed

lemma TrimSpace_length: "length (TrimSpace s) \<le> length s"
  using trim_leading_length [of "map rev space_runes" "rev (trim_leading space_runes s)"]
    trim_leading_length [of space_runes s]
  by (simp add: TrimSpace_def)

subsection \<open>Joining\<close>

fun strings_Join :: "string \<Rightarrow> string list \<Rightarrow> string" where
  "strings_Join sep [] = ''''"
| "strings_Join sep [x] = x"
| "strings_Join sep (x # y # xs) = x @ sep @ strings_Join sep (y # xs)"

end
