(* ===== verification/Capability_Order.thy ===== *)
theory Capability_Order
  imports Go_Text "HOL-Library.Multiset"
begin

text \<open>
  The order of a capability graph (\<^verbatim>\<open>stableOrder\<close> and \<^verbatim>\<open>addEdge\<close> of
  harness/capability/capability.go): capabilities name, by ID, those that must come before and
  after them, and the order is Kahn's, always taking the earliest ready capability.

  A capability is given by its ID and its ordering; what it registers is modelled elsewhere.  Go
  iterates over a map of edges in an unspecified order: \<open>range_order\<close> is that order, any function
  that permutes.  A nil capability is None.
\<close>

record capability =
  ca_id :: string
  ca_before :: "string list"
  ca_after :: "string list"

fun index_ids ::
  "nat \<Rightarrow> (string \<rightharpoonup> nat) \<Rightarrow> capability option list \<Rightarrow> (string \<rightharpoonup> nat) result" where
  "index_ids index byID [] = Inr byID"
| "index_ids index byID (None # cs) = Inl (Plain ''capability must not be nil'')"
| "index_ids index byID (Some current # cs) =
     (if ca_id current = '''' \<or> ca_id current \<noteq> TrimSpace (ca_id current) then
        Inl (Plain ''capability ID is required'')
      else if byID (ca_id current) \<noteq> None then
        Inl (wrap_kind ErrDuplicateCapability (ca_id current))
      else index_ids (Suc index) (byID(ca_id current \<mapsto> index)) cs)"

subsection \<open>The graph\<close>

text \<open>The targets of every capability, and how many edges enter each one.\<close>

type_synonym graph = "nat list list \<times> int list"

definition addEdge :: "graph \<Rightarrow> nat \<Rightarrow> nat \<Rightarrow> graph" where
  "addEdge g source target =
     (case g of (edges, indegree) \<Rightarrow>
        if target \<in> set (edges ! source) then g
        else (edges[source := edges ! source @ [target]],
              indegree[target := indegree ! target + 1]))"

fun add_before ::
  "(string \<rightharpoonup> nat) \<Rightarrow> nat \<Rightarrow> string \<Rightarrow> graph \<Rightarrow> string list \<Rightarrow> graph result" where
  "add_before byID index i g [] = Inr g"
| "add_before byID index i g (before # rest) =
     (case byID before of
        None \<Rightarrow> Inl (wrap_kind ErrMissingOrdering (i @ '' before '' @ before))
      | Some target \<Rightarrow> add_before byID index i (addEdge g index target) rest)"

fun add_after ::
  "(string \<rightharpoonup> nat) \<Rightarrow> nat \<Rightarrow> string \<Rightarrow> graph \<Rightarrow> string list \<Rightarrow> graph result" where
  "add_after byID index i g [] = Inr g"
| "add_after byID index i g (after # rest) =
     (case byID after of
        None \<Rightarrow> Inl (wrap_kind ErrMissingOrdering (i @ '' after '' @ after))
      | Some source \<Rightarrow> add_after byID index i (addEdge g source index) rest)"

fun add_orderings ::
  "(string \<rightharpoonup> nat) \<Rightarrow> nat \<Rightarrow> graph \<Rightarrow> capability list \<Rightarrow> graph result" where
  "add_orderings byID index g [] = Inr g"
| "add_orderings byID index g (c # cs) =
     (case add_before byID index (ca_id c) g (ca_before c) of
        Inl e \<Rightarrow> Inl e
      | Inr g1 \<Rightarrow>
          (case add_after byID index (ca_id c) g1 (ca_after c) of
             Inl e \<Rightarrow> Inl e
           | Inr g2 \<Rightarrow> add_orderings byID (Suc index) g2 cs))"

subsection \<open>The loop over the ready capabilities\<close>

text \<open>Lowering the count of each target; the targets are indices of capabilities.\<close>

fun release :: "nat list \<Rightarrow> nat list \<Rightarrow> int list \<Rightarrow> nat list \<times> int list" where
  "release [] ready indegree = (ready, indegree)"
| "release (target # rest) ready indegree =
     (if target < length indegree then
        let d = indegree ! target - 1 in
        release rest (if d = 0 then ready @ [target] else ready) (indegree[target := d])
      else release rest ready indegree)"

function order_loop ::
  "(nat list \<Rightarrow> nat list) \<Rightarrow> nat list list \<Rightarrow> nat list \<Rightarrow> int list \<Rightarrow> nat list \<Rightarrow> nat list" where
  "order_loop range_order edges ready indegree result =
     (if ready = [] then result
      else let sorted = sort ready; index = hd sorted;
               (ready', indegree') = release (range_order (edges ! index)) (tl sorted) indegree
           in order_loop range_order edges ready' indegree' (result @ [index]))"
  by pat_completeness auto

text \<open>Every target made ready uses up one positive count.\<close>

definition order_work :: "nat list \<Rightarrow> int list \<Rightarrow> nat" where
  "order_work ready indegree = length ready + sum_list (map nat indegree)"

lemma sum_list_nat_update:
  "i < length xs \<Longrightarrow>
     sum_list (map nat (xs[i := x])) + nat (xs ! i) = sum_list (map nat xs) + nat x"
proof (induction xs arbitrary: i)
  case (Cons y ys)
  then show ?case by (cases i) auto
qed simp

lemma release_work:
  "release ts ready indegree = (ready', indegree') \<Longrightarrow>
     order_work ready' indegree' \<le> order_work ready indegree"
proof (induction ts ready indegree rule: release.induct)
  case (2 target rest ready indegree)
  show ?case
  proof (cases "target < length indegree")
    case True
    let ?d = "indegree ! target - 1"
    have "order_work (if ?d = 0 then ready @ [target] else ready) (indegree[target := ?d])
        \<le> order_work ready indegree"
      using sum_list_nat_update [OF True, of ?d]
      by (cases "indegree ! target = 1") (auto simp: order_work_def)
    then show ?thesis using 2 True by (fastforce simp: Let_def)
  qed (use 2 in simp)
qed simp

termination order_loop
proof (relation "measure (\<lambda>(ro, edges, ready, indegree, result). order_work ready indegree)")
  fix ro :: "nat list \<Rightarrow> nat list" and edges ready indegree and result :: "nat list"
  fix sorted index p and ready' indegree'
  assume a: "ready \<noteq> []" "sorted = sort ready" "index = hd sorted"
    "p = release (ro (edges ! index)) (tl sorted) indegree" "(ready', indegree') = p"
  then have "order_work ready' indegree' \<le> order_work (tl (sort ready)) indegree"
    using release_work by metis
  also have "\<dots> < order_work ready indegree" using a(1) by (cases ready) (simp_all add: order_work_def)
  finally show "((ro, edges, ready', indegree', result @ [index]), (ro, edges, ready, indegree, result))
      \<in> measure (\<lambda>(ro, edges, ready, indegree, result). order_work ready indegree)" by simp
qed simp

declare order_loop.simps [simp del]

definition stableOrder ::
  "(nat list \<Rightarrow> nat list) \<Rightarrow> capability option list \<Rightarrow> capability list result" where
  "stableOrder range_order capabilities =
     (case index_ids 0 Map.empty capabilities of
        Inl e \<Rightarrow> Inl e
      | Inr byID \<Rightarrow>
          let caps = map the capabilities; n = length caps in
          (case add_orderings byID 0 (replicate n [], replicate n 0) caps of
             Inl e \<Rightarrow> Inl e
           | Inr (edges, indegree) \<Rightarrow>
               let ready = filter (\<lambda>i. indegree ! i = 0) [0..<n];
                   order = order_loop range_order edges ready indegree [] in
               if length order \<noteq> n then Inl (Sentinel ErrCapabilityCycle)
               else Inr (map (\<lambda>i. caps ! i) order)))"

subsection \<open>What the order should be\<close>

definition precedes :: "capability list \<Rightarrow> (nat \<times> nat) set" where
  "precedes cs = {(i, j). i < length cs \<and> j < length cs \<and>
     (ca_id (cs ! j) \<in> set (ca_before (cs ! i)) \<or> ca_id (cs ! i) \<in> set (ca_after (cs ! j)))}"

definition names_ok :: "capability option list \<Rightarrow> bool" where
  "names_ok caps \<longleftrightarrow>
     None \<notin> set caps \<and> (\<forall>c. Some c \<in> set caps \<longrightarrow> ca_id c \<noteq> '''' \<and> TrimSpace (ca_id c) = ca_id c) \<and>
     distinct (map (ca_id \<circ> the) caps)"

definition references_ok :: "capability list \<Rightarrow> bool" where
  "references_ok cs \<longleftrightarrow> (\<forall>c \<in> set cs. set (ca_before c) \<union> set (ca_after c) \<subseteq> ca_id ` set cs)"

text \<open>The capabilities that may come next, and the order that always takes the first of them.\<close>

definition avail :: "(nat \<times> nat) set \<Rightarrow> nat \<Rightarrow> nat list \<Rightarrow> nat set" where
  "avail E n R = {j. j < n \<and> j \<notin> set R \<and> (\<forall>i. (i, j) \<in> E \<longrightarrow> i \<in> set R)}"

definition least_ready :: "(nat \<times> nat) set \<Rightarrow> nat \<Rightarrow> nat list \<Rightarrow> bool" where
  "least_ready E n R \<longleftrightarrow>
     (\<forall>k < length R. R ! k \<in> avail E n (take k R) \<and> (\<forall>j \<in> avail E n (take k R). R ! k \<le> j))"

definition stable_topological :: "(nat \<times> nat) set \<Rightarrow> nat \<Rightarrow> nat list \<Rightarrow> bool" where
  "stable_topological E n R \<longleftrightarrow> length R = n \<and> least_ready E n R"

lemma least_ready_snoc:
  "least_ready E n (R @ [x]) \<longleftrightarrow>
     least_ready E n R \<and> x \<in> avail E n R \<and> (\<forall>j \<in> avail E n R. x \<le> j)"
  by (auto simp: least_ready_def nth_append less_Suc_eq)

lemma least_ready_Nil [simp]: "least_ready E n []"
  by (simp add: least_ready_def)

lemma least_ready_facts:
  "least_ready E n R \<Longrightarrow> distinct R \<and> set R \<subseteq> {..<n} \<and> (\<forall>i j. (i, j) \<in> E \<longrightarrow> j \<in> set R \<longrightarrow> i \<in> set R)"
proof (induction R rule: rev_induct)
  case (snoc x R)
  then show ?case by (auto simp: least_ready_snoc avail_def)
qed simp

text \<open>Such an order has no two versions, and it exists only without cycles.\<close>

lemma least_ready_unique:
  "least_ready E n R \<Longrightarrow> least_ready E n R' \<Longrightarrow> length R = length R' \<Longrightarrow> R = R'"
proof (induction R arbitrary: R' rule: rev_induct)
  case (snoc x R)
  then obtain y R0 where R': "R' = R0 @ [y]" by (cases R' rule: rev_exhaust) auto
  with snoc have "R = R0" by (auto simp: least_ready_snoc)
  with snoc.prems R' show ?case by (force simp: least_ready_snoc intro: antisym)
qed simp

lemma least_ready_acyclic:
  assumes "least_ready E n R" "E \<subseteq> set R \<times> set R"
  shows "acyclic E"
proof -
  have "least_ready E n R \<Longrightarrow> E' \<subseteq> E \<inter> (set R \<times> set R) \<Longrightarrow> acyclic E'" for E'
  proof (induction R arbitrary: E' rule: rev_induct)
    case Nil
    then show ?case by (simp add: acyclic_def)
  next
    case (snoc x R)
    have prefix: "acyclic (E' \<inter> (set R \<times> set R))"
      by (rule snoc.IH) (use snoc.prems in \<open>auto simp: least_ready_snoc\<close>)
    have closed: "x \<notin> set R" "\<And>i. (i, x) \<in> E \<Longrightarrow> i \<in> set R" "\<And>i j. (i, j) \<in> E \<Longrightarrow> j \<in> set R \<Longrightarrow> i \<in> set R"
      using snoc.prems(1) least_ready_facts [of E n R] by (auto simp: least_ready_snoc avail_def)
    have x: "(x, j) \<notin> E'" for j
    proof
      assume "(x, j) \<in> E'"
      then have "(x, j) \<in> E" "j \<in> insert x (set R)" using snoc.prems(2) by auto
      then show False using closed by blast
    qed
    have path: "(a, b) \<in> E'\<^sup>+ \<Longrightarrow> a \<noteq> x \<and> (b = x \<or> (a, b) \<in> (E' \<inter> (set R \<times> set R))\<^sup>+)" for a b
    proof (induction rule: trancl_induct)
      case (base y)
      then show ?case using x snoc.prems(2) by (cases "y = x") auto
    next
      case (step y z)
      then have "y \<noteq> x" using x by blast
      then show ?case using step x snoc.prems(2)
        by (cases "z = x") (auto intro: trancl_into_trancl)
    qed
    show ?case using path prefix by (auto simp: acyclic_def)
  qed
  then show ?thesis using assms by blast
qed

subsection \<open>The loop builds it\<close>

definition graph_ok :: "nat \<Rightarrow> (nat \<times> nat) set \<Rightarrow> graph \<Rightarrow> bool" where
  "graph_ok n E g \<longleftrightarrow>
     E \<subseteq> {..<n} \<times> {..<n} \<and> length (fst g) = n \<and> length (snd g) = n \<and>
     (\<forall>i < n. distinct (fst g ! i) \<and> set (fst g ! i) = {j. (i, j) \<in> E}) \<and>
     (\<forall>j < n. snd g ! j = int (card {i. (i, j) \<in> E}))"

definition order_inv :: "nat \<Rightarrow> (nat \<times> nat) set \<Rightarrow> nat list \<Rightarrow> int list \<Rightarrow> nat list \<Rightarrow> bool" where
  "order_inv n E ready indegree R \<longleftrightarrow>
     least_ready E n R \<and> distinct ready \<and> set ready = avail E n R \<and> length indegree = n \<and>
     (\<forall>j < n. indegree ! j = int (card {i. (i, j) \<in> E \<and> i \<notin> set R}))"

lemma release_counts:
  "release ts ready d = (ready', d') \<Longrightarrow> distinct ts \<Longrightarrow> set ts \<subseteq> {..<length d} \<Longrightarrow>
     length d' = length d \<and> (\<forall>j < length d. d' ! j = d ! j - (if j \<in> set ts then 1 else 0)) \<and>
     set ready' = set ready \<union> {t \<in> set ts. d ! t = 1} \<and>
     (distinct ready \<longrightarrow> set ready \<inter> {t \<in> set ts. d ! t = 1} = {} \<longrightarrow> distinct ready')"
proof (induction ts ready d arbitrary: ready' d' rule: release.induct)
  case (2 target rest ready d)
  let ?d = "d[target := d ! target - 1]"
  let ?r = "if d ! target - 1 = 0 then ready @ [target] else ready"
  have t: "target < length d" "target \<notin> set rest" using 2(4,5) by auto
  then have step: "release rest ?r ?d = (ready', d')" using 2(3) by (simp add: Let_def)
  have "?d ! i = d ! i" if "i \<in> set rest" for i
    using t(2) that by (metis nth_list_update_neq)
  then have eq: "{i \<in> set rest. ?d ! i = 1} = {i \<in> set rest. d ! i = 1}" by auto
  have rest: "distinct rest" "set rest \<subseteq> {..<length ?d}" using 2(4,5) by auto
  note IH = 2(1) [OF t(1) refl step rest, unfolded eq]
  have counts: "\<forall>j < length d. d' ! j = d ! j - (if j \<in> set (target # rest) then 1 else 0)"
  proof (intro allI impI)
    fix j assume j: "j < length d"
    then have "d' ! j = ?d ! j - (if j \<in> set rest then 1 else 0)" using IH by simp
    then show "d' ! j = d ! j - (if j \<in> set (target # rest) then 1 else 0)"
      using t by (cases "j = target") simp_all
  qed
  have members: "set ready' = set ready \<union> {i \<in> set (target # rest). d ! i = 1}"
    using IH by (auto split: if_splits)
  have "distinct ?r \<and> set ?r \<inter> {i \<in> set rest. d ! i = 1} = {}"
    if "distinct ready" "set ready \<inter> {i \<in> set (target # rest). d ! i = 1} = {}"
    using that t(2) by auto
  then show ?case using IH counts members by simp
qed simp

lemma card_one_member: "x \<in> A \<Longrightarrow> card A = 1 \<longleftrightarrow> A = {x}"
  by (auto simp: card_1_singleton_iff)

lemma avail_step:
  assumes least: "least_ready E n R" and x: "x \<in> avail E n R" and E: "E \<subseteq> {..<n} \<times> {..<n}"
  shows "avail E n (R @ [x]) =
    (avail E n R - {x}) \<union> {t. (x, t) \<in> E \<and> card {i. (i, t) \<in> E \<and> i \<notin> set R} = 1}"
proof -
  have closed: "\<And>i j. (i, j) \<in> E \<Longrightarrow> j \<in> set R \<Longrightarrow> i \<in> set R"
    using least_ready_facts [OF least] by blast
  have xR: "x \<notin> set R" "(x, x) \<notin> E" using x by (auto simp: avail_def)
  have one: "card {i. (i, t) \<in> E \<and> i \<notin> set R} = 1 \<longleftrightarrow> (\<forall>i. (i, t) \<in> E \<longrightarrow> i \<in> set (R @ [x]))"
    if "(x, t) \<in> E" for t
  proof -
    have "x \<in> {i. (i, t) \<in> E \<and> i \<notin> set R}" using that xR by simp
    then have "card {i. (i, t) \<in> E \<and> i \<notin> set R} = 1 \<longleftrightarrow> {i. (i, t) \<in> E \<and> i \<notin> set R} = {x}"
      by (rule card_one_member)
    also have "\<dots> \<longleftrightarrow> (\<forall>i. (i, t) \<in> E \<longrightarrow> i \<in> insert x (set R))" using that xR by blast
    also have "insert x (set R) = set (R @ [x])" by simp
    finally show ?thesis .
  qed
  show ?thesis
  proof (intro set_eqI iffI)
    fix t assume t: "t \<in> avail E n (R @ [x])"
    show "t \<in> (avail E n R - {x}) \<union> {t. (x, t) \<in> E \<and> card {i. (i, t) \<in> E \<and> i \<notin> set R} = 1}"
    proof (cases "(x, t) \<in> E")
      case True
      then show ?thesis using t one [of t] unfolding avail_def by blast
    next
      case False
      have "i \<in> set R" if "(i, t) \<in> E" for i using t that False unfolding avail_def by auto
      then show ?thesis using t unfolding avail_def by auto
    qed
  next
    fix t assume "t \<in> (avail E n R - {x}) \<union> {t. (x, t) \<in> E \<and> card {i. (i, t) \<in> E \<and> i \<notin> set R} = 1}"
    then consider "t \<in> avail E n R" "t \<noteq> x"
      | "(x, t) \<in> E" "card {i. (i, t) \<in> E \<and> i \<notin> set R} = 1" by blast
    then show "t \<in> avail E n (R @ [x])"
    proof cases
      case 1
      then show ?thesis unfolding avail_def by auto
    next
      case 2
      then have t: "t < n" "t \<notin> set (R @ [x])" using E closed xR by auto
      have "\<forall>i. (i, t) \<in> E \<longrightarrow> i \<in> set (R @ [x])" using one [OF 2(1)] 2(2) by blast
      then show ?thesis using t unfolding avail_def by blast
    qed
  qed
qed

lemma order_inv_step:
  assumes inv: "order_inv n E ready d R" and g: "graph_ok n E (edges, d0)" and ready: "ready \<noteq> []"
    and perm: "mset (ro (edges ! hd (sort ready))) = mset (edges ! hd (sort ready))"
    and step: "release (ro (edges ! hd (sort ready))) (tl (sort ready)) d = (ready', d')"
  shows "order_inv n E ready' d' (R @ [hd (sort ready)])"
proof -
  let ?x = "hd (sort ready)" and ?ts = "ro (edges ! hd (sort ready))"
  have E: "E \<subseteq> {..<n} \<times> {..<n}" using g by (simp add: graph_ok_def)
  have inv': "least_ready E n R" "distinct ready" "set ready = avail E n R" "length d = n"
    "\<And>j. j < n \<Longrightarrow> d ! j = int (card {i. (i, j) \<in> E \<and> i \<notin> set R})"
    using inv by (auto simp: order_inv_def)
  have "sort ready \<noteq> []" using ready by (metis length_0_conv length_sort)
  then obtain ys where ys: "sort ready = ?x # ys" by (cases "sort ready") auto
  have "sorted (sort ready)" "distinct (sort ready)" "set (sort ready) = avail E n R"
    using inv'(2,3) by simp_all
  then have sorted: "sorted (?x # ys)" "distinct (?x # ys)" "set (?x # ys) = avail E n R"
    using ys by metis+
  then have x: "?x \<in> avail E n R" "\<forall>j \<in> avail E n R. ?x \<le> j"
    and rest: "distinct ys" "set ys = avail E n R - {?x}" unfolding sorted(3) [symmetric] by auto
  have xn: "?x < n" "?x \<notin> set R" using x(1) by (auto simp: avail_def)
  have ts: "distinct ?ts" "set ?ts = {j. (?x, j) \<in> E}"
    using g xn mset_eq_setD [OF perm] mset_eq_imp_distinct_iff [OF perm]
    by (auto simp: graph_ok_def)
  have bound: "set ?ts \<subseteq> {..<length d}" using ts E inv'(4) by auto
  have step': "release ?ts ys d = (ready', d')" using step ys by (metis list.sel(3))
  have counts: "length d' = n" "\<And>j. j < n \<Longrightarrow> d' ! j = d ! j - (if (?x, j) \<in> E then 1 else 0)"
    "set ready' = set ys \<union> {t \<in> set ?ts. d ! t = 1}"
    "set ys \<inter> {t \<in> set ?ts. d ! t = 1} = {} \<Longrightarrow> distinct ready'"
    using release_counts [OF step' ts(1) bound] inv'(4) ts(2) rest(1) by auto
  have one: "{t \<in> set ?ts. d ! t = 1} = {t. (?x, t) \<in> E \<and> card {i. (i, t) \<in> E \<and> i \<notin> set R} = 1}"
    using ts(2) inv'(5) E by auto
  have "set ready' = avail E n (R @ [?x])"
    using counts(3) rest(2) one avail_step [OF inv'(1) x(1) E] by simp
  moreover have "set ys \<inter> {t \<in> set ?ts. d ! t = 1} = {}"
    using rest(2) ts(2) xn(2) by (auto simp: avail_def)
  moreover have "d' ! j = int (card {i. (i, j) \<in> E \<and> i \<notin> set (R @ [?x])})" if j: "j < n" for j
  proof (cases "(?x, j) \<in> E")
    case True
    have "{i. (i, j) \<in> E \<and> i \<notin> set R} = insert ?x {i. (i, j) \<in> E \<and> i \<notin> set (R @ [?x])}"
      using True xn by auto
    moreover have "finite {i. (i, j) \<in> E \<and> i \<notin> set (R @ [?x])}"
      using E by (auto intro: finite_subset [of _ "{..<n}"])
    ultimately have "card {i. (i, j) \<in> E \<and> i \<notin> set R} =
        Suc (card {i. (i, j) \<in> E \<and> i \<notin> set (R @ [?x])})" by simp
    then show ?thesis using counts(2) [OF j] inv'(5) [OF j] True by simp
  next
    case False
    then have "{i. (i, j) \<in> E \<and> i \<notin> set R} = {i. (i, j) \<in> E \<and> i \<notin> set (R @ [?x])}" by auto
    then show ?thesis using counts(2) [OF j] inv'(5) [OF j] False by simp
  qed
  ultimately show ?thesis
    using inv'(1) x counts(1,4) by (simp add: order_inv_def least_ready_snoc)
qed

lemma order_loop_inv:
  "(\<And>xs. mset (ro xs) = mset xs) \<Longrightarrow> graph_ok n E (edges, d0) \<Longrightarrow> order_inv n E ready d R \<Longrightarrow>
    least_ready E n (order_loop ro edges ready d R) \<and> avail E n (order_loop ro edges ready d R) = {}"
proof (induction ro edges ready d R rule: order_loop.induct)
  case (1 ro edges ready d R)
  show ?case
  proof (cases "ready = []")
    case True
    then have "order_loop ro edges ready d R = R" by (simp add: order_loop.simps)
    then show ?thesis using "1.prems"(3) True by (auto simp: order_inv_def)
  next
    case False
    obtain ready' d' where step: "release (ro (edges ! hd (sort ready))) (tl (sort ready)) d = (ready', d')"
      by fastforce
    have loop: "order_loop ro edges ready d R = order_loop ro edges ready' d' (R @ [hd (sort ready)])"
      using False step by (simp add: order_loop.simps [of ro edges ready d R] Let_def)
    have inv: "order_inv n E ready' d' (R @ [hd (sort ready)])"
      by (rule order_inv_step [where ro = ro, OF "1.prems"(3,2) False "1.prems"(1) step])
    show ?thesis unfolding loop
      by (rule "1.IH" [OF False refl refl step [symmetric] refl "1.prems"(1,2) inv])
  qed
qed

subsection \<open>The graph is the declared relation\<close>

lemma graph_ok_addEdge:
  assumes g: "graph_ok n E g" and "s < n" "t < n"
  shows "graph_ok n (insert (s, t) E) (addEdge g s t)"
proof -
  obtain edges d where gd: "g = (edges, d)" by fastforce
  have ok: "E \<subseteq> {..<n} \<times> {..<n}" "length edges = n" "length d = n"
    "\<And>i. i < n \<Longrightarrow> distinct (edges ! i)" "\<And>i. i < n \<Longrightarrow> set (edges ! i) = {j. (i, j) \<in> E}"
    "\<And>j. j < n \<Longrightarrow> d ! j = int (card {i. (i, j) \<in> E})"
    using g gd by (auto simp: graph_ok_def)
  show ?thesis
  proof (cases "(s, t) \<in> E")
    case True
    then have "addEdge g s t = g" "insert (s, t) E = E"
      using ok(5) [OF assms(2)] by (auto simp: addEdge_def gd)
    then show ?thesis using g by simp
  next
    case False
    then have add: "addEdge g s t = (edges[s := edges ! s @ [t]], d[t := d ! t + 1])"
      using ok(5) [OF assms(2)] by (auto simp: addEdge_def gd)
    have fin: "finite {i. (i, t) \<in> E}" using ok(1) by (auto intro: finite_subset [of _ "{..<n}"])
    have "{i. (i, t) \<in> insert (s, t) E} = insert s {i. (i, t) \<in> E}" by auto
    then have card: "card {i. (i, t) \<in> insert (s, t) E} = Suc (card {i. (i, t) \<in> E})"
      using fin False by simp
    have same: "{i. (i, j) \<in> insert (s, t) E} = {i. (i, j) \<in> E}" if "j \<noteq> t" for j using that by auto
    have counts: "d[t := d ! t + 1] ! j = int (card {i. (i, j) \<in> insert (s, t) E})" if "j < n" for j
      using that card ok(3) ok(6) [OF that] same [of j] by (cases "j = t") simp_all
    have "distinct (edges[s := edges ! s @ [t]] ! i) \<and>
        set (edges[s := edges ! s @ [t]] ! i) = {j. (i, j) \<in> insert (s, t) E}" if "i < n" for i
      using that ok(2) ok(4) [OF that] ok(5) [OF that] False by (cases "i = s") auto
    then show ?thesis using counts ok(1-3) assms(2,3) unfolding graph_ok_def add by auto
  qed
qed

fun edge_set :: "(string \<rightharpoonup> nat) \<Rightarrow> nat \<Rightarrow> capability list \<Rightarrow> (nat \<times> nat) set" where
  "edge_set byID index [] = {}"
| "edge_set byID index (c # cs) =
     {(index, t) |t. \<exists>b \<in> set (ca_before c). byID b = Some t} \<union>
     {(s, index) |s. \<exists>a \<in> set (ca_after c). byID a = Some s} \<union> edge_set byID (Suc index) cs"

lemma add_before_dom: "add_before byID index i g names = Inr g' \<Longrightarrow> set names \<subseteq> dom byID"
  by (induction names arbitrary: g) (auto split: option.splits)

lemma add_after_dom: "add_after byID index i g names = Inr g' \<Longrightarrow> set names \<subseteq> dom byID"
  by (induction names arbitrary: g) (auto split: option.splits)

lemma add_before_ok:
  "graph_ok n E g \<Longrightarrow> index < n \<Longrightarrow> ran byID \<subseteq> {..<n} \<Longrightarrow>
     (\<exists>g'. add_before byID index i g names = Inr g' \<and>
        graph_ok n (E \<union> {(index, t) |t. \<exists>b \<in> set names. byID b = Some t}) g')
     \<longleftrightarrow> set names \<subseteq> dom byID"
proof (induction names arbitrary: E g)
  case (Cons b names)
  show ?case
  proof (cases "byID b")
    case None
    then show ?thesis by auto
  next
    case (Some t)
    then have "t < n" using Cons.prems(3) by (auto intro: ranI)
    then have g: "graph_ok n (insert (index, t) E) (addEdge g index t)"
      using graph_ok_addEdge Cons.prems by blast
    have "insert (index, t) E \<union> {(index, t) |t. \<exists>b \<in> set names. byID b = Some t} =
        E \<union> {(index, t) |t. \<exists>b \<in> set (b # names). byID b = Some t}" using Some by auto
    then show ?thesis using Cons.IH [OF g Cons.prems(2,3)] Some by (simp add: domIff)
  qed
qed simp

lemma add_after_ok:
  "graph_ok n E g \<Longrightarrow> index < n \<Longrightarrow> ran byID \<subseteq> {..<n} \<Longrightarrow>
     (\<exists>g'. add_after byID index i g names = Inr g' \<and>
        graph_ok n (E \<union> {(s, index) |s. \<exists>a \<in> set names. byID a = Some s}) g')
     \<longleftrightarrow> set names \<subseteq> dom byID"
proof (induction names arbitrary: E g)
  case (Cons a names)
  show ?case
  proof (cases "byID a")
    case None
    then show ?thesis by auto
  next
    case (Some s)
    then have "s < n" using Cons.prems(3) by (auto intro: ranI)
    then have g: "graph_ok n (insert (s, index) E) (addEdge g s index)"
      using graph_ok_addEdge Cons.prems by blast
    have "insert (s, index) E \<union> {(s, index) |s. \<exists>a \<in> set names. byID a = Some s} =
        E \<union> {(s, index) |s. \<exists>a \<in> set (a # names). byID a = Some s}" using Some by auto
    then show ?thesis using Cons.IH [OF g Cons.prems(2,3)] Some by (simp add: domIff)
  qed
qed simp

lemma add_orderings_ok:
  "graph_ok n E g \<Longrightarrow> index + length cs \<le> n \<Longrightarrow> ran byID \<subseteq> {..<n} \<Longrightarrow>
     (\<exists>g'. add_orderings byID index g cs = Inr g' \<and> graph_ok n (E \<union> edge_set byID index cs) g')
     \<longleftrightarrow> (\<forall>c \<in> set cs. set (ca_before c) \<union> set (ca_after c) \<subseteq> dom byID)"
proof (induction cs arbitrary: index E g)
  case (Cons c cs)
  have index: "index < n" using Cons.prems(2) by simp
  let ?B = "{(index, t) |t. \<exists>b \<in> set (ca_before c). byID b = Some t}"
  let ?A = "{(s, index) |s. \<exists>a \<in> set (ca_after c). byID a = Some s}"
  show ?case
  proof (cases "set (ca_before c) \<union> set (ca_after c) \<subseteq> dom byID")
    case True
    then obtain g1 where g1: "add_before byID index (ca_id c) g (ca_before c) = Inr g1"
      "graph_ok n (E \<union> ?B) g1"
      using add_before_ok [OF Cons.prems(1) index Cons.prems(3)] by blast
    from True obtain g2 where g2: "add_after byID index (ca_id c) g1 (ca_after c) = Inr g2"
      "graph_ok n (E \<union> ?B \<union> ?A) g2"
      using add_after_ok [OF g1(2) index Cons.prems(3)] by blast
    have set_eq: "E \<union> ?B \<union> ?A \<union> edge_set byID (Suc index) cs = E \<union> edge_set byID index (c # cs)" by auto
    have "Suc index + length cs \<le> n" using Cons.prems(2) by simp
    from Cons.IH [OF g2(2) this Cons.prems(3)] show ?thesis
      unfolding set_eq using g1(1) g2(1) True by simp
  next
    case False
    then have "\<nexists>g'. add_orderings byID index g (c # cs) = Inr g'"
      by (auto split: sum.splits dest!: add_before_dom add_after_dom)
    then show ?thesis using False by auto
  qed
qed simp

lemma add_orderings_dom:
  "add_orderings byID index g cs = Inr g' \<Longrightarrow>
     \<forall>c \<in> set cs. set (ca_before c) \<union> set (ca_after c) \<subseteq> dom byID"
proof (induction cs arbitrary: index g)
  case (Cons c cs)
  then obtain g1 g2 where "add_before byID index (ca_id c) g (ca_before c) = Inr g1"
    "add_after byID index (ca_id c) g1 (ca_after c) = Inr g2"
    "add_orderings byID (Suc index) g2 cs = Inr g'"
    by (auto split: sum.splits)
  then show ?case
    using Cons.IH [of "Suc index" g2] add_before_dom [of byID index "ca_id c" g "ca_before c" g1]
      add_after_dom [of byID index "ca_id c" g1 "ca_after c" g2] by simp
qed simp

text \<open>The index of the names.\<close>

lemma index_ids_Inr:
  "index_ids k m (map Some cs) = Inr byID \<longleftrightarrow>
     (\<forall>c \<in> set cs. ca_id c \<noteq> '''' \<and> TrimSpace (ca_id c) = ca_id c \<and> m (ca_id c) = None) \<and>
     distinct (map ca_id cs) \<and> byID = m ++ map_of (zip (map ca_id cs) [k..<k + length cs])"
proof (induction cs arbitrary: k m)
  case (Cons c cs)
  have upt: "[k..<k + length (c # cs)] = k # [Suc k..<Suc k + length cs]"
    by (simp add: upt_rec)
  have "m(ca_id c \<mapsto> k) ++ map_of (zip (map ca_id cs) [Suc k..<Suc k + length cs]) =
      m ++ map_of (zip (map ca_id (c # cs)) [k..<k + length (c # cs)])" if "ca_id c \<notin> set (map ca_id cs)"
  proof -
    have "ca_id c \<notin> dom (map_of (zip (map ca_id cs) [Suc k..<Suc k + length cs]))"
      using that by (simp add: dom_map_of_zip)
    then have "(m ++ map_of (zip (map ca_id cs) [Suc k..<Suc k + length cs]))(ca_id c \<mapsto> k) =
        m(ca_id c \<mapsto> k) ++ map_of (zip (map ca_id cs) [Suc k..<Suc k + length cs])"
      by (rule map_add_upd_left [symmetric])
    then show ?thesis unfolding upt by simp
  qed
  note maps = this
  show ?case
  proof (cases "ca_id c \<noteq> '''' \<and> TrimSpace (ca_id c) = ca_id c \<and> m (ca_id c) = None")
    case True
    then have step: "index_ids k m (map Some (c # cs)) =
        index_ids (Suc k) (m(ca_id c \<mapsto> k)) (map Some cs)" by simp
    show ?thesis
    proof (cases "ca_id c \<in> set (map ca_id cs)")
      case True
      then have "\<exists>c' \<in> set cs. (m(ca_id c \<mapsto> k)) (ca_id c') \<noteq> None" by auto
      then show ?thesis unfolding step Cons.IH using True by auto
    next
      case False
      then have "(\<forall>c' \<in> set cs. (m(ca_id c \<mapsto> k)) (ca_id c') = None) \<longleftrightarrow>
          (\<forall>c' \<in> set cs. m (ca_id c') = None)" by (auto simp: image_iff)
      then show ?thesis unfolding step Cons.IH maps [OF False] using True False by auto
    qed
  qed auto
qed auto

lemma index_ids_None: "None \<in> set caps \<Longrightarrow> \<exists>e. index_ids k m caps = Inl e"
  by (induction k m caps rule: index_ids.induct) auto

definition name_index :: "capability list \<Rightarrow> (string \<rightharpoonup> nat)" where
  "name_index cs = map_of (zip (map ca_id cs) [0..<length cs])"

lemma name_index_Some:
  assumes "distinct (map ca_id cs)"
  shows "name_index cs s = Some j \<longleftrightarrow> j < length cs \<and> ca_id (cs ! j) = s"
proof -
  have "distinct (map fst (zip (map ca_id cs) [0..<length cs]))" using assms by simp
  then have "name_index cs s = Some j \<longleftrightarrow> (s, j) \<in> set (zip (map ca_id cs) [0..<length cs])"
    by (simp add: name_index_def)
  also have "\<dots> \<longleftrightarrow> j < length cs \<and> ca_id (cs ! j) = s"
    unfolding set_zip by (auto intro: exI [of _ j])
  finally show ?thesis .
qed

lemma name_index_dom: "dom (name_index cs) = ca_id ` set cs"
  by (simp add: name_index_def dom_map_of_zip)

lemma edge_set_iff:
  "(i, t) \<in> edge_set byID k cs \<longleftrightarrow>
     (\<exists>j < length cs. i = k + j \<and> (\<exists>b \<in> set (ca_before (cs ! j)). byID b = Some t)) \<or>
     (\<exists>j < length cs. t = k + j \<and> (\<exists>a \<in> set (ca_after (cs ! j)). byID a = Some i))"
proof (induction cs arbitrary: k)
  case (Cons c cs)
  have ex: "(\<exists>j < length (c # cs). P j) \<longleftrightarrow> P 0 \<or> (\<exists>j < length cs. P (Suc j))" for P
    by (auto simp: less_Suc_eq_0_disj)
  show ?case unfolding ex using Cons.IH [of "Suc k"] by simp blast
qed simp

lemma edge_set_precedes:
  assumes "distinct (map ca_id cs)"
  shows "edge_set (name_index cs) 0 cs = precedes cs"
  by (auto simp: edge_set_iff precedes_def name_index_Some [OF assms])

lemma names_ok_index:
  "names_ok caps \<longleftrightarrow> index_ids 0 Map.empty caps = Inr (name_index (map the caps))"
  "\<not> names_ok caps \<Longrightarrow> \<exists>e. index_ids 0 Map.empty caps = Inl e"
proof -
  have some: "\<exists>cs. caps = map Some cs" if "None \<notin> set caps"
    using that by (intro exI [of _ "map the caps"]) (auto simp: list_eq_iff_nth_eq in_set_conv_nth)
  have iff: "names_ok caps \<longleftrightarrow> (\<exists>byID. index_ids 0 Map.empty caps = Inr byID)"
    and eq: "index_ids 0 Map.empty caps = Inr byID \<Longrightarrow> byID = name_index (map the caps)" for byID
  proof -
    show "names_ok caps \<longleftrightarrow> (\<exists>byID. index_ids 0 Map.empty caps = Inr byID)"
    proof (cases "None \<in> set caps")
      case True
      then show ?thesis using index_ids_None [of caps 0 Map.empty] by (auto simp: names_ok_def)
    next
      case False
      then obtain cs where "caps = map Some cs" using some by blast
      then show ?thesis using index_ids_Inr [of 0 Map.empty cs] by (auto simp: names_ok_def comp_def)
    qed
    show "byID = name_index (map the caps)" if "index_ids 0 Map.empty caps = Inr byID"
    proof -
      have "None \<notin> set caps" using that index_ids_None [of caps 0 Map.empty] by auto
      then obtain cs where "caps = map Some cs" using some by blast
      then show ?thesis using that index_ids_Inr [of 0 Map.empty cs] by (simp add: name_index_def comp_def)
    qed
  qed
  show "names_ok caps \<longleftrightarrow> index_ids 0 Map.empty caps = Inr (name_index (map the caps))"
    using iff eq by auto
  show "\<not> names_ok caps \<Longrightarrow> \<exists>e. index_ids 0 Map.empty caps = Inl e"
    using iff by (cases "index_ids 0 Map.empty caps") auto
qed

subsection \<open>The order\<close>

lemma order_inv_start:
  assumes "graph_ok n E (edges, d)"
  shows "order_inv n E (filter (\<lambda>i. d ! i = 0) [0..<n]) d []"
proof -
  have ok: "E \<subseteq> {..<n} \<times> {..<n}" "length d = n" "\<And>j. j < n \<Longrightarrow> d ! j = int (card {i. (i, j) \<in> E})"
    using assms by (auto simp: graph_ok_def)
  have "finite {i. (i, j) \<in> E}" for j
    using ok(1) by (auto intro: finite_subset [of _ "{..<n}"])
  then have "d ! j = 0 \<longleftrightarrow> (\<forall>i. (i, j) \<notin> E)" if "j < n" for j using ok(3) [OF that] by auto
  then show ?thesis using ok by (auto simp: order_inv_def avail_def)
qed

lemma complete_least_ready:
  assumes least: "least_ready E n R" and none: "avail E n R = {}" and E: "E \<subseteq> {..<n} \<times> {..<n}"
  shows "length R = n \<longleftrightarrow> acyclic E"
proof
  note R = least_ready_facts [OF least]
  {
    assume "length R = n"
    then have "set R = {..<n}" using R distinct_card [of R] by (metis card_lessThan card_subset_eq finite_lessThan)
    then show "acyclic E" using least_ready_acyclic [OF least] E by simp
  next
    assume "acyclic E"
    moreover have "finite E" using E by (rule finite_subset) simp
    ultimately have wf: "wf E" by (simp add: wf_iff_acyclic_if_finite)
    have "j \<in> set R" if "j < n" for j
      using wf that
    proof (induction j rule: wf_induct_rule)
      case (less j)
      have "i \<in> set R" if "(i, j) \<in> E" for i using less.IH [OF that] that E by auto
      then show ?case using less.prems none by (auto simp: avail_def)
    qed
    then have "set R = {..<n}" using R by auto
    then show "length R = n" using R distinct_card [of R] by simp
  }
qed

lemma stable_topological_acyclic:
  "stable_topological E n R \<Longrightarrow> E \<subseteq> {..<n} \<times> {..<n} \<Longrightarrow> acyclic E"
proof -
  assume st: "stable_topological E n R" and E: "E \<subseteq> {..<n} \<times> {..<n}"
  then have R: "least_ready E n R" "length R = n" by (auto simp: stable_topological_def)
  then have "set R = {..<n}" using least_ready_facts [OF R(1)] distinct_card [of R]
    by (metis card_lessThan card_subset_eq finite_lessThan)
  then show "acyclic E" using least_ready_acyclic [OF R(1)] E by simp
qed

lemma precedes_bound: "precedes cs \<subseteq> {..<length cs} \<times> {..<length cs}"
  by (auto simp: precedes_def)

lemma stableOrder_named:
  assumes ro: "\<And>xs. mset (ro xs) = mset xs" and ok: "names_ok caps" "references_ok (map the caps)"
  defines "E \<equiv> precedes (map the caps)"
  shows "if acyclic E then \<exists>R. stable_topological E (length caps) R \<and>
            stableOrder ro caps = Inr (map (\<lambda>i. the (caps ! i)) R)
         else stableOrder ro caps = Inl (Sentinel ErrCapabilityCycle)"
proof -
  let ?cs = "map the caps" and ?n = "length caps"
  have dist: "distinct (map ca_id ?cs)" using ok(1) by (simp add: names_ok_def)
  have E: "E \<subseteq> {..<?n} \<times> {..<?n}" using precedes_bound [of ?cs] by (simp add: E_def)
  have "graph_ok ?n {} (replicate ?n [], replicate ?n 0)" by (simp add: graph_ok_def)
  moreover have "ran (name_index ?cs) \<subseteq> {..<?n}"
    by (auto simp: ran_def name_index_Some [OF dist])
  ultimately obtain edges d where g: "add_orderings (name_index ?cs) 0 (replicate ?n [], replicate ?n 0) ?cs =
      Inr (edges, d)" "graph_ok ?n E (edges, d)"
    using add_orderings_ok [of ?n "{}" "(replicate ?n [], replicate ?n 0)" 0 ?cs "name_index ?cs"] ok(2)
      edge_set_precedes [OF dist] name_index_dom [of ?cs]
    by (auto simp: references_ok_def E_def)
  let ?R = "order_loop ro edges (filter (\<lambda>i. d ! i = 0) [0..<?n]) d []"
  have R: "least_ready E ?n ?R" "avail E ?n ?R = {}"
    using order_loop_inv [of ro, OF ro g(2) order_inv_start [OF g(2)]] by auto
  have out: "stableOrder ro caps = (if length ?R \<noteq> ?n then Inl (Sentinel ErrCapabilityCycle)
      else Inr (map (\<lambda>i. ?cs ! i) ?R))"
    using ok(1) g(1) names_ok_index(1) [of caps] by (simp add: stableOrder_def Let_def)
  have "map (\<lambda>i. ?cs ! i) ?R = map (\<lambda>i. the (caps ! i)) ?R"
    using least_ready_facts [OF R(1)] by auto
  then show ?thesis using out complete_least_ready [OF R E] R(1)
    by (auto simp: stable_topological_def)
qed

lemma stableOrder_bad:
  assumes "\<not> (names_ok caps \<and> references_ok (map the caps))"
  shows "\<exists>e. stableOrder ro caps = Inl e"
proof (cases "names_ok caps")
  case False
  then show ?thesis using names_ok_index(2) [OF False] by (auto simp: stableOrder_def)
next
  case True
  let ?cs = "map the caps" and ?n = "length caps"
  have dist: "distinct (map ca_id ?cs)" using True by (simp add: names_ok_def)
  have "graph_ok ?n {} (replicate ?n [], replicate ?n 0)" by (simp add: graph_ok_def)
  moreover have "ran (name_index ?cs) \<subseteq> {..<?n}"
    by (auto simp: ran_def name_index_Some [OF dist])
  moreover have "\<not> (\<forall>c \<in> set ?cs. set (ca_before c) \<union> set (ca_after c) \<subseteq> dom (name_index ?cs))"
    using assms True name_index_dom [of ?cs] unfolding references_ok_def by blast
  ultimately have "add_orderings (name_index ?cs) 0 (replicate ?n [], replicate ?n 0) ?cs \<noteq> Inr g" for g
    using add_orderings_dom by blast
  then show ?thesis using True names_ok_index(1) [of caps]
    by (cases "add_orderings (name_index ?cs) 0 (replicate ?n [], replicate ?n 0) ?cs")
      (auto simp: stableOrder_def Let_def)
qed

text \<open>
  C39. The order of a capability graph exists exactly when the IDs are proper and distinct, every
  ordering names a capability and there is no cycle; it then is the one topological order that
  takes the earliest ready capability at each step, whatever order Go iterates over the edges in.
  With proper names, a cycle is reported as such.
\<close>

theorem stableOrder_decides:
  assumes ro: "\<And>xs. mset (range_order xs) = mset xs"
  shows "(stableOrder range_order caps = Inr out \<longleftrightarrow>
      names_ok caps \<and> references_ok (map the caps) \<and>
      (\<exists>R. stable_topological (precedes (map the caps)) (length caps) R \<and>
         out = map (\<lambda>i. the (caps ! i)) R)) \<and>
    (names_ok caps \<longrightarrow> references_ok (map the caps) \<longrightarrow> \<not> acyclic (precedes (map the caps)) \<longrightarrow>
      stableOrder range_order caps = Inl (Sentinel ErrCapabilityCycle))"
proof (cases "names_ok caps \<and> references_ok (map the caps)")
  case False
  then show ?thesis using stableOrder_bad [OF False, of range_order] by auto
next
  case ok: True
  let ?E = "precedes (map the caps)"
  have bound: "?E \<subseteq> {..<length caps} \<times> {..<length caps}" using precedes_bound [of "map the caps"] by simp
  note order = stableOrder_named [of range_order, OF ro conjunct1 [OF ok] conjunct2 [OF ok]]
  show ?thesis
  proof (cases "acyclic ?E")
    case True
    then obtain R where R: "stable_topological ?E (length caps) R"
      "stableOrder range_order caps = Inr (map (\<lambda>i. the (caps ! i)) R)" using order by auto
    have "R' = R" if "stable_topological ?E (length caps) R'" for R'
      using that R(1) least_ready_unique [of ?E "length caps" R' R] by (simp add: stable_topological_def)
    then have "(\<exists>R'. stable_topological ?E (length caps) R' \<and> out = map (\<lambda>i. the (caps ! i)) R') \<longleftrightarrow>
        out = map (\<lambda>i. the (caps ! i)) R" using R(1) by blast
    then show ?thesis using ok True R(2) by auto
  next
    case False
    then show ?thesis using ok order stable_topological_acyclic [OF _ bound] by auto
  qed
qed

definition example_capabilities :: "capability option list" where
  "example_capabilities =
     [Some \<lparr>ca_id = ''skills'', ca_before = [], ca_after = [''memory'']\<rparr>,
      Some \<lparr>ca_id = ''permission'', ca_before = [''skills'', ''memory''], ca_after = []\<rparr>,
      Some \<lparr>ca_id = ''memory'', ca_before = [], ca_after = []\<rparr>]"


lemma example_names: "names_ok example_capabilities"
proof -
  have "TrimSpace ''skills'' = ''skills''" "TrimSpace ''permission'' = ''permission''"
    "TrimSpace ''memory'' = ''memory''"
    by code_simp+
  then show ?thesis by (simp add: names_ok_def example_capabilities_def)
qed

lemma example_graph:
  "add_orderings (name_index (map the example_capabilities)) 0 (replicate 3 [], replicate 3 0)
     (map the example_capabilities) = Inr ([[], [0, 2], [0]], [2, 0, 1])"
  by code_simp

lemma example_loop: "order_loop rev [[], [0, 2], [0]] [1] [2, 0, 1] [] = [1, 2, 0]"
  by code_simp

lemma stableOrder_decides_witness:
  "names_ok example_capabilities \<and> references_ok (map the example_capabilities) \<and>
   (\<exists>R. stable_topological (precedes (map the example_capabilities)) 3 R \<and>
     [''permission'', ''memory'', ''skills''] = map (\<lambda>i. ca_id (the (example_capabilities ! i))) R)"
proof -
  have length: "length example_capabilities = 3" by (simp add: example_capabilities_def)
  have "stableOrder rev example_capabilities =
      Inr (map (\<lambda>i. map the example_capabilities ! i) [1, 2, 0])"
    using names_ok_index(1) [of example_capabilities] example_names example_graph example_loop length
    by (simp add: stableOrder_def Let_def upt_rec numeral_3_eq_3)
  then obtain R where R: "names_ok example_capabilities" "references_ok (map the example_capabilities)"
    "stable_topological (precedes (map the example_capabilities)) 3 R"
    "map (\<lambda>i. map the example_capabilities ! i) [1, 2, 0] = map (\<lambda>i. the (example_capabilities ! i)) R"
    using stableOrder_decides [of rev example_capabilities "map (\<lambda>i. map the example_capabilities ! i) [1, 2, 0]"]
    unfolding length by auto
  have "[''permission'', ''memory'', ''skills''] = map ca_id (map (\<lambda>i. map the example_capabilities ! i) [1, 2, 0])"
    by (simp add: example_capabilities_def)
  also have "\<dots> = map (\<lambda>i. ca_id (the (example_capabilities ! i))) R"
    unfolding R(4) by simp
  finally show ?thesis using R(1-3) by (intro conjI exI [of _ R])
qed

end
