(* ===== verification/Session_Commands.thy ===== *)
theory Session_Commands
  imports Go_Base "HOL-Library.Word"
begin

text \<open>
  The commands of a session (harness/sessionloop/command.go, input.go, event.go, acceptance.go) and
  the immutable delivery command the actor keeps (harness/sessionloop/actor/mailbox.go).

  A Go string type with constants is a datatype whose last constructor holds every other string.
  Raw JSON is its bytes; whether bytes are one JSON value is the parameter \<open>json_valid\<close>.  The
  \<^verbatim>\<open>Clone\<close> methods copy a value and are identities.
\<close>

datatype command_kind =
    CommandStart | CommandSteer | CommandFollowUp | CommandNextTurn | CommandResolve
  | CommandInterrupt | CommandKindOther string

fun command_kind_text :: "command_kind \<Rightarrow> string" where
  "command_kind_text CommandStart = ''start''"
| "command_kind_text CommandSteer = ''steer''"
| "command_kind_text CommandFollowUp = ''follow_up''"
| "command_kind_text CommandNextTurn = ''next_turn''"
| "command_kind_text CommandResolve = ''resolve''"
| "command_kind_text CommandInterrupt = ''interrupt''"
| "command_kind_text (CommandKindOther s) = s"

datatype input_block_kind = InputBlockText | InputBlockData | InputBlockOther string

fun input_block_kind_text :: "input_block_kind \<Rightarrow> string" where
  "input_block_kind_text InputBlockText = ''text''"
| "input_block_kind_text InputBlockData = ''data''"
| "input_block_kind_text (InputBlockOther s) = s"

record input_block =
  ib_kind :: input_block_kind
  ib_text :: string
  ib_media_type :: string
  ib_data :: string

record session_input =
  si_blocks :: "input_block list"
  si_meta :: "(string \<times> string) list"

datatype resolution_action =
  ResolutionApprove | ResolutionDeny | ResolutionExternalResult | ResolutionOther string

fun resolution_action_text :: "resolution_action \<Rightarrow> string" where
  "resolution_action_text ResolutionApprove = ''approve''"
| "resolution_action_text ResolutionDeny = ''deny''"
| "resolution_action_text ResolutionExternalResult = ''external_result''"
| "resolution_action_text (ResolutionOther s) = s"

record resolution_decision =
  xd_id :: string
  xd_action :: resolution_action
  xd_data :: string
  xd_reason :: string

record resolution =
  rx_suspension_id :: string
  rx_decisions :: "resolution_decision list"

record session_command =
  sk_id :: string
  sk_kind :: command_kind
  sk_run_id :: string
  sk_input :: "session_input option"
  sk_resolution :: "resolution option"
  sk_idempotency_key :: string

definition invalid_command :: "string \<Rightarrow> go_error" where
  "invalid_command s = wrap_cause s (Sentinel ErrInvalidCommand)"

subsection \<open>Validation\<close>

fun validate_decisions ::
  "(string \<Rightarrow> bool) \<Rightarrow> nat \<Rightarrow> resolution_decision list \<Rightarrow> go_error option" where
  "validate_decisions json_valid index [] = None"
| "validate_decisions json_valid index (d # ds) =
     (if xd_id d = '''' then
        Some (invalid_command (''resolution decision '' @ show_nat index @ '' requires the decision ID''))
      else if (case xd_action d of ResolutionOther _ \<Rightarrow> True | _ \<Rightarrow> False) then
        Some (invalid_command (''resolution decision '' @ quote (xd_id d) @ '' has unknown action '' @
          quote (resolution_action_text (xd_action d))))
      else if xd_data d \<noteq> '''' \<and> \<not> json_valid (xd_data d) then
        Some (invalid_command (''resolution decision '' @ quote (xd_id d) @
          '' data must be one complete JSON value''))
      else validate_decisions json_valid (Suc index) ds)"

definition resolution_validate :: "(string \<Rightarrow> bool) \<Rightarrow> resolution \<Rightarrow> go_error option" where
  "resolution_validate json_valid r =
     (if rx_suspension_id r = '''' then
        Some (invalid_command ''resolution requires the exact suspension ID'')
      else validate_decisions json_valid 0 (rx_decisions r))"

definition Validate :: "(string \<Rightarrow> bool) \<Rightarrow> session_command \<Rightarrow> go_error option" where
  "Validate json_valid c =
     (case sk_kind c of
        CommandStart \<Rightarrow>
          if sk_run_id c \<noteq> '''' then Some (invalid_command ''start command must not target a run'')
          else if sk_input c = None then Some (invalid_command ''start command requires an input'')
          else if sk_resolution c \<noteq> None then
            Some (invalid_command ''start command must not carry a resolution'')
          else None
      | CommandNextTurn \<Rightarrow>
          if sk_run_id c \<noteq> '''' then
            Some (invalid_command ''next_turn command is session-targeted and must not name a run'')
          else if sk_input c = None then Some (invalid_command ''next_turn command requires an input'')
          else if sk_resolution c \<noteq> None then
            Some (invalid_command ''next_turn command must not carry a resolution'')
          else None
      | CommandResolve \<Rightarrow>
          if sk_run_id c = '''' then Some (invalid_command ''resolve command requires the target run'')
          else (case sk_resolution c of
                  None \<Rightarrow> Some (invalid_command ''resolve command requires a resolution'')
                | Some r \<Rightarrow> resolution_validate json_valid r)
      | CommandInterrupt \<Rightarrow>
          if sk_run_id c = '''' then Some (invalid_command ''interrupt command requires the target run'')
          else if sk_input c \<noteq> None then
            Some (invalid_command ''interrupt command must not carry an input'')
          else if sk_resolution c \<noteq> None then
            Some (invalid_command ''interrupt command must not carry a resolution'')
          else None
      | CommandKindOther s \<Rightarrow> Some (invalid_command (''unknown command kind '' @ quote s))
      | kind \<Rightarrow>
          if sk_run_id c = '''' then
            Some (invalid_command (command_kind_text kind @ '' command requires the target run''))
          else if sk_input c = None then
            Some (invalid_command (command_kind_text kind @ '' command requires an input''))
          else if sk_resolution c \<noteq> None then
            Some (invalid_command (command_kind_text kind @ '' command must not carry a resolution''))
          else None)"

definition validateInputBlock :: "(string \<Rightarrow> bool) \<Rightarrow> input_block \<Rightarrow> go_error option" where
  "validateInputBlock json_valid b =
     (if ib_data b \<noteq> '''' \<and> \<not> json_valid (ib_data b) then
        Some (invalid_command ''data must be exactly one complete JSON value'')
      else (case ib_kind b of
              InputBlockText \<Rightarrow>
                if ib_text b = '''' then Some (invalid_command ''text input block requires text'')
                else if ib_data b \<noteq> '''' \<or> ib_media_type b \<noteq> '''' then
                  Some (invalid_command ''text input block must not carry structured data'')
                else None
            | InputBlockData \<Rightarrow>
                if ib_data b = '''' then Some (invalid_command ''data input block requires data'')
                else if ib_text b \<noteq> '''' then
                  Some (invalid_command ''data input block must not carry text'')
                else None
            | InputBlockOther s \<Rightarrow> Some (invalid_command (''unknown input block kind '' @ quote s))))"

fun validate_blocks :: "(string \<Rightarrow> bool) \<Rightarrow> nat \<Rightarrow> input_block list \<Rightarrow> go_error option" where
  "validate_blocks json_valid index [] = None"
| "validate_blocks json_valid index (b # bs) =
     (case validateInputBlock json_valid b of
        Some e \<Rightarrow> Some (wrap_cause (''input block '' @ show_nat index) e)
      | None \<Rightarrow> validate_blocks json_valid (Suc index) bs)"

definition ValidateInput :: "(string \<Rightarrow> bool) \<Rightarrow> session_input \<Rightarrow> go_error option" where
  "ValidateInput json_valid i =
     (if si_blocks i = [] then Some (invalid_command ''input requires at least one input block'')
      else validate_blocks json_valid 0 (si_blocks i))"

subsection \<open>Capabilities\<close>

definition required_capability :: "command_kind \<Rightarrow> string option" where
  "required_capability k =
     (case k of
        CommandSteer \<Rightarrow> Some ''input.steer''
      | CommandFollowUp \<Rightarrow> Some ''input.follow_up''
      | CommandNextTurn \<Rightarrow> Some ''input.next_turn''
      | CommandInterrupt \<Rightarrow> Some ''run.interrupt''
      | CommandResolve \<Rightarrow> Some ''run.suspension.resolve''
      | _ \<Rightarrow> None)"

definition Supports :: "string list \<Rightarrow> string \<Rightarrow> bool" where
  "Supports caps c = mem_str c caps"

definition ValidateCommand ::
  "(string \<Rightarrow> bool) \<Rightarrow> session_command \<Rightarrow> string list \<Rightarrow> go_error option" where
  "ValidateCommand json_valid c caps =
     (case Validate json_valid c of
        Some e \<Rightarrow> Some e
      | None \<Rightarrow>
          if sk_idempotency_key c \<noteq> '''' \<and> \<not> Supports caps ''dispatch.idempotent'' then
            Some (wrap_cause (''idempotency keys require capability '' @ quote ''dispatch.idempotent'')
              (Sentinel ErrUnsupported))
          else (case required_capability (sk_kind c) of
                  Some capability \<Rightarrow>
                    if \<not> Supports caps capability then
                      Some (wrap_cause (command_kind_text (sk_kind c) @ '' commands require capability '' @
                        quote capability) (Sentinel ErrUnsupported))
                    else None
                | None \<Rightarrow> None))"

subsection \<open>Delivery commands\<close>

record actor_command =
  cm_id :: string
  cm_actor :: string
  cm_sequence :: "64 word"
  cm_command :: session_command

definition Normalize :: "(string \<Rightarrow> bool) \<Rightarrow> actor_command \<Rightarrow> actor_command result" where
  "Normalize json_valid c =
     (if cm_id c = '''' \<or> cm_actor c = '''' then
        Inl (invalid_command ''actor and command IDs are required'')
      else if sk_id (cm_command c) \<noteq> '''' \<and> sk_id (cm_command c) \<noteq> cm_id c then
        Inl (Sentinel ErrCommandConflict)
      else
        let k = (cm_command c)\<lparr>sk_id := cm_id c\<rparr>;
            k = (if sk_idempotency_key k = '''' then k\<lparr>sk_idempotency_key := cm_id c\<rparr> else k) in
        (case Validate json_valid k of
           Some e \<Rightarrow> Inl e
         | None \<Rightarrow>
             (case sk_input k of
                None \<Rightarrow> Inr (c\<lparr>cm_command := k\<rparr>)
              | Some i \<Rightarrow>
                  (case ValidateInput json_valid i of
                     Some e \<Rightarrow> Inl e
                   | None \<Rightarrow> Inr (c\<lparr>cm_command := k\<rparr>)))))"

text \<open>A normal form: the identity is fixed and normalising again changes nothing.\<close>

lemma Normalize_identity:
  "Normalize json_valid c = Inr c' \<Longrightarrow>
     cm_id c' = cm_id c \<and> cm_actor c' = cm_actor c \<and> cm_sequence c' = cm_sequence c \<and>
     cm_id c \<noteq> '''' \<and> cm_actor c \<noteq> '''' \<and>
     sk_id (cm_command c') = cm_id c \<and> sk_idempotency_key (cm_command c') \<noteq> ''''"
  by (auto simp: Normalize_def Let_def split: if_splits option.splits)

lemma Normalize_idem:
  assumes "Normalize json_valid c = Inr c'"
  shows "Normalize json_valid c' = Inr c'"
proof -
  let ?k0 = "(cm_command c)\<lparr>sk_id := cm_id c\<rparr>"
  define k where "k = (if sk_idempotency_key ?k0 = '''' then ?k0\<lparr>sk_idempotency_key := cm_id c\<rparr> else ?k0)"
  have c: "cm_id c \<noteq> ''''" "cm_actor c \<noteq> ''''"
    and valid: "Validate json_valid k = None"
    and inputs: "\<And>i. sk_input k = Some i \<Longrightarrow> ValidateInput json_valid i = None"
    and c': "c' = c\<lparr>cm_command := k\<rparr>"
    using assms unfolding Normalize_def Let_def k_def [symmetric]
    by (auto split: if_split_asm option.splits)
  have k: "sk_id k = cm_id c" "sk_idempotency_key k \<noteq> ''''" using c by (auto simp: k_def)
  then have same: "k\<lparr>sk_id := cm_id c\<rparr> = k" by simp
  show ?thesis using c k valid inputs
    by (auto simp: Normalize_def c' Let_def same split: option.split)
qed

text \<open>Every structural failure is an invalid command.\<close>

lemma invalid_command_is [simp]: "errors_is k (invalid_command s) \<longleftrightarrow> k = ErrInvalidCommand"
  by (simp add: invalid_command_def)

lemma validate_decisions_is:
  "validate_decisions jv i ds = Some e \<Longrightarrow> errors_is ErrInvalidCommand e"
  by (induction jv i ds rule: validate_decisions.induct) (auto split: if_splits)

lemma Validate_is: "Validate jv c = Some e \<Longrightarrow> errors_is ErrInvalidCommand e"
  by (auto simp: Validate_def resolution_validate_def dest: validate_decisions_is
      split: command_kind.splits if_splits option.splits)

end
