(* ===== verification/Local_Channel.thy ===== *)
theory Local_Channel
  imports Session_Commands
begin

text \<open>
  The process-local mailbox and ownership store of the session actor
  (harness/sessionloop/actor/localchannel/localchannel.go, types of mailbox.go and
  sessionloop/command.go).  Every method runs under one mutex, so a method is one atomic function of
  the store; a history of the store is a sequence of such steps, with a clock that does not run
  backwards.  Times are nanoseconds; an operation takes the readings of the clock it makes and the
  error of its context.

  The channel \<^verbatim>\<open>changed\<close>, closed and replaced by every signal, is the number of signals so far.
  The JSON of a command, compared on resubmission, is the parameter \<open>encode\<close>.
\<close>

datatype guarantee = AcceptanceAccepted | AcceptanceDurable | GuaranteeOther string

datatype rejection =
    RejectionNone | RejectionStaleRun | RejectionNotRunning | RejectionUnsupported
  | RejectionInvalidCommand | RejectionOther string

record position =
  ps_sequence :: "64 word"
  ps_token :: string

record receipt =
  rp_command_id :: string
  rp_session_id :: string
  rp_run_id :: string
  rp_queue_id :: string
  rp_position :: position
  rp_guarantee :: guarantee
  rp_rejection :: rejection

record submission =
  sb_id :: string
  sb_actor :: string
  sb_sequence :: "64 word"
  sb_duplicate :: bool
  sb_guarantee :: guarantee

record lease =
  le_actor :: string
  le_owner :: string
  le_fence :: "64 word"
  le_expires :: int

definition maxUint64 :: "64 word" where
  "maxUint64 = - 1"

definition zero_lease :: lease where
  "zero_lease = \<lparr>le_actor = '''', le_owner = '''', le_fence = 0, le_expires = 0\<rparr>"

record session_state =
  ss_history :: "string \<rightharpoonup> actor_command"
  ss_pending :: "string list"
  ss_sequence :: "64 word"
  ss_generation :: "64 word"
  ss_lease :: lease
  ss_needs_execution :: bool

definition new_session :: session_state where
  "new_session = \<lparr>ss_history = Map.empty, ss_pending = [], ss_sequence = 0, ss_generation = 0,
     ss_lease = zero_lease, ss_needs_execution = False\<rparr>"

record store =
  ls_sessions :: "string \<rightharpoonup> session_state"
  ls_order :: "string list"
  ls_next :: nat
  ls_changed :: nat

definition New :: store where
  "New = \<lparr>ls_sessions = Map.empty, ls_order = [], ls_next = 0, ls_changed = 0\<rparr>"

definition signal :: "store \<Rightarrow> store" where
  "signal st = st\<lparr>ls_changed := ls_changed st + 1\<rparr>"

definition put_session :: "string \<Rightarrow> session_state \<Rightarrow> store \<Rightarrow> store" where
  "put_session i s st = st\<lparr>ls_sessions := (ls_sessions st)(i \<mapsto> s)\<rparr>"

text \<open>The state of an actor, created on first use.\<close>

definition ensure :: "string \<Rightarrow> store \<Rightarrow> store \<times> session_state" where
  "ensure i st =
     (case ls_sessions st i of
        Some s \<Rightarrow> (st, s)
      | None \<Rightarrow> ((put_session i new_session st)\<lparr>ls_order := ls_order st @ [i]\<rparr>, new_session))"

subsection \<open>Submission\<close>

definition Recover :: "go_error option \<Rightarrow> string \<Rightarrow> store \<Rightarrow> store \<times> unit result" where
  "Recover ctx i st =
     (case ctx of
        Some e \<Rightarrow> (st, Inl e)
      | None \<Rightarrow>
          if i = '''' then (st, Inl (Plain ''localchannel: session identity required''))
          else (case ensure i st of (st, s) \<Rightarrow>
                  (signal (put_session i (s\<lparr>ss_needs_execution := True\<rparr>) st), Inr ())))"

definition submitted :: "actor_command \<Rightarrow> bool \<Rightarrow> submission" where
  "submitted c duplicate =
     \<lparr>sb_id = cm_id c, sb_actor = cm_actor c, sb_sequence = cm_sequence c,
      sb_duplicate = duplicate, sb_guarantee = AcceptanceAccepted\<rparr>"

definition same_encoding ::
  "(session_command \<Rightarrow> string result) \<Rightarrow> actor_command \<Rightarrow> string \<Rightarrow> bool" where
  "same_encoding encode previous encoded =
     ((case encode (cm_command previous) of Inr s \<Rightarrow> s | Inl _ \<Rightarrow> '''') = encoded)"

definition Submit ::
  "(string \<Rightarrow> bool) \<Rightarrow> (session_command \<Rightarrow> string result) \<Rightarrow> go_error option \<Rightarrow> actor_command \<Rightarrow>
     store \<Rightarrow> store \<times> submission result" where
  "Submit json_valid encode ctx command st =
     (case ctx of
        Some e \<Rightarrow> (st, Inl e)
      | None \<Rightarrow>
          (case Normalize json_valid command of
             Inl e \<Rightarrow> (st, Inl e)
           | Inr command \<Rightarrow>
               (case encode (cm_command command) of
                  Inl e \<Rightarrow> (st, Inl e)
                | Inr encoded \<Rightarrow>
                    (case ensure (cm_actor command) st of (st, s) \<Rightarrow>
                       (case ss_history s (cm_id command) of
                          Some previous \<Rightarrow>
                            if \<not> same_encoding encode previous encoded then
                              (st, Inl (Sentinel ErrCommandConflict))
                            else (st, Inr (submitted previous True))
                        | None \<Rightarrow>
                            if ss_sequence s = maxUint64 then
                              (st, Inl (Sentinel ErrGenerationExhausted))
                            else
                              let q = ss_sequence s + 1; command = command\<lparr>cm_sequence := q\<rparr> in
                              (signal (put_session (cm_actor command)
                                 (s\<lparr>ss_sequence := q,
                                    ss_history := (ss_history s)(cm_id command \<mapsto> command),
                                    ss_pending := ss_pending s @ [cm_id command]\<rparr>) st),
                               Inr (submitted command False)))))))"

subsection \<open>Discovery\<close>

definition has_work :: "session_state \<Rightarrow> bool" where
  "has_work s = (ss_pending s \<noteq> [] \<or> ss_needs_execution s)"

definition lease_free :: "int \<Rightarrow> session_state \<Rightarrow> bool" where
  "lease_free now s = (le_owner (ss_lease s) = '''' \<or> \<not> le_expires (ss_lease s) > now)"

datatype received = Claim string | Wait "int option" | NilSession

text \<open>One pass over the actors, in turn from the one after the last discovery.  \<open>NilSession\<close> is the
  nil dereference of an actor in the order without a state.\<close>

fun receive_scan ::
  "int \<Rightarrow> store \<Rightarrow> nat list \<Rightarrow> int option \<Rightarrow> store \<times> received" where
  "receive_scan now st [] expiry = (st, Wait expiry)"
| "receive_scan now st (index # rest) expiry =
     (case ls_sessions st (ls_order st ! index) of
        None \<Rightarrow> (st, NilSession)
      | Some s \<Rightarrow>
          if \<not> has_work s then receive_scan now st rest expiry
          else if lease_free now s then
            (st\<lparr>ls_next := (index + 1) mod length (ls_order st)\<rparr>, Claim (ls_order st ! index))
          else receive_scan now st rest
            (case expiry of
               None \<Rightarrow> Some (le_expires (ss_lease s))
             | Some t \<Rightarrow> if le_expires (ss_lease s) < t then Some (le_expires (ss_lease s)) else expiry))"

definition scan_order :: "store \<Rightarrow> nat list" where
  "scan_order st =
     map (\<lambda>i. (ls_next st + i) mod length (ls_order st)) [0..<length (ls_order st)]"

definition Receive :: "go_error option \<Rightarrow> int \<Rightarrow> store \<Rightarrow> store \<times> received result" where
  "Receive ctx now st =
     (case ctx of
        Some e \<Rightarrow> (st, Inl e)
      | None \<Rightarrow> (case receive_scan now st (scan_order st) None of (st, r) \<Rightarrow> (st, Inr r)))"

subsection \<open>Ownership\<close>

definition Acquire ::
  "go_error option \<Rightarrow> int \<Rightarrow> string \<Rightarrow> string \<Rightarrow> int \<Rightarrow> store \<Rightarrow> store \<times> lease result" where
  "Acquire ctx now i owner ttl st =
     (case ctx of
        Some e \<Rightarrow> (st, Inl e)
      | None \<Rightarrow>
          if i = '''' \<or> owner = '''' \<or> ttl \<le> 0 then
            (st, Inl (Plain ''localchannel: identity and positive TTL required''))
          else (case ls_sessions st i of
                  None \<Rightarrow> (st, Inl (Sentinel ErrNoWork))
                | Some s \<Rightarrow>
                    if \<not> has_work s then (st, Inl (Sentinel ErrNoWork))
                    else if \<not> lease_free now s then (st, Inl (Sentinel ErrLeaseHeld))
                    else if ss_generation s = maxUint64 then
                      (st, Inl (Sentinel ErrGenerationExhausted))
                    else
                      let g = ss_generation s + 1;
                          l = \<lparr>le_actor = i, le_owner = owner, le_fence = g, le_expires = now + ttl\<rparr> in
                      (signal (put_session i
                         (s\<lparr>ss_generation := g, ss_lease := l, ss_needs_execution := True\<rparr>) st), Inr l)))"

definition owned :: "int \<Rightarrow> lease \<Rightarrow> store \<Rightarrow> session_state result" where
  "owned now l st =
     (case ls_sessions st (le_actor l) of
        None \<Rightarrow> Inl (Sentinel ErrLeaseLost)
      | Some s \<Rightarrow>
          if le_owner (ss_lease s) = '''' \<or> le_owner (ss_lease s) \<noteq> le_owner l \<or>
             le_fence (ss_lease s) \<noteq> le_fence l \<or> \<not> le_expires (ss_lease s) > now then
            Inl (Sentinel ErrLeaseLost)
          else Inr s)"

text \<open>Renewal reads the clock twice: for the check and for the new deadline.\<close>

definition Renew ::
  "go_error option \<Rightarrow> int \<Rightarrow> int \<Rightarrow> lease \<Rightarrow> int \<Rightarrow> store \<Rightarrow> store \<times> lease result" where
  "Renew ctx now now' l ttl st =
     (case ctx of
        Some e \<Rightarrow> (st, Inl e)
      | None \<Rightarrow>
          if ttl \<le> 0 then (st, Inl (Plain ''localchannel: positive TTL required''))
          else (case owned now l st of
                  Inl e \<Rightarrow> (st, Inl e)
                | Inr s \<Rightarrow>
                    let l' = (ss_lease s)\<lparr>le_expires := now' + ttl\<rparr> in
                    (signal (put_session (le_actor l) (s\<lparr>ss_lease := l'\<rparr>) st), Inr l')))"

definition Release :: "go_error option \<Rightarrow> int \<Rightarrow> lease \<Rightarrow> store \<Rightarrow> store \<times> unit result" where
  "Release ctx now l st =
     (case ctx of
        Some e \<Rightarrow> (st, Inl e)
      | None \<Rightarrow>
          (case owned now l st of
             Inl e \<Rightarrow> (st, Inl e)
           | Inr s \<Rightarrow>
               (signal (put_session (le_actor l)
                  (s\<lparr>ss_lease := zero_lease, ss_needs_execution := False\<rparr>) st), Inr ())))"

subsection \<open>Delivery\<close>

definition Pending ::
  "go_error option \<Rightarrow> int \<Rightarrow> lease \<Rightarrow> 64 word \<Rightarrow> int \<Rightarrow> store \<Rightarrow> actor_command list result" where
  "Pending ctx now l after limit st =
     (case ctx of
        Some e \<Rightarrow> Inl e
      | None \<Rightarrow>
          (case owned now l st of
             Inl e \<Rightarrow> Inl e
           | Inr s \<Rightarrow>
               let found = filter (\<lambda>c. \<not> cm_sequence c \<le> after)
                     (map (\<lambda>i. the (ss_history s i)) (ss_pending s));
                   sorted = sort_key cm_sequence found in
               Inr (if limit > 0 \<and> int (length sorted) > limit then take (nat limit) sorted
                    else sorted)))"

definition Acknowledge ::
  "go_error option \<Rightarrow> int \<Rightarrow> lease \<Rightarrow> string \<Rightarrow> receipt \<Rightarrow> store \<Rightarrow> store \<times> unit result" where
  "Acknowledge ctx now l i receipt st =
     (case ctx of
        Some e \<Rightarrow> (st, Inl e)
      | None \<Rightarrow>
          (case owned now l st of
             Inl e \<Rightarrow> (st, Inl e)
           | Inr s \<Rightarrow>
               if ss_history s i = None then (st, Inl (Sentinel ErrCommandNotFound))
               else if rp_command_id receipt \<noteq> i \<or> rp_session_id receipt = '''' \<or>
                 (rp_guarantee receipt \<noteq> AcceptanceAccepted \<and> rp_guarantee receipt \<noteq> AcceptanceDurable) then
                 (st, Inl (Sentinel ErrInvalidReceipt))
               else
                 (put_session (le_actor l) (s\<lparr>ss_pending := removeAll i (ss_pending s)\<rparr>) st, Inr ())))"

text \<open>A storage primitive under the grant: \<open>mutate\<close> acts on the journal's own state.\<close>

definition Commit ::
  "go_error option \<Rightarrow> int \<Rightarrow> lease \<Rightarrow> store \<Rightarrow> ('s \<Rightarrow> 's \<times> 'a result) \<Rightarrow> 's \<Rightarrow> 's \<times> 'a result" where
  "Commit ctx now l st mutate j =
     (case ctx of
        Some e \<Rightarrow> (j, Inl e)
      | None \<Rightarrow> (case owned now l st of Inl e \<Rightarrow> (j, Inl e) | Inr _ \<Rightarrow> mutate j))"

end
