(* ===== verification/Channel_Props.thy ===== *)
theory Channel_Props
  imports Local_Channel
begin

text \<open>
  What the mailbox store guarantees over every history of its operations: grants are fenced by their
  generation, accepted commands are kept until they are acknowledged and are delivered in the order
  of acceptance, and retained work is found again by the receiver.

  A history is a run of operations on a new store, each with its own readings of the clock; nothing
  is assumed about the clock.  Its log lists the commands accepted, the IDs acknowledged and the
  leases granted.
\<close>

datatype channel_event = Accepted actor_command | Acked string string | Granted lease

datatype operation =
    DoRecover string
  | DoSubmit actor_command
  | DoReceive
  | DoAcquire string string int
  | DoRenew int lease int
  | DoRelease lease
  | DoAcknowledge lease string receipt

text \<open>The session of an actor, as a later operation will find or create it.\<close>

definition lookup :: "store \<Rightarrow> string \<Rightarrow> session_state" where
  "lookup st i = (case ls_sessions st i of None \<Rightarrow> new_session | Some s \<Rightarrow> s)"

fun perform ::
  "(string \<Rightarrow> bool) \<Rightarrow> (session_command \<Rightarrow> string result) \<Rightarrow> int \<Rightarrow> operation \<Rightarrow> store \<Rightarrow>
     store \<times> channel_event list" where
  "perform jv encode now (DoRecover i) st = (fst (Recover None i st), [])"
| "perform jv encode now (DoSubmit c) st =
     (case Submit jv encode None c st of
        (st', Inl e) \<Rightarrow> (st', [])
      | (st', Inr sub) \<Rightarrow>
          (st', if sb_duplicate sub then []
                else [Accepted (the (ss_history (lookup st' (sb_actor sub)) (sb_id sub)))]))"
| "perform jv encode now DoReceive st = (fst (Receive None now st), [])"
| "perform jv encode now (DoAcquire i owner ttl) st =
     (case Acquire None now i owner ttl st of
        (st', Inl e) \<Rightarrow> (st', []) | (st', Inr l) \<Rightarrow> (st', [Granted l]))"
| "perform jv encode now (DoRenew now' l ttl) st = (fst (Renew None now now' l ttl st), [])"
| "perform jv encode now (DoRelease l) st = (fst (Release None now l st), [])"
| "perform jv encode now (DoAcknowledge l i r) st =
     (case Acknowledge None now l i r st of
        (st', Inl e) \<Rightarrow> (st', []) | (st', Inr u) \<Rightarrow> (st', [Acked (le_actor l) i]))"

inductive channel_run ::
  "(string \<Rightarrow> bool) \<Rightarrow> (session_command \<Rightarrow> string result) \<Rightarrow> store \<Rightarrow> channel_event list \<Rightarrow> bool"
  for jv encode where
  run_start: "channel_run jv encode New []"
| run_step: "channel_run jv encode st log \<Longrightarrow> perform jv encode now op st = (st', evs) \<Longrightarrow>
    channel_run jv encode st' (log @ evs)"

subsection \<open>What the log says of one actor\<close>

definition accepted_of :: "string \<Rightarrow> channel_event list \<Rightarrow> actor_command list" where
  "accepted_of i log =
     concat (map (\<lambda>e. case e of Accepted c \<Rightarrow> if cm_actor c = i then [c] else [] | _ \<Rightarrow> []) log)"

definition acked_of :: "string \<Rightarrow> channel_event list \<Rightarrow> string list" where
  "acked_of i log =
     concat (map (\<lambda>e. case e of Acked a j \<Rightarrow> if a = i then [j] else [] | _ \<Rightarrow> []) log)"

definition grants_of :: "string \<Rightarrow> channel_event list \<Rightarrow> lease list" where
  "grants_of i log =
     concat (map (\<lambda>e. case e of Granted l \<Rightarrow> if le_actor l = i then [l] else [] | _ \<Rightarrow> []) log)"

lemma log_of_simps [simp]:
  "accepted_of i [] = []" "acked_of i [] = []" "grants_of i [] = []"
  "accepted_of i (log @ log') = accepted_of i log @ accepted_of i log'"
  "acked_of i (log @ log') = acked_of i log @ acked_of i log'"
  "grants_of i (log @ log') = grants_of i log @ grants_of i log'"
  "accepted_of i [Accepted c] = (if cm_actor c = i then [c] else [])"
  "acked_of i [Accepted c] = []" "grants_of i [Accepted c] = []"
  "accepted_of i [Acked a j] = []" "acked_of i [Acked a j] = (if a = i then [j] else [])"
  "grants_of i [Acked a j] = []"
  "accepted_of i [Granted l] = []" "acked_of i [Granted l] = []"
  "grants_of i [Granted l] = (if le_actor l = i then [l] else [])"
  by (simp_all add: accepted_of_def acked_of_def grants_of_def)

subsection \<open>The invariant of a session\<close>

definition unacked :: "actor_command list \<Rightarrow> string list \<Rightarrow> actor_command list" where
  "unacked cs acks = filter (\<lambda>c. cm_id c \<notin> set acks) cs"

definition lease_of_last :: "session_state \<Rightarrow> lease list \<Rightarrow> bool" where
  "lease_of_last s gs \<longleftrightarrow>
     (le_owner (ss_lease s) \<noteq> '''' \<longrightarrow>
        gs \<noteq> [] \<and> le_owner (last gs) = le_owner (ss_lease s) \<and> le_fence (last gs) = le_fence (ss_lease s) \<and>
        ss_needs_execution s)"

definition history_of :: "actor_command list \<Rightarrow> string \<rightharpoonup> actor_command" where
  "history_of cs = map_of (map (\<lambda>c. (cm_id c, c)) cs)"

lemma history_of_None: "history_of cs i = None \<longleftrightarrow> i \<notin> cm_id ` set cs"
  by (induction cs) (auto simp: history_of_def)

lemma history_of_snoc:
  "cm_id c \<notin> cm_id ` set cs \<Longrightarrow> history_of (cs @ [c]) = (history_of cs)(cm_id c \<mapsto> c)"
  by (induction cs) (auto simp: history_of_def fun_upd_twist)

lemma history_of_nth: "distinct (map cm_id cs) \<Longrightarrow> c \<in> set cs \<Longrightarrow> history_of cs (cm_id c) = Some c"
  unfolding history_of_def by (rule map_of_is_SomeI) (auto simp: comp_def)

definition session_inv ::
  "session_state \<Rightarrow> actor_command list \<Rightarrow> string list \<Rightarrow> lease list \<Rightarrow> bool" where
  "session_inv s cs acks gs \<longleftrightarrow>
     distinct (map cm_id cs) \<and>
     map (\<lambda>c. unat (cm_sequence c)) cs = [1..<Suc (unat (ss_sequence s))] \<and>
     ss_history s = history_of cs \<and>
     ss_pending s = map cm_id (unacked cs acks) \<and> set acks \<subseteq> cm_id ` set cs \<and>
     map (\<lambda>l. unat (le_fence l)) gs = [1..<Suc (unat (ss_generation s))] \<and>
     lease_of_last s gs"

lemma unat_inc: "x \<noteq> maxUint64 \<Longrightarrow> unat (x + 1) = Suc (unat x)"
proof -
  assume "x \<noteq> maxUint64"
  then have "1 + x \<noteq> 0" by (auto simp: maxUint64_def add_eq_0_iff)
  then show ?thesis using unatSuc [of x] by (simp add: add.commute)
qed

lemma session_inv_new: "session_inv new_session [] [] []"
  by (simp add: session_inv_def new_session_def history_of_def unacked_def lease_of_last_def zero_lease_def)

lemma session_inv_recover:
  "session_inv s cs acks gs \<Longrightarrow> session_inv (s\<lparr>ss_needs_execution := True\<rparr>) cs acks gs"
  by (simp add: session_inv_def lease_of_last_def)

lemma session_inv_submit:
  assumes inv: "session_inv s cs acks gs" and new: "ss_history s (cm_id c) = None"
    and seq: "ss_sequence s \<noteq> maxUint64"
  defines "c' \<equiv> c\<lparr>cm_sequence := ss_sequence s + 1\<rparr>"
  shows "session_inv (s\<lparr>ss_sequence := ss_sequence s + 1, ss_history := (ss_history s)(cm_id c' \<mapsto> c'),
      ss_pending := ss_pending s @ [cm_id c']\<rparr>) (cs @ [c']) acks gs"
proof -
  have old: "distinct (map cm_id cs)" "ss_history s = history_of cs" "set acks \<subseteq> cm_id ` set cs"
    "map (\<lambda>c. unat (cm_sequence c)) cs = [1..<Suc (unat (ss_sequence s))]"
    using inv by (auto simp: session_inv_def)
  have fresh: "cm_id c' \<notin> cm_id ` set cs"
    using new old(2) by (simp add: c'_def history_of_None)
  have "history_of (cs @ [c']) = (history_of cs)(cm_id c' \<mapsto> c')"
    by (rule history_of_snoc [OF fresh])
  moreover have "map (\<lambda>c. unat (cm_sequence c)) (cs @ [c']) = [1..<Suc (unat (ss_sequence s + 1))]"
    using old(4) unat_inc [OF seq] by (simp add: c'_def)
  moreover have "unacked (cs @ [c']) acks = unacked cs acks @ [c']"
    using fresh old(3) by (auto simp: unacked_def)
  ultimately show ?thesis using inv fresh old
    by (auto simp: session_inv_def lease_of_last_def)
qed

lemma session_inv_acquire:
  assumes inv: "session_inv s cs acks gs" and gen: "ss_generation s \<noteq> maxUint64"
    and l: "le_fence l = ss_generation s + 1" "le_owner l \<noteq> ''''"
  shows "session_inv (s\<lparr>ss_generation := ss_generation s + 1, ss_lease := l, ss_needs_execution := True\<rparr>)
    cs acks (gs @ [l])"
proof -
  have "map (\<lambda>l. unat (le_fence l)) gs = [1..<Suc (unat (ss_generation s))]"
    using inv by (simp add: session_inv_def)
  then have "map (\<lambda>l. unat (le_fence l)) (gs @ [l]) = [1..<Suc (unat (ss_generation s + 1))]"
    using unat_inc [OF gen] l(1) by simp
  then show ?thesis using inv l by (simp add: session_inv_def lease_of_last_def)
qed

lemma session_inv_renew:
  "session_inv s cs acks gs \<Longrightarrow> session_inv (s\<lparr>ss_lease := (ss_lease s)\<lparr>le_expires := t\<rparr>\<rparr>) cs acks gs"
  by (simp add: session_inv_def lease_of_last_def)

lemma session_inv_release:
  "session_inv s cs acks gs \<Longrightarrow>
     session_inv (s\<lparr>ss_lease := zero_lease, ss_needs_execution := False\<rparr>) cs acks gs"
  by (simp add: session_inv_def lease_of_last_def zero_lease_def)

lemma session_inv_ack:
  assumes inv: "session_inv s cs acks gs" and i: "ss_history s i \<noteq> None"
  shows "session_inv (s\<lparr>ss_pending := removeAll i (ss_pending s)\<rparr>) cs (acks @ [i]) gs"
proof -
  have "i \<in> cm_id ` set cs"
    using inv i history_of_None [of cs i] by (simp add: session_inv_def)
  moreover have "removeAll i (map cm_id (unacked cs acks)) = map cm_id (unacked cs (acks @ [i]))"
    by (induction cs) (auto simp: unacked_def)
  ultimately show ?thesis using inv by (auto simp: session_inv_def lease_of_last_def)
qed

subsection \<open>The invariant of the store\<close>

definition store_inv :: "store \<Rightarrow> channel_event list \<Rightarrow> bool" where
  "store_inv st log \<longleftrightarrow>
     distinct (ls_order st) \<and> set (ls_order st) = dom (ls_sessions st) \<and>
     (\<forall>i. session_inv (lookup st i) (accepted_of i log) (acked_of i log) (grants_of i log))"

lemma lookup_simps [simp]:
  "lookup (signal st) i = lookup st i"
  "lookup (put_session j s st) i = (if i = j then s else lookup st i)"
  "lookup (st\<lparr>ls_order := xs\<rparr>) i = lookup st i"
  "lookup (st\<lparr>ls_next := n\<rparr>) i = lookup st i"
  by (simp_all add: lookup_def signal_def put_session_def)

lemma put_session_simps [simp]:
  "ls_sessions (put_session i s st) = (ls_sessions st)(i \<mapsto> s)"
  "ls_order (put_session i s st) = ls_order st" "ls_next (put_session i s st) = ls_next st"
  "ls_sessions (signal st) = ls_sessions st" "ls_order (signal st) = ls_order st"
  "ls_next (signal st) = ls_next st"
  by (simp_all add: put_session_def signal_def)

lemma store_inv_put:
  assumes "store_inv st log" "ls_sessions st i \<noteq> None"
    and "session_inv s (accepted_of i (log @ evs)) (acked_of i (log @ evs)) (grants_of i (log @ evs))"
    and "\<And>j. j \<noteq> i \<Longrightarrow> accepted_of j evs = [] \<and> acked_of j evs = [] \<and> grants_of j evs = []"
  shows "store_inv (put_session i s st) (log @ evs)" "store_inv (signal (put_session i s st)) (log @ evs)"
  using assms unfolding store_inv_def by (auto simp: domIff)

lemma ensure_inv:
  assumes "ensure i st = (st1, s)" "store_inv st log"
  shows "store_inv st1 log \<and> ls_sessions st1 i = Some s \<and> lookup st1 = lookup st \<and> s = lookup st i"
proof (cases "ls_sessions st i")
  case None
  then have i: "i \<notin> set (ls_order st)" "lookup st i = new_session"
    using assms(2) by (auto simp: store_inv_def lookup_def)
  have st1: "st1 = (put_session i new_session st)\<lparr>ls_order := ls_order st @ [i]\<rparr>" "s = new_session"
    using assms(1) None by (simp_all add: ensure_def)
  have look: "lookup st1 = lookup st"
    using i(2) by (auto simp: st1(1) fun_eq_iff)
  have "distinct (ls_order st1)" "set (ls_order st1) = dom (ls_sessions st1)"
    using assms(2) i(1) by (auto simp: st1(1) store_inv_def)
  then show ?thesis using assms(2) look i(2) st1 by (simp add: store_inv_def)
next
  case (Some s')
  then show ?thesis using assms by (simp add: ensure_def lookup_def)
qed

lemma store_inv_session:
  "store_inv st log \<Longrightarrow> ls_sessions st i = Some s \<Longrightarrow>
     session_inv s (accepted_of i log) (acked_of i log) (grants_of i log)"
  by (auto simp: store_inv_def lookup_def dest!: spec [of _ i])

lemma owned_Inr:
  "owned now l st = Inr s \<longleftrightarrow>
     ls_sessions st (le_actor l) = Some s \<and> le_owner (ss_lease s) \<noteq> '''' \<and>
     le_owner (ss_lease s) = le_owner l \<and> le_fence (ss_lease s) = le_fence l \<and>
     le_expires (ss_lease s) > now"
  by (auto simp: owned_def split: option.splits if_splits)

subsection \<open>Every operation keeps it\<close>

lemma Recover_inv: "store_inv st log \<Longrightarrow> store_inv (fst (Recover None i st)) log"
proof (cases "i = ''''")
  case False
  assume inv: "store_inv st log"
  obtain st1 s where e: "ensure i st = (st1, s)" by fastforce
  note e' = ensure_inv [OF e inv]
  then have "session_inv s (accepted_of i log) (acked_of i log) (grants_of i log)"
    using store_inv_session by blast
  then show ?thesis
    using store_inv_put(2) [of st1 log i "s\<lparr>ss_needs_execution := True\<rparr>" "[]"] e' e False
    by (simp add: Recover_def session_inv_recover)
qed (simp add: Recover_def)

lemma Submit_inv:
  assumes inv: "store_inv st log" and step: "perform jv encode now (DoSubmit c) st = (st', evs)"
  shows "store_inv st' (log @ evs)"
proof (cases "Submit jv encode None c st")
  case (Pair st2 r)
  consider (bad) e where "Submit jv encode None c st = (st, Inl e)"
    | (good) c1 encoded where "Normalize jv c = Inr c1" "encode (cm_command c1) = Inr encoded"
  proof (cases "Normalize jv c")
    case (Inr c1)
    then show ?thesis using that by (cases "encode (cm_command c1)") (auto simp: Submit_def)
  qed (use that in \<open>simp add: Submit_def\<close>)
  then show ?thesis
  proof cases
    case bad
    then show ?thesis using inv step by simp
  next
    case good
    obtain st1 s where e: "ensure (cm_actor c1) st = (st1, s)" by fastforce
    note e' = ensure_inv [OF e inv]
    have s: "session_inv s (accepted_of (cm_actor c1) log) (acked_of (cm_actor c1) log)
        (grants_of (cm_actor c1) log)" using e' store_inv_session by blast
    show ?thesis
    proof (cases "ss_history s (cm_id c1) = None \<and> ss_sequence s \<noteq> maxUint64")
      case True
      let ?c = "c1\<lparr>cm_sequence := ss_sequence s + 1\<rparr>"
      let ?s = "s\<lparr>ss_sequence := ss_sequence s + 1, ss_history := (ss_history s)(cm_id c1 \<mapsto> ?c),
          ss_pending := ss_pending s @ [cm_id c1]\<rparr>"
      have "st' = signal (put_session (cm_actor c1) ?s st1)" "evs = [Accepted ?c]"
        using step good e True by (auto simp: Submit_def Let_def submitted_def)
      then show ?thesis
        using store_inv_put(2) [of st1 log "cm_actor c1" ?s "[Accepted ?c]"] e'
          session_inv_submit [OF s, of c1] True by simp
    next
      case False
      then have "st' = st1" "evs = []"
        using step good e by (auto simp: Submit_def Let_def submitted_def split: option.splits if_splits)
      then show ?thesis using e' by simp
    qed
  qed
qed

lemma receive_scan_store:
  "receive_scan now st xs t = (st', r) \<Longrightarrow> st' = st \<or> (\<exists>n. st' = st\<lparr>ls_next := n\<rparr>)"
  by (induction now st xs t rule: receive_scan.induct) (auto split: option.splits if_splits)

lemma Receive_inv: "store_inv st log \<Longrightarrow> store_inv (fst (Receive None now st)) log"
proof -
  assume inv: "store_inv st log"
  obtain st' r where "receive_scan now st (scan_order st) None = (st', r)" by fastforce
  then show ?thesis using inv receive_scan_store [of now st "scan_order st" None st' r]
    by (auto simp: Receive_def store_inv_def)
qed

lemma Acquire_inv:
  assumes inv: "store_inv st log" and step: "perform jv encode now (DoAcquire i owner ttl) st = (st', evs)"
  shows "store_inv st' (log @ evs)"
proof (cases "snd (Acquire None now i owner ttl st)")
  case (Inl e)
  then have "st' = st" "evs = []"
    using step by (auto simp: Acquire_def Let_def split: option.splits if_splits)
  then show ?thesis using inv by simp
next
  case (Inr l)
  then obtain s where s: "ls_sessions st i = Some s" "ss_generation s \<noteq> maxUint64" "owner \<noteq> ''''"
    and l: "l = \<lparr>le_actor = i, le_owner = owner, le_fence = ss_generation s + 1, le_expires = now + ttl\<rparr>"
    and st': "st' = signal (put_session i (s\<lparr>ss_generation := ss_generation s + 1, ss_lease := l,
        ss_needs_execution := True\<rparr>) st)" "evs = [Granted l]"
    using step by (auto simp: Acquire_def Let_def split: option.splits if_splits)
  have "session_inv (s\<lparr>ss_generation := ss_generation s + 1, ss_lease := l, ss_needs_execution := True\<rparr>)
      (accepted_of i log) (acked_of i log) (grants_of i log @ [l])"
    by (rule session_inv_acquire [OF store_inv_session [OF inv s(1)] s(2)]) (simp_all add: l s(3))
  then show ?thesis unfolding st' by (intro store_inv_put(2) [OF inv]) (simp_all add: s(1) l)
qed

lemma Renew_inv: "store_inv st log \<Longrightarrow> store_inv (fst (Renew None now now' l ttl st)) log"
proof (cases "snd (Renew None now now' l ttl st)")
  case (Inl e)
  assume "store_inv st log"
  then show ?thesis using Inl by (auto simp: Renew_def Let_def split: if_splits sum.splits)
next
  case (Inr l')
  assume inv: "store_inv st log"
  from Inr obtain s where s: "ls_sessions st (le_actor l) = Some s"
    and st': "fst (Renew None now now' l ttl st) = signal (put_session (le_actor l)
      (s\<lparr>ss_lease := (ss_lease s)\<lparr>le_expires := now' + ttl\<rparr>\<rparr>) st)"
    by (auto simp: Renew_def Let_def owned_Inr split: if_splits sum.splits)
  show ?thesis unfolding st'
    using store_inv_put(2) [OF inv, of "le_actor l" _ "[]"] s
      session_inv_renew [OF store_inv_session [OF inv s]] by simp
qed

lemma Release_inv: "store_inv st log \<Longrightarrow> store_inv (fst (Release None now l st)) log"
proof (cases "snd (Release None now l st)")
  case (Inl e)
  assume "store_inv st log"
  then show ?thesis using Inl by (auto simp: Release_def split: sum.splits)
next
  case (Inr u)
  assume inv: "store_inv st log"
  from Inr obtain s where s: "ls_sessions st (le_actor l) = Some s"
    and st': "fst (Release None now l st) = signal (put_session (le_actor l)
      (s\<lparr>ss_lease := zero_lease, ss_needs_execution := False\<rparr>) st)"
    by (auto simp: Release_def owned_Inr split: sum.splits)
  show ?thesis unfolding st'
    using store_inv_put(2) [OF inv, of "le_actor l" _ "[]"] s
      session_inv_release [OF store_inv_session [OF inv s]] by simp
qed

lemma Acknowledge_inv:
  assumes inv: "store_inv st log" and step: "perform jv encode now (DoAcknowledge l i r) st = (st', evs)"
  shows "store_inv st' (log @ evs)"
proof (cases "snd (Acknowledge None now l i r st)")
  case (Inl e)
  then have "st' = st" "evs = []"
    using step by (auto simp: Acknowledge_def split: if_splits sum.splits)
  then show ?thesis using inv by simp
next
  case (Inr u)
  obtain s where own: "owned now l st = Inr s"
    using Inr by (cases "owned now l st") (simp_all add: Acknowledge_def)
  then have s: "ls_sessions st (le_actor l) = Some s" by (simp add: owned_Inr)
  have ok: "ss_history s i \<noteq> None \<and> \<not> (rp_command_id r \<noteq> i \<or> rp_session_id r = '''' \<or>
      (rp_guarantee r \<noteq> AcceptanceAccepted \<and> rp_guarantee r \<noteq> AcceptanceDurable))"
    by (rule ccontr) (use Inr own in \<open>simp add: Acknowledge_def split: if_split_asm\<close>)
  then have ack: "Acknowledge None now l i r st =
      (put_session (le_actor l) (s\<lparr>ss_pending := removeAll i (ss_pending s)\<rparr>) st, Inr ())"
    unfolding Acknowledge_def own option.case sum.case by (simp only: if_False simp_thms)
  then have st': "st' = put_session (le_actor l) (s\<lparr>ss_pending := removeAll i (ss_pending s)\<rparr>) st"
    "evs = [Acked (le_actor l) i]"
    using step by simp_all
  note s = s conjunct1 [OF ok]
  show ?thesis unfolding st'
    by (intro store_inv_put(1) [OF inv])
      (use s session_inv_ack [OF store_inv_session [OF inv s(1)] s(2)] in auto)
qed

lemma perform_inv:
  assumes inv: "store_inv st log" and step: "perform jv encode now op st = (st', evs)"
  shows "store_inv st' (log @ evs)"
proof (cases op)
  case (DoSubmit c)
  then show ?thesis using Submit_inv [OF inv] step by blast
next
  case (DoAcquire i owner ttl)
  then show ?thesis using Acquire_inv [OF inv] step by blast
next
  case (DoAcknowledge l i r)
  then show ?thesis using Acknowledge_inv [OF inv] step by blast
next
  case (DoRecover i)
  then show ?thesis using Recover_inv [OF inv, of i] step by simp
next
  case DoReceive
  then show ?thesis using Receive_inv [OF inv, of now] step by simp
next
  case (DoRenew now' l ttl)
  then show ?thesis using Renew_inv [OF inv, of now now' l ttl] step by simp
next
  case (DoRelease l)
  then show ?thesis using Release_inv [OF inv, of now l] step by simp
qed

lemma channel_run_inv: "channel_run jv encode st log \<Longrightarrow> store_inv st log"
proof (induction rule: channel_run.induct)
  case run_start
  then show ?case using session_inv_new by (simp add: store_inv_def lookup_def New_def)
next
  case (run_step st log now op st' evs)
  then show ?case using perform_inv by blast
qed

subsection \<open>Fencing\<close>

lemma owned_last_grant:
  assumes inv: "store_inv st log" and own: "owned now l st = Inr s"
  obtains gs g where "grants_of (le_actor l) log = gs @ [g]" "le_owner g = le_owner l"
    "le_fence g = le_fence l" "\<And>g'. g' \<in> set gs \<Longrightarrow> le_fence g' < le_fence l"
proof -
  let ?gs = "grants_of (le_actor l) log"
  have s: "ls_sessions st (le_actor l) = Some s" "le_owner (ss_lease s) \<noteq> ''''"
    "le_owner (ss_lease s) = le_owner l" "le_fence (ss_lease s) = le_fence l"
    using own by (auto simp: owned_Inr)
  then have inv': "?gs \<noteq> []" "le_owner (last ?gs) = le_owner l" "le_fence (last ?gs) = le_fence l"
    "map (\<lambda>l. unat (le_fence l)) ?gs = [1..<Suc (unat (ss_generation s))]"
    using store_inv_session [OF inv s(1)] by (auto simp: session_inv_def lease_of_last_def)
  obtain gs g where gs: "?gs = gs @ [g]" using inv'(1) by (cases ?gs rule: rev_exhaust) auto
  have "sorted_wrt (<) (map (\<lambda>l. unat (le_fence l)) (gs @ [g]))"
    using inv'(4) gs by (metis sorted_wrt_upt)
  then have "le_fence g' < le_fence g" if "g' \<in> set gs" for g'
    using that by (simp add: sorted_wrt_append word_less_nat_alt)
  then show thesis using that [OF gs] inv'(2,3) gs by simp
qed

text \<open>
  C14. Ownership is fenced.  After any history of operations, whatever the clocks read: a lease that
  passes the ownership check is the last one granted for its actor, and every earlier grant has a
  smaller fence; while a lease passes the check nobody can acquire the actor; and an earlier grant
  commits nothing to the journal.
\<close>

theorem ownership_fenced:
  assumes run: "channel_run jv encode st log" and own: "owned now l st = Inr s"
  shows "\<exists>gs g. grants_of (le_actor l) log = gs @ [g] \<and> le_owner g = le_owner l \<and>
      le_fence g = le_fence l \<and> (\<forall>g' \<in> set gs. le_fence g' < le_fence l \<and>
        (\<forall>now' mutate j. Commit None now' g' st mutate j = (j, Inl (Sentinel ErrLeaseLost)))) \<and>
      (\<forall>owner ttl. \<not> is_ok (snd (Acquire None now (le_actor l) owner ttl st)))"
proof -
  obtain gs g where g: "grants_of (le_actor l) log = gs @ [g]" "le_owner g = le_owner l"
    "le_fence g = le_fence l" "\<And>g'. g' \<in> set gs \<Longrightarrow> le_fence g' < le_fence l"
    using owned_last_grant [OF channel_run_inv [OF run] own] by blast
  have s: "ls_sessions st (le_actor l) = Some s" "le_owner (ss_lease s) \<noteq> ''''"
    "le_fence (ss_lease s) = le_fence l" "le_expires (ss_lease s) > now"
    using own by (auto simp: owned_Inr)
  have "\<not> is_ok (snd (Acquire None now (le_actor l) owner ttl st))" for owner ttl
    using s by (simp add: Acquire_def lease_free_def)
  moreover have "Commit None now' g' st mutate j = (j, Inl (Sentinel ErrLeaseLost))" if "g' \<in> set gs" for now' g' mutate j
  proof -
    have "g' \<in> set (grants_of (le_actor l) log)" using that g(1) by simp
    then have "le_actor g' = le_actor l"
      by (auto simp: grants_of_def split: channel_event.splits if_splits)
    moreover have "le_fence g' \<noteq> le_fence l" using g(4) [OF that] by simp
    ultimately have "owned now' g' st = Inl (Sentinel ErrLeaseLost)" using s by (simp add: owned_def)
    then show ?thesis by (simp add: Commit_def)
  qed
  ultimately show ?thesis
    by (intro exI [of _ gs] exI [of _ g] conjI ballI allI g) (simp_all add: g(4))
qed

subsection \<open>Witness history\<close>

text \<open>Two commands, a grant, an acknowledgement, an expired lease and a second grant.\<close>

definition example_command :: "string \<Rightarrow> actor_command" where
  "example_command i =
     \<lparr>cm_id = i, cm_actor = ''s'', cm_sequence = 0,
      cm_command = \<lparr>sk_id = '''', sk_kind = CommandStart, sk_run_id = '''',
        sk_input = Some \<lparr>si_blocks = [\<lparr>ib_kind = InputBlockText, ib_text = ''hi'', ib_media_type = '''',
          ib_data = ''''\<rparr>], si_meta = []\<rparr>,
        sk_resolution = None, sk_idempotency_key = ''''\<rparr>\<rparr>"

definition example_receipt :: "string \<Rightarrow> receipt" where
  "example_receipt i =
     \<lparr>rp_command_id = i, rp_session_id = ''s'', rp_run_id = '''', rp_queue_id = '''',
      rp_position = \<lparr>ps_sequence = 0, ps_token = ''''\<rparr>, rp_guarantee = AcceptanceAccepted,
      rp_rejection = RejectionNone\<rparr>"

fun run_ops :: "(int \<times> operation) list \<Rightarrow> store \<times> channel_event list \<Rightarrow> store \<times> channel_event list" where
  "run_ops [] s = s"
| "run_ops ((now, op) # ops) s =
     (case perform (\<lambda>_. True) (\<lambda>c. Inr (sk_id c)) now op (fst s) of
        (st, evs) \<Rightarrow> run_ops ops (st, snd s @ evs))"

lemma run_ops_run:
  "channel_run (\<lambda>_. True) (\<lambda>c. Inr (sk_id c)) (fst s) (snd s) \<Longrightarrow>
     channel_run (\<lambda>_. True) (\<lambda>c. Inr (sk_id c)) (fst (run_ops ops s)) (snd (run_ops ops s))"
  by (induction ops s rule: run_ops.induct) (auto split: prod.split dest: channel_run.run_step)

definition example_lease :: "string \<Rightarrow> 64 word \<Rightarrow> int \<Rightarrow> lease" where
  "example_lease owner f t = \<lparr>le_actor = ''s'', le_owner = owner, le_fence = f, le_expires = t\<rparr>"

definition example_ops :: "(int \<times> operation) list" where
  "example_ops =
     [(0, DoSubmit (example_command ''a'')), (0, DoSubmit (example_command ''b'')),
      (1, DoAcquire ''s'' ''w1'' 5), (2, DoAcknowledge (example_lease ''w1'' 1 6) ''a'' (example_receipt ''a'')),
      (7, DoAcquire ''s'' ''w2'' 5)]"

lemma example_run:
  "channel_run (\<lambda>_. True) (\<lambda>c. Inr (sk_id c)) (fst (run_ops example_ops (New, [])))
     (snd (run_ops example_ops (New, [])))"
  by (rule run_ops_run) (simp add: run_start)

lemma example_owned:
  "is_ok (owned 8 (example_lease ''w2'' 2 12) (fst (run_ops example_ops (New, []))))"
  by code_simp

lemma ownership_fenced_witness:
  "\<not> is_ok (snd (Acquire None 8 ''s'' ''w3'' 5 (fst (run_ops example_ops (New, [])))))"
proof -
  obtain s where "owned 8 (example_lease ''w2'' 2 12) (fst (run_ops example_ops (New, []))) = Inr s"
    using example_owned by (cases "owned 8 (example_lease ''w2'' 2 12) (fst (run_ops example_ops (New, [])))") auto
  then show ?thesis using ownership_fenced [OF example_run] by (fastforce simp: example_lease_def)
qed

subsection \<open>Retention and delivery\<close>

lemma sorted_words:
  assumes "map (\<lambda>c. unat (cm_sequence c)) cs = [1..<n]"
  shows "sorted (map cm_sequence cs)"
proof -
  have "sorted (map (\<lambda>c. unat (cm_sequence c)) cs)" unfolding assms by simp
  then show ?thesis by (simp add: sorted_map word_le_nat_alt)
qed

lemma sort_key_filtered:
  assumes "sorted (map f xs)"
  shows "sort_key f (filter P xs) = filter P xs"
proof -
  have "sorted (map f (filter P xs))" using assms by (induction xs) auto
  then show ?thesis by (rule sort_key_id_if_sorted)
qed

lemma pending_commands:
  assumes "session_inv s cs acks gs"
  shows "map (\<lambda>i. the (ss_history s i)) (ss_pending s) = unacked cs acks"
proof -
  have inv: "distinct (map cm_id cs)" "ss_history s = history_of cs"
    "ss_pending s = map cm_id (unacked cs acks)"
    using assms by (auto simp: session_inv_def)
  have "the (ss_history s (cm_id c)) = c" if "c \<in> set (unacked cs acks)" for c
    using that history_of_nth [OF inv(1)] inv(2) by (simp add: unacked_def)
  then show ?thesis by (simp add: inv(3) map_idI)
qed

text \<open>
  C32. What the mailbox delivers.  After any history, the owner of an actor reads, in the order of
  acceptance, exactly the accepted commands that were not acknowledged, after its cursor and up to
  its limit; accepted commands are numbered 1, 2, 3 and so on.
\<close>

theorem Pending_delivers:
  assumes run: "channel_run jv encode st log" and own: "owned now l st = Inr s"
  defines "cs \<equiv> accepted_of (le_actor l) log"
  shows "Pending None now l after limit st =
      (let found = filter (\<lambda>c. after < cm_sequence c \<and> cm_id c \<notin> set (acked_of (le_actor l) log)) cs in
       Inr (if limit > 0 then take (nat limit) found else found)) \<and>
    map (\<lambda>c. unat (cm_sequence c)) cs = [1..<Suc (length cs)]"
proof -
  have "ls_sessions st (le_actor l) = Some s" using own by (simp add: owned_Inr)
  then have inv: "session_inv s cs (acked_of (le_actor l) log) (grants_of (le_actor l) log)"
    using store_inv_session channel_run_inv [OF run] unfolding cs_def by blast
  then have seq: "map (\<lambda>c. unat (cm_sequence c)) cs = [1..<Suc (unat (ss_sequence s))]"
    by (simp add: session_inv_def)
  have "length cs = unat (ss_sequence s)" using arg_cong [OF seq, of length] by simp
  moreover have "filter (\<lambda>c. \<not> cm_sequence c \<le> after) (unacked cs acks) =
      filter (\<lambda>c. after < cm_sequence c \<and> cm_id c \<notin> set acks) cs" for acks
    by (simp add: unacked_def not_le conj_commute)
  ultimately show ?thesis
    using own seq sort_key_filtered [OF sorted_words [OF seq]]
    by (simp add: Pending_def Let_def pending_commands [OF inv])
qed

lemma Pending_delivers_witness:
  "Pending None 8 (example_lease ''w2'' 2 12) 0 1 (fst (run_ops example_ops (New, []))) =
     Inr [c \<leftarrow> accepted_of ''s'' (snd (run_ops example_ops (New, []))). cm_id c = ''b'']"
proof -
  let ?st = "fst (run_ops example_ops (New, []))" and ?log = "snd (run_ops example_ops (New, []))"
  obtain s where "owned 8 (example_lease ''w2'' 2 12) ?st = Inr s"
    using example_owned by (cases "owned 8 (example_lease ''w2'' 2 12) ?st") auto
  then have "Pending None 8 (example_lease ''w2'' 2 12) 0 1 ?st =
      Inr (take 1 (filter (\<lambda>c. 0 < cm_sequence c \<and> cm_id c \<notin> set (acked_of ''s'' ?log)) (accepted_of ''s'' ?log)))"
    using Pending_delivers [OF example_run, of 8 "example_lease ''w2'' 2 12" s 0 1]
    by (simp add: example_lease_def Let_def)
  moreover have "acked_of ''s'' ?log = [''a'']" "map cm_id (accepted_of ''s'' ?log) = [''a'', ''b'']"
    "map cm_sequence (accepted_of ''s'' ?log) = [1, 2]"
    by code_simp+
  ultimately show ?thesis by (auto simp: map_eq_Cons_conv)
qed

text \<open>An acknowledged command is never delivered again, and submitting it again is a duplicate.\<close>

lemma resubmission:
  assumes run: "channel_run jv encode st log" and norm: "Normalize jv c = Inr c1"
    and old: "c0 \<in> set (accepted_of (cm_actor c1) log)" "cm_id c0 = cm_id c1"
  shows "fst (Submit jv encode None c st) = st \<and>
    (snd (Submit jv encode None c st) = Inr (submitted c0 True) \<or>
     (\<exists>e. snd (Submit jv encode None c st) = Inl e))"
proof -
  note inv = channel_run_inv [OF run]
  obtain s where s: "ls_sessions st (cm_actor c1) = Some s"
    using inv old(1) by (cases "ls_sessions st (cm_actor c1)")
      (auto simp: store_inv_def lookup_def session_inv_def new_session_def dest!: spec [of _ "cm_actor c1"])
  have inv': "session_inv s (accepted_of (cm_actor c1) log) (acked_of (cm_actor c1) log)
      (grants_of (cm_actor c1) log)" by (rule store_inv_session [OF inv s])
  then have dist: "distinct (map cm_id (accepted_of (cm_actor c1) log))"
    and hist: "ss_history s = history_of (accepted_of (cm_actor c1) log)" by (auto simp: session_inv_def)
  then have "ss_history s (cm_id c1) = Some c0" using history_of_nth [OF dist old(1)] old(2) by simp
  then show ?thesis using norm s
    by (auto simp: Submit_def ensure_def split: sum.split)
qed

subsection \<open>Discovery\<close>

definition works :: "store \<Rightarrow> string \<Rightarrow> bool" where
  "works st i = (case ls_sessions st i of None \<Rightarrow> False | Some s \<Rightarrow> has_work s)"

definition claimable :: "int \<Rightarrow> store \<Rightarrow> string \<Rightarrow> bool" where
  "claimable now st i =
     (case ls_sessions st i of None \<Rightarrow> False | Some s \<Rightarrow> has_work s \<and> lease_free now s)"

definition deadline :: "store \<Rightarrow> string \<Rightarrow> int" where
  "deadline st i = le_expires (ss_lease (lookup st i))"

lemma scan_claim:
  "receive_scan now st xs e = (st', Claim i) \<Longrightarrow>
     \<exists>ys x zs. xs = ys @ x # zs \<and> i = ls_order st ! x \<and> claimable now st i \<and>
       (\<forall>y \<in> set ys. \<not> claimable now st (ls_order st ! y)) \<and>
       st' = st\<lparr>ls_next := (x + 1) mod length (ls_order st)\<rparr>"
proof (induction now st xs e rule: receive_scan.induct)
  case (2 now st index rest e)
  then obtain s where s: "ls_sessions st (ls_order st ! index) = Some s"
    by (cases "ls_sessions st (ls_order st ! index)") auto
  show ?case
  proof (cases "has_work s \<and> lease_free now s")
    case True
    then have "i = ls_order st ! index" "st' = st\<lparr>ls_next := (index + 1) mod length (ls_order st)\<rparr>"
      using 2(3) s by auto
    then show ?thesis using s True
      by (intro exI [of _ "[]"] exI [of _ index] exI [of _ rest]) (simp add: claimable_def)
  next
    case False
    then have no: "\<not> claimable now st (ls_order st ! index)" using s by (simp add: claimable_def)
    have "\<exists>ys x zs. rest = ys @ x # zs \<and> i = ls_order st ! x \<and> claimable now st i \<and>
        (\<forall>y \<in> set ys. \<not> claimable now st (ls_order st ! y)) \<and>
        st' = st\<lparr>ls_next := (x + 1) mod length (ls_order st)\<rparr>"
    proof (cases "has_work s")
      case True
      then show ?thesis using 2(2) [OF s _ _] 2(3) s False by simp
    next
      case False
      then show ?thesis using 2(1) [OF s] 2(3) s by simp
    qed
    then obtain ys x zs where "rest = ys @ x # zs" "i = ls_order st ! x" "claimable now st i"
        "\<forall>y \<in> set ys. \<not> claimable now st (ls_order st ! y)"
        "st' = st\<lparr>ls_next := (x + 1) mod length (ls_order st)\<rparr>" by blast
    then show ?thesis using no
      by (intro exI [of _ "index # ys"] exI [of _ x] exI [of _ zs]) simp
  qed
qed simp

lemma scan_wait:
  "receive_scan now st xs e = (st', Wait e') \<Longrightarrow>
     st' = st \<and> (\<forall>x \<in> set xs. \<not> claimable now st (ls_order st ! x)) \<and>
     (case e' of
        None \<Rightarrow> e = None \<and> (\<forall>x \<in> set xs. \<not> works st (ls_order st ! x))
      | Some t \<Rightarrow>
          (e = Some t \<or> (\<exists>x \<in> set xs. works st (ls_order st ! x) \<and> deadline st (ls_order st ! x) = t)) \<and>
          (\<forall>u. e = Some u \<longrightarrow> t \<le> u) \<and>
          (\<forall>x \<in> set xs. works st (ls_order st ! x) \<longrightarrow> t \<le> deadline st (ls_order st ! x)))"
proof (induction now st xs e rule: receive_scan.induct)
  case (1 now st e)
  then show ?case by (auto split: option.split)
next
  case (2 now st index rest e)
  then obtain s where s: "ls_sessions st (ls_order st ! index) = Some s"
    by (cases "ls_sessions st (ls_order st ! index)") auto
  have facts: "works st (ls_order st ! index) = has_work s"
    "claimable now st (ls_order st ! index) = (has_work s \<and> lease_free now s)"
    "deadline st (ls_order st ! index) = le_expires (ss_lease s)"
    using s by (simp_all add: works_def claimable_def deadline_def lookup_def)
  show ?case
  proof (cases "has_work s")
    case False
    then show ?thesis using 2(1) [OF s False] 2(3) s facts by (cases e') simp_all
  next
    case True
    then have busy: "\<not> lease_free now s" using 2(3) s by auto
    have rec: "receive_scan now st rest (case e of None \<Rightarrow> Some (le_expires (ss_lease s))
        | Some t \<Rightarrow> if le_expires (ss_lease s) < t then Some (le_expires (ss_lease s)) else e) = (st', Wait e')"
      using 2(3) s True busy by simp
    have "\<not> \<not> has_work s" using True by simp
    from 2(2) [OF s this busy rec] show ?thesis using facts True busy
      by (cases e'; cases e) (auto split: if_splits)
  qed
qed

lemma scan_total:
  "\<forall>x \<in> set xs. ls_sessions st (ls_order st ! x) \<noteq> None \<Longrightarrow> receive_scan now st xs e \<noteq> (st', NilSession)"
  by (induction now st xs e rule: receive_scan.induct) (auto split: option.splits)

lemma scan_order_set: "ls_order st \<noteq> [] \<Longrightarrow> (\<lambda>x. ls_order st ! x) ` set (scan_order st) = set (ls_order st)"
proof -
  assume ne: "ls_order st \<noteq> []"
  let ?n = "length (ls_order st)"
  have "set (scan_order st) = {0..<?n}"
  proof
    show "set (scan_order st) \<subseteq> {0..<?n}" using ne by (auto simp: scan_order_def)
    show "{0..<?n} \<subseteq> set (scan_order st)"
    proof
      fix x assume x: "x \<in> {0..<?n}"
      let ?k = "(x + (?n - ls_next st mod ?n)) mod ?n"
      have "(ls_next st + ?k) mod ?n = (ls_next st mod ?n + (x + (?n - ls_next st mod ?n))) mod ?n"
        by (simp add: mod_simps)
      also have "ls_next st mod ?n + (x + (?n - ls_next st mod ?n)) = x + ?n"
      proof -
        have "ls_next st mod ?n < ?n" using ne by simp
        then show ?thesis by linarith
      qed
      also have "(x + ?n) mod ?n = x" using x by simp
      finally have "(ls_next st + ?k) mod ?n = x" .
      moreover have "?k < ?n" using ne by simp
      ultimately show "x \<in> set (scan_order st)" by (force simp: scan_order_def)
    qed
  qed
  then show ?thesis using nth_image [of ?n "ls_order st"] by (simp only: take_all order_refl)
qed

text \<open>How many actors are looked at before one.\<close>

definition turn :: "store \<Rightarrow> string \<Rightarrow> nat" where
  "turn st i = length (takeWhile (\<lambda>x. ls_order st ! x \<noteq> i) (scan_order st))"

lemma turn_inj:
  assumes "(a + q) mod n = (a + p) mod n" "q < n" "p < (n :: nat)"
  shows "q = p"
proof (rule ccontr)
  assume "q \<noteq> p"
  then consider "q < p" | "p < q" by linarith
  then show False
  proof cases
    case 1
    then have "n dvd (a + p) - (a + q)" using assms(1) mod_eq_dvd_iff_nat [of "a + q" "a + p" n] by simp
    then show False using 1 assms(3) by (auto dest: dvd_imp_le)
  next
    case 2
    then have "n dvd (a + q) - (a + p)" using assms(1) mod_eq_dvd_iff_nat [of "a + p" "a + q" n] by simp
    then show False using 2 assms(2) by (auto dest: dvd_imp_le)
  qed
qed

lemma takeWhile_at: "\<forall>x \<in> set xs. P x \<Longrightarrow> \<not> P y \<Longrightarrow> takeWhile P (xs @ y # ys) = xs"
  by (induction xs) auto

lemma turn_eq:
  assumes dist: "distinct (ls_order st)" and p: "p < length (ls_order st)"
    and i: "ls_order st ! ((ls_next st + p) mod length (ls_order st)) = i"
  shows "turn st i = p"
proof -
  let ?n = "length (ls_order st)" and ?f = "\<lambda>j. (ls_next st + j) mod length (ls_order st)"
  have pos: "?f q < ?n" for q using p by (intro mod_less_divisor) auto
  have "ls_order st ! ?f q \<noteq> i" if "q < p" for q
  proof
    assume "ls_order st ! ?f q = i"
    then have "?f q = ?f p" using i nth_eq_iff_index_eq [OF dist pos [of q] pos [of p]] by simp
    then show False using turn_inj [of "ls_next st" q ?n p] that p by simp
  qed
  moreover have "[0..<?n] = [0..<p] @ p # [Suc p..<?n]"
    using p upt_add_eq_append [of 0 p "?n - p"] by (simp add: upt_conv_Cons)
  ultimately show ?thesis using i by (simp add: turn_def scan_order_def takeWhile_at)
qed

lemma receive_turn:
  assumes inv: "store_inv st log" and claim: "Receive None now st = (st', Inr (Claim i'))"
    and i: "claimable now st i" "i \<noteq> i'"
  shows "turn st' i < turn st i"
proof -
  let ?n = "length (ls_order st)" and ?f = "\<lambda>j. (ls_next st + j) mod length (ls_order st)"
  have dist: "distinct (ls_order st)" and order: "set (ls_order st) = dom (ls_sessions st)"
    using inv by (auto simp: store_inv_def)
  have scan: "receive_scan now st (scan_order st) None = (st', Claim i')"
    using claim by (auto simp: Receive_def split: prod.splits)
  obtain ys x zs where xs: "scan_order st = ys @ x # zs" "i' = ls_order st ! x"
    "\<forall>y \<in> set ys. \<not> claimable now st (ls_order st ! y)"
    "st' = st\<lparr>ls_next := (x + 1) mod ?n\<rparr>"
    using scan_claim [OF scan] by blast
  have "i \<in> set (ls_order st)" using i(1) order by (auto simp: claimable_def split: option.splits)
  moreover from this have ne: "ls_order st \<noteq> []" by auto
  ultimately have "i \<in> (\<lambda>x. ls_order st ! x) ` set (scan_order st)"
    using scan_order_set [OF ne] by blast
  then obtain v where v: "v \<in> set (scan_order st)" "ls_order st ! v = i" by blast
  then obtain p where p: "p < ?n" "?f p = v" by (auto simp: scan_order_def)
  have "ys @ x # zs = map ?f [0..<?n]" using xs(1) by (simp add: scan_order_def)
  then have k: "length ys < ?n" "x = ?f (length ys)" "\<And>q. q < length ys \<Longrightarrow> ys ! q = ?f q"
  proof -
    assume a: "ys @ x # zs = map ?f [0..<?n]"
    show "length ys < ?n" using arg_cong [OF a, of length] by simp
    then show "x = ?f (length ys)" using arg_cong [OF a, of "\<lambda>l. l ! length ys"] by simp
    show "ys ! q = ?f q" if "q < length ys" for q
      using arg_cong [OF a, of "\<lambda>l. l ! q"] that \<open>length ys < ?n\<close> by (simp add: nth_append)
  qed
  have "\<not> p < length ys"
  proof
    assume "p < length ys"
    then have "v \<in> set ys" using k(3) p(2) by (metis nth_mem)
    then show False using xs(3) i(1) v(2) by blast
  qed
  moreover have "p \<noteq> length ys" using k(2) p(2) v(2) xs(2) i(2) by auto
  ultimately have later: "length ys < p" by simp
  have "((a + b) mod n + 1 + d) mod n = (a + (b + 1 + d)) mod n" for a b d n :: nat
    using mod_add_left_eq [of "a + b" n "1 + d"] by (simp only: add.assoc)
  then have "((?f (length ys) + 1) mod ?n + (p - Suc (length ys))) mod ?n =
      (ls_next st + (length ys + 1 + (p - Suc (length ys)))) mod ?n"
    by (metis mod_add_left_eq)
  then have "((x + 1) mod ?n + (p - Suc (length ys))) mod ?n = v"
    using later k(2) p(2) by simp
  then have "turn st' i = p - Suc (length ys)"
    using turn_eq [of st' "p - Suc (length ys)" i] dist p(1) v(2) xs(4) by simp
  moreover have "turn st i = p" using turn_eq [OF dist p(1)] p(2) v(2) by simp
  ultimately show ?thesis using later by simp
qed

text \<open>Nothing becomes claimable without a signal.\<close>

lemma put_changed [simp]:
  "ls_changed (put_session i s st) = ls_changed st" "ls_changed (signal st) = ls_changed st + 1"
  by (simp_all add: put_session_def signal_def)

lemma claimable_put:
  "claimable t (signal st) i = claimable t st i"
  "claimable t (put_session j s st) i =
     (if i = j then has_work s \<and> lease_free t s else claimable t st i)"
  by (auto simp: claimable_def)

lemma ensure_quiet:
  "ensure j st = (st1, s) \<Longrightarrow> ls_changed st1 = ls_changed st \<and> claimable t st1 i = claimable t st i"
  by (auto simp: ensure_def claimable_def new_session_def has_work_def put_session_def
      split: option.splits if_splits)

lemma wakeup:
  assumes step: "perform jv encode now op st = (st', evs)"
    and claim: "claimable t st' i" "\<not> claimable t st i"
  shows "ls_changed st < ls_changed st'"
proof (cases op)
  case (DoRecover j)
  obtain st1 s where e: "ensure j st = (st1, s)" by fastforce
  then show ?thesis using DoRecover step claim ensure_quiet [OF e]
    by (auto simp: Recover_def split: if_splits)
next
  case (DoSubmit c)
  then have st': "st' = fst (Submit jv encode None c st)" using step by (auto split: prod.splits sum.splits)
  show ?thesis
  proof (cases "Normalize jv c")
    case (Inl e)
    then show ?thesis using claim by (simp add: st' Submit_def)
  next
    case norm: (Inr c1)
    show ?thesis
    proof (cases "encode (cm_command c1)")
      case (Inl e)
      then show ?thesis using norm claim by (simp add: st' Submit_def)
    next
      case (Inr encoded)
      obtain st1 s where e: "ensure (cm_actor c1) st = (st1, s)" by fastforce
      note quiet = ensure_quiet [OF e]
      have "st' = st1 \<or> ls_changed st' = ls_changed st1 + 1"
        by (auto simp: st' Submit_def norm Inr e Let_def split: option.split)
      then show ?thesis using quiet claim by auto
    qed
  qed
next
  case DoReceive
  obtain st1 r where r: "receive_scan now st (scan_order st) None = (st1, r)" by fastforce
  then have "claimable t st1 i = claimable t st i"
    using receive_scan_store [OF r] by (auto simp: claimable_def)
  then show ?thesis using DoReceive step claim r by (simp add: Receive_def)
next
  case (DoAcknowledge l j r)
  then show ?thesis using step claim
    by (auto simp: Acknowledge_def claimable_put has_work_def owned_Inr claimable_def lease_free_def
        split: sum.splits if_splits)
next
  case (DoAcquire j owner ttl)
  then show ?thesis using step claim
    by (auto simp: Acquire_def Let_def split: option.splits if_splits)
next
  case (DoRenew now' l ttl)
  then show ?thesis using step claim by (auto simp: Renew_def Let_def split: sum.splits if_splits)
next
  case (DoRelease l)
  then show ?thesis using step claim by (auto simp: Release_def split: sum.splits)
qed

lemma receive_decides:
  assumes inv: "store_inv st log" and recv: "Receive None now st = (st', Inr r)"
  shows "(case r of
      Claim i \<Rightarrow> claimable now st i
    | Wait e \<Rightarrow> (\<forall>i. \<not> claimable now st i) \<and>
        (case e of
           None \<Rightarrow> \<forall>i. \<not> works st i
         | Some t \<Rightarrow> now < t \<and> (\<exists>i. works st i \<and> claimable t st i \<and> (\<forall>j. works st j \<longrightarrow> t \<le> deadline st j)))
    | NilSession \<Rightarrow> False)"
proof -
  have scan: "receive_scan now st (scan_order st) None = (st', r)"
    using recv by (auto simp: Receive_def split: prod.splits)
  have order: "set (ls_order st) = dom (ls_sessions st)" using inv by (auto simp: store_inv_def)
  have all: "\<exists>x \<in> set (scan_order st). ls_order st ! x = i" if "ls_sessions st i \<noteq> None" for i
  proof -
    have i: "i \<in> set (ls_order st)" using that order by auto
    then have "ls_order st \<noteq> []" by auto
    then have "i \<in> (\<lambda>x. ls_order st ! x) ` set (scan_order st)" using scan_order_set i by blast
    then show ?thesis by blast
  qed
  show ?thesis
  proof (cases r)
    case (Claim i)
    then show ?thesis using scan_claim [of now st "scan_order st" None st' i] scan by auto
  next
    case NilSession
    have "\<forall>x \<in> set (scan_order st). ls_sessions st (ls_order st ! x) \<noteq> None"
    proof
      fix x assume "x \<in> set (scan_order st)"
      then have "x < length (ls_order st)" by (auto simp: scan_order_def intro!: mod_less_divisor)
      then show "ls_sessions st (ls_order st ! x) \<noteq> None" using order nth_mem by blast
    qed
    then show ?thesis using scan_total NilSession scan by blast
  next
    case (Wait e)
    note w = scan_wait [of now st "scan_order st" None st' e, OF scan [unfolded Wait]]
    have none: "\<not> claimable now st i" for i
    proof (cases "ls_sessions st i = None")
      case True
      then show ?thesis by (simp add: claimable_def)
    next
      case False
      then show ?thesis using all w by blast
    qed
    have work: "works st i \<Longrightarrow> \<exists>x \<in> set (scan_order st). ls_order st ! x = i" for i
      using all by (cases "ls_sessions st i") (auto simp: works_def)
    show ?thesis
    proof (cases e)
      case None
      then show ?thesis using none w work Wait by auto
    next
      case (Some t)
      then obtain x where x: "works st (ls_order st ! x)" "deadline st (ls_order st ! x) = t"
        "\<forall>x \<in> set (scan_order st). works st (ls_order st ! x) \<longrightarrow> t \<le> deadline st (ls_order st ! x)"
        using w by auto
      obtain s where s: "ls_sessions st (ls_order st ! x) = Some s" "has_work s"
        using x(1) by (auto simp: works_def split: option.splits)
      have "\<not> lease_free now s" using none [of "ls_order st ! x"] s by (simp add: claimable_def)
      then have "now < t" "lease_free t s" using x(2) s by (auto simp: lease_free_def deadline_def lookup_def)
      moreover have "claimable t st (ls_order st ! x)"
        using s \<open>lease_free t s\<close> by (simp add: claimable_def)
      moreover have "t \<le> deadline st j" if "works st j" for j using work [OF that] x(3) that by auto
      ultimately show ?thesis using none x(1) Some Wait by auto
    qed
  qed
qed

text \<open>
  C34. Retained work is found again without another submission.  After any history: the receiver
  returns only an actor with work that nobody owns, and returns one whenever there is one; otherwise
  it sleeps until the first ownership of an actor with work expires, when that actor can be claimed.
  An actor passed over comes closer to its turn with every discovery of another, and no operation
  makes an actor claimable without waking the receivers.
\<close>

theorem Receive_discovers:
  assumes run: "channel_run jv encode st log"
  shows "\<exists>st' r. Receive None now st = (st', Inr r) \<and>
    (case r of
       Claim i \<Rightarrow> claimable now st i \<and> (\<forall>j. claimable now st j \<longrightarrow> j \<noteq> i \<longrightarrow> turn st' j < turn st j)
     | Wait e \<Rightarrow> (\<forall>i. \<not> claimable now st i) \<and>
         (case e of
            None \<Rightarrow> \<forall>i. \<not> works st i
          | Some t \<Rightarrow> now < t \<and> (\<exists>i. claimable t st i \<and> (\<forall>j. works st j \<longrightarrow> t \<le> deadline st j)))
     | NilSession \<Rightarrow> False) \<and>
    (\<forall>now' op st'' evs t i. perform jv encode now' op st = (st'', evs) \<longrightarrow>
       claimable t st'' i \<longrightarrow> \<not> claimable t st i \<longrightarrow> ls_changed st < ls_changed st'')"
proof -
  obtain st' r where recv: "Receive None now st = (st', Inr r)"
    by (cases "receive_scan now st (scan_order st) None") (simp add: Receive_def)
  note inv = channel_run_inv [OF run]
  have turns: "turn st' j < turn st j" if "r = Claim i" "claimable now st j" "j \<noteq> i" for i j
    using receive_turn [OF inv recv [unfolded that(1)] that(2,3)] .
  have "\<forall>now' op st'' evs t i. perform jv encode now' op st = (st'', evs) \<longrightarrow>
       claimable t st'' i \<longrightarrow> \<not> claimable t st i \<longrightarrow> ls_changed st < ls_changed st''"
    using wakeup by blast
  then show ?thesis using recv receive_decides [OF inv recv] turns
    by (intro exI [of _ st'] exI [of _ r]) (auto split: received.splits option.splits)
qed

lemma Receive_discovers_witness:
  "\<exists>st'. Receive None 12 (fst (run_ops example_ops (New, []))) = (st', Inr (Claim ''s''))"
proof -
  let ?st = "fst (run_ops example_ops (New, []))"
  have s: "is_ok (snd (Receive None 12 ?st))" "claimable 12 ?st ''s''" by code_simp+
  have order: "ls_order ?st = [''s'']" by code_simp
  obtain st' r where r: "Receive None 12 ?st = (st', Inr r)" "\<not> (\<exists>e. r = Wait e)" "r \<noteq> NilSession"
    using Receive_discovers [OF example_run, of 12] s(2) by (fastforce split: received.splits)
  then obtain i where i: "r = Claim i" by (cases r) auto
  have "receive_scan 12 ?st (scan_order ?st) None = (st', Claim i)"
    using r(1) i by (auto simp: Receive_def split: prod.splits)
  then obtain x where "i = ls_order ?st ! x" "x \<in> set (scan_order ?st)" using scan_claim by fastforce
  then have "i = ''s''" using order by (auto simp: scan_order_def)
  then show ?thesis using r(1) i by auto
qed

end
