(* ===== verification/Delivery.thy ===== *)
theory Delivery
  imports Channel_Props
begin

text \<open>
  The worker's hand-over of one mailbox command to its session (\<^verbatim>\<open>deliver\<close>, \<^verbatim>\<open>terminalRejection\<close>,
  \<^verbatim>\<open>quiescent\<close>, \<^verbatim>\<open>observe\<close> of harness/sessionloop/actor/worker.go and the interface \<^verbatim>\<open>Session\<close> of
  adapter.go).  The session is an interface: its calls are the functions of the record below, on a
  state of any type.  The adapter is the mailbox store; its declared guarantee is an argument.
\<close>

datatype session_phase =
    StateIdle | StateRunning | StateClosing | StateSuspended | StateInterrupting | StateFaulted
  | StateClosed | StateOther string

record snapshot =
  sn_state :: session_phase
  sn_active_run :: string
  sn_position :: position
  sn_suspended :: bool

record 's session_port =
  se_id :: string
  se_acceptance :: "session_command \<Rightarrow> 's \<Rightarrow> (receipt \<times> bool) result \<times> 's"
  se_dispatch :: "session_command \<Rightarrow> 's \<Rightarrow> receipt result \<times> 's"
  se_reject :: "session_command \<Rightarrow> rejection \<Rightarrow> 's \<Rightarrow> receipt result \<times> 's"

definition rejection_valid :: "rejection \<Rightarrow> bool" where
  "rejection_valid r =
     (case r of RejectionNone \<Rightarrow> False | RejectionOther _ \<Rightarrow> False | _ \<Rightarrow> True)"

definition quiescent :: "snapshot \<Rightarrow> bool" where
  "quiescent s = (sn_state s = StateIdle \<or> sn_state s = StateSuspended \<and> sn_suspended s)"

definition terminalRejection :: "go_error \<Rightarrow> rejection" where
  "terminalRejection e =
     (if errors_is ErrStaleRun e then RejectionStaleRun
      else if errors_is ErrNotRunning e then RejectionNotRunning
      else if errors_is ErrUnsupported e then RejectionUnsupported
      else if errors_is ErrInvalidCommand e then RejectionInvalidCommand
      else RejectionNone)"

definition position_zero :: "position \<Rightarrow> bool" where
  "position_zero p = (ps_sequence p = 0 \<and> ps_token p = '''')"

text \<open>The receipt must prove the acceptance of this command by this session.\<close>

definition receipt_proves :: "guarantee \<Rightarrow> string \<Rightarrow> session_command \<Rightarrow> receipt \<Rightarrow> bool" where
  "receipt_proves adapter session command receipt =
     (\<not> (rp_command_id receipt \<noteq> sk_id command \<or> rp_session_id receipt = '''' \<or>
         rp_session_id receipt \<noteq> session \<or>
         (rp_rejection receipt \<noteq> RejectionNone \<and>
           (\<not> rejection_valid (rp_rejection receipt) \<or> rp_run_id receipt \<noteq> '''' \<or>
            rp_queue_id receipt \<noteq> '''')) \<or>
         (rp_guarantee receipt \<noteq> AcceptanceAccepted \<and> rp_guarantee receipt \<noteq> AcceptanceDurable) \<or>
         (adapter = AcceptanceDurable \<and>
           (rp_guarantee receipt \<noteq> AcceptanceDurable \<or> position_zero (rp_position receipt)))))"

text \<open>Dispatch, with a terminal refusal recorded as a rejection.  None means the command is left
  for later: a start while the session is busy, or a busy or suspended session.\<close>

definition offer ::
  "'s session_port \<Rightarrow> snapshot \<Rightarrow> session_command \<Rightarrow> 's \<Rightarrow> receipt option result \<times> 's" where
  "offer session snap command s =
     (if sk_kind command = CommandStart \<and> sn_state snap \<noteq> StateIdle then (Inr None, s)
      else (case se_dispatch session command s of
              (Inr receipt, s) \<Rightarrow> (Inr (Some receipt), s)
            | (Inl e, s) \<Rightarrow>
                if errors_is ErrSessionBusy e \<or> errors_is ErrSuspended e then (Inr None, s)
                else if terminalRejection e \<noteq> RejectionNone then
                  (case se_reject session command (terminalRejection e) s of
                     (Inl e, s) \<Rightarrow> (Inl e, s) | (Inr receipt, s) \<Rightarrow> (Inr (Some receipt), s))
                else (Inl e, s)))"

text \<open>A receipt that was just returned is looked up again.\<close>

definition confirm ::
  "'s session_port \<Rightarrow> session_command \<Rightarrow> receipt \<Rightarrow> 's \<Rightarrow> receipt result \<times> 's" where
  "confirm session command receipt s =
     (case se_acceptance session command s of
        (Inl e, s) \<Rightarrow> (Inl e, s)
      | (Inr (persisted, accepted), s) \<Rightarrow>
          if \<not> accepted \<or> persisted \<noteq> receipt then (Inl (Sentinel ErrInvalidReceipt), s)
          else (Inr receipt, s))"

definition awaits :: "bool \<Rightarrow> snapshot \<Rightarrow> session_command \<Rightarrow> receipt \<Rightarrow> bool" where
  "awaits found snap command receipt =
     ((sk_kind command = CommandStart \<or> sk_kind command = CommandResolve) \<and>
      (\<not> found \<or> sn_active_run snap = rp_run_id receipt \<and> \<not> quiescent snap))"

definition settle ::
  "guarantee \<Rightarrow> go_error option \<Rightarrow> int \<Rightarrow> lease \<Rightarrow> 's session_port \<Rightarrow> snapshot \<Rightarrow> string \<Rightarrow>
     session_command \<Rightarrow> bool \<Rightarrow> receipt \<Rightarrow> store \<Rightarrow> string result \<times> store" where
  "settle adapter ctx now l session snap i command found receipt st =
     (if \<not> receipt_proves adapter (se_id session) command receipt then
        (Inl (Sentinel ErrInvalidReceipt), st)
      else (case Acknowledge ctx now l i receipt st of
              (st, Inl e) \<Rightarrow> (Inl e, st)
            | (st, Inr _) \<Rightarrow>
                (Inr (if awaits found snap command receipt then rp_run_id receipt else ''''), st)))"

definition deliver ::
  "(string \<Rightarrow> bool) \<Rightarrow> guarantee \<Rightarrow> go_error option \<Rightarrow> int \<Rightarrow> lease \<Rightarrow> 's session_port \<Rightarrow> snapshot \<Rightarrow>
     actor_command \<Rightarrow> store \<Rightarrow> 's \<Rightarrow> string result \<times> store \<times> 's" where
  "deliver json_valid adapter ctx now l session snap input st s =
     (case Normalize json_valid input of
        Inl e \<Rightarrow> (Inl e, st, s)
      | Inr canonical \<Rightarrow>
          let command = cm_command canonical in
          (case se_acceptance session command s of
             (Inl e, s) \<Rightarrow> (Inl e, st, s)
           | (Inr (receipt, True), s) \<Rightarrow>
               (case settle adapter ctx now l session snap (cm_id input) command True receipt st of
                  (r, st) \<Rightarrow> (r, st, s))
           | (Inr (_, False), s) \<Rightarrow>
               (case offer session snap command s of
                  (Inl e, s) \<Rightarrow> (Inl e, st, s)
                | (Inr None, s) \<Rightarrow> (Inr '''', st, s)
                | (Inr (Some receipt), s) \<Rightarrow>
                    (case confirm session command receipt s of
                       (Inl e, s) \<Rightarrow> (Inl e, st, s)
                     | (Inr receipt, s) \<Rightarrow>
                         (case settle adapter ctx now l session snap (cm_id input) command False receipt st of
                            (r, st) \<Rightarrow> (r, st, s))))))"

subsection \<open>Delivery state is removed only with proof\<close>

lemma Acknowledge_store:
  "fst (Acknowledge ctx now l i receipt st) \<noteq> st \<Longrightarrow>
     \<exists>s. owned now l st = Inr s \<and> fst (Acknowledge ctx now l i receipt st) =
       put_session (le_actor l) (s\<lparr>ss_pending := removeAll i (ss_pending s)\<rparr>) st"
  by (auto simp: Acknowledge_def split: option.splits sum.splits if_split_asm)

lemma settle_store:
  "settle adapter ctx now l session snap i command found receipt st = (r, st') \<Longrightarrow> st' \<noteq> st \<Longrightarrow>
     receipt_proves adapter (se_id session) command receipt \<and>
     (\<exists>s. owned now l st = Inr s \<and>
        st' = put_session (le_actor l) (s\<lparr>ss_pending := removeAll i (ss_pending s)\<rparr>) st)"
  using Acknowledge_store [of ctx now l i receipt st]
  by (auto simp: settle_def split: if_splits prod.splits sum.splits)

lemma confirm_accepted:
  "confirm session command receipt s = (Inr receipt', s') \<Longrightarrow>
     se_acceptance session command s = (Inr (receipt', True), s')"
  by (auto simp: confirm_def split: prod.splits sum.splits if_splits)

text \<open>A hand-over that changes the mailbox ended behind a lookup that found the command accepted.\<close>

lemma deliver_settles:
  assumes step: "deliver jv adapter ctx now l session snap input st s = (r, st', s')" and "st' \<noteq> st"
  shows "\<exists>canonical receipt s1 found.
    Normalize jv input = Inr canonical \<and> sk_id (cm_command canonical) = cm_id input \<and>
    se_acceptance session (cm_command canonical) s1 = (Inr (receipt, True), s') \<and>
    settle adapter ctx now l session snap (cm_id input) (cm_command canonical) found receipt st = (r, st')"
proof -
  obtain canonical where norm: "Normalize jv input = Inr canonical"
    using assms by (cases "Normalize jv input") (auto simp: deliver_def)
  let ?c = "cm_command canonical"
  have id: "sk_id ?c = cm_id input" using Normalize_identity [OF norm] by simp
  obtain a s1 where look: "se_acceptance session ?c s = (a, s1)" by fastforce
  show ?thesis
  proof (cases a)
    case (Inl e)
    then show ?thesis using assms norm look by (simp add: deliver_def)
  next
    case (Inr p)
    obtain receipt found where p: "p = (receipt, found)" by fastforce
    show ?thesis
    proof (cases found)
      case True
      then show ?thesis using look Inr p step norm id
        by (auto simp: deliver_def split: prod.splits)
    next
      case False
      then obtain o2 s2 where offer: "offer session snap ?c s1 = (o2, s2)" by fastforce
      then obtain receipt2 where o2: "o2 = Inr (Some receipt2)"
        using assms norm look Inr p False
        by (cases o2) (auto simp: deliver_def Let_def split: option.splits)
      obtain c3 s3 where confirm: "confirm session ?c receipt2 s2 = (c3, s3)" by fastforce
      then obtain receipt3 where c3: "c3 = Inr receipt3"
        using assms norm look Inr p False offer o2 by (cases c3) (auto simp: deliver_def)
      have "settle adapter ctx now l session snap (cm_id input) ?c False receipt3 st = (r, st') \<and> s3 = s'"
        using step norm look Inr p False offer o2 confirm c3
        by (auto simp: deliver_def split: prod.splits)
      then show ?thesis using confirm_accepted [OF confirm [unfolded c3]] norm id by blast
    qed
  qed
qed

text \<open>What every call of the session keeps, the hand-over keeps.\<close>

locale port_invariant =
  fixes session :: "'s session_port" and keeps :: "'s \<Rightarrow> bool"
  assumes acceptance_keeps: "keeps s \<Longrightarrow> keeps (snd (se_acceptance session c s))"
    and dispatch_keeps: "keeps s \<Longrightarrow> keeps (snd (se_dispatch session c s))"
    and reject_keeps: "keeps s \<Longrightarrow> keeps (snd (se_reject session c x s))"
begin

lemma offer_keeps: "keeps s \<Longrightarrow> keeps (snd (offer session snap c s))"
  using dispatch_keeps [of s c] reject_keeps [of "snd (se_dispatch session c s)" c]
  by (auto simp: offer_def split: prod.splits sum.splits) (metis snd_conv)+

lemma confirm_keeps: "keeps s \<Longrightarrow> keeps (snd (confirm session c r s))"
  using acceptance_keeps [of s c] by (auto simp: confirm_def split: prod.splits sum.splits)

lemma deliver_keeps: "keeps s \<Longrightarrow> keeps (snd (snd (deliver jv adapter ctx now l session snap input st s)))"
proof -
  assume s: "keeps s"
  show ?thesis
  proof (cases "Normalize jv input")
    case (Inr canonical)
    let ?c = "cm_command canonical"
    obtain a s1 where look: "se_acceptance session ?c s = (a, s1)" by fastforce
    obtain o2 s2 where offer: "offer session snap ?c s1 = (o2, s2)" by fastforce
    have s1: "keeps s1" using acceptance_keeps [OF s, of ?c] look by simp
    have s2: "keeps s2" using offer_keeps [OF s1, of snap ?c] offer by simp
    have "keeps (snd (confirm session ?c x s2))" for x using confirm_keeps [OF s2] .
    then show ?thesis using Inr look offer s s1 s2
      by (auto simp: deliver_def Let_def split: sum.splits option.splits prod.splits bool.splits) (metis snd_conv)+
  qed (use s in \<open>simp add: deliver_def\<close>)
qed

end

text \<open>
  C15. The worker removes a command from the mailbox only with proof.  When a hand-over changes the
  mailbox at all, the session's journal reported the very command accepted in a lookup of this
  hand-over, with a receipt that names the command and the session and carries the guarantee the
  adapter promises; the lease was owned at that moment, and nothing but that command's delivery
  state is gone.
\<close>

theorem deliver_needs_proof:
  assumes step: "deliver jv adapter ctx now l session snap input st s = (r, st', s')" and "st' \<noteq> st"
  shows "\<exists>canonical receipt s1 state.
    Normalize jv input = Inr canonical \<and> sk_id (cm_command canonical) = cm_id input \<and>
    se_acceptance session (cm_command canonical) s1 = (Inr (receipt, True), s') \<and>
    rp_command_id receipt = cm_id input \<and> rp_session_id receipt = se_id session \<and>
    (adapter = AcceptanceDurable \<longrightarrow>
       rp_guarantee receipt = AcceptanceDurable \<and> \<not> position_zero (rp_position receipt)) \<and>
    owned now l st = Inr state \<and>
    st' = put_session (le_actor l)
      (state\<lparr>ss_pending := removeAll (cm_id input) (ss_pending state)\<rparr>) st"
proof -
  obtain canonical receipt s1 found where x: "Normalize jv input = Inr canonical" "sk_id (cm_command canonical) = cm_id input"
    "se_acceptance session (cm_command canonical) s1 = (Inr (receipt, True), s')"
    "settle adapter ctx now l session snap (cm_id input) (cm_command canonical) found receipt st = (r, st')"
    using deliver_settles [OF assms] by blast
  then show ?thesis using settle_store [OF x(4) assms(2)]
    by (intro exI [of _ canonical] exI [of _ receipt] exI [of _ s1]) (auto simp: receipt_proves_def)
qed

text \<open>A session that accepts what is dispatched to it.\<close>

definition example_session :: "(string list) session_port" where
  "example_session =
     \<lparr>se_id = ''s'',
      se_acceptance = (\<lambda>c ids. (Inr (example_receipt (sk_id c), mem_str (sk_id c) ids), ids)),
      se_dispatch = (\<lambda>c ids. (Inr (example_receipt (sk_id c)), sk_id c # ids)),
      se_reject = (\<lambda>c r ids. (Inr (example_receipt (sk_id c)), ids))\<rparr>"

definition example_idle :: snapshot where
  "example_idle = \<lparr>sn_state = StateIdle, sn_active_run = '''',
     sn_position = \<lparr>ps_sequence = 0, ps_token = ''''\<rparr>, sn_suspended = False\<rparr>"

definition example_delivery :: "string result \<times> store \<times> string list" where
  "example_delivery =
     deliver (\<lambda>_. True) AcceptanceAccepted None 8 (example_lease ''w2'' 2 12) example_session example_idle
       (example_command ''b'') (fst (run_ops example_ops (New, []))) []"

lemma deliver_needs_proof_witness:
  "\<exists>state. owned 8 (example_lease ''w2'' 2 12) (fst (run_ops example_ops (New, []))) = Inr state"
proof -
  let ?st = "fst (run_ops example_ops (New, []))"
  obtain r st' s' where d: "example_delivery = (r, st', s')" by (metis prod_cases3)
  have "(case example_delivery of (r, st', s') \<Rightarrow> ss_pending (lookup st' ''s'')) = []" by code_simp
  then have delivered: "ss_pending (lookup st' ''s'') = []" unfolding d by simp
  have "ss_pending (lookup ?st ''s'') = [''b'']" by code_simp
  then have "st' \<noteq> ?st" using delivered by (metis list.distinct(1))
  then show ?thesis
    using deliver_needs_proof [OF d [unfolded example_delivery_def]] by blast
qed

end
