(* ===== verification/Journal_Store.thy ===== *)
theory Journal_Store
  imports Go_Base "HOL-Library.Word"
begin

text \<open>
  The append-only session journal (harness/store/store.go) and its in-memory adapter
  (harness/store/memory/memory.go).  A journal handle is a pointer: its number in the list of the
  handles made so far, which holds the handle's session and whether it was closed.  Every method
  runs under the repository's mutex and is one atomic function.

  What the operating system gives a call, sixteen random bytes and the time in milliseconds, are the
  arguments \<open>rand\<close> and \<open>millis\<close>, indexed by the entry.  A payload is its bytes.
\<close>

datatype durability = DurabilityDefault | DurabilitySync | DurabilityOther nat

record pending_entry =
  pq_kind :: string
  pq_payload :: string
  pq_durability :: durability

record entry =
  je_schema :: nat
  je_seq :: "64 word"
  je_id :: string
  je_parent :: string
  je_kind :: string
  je_payload :: string
  je_durability :: durability

record cursor =
  cu_seq :: "64 word"
  cu_entry :: string

definition zero_cursor :: cursor where
  "zero_cursor = \<lparr>cu_seq = 0, cu_entry = ''''\<rparr>"

definition entry_cursor :: "entry \<Rightarrow> cursor" where
  "entry_cursor e = \<lparr>cu_seq = je_seq e, cu_entry = je_id e\<rparr>"

record commit =
  jc_entries :: "entry list"
  jc_cursor :: cursor

definition NewCommit :: "entry list \<Rightarrow> cursor \<Rightarrow> commit" where
  "NewCommit entries fallback =
     \<lparr>jc_entries = entries,
      jc_cursor = (if entries = [] then fallback else entry_cursor (last entries))\<rparr>"

definition ConflictError :: "cursor \<Rightarrow> cursor \<Rightarrow> go_error" where
  "ConflictError expected actual =
     wrap_kind ErrConflict (''expected ('' @ show_nat (unat (cu_seq expected)) @ '','' @
       quote (cu_entry expected) @ ''), actual ('' @ show_nat (unat (cu_seq actual)) @ '','' @
       quote (cu_entry actual) @ '')'')"

definition session_char :: "char \<Rightarrow> bool" where
  "session_char c =
     (let n = (of_char c :: nat) in
      97 \<le> n \<and> n \<le> 122 \<or> 65 \<le> n \<and> n \<le> 90 \<or> 48 \<le> n \<and> n \<le> 57 \<or> n = 95 \<or> n = 45)"

definition ValidateSessionID :: "string \<Rightarrow> go_error option" where
  "ValidateSessionID s =
     (if s = '''' \<or> length s > 128 then Some (wrap_kind ErrInvalidSessionID (quote s))
      else if list_all session_char s then None
      else Some (wrap_kind ErrInvalidSessionID (quote s)))"

subsection \<open>Entry IDs\<close>

definition hex_byte :: "8 word \<Rightarrow> string" where
  "hex_byte b = [hex_digit (unat b div 16), hex_digit (unat b mod 16)]"

definition hex_bytes :: "8 word list \<Rightarrow> string" where
  "hex_bytes bs = concat (map hex_byte bs)"

unbundle bit_operations_syntax

text \<open>The bytes two to seven of the big-endian time.\<close>

definition timestamp_bytes :: "64 word \<Rightarrow> 8 word list" where
  "timestamp_bytes millis = map (\<lambda>i. ucast (drop_bit (8 * (5 - i)) millis)) [0..<6]"

definition newEntryID :: "8 word list result \<Rightarrow> 64 word \<Rightarrow> string result" where
  "newEntryID random millis =
     (case random of
        Inl e \<Rightarrow> Inl (wrap_cause ''generate entry ID'' e)
      | Inr value \<Rightarrow>
          let value = timestamp_bytes millis @ drop 6 value;
              value = value[6 := (value ! 6 AND 0x0f) OR 0x70];
              value = value[8 := (value ! 8 AND 0x3f) OR 0x80] in
          Inr (hex_bytes (take 4 value) @ ''-'' @ hex_bytes (take 2 (drop 4 value)) @ ''-'' @
               hex_bytes (take 2 (drop 6 value)) @ ''-'' @ hex_bytes (take 2 (drop 8 value)) @ ''-'' @
               hex_bytes (take 6 (drop 10 value))))"

subsection \<open>The repository\<close>

record journal =
  jn_session :: string
  jn_closed :: bool

record repository =
  mr_sessions :: "string \<rightharpoonup> entry list"
  mr_open :: "string \<rightharpoonup> nat"
  mr_journals :: "journal list"

definition new_repository :: repository where
  "new_repository = \<lparr>mr_sessions = Map.empty, mr_open = Map.empty, mr_journals = []\<rparr>"

definition tail :: "entry list \<Rightarrow> cursor" where
  "tail entries = (if entries = [] then zero_cursor else entry_cursor (last entries))"

fun sequence_from ::
  "nat \<Rightarrow> (nat \<Rightarrow> 8 word list result) \<Rightarrow> (nat \<Rightarrow> 64 word) \<Rightarrow> cursor \<Rightarrow> pending_entry list \<Rightarrow>
     entry list result" where
  "sequence_from i rand millis c [] = Inr []"
| "sequence_from i rand millis c (item # rest) =
     (if pq_kind item = '''' then Inl (wrap_kind ErrCorruptLog ''entry kind is empty'')
      else (case pq_durability item of
              DurabilityOther n \<Rightarrow> Inl (wrap_kind ErrCorruptLog (''invalid durability '' @ show_nat n))
            | d \<Rightarrow>
                (case newEntryID (rand i) (millis i) of
                   Inl e \<Rightarrow> Inl e
                 | Inr new \<Rightarrow>
                     let q = cu_seq c + 1;
                         e = \<lparr>je_schema = 1, je_seq = q, je_id = new, je_parent = cu_entry c,
                              je_kind = pq_kind item, je_payload = pq_payload item, je_durability = d\<rparr> in
                     (case sequence_from (Suc i) rand millis \<lparr>cu_seq = q, cu_entry = new\<rparr> rest of
                        Inl e \<Rightarrow> Inl e
                      | Inr es \<Rightarrow> Inr (e # es)))))"

definition sequence_entries ::
  "(nat \<Rightarrow> 8 word list result) \<Rightarrow> (nat \<Rightarrow> 64 word) \<Rightarrow> cursor \<Rightarrow> pending_entry list \<Rightarrow> entry list result" where
  "sequence_entries = sequence_from 0"

definition new_journal :: "string \<Rightarrow> repository \<Rightarrow> repository \<times> nat" where
  "new_journal i r =
     (r\<lparr>mr_journals := mr_journals r @ [\<lparr>jn_session = i, jn_closed = False\<rparr>],
        mr_open := (mr_open r)(i \<mapsto> length (mr_journals r))\<rparr>, length (mr_journals r))"

definition Create ::
  "(nat \<Rightarrow> 8 word list result) \<Rightarrow> (nat \<Rightarrow> 64 word) \<Rightarrow> go_error option \<Rightarrow> string \<Rightarrow> pending_entry list \<Rightarrow>
     repository \<Rightarrow> repository \<times> (nat \<times> commit) result" where
  "Create rand millis ctx i pending r =
     (case ctx of
        Some e \<Rightarrow> (r, Inl e)
      | None \<Rightarrow>
          (case ValidateSessionID i of
             Some e \<Rightarrow> (r, Inl e)
           | None \<Rightarrow>
               if mr_sessions r i \<noteq> None then (r, Inl (wrap_kind ErrSessionExists i))
               else (case sequence_entries rand millis zero_cursor pending of
                       Inl e \<Rightarrow> (r, Inl e)
                     | Inr entries \<Rightarrow>
                         (case new_journal i (r\<lparr>mr_sessions := (mr_sessions r)(i \<mapsto> entries)\<rparr>) of
                            (r', j) \<Rightarrow> (r', Inr (j, NewCommit entries zero_cursor))))))"

definition Open :: "go_error option \<Rightarrow> string \<Rightarrow> repository \<Rightarrow> repository \<times> nat result" where
  "Open ctx i r =
     (case ctx of
        Some e \<Rightarrow> (r, Inl e)
      | None \<Rightarrow>
          (case ValidateSessionID i of
             Some e \<Rightarrow> (r, Inl e)
           | None \<Rightarrow>
               if mr_sessions r i = None then (r, Inl (wrap_kind ErrSessionNotFound i))
               else if mr_open r i \<noteq> None then (r, Inl (wrap_kind ErrSessionOpen i))
               else (case new_journal i r of (r', j) \<Rightarrow> (r', Inr j))))"

text \<open>A handle is a number below the length of the list of handles.\<close>

definition validateOpenLocked :: "nat \<Rightarrow> repository \<Rightarrow> go_error option" where
  "validateOpenLocked j r =
     (let journal = mr_journals r ! j in
      if jn_closed journal \<or> mr_open r (jn_session journal) \<noteq> Some j then
        Some (wrap_kind ErrJournalClosed (jn_session journal))
      else None)"

definition session_entries :: "string \<Rightarrow> repository \<Rightarrow> entry list" where
  "session_entries i r = (case mr_sessions r i of None \<Rightarrow> [] | Some es \<Rightarrow> es)"

definition Load :: "go_error option \<Rightarrow> nat \<Rightarrow> repository \<Rightarrow> commit result" where
  "Load ctx j r =
     (case ctx of
        Some e \<Rightarrow> Inl e
      | None \<Rightarrow>
          (case validateOpenLocked j r of
             Some e \<Rightarrow> Inl e
           | None \<Rightarrow>
               let es = session_entries (jn_session (mr_journals r ! j)) r in
               Inr \<lparr>jc_entries = es, jc_cursor = tail es\<rparr>))"

definition Append ::
  "(nat \<Rightarrow> 8 word list result) \<Rightarrow> (nat \<Rightarrow> 64 word) \<Rightarrow> go_error option \<Rightarrow> nat \<Rightarrow> cursor \<Rightarrow>
     pending_entry list \<Rightarrow> repository \<Rightarrow> repository \<times> commit result" where
  "Append rand millis ctx j expected pending r =
     (case ctx of
        Some e \<Rightarrow> (r, Inl e)
      | None \<Rightarrow>
          (case validateOpenLocked j r of
             Some e \<Rightarrow> (r, Inl e)
           | None \<Rightarrow>
               let i = jn_session (mr_journals r ! j); existing = session_entries i r;
                   actual = tail existing in
               if expected \<noteq> actual then (r, Inl (ConflictError expected actual))
               else (case sequence_entries rand millis actual pending of
                       Inl e \<Rightarrow> (r, Inl e)
                     | Inr entries \<Rightarrow>
                         (r\<lparr>mr_sessions := (mr_sessions r)(i \<mapsto> existing @ entries)\<rparr>,
                          Inr (NewCommit entries actual)))))"

definition Close :: "nat \<Rightarrow> repository \<Rightarrow> repository" where
  "Close j r =
     (let journal = mr_journals r ! j in
      if jn_closed journal then r
      else let r = r\<lparr>mr_journals := (mr_journals r)[j := journal\<lparr>jn_closed := True\<rparr>]\<rparr> in
           if mr_open r (jn_session journal) = Some j then
             r\<lparr>mr_open := (mr_open r)(jn_session journal := None)\<rparr>
           else r)"

subsection \<open>Histories\<close>

datatype journal_op =
    DoCreate "nat \<Rightarrow> 8 word list result" "nat \<Rightarrow> 64 word" string "pending_entry list"
  | DoOpen string
  | DoLoad nat
  | DoAppend "nat \<Rightarrow> 8 word list result" "nat \<Rightarrow> 64 word" nat cursor "pending_entry list"
  | DoClose nat

fun forget :: "'s \<times> 'a result \<Rightarrow> 's \<times> unit result" where
  "forget (s, Inl e) = (s, Inl e)"
| "forget (s, Inr a) = (s, Inr ())"

lemma forget_fst [simp]: "fst (forget x) = fst x"
  by (cases x rule: forget.cases) simp_all

text \<open>A handle that was never made has no pointer; no operation is called on it.\<close>

fun perform_journal :: "journal_op \<Rightarrow> repository \<Rightarrow> repository \<times> unit result" where
  "perform_journal (DoCreate rand millis i pending) r = forget (Create rand millis None i pending r)"
| "perform_journal (DoOpen i) r = forget (Open None i r)"
| "perform_journal (DoLoad j) r = forget (r, Load None j r)"
| "perform_journal (DoAppend rand millis j expected pending) r =
     (if j < length (mr_journals r) then forget (Append rand millis None j expected pending r)
      else (r, Inr ()))"
| "perform_journal (DoClose j) r =
     (if j < length (mr_journals r) then (Close j r, Inr ()) else (r, Inr ()))"

inductive journal_run :: "repository \<Rightarrow> bool" where
  journal_start: "journal_run new_repository"
| journal_step: "journal_run r \<Longrightarrow> journal_run (fst (perform_journal op r))"

subsection \<open>The chain of entries\<close>

definition link_ok :: "entry list \<Rightarrow> nat \<Rightarrow> bool" where
  "link_ok es k \<longleftrightarrow>
     je_schema (es ! k) = 1 \<and> je_seq (es ! k) = of_nat (Suc k) \<and> je_kind (es ! k) \<noteq> '''' \<and>
     je_parent (es ! k) = (if k = 0 then '''' else je_id (es ! (k - 1)))"

definition chain :: "entry list \<Rightarrow> bool" where
  "chain es \<longleftrightarrow> (\<forall>k < length es. link_ok es k)"

lemma chain_Nil [simp]: "chain []"
  by (simp add: chain_def)

lemma chain_snoc:
  "chain (es @ [e]) \<longleftrightarrow>
     chain es \<and> je_schema e = 1 \<and> je_seq e = of_nat (Suc (length es)) \<and> je_kind e \<noteq> '''' \<and>
     je_parent e = cu_entry (tail es)"
proof -
  have "link_ok (es @ [e]) k = link_ok es k" if "k < length es" for k
    using that less_imp_diff_less [OF that, of "Suc 0"] by (simp add: link_ok_def nth_append)
  moreover have "link_ok (es @ [e]) (length es) \<longleftrightarrow> je_schema e = 1 \<and>
      je_seq e = of_nat (Suc (length es)) \<and> je_kind e \<noteq> '''' \<and> je_parent e = cu_entry (tail es)"
    by (cases es rule: rev_cases)
      (simp_all add: link_ok_def tail_def zero_cursor_def entry_cursor_def nth_append)
  ultimately show ?thesis unfolding chain_def by (simp add: All_less_Suc) blast
qed

lemma chain_tail: "chain es \<Longrightarrow> cu_seq (tail es) = of_nat (length es)"
  by (cases es rule: rev_cases)
    (auto simp: chain_snoc tail_def zero_cursor_def entry_cursor_def)

lemma tail_snoc: "tail (es @ [e]) = \<lparr>cu_seq = je_seq e, cu_entry = je_id e\<rparr>"
  by (simp add: tail_def entry_cursor_def)

lemma sequence_from_chain:
  "sequence_from i rand millis c pending = Inr new \<Longrightarrow> c = tail es \<Longrightarrow> chain es \<Longrightarrow>
     chain (es @ new) \<and> length new = length pending \<and>
     map (\<lambda>e. (je_kind e, je_payload e, je_durability e)) new =
       map (\<lambda>p. (pq_kind p, pq_payload p, pq_durability p)) pending"
proof (induction pending arbitrary: i c es new)
  case (Cons item rest)
  note prems = Cons.prems
  have kind: "pq_kind item \<noteq> ''''" using prems(1) by (auto split: if_splits)
  have dur: "pq_durability item \<noteq> DurabilityOther n" for n using prems(1) kind by auto
  then obtain d where d: "pq_durability item = d" "d = DurabilityDefault \<or> d = DurabilitySync"
    by (cases "pq_durability item") auto
  obtain id where id: "newEntryID (rand i) (millis i) = Inr id"
    using prems(1) kind d by (auto split: sum.splits)
  let ?e = "\<lparr>je_schema = 1, je_seq = cu_seq c + 1, je_id = id, je_parent = cu_entry c,
     je_kind = pq_kind item, je_payload = pq_payload item, je_durability = d\<rparr>"
  obtain new' where rest: "sequence_from (Suc i) rand millis \<lparr>cu_seq = cu_seq c + 1, cu_entry = id\<rparr> rest = Inr new'"
    and new: "new = ?e # new'"
    using prems(1) kind d id by (auto simp: Let_def split: sum.splits)
  have chain: "chain (es @ [?e])"
    using prems(2,3) kind chain_tail [OF prems(3)] by (simp add: chain_snoc add.commute)
  have "tail (es @ [?e]) = \<lparr>cu_seq = cu_seq c + 1, cu_entry = id\<rparr>" by (simp add: tail_snoc)
  then have "chain ((es @ [?e]) @ new') \<and> length new' = length rest \<and>
     map (\<lambda>e. (je_kind e, je_payload e, je_durability e)) new' =
       map (\<lambda>p. (pq_kind p, pq_payload p, pq_durability p)) rest"
    by (intro Cons.IH [OF rest _ chain]) simp
  then show ?case using new d by simp
qed simp

subsection \<open>The invariant of the repository\<close>

text \<open>Journals are chains; the open handle of a session exists, belongs to it and is not closed.\<close>

definition repository_inv :: "repository \<Rightarrow> bool" where
  "repository_inv r \<longleftrightarrow>
     (\<forall>i es. mr_sessions r i = Some es \<longrightarrow> chain es) \<and>
     (\<forall>i j. mr_open r i = Some j \<longrightarrow>
        j < length (mr_journals r) \<and> mr_journals r ! j = \<lparr>jn_session = i, jn_closed = False\<rparr> \<and>
        mr_sessions r i \<noteq> None)"

lemma usable_handle:
  assumes "repository_inv r" "validateOpenLocked j r = None"
  shows "mr_open r (jn_session (mr_journals r ! j)) = Some j \<and>
    mr_sessions r (jn_session (mr_journals r ! j)) \<noteq> None"
  using assms by (auto simp: validateOpenLocked_def repository_inv_def Let_def split: if_splits)

lemma new_journal_inv:
  assumes inv: "repository_inv r" and i: "mr_sessions r i \<noteq> None"
  shows "repository_inv (fst (new_journal i r))"
proof -
  have old: "j < length (mr_journals r) \<and> mr_journals r ! j = \<lparr>jn_session = k, jn_closed = False\<rparr> \<and>
      mr_sessions r k \<noteq> None" if "mr_open r k = Some j" for k j
    using inv that unfolding repository_inv_def by blast
  show ?thesis unfolding repository_inv_def
  proof (intro conjI allI impI)
    fix k es assume "mr_sessions (fst (new_journal i r)) k = Some es"
    then show "chain es" using inv by (simp add: new_journal_def repository_inv_def)
  next
    fix k j assume "mr_open (fst (new_journal i r)) k = Some j"
    then consider "k = i" "j = length (mr_journals r)" | "k \<noteq> i" "mr_open r k = Some j"
      by (auto simp: new_journal_def split: if_splits)
    then have "j < length (mr_journals r @ [\<lparr>jn_session = i, jn_closed = False\<rparr>]) \<and>
        (mr_journals r @ [\<lparr>jn_session = i, jn_closed = False\<rparr>]) ! j = \<lparr>jn_session = k, jn_closed = False\<rparr> \<and>
        mr_sessions r k \<noteq> None"
    proof cases
      case 1
      then show ?thesis using i by simp
    next
      case 2
      then show ?thesis using old [OF 2(2)] by (simp add: nth_append)
    qed
    then show "j < length (mr_journals (fst (new_journal i r)))"
      "mr_journals (fst (new_journal i r)) ! j = \<lparr>jn_session = k, jn_closed = False\<rparr>"
      "mr_sessions (fst (new_journal i r)) k \<noteq> None"
      by (simp_all add: new_journal_def)
  qed
qed

lemma write_session_inv:
  "repository_inv r \<Longrightarrow> chain es \<Longrightarrow> repository_inv (r\<lparr>mr_sessions := (mr_sessions r)(i \<mapsto> es)\<rparr>)"
  unfolding repository_inv_def by simp blast

lemma chain_created:
  "sequence_entries rand millis zero_cursor pending = Inr es \<Longrightarrow> chain es"
  using sequence_from_chain [of 0 rand millis zero_cursor pending es "[]"]
  by (simp add: sequence_entries_def tail_def)

lemma Create_inv: "repository_inv r \<Longrightarrow> repository_inv (fst (Create rand millis ctx i pending r))"
proof (cases "snd (Create rand millis ctx i pending r)")
  case (Inl e)
  then show "repository_inv r \<Longrightarrow> ?thesis"
    by (auto simp: Create_def split: option.splits if_splits sum.splits prod.splits)
next
  case (Inr p)
  assume inv: "repository_inv r"
  from Inr obtain es where es: "sequence_entries rand millis zero_cursor pending = Inr es"
    and r': "fst (Create rand millis ctx i pending r) =
      fst (new_journal i (r\<lparr>mr_sessions := (mr_sessions r)(i \<mapsto> es)\<rparr>))"
    by (auto simp: Create_def split: option.splits if_splits sum.splits prod.splits)
  show ?thesis unfolding r'
    by (intro new_journal_inv write_session_inv inv chain_created [OF es]) simp
qed

lemma Open_inv: "repository_inv r \<Longrightarrow> repository_inv (fst (Open ctx i r))"
  using new_journal_inv [of r i]
  by (auto simp: Open_def split: option.splits if_splits prod.splits)

lemma Append_inv:
  assumes inv: "repository_inv r"
  shows "repository_inv (fst (Append rand millis ctx j expected pending r))"
proof (cases "snd (Append rand millis ctx j expected pending r)")
  case (Inl e)
  then show ?thesis using inv
    by (auto simp: Append_def Let_def split: option.splits if_splits sum.splits)
next
  case (Inr c)
  let ?i = "jn_session (mr_journals r ! j)"
  from Inr obtain es where ok: "validateOpenLocked j r = None"
    and es: "sequence_entries rand millis (tail (session_entries ?i r)) pending = Inr es"
    and r': "fst (Append rand millis ctx j expected pending r) =
      r\<lparr>mr_sessions := (mr_sessions r)(?i \<mapsto> session_entries ?i r @ es)\<rparr>"
    by (auto simp: Append_def Let_def split: option.splits if_splits sum.splits)
  obtain old where "mr_sessions r ?i = Some old" using usable_handle [OF inv ok] by auto
  then have "chain (session_entries ?i r)" using inv by (simp add: session_entries_def repository_inv_def)
  then have "chain (session_entries ?i r @ es)"
    using sequence_from_chain [OF es [unfolded sequence_entries_def] refl] by blast
  then show ?thesis unfolding r' by (rule write_session_inv [OF inv])
qed

lemma Close_inv: "repository_inv r \<Longrightarrow> j < length (mr_journals r) \<Longrightarrow> repository_inv (Close j r)"
proof -
  assume inv: "repository_inv r" and j: "j < length (mr_journals r)"
  have old: "k < length (mr_journals r) \<and> mr_journals r ! k = \<lparr>jn_session = i, jn_closed = False\<rparr> \<and>
      mr_sessions r i \<noteq> None" if "mr_open r i = Some k" for k i
    using inv that unfolding repository_inv_def by blast
  have chain: "\<And>i es. mr_sessions r i = Some es \<Longrightarrow> chain es" using inv unfolding repository_inv_def by blast
  show ?thesis
  proof (cases "jn_closed (mr_journals r ! j)")
    case True
    then show ?thesis using inv by (simp add: Close_def)
  next
    case False
    let ?i = "jn_session (mr_journals r ! j)"
    have sessions: "mr_sessions (Close j r) = mr_sessions r" using False by (simp add: Close_def Let_def)
    have journals: "mr_journals (Close j r) = (mr_journals r)[j := (mr_journals r ! j)\<lparr>jn_closed := True\<rparr>]"
      using False by (simp add: Close_def Let_def)
    have "mr_open r i = Some k \<and> k \<noteq> j" if "mr_open (Close j r) i = Some k" for i k
    proof -
      have "mr_open r i = Some k" "\<not> (i = ?i \<and> mr_open r ?i = Some j)"
        using that False by (auto simp: Close_def Let_def split: if_splits)
      moreover have "k = j \<Longrightarrow> i = ?i" using old [OF calculation(1)] by auto
      ultimately show ?thesis by auto
    qed
    then have "k < length (mr_journals r) \<and>
        (mr_journals r)[j := (mr_journals r ! j)\<lparr>jn_closed := True\<rparr>] ! k =
          \<lparr>jn_session = i, jn_closed = False\<rparr> \<and> mr_sessions r i \<noteq> None"
      if "mr_open (Close j r) i = Some k" for i k
      using that old [of i k] by (metis nth_list_update_neq)
    then show ?thesis unfolding repository_inv_def sessions journals
      using chain by simp
  qed
qed

lemma journal_run_inv: "journal_run r \<Longrightarrow> repository_inv r"
proof (induction rule: journal_run.induct)
  case journal_start
  then show ?case by (simp add: repository_inv_def new_repository_def)
next
  case (journal_step r op)
  then show ?case using Create_inv Open_inv Append_inv Close_inv by (cases op) simp_all
qed

subsection \<open>What an operation does to a journal\<close>

lemma Create_entries:
  "mr_sessions r i = Some es \<Longrightarrow> mr_sessions (fst (Create rand millis ctx k pending r)) i = Some es"
  by (auto simp: Create_def new_journal_def split: option.splits sum.splits)

lemma Open_entries: "mr_sessions (fst (Open ctx k r)) = mr_sessions r"
  by (auto simp: Open_def new_journal_def split: option.splits)

lemma Close_entries: "mr_sessions (Close j r) = mr_sessions r"
  by (simp add: Close_def Let_def)

lemma Append_decides:
  assumes inv: "repository_inv r"
  shows "Append rand millis None j expected pending r = (r', Inr c) \<longleftrightarrow>
    validateOpenLocked j r = None \<and>
    (\<exists>es new. mr_sessions r (jn_session (mr_journals r ! j)) = Some es \<and> expected = tail es \<and>
       sequence_entries rand millis expected pending = Inr new \<and>
       r' = r\<lparr>mr_sessions := (mr_sessions r)(jn_session (mr_journals r ! j) \<mapsto> es @ new)\<rparr> \<and>
       c = \<lparr>jc_entries = new, jc_cursor = tail (es @ new)\<rparr>)"
proof (cases "validateOpenLocked j r")
  case None
  then obtain es where "mr_sessions r (jn_session (mr_journals r ! j)) = Some es"
    using usable_handle [OF inv None] by auto
  then show ?thesis using None
    by (auto simp: Append_def Let_def session_entries_def NewCommit_def tail_def split: sum.splits)
qed (simp add: Append_def)

text \<open>
  C33. Journals are append-only and have one writer.  In every history of a repository: the entries
  of each journal are numbered from 1 and each names its predecessor as its parent; at most one
  handle of a session is usable; and an operation leaves the entries of an existing journal alone,
  except a successful append by the usable handle, given the journal's exact last cursor, which adds
  the whole batch at the end.
\<close>

theorem journals_append_only:
  assumes run: "journal_run r"
  shows "(\<forall>i es. mr_sessions r i = Some es \<longrightarrow> chain es) \<and>
    (\<forall>j k. validateOpenLocked j r = None \<longrightarrow> validateOpenLocked k r = None \<longrightarrow>
       jn_session (mr_journals r ! j) = jn_session (mr_journals r ! k) \<longrightarrow> j = k) \<and>
    (\<forall>op i es. mr_sessions r i = Some es \<longrightarrow>
       mr_sessions (fst (perform_journal op r)) i = Some es \<or>
       (\<exists>rand millis j pending new. op = DoAppend rand millis j (tail es) pending \<and>
          validateOpenLocked j r = None \<and> jn_session (mr_journals r ! j) = i \<and>
          map (\<lambda>e. (je_kind e, je_payload e, je_durability e)) new =
            map (\<lambda>p. (pq_kind p, pq_payload p, pq_durability p)) pending \<and>
          mr_sessions (fst (perform_journal op r)) i = Some (es @ new)))"
proof -
  note inv = journal_run_inv [OF run]
  have chains: "\<forall>i es. mr_sessions r i = Some es \<longrightarrow> chain es"
    using inv unfolding repository_inv_def by blast
  have single: "\<forall>j k. validateOpenLocked j r = None \<longrightarrow> validateOpenLocked k r = None \<longrightarrow>
       jn_session (mr_journals r ! j) = jn_session (mr_journals r ! k) \<longrightarrow> j = k"
    using usable_handle [OF inv] by (metis option.inject)
  have "mr_sessions (fst (perform_journal op r)) i = Some es \<or>
       (\<exists>rand millis j pending new. op = DoAppend rand millis j (tail es) pending \<and>
          validateOpenLocked j r = None \<and> jn_session (mr_journals r ! j) = i \<and>
          map (\<lambda>e. (je_kind e, je_payload e, je_durability e)) new =
            map (\<lambda>p. (pq_kind p, pq_payload p, pq_durability p)) pending \<and>
          mr_sessions (fst (perform_journal op r)) i = Some (es @ new))"
    if es: "mr_sessions r i = Some es" for op i es
  proof (cases op)
    case (DoAppend rand millis j expected pending)
    show ?thesis
    proof (cases "j < length (mr_journals r) \<and> is_ok (snd (Append rand millis None j expected pending r))")
      case False
      then have "mr_sessions (fst (perform_journal op r)) = mr_sessions r"
        by (auto simp: DoAppend Append_def Let_def split: option.splits sum.splits)
      then show ?thesis using es by simp
    next
      case True
      then obtain r' c where app: "Append rand millis None j expected pending r = (r', Inr c)"
        by (cases "Append rand millis None j expected pending r"; cases "snd (Append rand millis None j expected pending r)") auto
      obtain es' new where ok: "validateOpenLocked j r = None"
        "mr_sessions r (jn_session (mr_journals r ! j)) = Some es'" "expected = tail es'"
        "sequence_entries rand millis expected pending = Inr new"
        "r' = r\<lparr>mr_sessions := (mr_sessions r)(jn_session (mr_journals r ! j) \<mapsto> es' @ new)\<rparr>"
        using app unfolding Append_decides [OF inv] by blast
      have r': "fst (perform_journal op r) = r'" using True app by (simp add: DoAppend)
      show ?thesis
      proof (cases "jn_session (mr_journals r ! j) = i")
        case True
        then have "es' = es" using es ok(2) by simp
        then show ?thesis using ok True r' DoAppend chains es
            sequence_from_chain [of 0 rand millis expected pending new es]
          by (auto simp: sequence_entries_def)
      next
        case False
        then show ?thesis using r' ok(5) es by simp
      qed
    qed
  qed (use es Create_entries Open_entries Close_entries in simp_all)
  then show ?thesis using chains single by blast
qed

definition example_rand :: "nat \<Rightarrow> 8 word list result" where
  "example_rand i = Inr (replicate 16 (of_nat i))"

definition example_pending :: "pending_entry" where
  "example_pending = \<lparr>pq_kind = ''message'', pq_payload = ''hi'', pq_durability = DurabilitySync\<rparr>"

definition example_repository :: repository where
  "example_repository =
     fst (perform_journal (DoCreate example_rand (\<lambda>_. 7) ''s1'' [example_pending]) new_repository)"

lemma journals_append_only_witness:
  "mr_sessions (fst (perform_journal (DoAppend example_rand (\<lambda>_. 8) 0 zero_cursor [example_pending])
      example_repository)) ''s1'' = mr_sessions example_repository ''s1'' \<and>
   mr_sessions example_repository ''s1'' \<noteq> None"
proof -
  have run: "journal_run example_repository"
    unfolding example_repository_def by (intro journal_step journal_start)
  have some: "map_option length (mr_sessions example_repository ''s1'') = Some 1"
    "map_option (map je_seq) (mr_sessions example_repository ''s1'') = Some [1]" by code_simp+
  then obtain es where es: "mr_sessions example_repository ''s1'' = Some es" "map je_seq es = [1]" by auto
  then have "tail es \<noteq> zero_cursor" by (auto simp: tail_def entry_cursor_def zero_cursor_def)
  then have "\<not> (\<exists>rand millis j pending. DoAppend example_rand (\<lambda>_. 8) 0 zero_cursor [example_pending] =
      DoAppend rand millis j (tail es) pending)" by auto
  then show ?thesis
    using mp [OF spec [OF spec [OF spec [OF conjunct2 [OF conjunct2 [OF journals_append_only [OF run]]]]]] es(1),
        of "DoAppend example_rand (\<lambda>_. 8) 0 zero_cursor [example_pending]"] es(1)
    by (simp del: perform_journal.simps journal_op.inject)
qed

end
