(* ===== verification/Fenced_Journal.thy ===== *)
theory Fenced_Journal
  imports Channel_Props Journal_Store
begin

text \<open>
  Journals written under a grant (harness/store/authority.go with the authority of
  localchannel.go).  The locale \<open>authority\<close> is the contract of \<^verbatim>\<open>store.Authority\<close>: a storage primitive
  runs once, under a grant that is valid at that moment, or not at all.  The mailbox store provides
  it.  A system is a mailbox store and a journal repository driven by operations of both, in any
  interleaving, with writers that may hold old grants.

  The wrapper of authority.go closes a journal that comes with an error; the repository returns none
  with an error, so that branch is not reached.
\<close>

subsection \<open>The contract\<close>

locale authority =
  fixes commit :: "'g \<Rightarrow> ('s \<Rightarrow> 's \<times> 'a result) \<Rightarrow> 's \<Rightarrow> 's \<times> 'a result"
    and valid :: "'g \<Rightarrow> bool"
  assumes runs: "valid g \<Longrightarrow> commit g mutate s = mutate s"
    and refuses: "\<not> valid g \<Longrightarrow> \<exists>e. commit g mutate s = (s, Inl e)"
begin

lemma changes_only_if_valid: "fst (commit g mutate s) \<noteq> s \<Longrightarrow> valid g"
  using refuses [of g mutate s] by (cases "valid g") auto

lemma succeeds_only_if_valid: "snd (commit g mutate s) = Inr a \<Longrightarrow> valid g"
  using refuses [of g mutate s] by (cases "valid g") auto

lemma once_or_never:
  "commit g mutate s = mutate s \<or> (\<exists>e. commit g mutate s = (s, Inl e))"
  using runs refuses by blast

end

text \<open>A grant in use: the context's error, the reading of the clock, the lease and the store.\<close>

type_synonym grant = "go_error option \<times> int \<times> lease \<times> store"

fun grant_commit :: "grant \<Rightarrow> ('s \<Rightarrow> 's \<times> 'a result) \<Rightarrow> 's \<Rightarrow> 's \<times> 'a result" where
  "grant_commit (ctx, now, l, st) mutate s = Commit ctx now l st mutate s"

fun grant_valid :: "grant \<Rightarrow> bool" where
  "grant_valid (ctx, now, l, st) = (ctx = None \<and> is_ok (owned now l st))"

lemma grant_runs: "grant_valid g \<Longrightarrow> grant_commit g mutate s = mutate s"
  by (cases g rule: grant_valid.cases) (auto simp: Commit_def is_ok_def split: sum.splits)

lemma grant_refuses: "\<not> grant_valid g \<Longrightarrow> \<exists>e. grant_commit g mutate s = (s, Inl e)"
  by (cases g rule: grant_valid.cases) (auto simp: Commit_def is_ok_def split: sum.splits option.splits)

interpretation channel_authority: authority grant_commit grant_valid
  by unfold_locales (auto simp: grant_runs grant_refuses)

subsection \<open>Authorized operations\<close>

definition authorized_Create ::
  "grant \<Rightarrow> (nat \<Rightarrow> 8 word list result) \<Rightarrow> (nat \<Rightarrow> 64 word) \<Rightarrow> string \<Rightarrow> pending_entry list \<Rightarrow>
     repository \<Rightarrow> repository \<times> (nat \<times> commit) result" where
  "authorized_Create g rand millis i pending = grant_commit g (Create rand millis None i pending)"

definition authorized_Open :: "grant \<Rightarrow> string \<Rightarrow> repository \<Rightarrow> repository \<times> nat result" where
  "authorized_Open g i = grant_commit g (Open None i)"

definition authorized_Load :: "grant \<Rightarrow> nat \<Rightarrow> repository \<Rightarrow> repository \<times> commit result" where
  "authorized_Load g j = grant_commit g (\<lambda>r. (r, Load None j r))"

definition authorized_Append ::
  "grant \<Rightarrow> (nat \<Rightarrow> 8 word list result) \<Rightarrow> (nat \<Rightarrow> 64 word) \<Rightarrow> nat \<Rightarrow> cursor \<Rightarrow> pending_entry list \<Rightarrow>
     repository \<Rightarrow> repository \<times> commit result" where
  "authorized_Append g rand millis j expected pending =
     grant_commit g (Append rand millis None j expected pending)"

text \<open>Closing a handle needs no grant.\<close>

fun perform_authorized :: "grant \<Rightarrow> journal_op \<Rightarrow> repository \<Rightarrow> repository \<times> unit result" where
  "perform_authorized g (DoCreate rand millis i pending) r = forget (authorized_Create g rand millis i pending r)"
| "perform_authorized g (DoOpen i) r = forget (authorized_Open g i r)"
| "perform_authorized g (DoLoad j) r = forget (authorized_Load g j r)"
| "perform_authorized g (DoAppend rand millis j expected pending) r =
     (if j < length (mr_journals r) then forget (authorized_Append g rand millis j expected pending r)
      else (r, Inr ()))"
| "perform_authorized g (DoClose j) r = perform_journal (DoClose j) r"

text \<open>An authorized operation is the operation, or nothing; without the grant the entries stay.\<close>

lemma perform_authorized_cases:
  "fst (perform_authorized g op r) = fst (perform_journal op r) \<or> fst (perform_authorized g op r) = r"
proof (cases op)
  case (DoCreate rand millis i pending)
  then show ?thesis
    using channel_authority.once_or_never [of g "Create rand millis None i pending" r]
    by (auto simp: authorized_Create_def)
next
  case (DoOpen i)
  then show ?thesis using channel_authority.once_or_never [of g "Open None i" r]
    by (auto simp: authorized_Open_def)
next
  case (DoLoad j)
  then show ?thesis using channel_authority.once_or_never [of g "\<lambda>r. (r, Load None j r)" r]
    by (auto simp: authorized_Load_def)
next
  case (DoAppend rand millis j expected pending)
  then show ?thesis
    using channel_authority.once_or_never [of g "Append rand millis None j expected pending" r]
    by (auto simp: authorized_Append_def)
qed simp

lemma perform_authorized_valid:
  assumes "mr_sessions (fst (perform_authorized g op r)) \<noteq> mr_sessions r"
  shows "grant_valid g"
proof (cases op)
  case (DoCreate rand millis i pending)
  then have "fst (grant_commit g (Create rand millis None i pending) r) \<noteq> r"
    using assms by (auto simp: authorized_Create_def)
  then show ?thesis by (rule channel_authority.changes_only_if_valid)
next
  case (DoOpen i)
  then have "fst (grant_commit g (Open None i) r) \<noteq> r" using assms by (auto simp: authorized_Open_def)
  then show ?thesis by (rule channel_authority.changes_only_if_valid)
next
  case (DoLoad j)
  then have "fst (grant_commit g (\<lambda>r. (r, Load None j r)) r) \<noteq> r"
    using assms by (auto simp: authorized_Load_def)
  then show ?thesis by (rule channel_authority.changes_only_if_valid)
next
  case (DoAppend rand millis j expected pending)
  then have "fst (grant_commit g (Append rand millis None j expected pending) r) \<noteq> r"
    using assms by (auto simp: authorized_Append_def split: if_splits)
  then show ?thesis by (rule channel_authority.changes_only_if_valid)
next
  case (DoClose j)
  then show ?thesis using assms by (auto simp: Close_entries split: if_splits)
qed

subsection \<open>The system\<close>

datatype system_event = Channel channel_event | Wrote lease

definition channel_log :: "system_event list \<Rightarrow> channel_event list" where
  "channel_log log = concat (map (\<lambda>e. case e of Channel c \<Rightarrow> [c] | Wrote l \<Rightarrow> []) log)"

lemma channel_log_simps [simp]:
  "channel_log [] = []" "channel_log (xs @ ys) = channel_log xs @ channel_log ys"
  "channel_log (map Channel evs) = evs" "channel_log [Wrote l] = []"
  by (simp_all add: channel_log_def comp_def)

text \<open>A write is logged when the entries of some journal changed.\<close>

definition written :: "lease \<Rightarrow> repository \<Rightarrow> repository \<Rightarrow> system_event list" where
  "written l r r' = (if mr_sessions r' \<noteq> mr_sessions r then [Wrote l] else [])"

inductive system_run ::
  "(string \<Rightarrow> bool) \<Rightarrow> (session_command \<Rightarrow> string result) \<Rightarrow> store \<Rightarrow> repository \<Rightarrow>
     system_event list \<Rightarrow> bool"
  for jv encode where
  system_start: "system_run jv encode New new_repository []"
| system_channel: "system_run jv encode st r log \<Longrightarrow> perform jv encode now op st = (st', evs) \<Longrightarrow>
    system_run jv encode st' r (log @ map Channel evs)"
| system_write: "system_run jv encode st r log \<Longrightarrow>
    perform_authorized (ctx, now, l, st) op r = (r', res) \<Longrightarrow>
    system_run jv encode st r' (log @ written l r r')"

lemma system_run_projects:
  "system_run jv encode st r log \<Longrightarrow> channel_run jv encode st (channel_log log) \<and> journal_run r"
proof (induction rule: system_run.induct)
  case system_start
  then show ?case by (simp add: run_start journal_start)
next
  case (system_channel st r log now op st' evs)
  then show ?case by (auto intro: run_step)
next
  case (system_write st r log ctx now l op r' res)
  then have "r' = fst (perform_journal op r) \<or> r' = r"
    using perform_authorized_cases [of "(ctx, now, l, st)" op r] by auto
  then show ?case using system_write by (auto simp: written_def intro: journal_step)
qed

text \<open>Every write was made under the grant that was the last one of its actor at that time.\<close>

definition last_grant :: "lease \<Rightarrow> lease list \<Rightarrow> bool" where
  "last_grant l gs \<longleftrightarrow> (\<exists>before g. gs = before @ [g] \<and> le_owner g = le_owner l \<and>
     le_fence g = le_fence l \<and> (\<forall>g' \<in> set before. le_fence g' < le_fence l))"

definition writes_granted :: "system_event list \<Rightarrow> bool" where
  "writes_granted log \<longleftrightarrow>
     (\<forall>xs l ys. log = xs @ Wrote l # ys \<longrightarrow> last_grant l (grants_of (le_actor l) (channel_log xs)))"

lemma writes_granted_append:
  assumes "writes_granted log"
    and "\<And>xs l ys. evs = xs @ Wrote l # ys \<Longrightarrow> last_grant l (grants_of (le_actor l) (channel_log (log @ xs)))"
  shows "writes_granted (log @ evs)"
  unfolding writes_granted_def
proof (intro allI impI)
  fix xs l ys assume "log @ evs = xs @ Wrote l # ys"
  then consider us where "log = xs @ us" "us @ evs = Wrote l # ys"
    | us where "xs = log @ us" "evs = us @ Wrote l # ys"
    by (auto simp: append_eq_append_conv2)
  then show "last_grant l (grants_of (le_actor l) (channel_log xs))"
  proof cases
    case 1
    show ?thesis
    proof (cases us)
      case Nil
      then show ?thesis using 1 assms(2) [of "[]" l ys] by simp
    next
      case (Cons u us')
      then show ?thesis using 1 assms(1) unfolding writes_granted_def by auto
    qed
  next
    case 2
    then show ?thesis using assms(2) by simp
  qed
qed

lemma system_writes_granted: "system_run jv encode st r log \<Longrightarrow> writes_granted log"
proof (induction rule: system_run.induct)
  case system_start
  then show ?case by (simp add: writes_granted_def)
next
  case (system_channel st r log now op st' evs)
  then show ?case by (intro writes_granted_append) (auto simp: map_eq_append_conv)
next
  case (system_write st r log ctx now l op r' res)
  show ?case
  proof (rule writes_granted_append [OF system_write.IH])
    fix xs l' ys assume "written l r r' = xs @ Wrote l' # ys"
    then have xs: "xs = []" "l' = l" "mr_sessions r' \<noteq> mr_sessions r"
      by (auto simp: written_def Cons_eq_append_conv split: if_splits)
    then have "grant_valid (ctx, now, l, st)"
      using perform_authorized_valid [of "(ctx, now, l, st)" op r] system_write.hyps(2) by simp
    then obtain s where own: "owned now l st = Inr s" by (cases "owned now l st") auto
    have inv: "store_inv st (channel_log log)"
      using system_run_projects [OF system_write.hyps(1)] channel_run_inv by blast
    show "last_grant l' (grants_of (le_actor l') (channel_log (log @ xs)))"
      unfolding last_grant_def xs by (rule owned_last_grant [OF inv own]) auto
  qed
qed

text \<open>
  C9. A superseded writer never changes a journal.  In every interleaving of mailbox operations and
  authorized journal operations, by writers holding any leases, with any clock readings: each
  change of a journal was made under the last grant of its actor, so the changes of an actor carry
  fences that never decrease, and each change after a grant carries at least that grant's fence.
\<close>

theorem journal_writes_fenced:
  assumes run: "system_run jv encode st r log"
  shows "(\<forall>xs l ys. log = xs @ Wrote l # ys \<longrightarrow>
      last_grant l (grants_of (le_actor l) (channel_log xs))) \<and>
    (\<forall>xs l ys l' zs. log = xs @ Wrote l # ys @ Wrote l' # zs \<longrightarrow> le_actor l = le_actor l' \<longrightarrow>
      le_fence l \<le> le_fence l') \<and>
    (\<forall>xs g ys l zs. log = xs @ Channel (Granted g) # ys @ Wrote l # zs \<longrightarrow> le_actor g = le_actor l \<longrightarrow>
      le_fence g \<le> le_fence l)"
proof -
  note granted = system_writes_granted [OF run]
  have bound: "le_fence g \<le> le_fence l"
    if "last_grant l gs" "g \<in> set gs" for l gs g
    using that by (auto simp: last_grant_def intro: less_imp_le)
  have "le_fence l \<le> le_fence l'"
    if log: "log = xs @ Wrote l # ys @ Wrote l' # zs" and "le_actor l = le_actor l'" for xs l ys l' zs
  proof -
    have "last_grant l (grants_of (le_actor l) (channel_log xs))"
      using granted log unfolding writes_granted_def by blast
    then obtain before g where "grants_of (le_actor l) (channel_log xs) = before @ [g]"
      and fence: "le_fence g = le_fence l" unfolding last_grant_def by blast
    then have g: "g \<in> set (grants_of (le_actor l) (channel_log xs))" by simp
    have "log = (xs @ Wrote l # ys) @ Wrote l' # zs" using log by simp
    then have "last_grant l' (grants_of (le_actor l') (channel_log (xs @ Wrote l # ys)))"
      using granted unfolding writes_granted_def by blast
    then show ?thesis using bound [of l' _ g] g fence that(2) by simp
  qed
  moreover have "le_fence g \<le> le_fence l"
    if log: "log = xs @ Channel (Granted g) # ys @ Wrote l # zs" and a: "le_actor g = le_actor l"
    for xs g ys l zs
  proof -
    have "log = (xs @ Channel (Granted g) # ys) @ Wrote l # zs" using log by simp
    then have "last_grant l (grants_of (le_actor l) (channel_log (xs @ Channel (Granted g) # ys)))"
      using granted unfolding writes_granted_def by blast
    moreover have "g \<in> set (grants_of (le_actor l) (channel_log (xs @ Channel (Granted g) # ys)))"
      using a by (simp add: channel_log_def grants_of_def)
    ultimately show ?thesis using bound by blast
  qed
  ultimately show ?thesis using granted unfolding writes_granted_def by blast
qed

text \<open>A grant and a write under it.\<close>

lemma system_ops:
  "system_run (\<lambda>_. True) (\<lambda>c. Inr (sk_id c)) (fst s) r (map Channel (snd s)) \<Longrightarrow>
     system_run (\<lambda>_. True) (\<lambda>c. Inr (sk_id c)) (fst (run_ops ops s)) r
       (map Channel (snd (run_ops ops s)))"
proof (induction ops s rule: run_ops.induct)
  case (2 now op ops s)
  obtain st evs where p: "perform (\<lambda>_. True) (\<lambda>c. Inr (sk_id c)) now op (fst s) = (st, evs)" by fastforce
  then show ?case using 2 system_channel [OF 2(2) p] by simp
qed simp

definition example_mailbox :: "store \<times> channel_event list" where
  "example_mailbox = run_ops [(0, DoSubmit (example_command ''a'')), (1, DoAcquire ''s'' ''w1'' 5)] (New, [])"

definition example_write :: "repository \<times> unit result" where
  "example_write = perform_authorized (None, 2, example_lease ''w1'' 1 6, fst example_mailbox)
     (DoCreate example_rand (\<lambda>_. 7) ''s1'' [example_pending]) new_repository"

lemma journal_writes_fenced_witness:
  "last_grant (example_lease ''w1'' 1 6) (grants_of ''s'' (snd example_mailbox))"
proof -
  let ?l = "example_lease ''w1'' 1 6"
  have "system_run (\<lambda>_. True) (\<lambda>c. Inr (sk_id c)) (fst example_mailbox) new_repository
      (map Channel (snd example_mailbox))"
    unfolding example_mailbox_def by (rule system_ops) (simp add: system_start)
  moreover have "perform_authorized (None, 2, ?l, fst example_mailbox)
      (DoCreate example_rand (\<lambda>_. 7) ''s1'' [example_pending]) new_repository =
    (fst example_write, snd example_write)" by (simp add: example_write_def del: perform_authorized.simps)
  ultimately have run: "system_run (\<lambda>_. True) (\<lambda>c. Inr (sk_id c)) (fst example_mailbox) (fst example_write)
      (map Channel (snd example_mailbox) @ written ?l new_repository (fst example_write))"
    by (rule system_write)
  have "map_option length (mr_sessions (fst example_write) ''s1'') = Some 1" by code_simp
  then have "mr_sessions (fst example_write) \<noteq> mr_sessions new_repository"
    by (auto simp: new_repository_def)
  then have "map Channel (snd example_mailbox) @ written ?l new_repository (fst example_write) =
      map Channel (snd example_mailbox) @ Wrote ?l # []" by (simp add: written_def)
  then have "last_grant ?l (grants_of (le_actor ?l) (channel_log (map Channel (snd example_mailbox))))"
    using conjunct1 [OF journal_writes_fenced [OF run]] by blast
  then show ?thesis by (simp add: example_lease_def)
qed

end
