(* ===== verification/Event_Hub.thy ===== *)
theory Event_Hub
  imports Loop_State "HOL-Library.Word"
begin

text \<open>
  The process-local event hub of a session (harness/event/inproc/inproc.go, records of
  harness/event/event.go): one producer, subscribers with bounded queues, and no operation that
  waits for a subscriber.

  A subscriber is a pointer, its number in the list of subscribers made so far; the hub's map holds
  those it still serves.  A channel is the list of the values not yet received; the error channel,
  written once, is an option.  Go's map iteration order does not matter, since serving a subscriber
  reads and writes that subscriber only.
\<close>

record event_record =
  ev_cursor :: "64 word"
  ev_nature :: event_nature
  ev_type :: nat
  ev_turn :: int
  ev_ordinal :: "64 word"
  ev_session_id :: string
  ev_parent_id :: string
  ev_agent :: string
  ev_depth :: int
  ev_source :: string
  ev_name :: string
  ev_payload :: string
  ev_dropped :: "64 word"
  ev_session_used :: "usage option"

definition preview_record :: "event_record \<Rightarrow> bool" where
  "preview_record r = (ev_nature r = EventPreview)"

text \<open>What the error channel received: nil, or the cursor of \<^verbatim>\<open>ErrSubscriberLagged\<close>.\<close>

datatype terminal = ClosedNormally | SubscriberLagged "64 word"

record subscriber =
  su_id :: "64 word"
  su_events :: "event_record list"
  su_capacity :: nat
  su_terminal :: "terminal option"
  su_preview :: bool
  su_dropped :: "64 word"
  su_last :: "64 word"
  su_disconnected :: bool

record hub =
  hb_next :: "64 word"
  hb_cursor :: "64 word"
  hb_history :: "event_record list"
  hb_subs :: "64 word \<rightharpoonup> nat"
  hb_heap :: "subscriber list"
  hb_closed :: bool

record subscribe_options =
  so_after :: "64 word"
  so_buffer :: int
  so_preview :: bool

fun load_history :: "event_record list \<Rightarrow> hub \<Rightarrow> hub" where
  "load_history [] h = h"
| "load_history (r # rs) h =
     (if preview_record r \<or> ev_cursor r = 0 then load_history rs h
      else load_history rs (h\<lparr>hb_history := hb_history h @ [r],
             hb_cursor := (if ev_cursor r > hb_cursor h then ev_cursor r else hb_cursor h)\<rparr>))"

definition new_hub :: "event_record list \<Rightarrow> hub" where
  "new_hub history = load_history history
     \<lparr>hb_next = 0, hb_cursor = 0, hb_history = [], hb_subs = Map.empty, hb_heap = [], hb_closed = False\<rparr>"

subsection \<open>One subscriber\<close>

definition close_subscriber :: "terminal \<Rightarrow> subscriber \<Rightarrow> subscriber" where
  "close_subscriber t s =
     (if su_disconnected s then s else s\<lparr>su_disconnected := True, su_terminal := Some t\<rparr>)"

definition deliver_record :: "subscriber \<Rightarrow> event_record \<Rightarrow> subscriber \<times> bool" where
  "deliver_record s r =
     (if su_disconnected s then (s, False)
      else if \<not> preview_record r \<and> ev_cursor r \<le> su_last s then (s, True)
      else
        let r' = (if su_dropped s > 0 then r\<lparr>ev_dropped := ev_dropped r + su_dropped s\<rparr> else r) in
        if length (su_events s) < su_capacity s then
          (s\<lparr>su_events := su_events s @ [r'], su_dropped := 0,
             su_last := (if preview_record r then su_last s else ev_cursor r)\<rparr>, True)
        else if preview_record r then (s\<lparr>su_dropped := su_dropped s + 1\<rparr>, True)
        else (close_subscriber (SubscriberLagged (su_last s)) s, False))"

fun replay :: "64 word \<Rightarrow> subscriber \<Rightarrow> event_record list \<Rightarrow> subscriber" where
  "replay after s [] = s"
| "replay after s (r # rs) =
     (if ev_cursor r \<le> after then replay after s rs
      else (case deliver_record s r of (s', ok) \<Rightarrow> if ok then replay after s' rs else s'))"

subsection \<open>The hub\<close>

definition registered :: "hub \<Rightarrow> nat \<Rightarrow> bool" where
  "registered h p = (hb_subs h (su_id (hb_heap h ! p)) = Some p)"

text \<open>The map without the subscribers that were closed.\<close>

definition drop_closed :: "subscriber list \<Rightarrow> (64 word \<rightharpoonup> nat) \<Rightarrow> (64 word \<rightharpoonup> nat)" where
  "drop_closed heap subs i =
     (case subs i of None \<Rightarrow> None | Some p \<Rightarrow> if su_disconnected (heap ! p) then None else Some p)"

definition update_registered :: "(subscriber \<Rightarrow> subscriber) \<Rightarrow> hub \<Rightarrow> hub" where
  "update_registered f h =
     (let heap = map (\<lambda>p. if registered h p then f (hb_heap h ! p) else hb_heap h ! p)
            [0..<length (hb_heap h)] in
      h\<lparr>hb_heap := heap, hb_subs := drop_closed heap (hb_subs h)\<rparr>)"

definition publish :: "event_record \<Rightarrow> hub \<Rightarrow> hub" where
  "publish r = update_registered
     (\<lambda>s. if preview_record r \<and> \<not> su_preview s then s else fst (deliver_record s r))"

definition PublishDurable :: "event_record \<Rightarrow> hub \<Rightarrow> hub result" where
  "PublishDurable r h =
     (if preview_record r \<or> ev_cursor r = 0 then
        Inl (RuntimePanic ''PublishDurable requires a durable event'')
      else if hb_closed h then Inr h
      else
        Inr (publish r (h\<lparr>hb_cursor := (if ev_cursor r > hb_cursor h then ev_cursor r else hb_cursor h),
                          hb_history := hb_history h @ [r]\<rparr>)))"

definition PublishPreview :: "event_record \<Rightarrow> hub \<Rightarrow> hub" where
  "PublishPreview r h =
     (if hb_closed h then h
      else publish (r\<lparr>ev_nature := EventPreview, ev_cursor := hb_cursor h\<rparr>) h)"

definition Subscribe :: "subscribe_options \<Rightarrow> hub \<Rightarrow> hub \<times> nat" where
  "Subscribe opts h =
     (let i = hb_next h + 1; p = length (hb_heap h);
          s = \<lparr>su_id = i, su_events = [],
               su_capacity = (if so_buffer opts \<le> 0 then 64 else nat (so_buffer opts)),
               su_terminal = None, su_preview = so_preview opts, su_dropped = 0,
               su_last = so_after opts, su_disconnected = False\<rparr> in
      if hb_closed h then
        (h\<lparr>hb_next := i, hb_heap := hb_heap h @ [close_subscriber ClosedNormally s]\<rparr>, p)
      else
        let s' = replay (so_after opts) s (hb_history h) in
        (h\<lparr>hb_next := i, hb_heap := hb_heap h @ [s'],
           hb_subs := (if su_disconnected s' then (hb_subs h)(i := None) else (hb_subs h)(i \<mapsto> p))\<rparr>, p))"

text \<open>The close function of a subscription looks its number up again.\<close>

definition Unsubscribe :: "nat \<Rightarrow> hub \<Rightarrow> hub" where
  "Unsubscribe p h =
     (case hb_subs h (su_id (hb_heap h ! p)) of
        None \<Rightarrow> h
      | Some q \<Rightarrow>
          let heap = (hb_heap h)[q := close_subscriber ClosedNormally (hb_heap h ! q)] in
          h\<lparr>hb_heap := heap, hb_subs := drop_closed heap (hb_subs h)\<rparr>)"

definition hub_Close :: "hub \<Rightarrow> hub" where
  "hub_Close h =
     (if hb_closed h then h
      else update_registered (close_subscriber ClosedNormally) (h\<lparr>hb_closed := True\<rparr>))"

text \<open>A subscriber receives the next record of its queue.\<close>

definition Next :: "nat \<Rightarrow> hub \<Rightarrow> hub \<times> event_record option" where
  "Next p h =
     (case su_events (hb_heap h ! p) of
        [] \<Rightarrow> (h, None)
      | r # rs \<Rightarrow> (h\<lparr>hb_heap := (hb_heap h)[p := (hb_heap h ! p)\<lparr>su_events := rs\<rparr>]\<rparr>, Some r))"

subsection \<open>Histories\<close>

datatype hub_op =
    DoPublishDurable event_record
  | DoPublishPreview event_record
  | DoSubscribe subscribe_options
  | DoUnsubscribe nat
  | DoNext nat
  | DoCloseHub

text \<open>Beside the hub, each subscriber's starting cursor and what it received so far.\<close>

type_synonym reader = "64 word \<times> event_record list"

fun perform_hub :: "hub_op \<Rightarrow> hub \<times> reader list \<Rightarrow> hub \<times> reader list" where
  "perform_hub (DoPublishDurable r) (h, rd) = (case PublishDurable r h of Inl e \<Rightarrow> (h, rd) | Inr h' \<Rightarrow> (h', rd))"
| "perform_hub (DoPublishPreview r) (h, rd) = (PublishPreview r h, rd)"
| "perform_hub (DoSubscribe opts) (h, rd) = (fst (Subscribe opts h), rd @ [(so_after opts, [])])"
| "perform_hub (DoUnsubscribe p) (h, rd) = (if p < length rd then (Unsubscribe p h, rd) else (h, rd))"
| "perform_hub (DoNext p) (h, rd) =
     (if p < length rd then
        (case Next p h of
           (h', None) \<Rightarrow> (h', rd)
         | (h', Some r) \<Rightarrow> (h', rd[p := (fst (rd ! p), snd (rd ! p) @ [r])]))
      else (h, rd))"
| "perform_hub DoCloseHub (h, rd) = (hub_Close h, rd)"

inductive hub_run :: "event_record list \<Rightarrow> hub \<times> reader list \<Rightarrow> bool" for history where
  hub_start: "hub_run history (new_hub history, [])"
| hub_step: "hub_run history s \<Longrightarrow> hub_run history (perform_hub op s)"

subsection \<open>What a subscriber should see\<close>

text \<open>The durable records after a cursor, each above the one before.\<close>

fun ascend :: "64 word \<Rightarrow> event_record list \<Rightarrow> event_record list" where
  "ascend a [] = []"
| "ascend a (r # rs) = (if ev_cursor r \<le> a then ascend a rs else r # ascend (ev_cursor r) rs)"

definition last_cursor :: "64 word \<Rightarrow> event_record list \<Rightarrow> 64 word" where
  "last_cursor a rs = (if rs = [] then a else ev_cursor (last rs))"

text \<open>Records up to the count of dropped previews the hub adds.\<close>

definition undropped :: "event_record list \<Rightarrow> event_record list" where
  "undropped rs = map (\<lambda>r. r\<lparr>ev_dropped := 0\<rparr>) rs"

definition durables :: "event_record list \<Rightarrow> event_record list" where
  "durables rs = undropped (filter (\<lambda>r. \<not> preview_record r) rs)"

lemma durables_simps [simp]:
  "durables [] = []" "durables (xs @ ys) = durables xs @ durables ys"
  "durables [r] = (if preview_record r then [] else [r\<lparr>ev_dropped := 0\<rparr>])"
  "durables (r # rs) = (if preview_record r then durables rs else r\<lparr>ev_dropped := 0\<rparr> # durables rs)"
  by (simp_all add: durables_def undropped_def)

lemma undropped_simps [simp]:
  "undropped [] = []" "undropped (xs @ ys) = undropped xs @ undropped ys"
  "undropped [r] = [r\<lparr>ev_dropped := 0\<rparr>]" "undropped xs = [] \<longleftrightarrow> xs = []"
  by (simp_all add: undropped_def)

lemma last_cursor_simps [simp]:
  "last_cursor a [] = a" "last_cursor a (xs @ [r]) = ev_cursor r"
  "last_cursor a (xs @ ys @ [r]) = ev_cursor r"
  "last_cursor a (r # rs) = last_cursor (ev_cursor r) rs"
  by (simp_all add: last_cursor_def)

lemma last_cursor_undropped [simp]: "last_cursor a (undropped xs) = last_cursor a xs"
  by (cases xs rule: rev_cases) simp_all

lemma ascend_snoc:
  "ascend a (xs @ [r]) = ascend a xs @ (if ev_cursor r \<le> last_cursor a (ascend a xs) then [] else [r])"
  by (induction xs arbitrary: a) auto

lemma ascend_ge: "a \<le> last_cursor a (ascend a xs)"
proof (induction xs arbitrary: a)
  case (Cons x xs)
  show ?case
  proof (cases "ev_cursor x \<le> a")
    case False
    then have "a \<le> ev_cursor x" by simp
    then show ?thesis using False Cons.IH [of "ev_cursor x"] by (simp add: order_trans)
  qed (simp add: Cons.IH)
qed simp

lemma ascend_append: "\<exists>zs. ascend a (xs @ ys) = ascend a xs @ zs"
proof (induction ys rule: rev_induct)
  case (snoc y ys)
  then show ?case using ascend_snoc [of a "xs @ ys" y] by auto
qed simp

text \<open>When the history is ordered by cursor, these are simply the records above the cursor.\<close>

lemma ascend_sorted:
  "sorted_wrt (<) (map ev_cursor rs) \<Longrightarrow> ascend a rs = filter (\<lambda>r. a < ev_cursor r) rs"
proof (induction rs arbitrary: a)
  case (Cons r rs)
  then have "filter (\<lambda>x. ev_cursor r < ev_cursor x) rs = rs" by (simp add: filter_id_conv)
  moreover have "a < ev_cursor r \<Longrightarrow> filter (\<lambda>x. a < ev_cursor x) rs = rs"
    using Cons.prems by (auto simp: filter_id_conv)
  ultimately show ?case using Cons by (auto simp: not_le)
qed simp

subsection \<open>The invariant of a subscriber\<close>

definition sub_inv :: "event_record list \<Rightarrow> reader \<Rightarrow> subscriber \<Rightarrow> bool" where
  "sub_inv hist rd s \<longleftrightarrow>
     (\<exists>zs. durables (snd rd @ su_events s) @ zs = undropped (ascend (fst rd) hist) \<and>
        (\<forall>c. su_terminal s = Some (SubscriberLagged c) \<longrightarrow> zs \<noteq> [] \<and> c = su_last s)) \<and>
     su_last s = last_cursor (fst rd) (durables (snd rd @ su_events s)) \<and>
     length (su_events s) \<le> su_capacity s \<and> (su_disconnected s \<longleftrightarrow> su_terminal s \<noteq> None)"

definition up_to_date :: "event_record list \<Rightarrow> reader \<Rightarrow> subscriber \<Rightarrow> bool" where
  "up_to_date hist rd s \<longleftrightarrow>
     durables (snd rd @ su_events s) = undropped (ascend (fst rd) hist) \<and> \<not> su_disconnected s"

lemma sub_inv_grow: "sub_inv hist rd s \<Longrightarrow> sub_inv (hist @ rs) rd s"
proof -
  assume inv: "sub_inv hist rd s"
  obtain ws where "ascend (fst rd) (hist @ rs) = ascend (fst rd) hist @ ws" using ascend_append by blast
  moreover obtain zs where "durables (snd rd @ su_events s) @ zs = undropped (ascend (fst rd) hist)"
    "\<forall>c. su_terminal s = Some (SubscriberLagged c) \<longrightarrow> zs \<noteq> [] \<and> c = su_last s"
    using inv by (auto simp: sub_inv_def)
  ultimately have "durables (snd rd @ su_events s) @ (zs @ undropped ws) =
      undropped (ascend (fst rd) (hist @ rs))" by simp
  then show ?thesis using inv \<open>\<forall>c. su_terminal s = Some (SubscriberLagged c) \<longrightarrow> zs \<noteq> [] \<and> c = su_last s\<close>
    unfolding sub_inv_def by (metis append_is_Nil_conv)
qed

lemma deliver_static:
  "deliver_record s r = (s', ok) \<Longrightarrow> su_id s' = su_id s \<and> su_capacity s' = su_capacity s \<and>
     su_preview s' = su_preview s \<and> (ok \<longleftrightarrow> \<not> su_disconnected s')"
  by (auto simp: deliver_record_def close_subscriber_def Let_def split: if_splits)

lemma deliver_preview:
  assumes "sub_inv hist rd s" "up_to_date hist rd s" "preview_record r" "deliver_record s r = (s', ok)"
  shows "sub_inv hist rd s' \<and> up_to_date hist rd s'"
  using assms by (auto simp: deliver_record_def Let_def sub_inv_def up_to_date_def preview_record_def
      split: if_splits)

lemma deliver_durable:
  assumes inv: "sub_inv hist rd s" and full: "up_to_date hist rd s"
    and r: "\<not> preview_record r" and step: "deliver_record s r = (s', ok)"
  shows "sub_inv (hist @ [r]) rd s' \<and> (\<not> su_disconnected s' \<longrightarrow> up_to_date (hist @ [r]) rd s')"
proof -
  let ?D = "durables (snd rd @ su_events s)" and ?A = "ascend (fst rd) hist"
  have D: "?D = undropped ?A" "\<not> su_disconnected s" using full by (auto simp: up_to_date_def)
  have last: "su_last s = last_cursor (fst rd) ?A" using inv D(1) by (simp add: sub_inv_def)
  consider (old) "ev_cursor r \<le> su_last s"
    | (sent) "\<not> ev_cursor r \<le> su_last s" "length (su_events s) < su_capacity s"
    | (lag) "\<not> ev_cursor r \<le> su_last s" "\<not> length (su_events s) < su_capacity s" by blast
  then show ?thesis
  proof cases
    case old
    then have "s' = s" using step D r by (simp add: deliver_record_def)
    moreover have "ascend (fst rd) (hist @ [r]) = ?A" using old last by (simp add: ascend_snoc)
    ultimately show ?thesis using inv full sub_inv_grow [OF inv] by (simp add: up_to_date_def)
  next
    case sent
    define r' where "r' = (if su_dropped s > 0 then r\<lparr>ev_dropped := ev_dropped r + su_dropped s\<rparr> else r)"
    have r': "\<not> preview_record r'" "ev_cursor r' = ev_cursor r" "r'\<lparr>ev_dropped := 0\<rparr> = r\<lparr>ev_dropped := 0\<rparr>"
      using r by (auto simp: r'_def preview_record_def)
    have s': "s' = s\<lparr>su_events := su_events s @ [r'], su_dropped := 0, su_last := ev_cursor r\<rparr>"
      using step D r sent by (simp add: deliver_record_def Let_def r'_def)
    have "ascend (fst rd) (hist @ [r]) = ?A @ [r]" using sent last by (simp add: ascend_snoc)
    then have "durables (snd rd @ su_events s') = undropped (ascend (fst rd) (hist @ [r]))"
      using D r' by (simp add: s')
    moreover have "su_last s' = last_cursor (fst rd) (durables (snd rd @ su_events s'))"
      using r' by (simp add: s')
    moreover have "su_terminal s = None" using inv D(2) by (simp add: sub_inv_def)
    ultimately show ?thesis using inv D sent
      by (auto simp: sub_inv_def up_to_date_def s')
  next
    case lag
    then have s': "s' = s\<lparr>su_disconnected := True, su_terminal := Some (SubscriberLagged (su_last s))\<rparr>"
      using step D r by (simp add: deliver_record_def Let_def close_subscriber_def)
    have "ascend (fst rd) (hist @ [r]) = ?A @ [r]" using lag last by (simp add: ascend_snoc)
    then have "?D @ [r\<lparr>ev_dropped := 0\<rparr>] = undropped (ascend (fst rd) (hist @ [r]))" using D by simp
    then show ?thesis using inv by (auto simp: sub_inv_def s')
  qed
qed

lemma replay_inv:
  "sub_inv hist (after, []) s \<Longrightarrow> up_to_date hist (after, []) s \<Longrightarrow>
     \<forall>r \<in> set rs. \<not> preview_record r \<Longrightarrow>
     sub_inv (hist @ rs) (after, []) (replay after s rs) \<and>
     (\<not> su_disconnected (replay after s rs) \<longrightarrow> up_to_date (hist @ rs) (after, []) (replay after s rs)) \<and>
     su_id (replay after s rs) = su_id s"
proof (induction rs arbitrary: hist s)
  case (Cons r rs)
  show ?case
  proof (cases "ev_cursor r \<le> after")
    case True
    then have "ev_cursor r \<le> last_cursor after (ascend after hist)" using ascend_ge order_trans by blast
    then have "ascend after (hist @ [r]) = ascend after hist" by (simp add: ascend_snoc)
    then have "up_to_date (hist @ [r]) (after, []) s" using Cons.prems(2) by (simp add: up_to_date_def)
    then show ?thesis
      using Cons.IH [OF sub_inv_grow [OF Cons.prems(1), of "[r]"]] Cons.prems(3) True by simp
  next
    case False
    obtain s' ok where step: "deliver_record s r = (s', ok)" by fastforce
    have r: "\<not> preview_record r" using Cons.prems(3) by simp
    note next' = deliver_durable [OF Cons.prems(1,2) r step]
    show ?thesis
    proof (cases ok)
      case True
      then have "\<not> su_disconnected s'" using deliver_static [OF step] by simp
      then show ?thesis
        using Cons.IH [of "hist @ [r]" s'] next' Cons.prems(3) False step True deliver_static [OF step] by simp
    next
      case no: False
      then have "su_disconnected s'" using deliver_static [OF step] by simp
      then show ?thesis using next' sub_inv_grow [of "hist @ [r]" "(after, [])" s' rs] False step no
          deliver_static [OF step] by simp
    qed
  qed
qed simp

subsection \<open>The invariant of the hub\<close>

definition subs_ok :: "subscriber list \<Rightarrow> (64 word \<rightharpoonup> nat) \<Rightarrow> bool" where
  "subs_ok heap subs \<longleftrightarrow>
     (\<forall>i p. subs i = Some p \<longrightarrow> p < length heap \<and> su_id (heap ! p) = i \<and> \<not> su_disconnected (heap ! p))"

definition hub_inv :: "hub \<Rightarrow> reader list \<Rightarrow> bool" where
  "hub_inv h rd \<longleftrightarrow>
     length rd = length (hb_heap h) \<and> subs_ok (hb_heap h) (hb_subs h) \<and>
     (\<forall>r \<in> set (hb_history h). \<not> preview_record r) \<and>
     (\<forall>p < length rd. sub_inv (hb_history h) (rd ! p) (hb_heap h ! p) \<and>
        (registered h p \<longrightarrow> up_to_date (hb_history h) (rd ! p) (hb_heap h ! p)))"

lemma load_history_durable:
  "\<forall>r \<in> set (hb_history h). \<not> preview_record r \<Longrightarrow>
     (\<forall>r \<in> set (hb_history (load_history rs h)). \<not> preview_record r) \<and>
     hb_heap (load_history rs h) = hb_heap h \<and> hb_subs (load_history rs h) = hb_subs h"
  by (induction rs h rule: load_history.induct) auto

lemma hub_inv_start: "hub_inv (new_hub history) []"
  using load_history_durable [of "\<lparr>hb_next = 0, hb_cursor = 0, hb_history = [], hb_subs = Map.empty,
    hb_heap = [], hb_closed = False\<rparr>" history]
  by (simp add: hub_inv_def new_hub_def subs_ok_def)

text \<open>Serving the registered subscribers, one by one.\<close>

lemma update_registered_inv:
  assumes ok: "subs_ok (hb_heap h) (hb_subs h)" and len: "length rd = length (hb_heap h)"
    and hist: "\<forall>r \<in> set (hb_history h). \<not> preview_record r"
    and f_id: "\<And>s. su_id (f s) = su_id s"
    and rest: "\<And>p. p < length rd \<Longrightarrow> \<not> registered h p \<Longrightarrow> sub_inv (hb_history h) (rd ! p) (hb_heap h ! p)"
    and served: "\<And>p. p < length rd \<Longrightarrow> registered h p \<Longrightarrow>
      sub_inv (hb_history h) (rd ! p) (f (hb_heap h ! p)) \<and>
      (\<not> su_disconnected (f (hb_heap h ! p)) \<longrightarrow> up_to_date (hb_history h) (rd ! p) (f (hb_heap h ! p)))"
  shows "hub_inv (update_registered f h) rd"
proof -
  let ?heap = "map (\<lambda>p. if registered h p then f (hb_heap h ! p) else hb_heap h ! p) [0..<length (hb_heap h)]"
  have u: "hb_heap (update_registered f h) = ?heap" "hb_history (update_registered f h) = hb_history h"
    "hb_subs (update_registered f h) = drop_closed ?heap (hb_subs h)"
    by (simp_all add: update_registered_def Let_def)
  have nth: "?heap ! p = (if registered h p then f (hb_heap h ! p) else hb_heap h ! p)"
    if "p < length (hb_heap h)" for p using that by simp
  have id: "su_id (?heap ! p) = su_id (hb_heap h ! p)" if "p < length (hb_heap h)" for p
    using nth [OF that] f_id by simp
  have reg: "registered h p \<and> \<not> su_disconnected (?heap ! p)"
    if "p < length (hb_heap h)" "registered (update_registered f h) p" for p
    using that id [OF that(1)]
    by (auto simp: registered_def u drop_closed_def simp del: nth_map split: option.splits if_splits)
  have "subs_ok ?heap (drop_closed ?heap (hb_subs h))"
    unfolding subs_ok_def
  proof (intro allI impI)
    fix i p assume "drop_closed ?heap (hb_subs h) i = Some p"
    then have p: "hb_subs h i = Some p" "\<not> su_disconnected (?heap ! p)"
      by (auto simp: drop_closed_def split: option.splits if_splits)
    then have "p < length (hb_heap h)" "su_id (hb_heap h ! p) = i" using ok by (auto simp: subs_ok_def)
    then show "p < length ?heap \<and> su_id (?heap ! p) = i \<and> \<not> su_disconnected (?heap ! p)"
      using p(2) id by simp
  qed
  moreover have "sub_inv (hb_history h) (rd ! p) (?heap ! p) \<and>
      (registered (update_registered f h) p \<longrightarrow> up_to_date (hb_history h) (rd ! p) (?heap ! p))"
    if "p < length rd" for p
    using that nth [of p] rest [OF that] served [OF that] reg [of p] len by (cases "registered h p") auto
  ultimately show ?thesis using hist len by (simp add: hub_inv_def u)
qed

lemma close_subscriber_inv: "sub_inv hist rd s \<Longrightarrow> sub_inv hist rd (close_subscriber ClosedNormally s)"
  by (auto simp: close_subscriber_def sub_inv_def)

lemma close_subscriber_sel [simp]:
  "su_id (close_subscriber t s) = su_id s" "su_disconnected (close_subscriber t s)"
  by (auto simp: close_subscriber_def)

lemma PublishDurable_inv:
  assumes inv: "hub_inv h rd" and step: "PublishDurable r h = Inr h'"
  shows "hub_inv h' rd"
proof (cases "hb_closed h")
  case True
  then show ?thesis using inv step by (auto simp: PublishDurable_def split: if_splits)
next
  case False
  let ?h = "h\<lparr>hb_cursor := (if ev_cursor r > hb_cursor h then ev_cursor r else hb_cursor h),
     hb_history := hb_history h @ [r]\<rparr>"
  have r: "\<not> preview_record r" and h': "h' = publish r ?h"
    using step False by (auto simp: PublishDurable_def split: if_splits)
  have old: "length rd = length (hb_heap h)" "subs_ok (hb_heap h) (hb_subs h)"
    "\<forall>r \<in> set (hb_history h). \<not> preview_record r"
    "\<And>p. p < length rd \<Longrightarrow> sub_inv (hb_history h) (rd ! p) (hb_heap h ! p)"
    "\<And>p. p < length rd \<Longrightarrow> registered h p \<Longrightarrow> up_to_date (hb_history h) (rd ! p) (hb_heap h ! p)"
    using inv by (auto simp: hub_inv_def)
  have same: "registered ?h p = registered h p" for p by (simp add: registered_def)
  show ?thesis unfolding h' publish_def
  proof (rule update_registered_inv)
    show "su_id (if preview_record r \<and> \<not> su_preview s then s else fst (deliver_record s r)) = su_id s" for s
      using deliver_static [of s r] by (cases "deliver_record s r") auto
    show "sub_inv (hb_history ?h) (rd ! p) (hb_heap ?h ! p)" if "p < length rd" for p
      using old(4) [OF that] sub_inv_grow by simp
    show "sub_inv (hb_history ?h) (rd ! p)
          (if preview_record r \<and> \<not> su_preview (hb_heap ?h ! p) then hb_heap ?h ! p
           else fst (deliver_record (hb_heap ?h ! p) r)) \<and>
        (\<not> su_disconnected (if preview_record r \<and> \<not> su_preview (hb_heap ?h ! p) then hb_heap ?h ! p
           else fst (deliver_record (hb_heap ?h ! p) r)) \<longrightarrow>
         up_to_date (hb_history ?h) (rd ! p)
           (if preview_record r \<and> \<not> su_preview (hb_heap ?h ! p) then hb_heap ?h ! p
            else fst (deliver_record (hb_heap ?h ! p) r)))"
      if "p < length rd" "registered ?h p" for p
      using deliver_durable [OF old(4) [OF that(1)] old(5) [OF that(1)] r] that(2) r
      by (cases "deliver_record (hb_heap h ! p) r") (simp add: same)
  qed (use old r in auto)
qed

lemma PublishPreview_inv:
  assumes inv: "hub_inv h rd"
  shows "hub_inv (PublishPreview r h) rd"
proof (cases "hb_closed h")
  case True
  then show ?thesis using inv by (simp add: PublishPreview_def)
next
  case False
  let ?r = "r\<lparr>ev_nature := EventPreview, ev_cursor := hb_cursor h\<rparr>"
  have r: "preview_record ?r" by (simp add: preview_record_def)
  have old: "length rd = length (hb_heap h)" "subs_ok (hb_heap h) (hb_subs h)"
    "\<forall>r \<in> set (hb_history h). \<not> preview_record r"
    "\<And>p. p < length rd \<Longrightarrow> sub_inv (hb_history h) (rd ! p) (hb_heap h ! p)"
    "\<And>p. p < length rd \<Longrightarrow> registered h p \<Longrightarrow> up_to_date (hb_history h) (rd ! p) (hb_heap h ! p)"
    using inv by (auto simp: hub_inv_def)
  have "hub_inv (publish ?r h) rd" unfolding publish_def
  proof (rule update_registered_inv)
    show "su_id (if preview_record ?r \<and> \<not> su_preview s then s else fst (deliver_record s ?r)) = su_id s" for s
      using deliver_static [of s ?r] by (cases "deliver_record s ?r") auto
    show "sub_inv (hb_history h) (rd ! p)
          (if preview_record ?r \<and> \<not> su_preview (hb_heap h ! p) then hb_heap h ! p
           else fst (deliver_record (hb_heap h ! p) ?r)) \<and>
        (\<not> su_disconnected (if preview_record ?r \<and> \<not> su_preview (hb_heap h ! p) then hb_heap h ! p
           else fst (deliver_record (hb_heap h ! p) ?r)) \<longrightarrow>
         up_to_date (hb_history h) (rd ! p)
           (if preview_record ?r \<and> \<not> su_preview (hb_heap h ! p) then hb_heap h ! p
            else fst (deliver_record (hb_heap h ! p) ?r)))"
      if "p < length rd" "registered h p" for p
      using deliver_preview [OF old(4) [OF that(1)] old(5) [OF that] r]
        old(4) [OF that(1)] old(5) [OF that]
      by (cases "deliver_record (hb_heap h ! p) ?r") simp
  qed (use old in auto)
  then show ?thesis using False by (simp add: PublishPreview_def)
qed

lemma hub_Close_inv:
  assumes inv: "hub_inv h rd"
  shows "hub_inv (hub_Close h) rd"
proof (cases "hb_closed h")
  case True
  then show ?thesis using inv by (simp add: hub_Close_def)
next
  case False
  let ?h = "h\<lparr>hb_closed := True\<rparr>"
  have old: "length rd = length (hb_heap h)" "subs_ok (hb_heap h) (hb_subs h)"
    "\<forall>r \<in> set (hb_history h). \<not> preview_record r"
    "\<And>p. p < length rd \<Longrightarrow> sub_inv (hb_history h) (rd ! p) (hb_heap h ! p)"
    using inv by (auto simp: hub_inv_def)
  have "hub_inv (update_registered (close_subscriber ClosedNormally) ?h) rd"
    by (rule update_registered_inv) (use old close_subscriber_inv in auto)
  then show ?thesis using False by (simp add: hub_Close_def)
qed

lemma Subscribe_inv:
  assumes inv: "hub_inv h rd"
  shows "hub_inv (fst (Subscribe opts h)) (rd @ [(so_after opts, [])])"
proof -
  let ?i = "hb_next h + 1" and ?p = "length (hb_heap h)" and ?a = "so_after opts"
  define s where "s = \<lparr>su_id = ?i, su_events = [],
     su_capacity = (if so_buffer opts \<le> 0 then 64 else nat (so_buffer opts)), su_terminal = None,
     su_preview = so_preview opts, su_dropped = 0, su_last = ?a, su_disconnected = False\<rparr>"
  define s' where "s' = (if hb_closed h then close_subscriber ClosedNormally s
     else replay ?a s (hb_history h))"
  have old: "length rd = length (hb_heap h)"
    "\<And>i p. hb_subs h i = Some p \<Longrightarrow> p < length (hb_heap h) \<and> su_id (hb_heap h ! p) = i \<and>
      \<not> su_disconnected (hb_heap h ! p)"
    "\<forall>r \<in> set (hb_history h). \<not> preview_record r"
    "\<And>p. p < length rd \<Longrightarrow> sub_inv (hb_history h) (rd ! p) (hb_heap h ! p)"
    "\<And>p. p < length rd \<Longrightarrow> registered h p \<Longrightarrow> up_to_date (hb_history h) (rd ! p) (hb_heap h ! p)"
    using inv by (auto simp: hub_inv_def subs_ok_def)
  have "sub_inv [] (?a, []) s" "up_to_date [] (?a, []) s"
    by (simp_all add: s_def sub_inv_def up_to_date_def)
  then have re: "sub_inv (hb_history h) (?a, []) (replay ?a s (hb_history h))"
    "\<not> su_disconnected (replay ?a s (hb_history h)) \<Longrightarrow>
      up_to_date (hb_history h) (?a, []) (replay ?a s (hb_history h))"
    "su_id (replay ?a s (hb_history h)) = ?i"
    using replay_inv [of "[]" ?a s "hb_history h"] old(3) by (auto simp: s_def)
  have "sub_inv (hb_history h) (?a, []) (close_subscriber ClosedNormally s)"
    using close_subscriber_inv [OF sub_inv_grow [OF \<open>sub_inv [] (?a, []) s\<close>, of "hb_history h"]] by simp
  then have new: "sub_inv (hb_history h) (?a, []) s'" "su_id s' = ?i"
    "\<not> su_disconnected s' \<Longrightarrow> up_to_date (hb_history h) (?a, []) s'"
    using re by (auto simp: s'_def) (simp add: s_def)
  let ?heap = "hb_heap h @ [s']"
  define subs where "subs = (if hb_closed h then hb_subs h
     else if su_disconnected s' then (hb_subs h)(?i := None) else (hb_subs h)(?i \<mapsto> ?p))"
  have h': "hb_heap (fst (Subscribe opts h)) = ?heap" "hb_history (fst (Subscribe opts h)) = hb_history h"
    "hb_subs (fst (Subscribe opts h)) = subs"
    by (auto simp: Subscribe_def Let_def s'_def s_def subs_def)
  have closed: "hb_closed h \<Longrightarrow> su_disconnected s'" by (simp add: s'_def)
  have subs_cases: "hb_subs h i = Some p \<or> p = ?p \<and> i = ?i \<and> \<not> su_disconnected s'"
    if "subs i = Some p" for i p using that by (auto simp: subs_def split: if_splits)
  have heap_old: "?heap ! p = hb_heap h ! p" if "p < length (hb_heap h)" for p
    using that by (simp add: nth_append)
  have "subs_ok ?heap subs" unfolding subs_ok_def
  proof (intro allI impI)
    fix i p assume "subs i = Some p"
    from subs_cases [OF this] show "p < length ?heap \<and> su_id (?heap ! p) = i \<and> \<not> su_disconnected (?heap ! p)"
      using old(2) [of i p] heap_old [of p] new(2) by (cases "p = ?p") auto
  qed
  moreover have "sub_inv (hb_history h) ((rd @ [(?a, [])]) ! p) (?heap ! p) \<and>
      (registered (fst (Subscribe opts h)) p \<longrightarrow>
        up_to_date (hb_history h) ((rd @ [(?a, [])]) ! p) (?heap ! p))"
    if "p < length (rd @ [(?a, [])])" for p
  proof (cases "p = ?p")
    case True
    then have reg: "registered (fst (Subscribe opts h)) p \<Longrightarrow> \<not> su_disconnected s'"
      using subs_cases [of "su_id s'" ?p] old(2) [of "su_id s'" ?p] by (auto simp: registered_def h')
    then show ?thesis using True new old(1) by (simp add: nth_append)
  next
    case False
    then have p: "p < length rd" using that old(1) by simp
    then have "registered (fst (Subscribe opts h)) p \<Longrightarrow> registered h p"
      using subs_cases [of "su_id (hb_heap h ! p)" p] heap_old [of p] old(1) False
      by (auto simp: registered_def h')
    then show ?thesis using old(4,5) [OF p] p old(1) heap_old [of p] by (simp add: nth_append)
  qed
  ultimately show ?thesis unfolding hub_inv_def h' using old(1,3) by simp
qed

lemma Unsubscribe_inv:
  assumes inv: "hub_inv h rd"
  shows "hub_inv (Unsubscribe p h) rd"
proof (cases "hb_subs h (su_id (hb_heap h ! p))")
  case None
  then show ?thesis using inv by (simp add: Unsubscribe_def)
next
  case (Some q)
  let ?heap = "(hb_heap h)[q := close_subscriber ClosedNormally (hb_heap h ! q)]"
  have u: "Unsubscribe p h = h\<lparr>hb_heap := ?heap, hb_subs := drop_closed ?heap (hb_subs h)\<rparr>"
    using Some by (simp add: Unsubscribe_def Let_def)
  have old: "length rd = length (hb_heap h)"
    "\<And>i p. hb_subs h i = Some p \<Longrightarrow> p < length (hb_heap h) \<and> su_id (hb_heap h ! p) = i \<and>
      \<not> su_disconnected (hb_heap h ! p)"
    "\<forall>r \<in> set (hb_history h). \<not> preview_record r"
    "\<And>p. p < length rd \<Longrightarrow> sub_inv (hb_history h) (rd ! p) (hb_heap h ! p)"
    "\<And>p. p < length rd \<Longrightarrow> registered h p \<Longrightarrow> up_to_date (hb_history h) (rd ! p) (hb_heap h ! p)"
    using inv by (auto simp: hub_inv_def subs_ok_def)
  have q: "q < length (hb_heap h)" using old(2) [OF Some] by simp
  have id: "su_id (?heap ! k) = su_id (hb_heap h ! k)" if "k < length (hb_heap h)" for k
    using that by (cases "k = q") simp_all
  have other: "?heap ! k = hb_heap h ! k" if "k \<noteq> q" for k using that by simp
  have at: "?heap ! q = close_subscriber ClosedNormally (hb_heap h ! q)" using q by simp
  have sub: "hb_subs h i = Some k \<and> k \<noteq> q" if "drop_closed ?heap (hb_subs h) i = Some k" for i k
    using that at by (auto simp: drop_closed_def split: option.splits if_splits)
  have "subs_ok ?heap (drop_closed ?heap (hb_subs h))" unfolding subs_ok_def
  proof (intro allI impI)
    fix i k assume "drop_closed ?heap (hb_subs h) i = Some k"
    then show "k < length ?heap \<and> su_id (?heap ! k) = i \<and> \<not> su_disconnected (?heap ! k)"
      using sub old(2) other by fastforce
  qed
  moreover have "sub_inv (hb_history h) (rd ! k) (?heap ! k) \<and>
      (registered (Unsubscribe p h) k \<longrightarrow> up_to_date (hb_history h) (rd ! k) (?heap ! k))"
    if k: "k < length rd" for k
  proof (cases "k = q")
    case True
    then have "\<not> registered (Unsubscribe p h) k"
      using sub [of "su_id (?heap ! q)" q] by (auto simp: registered_def u)
    then show ?thesis using True at close_subscriber_inv [OF old(4) [OF k]] by simp
  next
    case False
    then have "registered (Unsubscribe p h) k \<Longrightarrow> registered h k"
      using sub [of "su_id (hb_heap h ! k)" k] other by (auto simp: registered_def u)
    then show ?thesis using old(4,5) [OF k] other [OF False] by auto
  qed
  ultimately show ?thesis unfolding hub_inv_def u using old(1,3) by (simp add: registered_def)
qed

lemma Next_inv:
  assumes inv: "hub_inv h rd" and p: "p < length rd" and step: "Next p h = (h', Some r)"
  shows "hub_inv h' (rd[p := (fst (rd ! p), snd (rd ! p) @ [r])])"
proof -
  obtain rs where rs: "su_events (hb_heap h ! p) = r # rs"
    and h': "h' = h\<lparr>hb_heap := (hb_heap h)[p := (hb_heap h ! p)\<lparr>su_events := rs\<rparr>]\<rparr>"
    using step by (auto simp: Next_def split: list.splits)
  let ?heap = "(hb_heap h)[p := (hb_heap h ! p)\<lparr>su_events := rs\<rparr>]"
  let ?rd = "rd[p := (fst (rd ! p), snd (rd ! p) @ [r])]"
  have old: "length rd = length (hb_heap h)" "subs_ok (hb_heap h) (hb_subs h)"
    "\<forall>r \<in> set (hb_history h). \<not> preview_record r"
    "\<And>p. p < length rd \<Longrightarrow> sub_inv (hb_history h) (rd ! p) (hb_heap h ! p)"
    "\<And>p. p < length rd \<Longrightarrow> registered h p \<Longrightarrow> up_to_date (hb_history h) (rd ! p) (hb_heap h ! p)"
    using inv by (auto simp: hub_inv_def)
  have id: "su_id (?heap ! k) = su_id (hb_heap h ! k) \<and>
      su_disconnected (?heap ! k) = su_disconnected (hb_heap h ! k)" if "k < length (hb_heap h)" for k
    using that by (cases "k = p") simp_all
  have "subs_ok ?heap (hb_subs h)" using old(2) id by (simp add: subs_ok_def)
  moreover have "registered h' k = registered h k" if "k < length rd" for k
    using id [of k] that old(1) by (simp add: registered_def h')
  moreover have "sub_inv (hb_history h) (?rd ! k) (?heap ! k) \<and>
      (registered h k \<longrightarrow> up_to_date (hb_history h) (?rd ! k) (?heap ! k))" if k: "k < length rd" for k
  proof (cases "k = p")
    case True
    then show ?thesis using old(1) old(4,5) [OF p] p rs by (auto simp: sub_inv_def up_to_date_def)
  next
    case False
    then show ?thesis using old(4,5) [OF k] by simp
  qed
  ultimately show ?thesis using old(1,3) by (simp add: hub_inv_def h')
qed

lemma hub_run_inv: "hub_run history s \<Longrightarrow> hub_inv (fst s) (snd s)"
proof (induction rule: hub_run.induct)
  case hub_start
  then show ?case using hub_inv_start by simp
next
  case (hub_step s op)
  obtain h rd where s: "s = (h, rd)" by fastforce
  then have inv: "hub_inv h rd" using hub_step by simp
  show ?case
  proof (cases op)
    case (DoPublishDurable r)
    then show ?thesis using PublishDurable_inv [OF inv, of r] inv s by (auto split: sum.split)
  next
    case (DoNext p)
    then show ?thesis using Next_inv [OF inv, of p] inv s
      by (auto simp: Next_def split: list.splits)
  qed (use inv s PublishPreview_inv Subscribe_inv Unsubscribe_inv hub_Close_inv in auto)
qed

text \<open>
  C31. What a subscriber sees.  In every history of the hub, whatever the speed of the readers: the
  durable records a subscriber received or has queued are an initial part of the durable records
  above its starting cursor, in cursor order, with no gap and no repetition; all of them, while the
  hub serves it; and when it was cut off for lagging, some are missing and the error names the
  cursor of the last one it has.  Its queue never exceeds its buffer.
\<close>

theorem subscriber_sees_prefix:
  assumes run: "hub_run history (h, rd)" and p: "p < length rd"
  defines "s \<equiv> hb_heap h ! p" and "seen \<equiv> durables (snd (rd ! p) @ su_events (hb_heap h ! p))"
    and "due \<equiv> undropped (ascend (fst (rd ! p)) (hb_history h))"
  shows "(\<exists>missing. seen @ missing = due \<and>
      (\<forall>c. su_terminal s = Some (SubscriberLagged c) \<longrightarrow>
         missing \<noteq> [] \<and> c = last_cursor (fst (rd ! p)) seen)) \<and>
    (registered h p \<longrightarrow> seen = due \<and> su_terminal s = None) \<and> length (su_events s) \<le> su_capacity s"
proof -
  have inv: "sub_inv (hb_history h) (rd ! p) s" "registered h p \<longrightarrow> up_to_date (hb_history h) (rd ! p) s"
    using hub_run_inv [OF run] p by (auto simp: hub_inv_def s_def)
  then show ?thesis
    by (auto simp: sub_inv_def up_to_date_def s_def seen_def due_def)
qed

text \<open>A slow reader with room for one record.\<close>

definition example_record :: "64 word \<Rightarrow> event_record" where
  "example_record c =
     \<lparr>ev_cursor = c, ev_nature = EventAuthoritative, ev_type = 4, ev_turn = 0, ev_ordinal = 0,
      ev_session_id = ''s'', ev_parent_id = '''', ev_agent = '''', ev_depth = 0, ev_source = ''agentic'',
      ev_name = '''', ev_payload = ''{}'', ev_dropped = 0, ev_session_used = None\<rparr>"

definition example_hub_ops :: "hub_op list" where
  "example_hub_ops =
     [DoSubscribe \<lparr>so_after = 0, so_buffer = 1, so_preview = False\<rparr>,
      DoPublishDurable (example_record 1), DoNext 0, DoPublishDurable (example_record 2),
      DoPublishDurable (example_record 3)]"

definition example_hub :: "hub \<times> reader list" where
  "example_hub = fold perform_hub example_hub_ops (new_hub [], [])"

lemma example_hub_run: "hub_run [] example_hub"
  unfolding example_hub_def example_hub_ops_def by (simp del: perform_hub.simps) (intro hub_step hub_start)

lemma subscriber_sees_prefix_witness:
  "durables (snd (snd example_hub ! 0) @ su_events (hb_heap (fst example_hub) ! 0)) \<noteq>
     undropped (ascend 0 (hb_history (fst example_hub)))"
proof -
  let ?h = "fst example_hub" and ?rd = "snd example_hub"
  have lag: "map su_terminal (hb_heap ?h) = [Some (SubscriberLagged 2)]" by code_simp
  have len: "length ?rd = 1" "map fst ?rd = [0]" by code_simp+
  then have after: "fst (?rd ! 0) = 0" by (cases ?rd) auto
  have "su_terminal (hb_heap ?h ! 0) = Some (SubscriberLagged 2)" using lag by (cases "hb_heap ?h") auto
  moreover have "hub_run [] (?h, ?rd)" using example_hub_run by simp
  ultimately obtain missing where "durables (snd (?rd ! 0) @ su_events (hb_heap ?h ! 0)) @ missing =
      undropped (ascend 0 (hb_history ?h))" "missing \<noteq> []"
    using conjunct1 [OF subscriber_sees_prefix [of "[]" ?h ?rd 0]] len(1) unfolding after by auto
  then show ?thesis by (metis append_self_conv)
qed

end
