(* ===== verification/Context_Policy.thy ===== *)
theory Context_Policy
  imports Chat Transcript
begin

text \<open>
  The context policy (harness/contextpolicy/contextpolicy.go): a provider view is built from the
  durable transcript by append-only transforms, and a prefix of it may be replaced by a summary when
  the estimate of its tokens reaches a threshold.

  Parameters, gathered in a record: the JSON encodings and copies, SHA-256 in hexadecimal, and the
  token counter.  A transform is a function of the two partitions; a partition it clears is None.
  The copies of messages are values equal to the original.  Sizes are integers.
\<close>

record context_env =
  ce_encode_message :: "message \<Rightarrow> string result"
  ce_encode_messages :: "message list \<Rightarrow> string result"
  ce_encode_prefix :: "message list \<Rightarrow> string result"
  ce_encode_tool :: "tool \<Rightarrow> string result"
  ce_clone_tools :: "tool list \<Rightarrow> tool list result"
  ce_sha256 :: "string \<Rightarrow> string"

type_synonym counter = "string \<Rightarrow> int result"

definition ByteCounter :: counter where
  "ByteCounter value = Inr (int (length value))"

record config =
  cfg_window :: int
  cfg_trigger :: int
  cfg_target :: int
  cfg_recent :: int
  cfg_message_overhead :: int
  cfg_part_overhead :: int
  cfg_tool_overhead :: int
  cfg_counter :: "counter option"
  cfg_tools :: "tool list"

definition or_default :: "int \<Rightarrow> int \<Rightarrow> int" where
  "or_default v d = (if v = 0 then d else v)"

definition with_defaults :: "config \<Rightarrow> config" where
  "with_defaults c =
     c\<lparr>cfg_counter := Some (case cfg_counter c of None \<Rightarrow> ByteCounter | Some f \<Rightarrow> f),
       cfg_trigger := or_default (cfg_trigger c) 70, cfg_target := or_default (cfg_target c) 50,
       cfg_recent := or_default (cfg_recent c) 8,
       cfg_message_overhead := or_default (cfg_message_overhead c) 8,
       cfg_part_overhead := or_default (cfg_part_overhead c) 4,
       cfg_tool_overhead := or_default (cfg_tool_overhead c) 12\<rparr>"

definition normalized :: "context_env \<Rightarrow> config \<Rightarrow> bool \<Rightarrow> config result" where
  "normalized env config hasCompactor =
     (let c = with_defaults config in
      if cfg_window c < 0 \<or> cfg_trigger c < 1 \<or> cfg_trigger c > 100 \<or> cfg_target c < 1 \<or>
         cfg_target c \<ge> cfg_trigger c \<or> cfg_recent c < 0 \<or> cfg_message_overhead c < 0 \<or>
         cfg_part_overhead c < 0 \<or> cfg_tool_overhead c < 0 then
        Inl (Sentinel ErrInvalidConfig)
      else if hasCompactor \<and> cfg_window c \<le> 0 then
        Inl (wrap_kind ErrInvalidConfig ''a compactor requires a positive context window'')
      else (case ce_clone_tools env (cfg_tools c) of
              Inl e \<Rightarrow> Inl e | Inr tools \<Rightarrow> Inr (c\<lparr>cfg_tools := tools\<rparr>)))"

record compaction =
  cp_version :: int
  cp_start :: int
  cp_cut :: int
  cp_prefix_hash :: string
  cp_summary :: message

record context_projection =
  cj_messages :: "message list"
  cj_additions :: "message list"
  cj_compaction :: "compaction option"
  cj_changed :: bool

type_synonym transform =
  "message list \<Rightarrow> message list \<Rightarrow> (message list option \<times> message list option) result"

type_synonym compactor = "message list \<Rightarrow> message result"

record policy =
  po_config :: config
  po_transforms :: "transform list"
  po_compactor :: "compactor option"

definition policy_new ::
  "context_env \<Rightarrow> config \<Rightarrow> transform option list \<Rightarrow> compactor option \<Rightarrow> policy result" where
  "policy_new env config transforms compactor =
     (case normalized env config (compactor \<noteq> None) of
        Inl e \<Rightarrow> Inl e
      | Inr c \<Rightarrow>
          if list_ex (\<lambda>t. t = None) transforms then Inl (wrap_kind ErrInvalidConfig ''nil transform'')
          else Inr \<lparr>po_config = c, po_transforms = map the transforms, po_compactor = compactor\<rparr>)"

subsection \<open>Checks\<close>

fun tail_parts_ok :: "part list \<Rightarrow> bool" where
  "tail_parts_ok [] = True"
| "tail_parts_ok (p # ps) = (p_type p = ContentText \<and> tail_parts_ok ps)"

fun validateContextTail :: "message list \<Rightarrow> go_error option" where
  "validateContextTail [] = None"
| "validateContextTail (m # ms) =
     (if m_role m \<noteq> RoleUser then
        Some (wrap_kind ErrInvalidTransform ''context additions must use the user role'')
      else if m_content m = [] then
        Some (wrap_kind ErrInvalidTransform ''context additions must not be empty'')
      else if \<not> tail_parts_ok (m_content m) then
        Some (wrap_kind ErrInvalidTransform ''context additions must contain text only'')
      else validateContextTail ms)"

definition messagesEqual :: "context_env \<Rightarrow> message list \<Rightarrow> message list \<Rightarrow> bool" where
  "messagesEqual env left right =
     (if length left \<noteq> length right then False
      else if left = [] then True
      else (case (ce_encode_messages env left, ce_encode_messages env right) of
              (Inr a, Inr b) \<Rightarrow> a = b | _ \<Rightarrow> False))"

definition prefixHash :: "context_env \<Rightarrow> message list \<Rightarrow> string" where
  "prefixHash env messages =
     ''ctx1:'' @ ce_sha256 env (case ce_encode_prefix env messages of Inr s \<Rightarrow> s | Inl _ \<Rightarrow> '''')"

definition slice :: "int \<Rightarrow> int \<Rightarrow> message list \<Rightarrow> message list" where
  "slice a b ms = take (nat b - nat a) (drop (nat a) ms)"

definition apply_compaction ::
  "context_env \<Rightarrow> message list \<Rightarrow> compaction \<Rightarrow> message list result" where
  "apply_compaction env messages c =
     (if cp_version c \<noteq> 1 \<or> cp_start c < 0 \<or> cp_cut c \<le> cp_start c \<or>
         cp_cut c > int (length messages) \<or> m_role (cp_summary c) \<noteq> RoleUser then
        Inl (Sentinel ErrCompactionInvalid)
      else if prefixHash env (slice (cp_start c) (cp_cut c) messages) \<noteq> cp_prefix_hash c then
        Inl (Sentinel ErrCompactionInvalid)
      else Inr (take (nat (cp_start c)) messages @ [cp_summary c] @ drop (nat (cp_cut c)) messages))"

subsection \<open>Where to cut\<close>

fun open_uses :: "string list \<Rightarrow> tool_use list \<Rightarrow> string list result" where
  "open_uses opened [] = Inr opened"
| "open_uses opened (c # cs) =
     (if tu_id c = '''' \<or> mem_str (tu_id c) opened then
        Inl (wrap_kind ErrCompactionInvalid ''duplicate tool call ID'')
      else open_uses (opened @ [tu_id c]) cs)"

fun close_results :: "string list \<Rightarrow> tool_result list \<Rightarrow> string list result" where
  "close_results opened [] = Inr opened"
| "close_results opened (r # rs) =
     (if \<not> mem_str (tr_tool_use_id r) opened then
        Inl (wrap_kind ErrCompactionInvalid ''orphan tool result'')
      else close_results (removeAll (tr_tool_use_id r) opened) rs)"

definition cut_message :: "string list \<Rightarrow> message \<Rightarrow> string list result" where
  "cut_message opened m =
     (case (if GetToolUses m = [] then Inr opened
            else if opened \<noteq> [] then
              Inl (wrap_kind ErrCompactionInvalid ''overlapping tool frontiers'')
            else open_uses opened (GetToolUses m)) of
        Inl e \<Rightarrow> Inl e
      | Inr opened \<Rightarrow> close_results opened (GetToolResults m))"

fun cut_loop ::
  "nat \<Rightarrow> int \<Rightarrow> int \<Rightarrow> string list \<Rightarrow> int \<Rightarrow> message list \<Rightarrow> (string list \<times> int) result" where
  "cut_loop index start maxCut opened best [] = Inr (opened, best)"
| "cut_loop index start maxCut opened best (m # ms) =
     (case cut_message opened m of
        Inl e \<Rightarrow> Inl e
      | Inr opened \<Rightarrow>
          let boundary = int index + 1 in
          cut_loop (Suc index) start maxCut opened
            (if boundary > start \<and> boundary \<le> maxCut \<and> opened = [] then boundary else best) ms)"

text \<open>None means that there is nothing to compact.\<close>

definition compactionCut :: "message list \<Rightarrow> int \<Rightarrow> (int \<times> int) option result" where
  "compactionCut messages recent =
     (let start = (case messages of [] \<Rightarrow> 0 | m # _ \<Rightarrow> if m_role m = RoleSystem then 1 else 0);
          maxCut = int (length messages) - recent in
      if maxCut \<le> start then Inr None
      else (case cut_loop 0 start maxCut [] (-1) messages of
              Inl e \<Rightarrow> Inl e
            | Inr (opened, best) \<Rightarrow> if best < 0 then Inr None else Inr (Some (start, best))))"

subsection \<open>The projection\<close>

fun estimate_messages :: "context_env \<Rightarrow> counter \<Rightarrow> config \<Rightarrow> int \<Rightarrow> message list \<Rightarrow> int result" where
  "estimate_messages env counter c acc [] = Inr acc"
| "estimate_messages env counter c acc (m # ms) =
     (case ce_encode_message env m of
        Inl e \<Rightarrow> Inl (wrap_cause ''encode context message'' e)
      | Inr encoded \<Rightarrow>
          (case counter encoded of
             Inl e \<Rightarrow> Inl (wrap_cause ''count context message'' e)
           | Inr count \<Rightarrow>
               estimate_messages env counter c
                 (acc + count + cfg_message_overhead c +
                    int (length (m_content m)) * cfg_part_overhead c) ms))"

fun estimate_tools :: "context_env \<Rightarrow> counter \<Rightarrow> config \<Rightarrow> int \<Rightarrow> tool list \<Rightarrow> int result" where
  "estimate_tools env counter c acc [] = Inr acc"
| "estimate_tools env counter c acc (t # ts) =
     (case ce_encode_tool env t of
        Inl e \<Rightarrow> Inl (wrap_cause ''encode tool schema'' e)
      | Inr encoded \<Rightarrow>
          (case counter encoded of
             Inl e \<Rightarrow> Inl (wrap_cause ''count tool schema'' e)
           | Inr count \<Rightarrow> estimate_tools env counter c (acc + count + cfg_tool_overhead c) ts))"

definition Estimate :: "context_env \<Rightarrow> policy \<Rightarrow> message list \<Rightarrow> int result" where
  "Estimate env p messages =
     (let counter = (case cfg_counter (po_config p) of None \<Rightarrow> ByteCounter | Some f \<Rightarrow> f) in
      case estimate_messages env counter (po_config p) 0 messages of
        Inl e \<Rightarrow> Inl e
      | Inr acc \<Rightarrow> estimate_tools env counter (po_config p) acc (cfg_tools (po_config p)))"

fun run_transforms ::
  "context_env \<Rightarrow> transform list \<Rightarrow> message list \<Rightarrow> message list \<Rightarrow> (message list \<times> message list) result" where
  "run_transforms env [] durable ephemeral = Inr (durable, ephemeral)"
| "run_transforms env (t # ts) durable ephemeral =
     (case t durable ephemeral of
        Inl e \<Rightarrow> Inl e
      | Inr (Some durable', Some ephemeral') \<Rightarrow>
          if length durable' < length durable \<or>
             \<not> messagesEqual env (take (length durable) durable') durable then
            Inl (wrap_kind ErrInvalidTransform ''durable transcript was rewritten'')
          else (case validateContextTail (drop (length durable) durable') of
                  Some e \<Rightarrow> Inl e
                | None \<Rightarrow>
                    (case validateContextTail ephemeral' of
                       Some e \<Rightarrow> Inl e
                     | None \<Rightarrow> run_transforms env ts durable' ephemeral'))
      | Inr _ \<Rightarrow> Inl (wrap_kind ErrInvalidTransform ''transform cleared a context partition''))"

definition projected :: "message list \<Rightarrow> message list \<Rightarrow> compaction option \<Rightarrow> context_projection" where
  "projected view additions current =
     \<lparr>cj_messages = view, cj_additions = additions, cj_compaction = current, cj_changed = False\<rparr>"

definition compact ::
  "context_env \<Rightarrow> policy \<Rightarrow> compactor \<Rightarrow> message list \<Rightarrow> message list \<Rightarrow> message list \<Rightarrow>
     compaction option \<Rightarrow> context_projection result" where
  "compact env p compactor durable ephemeral additions current =
     (case compactionCut durable (cfg_recent (po_config p)) of
        Inl e \<Rightarrow> Inl e
      | Inr None \<Rightarrow> Inl (Sentinel ErrContextWindowExceeded)
      | Inr (Some (start, stop)) \<Rightarrow>
          (case compactor (slice start stop durable) of
             Inl e \<Rightarrow> Inl e
           | Inr summary \<Rightarrow>
               (case validateContextTail [summary] of
                  Some e \<Rightarrow> Inl (wrap_kind ErrCompactionInvalid (''compactor summary: '' @ err_text e))
                | None \<Rightarrow>
                    let next = \<lparr>cp_version = 1, cp_start = start, cp_cut = stop,
                          cp_prefix_hash = prefixHash env (slice start stop durable), cp_summary = summary\<rparr> in
                    (case apply_compaction env (durable @ ephemeral) next of
                       Inl e \<Rightarrow> Inl e
                     | Inr compacted \<Rightarrow>
                         (case Estimate env p compacted of
                            Inl e \<Rightarrow> Inl e
                          | Inr estimate \<Rightarrow>
                              let target = cfg_window (po_config p) * cfg_target (po_config p) div 100 in
                              if estimate > target then
                                Inl (wrap_kind ErrContextWindowExceeded
                                  (''estimate '' @ show_int estimate @ '' exceeds target '' @ show_int target))
                              else Inr \<lparr>cj_messages = compacted, cj_additions = additions,
                                     cj_compaction = Some next, cj_changed = (current \<noteq> Some next)\<rparr>)))))"

definition Project ::
  "context_env \<Rightarrow> go_error option \<Rightarrow> policy \<Rightarrow> message list \<Rightarrow> compaction option \<Rightarrow>
     context_projection result" where
  "Project env ctx p messages current =
     (case ctx of
        Some e \<Rightarrow> Inl e
      | None \<Rightarrow>
          (case run_transforms env (po_transforms p) messages [] of
             Inl e \<Rightarrow> Inl e
           | Inr (durable, ephemeral) \<Rightarrow>
               let additions = drop (length messages) durable in
               (case (case current of
                        None \<Rightarrow> Inr (durable @ ephemeral)
                      | Some c \<Rightarrow> apply_compaction env (durable @ ephemeral) c) of
                  Inl e \<Rightarrow> Inl e
                | Inr view \<Rightarrow>
                    (case po_compactor p of
                       None \<Rightarrow> Inr (projected view additions current)
                     | Some compactor \<Rightarrow>
                         if cfg_window (po_config p) = 0 then Inr (projected view additions current)
                         else (case Estimate env p view of
                                 Inl e \<Rightarrow> Inl e
                               | Inr estimate \<Rightarrow>
                                   if estimate < cfg_window (po_config p) * cfg_trigger (po_config p) div 100
                                   then Inr (projected view additions current)
                                   else compact env p compactor durable ephemeral additions current)))))"

subsection \<open>A cut never splits a frontier\<close>

text \<open>The calls the scan holds open are those the transcript checker does.\<close>

definition same_open :: "string list \<Rightarrow> frontier_state \<Rightarrow> bool" where
  "same_open opened st \<longleftrightarrow>
     set opened = set (call_ids (fst st)) - set (snd st) \<and>
     (fst st \<noteq> [] \<longrightarrow> \<not> set (call_ids (fst st)) \<subseteq> set (snd st)) \<and>
     (fst st = [] \<longrightarrow> snd st = []) \<and> wf_calls (fst st)"

lemma open_uses_set: "open_uses opened us = Inr opened' \<Longrightarrow> set opened' = set opened \<union> set (call_ids us)"
  by (induction us arbitrary: opened) (auto simp: call_ids_def split: if_splits)

lemma close_results_set:
  "close_results opened rs = Inr opened' \<Longrightarrow> set opened' = set opened - set (map tr_tool_use_id rs)"
  by (induction rs arbitrary: opened) (auto split: if_splits)

lemma cut_message_open:
  assumes same: "same_open opened st" and insp: "inspect_message i st m = Inr st'"
    and stop: "cut_message opened m = Inr opened'"
  shows "same_open opened' st'"
proof -
  obtain us r where st: "st = (us, r)" by fastforce
  have wf: "us \<noteq> [] \<or> r = []" "wf_calls us" using same st by (auto simp: same_open_def)
  from insp [unfolded st] wf show ?thesis
  proof (cases rule: inspect_message_cases)
    case plain
    then have "opened' = opened" using stop by (simp add: cut_message_def plain_message_def)
    then show ?thesis using plain same st wf by (auto simp: same_open_def call_ids_def wf_calls_def)
  next
    case (opens us')
    then have us': "GetToolUses m = us'" "us' \<noteq> []" "GetToolResults m = []" "wf_calls us'"
      by (auto simp: opens_frontier_def)
    then have "open_uses opened us' = Inr opened'" "opened = []"
      using stop by (auto simp: cut_message_def split: if_splits sum.splits)
    then have "set opened' = set (call_ids us')" using open_uses_set by fastforce
    then show ?thesis using opens us' by (auto simp: same_open_def call_ids_def)
  next
    case answer
    have closes: "close_results opened (GetToolResults m) = Inr opened'"
      using stop answer by (simp add: cut_message_def)
    have d: "distinct (call_ids us)" using wf(2) by (simp add: wf_calls_def)
    show ?thesis
    proof (cases "GetToolResults m = []")
      case True
      then have "st' = st" "opened' = opened"
        using insp closes inspect_answer [OF answer(1) d answer(2,3)] st by auto
      then show ?thesis using same by simp
    next
      case False
      then obtain r' where res: "resolve_results (callsByID us) r (GetToolResults m) = Inr r'"
        and st': "st' = (if set (call_ids us) \<subseteq> set r' then ([], []) else (us, r'))"
        using insp inspect_answer [OF answer(1) d answer(2,3)] st by (auto split: sum.splits if_splits)
      have "r' = r @ map tr_tool_use_id (GetToolResults m)" using res resolve_results_Inr [OF d] by blast
      then have "set opened' = set (call_ids us) - set r'"
        using close_results_set [OF closes] same st by (auto simp: same_open_def)
      then show ?thesis using st' answer(1) wf(2)
        by (auto simp: same_open_def call_ids_def wf_calls_def)
    qed
  qed
qed

text \<open>The best boundary of the scan: after it nothing is open.\<close>

lemma cut_loop_best:
  assumes "cut_loop (length pre) start maxCut opened best ms = Inr (opened', best')"
    and "inspect_loop 0 ([], []) pre = Inr st" "same_open opened st"
    and "inspect_loop (length pre) st ms = Inr st'"
    and "best \<ge> 0 \<Longrightarrow> start < best \<and> best \<le> maxCut \<and> best \<le> int (length pre) \<and>
      inspect_loop 0 ([], []) (take (nat best) pre) = Inr ([], [])"
  shows "best' \<ge> 0 \<Longrightarrow> start < best' \<and> best' \<le> maxCut \<and> best' \<le> int (length (pre @ ms)) \<and>
      inspect_loop 0 ([], []) (take (nat best') (pre @ ms)) = Inr ([], [])"
  using assms
proof (induction ms arbitrary: pre opened best st)
  case Nil
  then show ?case by simp
next
  case (Cons m ms)
  obtain opened1 where stop: "cut_message opened m = Inr opened1"
    using Cons.prems(2) by (auto split: sum.splits)
  let ?b = "int (length pre) + 1"
  let ?best = "if ?b > start \<and> ?b \<le> maxCut \<and> opened1 = [] then ?b else best"
  have rest: "cut_loop (length (pre @ [m])) start maxCut opened1 ?best ms = Inr (opened', best')"
    using Cons.prems(2) stop by (simp add: Let_def)
  obtain st1 where insp: "inspect_message (length pre) st m = Inr st1"
    and restI: "inspect_loop (length (pre @ [m])) st1 ms = Inr st'"
    using Cons.prems(5) by (auto split: sum.splits)
  have st1: "inspect_loop 0 ([], []) (pre @ [m]) = Inr st1"
    using Cons.prems(3) insp by (simp add: inspect_loop_snoc)
  have same: "same_open opened1 st1" by (rule cut_message_open [OF Cons.prems(4) insp stop])
  have "opened1 = [] \<Longrightarrow> st1 = ([], [])"
    using same by (cases st1) (auto simp: same_open_def)
  then have best: "?best \<ge> 0 \<Longrightarrow> start < ?best \<and> ?best \<le> maxCut \<and> ?best \<le> int (length (pre @ [m])) \<and>
      inspect_loop 0 ([], []) (take (nat ?best) (pre @ [m])) = Inr ([], [])"
    using Cons.prems(6) st1 by (auto simp: nat_add_distrib)
  show ?case using Cons.IH [OF Cons.prems(1) rest st1 same restI best] by simp
qed

lemma compactionCut_closed:
  assumes "compactionCut ms recent = Inr (Some (start, stop))" "inspect_loop 0 ([], []) ms = Inr st"
  shows "(start = 0 \<or> start = 1 \<and> ms \<noteq> [] \<and> m_role (hd ms) = RoleSystem) \<and> start < stop \<and>
    stop \<le> int (length ms) - recent \<and> stop \<le> int (length ms) \<and>
    inspect_loop 0 ([], []) (take (nat stop) ms) = Inr ([], [])"
proof -
  define s where "s = (case ms of [] \<Rightarrow> 0 | m # _ \<Rightarrow> if m_role m = RoleSystem then (1::int) else 0)"
  obtain opened where loop: "cut_loop 0 s (int (length ms) - recent) [] (-1) ms = Inr (opened, stop)"
    and s: "start = s" "stop \<ge> 0"
    using assms(1) unfolding compactionCut_def s_def [symmetric]
    by (auto simp: Let_def split: if_splits sum.splits)
  have "same_open [] ([], [])" by (simp add: same_open_def call_ids_def wf_calls_def)
  then have "s < stop \<and> stop \<le> int (length ms) - recent \<and> stop \<le> int (length ms) \<and>
      inspect_loop 0 ([], []) (take (nat stop) ms) = Inr ([], [])"
    using cut_loop_best [of "[]" s "int (length ms) - recent" "[]" "-1" ms opened stop "([], [])" st]
      loop s(2) assms(2) by simp
  then show ?thesis unfolding s(1) by (cases ms) (auto simp: s_def)
qed

lemma inspect_message_index: "inspect_message i st m = Inr x \<Longrightarrow> inspect_message j st m = Inr x"
proof -
  have ids: "check_call_ids i [] us = Inr () \<longleftrightarrow> check_call_ids j [] us = Inr ()" for us
    by (simp add: check_call_ids_Inr)
  have "inspect_uses i st m = Inr y \<Longrightarrow> inspect_uses j st m = Inr y" for y
    using ids by (auto simp: inspect_uses_def Let_def split: if_splits sum.splits prod.splits)
  then show "inspect_message i st m = Inr x \<Longrightarrow> inspect_message j st m = Inr x"
    by (fastforce simp: inspect_message_def Let_def split: if_splits sum.splits prod.splits)
qed

lemma inspect_loop_index: "inspect_loop i st ms = Inr x \<Longrightarrow> inspect_loop j st ms = Inr x"
proof (induction ms arbitrary: i j st)
  case (Cons m ms)
  then obtain st1 where st1: "inspect_message i st m = Inr st1" "inspect_loop (Suc i) st1 ms = Inr x"
    by (auto split: sum.splits)
  have "inspect_message j st m = Inr st1" by (rule inspect_message_index [OF st1(1)])
  then show ?case using Cons.IH [OF st1(2), of "Suc j"] by simp
qed simp

lemma system_head_plain:
  "inspect_loop 0 ([], []) (m # ms) = Inr st \<Longrightarrow> m_role m = RoleSystem \<Longrightarrow> plain_message m"
  by (auto simp: inspect_message_def inspect_uses_def plain_message_def Let_def
      split: if_splits sum.splits)

lemma validate_tail_plain: "validateContextTail [s] = None \<Longrightarrow> m_role s = RoleUser \<and> plain_message s"
proof -
  assume ok: "validateContextTail [s] = None"
  have "tail_parts_ok ps \<Longrightarrow> uses_of_parts ps = [] \<and> results_of_parts ps = []" for ps
    by (induction ps) (auto split: option.split)
  then show ?thesis using ok
    by (auto simp: plain_message_def GetToolUses_def GetToolResults_def split: if_splits)
qed

text \<open>
  C24. Compaction keeps a transcript a transcript.  Where the policy decides to cut a valid
  transcript, whatever text-only user message the compactor writes, the recipe applies, the result
  is the optional system message, the summary and the untouched rest, at least the configured number
  of recent messages; and the transcript checker accepts it with the same open tool calls.
\<close>

theorem compaction_keeps_transcript:
  assumes valid: "inspectTranscript ms = Inr us" and stop: "compactionCut ms recent = Inr (Some (start, stop))"
    and summary: "validateContextTail [summary] = None"
  shows "\<exists>out. apply_compaction env ms \<lparr>cp_version = 1, cp_start = start, cp_cut = stop,
      cp_prefix_hash = prefixHash env (slice start stop ms), cp_summary = summary\<rparr> = Inr out \<and> inspectTranscript out = Inr us \<and>
    out = take (nat start) ms @ summary # drop (nat stop) ms \<and> nat start \<le> 1 \<and>
    recent \<le> int (length (drop (nat stop) ms))"
proof -
  obtain r where loop: "inspect_loop 0 ([], []) ms = Inr (us, r)"
    using valid by (auto simp: inspectTranscript_def split: sum.splits)
  note k = compactionCut_closed [OF stop loop]
  note s = validate_tail_plain [OF summary]
  let ?pre = "take (nat start) ms"
  let ?c = "\<lparr>cp_version = 1, cp_start = start, cp_cut = stop,
      cp_prefix_hash = prefixHash env (slice start stop ms), cp_summary = summary\<rparr>"
  have applies: "apply_compaction env ms ?c = Inr (?pre @ summary # drop (nat stop) ms)"
    using k s by (auto simp: apply_compaction_def)
  have closed: "closed_transcript ?pre"
  proof (cases "start = 0")
    case False
    then have "ms \<noteq> []" "m_role (hd ms) = RoleSystem" "start = 1" using k by auto
    then obtain m rest where ms: "ms = m # rest" "m_role m = RoleSystem" by (cases ms) auto
    have "plain_message m" using system_head_plain loop ms by metis
    then have "closed_transcript ([] @ [m])" using closed_plain [OF closed_Nil] by blast
    then show ?thesis using ms \<open>start = 1\<close> by simp
  qed (simp add: closed_Nil)
  then have "closed_transcript (?pre @ [summary])" using closed_plain s by blast
  then have head: "inspect_loop 0 ([], []) (?pre @ [summary]) = Inr ([], [])" by (rule closed_inspect)
  have "inspect_loop 0 ([], []) (take (nat stop) ms @ drop (nat stop) ms) = Inr (us, r)" using loop by simp
  then have "inspect_loop (0 + length (take (nat stop) ms)) ([], []) (drop (nat stop) ms) = Inr (us, r)"
    unfolding inspect_loop_append using k by simp
  then have "inspect_loop (0 + length (?pre @ [summary])) ([], []) (drop (nat stop) ms) = Inr (us, r)"
    by (rule inspect_loop_index)
  then have "inspect_loop 0 ([], []) ((?pre @ [summary]) @ drop (nat stop) ms) = Inr (us, r)"
    by (subst inspect_loop_append) (simp only: head sum.case)
  then have "inspectTranscript (?pre @ summary # drop (nat stop) ms) = Inr us"
    by (simp add: inspectTranscript_def)
  then show ?thesis using applies k by auto
qed

lemma compaction_keeps_transcript_witness:
  "\<exists>out. apply_compaction \<lparr>ce_encode_message = \<lambda>_. Inr '''', ce_encode_messages = \<lambda>_. Inr '''',
      ce_encode_prefix = \<lambda>_. Inr '''', ce_encode_tool = \<lambda>_. Inr '''', ce_clone_tools = Inr, ce_sha256 = id\<rparr>
    [NewTextMessage RoleSystem ''s'', NewTextMessage RoleUser ''a'', NewTextMessage RoleAssistant ''b'',
     NewTextMessage RoleUser ''c'']
    \<lparr>cp_version = 1, cp_start = 1, cp_cut = 3,
      cp_prefix_hash = prefixHash \<lparr>ce_encode_message = \<lambda>_. Inr '''', ce_encode_messages = \<lambda>_. Inr '''',
          ce_encode_prefix = \<lambda>_. Inr '''', ce_encode_tool = \<lambda>_. Inr '''', ce_clone_tools = Inr, ce_sha256 = id\<rparr>
        (slice 1 3 [NewTextMessage RoleSystem ''s'', NewTextMessage RoleUser ''a'',
           NewTextMessage RoleAssistant ''b'', NewTextMessage RoleUser ''c'']),
      cp_summary = NewTextMessage RoleUser ''sum''\<rparr> = Inr out \<and> inspectTranscript out = Inr [] \<and>
    out = [NewTextMessage RoleSystem ''s''] @ NewTextMessage RoleUser ''sum'' # [NewTextMessage RoleUser ''c'']"
proof -
  let ?ms = "[NewTextMessage RoleSystem ''s'', NewTextMessage RoleUser ''a'',
    NewTextMessage RoleAssistant ''b'', NewTextMessage RoleUser ''c'']"
  have "inspectTranscript ?ms = Inr []" by code_simp
  moreover have "compactionCut ?ms 1 = Inr (Some (1, 3))" by code_simp
  moreover have "validateContextTail [NewTextMessage RoleUser ''sum''] = None" by code_simp
  ultimately show ?thesis using compaction_keeps_transcript [of ?ms "[]" 1 1 3 "NewTextMessage RoleUser ''sum''"]
    by simp
qed

subsection \<open>What a projection is\<close>

definition encoding_faithful :: "context_env \<Rightarrow> bool" where
  "encoding_faithful env \<longleftrightarrow>
     (\<forall>a b s. ce_encode_messages env a = Inr s \<and> ce_encode_messages env b = Inr s \<longrightarrow> a = b)"

lemma messagesEqual_eq: "encoding_faithful env \<Longrightarrow> messagesEqual env a b \<Longrightarrow> a = b"
  by (auto simp: messagesEqual_def encoding_faithful_def split: if_splits sum.splits)

lemma validateContextTail_append:
  "validateContextTail (a @ b) = None \<longleftrightarrow> validateContextTail a = None \<and> validateContextTail b = None"
  by (induction a) auto

lemma run_transforms_append:
  assumes "encoding_faithful env" "run_transforms env ts durable ephemeral = Inr (durable', ephemeral')"
    and "validateContextTail ephemeral = None"
  shows "\<exists>adds. durable' = durable @ adds \<and> validateContextTail adds = None \<and>
    validateContextTail ephemeral' = None"
  using assms(2,3)
proof (induction ts arbitrary: durable ephemeral)
  case (Cons t ts)
  obtain d1 e1 where t: "t durable ephemeral = Inr (Some d1, Some e1)"
    and len: "\<not> length d1 < length durable" and eq: "messagesEqual env (take (length durable) d1) durable"
    and tail: "validateContextTail (drop (length durable) d1) = None" "validateContextTail e1 = None"
    and rest: "run_transforms env ts d1 e1 = Inr (durable', ephemeral')"
    using Cons.prems(1) by (auto split: sum.splits option.splits if_splits)
  have "take (length durable) d1 = durable" by (rule messagesEqual_eq [OF assms(1) eq])
  then have d1: "d1 = durable @ drop (length durable) d1" by (metis append_take_drop_id)
  obtain adds where "durable' = d1 @ adds" "validateContextTail adds = None" "validateContextTail ephemeral' = None"
    using Cons.IH [OF rest tail(2)] by blast
  then show ?case using d1 tail(1)
    by (intro exI [of _ "drop (length durable) d1 @ adds"]) (simp add: validateContextTail_append)
qed simp

lemma compact_Inr:
  assumes "compact env p compactor durable ephemeral adds current = Inr j"
  shows "cj_additions j = adds \<and> (\<exists>c n. cj_compaction j = Some c \<and>
    apply_compaction env (durable @ ephemeral) c = Inr (cj_messages j) \<and>
    Estimate env p (cj_messages j) = Inr n \<and> n \<le> cfg_window (po_config p) * cfg_target (po_config p) div 100)"
  using assms by (auto simp: compact_def Let_def split: sum.splits option.splits if_splits)

text \<open>
  C35. A provider view comes from the transcript by additions and one summary.  Where equal encodings
  are of equal messages, a projection that succeeds leaves the durable messages as they were and adds
  user messages of text only; the view is these with the ephemeral messages behind them, either as
  they are or with the returned compaction applied; and where a compactor and a window are configured
  its estimate stays below the trigger or, after a compaction, within the target.
\<close>

theorem Project_view:
  assumes faithful: "encoding_faithful env" and run: "Project env ctx p ms current = Inr j"
  shows "\<exists>ephemeral. validateContextTail (cj_additions j) = None \<and> validateContextTail ephemeral = None \<and>
    (case cj_compaction j of
       None \<Rightarrow> cj_messages j = ms @ cj_additions j @ ephemeral
     | Some c \<Rightarrow> apply_compaction env (ms @ cj_additions j @ ephemeral) c = Inr (cj_messages j)) \<and>
    (po_compactor p = None \<or> cfg_window (po_config p) = 0 \<or>
       (\<exists>n. Estimate env p (cj_messages j) = Inr n \<and>
          (n < cfg_window (po_config p) * cfg_trigger (po_config p) div 100 \<or>
           n \<le> cfg_window (po_config p) * cfg_target (po_config p) div 100)))"
proof -
  obtain durable ephemeral view where ctx: "ctx = None"
    and transforms: "run_transforms env (po_transforms p) ms [] = Inr (durable, ephemeral)"
    and view: "(case current of None \<Rightarrow> Inr (durable @ ephemeral)
        | Some c \<Rightarrow> apply_compaction env (durable @ ephemeral) c) = Inr view"
    using run by (auto simp: Project_def Let_def split: option.splits sum.splits)
  obtain adds where durable: "durable = ms @ adds" and tails: "validateContextTail adds = None"
      "validateContextTail ephemeral = None"
    using run_transforms_append [OF faithful transforms] by auto
  have at: "(case c of None \<Rightarrow> Inr (durable @ ephemeral)
        | Some c \<Rightarrow> apply_compaction env (durable @ ephemeral) c) = Inr v \<Longrightarrow>
      (case c of None \<Rightarrow> v = ms @ adds @ ephemeral
       | Some c \<Rightarrow> apply_compaction env (ms @ adds @ ephemeral) c = Inr v)" for c v
    using durable by (auto split: option.splits)
  have j: "j = projected view adds current \<and> (po_compactor p = None \<or> cfg_window (po_config p) = 0 \<or>
       (\<exists>n. Estimate env p view = Inr n \<and>
          n < cfg_window (po_config p) * cfg_trigger (po_config p) div 100)) \<or>
    (\<exists>compactor. compact env p compactor durable ephemeral adds current = Inr j)"
    using run view durable unfolding Project_def ctx transforms
    by (auto simp: Let_def split: option.splits sum.splits if_splits)
  then show ?thesis
  proof
    assume k: "j = projected view adds current \<and> (po_compactor p = None \<or> cfg_window (po_config p) = 0 \<or>
       (\<exists>n. Estimate env p view = Inr n \<and> n < cfg_window (po_config p) * cfg_trigger (po_config p) div 100))"
    show ?thesis using k tails at [OF view]
      by (cases current; intro exI [of _ ephemeral]) (auto simp: projected_def)
  next
    assume "\<exists>compactor. compact env p compactor durable ephemeral adds current = Inr j"
    then obtain compactor where c: "compact env p compactor durable ephemeral adds current = Inr j" by blast
    show ?thesis using compact_Inr [OF c] tails durable by (intro exI [of _ ephemeral]) auto
  qed
qed

definition example_env :: context_env where
  "example_env = \<lparr>ce_encode_message = \<lambda>m. Inr (GetTextContent m),
     ce_encode_messages = \<lambda>ms. (case ms of
        [m] \<Rightarrow> if m = NewTextMessage RoleUser (GetTextContent m) then Inr (GetTextContent m)
              else Inl (wrap_kind ErrInvalidTransform ''encoding'')
      | _ \<Rightarrow> Inl (wrap_kind ErrInvalidTransform ''encoding'')),
     ce_encode_prefix = \<lambda>_. Inr '''', ce_encode_tool = \<lambda>_. Inr '''', ce_clone_tools = Inr, ce_sha256 = id\<rparr>"

definition example_policy :: policy where
  "example_policy = \<lparr>po_config = with_defaults \<lparr>cfg_window = 100, cfg_trigger = 0, cfg_target = 0,
       cfg_recent = 1, cfg_message_overhead = 0, cfg_part_overhead = 0, cfg_tool_overhead = 0,
       cfg_counter = None, cfg_tools = []\<rparr>,
     po_transforms = [\<lambda>d e. Inr (Some (d @ [NewTextMessage RoleUser ''n'']), Some [NewTextMessage RoleUser ''e''])],
     po_compactor = Some (\<lambda>_. Inr (NewTextMessage RoleUser ''s''))\<rparr>"

lemma example_env_faithful: "encoding_faithful example_env"
  by (auto simp: encoding_faithful_def example_env_def split: list.splits if_splits)

lemma Project_view_witness:
  "\<exists>ephemeral j. Project example_env None example_policy [NewTextMessage RoleUser ''a''] None = Inr j \<and>
    cj_additions j = [NewTextMessage RoleUser ''n''] \<and>
    validateContextTail (cj_additions j) = None \<and> validateContextTail ephemeral = None \<and>
    cj_messages j = [NewTextMessage RoleUser ''a''] @ cj_additions j @ ephemeral"
proof -
  let ?ms = "[NewTextMessage RoleUser ''a'']"
  let ?j = "projected [NewTextMessage RoleUser ''a'', NewTextMessage RoleUser ''n'', NewTextMessage RoleUser ''e'']
    [NewTextMessage RoleUser ''n''] None"
  have run: "Project example_env None example_policy ?ms None = Inr ?j" by code_simp
  show ?thesis using Project_view [OF example_env_faithful run] run by (auto simp: projected_def)
qed

end
