(* ===== verification/Compactor.thy ===== *)
theory Compactor
  imports Context_Policy Go_Text History
begin

text \<open>
  The compactors of the context policy (harness/contextpolicy/compactor.go): the deterministic
  extraction, the summary by a model, and the truncation to whole UTF-8 sequences both use.
  Parameters: the \<^verbatim>\<open>%q\<close> verb, the JSON encoding of messages, and the model's request.
\<close>

subsection \<open>UTF-8 (package unicode/utf8)\<close>

definition byte :: "char \<Rightarrow> nat" where
  "byte c = of_char c"

definition is_cont :: "char \<Rightarrow> bool" where
  "is_cont c = (0x80 \<le> byte c \<and> byte c \<le> 0xBF)"

text \<open>The range of the second byte behind a given first byte.\<close>

definition second_ok :: "nat \<Rightarrow> char \<Rightarrow> bool" where
  "second_ok a c =
     (if a = 0xE0 then 0xA0 \<le> byte c \<and> byte c \<le> 0xBF
      else if a = 0xED then 0x80 \<le> byte c \<and> byte c \<le> 0x9F
      else if a = 0xF0 then 0x90 \<le> byte c \<and> byte c \<le> 0xBF
      else if a = 0xF4 then 0x80 \<le> byte c \<and> byte c \<le> 0x8F
      else is_cont c)"

definition rune_size :: "char \<Rightarrow> nat" where
  "rune_size c =
     (let a = byte c in
      if a < 0x80 then 1
      else if 0xC2 \<le> a \<and> a \<le> 0xDF then 2
      else if 0xE0 \<le> a \<and> a \<le> 0xEF then 3
      else if 0xF0 \<le> a \<and> a \<le> 0xF4 then 4
      else 0)"

function utf8_Valid :: "string \<Rightarrow> bool" where
  "utf8_Valid [] = True"
| "utf8_Valid (c # s) =
     (if rune_size c = 1 then utf8_Valid s
      else if rune_size c = 0 \<or> length s < rune_size c - 1 then False
      else if \<not> second_ok (byte c) (hd s) \<or> \<not> list_all is_cont (take (rune_size c - 2) (tl s)) then False
      else utf8_Valid (drop (rune_size c - 1) s))"
  by pat_completeness auto
termination by (relation "measure length") auto

fun valid_end :: "string \<Rightarrow> nat \<Rightarrow> nat" where
  "valid_end data 0 = 0"
| "valid_end data (Suc n) =
     (if utf8_Valid (take (Suc n) data) then Suc n else valid_end data n)"

definition truncateUTF8 :: "string \<Rightarrow> int \<Rightarrow> string" where
  "truncateUTF8 value limit =
     (if limit \<le> 0 then ''''
      else if int (length value) \<le> limit then value
      else take (valid_end value (nat limit)) value)"

subsection \<open>The structured compactor\<close>

record structured_config =
  sc_max_summary :: int
  sc_max_entry :: int

definition NewStructuredCompactor :: "structured_config \<Rightarrow> structured_config result" where
  "NewStructuredCompactor config =
     (let c = \<lparr>sc_max_summary = or_default (sc_max_summary config) (8 * 1024),
               sc_max_entry = or_default (sc_max_entry config) 512\<rparr> in
      if sc_max_summary c < 256 \<or> sc_max_entry c < 32 \<or> sc_max_entry c > sc_max_summary c then
        Inl (Plain ''invalid structured compactor limits'')
      else Inr c)"

definition replace_newlines :: "string \<Rightarrow> string" where
  "replace_newlines s = concat (map (\<lambda>c. if c = CHR 0x0A then [CHR 0x5C, CHR ''n''] else [c]) s)"

definition quotedBounded :: "(string \<Rightarrow> string) \<Rightarrow> string \<Rightarrow> int \<Rightarrow> string" where
  "quotedBounded q value limit = q (truncateUTF8 (replace_newlines value) limit)"

definition structuredLine :: "(string \<Rightarrow> string) \<Rightarrow> nat \<Rightarrow> message \<Rightarrow> int \<Rightarrow> string" where
  "structuredLine q index m limit =
     (let txt = TrimSpace (GetTextContent m);
          uses = GetToolUses m;
          results = GetToolResults m;
          details =
            (if txt \<noteq> '''' then [''text='' @ quotedBounded q txt (limit div 2)] else []) @
            (if uses \<noteq> [] then
               [''calls='' @ strings_Join '','' (map (\<lambda>c. tu_name c @ ''#'' @ tu_id c) uses)] else []) @
            (if results \<noteq> [] then
               [''results='' @ strings_Join '','' (map (\<lambda>r. tr_name r @ ''#'' @ tr_tool_use_id r @ '':'' @
                  (if tr_is_error r then ''error'' else ''ok'')) results)] else []);
          line = show_nat index @ '' role='' @ role_text (m_role m) in
      truncateUTF8 (if details \<noteq> [] then line @ '' '' @ strings_Join '' '' details else line) limit)"

definition frame_prefix :: "string \<Rightarrow> string" where
  "frame_prefix kind = ''<harness_compaction version='' @ [CHR 0x22] @ ''1'' @ [CHR 0x22] @ '' kind='' @
     [CHR 0x22] @ kind @ [CHR 0x22] @ ''>'' @ [CHR 0x0A]"

definition frame_suffix :: string where
  "frame_suffix = [CHR 0x0A] @ ''</harness_compaction>''"

definition separated :: "string \<Rightarrow> string \<Rightarrow> string" where
  "separated prefix b = (if length b > length prefix then b @ [CHR 0x0A] else b)"

fun structured_loop ::
  "(string \<Rightarrow> string) \<Rightarrow> structured_config \<Rightarrow> nat \<Rightarrow> string \<Rightarrow> message list \<Rightarrow> string" where
  "structured_loop q c index b [] = b"
| "structured_loop q c index b (m # ms) =
     (let line = structuredLine q index m (sc_max_entry c);
          prefix = frame_prefix ''structured'' in
      if int (length b + length line + length frame_suffix) > sc_max_summary c then
        (let marker = ''... '' @ show_nat (Suc (length ms)) @ '' older messages omitted'' in
         if int (length b + length marker + 1 + length frame_suffix) \<le> sc_max_summary c
         then separated prefix b @ marker else b)
      else structured_loop q c (Suc index) (separated prefix b @ line) ms)"

definition structured_Summarize ::
  "(string \<Rightarrow> string) \<Rightarrow> go_error option \<Rightarrow> structured_config \<Rightarrow> message list \<Rightarrow> message result" where
  "structured_Summarize q ctx c messages =
     (case ctx of
        Some e \<Rightarrow> Inl e
      | None \<Rightarrow> Inr (NewTextMessage RoleUser
          (structured_loop q c 0 (frame_prefix ''structured'') messages @ frame_suffix)))"

subsection \<open>The summary by a model\<close>

record model_summarizer =
  ms_model_name :: string
  ms_request :: "chat_request \<Rightarrow> chat_response option result"
  ms_instruction :: string

definition NewModelSummarizer ::
  "(string \<times> (chat_request \<Rightarrow> chat_response option result)) option \<Rightarrow> string \<Rightarrow> model_summarizer result" where
  "NewModelSummarizer model instruction =
     (case model of
        None \<Rightarrow> Inl (Plain ''summary model is required'')
      | Some (name, request) \<Rightarrow>
          Inr \<lparr>ms_model_name = name, ms_request = request,
            ms_instruction = (if TrimSpace instruction = ''''
              then ''Summarize the conversation while preserving facts, decisions, unresolved work, and tool outcomes.''
              else instruction)\<rparr>)"

definition model_Summarize ::
  "(message list \<Rightarrow> string result) \<Rightarrow> model_summarizer \<Rightarrow> message list \<Rightarrow> string result" where
  "model_Summarize encode s messages =
     (case encode messages of
        Inl e \<Rightarrow> Inl (wrap_cause ''encode summary input'' e)
      | Inr encoded \<Rightarrow>
          (case ms_request s (plain_request (ms_model_name s)
                  [NewTextMessage RoleUser (ms_instruction s @ [CHR 0x0A, CHR 0x0A] @
                     ''Canonical conversation JSON:'' @ [CHR 0x0A] @ encoded)]) of
             Inl e \<Rightarrow> Inl e
           | Inr None \<Rightarrow> Inl (Plain ''summary model returned no response'')
           | Inr (Some response) \<Rightarrow> Inr (GetTextContent (rs_message response))))"

type_synonym summarizer = "message list \<Rightarrow> string result"

definition NewLLMSummaryCompactor :: "summarizer option \<Rightarrow> int \<Rightarrow> (summarizer \<times> int) result" where
  "NewLLMSummaryCompactor summarizer maxBytes =
     (case summarizer of
        None \<Rightarrow> Inl (Plain ''context summarizer is required'')
      | Some s \<Rightarrow>
          let n = or_default maxBytes (8 * 1024) in
          if n < 256 then Inl (Plain ''LLM summary limit is too small'') else Inr (s, n))"

definition llm_Summarize :: "summarizer \<times> int \<Rightarrow> message list \<Rightarrow> message result" where
  "llm_Summarize c messages =
     (case (fst c) messages of
        Inl e \<Rightarrow> Inl (wrap_cause ''summarize context'' e)
      | Inr raw \<Rightarrow>
          let summary = TrimSpace raw;
              available = snd c - int (length (frame_prefix ''llm'')) - int (length frame_suffix) in
          if summary = '''' then Inl (Plain ''summarize context: empty summary'')
          else if available < 1 then Inl (Plain ''LLM summary framing exceeds limit'')
          else Inr (NewTextMessage RoleUser
                 (frame_prefix ''llm'' @ truncateUTF8 summary available @ frame_suffix)))"

subsection \<open>Bounds\<close>

lemma valid_end_spec:
  "valid_end data n \<le> n \<and> utf8_Valid (take (valid_end data n) data) \<and>
    (\<forall>k. valid_end data n < k \<and> k \<le> n \<longrightarrow> \<not> utf8_Valid (take k data))"
  by (induction n) (auto simp: le_Suc_eq)

lemma truncateUTF8_length: "int (length (truncateUTF8 s limit)) \<le> max 0 limit"
  using valid_end_spec [of s "nat limit"] by (auto simp: truncateUTF8_def min_def)

text \<open>
  Truncation keeps whole characters.  The result is a prefix of the value of at most the limit;
  it is the value itself where that fits, and otherwise it is valid UTF-8 and no longer prefix
  within the limit is.
\<close>

theorem truncateUTF8_longest:
  "\<exists>k. truncateUTF8 value limit = take k value \<and>
    int (length (truncateUTF8 value limit)) \<le> max 0 limit \<and>
    (if 0 < limit \<and> int (length value) \<le> limit then truncateUTF8 value limit = value
     else utf8_Valid (take k value) \<and>
       (\<forall>j. k < j \<and> int j \<le> limit \<longrightarrow> \<not> utf8_Valid (take j value)))"
proof (cases "0 < limit \<and> \<not> int (length value) \<le> limit")
  case True
  have le: "int (length (truncateUTF8 value limit)) \<le> max 0 limit" by (rule truncateUTF8_length)
  show ?thesis using True le valid_end_spec [of "value" "nat limit"]
    by (intro exI [of _ "valid_end value (nat limit)"]) (auto simp: truncateUTF8_def)
next
  case False
  show ?thesis
  proof (cases "0 < limit")
    case True
    then show ?thesis using False by (intro exI [of _ "length value"]) (auto simp: truncateUTF8_def)
  next
    case nonpos: False
    then show ?thesis by (intro exI [of _ 0]) (auto simp: truncateUTF8_def)
  qed
qed

lemma separated_length: "length (separated p b) \<le> Suc (length b)"
  by (simp add: separated_def)

lemma structured_loop_bound:
  assumes "int (length b + length frame_suffix) \<le> sc_max_summary c + 1"
  shows "int (length (structured_loop q c index b ms) + length frame_suffix) \<le> sc_max_summary c + 1"
  using assms
proof (induction ms arbitrary: index b)
  case (Cons m ms)
  let ?line = "structuredLine q index m (sc_max_entry c)"
  let ?p = "frame_prefix ''structured''"
  have s: "length (separated ?p b) \<le> Suc (length b)" by (rule separated_length)
  show ?case
  proof (cases "int (length b + length ?line + length frame_suffix) > sc_max_summary c")
    case True
    then show ?thesis using Cons.prems s by (simp add: Let_def)
  next
    case False
    then have "int (length (separated ?p b @ ?line) + length frame_suffix) \<le> sc_max_summary c + 1"
      using s by simp
    then show ?thesis using Cons.IH False by (simp add: Let_def)
  qed
qed simp

lemma structured_loop_prefix:
  "\<exists>rest. structured_loop q c index (frame_prefix ''structured'' @ b) ms =
    frame_prefix ''structured'' @ rest"
proof (induction ms arbitrary: index b)
  case (Cons m ms)
  have s: "\<exists>t. separated (frame_prefix ''structured'') (frame_prefix ''structured'' @ b) =
      frame_prefix ''structured'' @ t"
    by (auto simp: separated_def)
  then obtain t where t: "separated (frame_prefix ''structured'') (frame_prefix ''structured'' @ b) =
      frame_prefix ''structured'' @ t" by blast
  show ?case using Cons.IH [of "Suc index" "t @ structuredLine q index m (sc_max_entry c)"]
    by (simp add: Let_def t)
qed simp

lemma user_text_tail: "validateContextTail [NewTextMessage RoleUser s] = None"
  by (simp add: NewTextMessage_def zero_part_def)

lemma structured_frame_length: "length (frame_prefix ''structured'') + length frame_suffix = 73"
  by code_simp

text \<open>
  C40. Both compactors bound their summary.  A structured compactor that was constructed writes a
  framed user message of text of at most its limit and one byte; a summary of the model has at most
  the limit of its compactor, truncated to whole characters.  Either message passes the check the
  policy makes of a summary.
\<close>

theorem summaries_bounded:
  assumes new: "NewStructuredCompactor config = Inr c" and llm: "NewLLMSummaryCompactor (Some s) n = Inr l"
  shows "(structured_Summarize q None c ms = Inr m \<longrightarrow>
      validateContextTail [m] = None \<and> int (length (GetTextContent m)) \<le> sc_max_summary c + 1 \<and>
      (\<exists>rest. GetTextContent m = frame_prefix ''structured'' @ rest @ frame_suffix)) \<and>
    (llm_Summarize l ms = Inr m \<longrightarrow>
      validateContextTail [m] = None \<and> int (length (GetTextContent m)) \<le> snd l \<and>
      (\<exists>rest. GetTextContent m = frame_prefix ''llm'' @ rest @ frame_suffix))"
proof (intro conjI impI)
  have max: "256 \<le> sc_max_summary c"
    using new by (auto simp: NewStructuredCompactor_def Let_def split: if_splits)
  let ?t = "structured_loop q c 0 (frame_prefix ''structured'') ms @ frame_suffix"
  have "int (length (frame_prefix ''structured'') + length frame_suffix) \<le> sc_max_summary c + 1"
    unfolding structured_frame_length using max by simp
  then have "int (length (structured_loop q c 0 (frame_prefix ''structured'') ms) + length frame_suffix)
      \<le> sc_max_summary c + 1"
    by (rule structured_loop_bound)
  moreover obtain rest where "structured_loop q c 0 (frame_prefix ''structured'') ms =
      frame_prefix ''structured'' @ rest"
    using structured_loop_prefix [of q c 0 "''''" ms] by auto
  moreover assume "structured_Summarize q None c ms = Inr m"
  then have "m = NewTextMessage RoleUser ?t" by (simp add: structured_Summarize_def)
  ultimately show "validateContextTail [m] = None" "int (length (GetTextContent m)) \<le> sc_max_summary c + 1"
    "\<exists>rest. GetTextContent m = frame_prefix ''structured'' @ rest @ frame_suffix"
    using user_text_tail by auto
next
  assume run: "llm_Summarize l ms = Inr m"
  then obtain summary where m: "m = NewTextMessage RoleUser (frame_prefix ''llm'' @
      truncateUTF8 summary (snd l - int (length (frame_prefix ''llm'')) - int (length frame_suffix)) @ frame_suffix)"
    and room: "\<not> snd l - int (length (frame_prefix ''llm'')) - int (length frame_suffix) < 1"
    by (auto simp: llm_Summarize_def Let_def split: sum.splits if_splits)
  show "validateContextTail [m] = None" unfolding m by (rule user_text_tail)
  show "int (length (GetTextContent m)) \<le> snd l"
    using room truncateUTF8_length
        [of summary "snd l - int (length (frame_prefix ''llm'')) - int (length frame_suffix)"]
    by (simp add: m)
  show "\<exists>rest. GetTextContent m = frame_prefix ''llm'' @ rest @ frame_suffix" by (auto simp: m)
qed

definition long_call :: message where
  "long_call = NewToolUseMessage [\<lparr>tu_id = ''1'', tu_name = replicate 100 CHR ''a'', tu_input = JNull\<rparr>]"

lemma summaries_bounded_witness:
  "int (length (GetTextContent (NewTextMessage RoleUser (frame_prefix ''structured'' @
      ''0 role=user text=a'' @ frame_suffix)))) \<le> 256 + 1"
proof -
  let ?c = "\<lparr>sc_max_summary = 256, sc_max_entry = 32\<rparr>"
  have new: "NewStructuredCompactor ?c = Inr ?c" by code_simp
  have llm: "NewLLMSummaryCompactor (Some (\<lambda>_. Inr ''s'')) 0 = Inr (\<lambda>_. Inr ''s'', 8192)"
    by (simp add: NewLLMSummaryCompactor_def or_default_def)
  have "structured_Summarize id None ?c [NewTextMessage RoleUser ''a''] =
      Inr (NewTextMessage RoleUser (frame_prefix ''structured'' @ ''0 role=user text=a'' @ frame_suffix))"
    by code_simp
  then have "int (length (GetTextContent (NewTextMessage RoleUser (frame_prefix ''structured'' @
      ''0 role=user text=a'' @ frame_suffix)))) \<le> sc_max_summary ?c + 1"
    using summaries_bounded [OF new llm] by blast
  then show ?thesis by (simp only: structured_config.select_convs)
qed

text \<open>
  The newline between two lines is not counted against the limit, so that the bound of a structured
  summary can be passed by one byte.
\<close>

lemma structured_summary_overruns:
  "(case structured_Summarize id None \<lparr>sc_max_summary = 257, sc_max_entry = 92\<rparr> [long_call, long_call] of
      Inl _ \<Rightarrow> False | Inr m \<Rightarrow> length (GetTextContent m) = 258) \<and>
    NewStructuredCompactor \<lparr>sc_max_summary = 257, sc_max_entry = 92\<rparr> =
      Inr \<lparr>sc_max_summary = 257, sc_max_entry = 92\<rparr>"
  by code_simp

end
