(* ===== verification/Execution_Entry.thy ===== *)
theory Execution_Entry
  imports Run_Loop
begin

text \<open>
  How a run starts and how a suspended one resumes: preflight and the system prompt (agent.go), the
  preparation of the loop state (run_state.go), and \<^verbatim>\<open>validateDriveInput\<close>, \<^verbatim>\<open>driveWithEvaluator\<close>,
  \<^verbatim>\<open>resumeWithEvaluator\<close>, \<^verbatim>\<open>resolveSuspendedTools\<close> (execution_loop.go).
\<close>

subsection \<open>Preflight and the system prompt\<close>

record dependency_plan =
  dp_required :: bool
  dp_type :: string
  dp_validator :: "go_error option option"    \<comment> \<open>the reply of the validator, if there is one\<close>

record dependency_envelope =
  de_type :: "string option"
  de_is_nil :: bool

definition type_text :: "string option \<Rightarrow> string" where
  "type_text t = (case t of None \<Rightarrow> ''<nil>'' | Some s \<Rightarrow> s)"

definition preflight :: "dependency_plan \<Rightarrow> dependency_envelope \<Rightarrow> go_error option" where
  "preflight plan deps =
     (if \<not> dp_required plan then
        (if de_type deps \<noteq> None
         then Some (Plain ''dependency type mismatch: agent does not accept dependencies'') else None)
      else if de_type deps \<noteq> Some (dp_type plan) then
        Some (Plain (''dependency type mismatch: expected '' @ dp_type plan @ '', got '' @
          type_text (de_type deps)))
      else if de_is_nil deps then Some (Sentinel ErrNilDeps)
      else (case dp_validator plan of
              Some (Some e) \<Rightarrow> Some (wrap_cause ''validate dependencies'' e)
            | _ \<Rightarrow> None))"

definition blank_line :: string where
  "blank_line = newline @ newline"

fun join_blank :: "string list \<Rightarrow> string" where
  "join_blank [] = ''''"
| "join_blank [s] = s"
| "join_blank (s # t # ss) = s @ blank_line @ join_blank (t # ss)"

definition resolveSystemPrompt :: "agent_core \<Rightarrow> string result" where
  "resolveSystemPrompt c =
     (if ac_system_prompts c \<noteq> [] then Inr (join_blank (filter (\<lambda>s. s \<noteq> '''') (ac_system_prompts c)))
      else (case ac_dynamic_prompt c of Some reply \<Rightarrow> reply | None \<Rightarrow> Inr (ac_system_prompt c)))"

subsection \<open>Input of a drive\<close>

datatype drive_mode = DriveStart | DriveContinue | DriveRecover | DriveModeOther nat

record drive_input =
  di_mode :: drive_mode
  di_history :: "message list"
  di_prompt :: "message option"

definition recover_candidate :: "drive_mode \<Rightarrow> message \<Rightarrow> bool" where
  "recover_candidate mode last_message \<longleftrightarrow>
     mode = DriveRecover \<and> m_role last_message = RoleAssistant \<and> GetToolUses last_message = []"

definition validateDriveInput :: "drive_mode \<Rightarrow> message option \<Rightarrow> message list \<Rightarrow> go_error option" where
  "validateDriveInput mode prompt history =
     (case inspectTranscript history of
        Inl e \<Rightarrow> Some e
      | Inr frontier \<Rightarrow>
          (case mode of
             DriveStart \<Rightarrow>
               if prompt = None \<or> m_role (the prompt) \<noteq> RoleUser then
                 Some (wrap_kind ErrDriveInput ''DriveStart requires one RoleUser prompt'')
               else if frontier \<noteq> [] then
                 Some (wrap_kind ErrTranscriptInvalid ''DriveStart history has an open tool frontier'')
               else None
           | DriveModeOther n \<Rightarrow> Some (wrap_kind ErrDriveInput (''unknown drive mode '' @ show_nat n))
           | _ \<Rightarrow>
               if prompt \<noteq> None then
                 Some (wrap_kind ErrDriveInput ''DriveContinue forbids a prompt'')
               else if history = [] then
                 Some (wrap_kind ErrDriveInput ''DriveContinue requires non-empty history'')
               else if frontier \<noteq> [] then
                 Some (wrap_kind ErrTranscriptInvalid ''DriveContinue history has an open tool frontier'')
               else if m_role (last history) \<noteq> RoleUser \<and> m_role (last history) \<noteq> RoleTool \<and>
                       \<not> recover_candidate mode (last history) then
                 Some (wrap_kind ErrDriveInput
                   ''DriveContinue history must end in a user or tool-result message'')
               else None))"

text \<open>
  A drive is accepted exactly when its transcript is closed and its shape fits the mode: a start
  has a user prompt; a continuation has no prompt and a non-empty history that ends in a user or tool
  message, or, when recovering, in an assistant message without calls.
\<close>

theorem validateDriveInput_decides:
  "validateDriveInput mode prompt history = None \<longleftrightarrow>
     closed_transcript history \<and>
     (mode = DriveStart \<and> (\<exists>p. prompt = Some p \<and> m_role p = RoleUser) \<or>
      mode \<in> {DriveContinue, DriveRecover} \<and> prompt = None \<and> history \<noteq> [] \<and>
      (m_role (last history) \<in> {RoleUser, RoleTool} \<or>
       mode = DriveRecover \<and> m_role (last history) = RoleAssistant \<and> GetToolUses (last history) = []))"
proof (cases "inspectTranscript history")
  case (Inl e)
  then have "\<not> closed_transcript history" by (simp flip: inspectTranscript_closed)
  then show ?thesis using Inl by (simp add: validateDriveInput_def)
next
  case (Inr frontier)
  then have "closed_transcript history \<longleftrightarrow> frontier = []" by (simp flip: inspectTranscript_closed)
  then show ?thesis
    using Inr by (cases mode) (auto simp: validateDriveInput_def recover_candidate_def)
qed

subsection \<open>Preparing the loop\<close>

definition with_suffix :: "agent_core \<Rightarrow> string \<Rightarrow> string" where
  "with_suffix c prompt =
     (if ac_system_prompt_suffix c = '''' then prompt
      else if prompt \<noteq> '''' then prompt @ blank_line @ ac_system_prompt_suffix c
      else ac_system_prompt_suffix c)"

definition with_system_prompt :: "string \<Rightarrow> message list \<Rightarrow> message list" where
  "with_system_prompt systemPrompt history =
     (if (\<exists>m \<in> set history. m_role m = RoleSystem) \<or> systemPrompt = '''' then history
      else NewTextMessage RoleSystem systemPrompt # history)"

definition prepareLoopWithHistory ::
  "(fingerprint_payload \<Rightarrow> string) \<Rightarrow> agent_core \<Rightarrow> message list \<Rightarrow> message option \<Rightarrow> run_options \<Rightarrow>
     loop_state result" where
  "prepareLoopWithHistory hash c history prompt options =
     (case resolveSystemPrompt c of
        Inl e \<Rightarrow> Inl (wrap_cause ''system prompt'' e)
      | Inr systemPrompt \<Rightarrow>
          let messages = with_system_prompt (with_suffix c systemPrompt) history @
                (case prompt of None \<Rightarrow> [] | Some p \<Rightarrow> [p]) in
          (case buildExecutionToolRegistry (ac_registry c) (op_toolsets options) of
             Inl e \<Rightarrow> Inl e
           | Inr registry \<Rightarrow>
               let (calls, results) = transcriptToolState messages;
                   state = \<lparr>ls_messages = messages, ls_history_len = length history,
                     ls_max_iterations = (case op_max_iterations options of
                        Some n \<Rightarrow> n | None \<Rightarrow> ac_max_iterations c),
                     ls_usage_limits = firstNonNil (op_usage_limits options) (ac_usage_limits c),
                     ls_end_strategy = (case op_end_strategy options of
                        Some s \<Rightarrow> s | None \<Rightarrow> ac_end_strategy c),
                     ls_history_processor = firstNonNil (op_history_processor options)
                        (ac_history_processor c),
                     ls_options = options, ls_registry = registry, ls_all_tool_calls = calls,
                     ls_all_tool_results = results, ls_total_usage = zero_usage,
                     ls_retry_counts = Map.empty, ls_total_retries = 0, ls_validation_retries = 0,
                     ls_iteration = 0, ls_last_finish_reason = FinishReasonOther '''',
                     ls_config_fingerprint = '''', ls_log = []\<rparr> in
               Inr (state\<lparr>ls_config_fingerprint := executionFingerprint hash c state\<rparr>)))"

definition prepareLoopForDrive ::
  "(fingerprint_payload \<Rightarrow> string) \<Rightarrow> agent_core \<Rightarrow> drive_input \<Rightarrow> run_options \<Rightarrow> loop_state result" where
  "prepareLoopForDrive hash c input options =
     (let history = di_history input @ op_messages options in
      case validateDriveInput (di_mode input) (di_prompt input) history of
        Some e \<Rightarrow> Inl e
      | None \<Rightarrow> prepareLoopWithHistory hash c history
                  (if di_mode input = DriveStart then di_prompt input else None) options)"

definition prepareLoopForResume ::
  "(fingerprint_payload \<Rightarrow> string) \<Rightarrow> agent_core \<Rightarrow> message list \<Rightarrow> run_options \<Rightarrow> loop_state result" where
  "prepareLoopForResume hash c history options =
     (if op_messages options \<noteq> [] then
        Inl (wrap_kind ErrDriveInput ''WithMessages is not valid with Resume'')
      else if history = [] then
        Inl (wrap_kind ErrDriveInput ''Resume requires non-empty history'')
      else (case inspectTranscript history of
              Inl e \<Rightarrow> Inl e
            | Inr _ \<Rightarrow> prepareLoopWithHistory hash c history None options))"

definition driveWithEvaluator ::
  "(fingerprint_payload \<Rightarrow> string) \<Rightarrow> dependency_plan \<Rightarrow> dependency_envelope \<Rightarrow> 'o env \<Rightarrow> agent_core \<Rightarrow>
     drive_input \<Rightarrow> run_options \<Rightarrow> (go_error + loop_state \<times> 'o ending) option" where
  "driveWithEvaluator hash plan deps env c input options =
     (case preflight plan deps of
        Some e \<Rightarrow> Some (Inl e)
      | None \<Rightarrow>
          (case prepareLoopForDrive hash c input options of
             Inl e \<Rightarrow> Some (Inl e)
           | Inr ls \<Rightarrow>
               map_option Inr
                 (if di_mode input = DriveRecover \<and> m_role (last (ls_messages ls)) = RoleAssistant
                  then driveLoop env c (Some \<lparr>rt_assistant = last (ls_messages ls), rt_regular = None\<rparr>)
                         None ls
                  else driveLoop env c None None ls)))"

text \<open>A prepared loop starts on a closed transcript whenever the prompt is plain.\<close>

lemma closed_Cons_plain: "closed_transcript ms \<Longrightarrow> plain_message m \<Longrightarrow> closed_transcript (m # ms)"
  using closed_append [of ms "[m]"] closed_plain [OF closed_Nil] by simp

lemma prepareLoopForDrive_closed:
  assumes "prepareLoopForDrive hash c input options = Inr ls"
    "\<And>p. di_prompt input = Some p \<Longrightarrow> plain_message p"
  shows "closed_transcript (ls_messages ls) \<and> ls_messages ls \<noteq> [] \<and> ls_log ls = [] \<and>
    ls_iteration ls = 0 \<and> ls_total_usage ls = zero_usage \<and> xr_wf (ls_registry ls)"
proof -
  let ?history = "di_history input @ op_messages options"
  let ?prompt = "if di_mode input = DriveStart then di_prompt input else None"
  have v: "validateDriveInput (di_mode input) (di_prompt input) ?history = None"
    and p: "prepareLoopWithHistory hash c ?history ?prompt options = Inr ls"
    using assms(1) by (auto simp: prepareLoopForDrive_def Let_def split: option.splits)
  obtain sp where ls: "ls_messages ls = with_system_prompt sp ?history @
      (case ?prompt of None \<Rightarrow> [] | Some q \<Rightarrow> [q])"
    "ls_log ls = []" "ls_iteration ls = 0" "ls_total_usage ls = zero_usage"
    and reg: "buildExecutionToolRegistry (ac_registry c) (op_toolsets options) = Inr (ls_registry ls)"
    using p by (auto simp: prepareLoopWithHistory_def Let_def split: sum.splits prod.splits)
  have closed: "closed_transcript ?history"
    and shape: "?prompt \<noteq> None \<or> ?history \<noteq> []"
    using v unfolding validateDriveInput_def inspectTranscript_closed [symmetric]
    by (auto split: sum.splits drive_mode.splits if_splits)
  have sys: "closed_transcript (with_system_prompt sp ?history)"
    using closed_Cons_plain [OF closed] closed by (simp add: with_system_prompt_def plain_message_def)
  have "closed_transcript (ls_messages ls)"
    using sys ls(1) assms(2) closed_plain [OF sys] by (auto split: option.splits)
  moreover have "ls_messages ls \<noteq> []"
    using ls(1) shape by (cases "?prompt = None") (auto simp: with_system_prompt_def)
  ultimately show ?thesis using ls(2-) buildExecutionToolRegistry_wf [OF reg] by simp
qed

text \<open>
  Preparing a drive validates before anything runs: a prepared loop starts with no effect
  performed, nothing counted, a well-formed registry and, for a plain prompt, a closed non-empty
  transcript.
\<close>

theorem prepareLoopForDrive_ready:
  assumes "prepareLoopForDrive hash c input options = Inr ls"
    "di_prompt input = None \<or> plain_message (the (di_prompt input))"
  shows "inspectTranscript (ls_messages ls) = Inr [] \<and> ls_messages ls \<noteq> [] \<and> ls_log ls = [] \<and>
    ls_iteration ls = 0 \<and> ls_total_usage ls = zero_usage \<and>
    distinct (map tool_name (xr_tools (ls_registry ls)))"
proof -
  have "\<And>p. di_prompt input = Some p \<Longrightarrow> plain_message p" using assms(2) by auto
  from prepareLoopForDrive_closed [OF assms(1) this] show ?thesis
    by (simp add: inspectTranscript_closed xr_wf_def)
qed

lemma prepareLoopForDrive_ready_witness:
  "\<exists>ls. prepareLoopForDrive (\<lambda>_. ''h'') example_core
       \<lparr>di_mode = DriveStart, di_history = [], di_prompt = Some (NewTextMessage RoleUser ''hi'')\<rparr>
       example_options = Inr ls \<and> inspectTranscript (ls_messages ls) = Inr []"
proof -
  let ?input = "\<lparr>di_mode = DriveStart, di_history = [], di_prompt = Some (NewTextMessage RoleUser ''hi'')\<rparr>"
  obtain ls where p: "prepareLoopForDrive (\<lambda>_. ''h'') example_core ?input example_options = Inr ls"
    by (simp add: prepareLoopForDrive_def validateDriveInput_def inspectTranscript_def
        prepareLoopWithHistory_def resolveSystemPrompt_def example_core_def example_options_def
        buildExecutionToolRegistry_def Let_def case_prod_beta)
  have "di_prompt ?input = None \<or> plain_message (the (di_prompt ?input))"
    by (simp add: plain_message_def)
  from prepareLoopForDrive_ready [OF p this] p show ?thesis by blast
qed

end
