(* ===== verification/Execution_Resume.thy ===== *)
theory Execution_Resume
  imports Execution_Entry
begin

text \<open>
  Resuming a suspended run (execution_loop.go): the checks that a suspension belongs to this
  transcript and configuration, the decisions about its executable calls, their execution, and the
  continuation in the loop.
\<close>

datatype resume_action =
  ToolResumeInvalid | ToolResumeExecute | ToolResumeReturn | ResumeActionOther nat

record tool_resume_decision =
  rd_call_id :: string
  rd_action :: resume_action
  rd_input :: "json option"
  rd_result :: "tool_execution_result option"
  rd_payload :: string

record resume_input =
  ri_history :: "message list"
  ri_suspension :: suspension
  ri_decisions :: "tool_resume_decision list"
  ri_prompt :: "message option"

definition sameToolCalls :: "'o env \<Rightarrow> tool_use list \<Rightarrow> tool_use list \<Rightarrow> bool" where
  "sameToolCalls env left right = list_all2 (ev_same_call env) left right"

definition validateResumeInput :: "'o env \<Rightarrow> tool_use \<Rightarrow> tool \<Rightarrow> json \<Rightarrow> go_error option" where
  "validateResumeInput env call t input =
     (case ev_validate env input (fn_parameters (tool_fn t)) of
        None \<Rightarrow> None
      | Some e \<Rightarrow> Some (wrap_kind ErrResumeDecision
          (''override input for tool '' @ quote (tu_id call) @ '': '' @ err_text e)))"

subsection \<open>Does the suspension belong here\<close>

definition mismatch :: "string \<Rightarrow> go_error" where
  "mismatch s = wrap_kind ErrSuspensionMismatch s"

definition check_suspension ::
  "'o env \<Rightarrow> suspension \<Rightarrow> loop_state \<Rightarrow> tool_suspension_payload result" where
  "check_suspension env s ls =
     (case inspectTranscript (ls_messages ls) of
        Inl e \<Rightarrow> Inl e
      | Inr frontier \<Rightarrow>
          if frontier = [] then Inl (mismatch ''Resume requires an open tool frontier'')
          else if sp_id s = '''' \<or> sp_frontier_hash s = '''' then
            Inl (mismatch ''missing suspension ID or frontier hash'')
          else if ev_frontier_hash env (ls_messages ls) frontier \<noteq> sp_frontier_hash s then
            Inl (mismatch ''frontier hash differs'')
          else (case decodeToolSuspension env s of
                  Inl e \<Rightarrow> Inl e
                | Inr payload \<Rightarrow>
                    if py_suspension_id payload \<noteq> sp_id s \<or>
                       td_kind (py_deferral payload) \<noteq> sp_kind s then
                      Inl (mismatch ''suspension identity differs'')
                    else if py_config_fingerprint payload \<noteq> ls_config_fingerprint ls \<or>
                            py_end_strategy payload \<noteq> ls_end_strategy ls then
                      Inl (mismatch
                        ''model, output, toolset, limit, retry, or end-strategy configuration changed'')
                    else if \<not> sameToolCalls env frontier (py_calls payload) then
                      Inl (mismatch ''persisted open calls differ from transcript frontier'')
                    else Inr payload))"

definition restore_counters :: "tool_suspension_payload \<Rightarrow> loop_state \<Rightarrow> loop_state" where
  "restore_counters payload ls =
     ls\<lparr>ls_total_usage := py_usage payload, ls_retry_counts := copyRetryCounts (py_retry_counts payload),
        ls_total_retries := py_total_retries payload,
        ls_validation_retries := py_validation_retries payload,
        ls_iteration := py_iteration payload,
        ls_last_finish_reason := py_last_finish_reason payload\<rparr>"

subsection \<open>The decisions\<close>

fun find_executable ::
  "agent_core \<Rightarrow> (string \<rightharpoonup> tool_use) \<Rightarrow> string list \<Rightarrow> tool_use list result" where
  "find_executable c byID [] = Inr []"
| "find_executable c byID (i # ids) =
     (case byID i of
        None \<Rightarrow> Inl (mismatch (''suspension contains invalid executable call '' @ quote i))
      | Some call \<Rightarrow>
          if ac_output_tool_names c (tu_name call) then
            Inl (mismatch (''suspension contains invalid executable call '' @ quote i))
          else (case find_executable c byID ids of
                  Inl e \<Rightarrow> Inl e | Inr calls \<Rightarrow> Inr (call # calls)))"

definition bad_decision :: "string \<Rightarrow> go_error" where
  "bad_decision s = wrap_kind ErrResumeDecision s"

fun index_decisions ::
  "(string \<rightharpoonup> tool_resume_decision) \<Rightarrow> tool_resume_decision list \<Rightarrow>
     (string \<rightharpoonup> tool_resume_decision) result" where
  "index_decisions m [] = Inr m"
| "index_decisions m (d # ds) =
     (if rd_call_id d = '''' then Inl (bad_decision ''decision has an empty call ID'')
      else if m (rd_call_id d) \<noteq> None then
        Inl (bad_decision (''duplicate decision for '' @ quote (rd_call_id d)))
      else index_decisions (m(rd_call_id d \<mapsto> d)) ds)"

text \<open>What the loop over the executable calls collects.\<close>

record resolved =
  rs_results :: "string \<rightharpoonup> tool_execution_result"
  rs_to_execute :: "tool_use list"
  rs_contexts :: "string \<rightharpoonup> tool_resume_context"

definition resolve_execute ::
  "'o env \<Rightarrow> exec_registry \<Rightarrow> tool_suspension_payload \<Rightarrow> tool_use \<Rightarrow> tool_resume_decision \<Rightarrow>
     resolved \<Rightarrow> resolved result" where
  "resolve_execute env registry payload call d acc =
     (if rd_result d \<noteq> None then
        Inl (bad_decision (''execute decision for '' @ quote (tu_id call) @ '' supplied a result''))
      else (case xr_Tool registry (tu_name call) of
              None \<Rightarrow> Inl (bad_decision (''tool '' @ quote (tu_name call) @ '' is no longer registered''))
            | Some t \<Rightarrow>
                (case (case rd_input d of None \<Rightarrow> None
                       | Some input \<Rightarrow> validateResumeInput env call t input) of
                   Some e \<Rightarrow> Inl e
                 | None \<Rightarrow>
                     let call = (case rd_input d of None \<Rightarrow> call
                                 | Some input \<Rightarrow> call\<lparr>tu_input := input\<rparr>);
                         acc = acc\<lparr>rs_to_execute := rs_to_execute acc @ [call]\<rparr> in
                     if py_handler_suspension payload then
                       (if \<not> may_suspend registry call then
                          Inl (mismatch (''suspended handler '' @ quote (tu_name call) @
                            '' no longer declares suspension''))
                        else Inr (acc\<lparr>rs_contexts := (rs_contexts acc)(tu_id call \<mapsto>
                               \<lparr>rc_suspension_id = py_suspension_id payload,
                                rc_deferral = py_deferral payload, rc_payload = rd_payload d\<rparr>)\<rparr>))
                     else if rd_payload d \<noteq> '''' then
                       Inl (bad_decision (''execute decision for '' @ quote (tu_id call) @
                         '' supplied handler payload for a gate suspension''))
                     else Inr acc)))"

definition resolve_return ::
  "tool_use \<Rightarrow> tool_resume_decision \<Rightarrow> resolved \<Rightarrow> resolved result" where
  "resolve_return call d acc =
     (if rd_payload d \<noteq> '''' \<or> rd_input d \<noteq> None then
        Inl (bad_decision (''return decision for '' @ quote (tu_id call) @
          '' supplied execute-only data''))
      else (case rd_result d of
              None \<Rightarrow> Inl (bad_decision (''return decision for '' @ quote (tu_id call) @ '' has no result''))
            | Some r \<Rightarrow>
                (case validateToolResultIdentity call r of
                   Some e \<Rightarrow> Inl (bad_decision (err_text e))
                 | None \<Rightarrow> Inr (acc\<lparr>rs_results := (rs_results acc)(tu_id call \<mapsto> r)\<rparr>))))"

fun resolve_calls ::
  "'o env \<Rightarrow> exec_registry \<Rightarrow> tool_suspension_payload \<Rightarrow> (string \<rightharpoonup> tool_resume_decision) \<Rightarrow>
     tool_use list \<Rightarrow> resolved \<Rightarrow> resolved result" where
  "resolve_calls env registry payload byID [] acc = Inr acc"
| "resolve_calls env registry payload byID (call # calls) acc =
     (case byID (tu_id call) of
        None \<Rightarrow> Inl (bad_decision (''missing decision for '' @ quote (tu_id call)))
      | Some d \<Rightarrow>
          (case (case rd_action d of
                   ToolResumeExecute \<Rightarrow> resolve_execute env registry payload call d acc
                 | ToolResumeReturn \<Rightarrow> resolve_return call d acc
                 | _ \<Rightarrow> Inl (bad_decision (''invalid action for '' @ quote (tu_id call)))) of
             Inl e \<Rightarrow> Inl e
           | Inr acc \<Rightarrow> resolve_calls env registry payload byID calls acc))"

text \<open>Everything \<^verbatim>\<open>resolveSuspendedTools\<close> checks before the first handler starts.\<close>

definition resolve_decisions ::
  "'o env \<Rightarrow> agent_core \<Rightarrow> tool_suspension_payload \<Rightarrow> tool_resume_decision list \<Rightarrow> loop_state \<Rightarrow>
     resolved result" where
  "resolve_decisions env c payload decisions ls =
     (case find_executable c (callsByID (py_calls payload)) (py_executable_call_ids payload) of
        Inl e \<Rightarrow> Inl e
      | Inr executable \<Rightarrow>
          if length decisions \<noteq> length executable then
            Inl (bad_decision (''got '' @ show_nat (length decisions) @ '' decisions for '' @
              show_nat (length executable) @ '' suspended calls''))
          else (case index_decisions Map.empty decisions of
                  Inl e \<Rightarrow> Inl e
                | Inr byID \<Rightarrow>
                    (case resolve_calls env (ls_registry ls) payload byID executable
                            \<lparr>rs_results = Map.empty, rs_to_execute = [], rs_contexts = Map.empty\<rparr> of
                       Inl e \<Rightarrow> Inl e
                     | Inr r \<Rightarrow>
                         if rs_to_execute r = [] then Inr r
                         else (case checkToolCallLimits ls (length (rs_to_execute r)) of
                                 Some e \<Rightarrow> Inl e
                               | None \<Rightarrow>
                                   (case validateSuspendableBatch (ls_registry ls) executable
                                           (rs_to_execute r) of
                                      Some e \<Rightarrow> Inl e | None \<Rightarrow> Inr r)))))"

definition resolveSuspendedTools ::
  "'o env \<Rightarrow> agent_core \<Rightarrow> tool_suspension_payload \<Rightarrow> tool_resume_decision list \<Rightarrow> loop_state \<Rightarrow>
     (loop_state \<times> regular_turn_state result) option" where
  "resolveSuspendedTools env c payload decisions ls =
     (case resolve_decisions env c payload decisions ls of
        Inl e \<Rightarrow> Some (ls, Inl e)
      | Inr r \<Rightarrow>
          let st = new_regular\<lparr>rg_results := rs_results r\<rparr> in
          if rs_to_execute r = [] then Some (ls, Inr st)
          else (case executeAdmittedTools env (rs_to_execute r) (rs_contexts r) ls of
                  None \<Rightarrow> None
                | Some (ls, results, deferral, executionErr) \<Rightarrow>
                    (case deferral of
                       Some d \<Rightarrow>
                         (case newToolSuspension env (py_calls payload) (rs_to_execute r) d True ls of
                            (ls, Inl e) \<Rightarrow> Some (ls, Inl e)
                          | (ls, Inr s) \<Rightarrow> Some (ls, Inr (st\<lparr>rg_suspension := Some s\<rparr>)))
                     | None \<Rightarrow>
                         (case settle_results env c (zip (rs_to_execute r) results) (ls, st) of
                            (ls, st) \<Rightarrow>
                              Some (ls, Inr (if executionErr \<noteq> None \<and> rg_fatal st = None
                                             then st\<lparr>rg_fatal := executionErr\<rparr> else st))))))"

definition resumePreparedWithEvaluator ::
  "'o env \<Rightarrow> agent_core \<Rightarrow> resume_input \<Rightarrow> loop_state \<Rightarrow> (loop_state \<times> 'o ending) option" where
  "resumePreparedWithEvaluator env c input ls =
     (case check_suspension env (ri_suspension input) ls of
        Inl e \<Rightarrow> Some (failedExecution env e False ls)
      | Inr payload \<Rightarrow>
          (case resolveSuspendedTools env c payload (ri_decisions input) (restore_counters payload ls) of
             None \<Rightarrow> None
           | Some (ls, Inl e) \<Rightarrow> Some (failedExecution env e False ls)
           | Some (ls, Inr regular) \<Rightarrow>
               driveLoop env c
                 (Some \<lparr>rt_assistant = last (ls_messages ls), rt_regular = Some regular\<rparr>)
                 (ri_prompt input) ls))"

definition resumeWithEvaluator ::
  "(fingerprint_payload \<Rightarrow> string) \<Rightarrow> dependency_plan \<Rightarrow> dependency_envelope \<Rightarrow> 'o env \<Rightarrow> agent_core \<Rightarrow>
     resume_input \<Rightarrow> run_options \<Rightarrow> (go_error + loop_state \<times> 'o ending) option" where
  "resumeWithEvaluator hash plan deps env c input options =
     (case preflight plan deps of
        Some e \<Rightarrow> Some (Inl e)
      | None \<Rightarrow>
          if (case ri_prompt input of None \<Rightarrow> False | Some p \<Rightarrow> m_role p \<noteq> RoleUser) then
            Some (Inl (wrap_kind ErrDriveInput ''Resume prompt must be RoleUser''))
          else (case prepareLoopForResume hash c (ri_history input) options of
                  Inl e \<Rightarrow> Some (Inl e)
                | Inr ls \<Rightarrow> map_option Inr (resumePreparedWithEvaluator env c input ls)))"

subsection \<open>A suspension resumes where it was made\<close>

text \<open>
  C26. Resuming is exact: the suspension a run produced passes every identity check on a state with
  the same transcript, configuration fingerprint and end strategy, and restores the usage, the retry
  counts, the totals, the iteration and the finish reason of the run at the moment it suspended.  The codec
  is asked to carry the payload of this suspension, up to the bytes of its deferral payload and up to
  calls that encode alike.
\<close>

theorem check_suspension_resumes:
  assumes "codec_carries env (suspension_payload ls (sp_id s) calls executable d h)"
    "newToolSuspension env calls executable d h ls = (ls1, Inr s)"
    "inspectTranscript (ls_messages ls) = Inr calls" "calls \<noteq> []" "executable \<noteq> []"
    "sp_id s \<noteq> ''''" "sp_frontier_hash s \<noteq> ''''"
    "ls_messages ls2 = ls_messages ls" "ls_config_fingerprint ls2 = ls_config_fingerprint ls"
    "ls_end_strategy ls2 = ls_end_strategy ls"
  shows "\<exists>p. check_suspension env s ls2 = Inr p \<and>
    ls_total_usage (restore_counters p ls2) = ls_total_usage ls \<and>
    ls_retry_counts (restore_counters p ls2) = ls_retry_counts ls \<and>
    ls_total_retries (restore_counters p ls2) = ls_total_retries ls \<and>
    ls_validation_retries (restore_counters p ls2) = ls_validation_retries ls \<and>
    ls_iteration (restore_counters p ls2) = ls_iteration ls \<and>
    ls_last_finish_reason (restore_counters p ls2) = ls_last_finish_reason ls \<and>
    py_executable_call_ids p = map tu_id executable \<and> py_handler_suspension p = h"
proof -
  obtain calls' d' where p: "decodeToolSuspension env s = Inr (suspension_payload ls (sp_id s) calls' executable d' h)"
      "sameToolCalls env calls calls'" "td_kind d' = td_kind d"
    using suspension_roundtrip [OF assms(1,2,5,4,6)] by (metis sameToolCalls_def)
  have s: "sp_kind s = td_kind d" "sp_frontier_hash s = ev_frontier_hash env (ls_messages ls) calls"
    using newToolSuspension_Inr [OF assms(2)] assms(3) by (metis Inr_inject)+
  have "check_suspension env s ls2 = Inr (suspension_payload ls (sp_id s) calls' executable d' h)"
    using assms(3-) p s by (simp add: check_suspension_def suspension_payload_def)
  then show ?thesis
    by (simp add: restore_counters_def suspension_payload_def copyRetryCounts_def)
qed

definition example_open :: loop_state where
  "example_open = example_tool_state [NewToolUseMessage [example_call ''a'' ''f'']]"

definition example_open_payload :: tool_suspension_payload where
  "example_open_payload = suspension_payload example_open ''id'' [example_call ''a'' ''f'']
     [example_call ''a'' ''f''] example_deferral False"

definition example_resume_env :: "string env" where
  "example_resume_env = example_gated_env
     \<lparr>ev_encode := (\<lambda>p. if p = example_open_payload then Inr ''p'' else Inl (Plain ''other'')),
      ev_decode := (\<lambda>_. Inr (nulled example_open_payload))\<rparr>"

lemma example_open_frontier:
  "inspectTranscript (ls_messages example_open) = Inr [example_call ''a'' ''f'']"
  by (simp add: example_open_def example_tool_state_def example_state_def inspectTranscript_def
      inspect_message_def inspect_uses_def Let_def example_call_def)

lemma check_suspension_resumes_witness:
  "\<exists>ls1 s p. newToolSuspension example_resume_env [example_call ''a'' ''f''] [example_call ''a'' ''f'']
       example_deferral False example_open = (ls1, Inr s) \<and>
     check_suspension example_resume_env s example_open = Inr p \<and>
     py_executable_call_ids p = [''a'']"
proof -
  let ?calls = "[example_call ''a'' ''f'']"
  have codec: "codec_carries example_resume_env p" for p
    using payload_same_nulled [of example_resume_env p]
    by (cases "p = example_open_payload") (simp_all add: codec_carries_def example_resume_env_def example_gated_env_def example_env_def)
  obtain ls1 s where s: "newToolSuspension example_resume_env ?calls ?calls example_deferral False
      example_open = (ls1, Inr s)" "sp_id s = ''id''" "sp_frontier_hash s = ''h''"
    by (simp add: newToolSuspension_def example_open_frontier example_resume_env_def Let_def
        example_gated_env_def example_env_def example_open_payload_def)
  from check_suspension_resumes [OF codec s(1) example_open_frontier _ _ _ _ refl refl refl] s
  obtain p where "check_suspension example_resume_env s example_open = Inr p"
    "py_executable_call_ids p = map tu_id ?calls" by auto
  with s(1) show ?thesis by (simp add: example_call_def)
qed

subsection \<open>Only decided calls execute\<close>

lemma callsByID_id: "callsByID us k = Some call \<Longrightarrow> tu_id call = k"
  by (induction us rule: rev_induct) (auto split: if_splits)

lemma find_executable_ids:
  "find_executable c (callsByID us) ids = Inr calls \<Longrightarrow> map tu_id calls = ids"
  by (induction ids arbitrary: calls)
    (auto split: option.splits if_splits sum.splits dest: callsByID_id)

lemma index_decisions_Inr:
  "index_decisions m ds = Inr m' \<Longrightarrow>
     distinct (map rd_call_id ds) \<and> (\<forall>d \<in> set ds. m (rd_call_id d) = None) \<and>
     (\<forall>k d. m' k = Some d \<longrightarrow> m k = Some d \<or> d \<in> set ds \<and> rd_call_id d = k)"
proof (induction ds arbitrary: m)
  case (Cons d ds)
  then have d: "m (rd_call_id d) = None" "index_decisions (m(rd_call_id d \<mapsto> d)) ds = Inr m'"
    by (auto split: if_splits)
  note IH = Cons.IH [OF d(2)]
  have new: "rd_call_id x \<noteq> rd_call_id d \<and> m (rd_call_id x) = None" if "x \<in> set ds" for x
  proof -
    have "(m(rd_call_id d \<mapsto> d)) (rd_call_id x) = None" using IH that by blast
    then show ?thesis by (simp split: if_splits)
  qed
  have "m k = Some x \<or> x \<in> set (d # ds) \<and> rd_call_id x = k" if "m' k = Some x" for k x
  proof -
    have "(m(rd_call_id d \<mapsto> d)) k = Some x \<or> x \<in> set ds \<and> rd_call_id x = k" using IH that by blast
    then show ?thesis by (cases "k = rd_call_id d") auto
  qed
  moreover have "rd_call_id d \<notin> set (map rd_call_id ds)" using new by fastforce
  ultimately show ?case using IH new d(1) by simp
qed simp

definition decided :: "(string \<rightharpoonup> tool_resume_decision) \<Rightarrow> resume_action \<Rightarrow> string \<Rightarrow> bool" where
  "decided byID action i \<longleftrightarrow> (\<exists>d. byID i = Some d \<and> rd_action d = action)"

definition decided_ids :: "(string \<rightharpoonup> tool_resume_decision) \<Rightarrow> string set" where
  "decided_ids byID = {i. decided byID ToolResumeExecute i}"

lemma resolve_execute_ids:
  "resolve_execute env registry payload call d acc = Inr acc' \<Longrightarrow>
     map tu_id (rs_to_execute acc') = map tu_id (rs_to_execute acc) @ [tu_id call]"
  by (auto simp: resolve_execute_def Let_def split: if_splits option.splits)

lemma resolve_return_executes:
  "resolve_return call d acc = Inr acc' \<Longrightarrow> rs_to_execute acc' = rs_to_execute acc"
  by (auto simp: resolve_return_def split: if_splits option.splits)

lemma resolve_calls_Inr:
  "resolve_calls env registry payload byID calls acc = Inr acc' \<Longrightarrow>
     (\<forall>call \<in> set calls. byID (tu_id call) \<noteq> None) \<and>
     set (map tu_id (rs_to_execute acc')) \<subseteq> set (map tu_id (rs_to_execute acc)) \<union> decided_ids byID"
proof (induction calls arbitrary: acc)
  case (Cons call calls)
  obtain d acc1 where d: "byID (tu_id call) = Some d"
    and step: "resolve_calls env registry payload byID calls acc1 = Inr acc'"
    and act: "rd_action d = ToolResumeExecute \<and> resolve_execute env registry payload call d acc = Inr acc1 \<or>
      rd_action d = ToolResumeReturn \<and> resolve_return call d acc = Inr acc1"
    using Cons.prems by (auto split: option.splits sum.splits resume_action.splits)
  have "set (map tu_id (rs_to_execute acc1)) \<subseteq> set (map tu_id (rs_to_execute acc)) \<union> decided_ids byID"
    using act
  proof
    assume a: "rd_action d = ToolResumeExecute \<and> resolve_execute env registry payload call d acc = Inr acc1"
    then have "tu_id call \<in> decided_ids byID" using d by (auto simp: decided_ids_def decided_def)
    then show ?thesis using resolve_execute_ids [OF conjunct2 [OF a]] by simp
  next
    assume "rd_action d = ToolResumeReturn \<and> resolve_return call d acc = Inr acc1"
    then show ?thesis using resolve_return_executes by auto
  qed
  moreover note Cons.IH [OF step]
  ultimately show ?case using d by simp blast
qed simp

text \<open>What the checks before the first handler establish about the decisions.\<close>

definition decisions_ok :: "string list \<Rightarrow> tool_resume_decision list \<Rightarrow> tool_use list \<Rightarrow> bool" where
  "decisions_ok ids decisions calls \<longleftrightarrow>
     distinct (map rd_call_id decisions) \<and> length decisions = length ids \<and>
     set ids \<subseteq> set (map rd_call_id decisions) \<and>
     (\<forall>call \<in> set calls. \<exists>d \<in> set decisions. rd_call_id d = tu_id call \<and> rd_action d = ToolResumeExecute)"

lemma resolve_decisions_Inr:
  assumes "resolve_decisions env c payload decisions ls = Inr r"
  shows "decisions_ok (py_executable_call_ids payload) decisions (rs_to_execute r)"
proof -
  obtain executable byID where
    e: "find_executable c (callsByID (py_calls payload)) (py_executable_call_ids payload) = Inr executable"
    and len: "length decisions = length executable"
    and i: "index_decisions Map.empty decisions = Inr byID"
    and calls: "resolve_calls env (ls_registry ls) payload byID executable
            \<lparr>rs_results = Map.empty, rs_to_execute = [], rs_contexts = Map.empty\<rparr> = Inr r"
    using assms by (auto simp: resolve_decisions_def split: sum.splits if_splits option.splits)
  note ids = find_executable_ids [OF e] and I = index_decisions_Inr [OF i] and C = resolve_calls_Inr [OF calls]
  have dec: "d \<in> set decisions \<and> rd_call_id d = k" if "byID k = Some d" for k d
    using I that by (metis option.distinct(1))
  have "set (py_executable_call_ids payload) \<subseteq> set (map rd_call_id decisions)"
  proof
    fix k assume "k \<in> set (py_executable_call_ids payload)"
    then obtain call where "call \<in> set executable" "tu_id call = k" using ids by (metis imageE list.set_map)
    then obtain d where "byID k = Some d" using C by blast
    then show "k \<in> set (map rd_call_id decisions)" using dec by force
  qed
  moreover have "\<exists>d \<in> set decisions. rd_call_id d = tu_id call \<and> rd_action d = ToolResumeExecute"
    if "call \<in> set (rs_to_execute r)" for call
  proof -
    have "tu_id call \<in> decided_ids byID" using C that by auto
    then show ?thesis using dec by (force simp: decided_ids_def decided_def)
  qed
  moreover have "length decisions = length (py_executable_call_ids payload)"
    using len ids by (metis length_map)
  ultimately show ?thesis using I by (simp add: decisions_ok_def)
qed

lemma decisions_ok_ids:
  assumes "decisions_ok ids decisions calls" "distinct ids"
  shows "set (map rd_call_id decisions) = set ids"
proof -
  have "card (set (map rd_call_id decisions)) = length ids"
    using assms(1) by (simp only: decisions_ok_def distinct_card length_map)
  then have "card (set ids) = card (set (map rd_call_id decisions))"
    using distinct_card [OF assms(2)] by simp
  moreover have "set ids \<subseteq> set (map rd_call_id decisions)" using assms(1) by (simp only: decisions_ok_def)
  ultimately show ?thesis using card_subset_eq [OF finite_set] by metis
qed

lemma resolveSuspendedTools_step:
  assumes "resolveSuspendedTools env c payload decisions ls = Some (ls', r)"
    "resolve_decisions env c payload decisions ls = Inr s"
  shows "step_in (set (rs_to_execute s)) ls ls'"
proof (cases "rs_to_execute s = []")
  case True
  then show ?thesis using assms by (simp add: resolveSuspendedTools_def Let_def)
next
  case False
  then obtain ls1 batch where x: "executeAdmittedTools env (rs_to_execute s) (rs_contexts s) ls = Some (ls1, batch)"
    using assms by (auto simp: resolveSuspendedTools_def Let_def split: option.splits)
  have "step_in (set (rs_to_execute s)) ls1 ls'"
    using assms False x
    by (auto simp: resolveSuspendedTools_def Let_def split: option.splits prod.splits sum.splits
        dest: turn_step_suspend turn_step_settle_all)
  with turn_step_execute [OF x subset_refl] show ?thesis by (rule regular_step_trans)
qed

lemma step_in_added:
  "step_in S ls ls' \<Longrightarrow> ls_log ls' = ls_log ls @ es \<Longrightarrow> ExecTool call rc \<in> set es \<Longrightarrow> call \<in> S"
  by (auto simp: regular_step_def moves_def)

text \<open>
  C27. A resumption starts a handler only when the decisions are complete, and only for calls decided
  to execute: if resolving the suspended calls performed any effect at all, the decisions have
  distinct call IDs, exactly those of the suspension's executable calls, and every handler started
  belongs to a call whose decision is to execute.
\<close>

theorem resolveSuspendedTools_decided:
  assumes "resolveSuspendedTools env c payload decisions ls = Some (ls', r)"
    "ls_log ls' = ls_log ls @ e # es" "distinct (py_executable_call_ids payload)"
  shows "distinct (map rd_call_id decisions) \<and>
    set (map rd_call_id decisions) = set (py_executable_call_ids payload) \<and>
    (\<forall>call rc. ExecTool call rc \<in> set (e # es) \<longrightarrow>
       (\<exists>d \<in> set decisions. rd_call_id d = tu_id call \<and> rd_action d = ToolResumeExecute))"
proof (cases "resolve_decisions env c payload decisions ls")
  case (Inl x)
  then show ?thesis using assms by (simp add: resolveSuspendedTools_def)
next
  case (Inr s)
  note ok = resolve_decisions_Inr [OF Inr] and step = resolveSuspendedTools_step [OF assms(1) Inr]
  show ?thesis
    using decisions_ok_ids [OF ok assms(3)] ok step_in_added [OF step assms(2)]
    unfolding decisions_ok_def by blast
qed

definition example_resumable :: loop_state where
  "example_resumable = example_open
     \<lparr>ls_registry := xr_add (empty_exec_registry None) (example_tool ''f'') OwnerBase\<rparr>"

definition example_decision :: tool_resume_decision where
  "example_decision = \<lparr>rd_call_id = ''a'', rd_action = ToolResumeExecute, rd_input = None,
     rd_result = None, rd_payload = ''''\<rparr>"

lemma resolveSuspendedTools_decided_witness:
  "\<exists>ls' r. resolveSuspendedTools example_resume_env example_core example_open_payload [example_decision]
       example_resumable = Some (ls', r) \<and>
     set (map rd_call_id [example_decision]) = set (py_executable_call_ids example_open_payload) \<and>
     ExecTool (example_call ''a'' ''f'') None \<in> set (ls_log ls')"
proof -
  let ?ls = "example_resumable" and ?p = example_open_payload
  obtain ls' r where run: "resolveSuspendedTools example_resume_env example_core ?p [example_decision]
       ?ls = Some (ls', r)"
    and log: "ls_log ls' = [ExecTool (example_call ''a'' ''f'') None]"
    by (simp add: resolveSuspendedTools_def resolve_decisions_def resolve_execute_def turn_defs callsByID_def
        example_defs example_open_def example_open_payload_def example_resume_env_def
        example_resumable_def example_decision_def example_tool_def
        empty_exec_registry_def start_collect_def remaining_def xr_add_def suspension_payload_def
        receive_def acceptCompletion_def run_handler_def xr_Execute_def handlerDeferral_def
        makeToolResultError_def result_for_def xr_Get_def xr_Count_def xr_Tool_def Let_def
        validateToolResultIdentity_def)
  have "ls_log ls' = ls_log ?ls @ ExecTool (example_call ''a'' ''f'') None # []"
    using log by (simp add: example_resumable_def example_open_def example_defs)
  moreover have "distinct (py_executable_call_ids ?p)"
    by (simp add: example_open_payload_def suspension_payload_def)
  ultimately have "set (map rd_call_id [example_decision]) = set (py_executable_call_ids ?p)"
    using resolveSuspendedTools_decided [OF run] by blast
  with run log show ?thesis by (metis list.set_intros(1))
qed

end
