(* ===== verification/Path_Match.thy ===== *)
theory Path_Match
  imports Go_Base
begin

text \<open>
  Go's \<^verbatim>\<open>path.Match\<close> and the string functions the permission policy uses (\<^verbatim>\<open>strings.Trim\<close>,
  \<^verbatim>\<open>strings.Split\<close>, \<^verbatim>\<open>strings.ReplaceAll\<close> of one character), as the standard library defines them.
  A character of a string stands for a rune, so texts here have code points below 256; the library's
  check for invalid UTF-8 in a character class does not arise.

  The lemmas show that a syntax error of a pattern does not depend on the name it is matched with, and
  that a pattern without special characters matches exactly itself.
\<close>

abbreviation (input) slash :: char where "slash \<equiv> CHR ''/''"
abbreviation (input) backslash :: char where "backslash \<equiv> CHR 0x5C"

definition trim_char :: "char \<Rightarrow> string \<Rightarrow> string" where
  "trim_char c s = rev (dropWhile (\<lambda>x. x = c) (rev (dropWhile (\<lambda>x. x = c) s)))"

fun split_at :: "char \<Rightarrow> string \<Rightarrow> string list" where
  "split_at c [] = [[]]"
| "split_at c (x # xs) =
     (if x = c then [] # split_at c xs
      else (case split_at c xs of [] \<Rightarrow> [[x]] | w # ws \<Rightarrow> (x # w) # ws))"

definition replace_char :: "char \<Rightarrow> char \<Rightarrow> string \<Rightarrow> string" where
  "replace_char a b s = map (\<lambda>x. if x = a then b else x) s"

subsection \<open>One chunk\<close>

text \<open>\<^verbatim>\<open>getEsc\<close>: a possibly escaped character of a class; None is \<^verbatim>\<open>ErrBadPattern\<close>.\<close>

definition getEsc :: "string \<Rightarrow> (char \<times> string) option" where
  "getEsc chunk =
     (case chunk of
        [] \<Rightarrow> None
      | c # cs \<Rightarrow>
          if c = CHR ''-'' \<or> c = CHR '']'' then None
          else if c = backslash then
            (case cs of [] \<Rightarrow> None | r # rest \<Rightarrow> if rest = [] then None else Some (r, rest))
          else if cs = [] then None else Some (c, cs))"

lemma getEsc_shorter: "getEsc chunk = Some (r, rest) \<Longrightarrow> length rest < length chunk"
  by (auto simp: getEsc_def split: list.splits if_splits)

text \<open>The ranges of a class: whether one contains the rune, and the chunk after the bracket.\<close>

function match_ranges :: "nat \<Rightarrow> nat \<Rightarrow> bool \<Rightarrow> string \<Rightarrow> (bool \<times> string) option" where
  "match_ranges r nrange matched chunk =
     (if chunk \<noteq> [] \<and> hd chunk = CHR '']'' \<and> nrange > 0 then Some (matched, tl chunk)
      else (case getEsc chunk of
              None \<Rightarrow> None
            | Some (lo, chunk1) \<Rightarrow>
                if chunk1 \<noteq> [] \<and> hd chunk1 = CHR ''-'' then
                  (case getEsc (tl chunk1) of
                     None \<Rightarrow> None
                   | Some (hi, chunk2) \<Rightarrow>
                       match_ranges r (nrange + 1)
                         (matched \<or> of_char lo \<le> r \<and> r \<le> of_char hi) chunk2)
                else match_ranges r (nrange + 1) (matched \<or> of_char lo = r) chunk1))"
  by pat_completeness auto

termination
proof (relation "measure (\<lambda>(_, _, _, chunk). length chunk)", goal_cases)
  case (2 r nrange matched chunk x2 lo chunk1 x2a hi chunk2)
  then have "length chunk2 < length (tl chunk1)" "length chunk1 < length chunk"
    using getEsc_shorter by (metis prod.exhaust_sel)+
  then show ?case by simp
qed (auto dest: getEsc_shorter)

declare match_ranges.simps [simp del]

lemma match_ranges_shorter: "match_ranges r n m chunk = Some (b, rest) \<Longrightarrow> length rest \<le> length chunk"
proof (induction r n m chunk rule: match_ranges.induct)
  case (1 r n m chunk)
  show ?case
  proof (cases "chunk \<noteq> [] \<and> hd chunk = CHR '']'' \<and> n > 0")
    case True
    then show ?thesis using "1.prems" by (subst (asm) match_ranges.simps) auto
  next
    case False
    then obtain lo chunk1 where lo: "getEsc chunk = Some (lo, chunk1)"
      using "1.prems" by (subst (asm) match_ranges.simps) (auto split: option.splits)
    show ?thesis
    proof (cases "chunk1 \<noteq> [] \<and> hd chunk1 = CHR ''-''")
      case True
      then obtain hi chunk2 where hi: "getEsc (tl chunk1) = Some (hi, chunk2)"
        and rec: "match_ranges r (n + 1) (m \<or> of_char lo \<le> r \<and> r \<le> of_char hi) chunk2 = Some (b, rest)"
        using False lo "1.prems" by (subst (asm) match_ranges.simps) (auto split: option.splits)
      have "length rest \<le> length chunk2" by (rule "1.IH"(1) [OF False lo refl True hi refl rec])
      then show ?thesis using getEsc_shorter [OF lo] getEsc_shorter [OF hi] by simp
    next
      case ch: False
      then have rec: "match_ranges r (n + 1) (m \<or> of_char lo = r) chunk1 = Some (b, rest)"
        using False lo "1.prems" by (subst (asm) match_ranges.simps) auto
      have "length rest \<le> length chunk1" by (rule "1.IH"(2) [OF False lo refl ch rec])
      then show ?thesis using getEsc_shorter [OF lo] by simp
    qed
  qed
qed

text \<open>\<^verbatim>\<open>matchChunk\<close>: None is a syntax error; otherwise the rest of the name and whether the chunk
  matched.  Once the match has failed the chunk is still parsed, without reading the name.\<close>

function matchChunk :: "bool \<Rightarrow> string \<Rightarrow> string \<Rightarrow> (string \<times> bool) option" where
  "matchChunk failed [] s = Some (if failed then ([], False) else (s, True))"
| "matchChunk failed (c # cs) s =
     (let failed = (failed \<or> s = []) in
      if c = CHR ''['' then
        (let r = (if failed then 0 else of_char (hd s));
             s' = (if failed then s else tl s);
             negated = (cs \<noteq> [] \<and> hd cs = CHR ''^'');
             cs1 = (if negated then tl cs else cs) in
         case match_ranges r 0 False cs1 of
           None \<Rightarrow> None
         | Some (m, cs2) \<Rightarrow> matchChunk (failed \<or> m = negated) cs2 s')
      else if c = CHR ''?'' then
        matchChunk (failed \<or> hd s = slash) cs (if failed then s else tl s)
      else if c = backslash then
        (case cs of
           [] \<Rightarrow> None
         | d # ds \<Rightarrow> matchChunk (failed \<or> d \<noteq> hd s) ds (if failed then s else tl s))
      else matchChunk (failed \<or> c \<noteq> hd s) cs (if failed then s else tl s))"
  by pat_completeness auto

termination
proof (relation "measure (\<lambda>(_, chunk, _). length chunk)", goal_cases)
  case (2 failed c cs s fl r s' negated cs1 x m cs2)
  then have "length cs2 \<le> length cs1" using match_ranges_shorter by (metis prod.exhaust_sel)
  moreover have "length cs1 \<le> length cs" using 2 by simp
  ultimately show ?case by simp
qed auto

declare matchChunk.simps(2) [simp del]
subsection \<open>The whole pattern\<close>

text \<open>\<^verbatim>\<open>scanChunk\<close>: the chunk up to the next star outside a class, and the rest.\<close>

fun scan :: "bool \<Rightarrow> string \<Rightarrow> string \<times> string" where
  "scan inrange [] = ([], [])"
| "scan inrange (c # cs) =
     (if c = backslash \<and> cs \<noteq> [] then
        let (chunk, rest) = scan inrange (tl cs) in (c # hd cs # chunk, rest)
      else if c = CHR ''*'' \<and> \<not> inrange then ([], c # cs)
      else let (chunk, rest) = scan (if c = CHR ''['' then True else if c = CHR '']'' then False else inrange) cs
           in (c # chunk, rest))"

definition scanChunk :: "string \<Rightarrow> bool \<times> string \<times> string" where
  "scanChunk pattern =
     (pattern \<noteq> [] \<and> hd pattern = CHR ''*'', scan False (dropWhile (\<lambda>c. c = CHR ''*'') pattern))"

lemma scan_append: "fst (scan b s) @ snd (scan b s) = s"
  by (induction b s rule: scan.induct) (auto simp: Let_def split: prod.splits)

lemma scan_empty: "fst (scan False s) = [] \<Longrightarrow> s = [] \<or> hd s = CHR ''*''"
  by (cases s) (auto simp: Let_def split: prod.splits if_splits)

lemma scanChunk_shorter:
  assumes "scanChunk pattern = (star, chunk, rest)" "pattern \<noteq> []"
  shows "length rest < length pattern"
proof -
  let ?d = "dropWhile (\<lambda>c. c = CHR ''*'') pattern"
  have s: "scan False ?d = (chunk, rest)" using assms(1) by (simp add: scanChunk_def)
  have a: "chunk @ rest = ?d" using scan_append [of False ?d] s by simp
  have d: "length ?d \<le> length pattern" by (rule length_dropWhile_le)
  show ?thesis
  proof (cases "chunk = []")
    case True
    then have "?d = [] \<or> hd ?d = CHR ''*''" using scan_empty [of ?d] s by simp
    then have "?d = []" using hd_dropWhile by blast
    then have "rest = []" using a by (metis append_is_Nil_conv)
    then show ?thesis using assms(2) by simp
  next
    case False
    then have "length rest < length ?d" using a by (metis length_append length_greater_0_conv less_add_same_cancel2)
    then show ?thesis using d by simp
  qed
qed

text \<open>What remains of a pattern once the match has failed is still parsed.\<close>

function rest_valid :: "string \<Rightarrow> bool" where
  "rest_valid pattern =
     (if pattern = [] then True
      else case scanChunk pattern of
             (_, chunk, rest) \<Rightarrow> matchChunk False chunk [] \<noteq> None \<and> rest_valid rest)"
  by pat_completeness auto

termination
  by (relation "measure length") (auto intro: scanChunk_shorter [OF sym])

declare rest_valid.simps [simp del]

datatype skip = SkipBad | SkipNone | SkipTo string

text \<open>The inner loop after a star: skip characters, never a slash, until the chunk matches.\<close>

fun skip_star :: "string \<Rightarrow> bool \<Rightarrow> string \<Rightarrow> skip" where
  "skip_star chunk is_last [] = SkipNone"
| "skip_star chunk is_last (c # name) =
     (if c = slash then SkipNone
      else (case matchChunk False chunk name of
              None \<Rightarrow> SkipBad
            | Some (t, True) \<Rightarrow>
                if is_last \<and> t \<noteq> [] then skip_star chunk is_last name else SkipTo t
            | Some (_, False) \<Rightarrow> skip_star chunk is_last name))"

text \<open>\<^verbatim>\<open>path.Match\<close>: None is \<^verbatim>\<open>ErrBadPattern\<close>.\<close>

function path_Match :: "string \<Rightarrow> string \<Rightarrow> bool option" where
  "path_Match pattern name =
     (if pattern = [] then Some (name = [])
      else case scanChunk pattern of
        (star, chunk, rest) \<Rightarrow>
          if star \<and> chunk = [] then Some (slash \<notin> set name)
          else (case matchChunk False chunk name of
                  None \<Rightarrow> None
                | Some (t, ok) \<Rightarrow>
                    if ok \<and> (t = [] \<or> rest \<noteq> []) then path_Match rest t
                    else (case (if star then skip_star chunk (rest = []) name else SkipNone) of
                            SkipBad \<Rightarrow> None
                          | SkipTo t \<Rightarrow> path_Match rest t
                          | SkipNone \<Rightarrow> if rest_valid rest then Some False else None)))"
  by pat_completeness auto

termination
proof (relation "measure (\<lambda>(p, _). length p)", goal_cases)
  case (2 pattern name star y chunk rest)
  then have "scanChunk pattern = (star, chunk, rest)" by simp
  then show ?case using 2(1) scanChunk_shorter by simp
next
  case (3 pattern name star y chunk rest)
  then have "scanChunk pattern = (star, chunk, rest)" by simp
  then show ?case using 3(1) scanChunk_shorter by simp
qed simp

declare path_Match.simps [simp del]

subsection \<open>Syntax errors depend on the pattern only\<close>

lemma match_ranges_parse:
  "map_option snd (match_ranges r n m chunk) = map_option snd (match_ranges r' n m' chunk)"
proof (induction r n m chunk arbitrary: m' rule: match_ranges.induct)
  case (1 r n m chunk)
  show ?case
  proof (cases "chunk \<noteq> [] \<and> hd chunk = CHR '']'' \<and> n > 0")
    case True
    then show ?thesis by (subst (1 2) match_ranges.simps) simp
  next
    case F: False
    then have no_end: "(chunk \<noteq> [] \<and> hd chunk = CHR '']'' \<and> 0 < n) = False" by blast
    consider "getEsc chunk = None" | lo chunk1 where "getEsc chunk = Some (lo, chunk1)" by fastforce
    then show ?thesis
    proof cases
      case 1
      then show ?thesis using F by (subst (1 2) match_ranges.simps) simp
    next
      case 2
      note rec = "1.IH" [OF F 2 refl]
      show ?thesis
      proof (cases "chunk1 \<noteq> [] \<and> hd chunk1 = CHR ''-''")
        case True
        show ?thesis
        proof (cases "getEsc (tl chunk1)")
          case None
          then show ?thesis using F 2 True by (subst (1 2) match_ranges.simps) simp
        next
          case (Some h)
          obtain hi chunk2 where h: "h = (hi, chunk2)" by fastforce
          have step: "match_ranges q n k chunk =
              match_ranges q (n + 1) (k \<or> of_char lo \<le> q \<and> q \<le> of_char hi) chunk2" for q k
            using 2 True Some h by (subst match_ranges.simps) (simp add: no_end)
          show ?thesis
            unfolding step by (rule rec(1) [OF True Some [unfolded h] refl])
        qed
      next
        case False
        then show ?thesis
          using F 2 rec(2) [OF False] by (subst (1 2) match_ranges.simps) auto
      qed
    qed
  qed
qed

lemma match_ranges_None: "match_ranges r n m chunk = None \<Longrightarrow> match_ranges r' n m' chunk = None"
proof -
  assume a: "match_ranges r n m chunk = None"
  from match_ranges_parse [of r n m chunk r' m'] show ?thesis unfolding a option.map
    by (metis map_option_is_None)
qed

lemma match_ranges_Some:
  assumes "match_ranges r n m chunk = Some (b, rest)"
  shows "\<exists>b'. match_ranges r' n m' chunk = Some (b', rest)"
proof -
  have "map_option snd (match_ranges r' n m' chunk) = Some rest"
    using match_ranges_parse [of r n m chunk r' m'] unfolding assms option.map snd_conv by (rule sym)
  then obtain p where "match_ranges r' n m' chunk = Some p" "snd p = rest"
    unfolding map_option_eq_Some by blast
  then show ?thesis by (metis prod.collapse)
qed

lemma matchChunk_parse: "matchChunk f chunk s = None \<longleftrightarrow> matchChunk f' chunk s' = None"
proof (induction f chunk s arbitrary: f' s' rule: matchChunk.induct)
  case (2 f c cs s)
  let ?cs = "if cs \<noteq> [] \<and> hd cs = CHR ''^'' then tl cs else cs"
  consider "c = CHR ''[''" | "c = backslash" | "c \<noteq> CHR ''[''" "c \<noteq> backslash" by blast
  then show ?case
  proof cases
    case 1
    show ?thesis
    proof (cases "match_ranges 0 0 False ?cs")
      case None
      have none: "match_ranges r 0 False ?cs = None" for r
        using None by (rule match_ranges_None)
      show ?thesis
        unfolding matchChunk.simps(2) Let_def if_P [OF 1] none option.case by (rule refl)
    next
      case (Some p)
      obtain b rest where "match_ranges 0 0 False ?cs = Some (b, rest)" using Some by (cases p) auto
      then have some: "\<exists>m. match_ranges r 0 False ?cs = Some (m, rest)" for r
        by (rule match_ranges_Some)
      obtain m where m: "match_ranges (if f \<or> s = [] then 0 else of_char (hd s)) 0 False ?cs = Some (m, rest)"
        using some by blast
      obtain m' where m': "match_ranges (if f' \<or> s' = [] then 0 else of_char (hd s')) 0 False ?cs = Some (m', rest)"
        using some by blast
      note IH = "2.IH"(1) [OF refl 1 refl refl refl refl m refl]
      show ?thesis
        unfolding matchChunk.simps(2) Let_def if_P [OF 1] m m' option.case prod.case by (rule IH)
    qed
  next
    case 2
    show ?thesis
    proof (cases cs)
      case (Cons d ds)
      then show ?thesis using 2 "2.IH"(3) [OF refl _ _ 2 Cons] by (simp add: matchChunk.simps(2) Let_def)
    qed (use 2 in \<open>simp add: matchChunk.simps(2) Let_def\<close>)
  next
    case 3
    show ?thesis
    proof (cases "c = CHR ''?''")
      case True
      show ?thesis
        unfolding matchChunk.simps(2) Let_def if_not_P [OF 3(1)] if_P [OF True]
        by (rule "2.IH"(2) [OF refl 3(1) True])
    next
      case False
      show ?thesis
        unfolding matchChunk.simps(2) Let_def if_not_P [OF 3(1)] if_not_P [OF False] if_not_P [OF 3(2)]
        by (rule "2.IH"(4) [OF refl 3(1) False 3(2)])
    qed
  qed
qed simp

lemma matchChunk_bad: "matchChunk False chunk name = None \<Longrightarrow> matchChunk False chunk [] = None"
  using matchChunk_parse by blast

lemma skip_star_bad:
  "skip_star chunk is_last name = SkipBad \<Longrightarrow> matchChunk False chunk [] = None"
  by (induction chunk is_last name rule: skip_star.induct)
    (auto split: if_splits option.splits bool.splits dest: matchChunk_bad)

lemma path_Match_syntax: "path_Match pattern name = None \<longleftrightarrow> \<not> rest_valid pattern"
proof (induction pattern name rule: path_Match.induct)
  case (1 pattern name)
  show ?case
  proof (cases "pattern = []")
    case True
    then show ?thesis by (simp add: path_Match.simps rest_valid.simps)
  next
    case False
    obtain star chunk rest where sc: "scanChunk pattern = (star, chunk, rest)" by (metis prod_cases3)
    have valid: "rest_valid pattern \<longleftrightarrow> matchChunk False chunk [] \<noteq> None \<and> rest_valid rest"
      using False sc by (subst rest_valid.simps) simp
    show ?thesis
    proof (cases "star \<and> chunk = []")
      case True
      let ?d = "dropWhile (\<lambda>c. c = CHR ''*'') pattern"
      have "scan False ?d = ([], rest)" using sc True by (simp add: scanChunk_def)
      then have "rest = ?d" "?d = [] \<or> hd ?d = CHR ''*''"
        using scan_append [of False ?d] scan_empty [of ?d] by simp_all
      then have "rest = []" using hd_dropWhile [of "\<lambda>c. c = CHR ''*''" pattern] by metis
      then show ?thesis using True False sc valid
        by (subst path_Match.simps) (simp add: rest_valid.simps [of "[]"])
    next
      case open_chunk: False
      show ?thesis
      proof (cases "matchChunk False chunk name")
        case None
        then show ?thesis using False sc open_chunk valid matchChunk_parse [of False chunk name False "[]"]
          by (subst path_Match.simps) simp
      next
        case (Some q)
        obtain t ok where q: "matchChunk False chunk name = Some (t, ok)" using Some by (cases q) auto
        have parsed: "matchChunk False chunk [] \<noteq> None"
          using q matchChunk_parse [of False chunk name False "[]"] by simp
        note IH1 = "1.IH"(1) [OF False sc [symmetric] refl open_chunk q refl]
        note IH2 = "1.IH"(2) [OF False sc [symmetric] refl open_chunk q refl]
        have unfolded: "path_Match pattern name =
            (if ok \<and> (t = [] \<or> rest \<noteq> []) then path_Match rest t
             else (case (if star then skip_star chunk (rest = []) name else SkipNone) of
                     SkipBad \<Rightarrow> None | SkipTo t \<Rightarrow> path_Match rest t
                   | SkipNone \<Rightarrow> if rest_valid rest then Some False else None))"
          unfolding path_Match.simps [of pattern name] sc prod.case if_not_P [OF False]
            if_not_P [OF open_chunk] q option.case by (rule refl)
        show ?thesis
        proof (cases "ok \<and> (t = [] \<or> rest \<noteq> [])")
          case True
          then show ?thesis using IH1 parsed valid unfolded by simp
        next
          case no: False
          show ?thesis
          proof (cases "if star then skip_star chunk (rest = []) name else SkipNone")
            case SkipBad
            then show ?thesis using parsed skip_star_bad by (auto split: if_splits)
          next
            case SkipNone
            then show ?thesis unfolding unfolded if_not_P [OF no] SkipNone skip.case
              using parsed valid by simp
          next
            case (SkipTo u)
            then show ?thesis unfolding unfolded if_not_P [OF no] SkipTo skip.case
              using IH2 [OF no SkipTo] parsed valid by simp
          qed
        qed
      qed
    qed
  qed
qed

subsection \<open>Patterns without special characters\<close>

definition literal :: "string \<Rightarrow> bool" where
  "literal s \<longleftrightarrow> (\<forall>c \<in> set s. c \<noteq> CHR ''*'' \<and> c \<noteq> CHR ''?'' \<and> c \<noteq> CHR ''['' \<and> c \<noteq> backslash)"

lemma literal_simps [simp]:
  "literal []"
  "literal (c # s) \<longleftrightarrow> c \<noteq> CHR ''*'' \<and> c \<noteq> CHR ''?'' \<and> c \<noteq> CHR ''['' \<and> c \<noteq> backslash \<and> literal s"
  by (auto simp: literal_def)

lemma scan_literal: "literal s \<Longrightarrow> scan False s = (s, [])"
  by (induction s) auto

lemma matchChunk_literal:
  "literal chunk \<Longrightarrow> matchChunk f chunk s =
     Some (if \<not> f \<and> take (length chunk) s = chunk then (drop (length chunk) s, True) else ([], False))"
proof (induction chunk arbitrary: f s)
  case (Cons c cs)
  then show ?case by (cases s) (auto simp: matchChunk.simps(2) Let_def)
qed simp

lemma path_Match_literal:
  assumes "literal pattern"
  shows "path_Match pattern name = Some (pattern = name)"
proof (cases pattern)
  case Nil
  then show ?thesis by (simp add: path_Match.simps eq_commute)
next
  case (Cons c cs)
  have sc: "scanChunk pattern = (False, pattern, [])"
    using assms Cons scan_literal [OF assms] by (simp add: scanChunk_def)
  have "take (length pattern) name = pattern \<and> drop (length pattern) name = [] \<longleftrightarrow> pattern = name"
    using append_take_drop_id [of "length pattern" name] by auto
  then show ?thesis
    using Cons sc matchChunk_literal [OF assms, of False name]
    by (subst path_Match.simps)
      (auto simp: rest_valid.simps [of "[]"] path_Match.simps [of "[]"] split: if_splits)
qed

end
