(* ===== verification/Permission_Policy.thy ===== *)
theory Permission_Policy
  imports Path_Match
begin

text \<open>
  harness/permission/policy.go and presets.go: the default-deny policy over canonical effects.  Rules
  are compiled once (\<^verbatim>\<open>New\<close>) and evaluated as a most-specific match, later rules winning ties.
\<close>

datatype decision = DecisionInvalid | DecisionAllow | DecisionAsk | DecisionDeny | DecisionOther nat

record rule =
  ru_pattern :: string
  ru_decision :: decision

text \<open>\<^verbatim>\<open>env.CanonicalResource\<close> (harness/env/env.go).\<close>

record canonical_resource =
  re_scheme :: string
  re_id :: string
  re_display :: string

definition resource_Valid :: "canonical_resource \<Rightarrow> bool" where
  "resource_Valid r = (re_scheme r \<noteq> '''' \<and> re_id r \<noteq> '''')"

record permission_request =
  pr_capability :: string
  pr_action :: string
  pr_resource :: canonical_resource

record compiled_rule =
  cr_rule :: rule
  cr_segments :: "string list"
  cr_specificity :: int
  cr_index :: int

record policy =
  po_fallback :: decision
  po_rules :: "compiled_rule list"

subsection \<open>Compilation\<close>

definition double_star :: string where
  "double_star = ''**''"

text \<open>The loop over the segments; \<open>n\<close> is \<^verbatim>\<open>len(segments)\<close>.\<close>

fun check_segments :: "nat \<Rightarrow> nat \<Rightarrow> string list \<Rightarrow> go_error option" where
  "check_segments n i [] = None"
| "check_segments n i (s # ss) =
     (if s = '''' then Some (Plain ''permission pattern contains an empty segment'')
      else if s = double_star \<and> int i \<noteq> int n - 1 then
        Some (Plain ''** is allowed only as the final segment'')
      else if s \<noteq> double_star \<and> path_Match s ''probe'' = None then
        Some (wrap_cause (''invalid segment '' @ quote s) (Plain ''syntax error in pattern''))
      else check_segments n (i + 1) ss)"

definition patternSegments :: "string \<Rightarrow> string list result" where
  "patternSegments pattern =
     (let pattern = trim_char slash pattern in
      if pattern = '''' then Inl (Plain ''permission pattern is empty'')
      else let segments = split_at slash pattern in
           (case check_segments (length segments) 0 segments of
              Some e \<Rightarrow> Inl e
            | None \<Rightarrow> Inr segments))"

definition valid_decision :: "decision \<Rightarrow> bool" where
  "valid_decision d = (d = DecisionAllow \<or> d = DecisionAsk \<or> d = DecisionDeny)"

definition specific_char :: "char \<Rightarrow> bool" where
  "specific_char c = (c \<noteq> CHR ''*'' \<and> c \<noteq> CHR ''?'' \<and> c \<noteq> CHR ''['' \<and> c \<noteq> CHR '']'')"

definition specificity :: "string list \<Rightarrow> int" where
  "specificity segments = int (length (filter specific_char (concat segments)))"

fun compile_rules :: "nat \<Rightarrow> rule list \<Rightarrow> compiled_rule list result" where
  "compile_rules i [] = Inr []"
| "compile_rules i (r # rs) =
     (if \<not> valid_decision (ru_decision r) then
        Inl (Plain (''permission rule '' @ show_nat i @ '' has an invalid decision''))
      else (case patternSegments (ru_pattern r) of
              Inl e \<Rightarrow> Inl (wrap_cause (''permission rule '' @ show_nat i) e)
            | Inr segments \<Rightarrow>
                (case compile_rules (i + 1) rs of
                   Inl e \<Rightarrow> Inl e
                 | Inr cs \<Rightarrow>
                     Inr (\<lparr>cr_rule = r, cr_segments = segments,
                            cr_specificity = specificity segments, cr_index = int i\<rparr> # cs))))"

definition policy_New :: "decision \<Rightarrow> rule list \<Rightarrow> policy result" where
  "policy_New fallback rules =
     (if \<not> valid_decision fallback then Inl (Plain ''permission fallback decision is invalid'')
      else (case compile_rules 0 rules of
              Inl e \<Rightarrow> Inl e
            | Inr cs \<Rightarrow> Inr \<lparr>po_fallback = fallback, po_rules = cs\<rparr>))"

subsection \<open>Evaluation\<close>

definition requestSegments :: "permission_request \<Rightarrow> string list" where
  "requestSegments request =
     (let result = [pr_capability request, pr_action request] @
            (if re_scheme (pr_resource request) \<noteq> '''' then [re_scheme (pr_resource request)] else []);
          i = trim_char slash (replace_char backslash slash (re_id (pr_resource request))) in
      if i \<noteq> '''' then result @ split_at slash i else result)"

fun matchPattern :: "string list \<Rightarrow> string list \<Rightarrow> bool" where
  "matchPattern [] vs = (vs = [])"
| "matchPattern (s # ss) vs =
     (if s = double_star then True
      else (case vs of
              [] \<Rightarrow> False
            | v # vs' \<Rightarrow> path_Match s v = Some True \<and> matchPattern ss vs'))"

fun pick_rule :: "string list \<Rightarrow> compiled_rule list \<Rightarrow> decision \<Rightarrow> int \<Rightarrow> int \<Rightarrow> decision" where
  "pick_rule segments [] decision bestSpecificity bestIndex = decision"
| "pick_rule segments (r # rs) decision bestSpecificity bestIndex =
     (if \<not> matchPattern (cr_segments r) segments then
        pick_rule segments rs decision bestSpecificity bestIndex
      else if cr_specificity r > bestSpecificity \<or>
              cr_specificity r = bestSpecificity \<and> cr_index r > bestIndex then
        pick_rule segments rs (ru_decision (cr_rule r)) (cr_specificity r) (cr_index r)
      else pick_rule segments rs decision bestSpecificity bestIndex)"

definition Evaluate :: "policy option \<Rightarrow> permission_request \<Rightarrow> decision" where
  "Evaluate p request =
     (case p of
        None \<Rightarrow> DecisionDeny
      | Some p \<Rightarrow> pick_rule (requestSegments request) (po_rules p) (po_fallback p) (- 1) (- 1))"

subsection \<open>Presets\<close>

text \<open>\<^verbatim>\<open>policy, _ := New(...)\<close>: a failed compilation gives a nil policy.\<close>

definition must_policy :: "policy result \<Rightarrow> policy option" where
  "must_policy r = (case r of Inl _ \<Rightarrow> None | Inr p \<Rightarrow> Some p)"

definition ReadOnly :: "policy option" where
  "ReadOnly = must_policy (policy_New DecisionDeny
     [\<lparr>ru_pattern = ''filesystem/read/**'', ru_decision = DecisionAllow\<rparr>,
      \<lparr>ru_pattern = ''filesystem/list/**'', ru_decision = DecisionAllow\<rparr>,
      \<lparr>ru_pattern = ''filesystem/stat/**'', ru_decision = DecisionAllow\<rparr>,
      \<lparr>ru_pattern = ''artifact/read/**'', ru_decision = DecisionAllow\<rparr>])"

definition WorkspaceWrite :: "policy option" where
  "WorkspaceWrite = must_policy (policy_New DecisionDeny
     [\<lparr>ru_pattern = ''filesystem/read/**'', ru_decision = DecisionAllow\<rparr>,
      \<lparr>ru_pattern = ''filesystem/list/**'', ru_decision = DecisionAllow\<rparr>,
      \<lparr>ru_pattern = ''filesystem/stat/**'', ru_decision = DecisionAllow\<rparr>,
      \<lparr>ru_pattern = ''filesystem/write/**'', ru_decision = DecisionAllow\<rparr>,
      \<lparr>ru_pattern = ''filesystem/mkdir/**'', ru_decision = DecisionAllow\<rparr>,
      \<lparr>ru_pattern = ''filesystem/remove/**'', ru_decision = DecisionAllow\<rparr>,
      \<lparr>ru_pattern = ''artifact/read/**'', ru_decision = DecisionAllow\<rparr>,
      \<lparr>ru_pattern = ''shell/**'', ru_decision = DecisionAsk\<rparr>,
      \<lparr>ru_pattern = ''network/**'', ru_decision = DecisionAsk\<rparr>])"

subsection \<open>The most specific rule decides\<close>

text \<open>The rule a compiled rule comes from, and how it is weighed.\<close>

definition rule_matches :: "rule \<Rightarrow> permission_request \<Rightarrow> bool" where
  "rule_matches r request \<longleftrightarrow>
     (case patternSegments (ru_pattern r) of
        Inl _ \<Rightarrow> False | Inr segments \<Rightarrow> matchPattern segments (requestSegments request))"

definition rule_weight :: "rule \<Rightarrow> int" where
  "rule_weight r =
     (case patternSegments (ru_pattern r) of Inl _ \<Rightarrow> 0 | Inr segments \<Rightarrow> specificity segments)"

lemma compile_rules_Inr:
  "compile_rules i rules = Inr cs \<Longrightarrow>
     length cs = length rules \<and>
     (\<forall>k < length rules. cr_rule (cs ! k) = rules ! k \<and> cr_index (cs ! k) = int (i + k) \<and>
        patternSegments (ru_pattern (rules ! k)) = Inr (cr_segments (cs ! k)) \<and>
        cr_specificity (cs ! k) = rule_weight (rules ! k) \<and> valid_decision (ru_decision (rules ! k)))"
proof (induction i rules arbitrary: cs rule: compile_rules.induct)
  case (2 i r rs)
  obtain segments cs' where s: "patternSegments (ru_pattern r) = Inr segments"
    "compile_rules (i + 1) rs = Inr cs'" "valid_decision (ru_decision r)"
    and cs: "cs = \<lparr>cr_rule = r, cr_segments = segments, cr_specificity = specificity segments,
      cr_index = int i\<rparr> # cs'"
    using "2.prems" by (auto split: if_splits sum.splits)
  note IH = "2.IH" [OF _ s(1,2)]
  show ?case
    using IH s by (auto simp: cs nth_Cons rule_weight_def split: nat.splits)
qed simp

text \<open>The loop keeps the decision of the heaviest rule seen, the last of equals.\<close>

definition heavier :: "compiled_rule \<Rightarrow> int \<Rightarrow> int \<Rightarrow> bool" where
  "heavier r s i \<longleftrightarrow> cr_specificity r > s \<or> cr_specificity r = s \<and> cr_index r > i"

lemma pick_rule_none:
  "(\<forall>r \<in> set rs. \<not> matchPattern (cr_segments r) segments) \<Longrightarrow> pick_rule segments rs d s i = d"
  by (induction rs) auto

lemma pick_rule_light:
  "(\<forall>r \<in> set rs. matchPattern (cr_segments r) segments \<longrightarrow> \<not> heavier r s i) \<Longrightarrow>
     pick_rule segments rs d s i = d"
  by (induction rs) (auto simp: heavier_def)

lemma pick_rule_heaviest:
  assumes "matchPattern (cr_segments (rs ! k)) segments" "k < length rs"
    "heavier (rs ! k) s i"
    "\<forall>j < length rs. matchPattern (cr_segments (rs ! j)) segments \<and> j \<noteq> k \<longrightarrow>
       heavier (rs ! k) (cr_specificity (rs ! j)) (cr_index (rs ! j))"
  shows "pick_rule segments rs d s i = ru_decision (cr_rule (rs ! k))"
  using assms
proof (induction rs arbitrary: k d s i)
  case (Cons r rs)
  show ?case
  proof (cases k)
    case 0
    have "\<not> heavier x (cr_specificity r) (cr_index r)"
      if "x \<in> set rs" "matchPattern (cr_segments x) segments" for x
    proof -
      obtain j where "j < length rs" "rs ! j = x" using \<open>x \<in> set rs\<close> by (metis in_set_conv_nth)
      then have "heavier r (cr_specificity x) (cr_index x)"
        using Cons.prems(4)[rule_format, of "Suc j"] that(2) 0 by simp
      then show ?thesis by (auto simp: heavier_def)
    qed
    then show ?thesis using Cons.prems 0 by (auto simp: heavier_def pick_rule_light)
  next
    case (Suc k')
    have IH: "pick_rule segments rs d' s' i' = ru_decision (cr_rule (rs ! k'))"
      if "heavier (rs ! k') s' i'" for d' s' i'
    proof (rule Cons.IH)
      show "\<forall>j < length rs. matchPattern (cr_segments (rs ! j)) segments \<and> j \<noteq> k' \<longrightarrow>
          heavier (rs ! k') (cr_specificity (rs ! j)) (cr_index (rs ! j))"
        using Cons.prems(4) Suc by (auto dest: spec [of _ "Suc _"])
    qed (use Cons.prems Suc that in auto)
    have "heavier (rs ! k') s i" using Cons.prems(3) Suc by simp
    moreover have "heavier (rs ! k') (cr_specificity r) (cr_index r)" if "matchPattern (cr_segments r) segments"
      using Cons.prems(4)[rule_format, of 0] that Suc by simp
    ultimately show ?thesis using IH Suc by simp
  qed
qed simp

text \<open>
  C38. The most specific matching rule decides: if no rule of the policy matches a request, the
  fallback applies; and if rule \<open>k\<close> matches and every other matching rule is less specific, or as
  specific and earlier, the answer is the decision of rule \<open>k\<close>.
\<close>

theorem Evaluate_most_specific:
  assumes "policy_New fallback rules = Inr p"
  shows "((\<forall>r \<in> set rules. \<not> rule_matches r request) \<longrightarrow> Evaluate (Some p) request = fallback) \<and>
    (\<forall>k < length rules. rule_matches (rules ! k) request \<and>
       (\<forall>j < length rules. rule_matches (rules ! j) request \<and> j \<noteq> k \<longrightarrow>
          rule_weight (rules ! j) < rule_weight (rules ! k) \<or>
          rule_weight (rules ! j) = rule_weight (rules ! k) \<and> j < k) \<longrightarrow>
       Evaluate (Some p) request = ru_decision (rules ! k))"
proof -
  obtain cs where cs: "compile_rules 0 rules = Inr cs" and p: "p = \<lparr>po_fallback = fallback, po_rules = cs\<rparr>"
    using assms by (auto simp: policy_New_def split: if_splits sum.splits)
  note C = compile_rules_Inr [OF cs]
  let ?q = "requestSegments request"
  have m: "matchPattern (cr_segments (cs ! k)) ?q \<longleftrightarrow> rule_matches (rules ! k) request"
    if "k < length rules" for k
    using C that by (simp add: rule_matches_def)
  have "Evaluate (Some p) request = fallback" if none: "\<forall>r \<in> set rules. \<not> rule_matches r request"
  proof -
    have "\<forall>r \<in> set cs. \<not> matchPattern (cr_segments r) ?q"
      using none C m by (metis in_set_conv_nth nth_mem)
    then show ?thesis by (simp add: Evaluate_def p pick_rule_none)
  qed
  moreover have "Evaluate (Some p) request = ru_decision (rules ! k)"
    if k: "k < length rules" "rule_matches (rules ! k) request"
      and top: "\<forall>j < length rules. rule_matches (rules ! j) request \<and> j \<noteq> k \<longrightarrow>
          rule_weight (rules ! j) < rule_weight (rules ! k) \<or>
          rule_weight (rules ! j) = rule_weight (rules ! k) \<and> j < k" for k
  proof -
    have "rule_weight (rules ! k) \<ge> 0" by (simp add: rule_weight_def specificity_def split: sum.split)
    then have "pick_rule ?q cs fallback (- 1) (- 1) = ru_decision (cr_rule (cs ! k))"
      using C k top m by (intro pick_rule_heaviest) (auto simp: heavier_def)
    then show ?thesis using C k(1) by (simp add: Evaluate_def p)
  qed
  ultimately show ?thesis by blast
qed


text \<open>A compiled rule has no syntax error left: matching never meets one.\<close>

lemma check_segments_None:
  "check_segments n i segments = None \<Longrightarrow> s \<in> set segments \<Longrightarrow> s \<noteq> double_star \<Longrightarrow> path_Match s v \<noteq> None"
  by (induction n i segments rule: check_segments.induct)
    (auto split: if_splits simp: path_Match_syntax)

lemma patternSegments_valid:
  "patternSegments pattern = Inr segments \<Longrightarrow> s \<in> set segments \<Longrightarrow> s \<noteq> double_star \<Longrightarrow>
     path_Match s v \<noteq> None"
  by (auto simp: patternSegments_def Let_def split: if_splits option.splits dest: check_segments_None)

text \<open>
  A compiled policy never meets a pattern error: whatever a request's segments are, every segment
  of a compiled rule but the double star is a well-formed pattern for them, so that a rule that does
  not match fails to match and is not skipped because of a syntax error.
\<close>

theorem compiled_patterns_valid:
  assumes "policy_New fallback rules = Inr p"
  shows "\<forall>c \<in> set (po_rules p). \<forall>s \<in> set (cr_segments c). s = double_star \<or> path_Match s v \<noteq> None"
proof -
  obtain cs where cs: "compile_rules 0 rules = Inr cs" and p: "po_rules p = cs"
    using assms by (auto simp: policy_New_def split: if_splits sum.splits)
  note C = compile_rules_Inr [OF cs]
  show ?thesis
  proof (intro ballI disjCI)
    fix c s assume c: "c \<in> set (po_rules p)" "s \<in> set (cr_segments c)" "\<not> path_Match s v \<noteq> None"
    obtain k where k: "k < length cs" "c = cs ! k" using c(1) p by (metis in_set_conv_nth)
    then have "patternSegments (ru_pattern (rules ! k)) = Inr (cr_segments c)" using C by simp
    from patternSegments_valid [OF this c(2)] c(3) show "s = double_star" by blast
  qed
qed

subsection \<open>What the presets decide\<close>

lemma literal_segments [simp]:
  "matchPattern [''**''] vs"
  "literal s \<Longrightarrow>
     matchPattern (s # ss) vs \<longleftrightarrow> (case vs of [] \<Rightarrow> False | v # vs' \<Rightarrow> v = s \<and> matchPattern ss vs')"
  by (auto simp: path_Match_literal double_star_def split: list.splits)

declare matchPattern.simps(2) [simp del]

lemma requestSegments_head:
  "\<exists>rest. requestSegments request = pr_capability request # pr_action request # rest"
  by (simp add: requestSegments_def Let_def)

definition compiled :: "string \<Rightarrow> string list \<Rightarrow> int \<Rightarrow> int \<Rightarrow> decision \<Rightarrow> compiled_rule" where
  "compiled pattern segments weight i d =
     \<lparr>cr_rule = \<lparr>ru_pattern = pattern, ru_decision = d\<rparr>, cr_segments = segments,
      cr_specificity = weight, cr_index = i\<rparr>"

lemma ReadOnly_compiled:
  "ReadOnly = Some \<lparr>po_fallback = DecisionDeny, po_rules =
     [compiled ''filesystem/read/**'' [''filesystem'', ''read'', ''**''] 14 0 DecisionAllow,
      compiled ''filesystem/list/**'' [''filesystem'', ''list'', ''**''] 14 1 DecisionAllow,
      compiled ''filesystem/stat/**'' [''filesystem'', ''stat'', ''**''] 14 2 DecisionAllow,
      compiled ''artifact/read/**'' [''artifact'', ''read'', ''**''] 12 3 DecisionAllow]\<rparr>"
  by code_simp

lemma WorkspaceWrite_compiled:
  "WorkspaceWrite = Some \<lparr>po_fallback = DecisionDeny, po_rules =
     [compiled ''filesystem/read/**'' [''filesystem'', ''read'', ''**''] 14 0 DecisionAllow,
      compiled ''filesystem/list/**'' [''filesystem'', ''list'', ''**''] 14 1 DecisionAllow,
      compiled ''filesystem/stat/**'' [''filesystem'', ''stat'', ''**''] 14 2 DecisionAllow,
      compiled ''filesystem/write/**'' [''filesystem'', ''write'', ''**''] 15 3 DecisionAllow,
      compiled ''filesystem/mkdir/**'' [''filesystem'', ''mkdir'', ''**''] 15 4 DecisionAllow,
      compiled ''filesystem/remove/**'' [''filesystem'', ''remove'', ''**''] 16 5 DecisionAllow,
      compiled ''artifact/read/**'' [''artifact'', ''read'', ''**''] 12 6 DecisionAllow,
      compiled ''shell/**'' [''shell'', ''**''] 5 7 DecisionAsk,
      compiled ''network/**'' [''network'', ''**''] 7 8 DecisionAsk]\<rparr>"
  by code_simp

lemma compiled_sel [simp]:
  "cr_segments (compiled p ss w i d) = ss" "cr_specificity (compiled p ss w i d) = w"
  "cr_index (compiled p ss w i d) = i" "ru_decision (cr_rule (compiled p ss w i d)) = d"
  by (simp_all add: compiled_def)

text \<open>
  What the presets decide, for every capability, action and resource: \<^verbatim>\<open>ReadOnly\<close> allows reading,
  listing and stating files and reading artifacts and denies everything else; \<^verbatim>\<open>WorkspaceWrite\<close> also
  allows writing, creating and removing files, asks for every shell and network effect, and denies
  everything else.
\<close>

theorem presets_decide:
  "Evaluate ReadOnly request =
     (if pr_capability request = ''filesystem'' \<and> pr_action request \<in> {''read'', ''list'', ''stat''} \<or>
         pr_capability request = ''artifact'' \<and> pr_action request = ''read''
      then DecisionAllow else DecisionDeny) \<and>
   Evaluate WorkspaceWrite request =
     (if pr_capability request = ''filesystem'' \<and>
         pr_action request \<in> {''read'', ''list'', ''stat'', ''write'', ''mkdir'', ''remove''} \<or>
         pr_capability request = ''artifact'' \<and> pr_action request = ''read''
      then DecisionAllow
      else if pr_capability request \<in> {''shell'', ''network''} then DecisionAsk
      else DecisionDeny)"
proof -
  obtain rest where seg: "requestSegments request = pr_capability request # pr_action request # rest"
    using requestSegments_head by blast
  let ?c = "pr_capability request" and ?a = "pr_action request"
  note defs = ReadOnly_compiled WorkspaceWrite_compiled Evaluate_def seg
  consider "?c = ''filesystem''" | "?c = ''artifact''" | "?c = ''shell''" | "?c = ''network''"
    | "?c \<notin> {''filesystem'', ''artifact'', ''shell'', ''network''}" by blast
  then show ?thesis
  proof cases
    case 1
    consider "?a = ''read''" | "?a = ''list''" | "?a = ''stat''" | "?a = ''write''" | "?a = ''mkdir''"
      | "?a = ''remove''" | "?a \<notin> {''read'', ''list'', ''stat'', ''write'', ''mkdir'', ''remove''}" by blast
    then show ?thesis
      by cases (simp_all add: defs 1)
  next
    case 2
    then show ?thesis by (cases "?a = ''read''") (simp_all add: defs)
  qed (simp_all add: defs)
qed

subsection \<open>Concrete policies\<close>

definition example_rules :: "rule list" where
  "example_rules =
     [\<lparr>ru_pattern = ''shell/**'', ru_decision = DecisionAsk\<rparr>,
      \<lparr>ru_pattern = ''shell/run/**'', ru_decision = DecisionDeny\<rparr>]"

definition example_request :: permission_request where
  "example_request = \<lparr>pr_capability = ''shell'', pr_action = ''run'',
     pr_resource = \<lparr>re_scheme = ''tool'', re_id = ''ls'', re_display = ''ls''\<rparr>\<rparr>"

lemma Evaluate_most_specific_witness:
  "\<exists>p. policy_New DecisionAllow example_rules = Inr p \<and>
     Evaluate (Some p) example_request = DecisionDeny"
proof -
  obtain p where p: "policy_New DecisionAllow example_rules = Inr p"
  proof -
    have "is_ok (policy_New DecisionAllow example_rules)" by code_simp
    then show ?thesis using that by (auto simp: is_ok_def split: sum.splits)
  qed
  have heavy: "rule_weight (example_rules ! 0) < rule_weight (example_rules ! 1)"
    "rule_matches (example_rules ! 1) example_request" by code_simp+
  have "length example_rules = 2" by (simp add: example_rules_def)
  moreover from this have "\<forall>j < length example_rules. rule_matches (example_rules ! j) example_request \<and> j \<noteq> 1 \<longrightarrow>
      rule_weight (example_rules ! j) < rule_weight (example_rules ! 1) \<or>
      rule_weight (example_rules ! j) = rule_weight (example_rules ! 1) \<and> j < 1"
    using heavy(1) by (metis One_nat_def less_2_cases)
  ultimately have "Evaluate (Some p) example_request = ru_decision (example_rules ! 1)"
    using Evaluate_most_specific [OF p, of example_request] heavy(2) by (metis one_less_numeral_iff semiring_norm(76))
  then show ?thesis using p by (simp add: example_rules_def)
qed

lemma compiled_patterns_valid_witness:
  "\<exists>p. policy_New DecisionDeny example_rules = Inr p \<and>
     (\<forall>c \<in> set (po_rules p). \<forall>s \<in> set (cr_segments c). s = double_star \<or> path_Match s ''x'' \<noteq> None)"
proof -
  have "is_ok (policy_New DecisionDeny example_rules)" by code_simp
  then obtain p where p: "policy_New DecisionDeny example_rules = Inr p"
    by (auto simp: is_ok_def split: sum.splits)
  then show ?thesis using compiled_patterns_valid [OF p] by blast
qed

end
