(* ===== verification/Permission_Gate.thy ===== *)
theory Permission_Gate
  imports Tool_Gate Permission_Policy
begin

text \<open>
  The gates of the harness: the chain of gate middleware (\<^verbatim>\<open>composedGate\<close> and \<^verbatim>\<open>validateNarrowing\<close> of
  harness/capability/capability.go) and the permission middleware (harness/permission/capability.go).
  The chain interprets the locale \<open>tool_gate\<close> for every list of middleware, so whatever the
  middleware do, the driver accepts the chain's decision.

  Parameters: what an effect resolver answers for a call, whether the context carries a harness tool
  runtime, and the JSON encoding of the deferral.  The defensive copies (\<^verbatim>\<open>cloneCalls\<close>,
  \<^verbatim>\<open>cloneDecision\<close>) return equal values and are identities here.
\<close>

subsection \<open>The chain of middleware\<close>

type_synonym middleware = "tool_use list \<Rightarrow> tool_batch_decision \<Rightarrow> tool_batch_decision result"

definition allowAll :: "nat \<Rightarrow> tool_batch_decision" where
  "allowAll count =
     \<lparr>bd_calls = replicate count \<lparr>di_kind = ToolDispositionExecute, di_result = None, di_continue = False\<rparr>,
      bd_deferral = None\<rparr>"

definition narrow_call ::
  "tool_use \<Rightarrow> tool_disposition \<Rightarrow> tool_disposition \<Rightarrow> go_error option" where
  "narrow_call call previous candidate =
     (if di_kind previous \<noteq> ToolDispositionExecute \<and> previous \<noteq> candidate then
        Some (wrap_kind ErrGateBroadened (''call '' @ tu_id call))
      else (case di_kind candidate of
              ToolDispositionExecute \<Rightarrow>
                if di_result candidate \<noteq> None then
                  Some (Plain (''gate middleware supplied a result for executable call '' @ tu_id call))
                else None
            | ToolDispositionReturn \<Rightarrow>
                (case di_result candidate of
                   None \<Rightarrow> Some (Plain (''gate middleware returned an invalid result for call '' @ tu_id call))
                 | Some r \<Rightarrow>
                     if er_tool_use_id r \<noteq> tu_id call \<or> er_tool_name r \<noteq> tu_name call then
                       Some (Plain (''gate middleware returned an invalid result for call '' @ tu_id call))
                     else None)
            | ToolDispositionSuspend \<Rightarrow>
                if di_result candidate \<noteq> None \<or> di_continue candidate then
                  Some (Plain (''gate middleware returned an invalid suspension for call '' @ tu_id call))
                else None
            | _ \<Rightarrow> Some (Plain (''gate middleware returned an invalid disposition for call '' @ tu_id call))))"

fun narrow_calls ::
  "bool \<Rightarrow> (tool_use \<times> tool_disposition \<times> tool_disposition) list \<Rightarrow> bool result" where
  "narrow_calls hasSuspend [] = Inr hasSuspend"
| "narrow_calls hasSuspend ((call, previous, candidate) # rest) =
     (case narrow_call call previous candidate of
        Some e \<Rightarrow> Inl e
      | None \<Rightarrow> narrow_calls (hasSuspend \<or> di_kind candidate = ToolDispositionSuspend) rest)"

definition validateNarrowing ::
  "tool_use list \<Rightarrow> tool_batch_decision \<Rightarrow> tool_batch_decision \<Rightarrow> go_error option" where
  "validateNarrowing calls current next =
     (if length (bd_calls next) \<noteq> length calls then
        Some (Plain (''gate middleware returned '' @ show_nat (length (bd_calls next)) @
          '' dispositions for '' @ show_nat (length calls) @ '' calls''))
      else (case narrow_calls False (zip calls (zip (bd_calls current) (bd_calls next))) of
              Inl e \<Rightarrow> Some e
            | Inr True \<Rightarrow>
                (case bd_deferral next of
                   Some d \<Rightarrow> if td_kind d = ''''
                     then Some (Plain ''gate middleware suspension requires a deferral'') else None
                 | None \<Rightarrow> Some (Plain ''gate middleware suspension requires a deferral''))
            | Inr False \<Rightarrow>
                if bd_deferral next \<noteq> None
                then Some (Plain ''gate middleware returned a deferral without suspension'') else None))"

fun run_middleware ::
  "middleware list \<Rightarrow> tool_use list \<Rightarrow> tool_batch_decision \<Rightarrow> tool_batch_decision result" where
  "run_middleware [] calls current = Inr current"
| "run_middleware (m # ms) calls current =
     (case m calls current of
        Inl e \<Rightarrow> Inl e
      | Inr next \<Rightarrow>
          (case validateNarrowing calls current next of
             Some e \<Rightarrow> Inl e
           | None \<Rightarrow> if bd_deferral next \<noteq> None then Inr next else run_middleware ms calls next))"

definition composedGate :: "middleware list \<Rightarrow> tool_use list \<Rightarrow> tool_batch_decision result" where
  "composedGate ms calls = run_middleware ms calls (allowAll (length calls))"

subsection \<open>The permission middleware\<close>

record effect_value =
  ef_capability :: string
  ef_action :: string
  ef_resource :: canonical_resource

record deferred_request =
  dr_call_id :: string
  dr_request :: permission_request

text \<open>\<^verbatim>\<open>DeferredBatch\<close> (harness/runtime/resume.go), embedded in the permission payload.\<close>

record deferred_batch =
  db_version :: int
  db_required :: "string list"
  db_pre_allowed :: "string list"

record deferral_payload = deferred_batch +
  dp_requests :: "deferred_request list"

record gate =
  pg_policy :: "policy option"
  pg_resolver :: "tool_use \<Rightarrow> effect_value result option"  \<comment> \<open>None: no resolver is registered\<close>
  pg_runtime :: bool
  pg_encode :: "deferral_payload \<Rightarrow> string result"

definition PermissionDeferralKind :: string where
  "PermissionDeferralKind = ''harness.permission.v1''"

definition capabilityResource :: "string \<Rightarrow> string \<Rightarrow> canonical_resource" where
  "capabilityResource scheme i = \<lparr>re_scheme = scheme, re_id = i, re_display = i\<rparr>"

definition zero_request :: permission_request where
  "zero_request = \<lparr>pr_capability = '''', pr_action = '''', pr_resource = capabilityResource '''' ''''\<rparr>"

definition gate_resolve :: "gate \<Rightarrow> tool_use \<Rightarrow> permission_request result" where
  "gate_resolve g call =
     (case pg_resolver g call of
        None \<Rightarrow> Inr \<lparr>pr_capability = ''tool'', pr_action = tu_name call,
                     pr_resource = capabilityResource ''tool'' (tu_name call)\<rparr>
      | Some (Inl e) \<Rightarrow> Inl e
      | Some (Inr effect) \<Rightarrow>
          if ef_capability effect = '''' \<or> ef_action effect = '''' \<or> \<not> resource_Valid (ef_resource effect) then
            Inl (Plain ''effect resolver returned an incomplete canonical effect'')
          else Inr \<lparr>pr_capability = ef_capability effect, pr_action = ef_action effect,
                    pr_resource = ef_resource effect\<rparr>)"

record evaluated =
  va_index :: nat
  va_call :: tool_use
  va_request :: permission_request
  va_decision :: decision
  va_err :: "go_error option"

definition evaluate_call :: "gate \<Rightarrow> nat \<Rightarrow> tool_use \<Rightarrow> evaluated" where
  "evaluate_call g i call =
     (case gate_resolve g call of
        Inl e \<Rightarrow> \<lparr>va_index = i, va_call = call, va_request = zero_request,
                 va_decision = DecisionDeny, va_err = Some e\<rparr>
      | Inr request \<Rightarrow> \<lparr>va_index = i, va_call = call, va_request = request,
                 va_decision = Evaluate (pg_policy g) request, va_err = None\<rparr>)"

text \<open>The calls earlier middleware left executable, with what the policy says of each.\<close>

definition evaluate_calls :: "gate \<Rightarrow> tool_use list \<Rightarrow> tool_batch_decision \<Rightarrow> evaluated list" where
  "evaluate_calls g calls current =
     map (\<lambda>i. evaluate_call g i (calls ! i))
       (filter (\<lambda>i. di_kind (bd_calls current ! i) = ToolDispositionExecute) [0..<length calls])"

definition denial_message :: "evaluated \<Rightarrow> string" where
  "denial_message v =
     (if va_decision v \<noteq> DecisionDeny then
        ''Tool call skipped because another call in the atomic batch was denied.''
      else (case va_err v of
              None \<Rightarrow> ''Tool call denied by permission policy.''
            | Some e \<Rightarrow> ''Tool call denied because its canonical effect could not be resolved: '' @ err_text e))"

definition denied_disposition :: "evaluated \<Rightarrow> tool_disposition" where
  "denied_disposition v =
     \<lparr>di_kind = ToolDispositionReturn,
      di_result = Some \<lparr>er_tool_use_id = tu_id (va_call v), er_tool_name = tu_name (va_call v),
        er_content = CText (denial_message v), er_is_error = True,
        er_error = Some (Plain (denial_message v))\<rparr>,
      di_continue = True\<rparr>"

definition suspended_disposition :: tool_disposition where
  "suspended_disposition = \<lparr>di_kind = ToolDispositionSuspend, di_result = None, di_continue = False\<rparr>"

fun set_calls :: "(evaluated \<Rightarrow> tool_disposition) \<Rightarrow> evaluated list \<Rightarrow> tool_disposition list \<Rightarrow>
  tool_disposition list" where
  "set_calls f [] ds = ds"
| "set_calls f (v # vs) ds = set_calls f vs (ds[va_index v := f v])"

definition EvaluateBatch :: "gate \<Rightarrow> middleware" where
  "EvaluateBatch g calls current =
     (if \<not> pg_runtime g then Inl (Plain ''permission gate requires harness ToolRuntime'')
      else
        let values = evaluate_calls g calls current in
        if \<exists>v \<in> set values. va_decision v = DecisionDeny then
          Inr (current\<lparr>bd_calls := set_calls denied_disposition values (bd_calls current)\<rparr>)
        else if \<not> (\<exists>v \<in> set values. va_decision v = DecisionAsk) then Inr current
        else
          let asked = filter (\<lambda>v. va_decision v = DecisionAsk) values;
              others = filter (\<lambda>v. va_decision v \<noteq> DecisionAsk) values in
          (case pg_encode g
                 \<lparr>db_version = 1, db_required = map (tu_id \<circ> va_call) asked,
                  db_pre_allowed = map (tu_id \<circ> va_call) others,
                  dp_requests = map (\<lambda>v. \<lparr>dr_call_id = tu_id (va_call v), dr_request = va_request v\<rparr>) asked\<rparr> of
             Inl e \<Rightarrow> Inl (wrap_cause ''encode permission deferral'' e)
           | Inr payload \<Rightarrow>
               Inr (current\<lparr>bd_calls := set_calls (\<lambda>_. suspended_disposition) values (bd_calls current),
                            bd_deferral := Some \<lparr>td_kind = PermissionDeferralKind, td_payload = payload\<rparr>\<rparr>)))"

subsection \<open>What narrowing checks\<close>

definition narrows :: "tool_disposition \<Rightarrow> tool_disposition \<Rightarrow> bool" where
  "narrows previous candidate \<longleftrightarrow>
     di_kind previous \<noteq> ToolDispositionExecute \<longrightarrow> candidate = previous"

lemma narrow_call_None:
  "narrow_call call previous candidate = None \<longleftrightarrow> narrows previous candidate \<and> coherent call candidate"
  by (auto simp: narrow_call_def narrows_def coherent_def result_for_def
      split: disposition_kind.splits option.splits)

lemma narrow_calls_Inr:
  "narrow_calls s xs = Inr b \<longleftrightarrow>
     (\<forall>(call, previous, candidate) \<in> set xs. narrows previous candidate \<and> coherent call candidate) \<and>
     b = (s \<or> (\<exists>(call, previous, candidate) \<in> set xs. di_kind candidate = ToolDispositionSuspend))"
proof (induction s xs rule: narrow_calls.induct)
  case (2 s call previous candidate rest)
  then show ?case
    by (cases "narrow_call call previous candidate") (auto simp: narrow_call_None [symmetric])
qed auto

lemma in_set_zip3:
  assumes "length xs = length ys" "length ys = length zs"
  shows "(x, y, z) \<in> set (zip xs (zip ys zs)) \<longleftrightarrow> (\<exists>i < length xs. x = xs ! i \<and> y = ys ! i \<and> z = zs ! i)"
  using assms by (auto simp: in_set_zip)

lemma validateNarrowing_None:
  assumes "length (bd_calls current) = length calls"
  shows "validateNarrowing calls current next = None \<longleftrightarrow>
    decision_ok calls next \<and> list_all2 narrows (bd_calls current) (bd_calls next)"
proof (cases "length (bd_calls next) = length calls")
  case True
  let ?z = "zip calls (zip (bd_calls current) (bd_calls next))"
  have z: "(\<forall>(call, previous, candidate) \<in> set ?z. narrows previous candidate \<and> coherent call candidate) \<longleftrightarrow>
      list_all2 coherent calls (bd_calls next) \<and> list_all2 narrows (bd_calls current) (bd_calls next)"
    using assms True by (auto simp: list_all2_conv_all_nth Ball_def in_set_zip3)
  have s: "(\<exists>(call, previous, candidate) \<in> set ?z. di_kind candidate = ToolDispositionSuspend) \<longleftrightarrow>
      some_suspended next"
    using assms True by (force simp: some_suspended_def in_set_conv_nth)
  show ?thesis
  proof (cases "narrow_calls False ?z")
    case (Inl e)
    then have "\<not> (list_all2 coherent calls (bd_calls next) \<and> list_all2 narrows (bd_calls current) (bd_calls next))"
      using narrow_calls_Inr [of False ?z "some_suspended next"] z s by simp
    then show ?thesis using Inl True by (auto simp: validateNarrowing_def decision_ok_def)
  next
    case (Inr b)
    then show ?thesis using narrow_calls_Inr [of False ?z b] z s True
      by (auto simp: validateNarrowing_def decision_ok_def split: bool.splits option.splits)
  qed
next
  case False
  then show ?thesis by (auto simp: validateNarrowing_def decision_ok_def dest: list_all2_lengthD)
qed

subsection \<open>The chain is a gate\<close>

lemma decision_ok_length: "decision_ok calls d \<Longrightarrow> length (bd_calls d) = length calls"
  by (auto simp: decision_ok_def dest: list_all2_lengthD)

lemma allowAll_ok [simp]: "decision_ok calls (allowAll (length calls))"
  by (auto simp: decision_ok_def allowAll_def some_suspended_def coherent_def list_all2_conv_all_nth)

lemma run_middleware_ok:
  "run_middleware ms calls current = Inr d \<Longrightarrow> decision_ok calls current \<Longrightarrow> decision_ok calls d"
  by (induction ms calls current rule: run_middleware.induct)
    (auto split: sum.splits option.splits if_splits simp: validateNarrowing_None decision_ok_length)

interpretation chain: tool_gate "\<lambda>ms calls. composedGate ms calls" "\<lambda>_. True"
  by unfold_locales (auto simp: composedGate_def dest: run_middleware_ok)

text \<open>
  Whatever the middleware are, the decision the chain returns is one the driver accepts, with
  the right suspension flag.
\<close>

theorem composedGate_accepted:
  "composedGate ms calls = Inr d \<Longrightarrow> validateToolBatchDecision calls d = Inr (some_suspended d)"
  by (rule chain.accepted) simp_all

text \<open>A call the chain lets execute was left executable by every middleware.\<close>

lemma run_middleware_executes:
  "run_middleware ms calls current = Inr d \<Longrightarrow> bd_deferral d = None \<Longrightarrow> decision_ok calls current \<Longrightarrow>
     i < length calls \<Longrightarrow> di_kind (bd_calls d ! i) = ToolDispositionExecute \<Longrightarrow>
     di_kind (bd_calls current ! i) = ToolDispositionExecute \<and>
     (\<forall>m \<in> set ms. \<exists>c next. m calls c = Inr next \<and> decision_ok calls c \<and>
        di_kind (bd_calls c ! i) = ToolDispositionExecute \<and>
        di_kind (bd_calls next ! i) = ToolDispositionExecute)"
proof (induction ms calls current rule: run_middleware.induct)
  case (2 m ms calls current)
  obtain nxt where n: "m calls current = Inr nxt" "validateNarrowing calls current nxt = None"
    and r: "if bd_deferral nxt \<noteq> None then d = nxt else run_middleware ms calls nxt = Inr d"
    using "2.prems"(1) by (auto split: sum.splits option.splits if_splits)
  have def: "bd_deferral nxt = None" using r "2.prems"(2) by (auto split: if_splits)
  have ok: "decision_ok calls nxt" "list_all2 narrows (bd_calls current) (bd_calls nxt)"
    using n(2) "2.prems"(3) by (simp_all add: validateNarrowing_None decision_ok_length)
  have run: "run_middleware ms calls nxt = Inr d" using r def by simp
  have no: "\<not> bd_deferral nxt \<noteq> None" using def by simp
  note IH = "2.IH" [OF n(1,2) no run "2.prems"(2) ok(1) "2.prems"(4,5)]
  have "narrows (bd_calls current ! i) (bd_calls nxt ! i)"
    using ok(2) "2.prems"(3,4) by (simp add: list_all2_conv_all_nth decision_ok_length)
  then have "di_kind (bd_calls current ! i) = ToolDispositionExecute"
    using IH by (metis narrows_def)
  then show ?case using IH n(1) "2.prems"(3) by (auto intro: exI [of _ current])
qed simp

subsection \<open>What the permission middleware does\<close>

lemma set_calls_length [simp]: "length (set_calls f vs ds) = length ds"
  by (induction vs arbitrary: ds) auto

lemma set_calls_nth:
  "i < length ds \<Longrightarrow> (\<forall>v \<in> set vs. va_index v = i \<longrightarrow> v = w) \<Longrightarrow>
     set_calls f vs ds ! i = (if \<exists>v \<in> set vs. va_index v = i then f w else ds ! i)"
proof (induction vs arbitrary: ds)
  case (Cons v vs)
  then show ?case by (auto simp: nth_list_update)
qed simp

lemma va_evaluate_call [simp]:
  "va_index (evaluate_call g i call) = i" "va_call (evaluate_call g i call) = call"
  by (simp_all add: evaluate_call_def split: sum.split)

lemma in_evaluate_calls:
  "v \<in> set (evaluate_calls g calls current) \<longleftrightarrow>
     (\<exists>i < length calls. v = evaluate_call g i (calls ! i) \<and>
        di_kind (bd_calls current ! i) = ToolDispositionExecute)"
  by (auto simp: evaluate_calls_def)

lemma set_evaluated:
  assumes "i < length calls" "length (bd_calls current) = length calls"
  shows "set_calls f (evaluate_calls g calls current) (bd_calls current) ! i =
    (if di_kind (bd_calls current ! i) = ToolDispositionExecute
     then f (evaluate_call g i (calls ! i)) else bd_calls current ! i)"
proof -
  let ?vs = "evaluate_calls g calls current"
  have "\<forall>v \<in> set ?vs. va_index v = i \<longrightarrow> v = evaluate_call g i (calls ! i)"
    by (auto simp: in_evaluate_calls)
  moreover have "(\<exists>v \<in> set ?vs. va_index v = i) \<longleftrightarrow> di_kind (bd_calls current ! i) = ToolDispositionExecute"
    using assms(1) by (auto simp: in_evaluate_calls Bex_def)
  ultimately show ?thesis using assms set_calls_nth [of i "bd_calls current" ?vs _ f] by simp
qed

definition some_decided :: "decision \<Rightarrow> gate \<Rightarrow> tool_use list \<Rightarrow> tool_batch_decision \<Rightarrow> bool" where
  "some_decided x g calls current \<longleftrightarrow>
     (\<exists>i < length calls. di_kind (bd_calls current ! i) = ToolDispositionExecute \<and>
        va_decision (evaluate_call g i (calls ! i)) = x)"

lemma some_decided_iff:
  "(\<exists>v \<in> set (evaluate_calls g calls current). va_decision v = x) \<longleftrightarrow> some_decided x g calls current"
  unfolding some_decided_def in_evaluate_calls Bex_def by blast

text \<open>
  The permission gate is atomic over the batch.  If some call still executable is denied (or its
  effect cannot be resolved), every executable call becomes an error result that continues the run; if
  none is denied but some call asks, every executable call is suspended, under one permission
  deferral; otherwise the decision is unchanged.  Earlier dispositions are never touched, and the
  answer is one the chain accepts.
\<close>

theorem EvaluateBatch_atomic:
  assumes "EvaluateBatch g calls current = Inr d" "decision_ok calls current"
    "bd_deferral current = None"
  shows "validateNarrowing calls current d = None \<and>
    (\<forall>i < length calls. di_kind (bd_calls current ! i) \<noteq> ToolDispositionExecute \<longrightarrow>
       bd_calls d ! i = bd_calls current ! i) \<and>
    (some_decided DecisionDeny g calls current \<longrightarrow> bd_deferral d = None \<and>
       (\<forall>i < length calls. di_kind (bd_calls current ! i) = ToolDispositionExecute \<longrightarrow>
          (\<exists>r. bd_calls d ! i = \<lparr>di_kind = ToolDispositionReturn, di_result = Some r, di_continue = True\<rparr> \<and>
             result_for (calls ! i) r \<and> er_is_error r))) \<and>
    (\<not> some_decided DecisionDeny g calls current \<and> some_decided DecisionAsk g calls current \<longrightarrow>
       (\<exists>p. bd_deferral d = Some \<lparr>td_kind = PermissionDeferralKind, td_payload = p\<rparr>) \<and>
       (\<forall>i < length calls. di_kind (bd_calls current ! i) = ToolDispositionExecute \<longrightarrow>
          bd_calls d ! i = suspended_disposition)) \<and>
    (\<not> some_decided DecisionDeny g calls current \<and> \<not> some_decided DecisionAsk g calls current \<longrightarrow>
       d = current)"
proof -
  have len: "length (bd_calls current) = length calls" by (rule decision_ok_length [OF assms(2)])
  note nth = set_evaluated [OF _ len]
  have cur: "\<forall>i < length calls. coherent (calls ! i) (bd_calls current ! i)"
    using assms(2) by (simp add: decision_ok_def list_all2_conv_all_nth)
  have none: "\<not> some_suspended current" using assms(2,3) by (auto simp: decision_ok_def)
  then have unsuspended: "di_kind (bd_calls current ! i) \<noteq> ToolDispositionSuspend" if "i < length calls" for i
    using that len by (metis nth_mem some_suspended_def)
  consider (deny) "some_decided DecisionDeny g calls current"
      "d = current\<lparr>bd_calls := set_calls denied_disposition (evaluate_calls g calls current) (bd_calls current)\<rparr>"
    | (ask) p where "\<not> some_decided DecisionDeny g calls current" "some_decided DecisionAsk g calls current"
      "d = current\<lparr>bd_calls := set_calls (\<lambda>_. suspended_disposition) (evaluate_calls g calls current) (bd_calls current),
          bd_deferral := Some \<lparr>td_kind = PermissionDeferralKind, td_payload = p\<rparr>\<rparr>"
    | (allow) "\<not> some_decided DecisionDeny g calls current" "\<not> some_decided DecisionAsk g calls current"
      "d = current"
    using assms(1) unfolding EvaluateBatch_def some_decided_iff Let_def by (auto split: if_splits sum.splits)
  then show ?thesis
  proof cases
    case deny
    have denied: "\<exists>r. denied_disposition (evaluate_call g i (calls ! i)) =
        \<lparr>di_kind = ToolDispositionReturn, di_result = Some r, di_continue = True\<rparr> \<and>
        result_for (calls ! i) r \<and> er_is_error r" for i
      by (simp add: denied_disposition_def result_for_def)
    have each: "i < length calls \<Longrightarrow> coherent (calls ! i) (bd_calls d ! i) \<and>
        narrows (bd_calls current ! i) (bd_calls d ! i) \<and> di_kind (bd_calls d ! i) \<noteq> ToolDispositionSuspend" for i
      using cur deny(2) unsuspended denied [of i] by (auto simp: nth narrows_def coherent_def)
    then have "\<not> some_suspended d" using deny(2) len by (auto simp: some_suspended_def in_set_conv_nth)
    then have "validateNarrowing calls current d = None"
      using each deny(2) len assms(3)
      by (simp add: validateNarrowing_None decision_ok_def list_all2_conv_all_nth)
    then show ?thesis using deny denied assms(3) by (simp add: nth)
  next
    case ask
    have each: "i < length calls \<Longrightarrow> coherent (calls ! i) (bd_calls d ! i) \<and>
        narrows (bd_calls current ! i) (bd_calls d ! i)" for i
      using cur ask(3) by (auto simp: nth narrows_def coherent_def suspended_disposition_def)
    obtain i where "i < length calls" "di_kind (bd_calls current ! i) = ToolDispositionExecute"
      using ask(2) by (auto simp: some_decided_def)
    then have "di_kind (bd_calls d ! i) = ToolDispositionSuspend" "i < length (bd_calls d)"
      using ask(3) len by (simp_all add: nth suspended_disposition_def)
    then have "some_suspended d" unfolding some_suspended_def by (meson nth_mem)
    then have "validateNarrowing calls current d = None"
      using each ask(3) len
      by (simp add: validateNarrowing_None decision_ok_def list_all2_conv_all_nth PermissionDeferralKind_def)
    then show ?thesis using ask by (simp add: nth)
  next
    case allow
    have "validateNarrowing calls current d = None"
      using allow(3) assms(2) len
      by (simp add: validateNarrowing_None list_all2_conv_all_nth narrows_def)
    then show ?thesis using allow by simp
  qed
qed

text \<open>The decision of a compiled policy is one of the three valid ones.\<close>

lemma pick_rule_valid:
  "(\<forall>r \<in> set rs. valid_decision (ru_decision (cr_rule r))) \<Longrightarrow> valid_decision d \<Longrightarrow>
     valid_decision (pick_rule segments rs d s i)"
  by (induction rs arbitrary: d s i) auto

lemma Evaluate_valid:
  assumes "case pg_policy g of None \<Rightarrow> True | Some p \<Rightarrow> \<exists>fallback rules. policy_New fallback rules = Inr p"
  shows "valid_decision (Evaluate (pg_policy g) request)"
proof (cases "pg_policy g")
  case None
  then show ?thesis by (simp add: Evaluate_def valid_decision_def)
next
  case (Some p)
  then obtain fallback rules cs where c: "compile_rules 0 rules = Inr cs" "valid_decision fallback"
    "p = \<lparr>po_fallback = fallback, po_rules = cs\<rparr>"
    using assms by (auto simp: policy_New_def split: if_splits sum.splits)
  have "\<forall>r \<in> set cs. valid_decision (ru_decision (cr_rule r))"
    using compile_rules_Inr [OF c(1)] by (metis in_set_conv_nth)
  then show ?thesis using c Some by (simp add: Evaluate_def pick_rule_valid)
qed

lemma EvaluateBatch_executes:
  assumes "EvaluateBatch g calls current = Inr d" "decision_ok calls current" "i < length calls"
    "di_kind (bd_calls current ! i) = ToolDispositionExecute"
    "di_kind (bd_calls d ! i) = ToolDispositionExecute"
  shows "va_decision (evaluate_call g i (calls ! i)) \<notin> {DecisionDeny, DecisionAsk}"
proof -
  note nth = set_evaluated [OF assms(3) decision_ok_length [OF assms(2)]]
  have "\<not> some_decided DecisionDeny g calls current" "\<not> some_decided DecisionAsk g calls current"
    using assms(1,4,5) unfolding EvaluateBatch_def some_decided_iff Let_def
    by (auto split: if_splits sum.splits simp: nth denied_disposition_def suspended_disposition_def)
  then show ?thesis using assms(3,4) by (auto simp: some_decided_def)
qed

text \<open>
  C8. Nothing executes without the policy's consent: in a decision of a chain that contains the
  permission gate, and that suspends nothing, every call left executable has a canonical effect the
  compiled policy allows.  (A middleware before the gate that suspends one call ends the chain, and the
  policy never sees the others; but a batch with a suspended call executes none of its calls.)
\<close>

theorem composedGate_allowed:
  assumes "composedGate ms calls = Inr d" "EvaluateBatch g \<in> set ms" "bd_deferral d = None"
    "i < length calls" "di_kind (bd_calls d ! i) = ToolDispositionExecute"
    "case pg_policy g of None \<Rightarrow> True | Some p \<Rightarrow> \<exists>fallback rules. policy_New fallback rules = Inr p"
  shows "\<exists>request. gate_resolve g (calls ! i) = Inr request \<and>
    Evaluate (pg_policy g) request = DecisionAllow"
proof -
  obtain c nxt where c: "EvaluateBatch g calls c = Inr nxt" "decision_ok calls c"
    "di_kind (bd_calls c ! i) = ToolDispositionExecute" "di_kind (bd_calls nxt ! i) = ToolDispositionExecute"
    using run_middleware_executes [OF _ assms(3) allowAll_ok assms(4,5)] assms(1,2)
    unfolding composedGate_def by blast
  have ok: "va_decision (evaluate_call g i (calls ! i)) \<notin> {DecisionDeny, DecisionAsk}"
    by (rule EvaluateBatch_executes [OF c(1,2) assms(4) c(3,4)])
  show ?thesis
  proof (cases "gate_resolve g (calls ! i)")
    case (Inr request)
    then show ?thesis
      using ok Evaluate_valid [OF assms(6), of request] by (auto simp: evaluate_call_def valid_decision_def)
  qed (use ok in \<open>simp add: evaluate_call_def\<close>)
qed

subsection \<open>A policy that was not compiled\<close>

text \<open>
  The zero value of the Go type, \<^verbatim>\<open>Policy{}\<close>, has the invalid decision as its fallback; the gate takes
  everything that is neither denied nor asked as allowed, so a gate over it lets every call execute.
\<close>

definition zero_policy :: policy where
  "zero_policy = \<lparr>po_fallback = DecisionInvalid, po_rules = []\<rparr>"

lemma zero_policy_allows:
  assumes "pg_policy g = Some zero_policy" "pg_runtime g" "\<And>call. \<exists>r. gate_resolve g call = Inr r"
  shows "EvaluateBatch g calls current = Inr current"
proof -
  have "va_decision (evaluate_call g i call) = DecisionInvalid" for i call
    using assms(1) assms(3) [of call]
    by (auto simp: evaluate_call_def Evaluate_def zero_policy_def)
  then have "\<not> some_decided DecisionDeny g calls current" "\<not> some_decided DecisionAsk g calls current"
    by (auto simp: some_decided_def)
  then show ?thesis using assms(2) unfolding EvaluateBatch_def some_decided_iff Let_def by simp
qed

subsection \<open>A concrete gate\<close>

definition example_gate :: gate where
  "example_gate = \<lparr>pg_policy = WorkspaceWrite,
     pg_resolver = (\<lambda>call. if tu_name call = ''read_file''
       then Some (Inr \<lparr>ef_capability = ''filesystem'', ef_action = ''read'',
                       ef_resource = capabilityResource ''file'' ''a.txt''\<rparr>) else None),
     pg_runtime = True, pg_encode = (\<lambda>_. Inr ''{}'')\<rparr>"

definition plain_call :: "string \<Rightarrow> string \<Rightarrow> tool_use" where
  "plain_call i n = \<lparr>tu_id = i, tu_name = n, tu_input = JNull\<rparr>"

lemma example_gate_chain:
  "composedGate [EvaluateBatch example_gate] [plain_call ''a'' ''read_file''] = Inr (allowAll 1)"
  by code_simp

lemma composedGate_accepted_witness:
  "validateToolBatchDecision [plain_call ''a'' ''read_file''] (allowAll 1) = Inr (some_suspended (allowAll 1))"
  by (rule composedGate_accepted [OF example_gate_chain])

lemma EvaluateBatch_atomic_witness:
  "\<exists>d. EvaluateBatch example_gate [plain_call ''a'' ''read_file'', plain_call ''b'' ''other''] (allowAll 2) = Inr d \<and>
     (\<exists>r. bd_calls d ! 0 = \<lparr>di_kind = ToolDispositionReturn, di_result = Some r, di_continue = True\<rparr>)"
proof -
  let ?calls = "[plain_call ''a'' ''read_file'', plain_call ''b'' ''other'']"
  have "is_ok (EvaluateBatch example_gate ?calls (allowAll 2))" by code_simp
  then obtain d where d: "EvaluateBatch example_gate ?calls (allowAll 2) = Inr d"
    by (auto simp: is_ok_def split: sum.splits)
  have ok: "decision_ok ?calls (allowAll 2)"
    using allowAll_ok [of ?calls] by (simp add: numeral_2_eq_2)
  have "va_decision (evaluate_call example_gate 1 (?calls ! 1)) = DecisionDeny" by code_simp
  then have "some_decided DecisionDeny example_gate ?calls (allowAll 2)"
    by (auto simp: some_decided_def allowAll_def intro: exI [of _ 1])
  moreover have "bd_deferral (allowAll 2) = None" "0 < length ?calls"
    "di_kind (bd_calls (allowAll 2) ! 0) = ToolDispositionExecute" by (simp_all add: allowAll_def)
  ultimately have "\<exists>r. bd_calls d ! 0 = \<lparr>di_kind = ToolDispositionReturn, di_result = Some r, di_continue = True\<rparr>"
    using EvaluateBatch_atomic [OF d ok] by blast
  then show ?thesis using d by blast
qed

lemma composedGate_allowed_witness:
  "\<exists>request. gate_resolve example_gate (plain_call ''a'' ''read_file'') = Inr request \<and>
     Evaluate (pg_policy example_gate) request = DecisionAllow"
proof -
  have "\<exists>fallback rules. policy_New fallback rules = Inr p" if "pg_policy example_gate = Some p" for p
    using that by (auto simp: example_gate_def WorkspaceWrite_def must_policy_def split: sum.splits)
  then have "case pg_policy example_gate of None \<Rightarrow> True
      | Some p \<Rightarrow> \<exists>fallback rules. policy_New fallback rules = Inr p" by (simp split: option.split)
  from composedGate_allowed [OF example_gate_chain _ _ _ _ this, of 0]
  show ?thesis by (simp add: allowAll_def)
qed

end
