(* ===== verification/Resume_Planner.thy ===== *)
theory Resume_Planner
  imports Execution_Resume Permission_Gate
begin

text \<open>
  The stateless resume planner of the harness (harness/runtime/resume.go) and the operator's view of
  a permission suspension (\<^verbatim>\<open>InspectSuspension\<close> of harness/permission/capability.go): they turn a
  durable suspension and an operator's resolutions into the decisions \<^verbatim>\<open>Resume\<close> of the root driver
  takes.

  Parameters: the JSON decoding of the root payload, of the deferred batch and of the permission
  payload.  The defensive copies of the requests return equal values and are identities here.
\<close>

datatype resolution_action =
  ResolutionInvalid | ResolutionApprove | ResolutionDeny | ResolutionExternalResult | ResolutionOther nat

record tool_resolution =
  tn_call_id :: string
  tn_action :: resolution_action
  tn_override_args :: "json option"
  tn_result :: content_value
  tn_reason :: string

record resume_request =
  rq_suspension_id :: string
  rq_resolutions :: "tool_resolution list"
  rq_prompt :: "message option"

record root_payload =
  ro_version :: int
  ro_suspension_id :: string
  ro_handler_suspension :: bool
  ro_calls :: "tool_use list"
  ro_executable_call_ids :: "string list"
  ro_deferral :: tool_deferral

record tool_suspension_frontier =
  fr_handler_suspension :: bool
  fr_calls :: "tool_use list"
  fr_executable_call_ids :: "string list"
  fr_deferral :: tool_deferral

record deferred_frontier =
  df_calls :: "tool_use list"
  df_executable_call_ids :: "string list"
  df_required :: "string list"
  df_pre_allowed :: "string list"

text \<open>The JSON decoders.\<close>

record decoders =
  de_root :: "string \<Rightarrow> root_payload result"
  de_batch :: "string \<Rightarrow> deferred_batch result"
  de_permission :: "string \<Rightarrow> deferral_payload result"

definition invalid_request :: "string \<Rightarrow> go_error" where
  "invalid_request s = wrap_kind ErrInvalidResumeRequest s"

definition DeferredBatchVersion :: int where
  "DeferredBatchVersion = 1"

subsection \<open>The root envelope\<close>

fun check_root_calls :: "string list \<Rightarrow> tool_use list \<Rightarrow> go_error option" where
  "check_root_calls known [] = None"
| "check_root_calls known (call # calls) =
     (if tu_id call = '''' \<or> tu_name call = '''' \<or> mem_str (tu_id call) known then
        Some (invalid_request (''duplicate root call '' @ quote (tu_id call)))
      else check_root_calls (tu_id call # known) calls)"

text \<open>The loops over IDs: each must be allowed and not seen before.\<close>

fun check_ids :: "string \<Rightarrow> (string \<Rightarrow> bool) \<Rightarrow> string list \<Rightarrow> string list \<Rightarrow> go_error option" where
  "check_ids what allowed seen [] = None"
| "check_ids what allowed seen (i # ids) =
     (if \<not> allowed i \<or> mem_str i seen then Some (invalid_request (what @ '' '' @ quote i))
      else check_ids what allowed (i # seen) ids)"

definition InspectToolSuspension ::
  "decoders \<Rightarrow> suspension \<Rightarrow> string \<Rightarrow> tool_suspension_frontier result" where
  "InspectToolSuspension de s expectedKind =
     (if sp_id s = '''' \<or> expectedKind = '''' \<or> sp_kind s \<noteq> expectedKind then
        Inl (wrap_kind ErrUnsupportedDeferral (sp_kind s))
      else (case de_root de (sp_payload s) of
              Inl e \<Rightarrow> Inl (invalid_request (''decode root suspension: '' @ err_text e))
            | Inr envelope \<Rightarrow>
                if ro_version envelope \<noteq> 1 \<or> ro_suspension_id envelope \<noteq> sp_id s \<or>
                   td_kind (ro_deferral envelope) \<noteq> expectedKind \<or> ro_calls envelope = [] \<or>
                   ro_executable_call_ids envelope = [] then
                  Inl (invalid_request ''malformed root suspension'')
                else (case check_root_calls [] (ro_calls envelope) of
                        Some e \<Rightarrow> Inl e
                      | None \<Rightarrow>
                          (case check_ids ''invalid executable call''
                                  (\<lambda>i. mem_str i (map tu_id (ro_calls envelope))) []
                                  (ro_executable_call_ids envelope) of
                             Some e \<Rightarrow> Inl e
                           | None \<Rightarrow> Inr \<lparr>fr_handler_suspension = ro_handler_suspension envelope,
                               fr_calls = ro_calls envelope,
                               fr_executable_call_ids = ro_executable_call_ids envelope,
                               fr_deferral = ro_deferral envelope\<rparr>))))"

subsection \<open>The deferred batch\<close>

text \<open>\<^verbatim>\<open>for id := range executable\<close>: an unclassified call; which one the message names depends on Go's
  map order, here it is the first in call order.\<close>

definition unclassified :: "string list \<Rightarrow> string list \<Rightarrow> string list \<Rightarrow> go_error option" where
  "unclassified executable required pre_allowed =
     (case filter (\<lambda>i. \<not> mem_str i required \<and> \<not> mem_str i pre_allowed) executable of
        [] \<Rightarrow> None
      | i # _ \<Rightarrow> Some (invalid_request (''executable call '' @ quote i @ '' has no policy disposition'')))"

definition InspectDeferred :: "decoders \<Rightarrow> suspension \<Rightarrow> deferred_frontier result" where
  "InspectDeferred de s =
     (case InspectToolSuspension de s PermissionDeferralKind of
        Inl e \<Rightarrow> Inl e
      | Inr envelope \<Rightarrow>
          (case de_batch de (td_payload (fr_deferral envelope)) of
             Inl e \<Rightarrow> Inl (invalid_request (''decode deferred batch: '' @ err_text e))
           | Inr batch \<Rightarrow>
               let executable = fr_executable_call_ids envelope; required = db_required batch;
                   pre_allowed = db_pre_allowed batch in
               if db_version batch \<noteq> DeferredBatchVersion \<or> required = [] then
                 Inl (invalid_request ''malformed deferred batch'')
               else (case check_ids ''duplicate executable call'' (\<lambda>i. i \<noteq> '''') [] executable of
                       Some e \<Rightarrow> Inl e
                     | None \<Rightarrow>
                   (case check_ids ''invalid required call'' (\<lambda>i. mem_str i executable) [] required of
                       Some e \<Rightarrow> Inl e
                     | None \<Rightarrow>
                   (case check_ids ''invalid pre-allowed call''
                           (\<lambda>i. mem_str i executable \<and> \<not> mem_str i required) [] pre_allowed of
                       Some e \<Rightarrow> Inl e
                     | None \<Rightarrow>
                   (case unclassified executable required pre_allowed of
                       Some e \<Rightarrow> Inl e
                     | None \<Rightarrow> Inr \<lparr>df_calls = fr_calls envelope, df_executable_call_ids = executable,
                         df_required = required, df_pre_allowed = pre_allowed\<rparr>))))))"

subsection \<open>The plan\<close>

fun index_resolutions ::
  "string list \<Rightarrow> (string \<rightharpoonup> tool_resolution) \<Rightarrow> tool_resolution list \<Rightarrow>
     (string \<rightharpoonup> tool_resolution) result" where
  "index_resolutions required m [] = Inr m"
| "index_resolutions required m (r # rs) =
     (if tn_call_id r = '''' \<or> \<not> mem_str (tn_call_id r) required then
        Inl (invalid_request (''unknown resolution '' @ quote (tn_call_id r)))
      else if m (tn_call_id r) \<noteq> None then
        Inl (invalid_request (''duplicate resolution '' @ quote (tn_call_id r)))
      else if tn_action r \<noteq> ResolutionApprove \<and> tn_action r \<noteq> ResolutionDeny \<and>
              tn_action r \<noteq> ResolutionExternalResult then
        Inl (invalid_request (''invalid action for '' @ quote (tn_call_id r)))
      else index_resolutions required (m(tn_call_id r \<mapsto> r)) rs)"

fun check_frontier_calls :: "string list \<Rightarrow> tool_use list \<Rightarrow> go_error option" where
  "check_frontier_calls seen [] = None"
| "check_frontier_calls seen (call # calls) =
     (if tu_id call = '''' \<or> mem_str (tu_id call) seen then
        Some (invalid_request (''duplicate frontier call '' @ quote (tu_id call)))
      else check_frontier_calls (tu_id call # seen) calls)"

definition denied_text :: "string \<Rightarrow> string" where
  "denied_text reason =
     ''Tool call denied: '' @ (if reason = '''' then ''denied by operator'' else reason)"

definition plan_call :: "tool_use \<Rightarrow> tool_resolution option \<Rightarrow> tool_resume_decision list" where
  "plan_call call resolution =
     (case resolution of
        None \<Rightarrow> [\<lparr>rd_call_id = tu_id call, rd_action = ToolResumeExecute, rd_input = None,
                  rd_result = None, rd_payload = ''''\<rparr>]
      | Some r \<Rightarrow>
          (case tn_action r of
             ResolutionApprove \<Rightarrow>
               [\<lparr>rd_call_id = tu_id call, rd_action = ToolResumeExecute, rd_input = tn_override_args r,
                 rd_result = None, rd_payload = ''''\<rparr>]
           | ResolutionDeny \<Rightarrow>
               [\<lparr>rd_call_id = tu_id call, rd_action = ToolResumeReturn, rd_input = None,
                 rd_result = Some \<lparr>er_tool_use_id = tu_id call, er_tool_name = tu_name call,
                   er_content = CText (denied_text (tn_reason r)), er_is_error = True,
                   er_error = Some (Plain (denied_text (tn_reason r)))\<rparr>,
                 rd_payload = ''''\<rparr>]
           | ResolutionExternalResult \<Rightarrow>
               [\<lparr>rd_call_id = tu_id call, rd_action = ToolResumeReturn, rd_input = None,
                 rd_result = Some \<lparr>er_tool_use_id = tu_id call, er_tool_name = tu_name call,
                   er_content = tn_result r, er_is_error = False, er_error = None\<rparr>,
                 rd_payload = ''''\<rparr>]
           | _ \<Rightarrow> []))"

fun plan_calls ::
  "(string \<rightharpoonup> tool_use) \<Rightarrow> (string \<rightharpoonup> tool_resolution) \<Rightarrow> string list \<Rightarrow>
     tool_resume_decision list result" where
  "plan_calls byID resolutions [] = Inr []"
| "plan_calls byID resolutions (i # ids) =
     (case byID i of
        None \<Rightarrow> Inl (invalid_request (''executable call '' @ quote i @ '' is absent''))
      | Some call \<Rightarrow>
          (case plan_calls byID resolutions ids of
             Inl e \<Rightarrow> Inl e
           | Inr ds \<Rightarrow> Inr (plan_call call (resolutions i) @ ds)))"

text \<open>\<^verbatim>\<open>PlanResume\<close>.  The maps of required IDs and of resolutions hold no duplicates once their loops have
  passed, so their sizes are those of the lists.\<close>

definition PlanResume ::
  "decoders \<Rightarrow> suspension \<Rightarrow> resume_request \<Rightarrow> tool_resume_decision list result" where
  "PlanResume de s request =
     (if rq_suspension_id request = '''' \<or> rq_suspension_id request \<noteq> sp_id s then
        Inl (invalid_request ''suspension ID differs'')
      else if (case rq_prompt request of None \<Rightarrow> False | Some m \<Rightarrow> m_role m \<noteq> RoleUser) then
        Inl (invalid_request ''resume prompt must be a user message'')
      else (case InspectDeferred de s of
              Inl e \<Rightarrow> Inl e
            | Inr frontier \<Rightarrow>
                (case index_resolutions (df_required frontier) Map.empty (rq_resolutions request) of
                   Inl e \<Rightarrow> Inl e
                 | Inr resolutions \<Rightarrow>
                     if length (rq_resolutions request) \<noteq> length (df_required frontier) then
                       Inl (invalid_request (''got '' @ show_nat (length (rq_resolutions request)) @
                         '' resolutions for '' @ show_nat (length (df_required frontier)) @ '' required calls''))
                     else (case check_frontier_calls [] (df_calls frontier) of
                             Some e \<Rightarrow> Inl e
                           | None \<Rightarrow> plan_calls (callsByID (df_calls frontier)) resolutions
                                      (df_executable_call_ids frontier)))))"

subsection \<open>The router\<close>

type_synonym planner = "suspension \<Rightarrow> resume_request \<Rightarrow> tool_resume_decision list result"

fun add_planners ::
  "(string \<rightharpoonup> planner) \<Rightarrow> (string \<times> planner option) list \<Rightarrow> (string \<rightharpoonup> planner) result" where
  "add_planners m [] = Inr m"
| "add_planners m ((kind, planner) # rest) =
     (if kind = '''' \<or> planner = None then
        Inl (Plain ''resume planner kind and implementation are required'')
      else if m kind \<noteq> None then Inl (wrap_kind ErrDuplicatePlanner kind)
      else add_planners (m(kind := planner)) rest)"

definition NewResumeRouter ::
  "decoders \<Rightarrow> (string \<times> planner option) list \<Rightarrow> (string \<rightharpoonup> planner) result" where
  "NewResumeRouter de additional = add_planners [PermissionDeferralKind \<mapsto> PlanResume de] additional"

definition router_PlanResume :: "(string \<rightharpoonup> planner) option \<Rightarrow> planner" where
  "router_PlanResume r s request =
     (case r of
        None \<Rightarrow> Inl (wrap_kind ErrUnsupportedDeferral (sp_kind s))
      | Some planners \<Rightarrow>
          (case planners (sp_kind s) of
             None \<Rightarrow> Inl (wrap_kind ErrUnsupportedDeferral (sp_kind s))
           | Some planner \<Rightarrow> planner s request))"

subsection \<open>The operator's view\<close>

record approval =
  ap_call_id :: string
  ap_tool_name :: string
  ap_request :: permission_request

fun index_approvals ::
  "string list \<Rightarrow> (string \<rightharpoonup> permission_request) \<Rightarrow> deferred_request list \<Rightarrow>
     (string \<rightharpoonup> permission_request) result" where
  "index_approvals required m [] = Inr m"
| "index_approvals required m (v # vs) =
     (if dr_call_id v = '''' \<or> \<not> mem_str (dr_call_id v) required then
        Inl (invalid_request (''unknown permission approval '' @ quote (dr_call_id v)))
      else if m (dr_call_id v) \<noteq> None then
        Inl (invalid_request (''duplicate permission approval '' @ quote (dr_call_id v)))
      else if pr_capability (dr_request v) = '''' \<or> pr_action (dr_request v) = '''' \<or>
              \<not> resource_Valid (pr_resource (dr_request v)) then
        Inl (invalid_request (''incomplete permission approval '' @ quote (dr_call_id v)))
      else index_approvals required (m(dr_call_id v \<mapsto> dr_request v)) vs)"

fun list_approvals ::
  "(string \<rightharpoonup> tool_use) \<Rightarrow> (string \<rightharpoonup> permission_request) \<Rightarrow> string list \<Rightarrow> approval list result" where
  "list_approvals byID requests [] = Inr []"
| "list_approvals byID requests (i # ids) =
     (case requests i of
        None \<Rightarrow> list_approvals byID requests ids
      | Some request \<Rightarrow>
          (case byID i of
             None \<Rightarrow> Inl (invalid_request (''permission call '' @ quote i @ '' is absent''))
           | Some call \<Rightarrow>
               if tu_name call = '''' then
                 Inl (invalid_request (''permission call '' @ quote i @ '' is absent''))
               else (case list_approvals byID requests ids of
                       Inl e \<Rightarrow> Inl e
                     | Inr as \<Rightarrow> Inr (\<lparr>ap_call_id = i, ap_tool_name = tu_name call,
                                        ap_request = request\<rparr> # as))))"

definition InspectSuspension :: "decoders \<Rightarrow> suspension \<Rightarrow> approval list result" where
  "InspectSuspension de s =
     (case InspectToolSuspension de s PermissionDeferralKind of
        Inl e \<Rightarrow> Inl e
      | Inr envelope \<Rightarrow>
          (case InspectDeferred de s of
             Inl e \<Rightarrow> Inl e
           | Inr frontier \<Rightarrow>
               (case de_permission de (td_payload (fr_deferral envelope)) of
                  Inl e \<Rightarrow> Inl (invalid_request (''decode permission approvals: '' @ err_text e))
                | Inr payload \<Rightarrow>
                    (case index_approvals (df_required frontier) Map.empty (dp_requests payload) of
                       Inl e \<Rightarrow> Inl e
                     | Inr requests \<Rightarrow>
                         if length (dp_requests payload) \<noteq> length (df_required frontier) then
                           Inl (invalid_request (''got '' @ show_nat (length (dp_requests payload)) @
                             '' permission approvals for '' @ show_nat (length (df_required frontier)) @
                             '' required calls''))
                         else list_approvals (callsByID (df_calls frontier)) requests
                                (df_executable_call_ids frontier)))))"

subsection \<open>What the checks establish\<close>

lemma callsByID_mem: "callsByID us k = Some call \<Longrightarrow> call \<in> set us"
  by (induction us rule: rev_induct) (auto split: if_splits)

lemma check_ids_None:
  "check_ids what P seen ids = None \<longleftrightarrow>
     (\<forall>i \<in> set ids. P i) \<and> distinct ids \<and> set ids \<inter> set seen = {}"
  by (induction ids arbitrary: seen) auto

lemma check_frontier_calls_None:
  "check_frontier_calls seen calls = None \<longleftrightarrow>
     (\<forall>call \<in> set calls. tu_id call \<noteq> '''') \<and> distinct (map tu_id calls) \<and>
     set (map tu_id calls) \<inter> set seen = {}"
  by (induction calls arbitrary: seen) auto

lemma check_root_calls_None:
  "check_root_calls seen calls = None \<longleftrightarrow>
     (\<forall>call \<in> set calls. tu_id call \<noteq> '''' \<and> tu_name call \<noteq> '''') \<and> distinct (map tu_id calls) \<and>
     set (map tu_id calls) \<inter> set seen = {}"
  by (induction calls arbitrary: seen) auto

lemma unclassified_None:
  "unclassified executable required pre = None \<longleftrightarrow> set executable \<subseteq> set required \<union> set pre"
proof -
  have "unclassified executable required pre = None \<longleftrightarrow>
      filter (\<lambda>i. \<not> mem_str i required \<and> \<not> mem_str i pre) executable = []"
    by (simp add: unclassified_def split: list.split)
  then show ?thesis by (auto simp: filter_empty_not_in)
qed

text \<open>A frontier \<^verbatim>\<open>InspectDeferred\<close> returns.\<close>

definition frontier_ok :: "deferred_frontier \<Rightarrow> bool" where
  "frontier_ok f \<longleftrightarrow>
     distinct (df_executable_call_ids f) \<and> '''' \<notin> set (df_executable_call_ids f) \<and>
     set (df_executable_call_ids f) \<subseteq> set (map tu_id (df_calls f)) \<and>
     distinct (map tu_id (df_calls f)) \<and>
     distinct (df_required f) \<and> df_required f \<noteq> [] \<and> distinct (df_pre_allowed f) \<and>
     set (df_required f) \<inter> set (df_pre_allowed f) = {} \<and>
     set (df_required f) \<union> set (df_pre_allowed f) = set (df_executable_call_ids f)"

lemma InspectToolSuspension_Inr:
  assumes "InspectToolSuspension de s kind = Inr fr"
  obtains envelope where "de_root de (sp_payload s) = Inr envelope" "fr_calls fr = ro_calls envelope"
    "fr_executable_call_ids fr = ro_executable_call_ids envelope" "fr_deferral fr = ro_deferral envelope"
    "check_root_calls [] (ro_calls envelope) = None"
    "distinct (ro_executable_call_ids envelope)"
    "set (ro_executable_call_ids envelope) \<subseteq> set (map tu_id (ro_calls envelope))"
  using assms
  by (auto simp: InspectToolSuspension_def check_ids_None subset_iff split: if_splits sum.splits option.splits)

lemma InspectDeferred_frontier_ok:
  assumes "InspectDeferred de s = Inr f"
  shows "frontier_ok f"
proof -
  obtain fr batch where fr: "InspectToolSuspension de s PermissionDeferralKind = Inr fr"
    and batch: "de_batch de (td_payload (fr_deferral fr)) = Inr batch"
    using assms by (auto simp: InspectDeferred_def split: sum.splits)
  let ?e = "fr_executable_call_ids fr" and ?r = "db_required batch" and ?p = "db_pre_allowed batch"
  have f: "f = \<lparr>df_calls = fr_calls fr, df_executable_call_ids = ?e, df_required = ?r, df_pre_allowed = ?p\<rparr>"
    and ids: "check_ids ''duplicate executable call'' (\<lambda>i. i \<noteq> '''') [] ?e = None"
      "check_ids ''invalid required call'' (\<lambda>i. mem_str i ?e) [] ?r = None"
      "check_ids ''invalid pre-allowed call'' (\<lambda>i. mem_str i ?e \<and> \<not> mem_str i ?r) [] ?p = None"
      "unclassified ?e ?r ?p = None" "?r \<noteq> []"
    using assms fr batch by (auto simp: InspectDeferred_def Let_def split: if_splits option.splits)
  have "check_root_calls [] (fr_calls fr) = None \<and> set ?e \<subseteq> set (map tu_id (fr_calls fr))"
    by (rule InspectToolSuspension_Inr [OF fr]) simp
  then show ?thesis
    using ids unfolding check_ids_None unclassified_None check_root_calls_None
    by (auto simp: f frontier_ok_def)
qed

lemma index_resolutions_other:
  "index_resolutions required m rs = Inr m' \<Longrightarrow> k \<notin> set (map tn_call_id rs) \<Longrightarrow> m' k = m k"
  by (induction rs arbitrary: m) (auto split: if_splits)

lemma index_resolutions_Inr:
  "index_resolutions required m rs = Inr m' \<Longrightarrow>
     distinct (map tn_call_id rs) \<and> set (map tn_call_id rs) \<subseteq> set required \<and>
     (\<forall>r \<in> set rs. m (tn_call_id r) = None \<and> m' (tn_call_id r) = Some r \<and>
        tn_action r \<in> {ResolutionApprove, ResolutionDeny, ResolutionExternalResult})"
proof (induction rs arbitrary: m)
  case (Cons r rs)
  from Cons.prems have r: "tn_call_id r \<in> set required" "m (tn_call_id r) = None"
    "tn_action r \<in> {ResolutionApprove, ResolutionDeny, ResolutionExternalResult}"
    "index_resolutions required (m(tn_call_id r \<mapsto> r)) rs = Inr m'"
    by (auto split: if_splits)
  note IH = Cons.IH [OF r(4)]
  have new: "tn_call_id x \<noteq> tn_call_id r \<and> m (tn_call_id x) = None" if "x \<in> set rs" for x
  proof -
    have "(m(tn_call_id r \<mapsto> r)) (tn_call_id x) = None" using IH that by blast
    then show ?thesis by (simp split: if_splits)
  qed
  then have fresh: "tn_call_id r \<notin> set (map tn_call_id rs)" by fastforce
  then have "m' (tn_call_id r) = Some r" using index_resolutions_other [OF r(4)] by simp
  then show ?case using IH new r fresh by simp
qed simp

lemma resolutions_exact:
  assumes "index_resolutions required Map.empty rs = Inr m" "length rs = length required" "distinct required"
  shows "set (map tn_call_id rs) = set required \<and> (\<forall>k. m k \<noteq> None \<longleftrightarrow> k \<in> set required)"
proof -
  note I = index_resolutions_Inr [OF assms(1)]
  have "card (set (map tn_call_id rs)) = card (set required)"
    using I assms(2,3) by (simp only: distinct_card length_map)
  then have eq: "set (map tn_call_id rs) = set required"
    using I by (intro card_subset_eq) simp_all
  have some: "m k \<noteq> None" if "k \<in> set required" for k
  proof -
    have "k \<in> set (map tn_call_id rs)" using that eq by blast
    then obtain r where "r \<in> set rs" "k = tn_call_id r" by auto
    then have "m k = Some r" using I by blast
    then show ?thesis by simp
  qed
  have none: "m k = None" if "k \<notin> set required" for k
  proof -
    have "k \<notin> set (map tn_call_id rs)" using that eq by blast
    then show ?thesis using index_resolutions_other [OF assms(1)] by simp
  qed
  show ?thesis
  proof (intro conjI allI)
    show "m k \<noteq> None \<longleftrightarrow> k \<in> set required" for k
      using some [of k] none [of k] by (cases "k \<in> set required") simp_all
  qed (rule eq)
qed

text \<open>The decision each call gets.\<close>

definition planned :: "tool_use \<Rightarrow> tool_resolution option \<Rightarrow> tool_resume_decision \<Rightarrow> bool" where
  "planned call resolution d \<longleftrightarrow>
     rd_call_id d = tu_id call \<and> rd_payload d = '''' \<and>
     (case resolution of
        None \<Rightarrow> rd_action d = ToolResumeExecute \<and> rd_input d = None \<and> rd_result d = None
      | Some r \<Rightarrow>
          tn_action r = ResolutionApprove \<and> rd_action d = ToolResumeExecute \<and>
            rd_input d = tn_override_args r \<and> rd_result d = None \<or>
          tn_action r = ResolutionDeny \<and> rd_action d = ToolResumeReturn \<and> rd_input d = None \<and>
            (\<exists>x. rd_result d = Some x \<and> result_for call x \<and> er_is_error x) \<or>
          tn_action r = ResolutionExternalResult \<and> rd_action d = ToolResumeReturn \<and> rd_input d = None \<and>
            (\<exists>x. rd_result d = Some x \<and> result_for call x \<and> er_content x = tn_result r))"

lemma plan_call_planned:
  assumes "\<forall>r. resolution = Some r \<longrightarrow>
     tn_action r \<in> {ResolutionApprove, ResolutionDeny, ResolutionExternalResult}"
  shows "\<exists>d. plan_call call resolution = [d] \<and> planned call resolution d"
  using assms by (cases resolution) (auto simp: plan_call_def planned_def result_for_def)

lemma plan_calls_Inr:
  assumes "\<forall>k r. m k = Some r \<longrightarrow> tn_action r \<in> {ResolutionApprove, ResolutionDeny, ResolutionExternalResult}"
    "\<forall>k call. byID k = Some call \<longrightarrow> tu_id call = k"
  shows "plan_calls byID m ids = Inr ds \<Longrightarrow>
    list_all2 (\<lambda>i d. \<exists>call. byID i = Some call \<and> planned call (m i) d) ids ds"
proof (induction ids arbitrary: ds)
  case (Cons i ids)
  obtain call ds' where c: "byID i = Some call" "plan_calls byID m ids = Inr ds'"
    "ds = plan_call call (m i) @ ds'"
    using Cons.prems by (auto split: option.splits sum.splits)
  obtain d where "plan_call call (m i) = [d]" "planned call (m i) d"
    using plan_call_planned [of "m i" call] assms(1) by blast
  then show ?case using c Cons.IH [OF c(2)] by auto
qed simp

text \<open>
  C28. A plan is exactly what the operator decided: when \<^verbatim>\<open>PlanResume\<close> accepts a request, the resolutions
  name the required calls, each once; the decisions are those of the suspension's executable calls,
  each once and in order; a pre-allowed call executes unchanged; and a required call executes (with
  the operator's arguments) if approved, returns an error result for that call if denied, and returns
  the supplied content if it was resolved externally.
\<close>

theorem PlanResume_decides:
  assumes "PlanResume de s request = Inr ds"
  shows "\<exists>f. InspectDeferred de s = Inr f \<and> distinct (map tn_call_id (rq_resolutions request)) \<and>
    set (map tn_call_id (rq_resolutions request)) = set (df_required f) \<and>
    distinct (df_executable_call_ids f) \<and> map rd_call_id ds = df_executable_call_ids f \<and>
    (\<forall>d \<in> set ds. \<exists>call \<in> set (df_calls f).
       (rd_call_id d \<in> set (df_pre_allowed f) \<longrightarrow> planned call None d) \<and>
       (rd_call_id d \<in> set (df_required f) \<longrightarrow>
          (\<exists>r \<in> set (rq_resolutions request). tn_call_id r = rd_call_id d \<and> planned call (Some r) d)))"
proof -
  obtain f m where f: "InspectDeferred de s = Inr f"
    and m: "index_resolutions (df_required f) Map.empty (rq_resolutions request) = Inr m"
    and len: "length (rq_resolutions request) = length (df_required f)"
    and plan: "plan_calls (callsByID (df_calls f)) m (df_executable_call_ids f) = Inr ds"
    using assms by (auto simp: PlanResume_def split: if_splits sum.splits option.splits)
  note ok = InspectDeferred_frontier_ok [OF f] and I = index_resolutions_Inr [OF m]
  have exact: "set (map tn_call_id (rq_resolutions request)) = set (df_required f)"
    "\<And>k. m k \<noteq> None \<longleftrightarrow> k \<in> set (df_required f)"
    using resolutions_exact [OF m len] ok by (simp_all add: frontier_ok_def)
  have from_list: "r \<in> set (rq_resolutions request) \<and> tn_call_id r = k" if "m k = Some r" for k r
  proof -
    have "k \<in> set (map tn_call_id (rq_resolutions request))" using that exact by auto
    then obtain x where "x \<in> set (rq_resolutions request)" "k = tn_call_id x" by auto
    then show ?thesis using I that by force
  qed
  have actions: "\<forall>k r. m k = Some r \<longrightarrow>
      tn_action r \<in> {ResolutionApprove, ResolutionDeny, ResolutionExternalResult}"
    using from_list I by blast
  have keys: "\<forall>k call. callsByID (df_calls f) k = Some call \<longrightarrow> tu_id call = k"
    using callsByID_id by blast
  have all2: "list_all2 (\<lambda>i d. \<exists>call. callsByID (df_calls f) i = Some call \<and> planned call (m i) d)
      (df_executable_call_ids f) ds"
    by (rule plan_calls_Inr [OF actions keys plan])
  then have ids: "map rd_call_id ds = df_executable_call_ids f"
    using keys by (intro nth_equalityI) (auto simp: list_all2_conv_all_nth planned_def)
  have "\<exists>call \<in> set (df_calls f). (rd_call_id d \<in> set (df_pre_allowed f) \<longrightarrow> planned call None d) \<and>
      (rd_call_id d \<in> set (df_required f) \<longrightarrow>
         (\<exists>r \<in> set (rq_resolutions request). tn_call_id r = rd_call_id d \<and> planned call (Some r) d))"
    if "d \<in> set ds" for d
  proof -
    obtain i call where i: "callsByID (df_calls f) i = Some call" "planned call (m i) d"
    proof -
      obtain n where n: "n < length ds" "ds ! n = d" using \<open>d \<in> set ds\<close> by (metis in_set_conv_nth)
      show thesis using list_all2_nthD2 [OF all2 n(1)] n(2) that by blast
    qed
    then have id: "rd_call_id d = i" using callsByID_id by (simp add: planned_def)
    have "call \<in> set (df_calls f)" using i(1) by (rule callsByID_mem)
    moreover have "planned call None d" if "i \<in> set (df_pre_allowed f)"
    proof -
      have "i \<notin> set (df_required f)" using ok that by (auto simp: frontier_ok_def)
      then show ?thesis using i(2) exact(2) by metis
    qed
    moreover have "\<exists>r \<in> set (rq_resolutions request). tn_call_id r = i \<and> planned call (Some r) d"
      if "i \<in> set (df_required f)"
      using that exact(2) [of i] i(2) from_list by (metis not_None_eq)
    ultimately show ?thesis unfolding id by blast
  qed
  then show ?thesis using f I exact(1) ok ids by (auto simp: frontier_ok_def)
qed

subsection \<open>A concrete plan\<close>

definition planned_calls :: "tool_use list" where
  "planned_calls = [plain_call ''a'' ''shell'', plain_call ''b'' ''read_file'']"

definition example_decoders :: decoders where
  "example_decoders =
     \<lparr>de_root = (\<lambda>_. Inr \<lparr>ro_version = 1, ro_suspension_id = ''s'', ro_handler_suspension = False,
        ro_calls = planned_calls, ro_executable_call_ids = [''a'', ''b''],
        ro_deferral = \<lparr>td_kind = PermissionDeferralKind, td_payload = ''{}''\<rparr>\<rparr>),
      de_batch = (\<lambda>_. Inr \<lparr>db_version = 1, db_required = [''a''], db_pre_allowed = [''b'']\<rparr>),
      de_permission = (\<lambda>_. Inl (Plain ''unused''))\<rparr>"

definition example_suspension :: suspension where
  "example_suspension = \<lparr>sp_id = ''s'', sp_kind = PermissionDeferralKind, sp_frontier_hash = ''h'',
     sp_payload = ''p''\<rparr>"

definition example_resume_request :: resume_request where
  "example_resume_request = \<lparr>rq_suspension_id = ''s'', rq_resolutions =
     [\<lparr>tn_call_id = ''a'', tn_action = ResolutionDeny, tn_override_args = None, tn_result = CNil,
       tn_reason = ''''\<rparr>], rq_prompt = None\<rparr>"

lemma PlanResume_decides_witness:
  "\<exists>ds f. PlanResume example_decoders example_suspension example_resume_request = Inr ds \<and>
     InspectDeferred example_decoders example_suspension = Inr f \<and>
     map rd_call_id ds = df_executable_call_ids f"
proof -
  have "is_ok (PlanResume example_decoders example_suspension example_resume_request)" by code_simp
  then obtain ds where ds: "PlanResume example_decoders example_suspension example_resume_request = Inr ds"
    by (auto simp: is_ok_def split: sum.splits)
  then show ?thesis using PlanResume_decides [OF ds] by blast
qed

end
