(* ===== verification/Repair.thy ===== *)
theory Repair
  imports Transcript
begin

text \<open>
  harness/repair/repair.go: the deterministic projection of a durable transcript to one a provider
  accepts.  Interrupted frontiers are closed with synthetic error results, orphan results are left
  out, and an open deferred frontier is cut off after its calls were compared with the pending ones.

  The copy of the transcript through JSON is the parameter \<open>clone\<close>.
\<close>

datatype frontier_mode = CloseInterruptedFrontier | PreserveDeferredFrontier | FrontierModeOther nat

datatype pending_state =
  PendingUnknown | PendingPlanned | PendingStarted | PendingIndeterminate | PendingStateOther nat

record pending_call =
  pe_id :: string
  pe_name :: string
  pe_state :: pending_state

record pending_calls =
  pn_calls :: "pending_call list"
  pn_reason :: string

text \<open>The open frontier; \<open>ft_resolved\<close> lists the keys of the Go map.\<close>

record frontier =
  ft_calls :: "tool_use list"
  ft_resolved :: "string list"
  ft_output_index :: int

record projection =
  pj_output :: "message list"
  pj_open :: "frontier option"
  pj_recent :: "string list"

subsection \<open>Synthetic results\<close>

fun pending_state_of :: "string \<Rightarrow> pending_call list \<Rightarrow> pending_state" where
  "pending_state_of i [] = PendingUnknown"
| "pending_state_of i (p # ps) = (if pe_id p = i then pe_state p else pending_state_of i ps)"

definition synthetic_reason :: "tool_use \<Rightarrow> pending_calls \<Rightarrow> string" where
  "synthetic_reason call pending =
     (if pn_reason pending \<noteq> '''' then pn_reason pending
      else (case pending_state_of (tu_id call) (pn_calls pending) of
              PendingIndeterminate \<Rightarrow>
                ''the tool started but no durable result was observed; its effect is indeterminate''
            | PendingStarted \<Rightarrow>
                ''the tool started but no durable result was observed; its effect is indeterminate''
            | PendingPlanned \<Rightarrow> ''the tool was abandoned before it started''
            | _ \<Rightarrow> ''the tool call was interrupted before a durable result was committed''))"

definition syntheticResult :: "tool_use \<Rightarrow> pending_calls \<Rightarrow> message" where
  "syntheticResult call pending =
     NewToolResultMessageFor (tu_id call) (tu_name call)
       (''Harness synthetic result: '' @ synthetic_reason call pending @ ''; the call was not retried.'')
       True"

definition unresolvedCalls :: "frontier \<Rightarrow> tool_use list" where
  "unresolvedCalls f = filter (\<lambda>call. \<not> mem_str (tu_id call) (ft_resolved f)) (ft_calls f)"

definition frontierComplete :: "frontier \<Rightarrow> bool" where
  "frontierComplete f = (\<forall>call \<in> set (ft_calls f). mem_str (tu_id call) (ft_resolved f))"

definition samePending :: "tool_use list \<Rightarrow> pending_call list \<Rightarrow> bool" where
  "samePending calls pending =
     list_all2 (\<lambda>call p. tu_id call = pe_id p \<and> (pe_name p = '''' \<or> tu_name call = pe_name p)) calls pending"

subsection \<open>One message\<close>

definition closeOpen :: "pending_calls \<Rightarrow> projection \<Rightarrow> projection" where
  "closeOpen pending st =
     (case pj_open st of
        None \<Rightarrow> st
      | Some f \<Rightarrow>
          st\<lparr>pj_output := pj_output st @ map (\<lambda>call. syntheticResult call pending) (unresolvedCalls f),
             pj_open := None\<rparr>)"

text \<open>The parts of a result message that stay; the results of the open frontier are marked resolved.\<close>

fun keep_parts ::
  "(string \<rightharpoonup> tool_use) \<Rightarrow> string list \<Rightarrow> string list \<Rightarrow> part list \<Rightarrow> (part list \<times> string list) result" where
  "keep_parts calls recent resolved [] = Inr ([], resolved)"
| "keep_parts calls recent resolved (p # ps) =
     (case (if p_type p = ContentToolResult then p_tool_result p else None) of
        None \<Rightarrow>
          (case keep_parts calls recent resolved ps of
             Inl e \<Rightarrow> Inl e | Inr (kept, resolved') \<Rightarrow> Inr (p # kept, resolved'))
      | Some r \<Rightarrow>
          (case calls (tr_tool_use_id r) of
             None \<Rightarrow>
               if mem_str (tr_tool_use_id r) recent then
                 Inl (transcript_error (''duplicate result for tool call '' @ quote (tr_tool_use_id r)))
               else keep_parts calls recent resolved ps
           | Some call \<Rightarrow>
               if mem_str (tr_tool_use_id r) resolved then
                 Inl (transcript_error (''duplicate result for tool call '' @ quote (tr_tool_use_id r)))
               else if tr_name r \<noteq> '''' \<and> tr_name r \<noteq> tu_name call then
                 Inl (transcript_error (''result for '' @ quote (tr_tool_use_id r) @ '' names '' @
                   quote (tr_name r) @ '' instead of '' @ quote (tu_name call)))
               else
                 (case keep_parts calls recent (resolved @ [tr_tool_use_id r]) ps of
                    Inl e \<Rightarrow> Inl e | Inr (kept, resolved') \<Rightarrow> Inr (p # kept, resolved'))))"

definition open_calls :: "projection \<Rightarrow> tool_use list" where
  "open_calls st = (case pj_open st of None \<Rightarrow> [] | Some f \<Rightarrow> ft_calls f)"

definition open_resolved :: "projection \<Rightarrow> string list" where
  "open_resolved st = (case pj_open st of None \<Rightarrow> [] | Some f \<Rightarrow> ft_resolved f)"

definition repair_uses ::
  "nat \<Rightarrow> frontier_mode \<Rightarrow> pending_calls \<Rightarrow> projection \<Rightarrow> message \<Rightarrow> projection result" where
  "repair_uses i mode pending st m =
     (let st = st\<lparr>pj_recent := []\<rparr>; uses = GetToolUses m in
      if m_role m \<noteq> RoleAssistant \<or> GetToolResults m \<noteq> [] then
        Inl (transcript_error (''message '' @ show_nat i @ '' contains an invalid tool-call frontier''))
      else if pj_open st \<noteq> None \<and> mode = PreserveDeferredFrontier then
        Inl (transcript_error (''message '' @ show_nat i @
          '' starts a new frontier before the deferred frontier is resolved''))
      else
        let st = closeOpen pending st in
        (case check_call_ids i [] uses of
           Inl e \<Rightarrow> Inl e
         | Inr _ \<Rightarrow>
             Inr (st\<lparr>pj_output := pj_output st @ [m],
                     pj_open := Some \<lparr>ft_calls = uses, ft_resolved = [],
                       ft_output_index = int (length (pj_output st @ [m])) - 1\<rparr>\<rparr>)))"

definition repair_results :: "nat \<Rightarrow> projection \<Rightarrow> message \<Rightarrow> projection result" where
  "repair_results i st m =
     (if m_role m \<noteq> RoleTool then
        Inl (transcript_error (''message '' @ show_nat i @
          '' contains tool results outside a tool message''))
      else (case keep_parts (callsByID (open_calls st)) (pj_recent st) (open_resolved st) (m_content m) of
              Inl e \<Rightarrow> Inl e
            | Inr (kept, resolved) \<Rightarrow>
                let st = st\<lparr>pj_output := (if kept = [] then pj_output st
                              else pj_output st @ [m\<lparr>m_content := kept\<rparr>])\<rparr> in
                (case pj_open st of
                   None \<Rightarrow> Inr st
                 | Some f \<Rightarrow>
                     let f = f\<lparr>ft_resolved := resolved\<rparr> in
                     if frontierComplete f then
                       Inr (st\<lparr>pj_recent := map tu_id (ft_calls f), pj_open := None\<rparr>)
                     else Inr (st\<lparr>pj_open := Some f\<rparr>))))"

definition repair_plain ::
  "nat \<Rightarrow> frontier_mode \<Rightarrow> pending_calls \<Rightarrow> projection \<Rightarrow> message \<Rightarrow> projection result" where
  "repair_plain i mode pending st m =
     (if pj_open st \<noteq> None \<and> mode = PreserveDeferredFrontier then
        Inl (transcript_error (''message '' @ show_nat i @ '' follows an unresolved deferred frontier''))
      else let st = closeOpen pending st in
           Inr (st\<lparr>pj_recent := [], pj_output := pj_output st @ [m]\<rparr>))"

definition repair_message ::
  "nat \<Rightarrow> frontier_mode \<Rightarrow> pending_calls \<Rightarrow> projection \<Rightarrow> message \<Rightarrow> projection result" where
  "repair_message i mode pending st m =
     (if GetToolUses m \<noteq> [] then repair_uses i mode pending st m
      else if GetToolResults m \<noteq> [] then repair_results i st m
      else repair_plain i mode pending st m)"

fun repair_loop ::
  "nat \<Rightarrow> frontier_mode \<Rightarrow> pending_calls \<Rightarrow> projection \<Rightarrow> message list \<Rightarrow> projection result" where
  "repair_loop i mode pending st [] = Inr st"
| "repair_loop i mode pending st (m # ms) =
     (case repair_message i mode pending st m of
        Inl e \<Rightarrow> Inl e
      | Inr st' \<Rightarrow> repair_loop (Suc i) mode pending st' ms)"

definition Process ::
  "(message list \<Rightarrow> message list result) \<Rightarrow> message list \<Rightarrow> frontier_mode \<Rightarrow> pending_calls \<Rightarrow>
     message list result" where
  "Process clone messages mode pending =
     (case clone messages of
        Inl e \<Rightarrow> Inl e
      | Inr input \<Rightarrow>
          (case repair_loop 0 mode pending \<lparr>pj_output = [], pj_open = None, pj_recent = []\<rparr> input of
             Inl e \<Rightarrow> Inl e
           | Inr st \<Rightarrow>
               (case pj_open st of
                  None \<Rightarrow> Inr (pj_output st)
                | Some f \<Rightarrow>
                    if mode = PreserveDeferredFrontier then
                      if \<not> samePending (unresolvedCalls f) (pn_calls pending) then
                        Inl (transcript_error ''deferred frontier does not match pending call IDs'')
                      else Inr (take (nat (ft_output_index f)) (pj_output st))
                    else Inr (pj_output (closeOpen pending st)))))"

subsection \<open>Inspecting the final frontier\<close>

text \<open>The state is the last frontier's calls and the IDs resolved in it.\<close>

fun raw_results ::
  "(string \<rightharpoonup> tool_use) \<Rightarrow> string list \<Rightarrow> tool_result list \<Rightarrow> string list result" where
  "raw_results calls resolved [] = Inr resolved"
| "raw_results calls resolved (r # rs) =
     (case calls (tr_tool_use_id r) of
        None \<Rightarrow> raw_results calls resolved rs
      | Some call \<Rightarrow>
          if mem_str (tr_tool_use_id r) resolved then
            Inl (transcript_error (''duplicate result for tool call '' @ quote (tr_tool_use_id r)))
          else if tr_name r \<noteq> '''' \<and> tr_name r \<noteq> tu_name call then
            Inl (transcript_error (''result name mismatch for '' @ quote (tr_tool_use_id r)))
          else raw_results calls (resolved @ [tr_tool_use_id r]) rs)"

fun raw_call_ids :: "string list \<Rightarrow> tool_use list \<Rightarrow> unit result" where
  "raw_call_ids seen [] = Inr ()"
| "raw_call_ids seen (c # cs) =
     (if tu_id c = '''' \<or> mem_str (tu_id c) seen then
        Inl (transcript_error (''invalid duplicate or empty call ID '' @ quote (tu_id c)))
      else raw_call_ids (tu_id c # seen) cs)"

definition raw_uses ::
  "nat \<Rightarrow> tool_use list \<times> string list \<Rightarrow> message \<Rightarrow> (tool_use list \<times> string list) result" where
  "raw_uses i st m =
     (if GetToolUses m = [] then Inr st
      else if fst st \<noteq> [] then
        Inl (transcript_error (''message '' @ show_nat i @
          '' starts a new frontier before the previous one is resolved''))
      else (case raw_call_ids [] (GetToolUses m) of
              Inl e \<Rightarrow> Inl e | Inr _ \<Rightarrow> Inr (GetToolUses m, [])))"

definition raw_message ::
  "nat \<Rightarrow> tool_use list \<times> string list \<Rightarrow> message \<Rightarrow> (tool_use list \<times> string list) result" where
  "raw_message i st m =
     (case raw_uses i st m of
        Inl e \<Rightarrow> Inl e
      | Inr (calls, resolved) \<Rightarrow>
          if GetToolResults m \<noteq> [] \<and> calls \<noteq> [] then
            (case raw_results (callsByID calls) resolved (GetToolResults m) of
               Inl e \<Rightarrow> Inl e
             | Inr resolved \<Rightarrow>
                 if \<forall>call \<in> set calls. mem_str (tu_id call) resolved then Inr ([], [])
                 else Inr (calls, resolved))
          else Inr (calls, resolved))"

fun raw_loop ::
  "nat \<Rightarrow> tool_use list \<times> string list \<Rightarrow> message list \<Rightarrow> (tool_use list \<times> string list) result" where
  "raw_loop i st [] = Inr st"
| "raw_loop i st (m # ms) =
     (case raw_message i st m of Inl e \<Rightarrow> Inl e | Inr st' \<Rightarrow> raw_loop (Suc i) st' ms)"

definition rawFinalFrontier :: "message list \<Rightarrow> tool_use list result" where
  "rawFinalFrontier messages =
     (case raw_loop 0 ([], []) messages of
        Inl e \<Rightarrow> Inl e
      | Inr (calls, resolved) \<Rightarrow> Inr (filter (\<lambda>c. \<not> mem_str (tu_id c) resolved) calls))"

definition pendingFromFinalFrontier :: "message list \<Rightarrow> pending_calls" where
  "pendingFromFinalFrontier messages =
     \<lparr>pn_calls = (case rawFinalFrontier messages of
                    Inl _ \<Rightarrow> []
                  | Inr calls \<Rightarrow>
                      map (\<lambda>c. \<lparr>pe_id = tu_id c, pe_name = tu_name c, pe_state = PendingUnknown\<rparr>) calls),
      pn_reason = ''''\<rparr>"

definition InspectFrontier ::
  "(message list \<Rightarrow> message list result) \<Rightarrow> message list \<Rightarrow> tool_use list result" where
  "InspectFrontier clone messages =
     (case Process clone messages PreserveDeferredFrontier (pendingFromFinalFrontier messages) of
        Inl e \<Rightarrow> Inl e
      | Inr _ \<Rightarrow> rawFinalFrontier messages)"

subsection \<open>What is kept is an answer of the open frontier\<close>

lemma keep_parts_resolve:
  "keep_parts calls recent resolved ps = Inr (kept, resolved') \<Longrightarrow>
     resolve_results calls resolved (results_of_parts kept) = Inr resolved'"
  by (induction calls recent resolved ps arbitrary: kept resolved' rule: keep_parts.induct)
    (auto split: option.splits if_splits sum.splits)

lemma keep_parts_uses:
  "keep_parts calls recent resolved ps = Inr (kept, resolved') \<Longrightarrow> uses_of_parts ps = [] \<Longrightarrow>
     uses_of_parts kept = []"
  by (induction calls recent resolved ps arbitrary: kept resolved' rule: keep_parts.induct)
    (auto split: option.splits if_splits sum.splits)

lemma keep_parts_identity:
  "resolve_results calls resolved (results_of_parts ps) = Inr resolved' \<Longrightarrow>
     keep_parts calls recent resolved ps = Inr (ps, resolved')"
  by (induction ps arbitrary: resolved resolved')
    (auto split: option.splits if_splits sum.splits)

lemma syntheticResult_sel [simp]:
  "m_role (syntheticResult c pending) = RoleTool"
  "GetToolUses (syntheticResult c pending) = []"
  "map tr_tool_use_id (GetToolResults (syntheticResult c pending)) = [tu_id c]"
  "GetToolResults (syntheticResult c pending) \<noteq> []"
  "r \<in> set (GetToolResults (syntheticResult c pending)) \<longleftrightarrow>
     r = hd (GetToolResults (syntheticResult c pending))"
  by (simp_all add: syntheticResult_def)

lemma syntheticResult_answers:
  "c \<in> set us \<Longrightarrow> answers_call us (hd (GetToolResults (syntheticResult c pending)))"
  by (auto simp: syntheticResult_def answers_call_def)

lemma synthetic_ids [simp]:
  "answer_ids (map (\<lambda>c. syntheticResult c pending) cs) = call_ids cs"
  by (induction cs) (simp_all add: call_ids_def)

lemma synthetic_results:
  "r \<in> set (answer_results (map (\<lambda>c. syntheticResult c pending) cs)) \<Longrightarrow>
     set cs \<subseteq> set us \<Longrightarrow> answers_call us r"
  by (induction cs) (auto simp: syntheticResult_answers)

subsection \<open>The projection stays a transcript\<close>

text \<open>The output so far is closed, or ends in the open frontier whose answers are the resolved IDs.\<close>

definition open_at :: "frontier \<Rightarrow> message list \<Rightarrow> bool" where
  "open_at f out \<longleftrightarrow>
     (\<exists>ms a ts. out = ms @ a # ts \<and> closed_transcript ms \<and> opens_frontier a (ft_calls f) \<and>
        answer_run (ft_calls f) ts \<and> \<not> all_answered (ft_calls f) ts \<and>
        ft_resolved f = answer_ids ts \<and> ft_output_index f = int (length ms))"

definition repair_inv :: "projection \<Rightarrow> bool" where
  "repair_inv st \<longleftrightarrow>
     (case pj_open st of None \<Rightarrow> closed_transcript (pj_output st) | Some f \<Rightarrow> open_at f (pj_output st))"

lemma repair_inv_recent [simp]: "repair_inv (st\<lparr>pj_recent := r\<rparr>) = repair_inv st"
  by (simp add: repair_inv_def split: option.split)

lemma unresolved_answers:
  assumes run: "answer_run us ts" and open_: "\<not> all_answered us ts" and wf: "wf_calls us"
    and f: "ft_calls f = us" "ft_resolved f = answer_ids ts"
  shows "answer_run us (ts @ map (\<lambda>c. syntheticResult c pending) (unresolvedCalls f)) \<and>
    all_answered us (ts @ map (\<lambda>c. syntheticResult c pending) (unresolvedCalls f)) \<and>
    unresolvedCalls f \<noteq> []"
proof -
  have sub: "set (unresolvedCalls f) \<subseteq> set us" using f by (auto simp: unresolvedCalls_def)
  have ids: "set (call_ids (unresolvedCalls f)) = set (call_ids us) - set (answer_ids ts)"
    using f by (auto simp: unresolvedCalls_def call_ids_def)
  have "distinct (call_ids (unresolvedCalls f))"
    using wf f unfolding wf_calls_def call_ids_def unresolvedCalls_def
    by (simp add: distinct_map_filter)
  with sub ids show ?thesis using run open_ synthetic_results [OF _ sub]
    by (auto simp: answer_run_def all_answered_def call_ids_def)
qed

lemma closeOpen_closed:
  assumes "repair_inv st"
  shows "pj_open (closeOpen pending st) = None \<and> closed_transcript (pj_output (closeOpen pending st))"
proof (cases "pj_open st")
  case None
  then show ?thesis using assms by (simp add: closeOpen_def repair_inv_def)
next
  case (Some f)
  then obtain ms a ts where out: "pj_output st = ms @ a # ts" "closed_transcript ms"
    and a: "opens_frontier a (ft_calls f)" and run: "answer_run (ft_calls f) ts"
    "\<not> all_answered (ft_calls f) ts" "ft_resolved f = answer_ids ts"
    using assms by (auto simp: repair_inv_def open_at_def)
  let ?s = "map (\<lambda>c. syntheticResult c pending) (unresolvedCalls f)"
  have ans: "answer_run (ft_calls f) (ts @ ?s)" "all_answered (ft_calls f) (ts @ ?s)"
    "unresolvedCalls f \<noteq> []"
    using unresolved_answers [OF run(1,2) _ _ run(3)] opens_frontier_wf [OF a] by blast+
  obtain cs c where cs: "unresolvedCalls f = cs @ [c]" using ans(3) by (metis rev_exhaust)
  have "closed_transcript (ms @ a # (ts @ map (\<lambda>c. syntheticResult c pending) cs) @
      [syntheticResult c pending])"
    by (rule closed_answered [OF out(2) a, of "ts @ map (\<lambda>c. syntheticResult c pending) cs"])
      (use ans cs in simp_all)
  then show ?thesis using Some out cs by (simp add: closeOpen_def)
qed

lemma repair_uses_inv:
  assumes "repair_inv st" "repair_uses i mode pending st m = Inr st'" "GetToolUses m \<noteq> []"
  shows "repair_inv st'"
proof -
  let ?st = "closeOpen pending (st\<lparr>pj_recent := []\<rparr>)"
  have role: "m_role m = RoleAssistant" "GetToolResults m = []"
    and ids: "check_call_ids i [] (GetToolUses m) = Inr ()"
    and st': "st' = ?st\<lparr>pj_output := pj_output ?st @ [m],
        pj_open := Some \<lparr>ft_calls = GetToolUses m, ft_resolved = [],
          ft_output_index = int (length (pj_output ?st @ [m])) - 1\<rparr>\<rparr>"
    using assms(2) by (auto simp: repair_uses_def Let_def split: if_splits sum.splits)
  have closed: "closed_transcript (pj_output ?st)" using closeOpen_closed assms(1) by simp
  have a: "opens_frontier m (GetToolUses m)"
    using role ids assms(3) by (simp add: opens_frontier_def check_call_ids_Inr)
  have "open_at \<lparr>ft_calls = GetToolUses m, ft_resolved = [],
      ft_output_index = int (length (pj_output ?st @ [m])) - 1\<rparr> (pj_output ?st @ [m])"
    unfolding open_at_def
    by (rule exI [of _ "pj_output ?st"], rule exI [of _ m], rule exI [of _ "[]"])
      (use closed a assms(3) in \<open>simp add: answer_run_def all_answered_def call_ids_def\<close>)
  then show ?thesis unfolding repair_inv_def st' by simp
qed

lemma repair_plain_inv:
  assumes "repair_inv st" "repair_plain i mode pending st m = Inr st'" "plain_message m"
  shows "repair_inv st'"
proof -
  have "st' = (closeOpen pending st)\<lparr>pj_recent := [],
      pj_output := pj_output (closeOpen pending st) @ [m]\<rparr>"
    using assms(2) by (auto simp: repair_plain_def Let_def split: if_splits)
  then show ?thesis
    using closeOpen_closed [OF assms(1)] closed_plain [OF _ assms(3)] by (simp add: repair_inv_def)
qed

text \<open>An answer message extends the open frontier, whatever was left out of it.\<close>

lemma kept_answer:
  assumes "open_at f out" "m_role m = RoleTool" "GetToolUses m = []"
    and keep: "keep_parts (callsByID (ft_calls f)) recent (ft_resolved f) (m_content m) = Inr (kept, resolved)"
  defines "out' \<equiv> (if kept = [] then out else out @ [m\<lparr>m_content := kept\<rparr>])"
  shows "if frontierComplete (f\<lparr>ft_resolved := resolved\<rparr>) then closed_transcript out'
         else open_at (f\<lparr>ft_resolved := resolved\<rparr>) out'"
proof -
  obtain ms a ts where out: "out = ms @ a # ts" "closed_transcript ms"
    and a: "opens_frontier a (ft_calls f)" and run: "answer_run (ft_calls f) ts"
    "\<not> all_answered (ft_calls f) ts" and res: "ft_resolved f = answer_ids ts"
    and ix: "ft_output_index f = int (length ms)"
    using assms(1) by (auto simp: open_at_def)
  note wf = opens_frontier_wf [OF a]
  have complete: "frontierComplete (f\<lparr>ft_resolved := resolved\<rparr>) \<longleftrightarrow>
      set (call_ids (ft_calls f)) \<subseteq> set resolved"
    by (auto simp: frontierComplete_def call_ids_def)
  let ?k = "m\<lparr>m_content := kept\<rparr>"
  have k: "m_role ?k = RoleTool" "GetToolUses ?k = []"
    using keep_parts_uses [OF keep] assms(2,3) by (simp_all add: GetToolUses_def)
  have r: "resolve_results (callsByID (ft_calls f)) (answer_ids ts) (GetToolResults ?k) = Inr resolved"
    using keep_parts_resolve [OF keep] res by (simp add: GetToolResults_def)
  then have ids: "resolved = answer_ids (ts @ [?k])"
    and run': "answer_run (ft_calls f) (ts @ [?k])"
    using resolve_results_Inr [of "ft_calls f"] wf k run by (auto simp: answer_run_def)
  show ?thesis
  proof (cases "kept = []")
    case True
    then have "resolved = answer_ids ts" using ids by (simp add: GetToolResults_def)
    moreover have "f\<lparr>ft_resolved := answer_ids ts\<rparr> = f" using res by (cases f) simp
    ultimately show ?thesis using assms(1) True run(2) complete
      by (simp add: out'_def all_answered_def)
  next
    case kept: False
    show ?thesis
    proof (cases "frontierComplete (f\<lparr>ft_resolved := resolved\<rparr>)")
      case True
      then have all: "all_answered (ft_calls f) (ts @ [?k])"
        using complete ids by (simp add: all_answered_def)
      then have "GetToolResults ?k \<noteq> []" using run(2) by (auto simp: all_answered_def)
      then show ?thesis
        using closed_answered [OF out(2) a run' all] kept out True by (simp add: out'_def)
    next
      case False
      then have "\<not> all_answered (ft_calls f) (ts @ [?k])"
        using complete ids by (simp add: all_answered_def)
      then have "open_at (f\<lparr>ft_resolved := resolved\<rparr>) (ms @ a # (ts @ [?k]))"
        unfolding open_at_def
        by (intro exI [of _ ms] exI [of _ a] exI [of _ "ts @ [?k]"])
          (use out(2) a run' ids ix in simp)
      then show ?thesis using False kept out by (simp add: out'_def)
    qed
  qed
qed

lemma orphan_answer:
  assumes "keep_parts Map.empty recent [] (m_content m) = Inr (kept, resolved)"
    "GetToolUses m = []"
  shows "plain_message (m\<lparr>m_content := kept\<rparr>)"
proof -
  have "resolve_results Map.empty [] (results_of_parts kept) = Inr resolved"
    using keep_parts_resolve [OF assms(1)] .
  then have "results_of_parts kept = []" by (cases "results_of_parts kept") auto
  then show ?thesis using keep_parts_uses [OF assms(1)] assms(2)
    by (simp add: plain_message_def GetToolUses_def GetToolResults_def)
qed

lemma repair_results_inv:
  assumes inv: "repair_inv st" and step: "repair_results i st m = Inr st'"
    and m: "GetToolUses m = []"
  shows "repair_inv st'"
proof (cases "pj_open st")
  case None
  then obtain kept resolved where keep: "keep_parts Map.empty (pj_recent st) [] (m_content m) = Inr (kept, resolved)"
    and st': "st' = st\<lparr>pj_output := (if kept = [] then pj_output st
        else pj_output st @ [m\<lparr>m_content := kept\<rparr>])\<rparr>"
    using step by (auto simp: repair_results_def open_calls_def open_resolved_def Let_def
        split: if_splits sum.splits)
  show ?thesis
    using inv None closed_plain [OF _ orphan_answer [OF keep m]]
    by (simp add: st' repair_inv_def)
next
  case (Some f)
  then obtain kept resolved where role: "m_role m = RoleTool"
    and keep: "keep_parts (callsByID (ft_calls f)) (pj_recent st) (ft_resolved f) (m_content m) =
      Inr (kept, resolved)"
    and st': "st' = (if frontierComplete (f\<lparr>ft_resolved := resolved\<rparr>)
        then st\<lparr>pj_output := (if kept = [] then pj_output st else pj_output st @ [m\<lparr>m_content := kept\<rparr>]),
          pj_recent := map tu_id (ft_calls f), pj_open := None\<rparr>
        else st\<lparr>pj_output := (if kept = [] then pj_output st else pj_output st @ [m\<lparr>m_content := kept\<rparr>]),
          pj_open := Some (f\<lparr>ft_resolved := resolved\<rparr>)\<rparr>)"
    using step by (auto simp: repair_results_def open_calls_def open_resolved_def Let_def
        split: if_split_asm sum.splits)
  have "open_at f (pj_output st)" using inv Some by (simp add: repair_inv_def)
  from kept_answer [OF this role m keep] show ?thesis
    unfolding st' repair_inv_def by (cases "frontierComplete (f\<lparr>ft_resolved := resolved\<rparr>)") simp_all
qed

lemma repair_message_inv:
  "repair_inv st \<Longrightarrow> repair_message i mode pending st m = Inr st' \<Longrightarrow> repair_inv st'"
  using repair_uses_inv [of st i mode pending m st'] repair_results_inv [of st i m st']
    repair_plain_inv [of st i mode pending m st']
  by (simp add: repair_message_def plain_message_def split: if_split_asm)

lemma repair_loop_inv:
  "repair_inv st \<Longrightarrow> repair_loop i mode pending st ms = Inr st' \<Longrightarrow> repair_inv st'"
proof (induction ms arbitrary: i st)
  case (Cons m ms)
  then obtain st1 where "repair_message i mode pending st m = Inr st1"
    "repair_loop (Suc i) mode pending st1 ms = Inr st'"
    by (simp split: sum.splits)
  with Cons show ?case using repair_message_inv by blast
qed simp

abbreviation start_projection :: projection where
  "start_projection \<equiv> \<lparr>pj_output = [], pj_open = None, pj_recent = []\<rparr>"

lemma start_projection_inv: "repair_inv start_projection"
  by (simp add: repair_inv_def closed_Nil)

lemma Process_closed:
  assumes "Process clone messages mode pending = Inr out"
  shows "closed_transcript out"
proof -
  obtain input st where "repair_loop 0 mode pending start_projection input = Inr st"
    and out: "(case pj_open st of
                  None \<Rightarrow> Inr (pj_output st)
                | Some f \<Rightarrow>
                    if mode = PreserveDeferredFrontier then
                      if \<not> samePending (unresolvedCalls f) (pn_calls pending) then
                        Inl (transcript_error ''deferred frontier does not match pending call IDs'')
                      else Inr (take (nat (ft_output_index f)) (pj_output st))
                    else Inr (pj_output (closeOpen pending st))) = Inr out"
    using assms by (auto simp: Process_def split: sum.splits)
  then have inv: "repair_inv st" using repair_loop_inv start_projection_inv by blast
  show ?thesis
  proof (cases "pj_open st")
    case None
    then show ?thesis using inv out by (simp add: repair_inv_def)
  next
    case (Some f)
    then have "open_at f (pj_output st)" using inv by (simp add: repair_inv_def)
    then show ?thesis using Some out closeOpen_closed [OF inv, of pending]
      by (auto simp: open_at_def split: if_splits)
  qed
qed

text \<open>
  C30. Whatever transcript it is given, in both modes: when the repair returns a projection, the
  transcript checker accepts it, with no open tool call.
\<close>

theorem Process_valid:
  assumes "Process clone messages mode pending = Inr out"
  shows "inspectTranscript out = Inr []"
  using Process_closed [OF assms] by (simp add: inspectTranscript_closed)

lemma Process_valid_witness:
  "inspectTranscript
     [NewToolUseMessage [\<lparr>tu_id = ''c1'', tu_name = ''read'', tu_input = JNull\<rparr>],
      NewToolResultMessageFor ''c1'' ''read'' (''Harness synthetic result: '' @
        ''the tool was abandoned before it started'' @ ''; the call was not retried.'') True] = Inr []"
proof (rule Process_valid)
  show "Process (\<lambda>ms. Inr ms) [NewToolUseMessage [\<lparr>tu_id = ''c1'', tu_name = ''read'', tu_input = JNull\<rparr>]]
      CloseInterruptedFrontier
      \<lparr>pn_calls = [\<lparr>pe_id = ''c1'', pe_name = '''', pe_state = PendingPlanned\<rparr>], pn_reason = ''''\<rparr> =
    Inr [NewToolUseMessage [\<lparr>tu_id = ''c1'', tu_name = ''read'', tu_input = JNull\<rparr>],
      NewToolResultMessageFor ''c1'' ''read'' (''Harness synthetic result: '' @
        ''the tool was abandoned before it started'' @ ''; the call was not retried.'') True]"
    by code_simp
qed

subsection \<open>A valid transcript passes unchanged\<close>

lemma repair_loop_append:
  "repair_loop i mode pending st (xs @ ys) =
     (case repair_loop i mode pending st xs of
        Inl e \<Rightarrow> Inl e
      | Inr st' \<Rightarrow> repair_loop (i + length xs) mode pending st' ys)"
  by (induction xs arbitrary: i st) (auto split: sum.splits)

lemma repair_opens:
  assumes "opens_frontier a us" "pj_open st = None"
  shows "repair_message i mode pending st a =
    Inr (st\<lparr>pj_recent := [], pj_output := pj_output st @ [a],
      pj_open := Some \<lparr>ft_calls = us, ft_resolved = [], ft_output_index = int (length (pj_output st))\<rparr>\<rparr>)"
  using assms check_call_ids_Inr [of i "[]" us]
  by (simp add: repair_message_def repair_uses_def opens_frontier_def closeOpen_def Let_def)

lemma repair_answer:
  assumes "answer_run us (ts @ [t])" "GetToolResults t \<noteq> []" "wf_calls us"
    and st: "pj_open st = Some f" "ft_calls f = us" "ft_resolved f = answer_ids ts"
  shows "repair_message i mode pending st t =
    (let st = st\<lparr>pj_output := pj_output st @ [t]\<rparr>; f = f\<lparr>ft_resolved := answer_ids (ts @ [t])\<rparr> in
     if all_answered us (ts @ [t]) then Inr (st\<lparr>pj_recent := map tu_id us, pj_open := None\<rparr>)
     else Inr (st\<lparr>pj_open := Some f\<rparr>))"
proof -
  have t: "m_role t = RoleTool" "GetToolUses t = []" "m_content t \<noteq> []"
    using assms(1,2) by (auto simp: answer_run_def GetToolResults_def)
  have "resolve_results (callsByID us) (answer_ids ts) (GetToolResults t) = Inr (answer_ids (ts @ [t]))"
    using resolve_results_Inr [of us] assms(1,3) by (auto simp: answer_run_def wf_calls_def)
  then have keep: "keep_parts (callsByID us) (pj_recent st) (answer_ids ts) (m_content t) =
      Inr (m_content t, answer_ids (ts @ [t]))"
    using keep_parts_identity by (simp add: GetToolResults_def)
  have "frontierComplete (f\<lparr>ft_resolved := answer_ids (ts @ [t])\<rparr>) \<longleftrightarrow> all_answered us (ts @ [t])"
    using st(2) by (auto simp: frontierComplete_def all_answered_def call_ids_def)
  then show ?thesis using t keep st assms(2)
    by (simp add: repair_message_def repair_results_def open_calls_def open_resolved_def Let_def)
qed

lemma repair_answers:
  assumes "wf_calls us" and st: "pj_open st = Some f" "ft_calls f = us" "ft_resolved f = []"
  shows "answer_run us ts \<Longrightarrow> \<not> all_answered us ts \<Longrightarrow> \<forall>t \<in> set ts. GetToolResults t \<noteq> [] \<Longrightarrow>
    repair_loop i mode pending st ts =
      Inr (st\<lparr>pj_output := pj_output st @ ts, pj_open := Some (f\<lparr>ft_resolved := answer_ids ts\<rparr>)\<rparr>)"
proof (induction ts rule: rev_induct)
  case Nil
  have "f\<lparr>ft_resolved := []\<rparr> = f" using st(3) by (cases f) simp
  then show ?case using st by (cases st) simp
next
  case (snoc t ts)
  then have pre: "answer_run us ts" "\<not> all_answered us ts"
    using answer_run_butlast all_answered_mono by blast+
  have nonempty: "\<forall>t \<in> set ts. GetToolResults t \<noteq> []" "GetToolResults t \<noteq> []" using snoc.prems by auto
  let ?st = "st\<lparr>pj_output := pj_output st @ ts, pj_open := Some (f\<lparr>ft_resolved := answer_ids ts\<rparr>)\<rparr>"
  have "repair_message j mode pending ?st t = Inr (?st\<lparr>pj_output := pj_output st @ ts @ [t],
      pj_open := Some (f\<lparr>ft_resolved := answer_ids (ts @ [t])\<rparr>)\<rparr>)" for j
    using repair_answer [OF snoc.prems(1) nonempty(2) assms(1), of ?st "f\<lparr>ft_resolved := answer_ids ts\<rparr>"]
      st(2) snoc.prems(2) by (simp add: Let_def)
  then show ?case using snoc.IH [OF pre nonempty(1)] by (simp add: repair_loop_append)
qed

lemma repair_plain_message:
  "plain_message m \<Longrightarrow> pj_open st = None \<Longrightarrow>
     repair_message i mode pending st m = Inr (st\<lparr>pj_recent := [], pj_output := pj_output st @ [m]\<rparr>)"
  by (simp add: repair_message_def repair_plain_def plain_message_def closeOpen_def)

lemma repair_closed:
  "closed_transcript ms \<Longrightarrow> \<forall>m \<in> set ms. m_role m = RoleTool \<longrightarrow> GetToolResults m \<noteq> [] \<Longrightarrow>
     \<exists>recent. repair_loop 0 mode pending start_projection ms =
       Inr \<lparr>pj_output = ms, pj_open = None, pj_recent = recent\<rparr>"
proof (induction rule: closed_transcript.induct)
  case closed_Nil
  then show ?case by simp
next
  case (closed_plain ms m)
  then obtain recent where "repair_loop 0 mode pending start_projection ms =
       Inr \<lparr>pj_output = ms, pj_open = None, pj_recent = recent\<rparr>" by auto
  then show ?case using closed_plain.hyps(2)
    by (simp add: repair_loop_append repair_plain_message)
next
  case (closed_answered ms a us ts t)
  then obtain recent where ms: "repair_loop 0 mode pending start_projection ms =
       Inr \<lparr>pj_output = ms, pj_open = None, pj_recent = recent\<rparr>" by auto
  note us = opens_frontier_wf [OF closed_answered.hyps(2)]
  have pre: "answer_run us ts" "\<not> all_answered us ts"
    using closed_answered.hyps answer_run_butlast last_answer_open by blast+
  have "\<forall>m \<in> set (ts @ [t]). m_role m = RoleTool"
    using closed_answered.hyps by (auto simp: answer_run_def)
  then have nonempty: "\<forall>m \<in> set ts. GetToolResults m \<noteq> []" using closed_answered.prems by auto
  let ?f = "\<lparr>ft_calls = us, ft_resolved = [], ft_output_index = int (length ms)\<rparr>"
  let ?st = "\<lparr>pj_output = ms @ [a], pj_open = Some ?f, pj_recent = []\<rparr>"
  have a: "repair_message i mode pending \<lparr>pj_output = ms, pj_open = None, pj_recent = recent\<rparr> a = Inr ?st"
    for i using repair_opens [OF closed_answered.hyps(2)] by simp
  have ts: "repair_loop i mode pending ?st ts = Inr \<lparr>pj_output = ms @ a # ts,
      pj_open = Some (?f\<lparr>ft_resolved := answer_ids ts\<rparr>), pj_recent = []\<rparr>" for i
    using repair_answers [of us ?st ?f ts i mode pending] us pre nonempty by simp
  have t: "repair_message i mode pending \<lparr>pj_output = ms @ a # ts,
      pj_open = Some (?f\<lparr>ft_resolved := answer_ids ts\<rparr>), pj_recent = []\<rparr> t =
    Inr \<lparr>pj_output = ms @ a # ts @ [t], pj_open = None, pj_recent = map tu_id us\<rparr>" for i
    using repair_answer [OF closed_answered.hyps(3,5), of "\<lparr>pj_output = ms @ a # ts,
      pj_open = Some (?f\<lparr>ft_resolved := answer_ids ts\<rparr>), pj_recent = []\<rparr>"] us closed_answered.hyps(4)
    by (simp add: Let_def)
  show ?case by (simp add: repair_loop_append ms a ts t [simplified])
qed

text \<open>
  A transcript the checker accepts with no open call, and without tool messages that carry no
  result, is its own projection, in both modes and whatever calls are said to be pending.
\<close>

theorem Process_identity:
  assumes "inspectTranscript ms = Inr []" "clone ms = Inr ms"
    and "\<forall>m \<in> set ms. m_role m = RoleTool \<longrightarrow> GetToolResults m \<noteq> []"
  shows "Process clone ms mode pending = Inr ms"
proof -
  obtain recent where "repair_loop 0 mode pending start_projection ms =
      Inr \<lparr>pj_output = ms, pj_open = None, pj_recent = recent\<rparr>"
    using repair_closed [of ms mode pending] assms(1,3) unfolding inspectTranscript_closed by blast
  then show ?thesis using assms(2) by (simp add: Process_def)
qed

definition example_repaired :: "message list" where
  "example_repaired =
     [NewTextMessage RoleUser ''hi'',
      NewToolUseMessage [\<lparr>tu_id = ''c1'', tu_name = ''read'', tu_input = JNull\<rparr>],
      NewToolResultMessageFor ''c1'' ''read'' ''ok'' False]"

lemma Process_identity_witness:
  "Process (\<lambda>ms. Inr ms) example_repaired PreserveDeferredFrontier \<lparr>pn_calls = [], pn_reason = ''''\<rparr> =
     Inr example_repaired"
proof (rule Process_identity)
  show "inspectTranscript example_repaired = Inr []" by code_simp
qed (simp_all add: example_repaired_def)

text \<open>
  A tool message without results closes an open frontier here, while the checker of the transcript
  lets it stand inside one: the result that follows it is then left out, and the model is shown a
  synthetic error for a call that was answered.
\<close>

lemma resultless_tool_message:
  "inspectTranscript
     [NewToolUseMessage [\<lparr>tu_id = ''c1'', tu_name = ''read'', tu_input = JNull\<rparr>],
      NewTextMessage RoleTool ''note'', NewToolResultMessageFor ''c1'' ''read'' ''ok'' False] = Inr []"
  "Process (\<lambda>ms. Inr ms)
     [NewToolUseMessage [\<lparr>tu_id = ''c1'', tu_name = ''read'', tu_input = JNull\<rparr>],
      NewTextMessage RoleTool ''note'', NewToolResultMessageFor ''c1'' ''read'' ''ok'' False]
     CloseInterruptedFrontier \<lparr>pn_calls = [], pn_reason = ''why''\<rparr> =
   Inr [NewToolUseMessage [\<lparr>tu_id = ''c1'', tu_name = ''read'', tu_input = JNull\<rparr>],
      NewToolResultMessageFor ''c1'' ''read''
        (''Harness synthetic result: '' @ ''why'' @ ''; the call was not retried.'') True,
      NewTextMessage RoleTool ''note'']"
  by code_simp+

end
