(* ===== verification/Session_Log.thy ===== *)
theory Session_Log
  imports Resume_Planner Repair Context_Policy
begin

text \<open>
  What a session writes in its journal and how a journal is read back (harness/session: entries.go,
  the payloads of config.go, types.go, and \<^verbatim>\<open>fold\<close> with \<^verbatim>\<open>applyRecoveredEvent\<close> of recovery.go).

  An entry is the value its payload encodes: the constructor stands for the kind, its arguments for
  the payload.  \<^verbatim>\<open>BrokenFact\<close> is an entry whose payload does not decode.  The sequence number of an
  entry is its position in the journal, counted from one.  The records the fold collects for the
  event hub, and the scope tags in them, are left out.
\<close>

subsection \<open>Types\<close>

datatype phase = Idle | Running | Closing | Suspended | Interrupting | Faulted | Closed

fun phase_text :: "phase \<Rightarrow> string" where
  "phase_text Idle = ''idle''"
| "phase_text Running = ''running''"
| "phase_text Closing = ''closing''"
| "phase_text Suspended = ''suspended''"
| "phase_text Interrupting = ''interrupting''"
| "phase_text Faulted = ''faulted''"
| "phase_text Closed = ''closed''"

datatype queue_kind = QueueSteer | QueueFollowUp | QueueNextTurn | QueueOther string

record queue_entry =
  qe_id :: string
  qe_kind :: queue_kind
  qe_message :: message
  qe_accepted :: int

text \<open>The errors of types.go; \<open>Cause\<close> is an error of another package.\<close>

datatype session_error =
    SessionBusy | RunClosing | NotRunning | SessionSuspended | SessionClosed | InvalidMessage
  | FaultError string session_error
  | ProjectionMismatch string
  | BudgetExceeded session_error
  | InvalidResume string
  | IndeterminateTool string
  | InvalidInitialHistory
  | StaleRunTarget string
  | ExecutionAbandoned
  | SessionError string
  | Cause go_error

fun session_error_text :: "session_error \<Rightarrow> string" where
  "session_error_text SessionBusy = ''session is not idle''"
| "session_error_text RunClosing = ''run is closing''"
| "session_error_text NotRunning = ''session is not running or suspended''"
| "session_error_text SessionSuspended = ''session is suspended''"
| "session_error_text SessionClosed = ''session is closed''"
| "session_error_text InvalidMessage = ''session input must be a user message''"
| "session_error_text (FaultError i e) = ''session is faulted: '' @ i @ '': '' @ session_error_text e"
| "session_error_text (ProjectionMismatch s) = ''agentic commit projection mismatch: '' @ s"
| "session_error_text (BudgetExceeded e) = ''session budget exceeded: '' @ session_error_text e"
| "session_error_text (InvalidResume s) = kind_text ErrInvalidResumeRequest @ '': '' @ s"
| "session_error_text (IndeterminateTool s) = ''indeterminate tool cannot be executed automatically: '' @ s"
| "session_error_text InvalidInitialHistory = ''initial session history is not protocol-valid''"
| "session_error_text (StaleRunTarget i) =
     ''run '' @ quote i @ '' is not the active run: targeted run is no longer active''"
| "session_error_text ExecutionAbandoned = ''session execution abandoned for recovery''"
| "session_error_text (SessionError s) = s"
| "session_error_text (Cause e) = err_text e"

record scope =
  sc_session_id :: string
  sc_parent_id :: string
  sc_agent :: string
  sc_depth :: int

record usage_charge =
  uc_session_id :: string
  uc_agent :: string
  uc_usage :: usage

record message_payload =
  mp_message :: message
  mp_source :: string
  mp_queue_id :: string

record run_opened_payload =
  od_id :: string
  od_mode :: string
  od_recovery :: bool
  od_limits :: "usage_limits option"
  od_instructions :: string

record command_payload =
  ca_command_id :: string
  ca_kind :: string
  ca_idempotency_key :: string
  ca_digest :: string
  ca_run_id :: string
  ca_queue_id :: string
  ca_rejection :: string

record operation =
  on_id :: string
  on_kind :: string
  on_phase :: string
  on_parent_call_id :: string
  on_payload :: string

text \<open>The payload of an Agentic event, by its type (harness/event/event.go).  \<open>PBroken\<close> is one of a
  type the fold decodes whose payload does not decode.\<close>

datatype run_payload =
    PRunStarted | PTurnStarted | PRunInterrupted
  | PAssistant message
  | PToolBatch "tool_use list"
  | PToolStarted tool_use int
  | PToolResult string string string bool string
  | POutputValidated completion_candidate
  | PInjected "message list" "string list"
  | PTurnEnded completion_candidate usage
  | PSuspended suspension
  | PCompleted usage finish_reason
  | PRunError string
  | PRunEnded execution_status
  | PBroken

record run_record =
  rn_turn :: int
  rn_payload :: run_payload
  rn_session_used :: "usage option"

text \<open>A child event carries the child's session, agent, parent, depth and turn; the text stands for the rest.\<close>

record child_record =
  cr_session_id :: string
  cr_agent :: string
  cr_parent_id :: string
  cr_depth :: int
  cr_turn :: int
  cr_nature :: event_nature
  cr_text :: string

datatype fact =
    SessionCreated "usage_limits option" bool "scope option"
  | RunOpened run_opened_payload
  | RunRecovered run_opened_payload
  | RunClosed string execution_status string
  | MessageAdded message_payload
  | SystemMessage message_payload
  | RepairAdded message_payload
  | QueueAccepted string "queue_entry option"
  | QueueDrained string
  | QueueCancelled string string
  | CommandAccepted command_payload
  | RunEvent run_record
  | UsageCommitted usage usage
  | ChildUsage usage_charge usage
  | ChildEvent child_record
  | RecoverySuspension suspension
  | SessionFault string
  | InterruptMarker string
  | ContextMessage int message
  | Compacted compaction
  | ResolutionAccepted string resume_request
  | SessionRecovered string
  | RuntimeOperation operation
  | OtherFact string
  | BrokenFact string

subsection \<open>The transcript with its context markers\<close>

record context_marker =
  mk_after :: int
  mk_message :: message

fun provider_loop :: "nat \<Rightarrow> message list \<Rightarrow> context_marker list \<Rightarrow> message list" where
  "provider_loop position [] markers = map mk_message markers"
| "provider_loop position (m # ms) markers =
     map mk_message (takeWhile (\<lambda>k. mk_after k \<le> int position) markers) @
     m # provider_loop (Suc position) ms (dropWhile (\<lambda>k. mk_after k \<le> int position) markers)"

definition providerHistory :: "message list \<Rightarrow> context_marker list \<Rightarrow> message list" where
  "providerHistory messages markers =
     (if markers = [] then messages else provider_loop 0 messages markers)"

definition shiftContextMarkers :: "int \<Rightarrow> context_marker list \<Rightarrow> context_marker list" where
  "shiftContextMarkers amount markers = map (\<lambda>k. k\<lparr>mk_after := mk_after k + amount\<rparr>) markers"

definition interruptionContextMessage :: "string \<Rightarrow> message" where
  "interruptionContextMessage t =
     NewTextMessage RoleUser (''<harness_context type='' @ [CHR 0x22] @ ''interruption'' @ [CHR 0x22] @
       ''>'' @ t @ ''</harness_context>'')"

subsection \<open>The state that is read back\<close>

text \<open>The sets \<^verbatim>\<open>started\<close> and \<^verbatim>\<open>results\<close> of call IDs are lists without repetition.\<close>

record active_run =
  ar_id :: string
  ar_mode :: drive_mode
  ar_history :: "message list"
  ar_expected :: "message list"
  ar_last_usage :: usage
  ar_injection_ids :: "string list"
  ar_turn :: int
  ar_preview_ordinal :: nat
  ar_interrupted :: bool
  ar_planned :: "tool_use list"
  ar_started :: "string list"
  ar_results :: "string list"
  ar_marker_count :: nat
  ar_limits :: "usage_limits option"
  ar_resume_in_progress :: bool
  ar_resume_event_seen :: bool
  ar_public_new_start :: nat
  ar_child_charged :: bool
  ar_instructions :: string

definition new_run :: "string \<Rightarrow> drive_mode \<Rightarrow> message list \<Rightarrow> message list \<Rightarrow> nat \<Rightarrow> usage_limits option \<Rightarrow>
    string \<Rightarrow> active_run" where
  "new_run i mode history expected count limits instructions =
     \<lparr>ar_id = i, ar_mode = mode, ar_history = history, ar_expected = expected,
      ar_last_usage = zero_usage, ar_injection_ids = [], ar_turn = 0, ar_preview_ordinal = 0,
      ar_interrupted = False, ar_planned = [], ar_started = [], ar_results = [],
      ar_marker_count = count, ar_limits = limits, ar_resume_in_progress = False,
      ar_resume_event_seen = False, ar_public_new_start = 0, ar_child_charged = False,
      ar_instructions = instructions\<rparr>"

definition insert_id :: "string \<Rightarrow> string list \<Rightarrow> string list" where
  "insert_id i ids = (if mem_str i ids then ids else ids @ [i])"

text \<open>\<^verbatim>\<open>foldedState\<close> with the local variables of \<^verbatim>\<open>fold\<close>: the accepted and not yet drained queue, the
  drained and not yet injected inputs, the order of acceptance, and whether the session exists.\<close>

record folded =
  fo_completed :: bool
  fo_state :: phase
  fo_cursor :: nat
  fo_messages :: "message list"
  fo_markers :: "context_marker list"
  fo_usage :: usage
  fo_budget :: "usage_limits option"
  fo_scope :: "scope option"
  fo_drain_all :: bool
  fo_suspension :: "suspension option"
  fo_compaction :: "compaction option"
  fo_run :: "active_run option"
  fo_system :: "message option"
  fo_interrupt_run_id :: string
  fo_accepted :: "string \<rightharpoonup> queue_entry"
  fo_drained :: "string \<rightharpoonup> queue_entry"
  fo_order :: "string list"
  fo_created :: bool

definition empty_folded :: folded where
  "empty_folded =
     \<lparr>fo_completed = False, fo_state = Idle, fo_cursor = 0, fo_messages = [], fo_markers = [],
      fo_usage = zero_usage, fo_budget = None, fo_scope = None, fo_drain_all = False,
      fo_suspension = None, fo_compaction = None, fo_run = None, fo_system = None,
      fo_interrupt_run_id = '''', fo_accepted = Map.empty, fo_drained = Map.empty, fo_order = [],
      fo_created = False\<rparr>"

definition on_run :: "(active_run \<Rightarrow> active_run) \<Rightarrow> folded \<Rightarrow> folded" where
  "on_run g f = f\<lparr>fo_run := map_option g (fo_run f)\<rparr>"

text \<open>A committed message, which the active run expects in the result.\<close>

definition add_messages :: "message list \<Rightarrow> folded \<Rightarrow> folded" where
  "add_messages ms f =
     on_run (\<lambda>r. r\<lparr>ar_expected := ar_expected r @ ms\<rparr>) (f\<lparr>fo_messages := fo_messages f @ ms\<rparr>)"

definition system_first :: "message list \<Rightarrow> bool" where
  "system_first ms = (case ms of [] \<Rightarrow> False | m # _ \<Rightarrow> m_role m = RoleSystem)"

definition validateScope :: "string \<Rightarrow> scope \<Rightarrow> go_error option" where
  "validateScope i s =
     (if sc_depth s < 0 then Some (Plain ''session scope depth cannot be negative'')
      else if sc_session_id s \<noteq> i then Some (Plain ''session scope ID does not match session ID'')
      else if sc_parent_id s = sc_session_id s then Some (Plain ''session scope cannot be its own parent'')
      else if sc_depth s = 0 \<and> sc_parent_id s \<noteq> '''' then
        Some (Plain ''top-level session scope cannot have a parent'')
      else if sc_depth s > 0 \<and> (sc_parent_id s = '''' \<or> sc_agent s = '''') then
        Some (Plain ''child session scope requires a parent and agent'')
      else None)"

subsection \<open>Reading an entry\<close>

text \<open>\<^verbatim>\<open>applyRecoveredEvent\<close>, with the injected inputs taken from the drained ones before it.\<close>

definition apply_event :: "run_record \<Rightarrow> folded \<Rightarrow> folded result" where
  "apply_event e f =
     (case rn_payload e of
        PBroken \<Rightarrow> Inl (Plain ''decode event payload'')
      | PCompleted _ _ \<Rightarrow> Inr (f\<lparr>fo_completed := (fo_run f \<noteq> None)\<rparr>)
      | PAssistant m \<Rightarrow> Inr (add_messages [m] f)
      | PToolBatch calls \<Rightarrow> Inr (on_run (\<lambda>r. r\<lparr>ar_planned := ar_planned r @ calls\<rparr>) f)
      | PToolStarted call _ \<Rightarrow>
          Inr (on_run (\<lambda>r. r\<lparr>ar_started := insert_id (tu_id call) (ar_started r)\<rparr>) f)
      | PToolResult i name content is_error _ \<Rightarrow>
          Inr (on_run (\<lambda>r. r\<lparr>ar_results := insert_id i (ar_results r)\<rparr>)
                 (add_messages [NewToolResultMessageFor i name content is_error] f))
      | PInjected ms ids \<Rightarrow>
          Inr (on_run (\<lambda>r. r\<lparr>ar_injection_ids := []\<rparr>) (add_messages ms
                 (f\<lparr>fo_drained := fo_drained f |` (- set ids)\<rparr>)))
      | PTurnEnded _ run_usage \<Rightarrow>
          Inr (on_run (\<lambda>r. r\<lparr>ar_last_usage := run_usage\<rparr>)
                 (case rn_session_used e of None \<Rightarrow> f | Some u \<Rightarrow> f\<lparr>fo_usage := u\<rparr>))
      | PRunStarted \<Rightarrow>
          Inr (if fo_run f \<noteq> None \<and> fo_state f = Suspended
               then on_run (\<lambda>r. r\<lparr>ar_resume_event_seen := True\<rparr>) (f\<lparr>fo_state := Running\<rparr>) else f)
      | PSuspended s \<Rightarrow> Inr (f\<lparr>fo_suspension := Some s, fo_state := Suspended\<rparr>)
      | _ \<Rightarrow> Inr f)"

definition open_run :: "run_opened_payload \<Rightarrow> folded \<Rightarrow> folded" where
  "open_run p f =
     f\<lparr>fo_run := Some (new_run (od_id p) (if od_mode p = ''continue'' then DriveContinue else DriveStart)
         (providerHistory (fo_messages f) (fo_markers f)) [] (length (fo_markers f)) (od_limits p)
         (od_instructions p)),
       fo_completed := False, fo_state := Running, fo_suspension := None\<rparr>"

definition close_run :: "folded \<Rightarrow> folded" where
  "close_run f =
     f\<lparr>fo_interrupt_run_id := (case fo_run f of None \<Rightarrow> fo_interrupt_run_id f
         | Some r \<Rightarrow> if fo_interrupt_run_id f = ar_id r then '''' else fo_interrupt_run_id f),
       fo_run := None, fo_state := Idle, fo_suspension := None\<rparr>"

definition add_message_payload :: "message_payload \<Rightarrow> folded \<Rightarrow> folded" where
  "add_message_payload p f =
     (let f = (if mp_queue_id p \<noteq> '''' then f\<lparr>fo_drained := (fo_drained f)(mp_queue_id p := None)\<rparr> else f);
          f = f\<lparr>fo_messages := fo_messages f @ [mp_message p]\<rparr> in
      on_run (\<lambda>r. if mp_source p = ''next_turn'' then r\<lparr>ar_history := ar_history r @ [mp_message p]\<rparr>
                  else r\<lparr>ar_expected := ar_expected r @ [mp_message p]\<rparr>) f)"

definition add_system :: "message \<Rightarrow> folded \<Rightarrow> folded" where
  "add_system m f =
     (let f = f\<lparr>fo_system := Some m\<rparr>;
          f = (if system_first (fo_messages f) then f
               else f\<lparr>fo_markers := shiftContextMarkers 1 (fo_markers f),
                      fo_messages := m # fo_messages f\<rparr>) in
      on_run (\<lambda>r. if system_first (ar_history r) then r else r\<lparr>ar_history := m # ar_history r\<rparr>) f)"

definition fold_fact :: "fact \<Rightarrow> folded \<Rightarrow> folded result" where
  "fold_fact e f =
     (let f = f\<lparr>fo_cursor := Suc (fo_cursor f)\<rparr> in
      case e of
        BrokenFact kind \<Rightarrow> Inl (Plain (''decode '' @ kind @ '' entry''))
      | ChildEvent _ \<Rightarrow> Inr f
      | RunEvent r \<Rightarrow> apply_event r f
      | SessionCreated budget drain_all scope \<Rightarrow>
          let f = f\<lparr>fo_created := True, fo_drain_all := drain_all,
                    fo_budget := (case budget of None \<Rightarrow> fo_budget f | Some b \<Rightarrow> Some b)\<rparr> in
          (case scope of
             None \<Rightarrow> Inr f
           | Some s \<Rightarrow>
               (case validateScope (sc_session_id s) s of
                  Some e \<Rightarrow> Inl (wrap_cause ''invalid persisted session scope'' e)
                | None \<Rightarrow> Inr (f\<lparr>fo_scope := Some s\<rparr>)))
      | RunOpened p \<Rightarrow> Inr (open_run p f)
      | RunRecovered p \<Rightarrow>
          (if (case fo_run f of None \<Rightarrow> True | Some r \<Rightarrow> ar_id r \<noteq> od_id p) then
             Inl (wrap_kind ErrCorruptLog ''recovery changed the active run identity'')
           else Inr (open_run p f))
      | RunClosed _ _ _ \<Rightarrow> Inr (close_run f)
      | MessageAdded p \<Rightarrow> Inr (add_message_payload p f)
      | SystemMessage p \<Rightarrow> Inr (add_system (mp_message p) f)
      | RepairAdded p \<Rightarrow> Inr (add_messages [mp_message p] f)
      | QueueAccepted i None \<Rightarrow> Inl (Plain ''accepted queue entry has no payload'')
      | QueueAccepted i (Some q) \<Rightarrow>
          Inr (f\<lparr>fo_accepted := (fo_accepted f)(i \<mapsto> q), fo_order := fo_order f @ [i]\<rparr>)
      | QueueDrained i \<Rightarrow>
          Inr (f\<lparr>fo_drained := (case fo_accepted f i of None \<Rightarrow> fo_drained f
                    | Some q \<Rightarrow> (fo_drained f)(i \<mapsto> q)),
                 fo_accepted := (fo_accepted f)(i := None)\<rparr>)
      | QueueCancelled i _ \<Rightarrow>
          Inr (f\<lparr>fo_accepted := (fo_accepted f)(i := None), fo_drained := (fo_drained f)(i := None)\<rparr>)
      | CommandAccepted c \<Rightarrow>
          Inr (if ca_kind c = ''interrupt'' \<and> ca_rejection c = ''''
               then f\<lparr>fo_interrupt_run_id := ca_run_id c\<rparr> else f)
      | UsageCommitted run session \<Rightarrow>
          Inr (on_run (\<lambda>r. r\<lparr>ar_last_usage := run\<rparr>) (f\<lparr>fo_usage := session\<rparr>))
      | ChildUsage _ session \<Rightarrow>
          Inr (on_run (\<lambda>r. r\<lparr>ar_child_charged := True\<rparr>) (f\<lparr>fo_usage := session\<rparr>))
      | RecoverySuspension s \<Rightarrow> Inr (f\<lparr>fo_suspension := Some s, fo_state := Suspended\<rparr>)
      | SessionFault _ \<Rightarrow> Inr (f\<lparr>fo_state := Faulted\<rparr>)
      | InterruptMarker t \<Rightarrow>
          Inr (f\<lparr>fo_markers := fo_markers f @
            [\<lparr>mk_after = int (length (fo_messages f)), mk_message = interruptionContextMessage t\<rparr>]\<rparr>)
      | ContextMessage after m \<Rightarrow>
          (if after < 0 \<or> after > int (length (fo_messages f)) then
             Inl (wrap_kind ErrCorruptLog ''invalid context marker position'')
           else Inr (f\<lparr>fo_markers := fo_markers f @ [\<lparr>mk_after = after, mk_message = m\<rparr>]\<rparr>))
      | Compacted c \<Rightarrow> Inr (f\<lparr>fo_compaction := Some c\<rparr>)
      | _ \<Rightarrow> Inr f)"

fun fold_facts :: "fact list \<Rightarrow> folded \<Rightarrow> folded result" where
  "fold_facts [] f = Inr f"
| "fold_facts (e # es) f =
     (case fold_fact e f of Inl x \<Rightarrow> Inl x | Inr f' \<Rightarrow> fold_facts es f')"

text \<open>The system message of the log is first, whatever was inserted before it.\<close>

definition finish_fold :: "folded \<Rightarrow> folded" where
  "finish_fold f =
     (case fo_system f of
        None \<Rightarrow> f
      | Some m \<Rightarrow>
          if system_first (fo_messages f) then f
          else f\<lparr>fo_markers := shiftContextMarkers 1 (fo_markers f), fo_messages := m # fo_messages f\<rparr>)"

definition fold_log :: "fact list \<Rightarrow> folded result" where
  "fold_log es =
     (case fold_facts es empty_folded of
        Inl e \<Rightarrow> Inl e
      | Inr f \<Rightarrow>
          if \<not> fo_created f then Inl (wrap_kind ErrCorruptLog ''missing session-created entry'')
          else Inr (finish_fold f))"

text \<open>The queue and the unapplied inputs, in the order of acceptance.\<close>

definition folded_queue :: "folded \<Rightarrow> queue_entry list" where
  "folded_queue f = List.map_filter (fo_accepted f) (fo_order f)"

definition folded_unapplied :: "folded \<Rightarrow> queue_entry list" where
  "folded_unapplied f = List.map_filter (fo_drained f) (fo_order f)"

end
