(* ===== verification/Session_State.thy ===== *)
theory Session_State
  imports Session_Log
begin

text \<open>
  The live session (harness/session: session.go, execution.go, finalize.go, context.go, interrupt.go,
  operation.go, capture.go, acceptance_failure.go).  Every handler is one step of the session and its
  journal.  Where a handler releases the mutex to call out and then checks everything again, the step
  is its last critical section, which repeats the checks of the first.

  The journal answers an append in one of three ways: the batch is stored, it is refused, or it is
  stored and the answer is lost.  The cursor of the session is the sequence number it last knew;
  the journal refuses any other.  Publication to the event hub and the cancellation of contexts
  have no part in the state.
\<close>

subsection \<open>The session and its journal\<close>

record session =
  s_id :: string
  s_scope :: scope
  s_state :: phase
  s_fault :: "session_error option"
  s_acceptance_fault :: "session_error option"
  s_cursor :: nat
  s_messages :: "message list"
  s_markers :: "context_marker list"
  s_queue :: "queue_entry list"
  s_usage :: usage
  s_budget :: "usage_limits option"
  s_drain_all :: bool
  s_suspension :: "suspension option"
  s_compaction :: "compaction option"
  s_run :: "active_run option"
  s_cancel :: bool
  s_recovery_inputs :: "queue_entry list"

text \<open>What the session calls: codecs, copies, hashes and the planner of resumptions.\<close>

record services =
  vc_encode :: "fact \<Rightarrow> go_error option"
  vc_event_error :: "event \<Rightarrow> go_error option"
  vc_encode_messages :: "message list \<Rightarrow> string result"
  vc_clone :: "message list \<Rightarrow> message list result"
  vc_marshal :: "content_value \<Rightarrow> string result"
  vc_encode_recovery :: "pending_call list \<Rightarrow> string result"
  vc_decode_recovery :: "string \<Rightarrow> (int \<times> pending_call list) result"
  vc_recovery_hash :: "message list \<Rightarrow> tool_use list \<Rightarrow> string result"
  vc_plan :: "suspension \<Rightarrow> resume_request \<Rightarrow> tool_resume_decision list result"

datatype reply = Stored | Refused go_error | Lost go_error

definition journal_append :: "reply \<Rightarrow> nat \<Rightarrow> fact list \<Rightarrow> fact list \<Rightarrow> fact list \<times> nat result" where
  "journal_append reply cursor facts j =
     (if cursor \<noteq> length j then (j, Inl (Sentinel ErrConflict))
      else (case reply of
              Stored \<Rightarrow> (j @ facts, Inr (length j + length facts))
            | Refused e \<Rightarrow> (j, Inl e)
            | Lost e \<Rightarrow> (j @ facts, Inl e)))"

type_synonym 'a sresult = "session_error + 'a"

type_synonym world = "session \<times> fact list"

definition transition :: "phase \<Rightarrow> session \<Rightarrow> session" where
  "transition p s = s\<lparr>s_state := p\<rparr>"

definition faultLocked :: "session_error \<Rightarrow> session \<Rightarrow> session" where
  "faultLocked cause s = s\<lparr>s_fault := Some cause, s_state := Faulted, s_cancel := False\<rparr>"

definition fault_of :: "session \<Rightarrow> session_error" where
  "fault_of s = FaultError (s_id s) (case s_fault s of None \<Rightarrow> SessionError ''<nil>'' | Some e \<Rightarrow> e)"

fun encode_all :: "services \<Rightarrow> fact list \<Rightarrow> go_error option" where
  "encode_all v [] = None"
| "encode_all v (e # es) = (case vc_encode v e of Some x \<Rightarrow> Some x | None \<Rightarrow> encode_all v es)"

text \<open>Encode and append; any failure faults the session.  An empty batch is not appended.\<close>

definition commit_or_fault :: "services \<Rightarrow> reply \<Rightarrow> fact list \<Rightarrow> world \<Rightarrow> world \<times> go_error option" where
  "commit_or_fault v reply facts w =
     (case w of (s, j) \<Rightarrow>
       (case encode_all v facts of
          Some e \<Rightarrow> ((faultLocked (Cause e) s, j), Some e)
        | None \<Rightarrow>
            (case journal_append reply (s_cursor s) facts j of
               (j', Inl e) \<Rightarrow> ((faultLocked (Cause e) s, j'), Some e)
             | (j', Inr cursor) \<Rightarrow> ((s\<lparr>s_cursor := cursor\<rparr>, j'), None))))"

definition on_session :: "(session \<Rightarrow> session) \<Rightarrow> world \<Rightarrow> world" where
  "on_session g w = (g (fst w), snd w)"

definition update_run :: "(active_run \<Rightarrow> active_run) \<Rightarrow> session \<Rightarrow> session" where
  "update_run g s = s\<lparr>s_run := map_option g (s_run s)\<rparr>"

definition session_messages :: "message list \<Rightarrow> session \<Rightarrow> session" where
  "session_messages ms s =
     update_run (\<lambda>r. r\<lparr>ar_expected := ar_expected r @ ms\<rparr>) (s\<lparr>s_messages := s_messages s @ ms\<rparr>)"

definition messages_equal :: "services \<Rightarrow> message list \<Rightarrow> message list \<Rightarrow> bool" where
  "messages_equal v left right =
     (if length left \<noteq> length right then False
      else if left = [] then True
      else (case (vc_encode_messages v left, vc_encode_messages v right) of
              (Inr a, Inr b) \<Rightarrow> a = b | _ \<Rightarrow> False))"

definition session_limits :: "session \<Rightarrow> usage_limits option result" where
  "session_limits s =
     (case s_budget s of
        None \<Rightarrow> Inr None
      | Some b \<Rightarrow> (case remainingLimits b (s_usage s) of Inl e \<Rightarrow> Inl e | Inr l \<Rightarrow> Inr (Some l)))"

subsection \<open>Acceptance\<close>

text \<open>An append that accepts a command.  Its failure is remembered until the session is closed.\<close>

definition appendAcceptanceLocked ::
  "go_error option \<Rightarrow> reply \<Rightarrow> fact list \<Rightarrow> world \<Rightarrow> world \<times> session_error option" where
  "appendAcceptanceLocked ctx reply facts w =
     (case w of (s, j) \<Rightarrow>
       (case ctx of
          Some e \<Rightarrow> ((s, j), Some (Cause e))
        | None \<Rightarrow>
            (case journal_append reply (s_cursor s) facts j of
               (j', Inr cursor) \<Rightarrow> ((s\<lparr>s_cursor := cursor\<rparr>, j'), None)
             | (j', Inl e) \<Rightarrow>
                 ((faultLocked (Cause e) (s\<lparr>s_acceptance_fault := Some (Cause e)\<rparr>), j'),
                  Some (FaultError (s_id s) (Cause e))))))"

definition acceptanceErrorLocked :: "queue_kind \<Rightarrow> session \<Rightarrow> session_error option" where
  "acceptanceErrorLocked kind s =
     (if s_state s = Faulted then Some (fault_of s)
      else if s_state s = Closed then Some SessionClosed
      else if kind = QueueNextTurn then None
      else (case s_state s of
              Closing \<Rightarrow> Some RunClosing
            | Running \<Rightarrow> None
            | Suspended \<Rightarrow> Some SessionSuspended
            | _ \<Rightarrow> Some NotRunning))"

definition staleTargetLocked :: "string \<Rightarrow> session \<Rightarrow> session_error option" where
  "staleTargetLocked target s =
     (if target = '''' then None
      else if (case s_run s of None \<Rightarrow> True | Some r \<Rightarrow> ar_id r \<noteq> target) then Some (StaleRunTarget target)
      else None)"

text \<open>The optional command of the session loop, with the field the acceptance fills in.\<close>

definition command_facts :: "(command_payload \<Rightarrow> command_payload) \<Rightarrow> command_payload option \<Rightarrow> fact list" where
  "command_facts g command = (case command of None \<Rightarrow> [] | Some c \<Rightarrow> [CommandAccepted (g c)])"

definition acceptWithCursorCommand ::
  "services \<Rightarrow> go_error option \<Rightarrow> reply \<Rightarrow> int \<Rightarrow> string result \<Rightarrow> queue_kind \<Rightarrow> message \<Rightarrow> string \<Rightarrow>
     command_payload option \<Rightarrow> world \<Rightarrow> world \<times> (string \<times> nat) sresult" where
  "acceptWithCursorCommand v ctx reply clock new_id kind message target command w =
     (let s = fst w in
      if m_role message \<noteq> RoleUser then (w, Inl InvalidMessage)
      else (case acceptanceErrorLocked kind s of
        Some e \<Rightarrow> (w, Inl e)
      | None \<Rightarrow>
      (case staleTargetLocked target s of
        Some e \<Rightarrow> (w, Inl e)
      | None \<Rightarrow>
      (case new_id of
        Inl e \<Rightarrow> (w, Inl (Cause e))
      | Inr i \<Rightarrow>
          let q = \<lparr>qe_id = i, qe_kind = kind, qe_message = message, qe_accepted = clock\<rparr>;
              facts = QueueAccepted i (Some q) # command_facts (\<lambda>c. c\<lparr>ca_queue_id := i\<rparr>) command in
          (case encode_all v facts of
             Some e \<Rightarrow> (w, Inl (Cause e))
           | None \<Rightarrow>
               (case appendAcceptanceLocked ctx reply facts w of
                  (w, Some e) \<Rightarrow> (w, Inl e)
                | (w, None) \<Rightarrow>
                    (on_session (\<lambda>s. s\<lparr>s_queue := s_queue s @ [q]\<rparr>) w, Inr (i, s_cursor (fst w)))))))))"

definition removeQueueLocked :: "string \<Rightarrow> session \<Rightarrow> session" where
  "removeQueueLocked i s =
     s\<lparr>s_queue := takeWhile (\<lambda>q. qe_id q \<noteq> i) (s_queue s) @ tl (dropWhile (\<lambda>q. qe_id q \<noteq> i) (s_queue s))\<rparr>"

definition remove_all :: "queue_entry list \<Rightarrow> session \<Rightarrow> session" where
  "remove_all qs s = foldl (\<lambda>s q. removeQueueLocked (qe_id q) s) s qs"

definition queueByKindsLocked :: "queue_kind list \<Rightarrow> session \<Rightarrow> queue_entry list" where
  "queueByKindsLocked kinds s = filter (\<lambda>q. qe_kind q \<in> set kinds) (s_queue s)"

subsection \<open>Starting a run\<close>

definition promptErrorLocked :: "session \<Rightarrow> session_error option" where
  "promptErrorLocked s =
     (case s_state s of
        Faulted \<Rightarrow> Some (fault_of s)
      | Suspended \<Rightarrow> Some SessionSuspended
      | Closed \<Rightarrow> Some SessionClosed
      | Idle \<Rightarrow> None
      | _ \<Rightarrow> Some SessionBusy)"

record accepted_start =
  st_run_id :: string
  st_history :: "message list"
  st_prompt :: message
  st_limits :: "usage_limits option"

definition start_facts ::
  "string \<Rightarrow> usage_limits option \<Rightarrow> string \<Rightarrow> queue_entry list \<Rightarrow> message \<Rightarrow> command_payload option \<Rightarrow>
     fact list" where
  "start_facts i limits instructions next prompt command =
     RunOpened \<lparr>od_id = i, od_mode = ''start'', od_recovery = False, od_limits = limits,
       od_instructions = instructions\<rparr> #
     concat (map (\<lambda>q. [QueueDrained (qe_id q), MessageAdded \<lparr>mp_message = qe_message q,
       mp_source = ''next_turn'', mp_queue_id = qe_id q\<rparr>]) next) @
     [MessageAdded \<lparr>mp_message = prompt, mp_source = ''prompt'', mp_queue_id = ''''\<rparr>] @
     command_facts (\<lambda>c. c\<lparr>ca_run_id := i\<rparr>) command"

definition started ::
  "string \<Rightarrow> usage_limits option \<Rightarrow> string \<Rightarrow> queue_entry list \<Rightarrow> message \<Rightarrow> session \<Rightarrow> session" where
  "started i limits instructions next prompt s =
     (let ms = s_messages s @ map qe_message next in
      transition Running ((remove_all next s)
        \<lparr>s_messages := ms @ [prompt], s_cancel := True,
         s_run := Some (new_run i DriveStart (providerHistory ms (s_markers s)) [prompt]
           (length (s_markers s)) limits instructions)\<rparr>))"

definition prepareStartWithCommand ::
  "services \<Rightarrow> go_error option \<Rightarrow> reply \<Rightarrow> string result \<Rightarrow> string result \<Rightarrow> message \<Rightarrow>
     command_payload option \<Rightarrow> world \<Rightarrow> world \<times> accepted_start sresult" where
  "prepareStartWithCommand v ctx reply new_id instructions prompt command w =
     (let s = fst w in
      if m_role prompt \<noteq> RoleUser then (w, Inl InvalidMessage)
      else (case promptErrorLocked s of
        Some e \<Rightarrow> (w, Inl e)
      | None \<Rightarrow>
      (case new_id of
        Inl e \<Rightarrow> (w, Inl (Cause e))
      | Inr i \<Rightarrow>
      (case instructions of
        Inl e \<Rightarrow> (w, Inl (Cause (wrap_cause ''resolve exchange instructions'' e)))
      | Inr text \<Rightarrow>
      (case session_limits s of
        Inl e \<Rightarrow> (w, Inl (Cause e))
      | Inr limits \<Rightarrow>
          let next = queueByKindsLocked [QueueNextTurn] s;
              facts = start_facts i limits text next prompt command in
          (case encode_all v facts of
             Some e \<Rightarrow> (w, Inl (Cause e))
           | None \<Rightarrow>
               (case appendAcceptanceLocked ctx reply facts w of
                  (w, Some e) \<Rightarrow> (w, Inl e)
                | (w, None) \<Rightarrow>
                    (on_session (started i limits text next prompt) w,
                     Inr \<lparr>st_run_id = i,
                       st_history = providerHistory (s_messages s @ map qe_message next) (s_markers s),
                       st_prompt = prompt, st_limits = limits\<rparr>))))))))"

subsection \<open>During a run\<close>

text \<open>The turn hook: steering goes first, and follow-ups only behind a candidate.\<close>

definition hook_entries :: "bool \<Rightarrow> session \<Rightarrow> queue_entry list" where
  "hook_entries candidate s =
     (let entries = queueByKindsLocked [QueueSteer] s;
          entries = (if entries = [] \<and> candidate then queueByKindsLocked [QueueFollowUp] s else entries) in
      if s_drain_all s then entries else take 1 entries)"

definition child_budget_error :: "session \<Rightarrow> go_error option" where
  "child_budget_error s =
     (case (s_run s, s_budget s) of
        (Some r, Some b) \<Rightarrow>
          if ar_child_charged r then
            (case remainingLimits b (s_usage s) of Inl e \<Rightarrow> Some e | Inr _ \<Rightarrow> None)
          else None
      | _ \<Rightarrow> None)"

definition turnHook :: "services \<Rightarrow> reply \<Rightarrow> bool \<Rightarrow> world \<Rightarrow> world \<times> turn_decision sresult" where
  "turnHook v reply candidate w =
     (let s = fst w; none = Inr \<lparr>td_action = TurnDefault, td_inject = []\<rparr> in
      if s_state s = Faulted then (w, Inl (fault_of s))
      else if s_state s = Interrupting then (w, Inl (Cause (Sentinel CtxCanceled)))
      else if s_state s \<noteq> Running \<or> s_run s = None then
        (w, Inl (SessionError (''turn hook observed session state '' @ phase_text (s_state s))))
      else
        let entries = hook_entries candidate s; over = child_budget_error s in
        if entries = [] then
          (if candidate then (on_session (transition Closing) w, none)
           else (case over of
                   Some e \<Rightarrow> (on_session (transition Closing) w, Inl (Cause e))
                 | None \<Rightarrow> (w, none)))
        else (case over of
                Some e \<Rightarrow> (on_session (transition Closing) w, Inl (Cause e))
              | None \<Rightarrow>
                  (case commit_or_fault v reply (map (\<lambda>q. QueueDrained (qe_id q)) entries) w of
                     (w, Some e) \<Rightarrow> (w, Inl (Cause e))
                   | (w, None) \<Rightarrow>
                       (on_session (\<lambda>s. update_run (\<lambda>r. r\<lparr>ar_injection_ids := map qe_id entries\<rparr>)
                          (remove_all entries s)) w,
                        Inr \<lparr>td_action = TurnContinue, td_inject = map qe_message entries\<rparr>))))"

text \<open>\<^verbatim>\<open>FromAgentic\<close>: the payload of a durable event.\<close>

fun event_turn :: "event \<Rightarrow> int" where
  "event_turn (TextPreview t _) = t"
| "event_turn (ThinkingPreview t _ _ _ _) = t"
| "event_turn (ToolCallPreview t _) = t"
| "event_turn (ToolArgumentPreview t _ _) = t"
| "event_turn (AssistantCommitted t _) = t"
| "event_turn (ToolBatchPlanned t _) = t"
| "event_turn (ToolStarted t _ _) = t"
| "event_turn (ToolResultCommitted t _) = t"
| "event_turn (OutputValidated t _) = t"
| "event_turn (TurnMessagesInjected t _) = t"
| "event_turn (RunStarted t) = t"
| "event_turn (TurnStarted t) = t"
| "event_turn (TurnEnded t _ _) = t"
| "event_turn (RunSuspended t _) = t"
| "event_turn (RunCompleted t _ _) = t"
| "event_turn (RunInterrupted t) = t"
| "event_turn (RunError t _) = t"
| "event_turn (RunEnded t _) = t"

definition event_payload :: "services \<Rightarrow> event \<Rightarrow> string list \<Rightarrow> run_payload" where
  "event_payload v e ids =
     (case e of
        AssistantCommitted _ m \<Rightarrow> PAssistant m
      | ToolBatchPlanned _ calls \<Rightarrow> PToolBatch calls
      | ToolStarted _ call attempt \<Rightarrow> PToolStarted call attempt
      | ToolResultCommitted _ r \<Rightarrow>
          PToolResult (er_tool_use_id r) (er_tool_name r) (FormatToolResult (vc_marshal v) (er_content r))
            (er_is_error r) (case er_error r of None \<Rightarrow> '''' | Some x \<Rightarrow> err_text x)
      | OutputValidated _ c \<Rightarrow> POutputValidated c
      | TurnMessagesInjected _ ms \<Rightarrow> PInjected ms ids
      | RunStarted _ \<Rightarrow> PRunStarted
      | TurnStarted _ \<Rightarrow> PTurnStarted
      | TurnEnded _ c u \<Rightarrow> PTurnEnded c u
      | RunSuspended _ s \<Rightarrow> PSuspended s
      | RunCompleted _ u r \<Rightarrow> PCompleted u r
      | RunInterrupted _ \<Rightarrow> PRunInterrupted
      | RunError _ x \<Rightarrow> PRunError (err_text x)
      | RunEnded _ status \<Rightarrow> PRunEnded status
      | _ \<Rightarrow> PBroken)"

definition applyAgenticEventLocked :: "services \<Rightarrow> event \<Rightarrow> session \<Rightarrow> session" where
  "applyAgenticEventLocked v e s =
     (case e of
        AssistantCommitted _ m \<Rightarrow> session_messages [m] s
      | ToolResultCommitted _ r \<Rightarrow>
          update_run (\<lambda>a. a\<lparr>ar_results := insert_id (er_tool_use_id r) (ar_results a)\<rparr>)
            (session_messages [NewToolResultMessageFor (er_tool_use_id r) (er_tool_name r)
               (FormatToolResult (vc_marshal v) (er_content r)) (er_is_error r)] s)
      | ToolBatchPlanned _ calls \<Rightarrow> update_run (\<lambda>a. a\<lparr>ar_planned := ar_planned a @ calls\<rparr>) s
      | ToolStarted _ call _ \<Rightarrow>
          update_run (\<lambda>a. a\<lparr>ar_started := insert_id (tu_id call) (ar_started a)\<rparr>) s
      | TurnMessagesInjected _ ms \<Rightarrow> update_run (\<lambda>a. a\<lparr>ar_injection_ids := []\<rparr>) (session_messages ms s)
      | TurnStarted t \<Rightarrow> update_run (\<lambda>a. a\<lparr>ar_turn := t, ar_preview_ordinal := 0\<rparr>) s
      | RunStarted _ \<Rightarrow>
          update_run (\<lambda>a. if ar_resume_in_progress a then a\<lparr>ar_resume_event_seen := True\<rparr> else a) s
      | RunSuspended _ x \<Rightarrow> s\<lparr>s_suspension := Some x\<rparr>
      | _ \<Rightarrow> s)"

text \<open>A preview moves the ordinal of the turn only.\<close>

definition emit_preview :: "event \<Rightarrow> session \<Rightarrow> session" where
  "emit_preview e s =
     update_run (\<lambda>r.
       let r = (if ar_turn r \<noteq> event_turn e then r\<lparr>ar_turn := event_turn e, ar_preview_ordinal := 0\<rparr> else r) in
       r\<lparr>ar_preview_ordinal := Suc (ar_preview_ordinal r)\<rparr>) s"

definition next_usage :: "event \<Rightarrow> active_run \<Rightarrow> session \<Rightarrow> usage option result" where
  "next_usage e r s =
     (case e of
        TurnEnded _ _ u \<Rightarrow>
          (case usageDelta u (ar_last_usage r) of
             Inl x \<Rightarrow> Inl x | Inr delta \<Rightarrow> Inr (Some (addUsage (s_usage s) delta)))
      | _ \<Rightarrow> Inr None)"

definition settle_turn :: "event \<Rightarrow> usage option \<Rightarrow> session \<Rightarrow> session" where
  "settle_turn e used s =
     (case (e, used) of
        (TurnEnded _ _ u, Some total_used) \<Rightarrow>
          update_run (\<lambda>r. r\<lparr>ar_last_usage := u\<rparr>) (s\<lparr>s_usage := total_used\<rparr>)
      | _ \<Rightarrow> s)"

definition fault_once :: "go_error \<Rightarrow> session \<Rightarrow> session" where
  "fault_once e s = (if s_state s = Faulted then s else faultLocked (Cause e) s)"

definition session_Emit :: "services \<Rightarrow> reply \<Rightarrow> event \<Rightarrow> world \<Rightarrow> world \<times> session_error option" where
  "session_Emit v reply e w =
     (case vc_event_error v e of
        Some x \<Rightarrow> (if event_Nature e = EventPreview then w else on_session (fault_once x) w, Some (Cause x))
      | None \<Rightarrow>
          if event_Nature e = EventPreview then (on_session (emit_preview e) w, None)
          else
            let s = fst w in
            if s_state s = Faulted then (w, Some (fault_of s))
            else (case s_run s of
                    None \<Rightarrow> (w, Some (SessionError ''agentic event emitted without an active session run''))
                  | Some r \<Rightarrow>
                      (case next_usage e r s of
                         Inl x \<Rightarrow> (on_session (faultLocked (Cause x)) w, Some (Cause x))
                       | Inr used \<Rightarrow>
                           (case commit_or_fault v reply
                              [RunEvent \<lparr>rn_turn = event_turn e,
                                 rn_payload = event_payload v e (ar_injection_ids r),
                                 rn_session_used = used\<rparr>] w of
                              (w, Some x) \<Rightarrow> (w, Some (Cause x))
                            | (w, None) \<Rightarrow>
                                (on_session (settle_turn e used \<circ> applyAgenticEventLocked v e) w, None)))))"

subsection \<open>Context projection\<close>

definition contextViewsLocked :: "message list \<Rightarrow> session \<Rightarrow> message list \<times> message list" where
  "contextViewsLocked rootMessages s =
     (let shift = system_first rootMessages \<and> \<not> system_first (s_messages s);
          base = (if shift then hd rootMessages # s_messages s else s_messages s);
          markers = (if shift then shiftContextMarkers 1 (s_markers s) else s_markers s);
          included = (case s_run s of None \<Rightarrow> 0 | Some r \<Rightarrow> ar_marker_count r) in
      (providerHistory base (take included markers), providerHistory base markers))"

definition project_view :: "services \<Rightarrow> message list \<Rightarrow> world \<Rightarrow> world \<times> message list sresult" where
  "project_view v rootMessages w =
     (let s = fst w in
      if s_state s = Faulted then (w, Inl (fault_of s))
      else if s_run s = None then
        (w, Inl (ProjectionMismatch ''context policy observed no active run''))
      else
        let (expected, full) = contextViewsLocked rootMessages s;
            cause = ProjectionMismatch ''driver history differs before context projection'' in
        if \<not> messages_equal v expected rootMessages then (on_session (faultLocked cause) w, Inl cause)
        else (w, Inr full))"

definition projection_facts :: "context_projection \<Rightarrow> nat \<Rightarrow> fact list" where
  "projection_facts p after =
     map (\<lambda>m. ContextMessage (int after) m) (cj_additions p) @
     (if cj_changed p then (case cj_compaction p of None \<Rightarrow> [] | Some c \<Rightarrow> [Compacted c]) else [])"

definition projection_committed :: "context_projection \<Rightarrow> nat \<Rightarrow> session \<Rightarrow> session" where
  "projection_committed p after s =
     s\<lparr>s_markers := s_markers s @
         map (\<lambda>m. \<lparr>mk_after = int after, mk_message = m\<rparr>) (cj_additions p),
       s_compaction := (if cj_changed p then cj_compaction p else s_compaction s)\<rparr>"

definition commit_projection ::
  "services \<Rightarrow> reply \<Rightarrow> context_projection \<Rightarrow> world \<Rightarrow> world \<times> session_error option" where
  "commit_projection v reply p w =
     (let s = fst w in
      if s_state s = Faulted then (w, Some (fault_of s))
      else if s_state s \<noteq> Running \<or> s_run s = None then (w, Some (Cause (Sentinel CtxCanceled)))
      else
        let after = length (s_messages s); facts = projection_facts p after in
        if facts = [] then (w, None)
        else (case commit_or_fault v reply facts w of
                (w, Some e) \<Rightarrow> (w, Some (Cause e))
              | (w, None) \<Rightarrow> (on_session (projection_committed p after) w, None)))"

fun append_instructions :: "string \<Rightarrow> message list \<Rightarrow> message list option" where
  "append_instructions t [] = None"
| "append_instructions t (m # ms) =
     (if m_role m = RoleSystem then
        Some (m\<lparr>m_content := m_content m @ [(zero_part ContentText)
          \<lparr>p_text := [CHR 0x0A, CHR 0x0A] @ t\<rparr>]\<rparr> # ms)
      else map_option (Cons m) (append_instructions t ms))"

definition appendExchangeInstructions :: "message list \<Rightarrow> string \<Rightarrow> message list" where
  "appendExchangeInstructions messages instructions =
     (if instructions = '''' then messages
      else (case append_instructions instructions messages of
              Some ms \<Rightarrow> ms
            | None \<Rightarrow> NewTextMessage RoleSystem instructions # messages))"

text \<open>\<^verbatim>\<open>projectHistory\<close>, where nothing comes between its two critical sections.\<close>

definition projectHistory ::
  "services \<Rightarrow> reply \<Rightarrow> (message list \<Rightarrow> compaction option \<Rightarrow> context_projection result) \<Rightarrow>
     message list \<Rightarrow> world \<Rightarrow> world \<times> message list sresult" where
  "projectHistory v reply policy rootMessages w =
     (case project_view v rootMessages w of
        (w, Inl e) \<Rightarrow> (w, Inl e)
      | (w, Inr full) \<Rightarrow>
          let instructions = (case s_run (fst w) of None \<Rightarrow> '''' | Some r \<Rightarrow> ar_instructions r) in
          (case policy full (s_compaction (fst w)) of
             Inl e \<Rightarrow> (w, Inl (Cause e))
           | Inr p \<Rightarrow>
               (case commit_projection v reply p w of
                  (w, Some e) \<Rightarrow> (w, Inl e)
                | (w, None) \<Rightarrow>
                    (case Process (vc_clone v) (appendExchangeInstructions (cj_messages p) instructions)
                            CloseInterruptedFrontier \<lparr>pn_calls = [], pn_reason = ''''\<rparr> of
                       Inl e \<Rightarrow> (w, Inl (Cause e))
                     | Inr ms \<Rightarrow> (w, Inr ms)))))"

end
