(* ===== verification/Session_Settle.thy ===== *)
theory Session_Settle
  imports Session_State
begin

text \<open>
  How a run of a session ends, is interrupted or resumed (harness/session: finalize.go, interrupt.go,
  resume.go), and the writes a running tool can cause (operation.go, capture.go, close.go).
\<close>

subsection \<open>What the driver returns\<close>

text \<open>An execution as the session reads it: \<open>rt_new_messages\<close> is \<^verbatim>\<open>Result.NewMessages()\<close>.\<close>

record run_report =
  rt_messages :: "message list"
  rt_new_messages :: "message list"
  rt_usage :: usage

record outcome =
  oc_status :: execution_status
  oc_report :: "run_report option"
  oc_suspension :: "suspension option"

definition outcome_report :: "outcome option \<Rightarrow> run_report option" where
  "outcome_report x = (case x of None \<Rightarrow> None | Some x \<Rightarrow> oc_report x)"

definition persistFaultLocked :: "services \<Rightarrow> reply \<Rightarrow> session_error \<Rightarrow> world \<Rightarrow> world \<times> session_error option" where
  "persistFaultLocked v reply cause w =
     (case w of (s, j) \<Rightarrow>
       let msg = session_error_text cause; (s, j) =
         (case vc_encode v (SessionFault msg) of
            Some _ \<Rightarrow> (s, j)
          | None \<Rightarrow>
              (case journal_append reply (s_cursor s) [SessionFault msg] j of
                 (j, Inl _) \<Rightarrow> (s, j)
               | (j, Inr cursor) \<Rightarrow> (s\<lparr>s_cursor := cursor\<rparr>, j))) in
       ((faultLocked cause s, j), Some (FaultError (s_id s) cause)))"

text \<open>The system message the driver put in front of the history, if the result agrees with what was
  committed.\<close>

definition validateProjectionLocked ::
  "services \<Rightarrow> outcome option \<Rightarrow> session \<Rightarrow> message option sresult" where
  "validateProjectionLocked v execution s =
     (case (outcome_report execution, s_run s) of
        (Some x, Some r) \<Rightarrow>
          (let full = rt_messages x;
               inserted = system_first full \<and>
                 (ar_history r = [] \<or> \<not> messages_equal v (take 1 full) (take 1 (ar_history r)));
               rest = (if inserted then tl full else full);
               actual = drop (length (ar_history r)) rest;
               public = drop (ar_public_new_start r) (ar_expected r) in
           if length rest < length (ar_history r) \<or>
              \<not> messages_equal v (take (length (ar_history r)) rest) (ar_history r) then
             Inl (ProjectionMismatch ''result history prefix differs from the durable input'')
           else if \<not> messages_equal v actual (ar_expected r) then
             Inl (ProjectionMismatch (''result contains '' @ show_nat (length actual) @ '' new messages but '' @
               show_nat (length (ar_expected r)) @ '' were synchronously committed''))
           else if length (rt_new_messages x) < length public \<or>
              \<not> messages_equal v (drop (length (rt_new_messages x) - length public) (rt_new_messages x)) public then
             Inl (ProjectionMismatch ''Result.NewMessages is not the committed suffix'')
           else Inr (if inserted then Some (hd full) else None))
      | _ \<Rightarrow> Inr None)"

text \<open>The usage a result adds to what the turns committed: the run's usage and the session's total.\<close>

definition settle_usage :: "outcome option \<Rightarrow> session \<Rightarrow> (usage \<times> usage) option result" where
  "settle_usage execution s =
     (case (outcome_report execution, s_run s) of
        (Some x, Some r) \<Rightarrow>
          (case usageDelta (rt_usage x) (ar_last_usage r) of
             Inl e \<Rightarrow> Inl e
           | Inr delta \<Rightarrow>
               if usageEmpty delta then Inr None
               else Inr (Some (rt_usage x, addUsage (s_usage s) delta)))
      | _ \<Rightarrow> Inr None)"

definition usage_facts :: "(usage \<times> usage) option \<Rightarrow> fact list" where
  "usage_facts u = (case u of None \<Rightarrow> [] | Some (run, spent) \<Rightarrow> [UsageCommitted run spent])"

definition system_facts :: "message option \<Rightarrow> fact list" where
  "system_facts m = (case m of None \<Rightarrow> []
     | Some m \<Rightarrow> [SystemMessage \<lparr>mp_message = m, mp_source = ''driver_system'', mp_queue_id = ''''\<rparr>])"

definition put_usage :: "(usage \<times> usage) option \<Rightarrow> session \<Rightarrow> session" where
  "put_usage u s = (case u of None \<Rightarrow> s | Some (_, spent) \<Rightarrow> s\<lparr>s_usage := spent\<rparr>)"

definition put_system :: "message option \<Rightarrow> session \<Rightarrow> session" where
  "put_system m s =
     (case m of None \<Rightarrow> s
      | Some m \<Rightarrow> s\<lparr>s_markers := shiftContextMarkers 1 (s_markers s), s_messages := m # s_messages s\<rparr>)"

definition cancel_facts :: "string \<Rightarrow> queue_entry list \<Rightarrow> fact list" where
  "cancel_facts reason qs = map (\<lambda>q. QueueCancelled (qe_id q) reason) qs"

definition run_id :: "session \<Rightarrow> string" where
  "run_id s = (case s_run s of None \<Rightarrow> '''' | Some r \<Rightarrow> ar_id r)"

subsection \<open>Interrupting\<close>

definition pendingCallsLocked :: "services \<Rightarrow> session \<Rightarrow> pending_calls" where
  "pendingCallsLocked v s =
     \<lparr>pn_calls = map (\<lambda>c. \<lparr>pe_id = tu_id c, pe_name = tu_name c,
          pe_state = (case s_run s of None \<Rightarrow> PendingPlanned
             | Some r \<Rightarrow> if mem_str (tu_id c) (ar_started r) \<and> \<not> mem_str (tu_id c) (ar_results r)
                         then PendingIndeterminate else PendingPlanned)\<rparr>)
        (case InspectFrontier (vc_clone v) (s_messages s) of Inl _ \<Rightarrow> [] | Inr calls \<Rightarrow> calls),
      pn_reason = ''''\<rparr>"

text \<open>The messages a repair appends; it may not touch the committed ones.\<close>

definition repaired_tail :: "services \<Rightarrow> pending_calls \<Rightarrow> string \<Rightarrow> session \<Rightarrow> message list sresult" where
  "repaired_tail v pending msg s =
     (case Process (vc_clone v) (s_messages s) CloseInterruptedFrontier pending of
        Inl e \<Rightarrow> Inl (Cause e)
      | Inr repaired \<Rightarrow>
          if length repaired < length (s_messages s) \<or>
             \<not> messages_equal v (take (length (s_messages s)) repaired) (s_messages s) then
            Inl (ProjectionMismatch msg)
          else Inr repaired)"

definition repair_facts :: "string \<Rightarrow> message list \<Rightarrow> fact list" where
  "repair_facts source ms =
     map (\<lambda>m. RepairAdded \<lparr>mp_message = m, mp_source = source, mp_queue_id = ''''\<rparr>) ms"

definition interrupt_text :: string where
  "interrupt_text = ''The run was deliberately interrupted; detached work may still be running and side effects may have partially occurred.''"

definition interrupted :: "message list \<Rightarrow> message option \<Rightarrow> (usage \<times> usage) option \<Rightarrow> queue_entry list \<Rightarrow> session \<Rightarrow> session" where
  "interrupted repaired system used cancelled s =
     (let s = put_system system (s\<lparr>s_messages := repaired\<rparr>);
          s = s\<lparr>s_markers := s_markers s @ [\<lparr>mk_after = int (length (s_messages s)),
                mk_message = interruptionContextMessage interrupt_text\<rparr>]\<rparr>;
          s = remove_all cancelled (put_usage used s) in
      transition Idle (s\<lparr>s_run := None, s_cancel := False, s_suspension := None\<rparr>))"

definition finishInterrupt :: "services \<Rightarrow> reply \<Rightarrow> outcome option \<Rightarrow> world \<Rightarrow> world \<times> session_error option" where
  "finishInterrupt v reply execution w =
     (let s = fst w in
      if s_state s = Faulted then (w, Some (fault_of s))
      else if s_run s = None then (w, Some (SessionError ''interrupt has no active run''))
      else (case validateProjectionLocked v execution s of
        Inl e \<Rightarrow> persistFaultLocked v reply e w
      | Inr system \<Rightarrow>
      (case repaired_tail v (pendingCallsLocked v s) ''interrupt repair rewrote committed messages'' s of
        Inl e \<Rightarrow> persistFaultLocked v reply e w
      | Inr repaired \<Rightarrow>
      (case settle_usage execution s of
        Inl e \<Rightarrow> persistFaultLocked v reply (Cause e) w
      | Inr used \<Rightarrow>
          let cancelled = queueByKindsLocked [QueueSteer, QueueFollowUp] s;
              facts = repair_facts ''interrupt_repair'' (drop (length (s_messages s)) repaired) @
                usage_facts used @ system_facts system @ cancel_facts ''interrupted'' cancelled @
                [InterruptMarker interrupt_text,
                 RunClosed (run_id s) ExecutionInterrupted (kind_text CtxCanceled)] in
          (case commit_or_fault v reply facts w of
             (w, Some e) \<Rightarrow> (w, Some (FaultError (s_id s) (Cause e)))
           | (w, None) \<Rightarrow> (on_session (interrupted repaired system used cancelled) w, None))))))"

definition requestInterruptCommand ::
  "services \<Rightarrow> go_error option \<Rightarrow> reply \<Rightarrow> string \<Rightarrow> command_payload option \<Rightarrow> world \<Rightarrow>
     world \<times> string sresult" where
  "requestInterruptCommand v ctx reply expected command w =
     (let s = fst w;
          interrupting = on_session (\<lambda>s. update_run (\<lambda>r. r\<lparr>ar_interrupted := True\<rparr>) (transition Interrupting s)) in
      if s_state s = Faulted then (w, Inl (fault_of s))
      else (case staleTargetLocked expected s of
        Some e \<Rightarrow> (w, Inl e)
      | None \<Rightarrow>
          if s_state s = Closed then (w, Inl SessionClosed)
          else if s_state s = Idle then (w, Inl NotRunning)
          else
            (case (case command of
                     None \<Rightarrow> (w, None)
                   | Some c \<Rightarrow>
                       (case encode_all v [CommandAccepted (c\<lparr>ca_run_id := run_id s\<rparr>)] of
                          Some e \<Rightarrow> (w, Some (Cause e))
                        | None \<Rightarrow> appendAcceptanceLocked ctx reply [CommandAccepted (c\<lparr>ca_run_id := run_id s\<rparr>)] w)) of
               (w, Some e) \<Rightarrow> (w, Inl e)
             | (w, None) \<Rightarrow>
                 ((if s_state s = Interrupting then w else interrupting w), Inr (run_id s)))))"

subsection \<open>Ending a run\<close>

definition isResumeValidationError :: "go_error option \<Rightarrow> bool" where
  "isResumeValidationError e =
     (case e of
        None \<Rightarrow> False
      | Some e \<Rightarrow> errors_is ErrDriveInput e \<or> errors_is ErrTranscriptInvalid e \<or>
          errors_is ErrSuspensionVersion e \<or> errors_is ErrSuspensionMismatch e \<or>
          errors_is ErrResumeDecision e)"

text \<open>\<^verbatim>\<open>IsUsageLimitExceeded\<close> (errors.go).\<close>

fun usage_exceeded :: "go_error \<Rightarrow> bool" where
  "usage_exceeded (UsageLimitExceededError _ _ _) = True"
| "usage_exceeded (Wrapped _ e) = usage_exceeded e"
| "usage_exceeded (Joined a b) = (usage_exceeded a \<or> usage_exceeded b)"
| "usage_exceeded _ = False"

definition finish_suspended :: "services \<Rightarrow> reply \<Rightarrow> outcome option \<Rightarrow> go_error option \<Rightarrow> world \<Rightarrow> world \<times> session_error option" where
  "finish_suspended v reply execution runErr w =
     (let s = fst w in
      (case execution of
         None \<Rightarrow> persistFaultLocked v reply (ProjectionMismatch ''suspended execution is incomplete'') w
       | Some x \<Rightarrow>
           if oc_report x = None \<or> oc_suspension x = None then
             persistFaultLocked v reply (ProjectionMismatch ''suspended execution is incomplete'') w
           else (case validateProjectionLocked v execution s of
             Inl e \<Rightarrow> persistFaultLocked v reply e w
           | Inr system \<Rightarrow>
           (case settle_usage execution s of
             Inl e \<Rightarrow> persistFaultLocked v reply (Cause e) w
           | Inr used \<Rightarrow>
               let facts = usage_facts used @ system_facts system;
                   finish = (\<lambda>s. transition Suspended ((update_run
                     (\<lambda>r. r\<lparr>ar_last_usage := (case oc_report x of None \<Rightarrow> ar_last_usage r | Some y \<Rightarrow> rt_usage y),
                            ar_history := (case system of None \<Rightarrow> ar_history r | Some m \<Rightarrow> m # ar_history r),
                            ar_resume_in_progress := False\<rparr>)
                     (put_system system (put_usage used s)))
                     \<lparr>s_suspension := oc_suspension x, s_cancel := False\<rparr>)) in
               (case encode_all v facts of
                  Some e \<Rightarrow> persistFaultLocked v reply (Cause e) w
                | None \<Rightarrow>
                    if facts = [] then (on_session finish w, map_option Cause runErr)
                    else (case commit_or_fault v reply facts w of
                            (w, Some e) \<Rightarrow> (w, Some (FaultError (s_id s) (Cause e)))
                          | (w, None) \<Rightarrow> (on_session finish w, map_option Cause runErr)))))))"

definition run_error :: "session \<Rightarrow> go_error option \<Rightarrow> session_error option" where
  "run_error s e =
     (case e of
        None \<Rightarrow> None
      | Some e \<Rightarrow> if s_budget s \<noteq> None \<and> usage_exceeded e then Some (BudgetExceeded (Cause e)) else Some (Cause e))"

definition error_text :: "session_error option \<Rightarrow> string" where
  "error_text e = (case e of None \<Rightarrow> '''' | Some e \<Rightarrow> session_error_text e)"

definition finish_closed :: "services \<Rightarrow> reply \<Rightarrow> outcome option \<Rightarrow> execution_status \<Rightarrow> go_error option \<Rightarrow> world \<Rightarrow> world \<times> session_error option" where
  "finish_closed v reply execution status runErr w =
     (let s = (if s_state (fst w) = Running then transition Closing (fst w) else fst w); w = (s, snd w) in
      (case validateProjectionLocked v execution s of
        Inl e \<Rightarrow> persistFaultLocked v reply e w
      | Inr system \<Rightarrow>
      (case settle_usage execution s of
        Inl e \<Rightarrow> persistFaultLocked v reply (Cause e) w
      | Inr used \<Rightarrow>
          let cancelled = (if status \<noteq> ExecutionCompleted \<or> runErr \<noteq> None
                then queueByKindsLocked [QueueSteer, QueueFollowUp] s else []);
              runErr = run_error s runErr;
              facts = usage_facts used @ system_facts system @ cancel_facts ''run ended'' cancelled @
                [RunClosed (run_id s) status (error_text runErr)] in
          (case commit_or_fault v reply facts w of
             (w, Some e) \<Rightarrow> (w, Some (FaultError (s_id s) (Cause e)))
           | (w, None) \<Rightarrow>
               (on_session (\<lambda>s. transition Idle ((remove_all cancelled (put_system system (put_usage used s)))
                  \<lparr>s_run := None, s_suspension := None\<rparr>)) w, runErr)))))"

definition finishExecution :: "services \<Rightarrow> reply \<Rightarrow> outcome option \<Rightarrow> go_error option \<Rightarrow> world \<Rightarrow> world \<times> session_error option" where
  "finishExecution v reply execution runErr w =
     (let w = on_session (\<lambda>s. s\<lparr>s_cancel := False\<rparr>) w; s = fst w;
          status = (case execution of None \<Rightarrow> ExecutionFailed | Some x \<Rightarrow> oc_status x) in
      if s_state s = Faulted then (w, Some (fault_of s))
      else if s_state s = Interrupting \<or> (execution \<noteq> None \<and> status = ExecutionInterrupted) then
        (case finishInterrupt v reply execution w of
           (w, Some e) \<Rightarrow> (w, Some e)
         | (w, None) \<Rightarrow>
             (w, Some (case runErr of None \<Rightarrow> Cause (Sentinel CtxCanceled) | Some e \<Rightarrow> Cause e)))
      else (case s_run s of
              None \<Rightarrow> (w, Some (SessionError ''driver returned without an active session run''))
            | Some r \<Rightarrow>
                if ar_resume_in_progress r \<and> \<not> ar_resume_event_seen r \<and> isResumeValidationError runErr then
                  (on_session (\<lambda>s. transition Suspended
                     (update_run (\<lambda>r. r\<lparr>ar_resume_in_progress := False\<rparr>) s)) w, map_option Cause runErr)
                else if status = ExecutionSuspended then finish_suspended v reply execution runErr w
                else finish_closed v reply execution status runErr w))"

end
