(* ===== verification/Session_Resume.thy ===== *)
theory Session_Resume
  imports Session_Settle
begin

text \<open>
  Resumption of a suspended session (harness/session/resume.go), and what else writes to the journal
  of a running session: operations of tools (operation.go), events and usage of child sessions
  (capture.go); abandoning and closing (close.go).
\<close>

subsection \<open>Resuming\<close>

definition resumeErrorLocked :: "resume_request \<Rightarrow> session \<Rightarrow> session_error option" where
  "resumeErrorLocked request s =
     (case s_state s of
        Faulted \<Rightarrow> Some (fault_of s)
      | Closed \<Rightarrow> Some SessionClosed
      | Suspended \<Rightarrow>
          (case s_suspension s of
             None \<Rightarrow> Some (InvalidResume ''suspended state has no durable frontier'')
           | Some x \<Rightarrow>
               if s_run s = None then Some (InvalidResume ''suspended state has no durable frontier'')
               else if rq_suspension_id request = '''' \<or> rq_suspension_id request \<noteq> sp_id x then
                 Some (InvalidResume ''suspension ID differs'')
               else if (case rq_prompt request of None \<Rightarrow> False | Some m \<Rightarrow> m_role m \<noteq> RoleUser) then
                 Some InvalidMessage
               else None)
      | _ \<Rightarrow> Some NotRunning)"

record accepted_resume =
  am_run_id :: string
  am_history :: "message list"
  am_suspension :: "suspension option"
  am_decisions :: "tool_resume_decision list"
  am_prompt :: "message option"
  am_limits :: "usage_limits option"
  am_indeterminate :: bool

text \<open>The calls a recovery suspension asks for, and the operator's answers to them.\<close>

fun required_calls :: "(string \<rightharpoonup> pending_call) \<Rightarrow> pending_call list \<Rightarrow> (string \<rightharpoonup> pending_call) sresult" where
  "required_calls required [] = Inr required"
| "required_calls required (c # cs) =
     (if pe_id c = '''' \<or> pe_state c \<noteq> PendingIndeterminate \<or> required (pe_id c) \<noteq> None then
        Inl (InvalidResume ''malformed indeterminate call set'')
      else required_calls (required(pe_id c \<mapsto> c)) cs)"

fun index_answers ::
  "(string \<rightharpoonup> pending_call) \<Rightarrow> (string \<rightharpoonup> tool_resolution) \<Rightarrow> tool_resolution list \<Rightarrow>
     (string \<rightharpoonup> tool_resolution) sresult" where
  "index_answers required answers [] = Inr answers"
| "index_answers required answers (r # rs) =
     (if required (tn_call_id r) = None then
        Inl (InvalidResume (''unknown resolution '' @ quote (tn_call_id r)))
      else if answers (tn_call_id r) \<noteq> None then
        Inl (InvalidResume (''duplicate resolution '' @ quote (tn_call_id r)))
      else if tn_action r = ResolutionApprove then Inl (IndeterminateTool (tn_call_id r))
      else if tn_action r \<noteq> ResolutionDeny \<and> tn_action r \<noteq> ResolutionExternalResult then
        Inl (InvalidResume (''invalid action for '' @ quote (tn_call_id r)))
      else index_answers required (answers(tn_call_id r \<mapsto> r)) rs)"

definition answers_of ::
  "services \<Rightarrow> suspension \<Rightarrow> resume_request \<Rightarrow>
     ((string \<rightharpoonup> pending_call) \<times> (string \<rightharpoonup> tool_resolution)) sresult" where
  "answers_of v x request =
     (case vc_decode_recovery v (sp_payload x) of
        Inl e \<Rightarrow> Inl (InvalidResume (err_text e))
      | Inr (version, calls) \<Rightarrow>
          if version \<noteq> 1 then Inl (InvalidResume ''unsupported recovery suspension version'')
          else (case required_calls Map.empty calls of
                  Inl e \<Rightarrow> Inl e
                | Inr required \<Rightarrow>
                    (case index_answers required Map.empty (rq_resolutions request) of
                       Inl e \<Rightarrow> Inl e
                     | Inr answers \<Rightarrow>
                         if length (rq_resolutions request) \<noteq> length calls then
                           Inl (InvalidResume (''got '' @ show_nat (length (rq_resolutions request)) @
                             '' resolutions for '' @ show_nat (length calls) @ '' indeterminate calls''))
                         else Inr (required, answers))))"

definition answer_message :: "services \<Rightarrow> pending_call \<Rightarrow> tool_resolution \<Rightarrow> message \<Rightarrow> message" where
  "answer_message v call r m =
     (case tn_action r of
        ResolutionDeny \<Rightarrow> NewToolResultMessageFor (pe_id call) (pe_name call)
          (if tn_reason r = '''' then ''denied by operator after indeterminate execution'' else tn_reason r) True
      | ResolutionExternalResult \<Rightarrow> NewToolResultMessageFor (pe_id call) (pe_name call)
          (FormatToolResult (vc_marshal v) (tn_result r)) False
      | _ \<Rightarrow> m)"

fun answer_messages ::
  "services \<Rightarrow> (string \<rightharpoonup> pending_call) \<Rightarrow> (string \<rightharpoonup> tool_resolution) \<Rightarrow> message list \<Rightarrow>
     message list sresult" where
  "answer_messages v required answers [] = Inr []"
| "answer_messages v required answers (m # ms) =
     (case GetToolResults m of
        [result] \<Rightarrow>
          (let i = tr_tool_use_id result;
               m' = (case (answers i, required i) of
                       (Some r, Some call) \<Rightarrow> answer_message v call r m | _ \<Rightarrow> m) in
           (case answer_messages v required answers ms of
              Inl e \<Rightarrow> Inl e | Inr ms' \<Rightarrow> Inr (m' # ms')))
      | _ \<Rightarrow> Inl (ProjectionMismatch ''recovery repair produced an invalid result''))"

definition resolution_pending :: "services \<Rightarrow> (string \<rightharpoonup> pending_call) \<Rightarrow> tool_use list \<Rightarrow> pending_calls" where
  "resolution_pending v required calls =
     \<lparr>pn_calls = map (\<lambda>c. \<lparr>pe_id = tu_id c, pe_name = tu_name c,
         pe_state = (if required (tu_id c) \<noteq> None then PendingIndeterminate else PendingPlanned)\<rparr>) calls,
      pn_reason = ''''\<rparr>"

text \<open>The results that close the frontier, with the operator's answers in place of the synthetic ones.\<close>

definition resolved_messages ::
  "services \<Rightarrow> (string \<rightharpoonup> pending_call) \<Rightarrow> (string \<rightharpoonup> tool_resolution) \<Rightarrow> session \<Rightarrow> message list sresult" where
  "resolved_messages v required answers s =
     (case InspectFrontier (vc_clone v) (s_messages s) of
        Inl e \<Rightarrow> Inl (Cause e)
      | Inr calls \<Rightarrow>
          (case Process (vc_clone v) (s_messages s) CloseInterruptedFrontier
                  (resolution_pending v required calls) of
             Inl e \<Rightarrow> Inl (Cause e)
           | Inr repaired \<Rightarrow>
               answer_messages v required answers (drop (length (s_messages s)) repaired)))"

definition message_facts :: "string \<Rightarrow> message list \<Rightarrow> fact list" where
  "message_facts source ms =
     map (\<lambda>m. MessageAdded \<lparr>mp_message = m, mp_source = source, mp_queue_id = ''''\<rparr>) ms"

definition prompt_list :: "resume_request \<Rightarrow> message list" where
  "prompt_list request = (case rq_prompt request of None \<Rightarrow> [] | Some m \<Rightarrow> [m])"

definition reopened ::
  "string \<Rightarrow> usage_limits option \<Rightarrow> message list \<Rightarrow> session \<Rightarrow> session" where
  "reopened i limits added s =
     (let ms = s_messages s @ added;
          instructions = (case s_run s of None \<Rightarrow> '''' | Some r \<Rightarrow> ar_instructions r) in
      transition Running (s\<lparr>s_messages := ms, s_cancel := True, s_suspension := None,
        s_run := Some (new_run i DriveContinue (providerHistory ms (s_markers s)) []
          (length (s_markers s)) limits instructions)\<rparr>))"

definition reopen_facts ::
  "string \<Rightarrow> usage_limits option \<Rightarrow> suspension \<Rightarrow> resume_request \<Rightarrow> message list \<Rightarrow>
     command_payload option \<Rightarrow> session \<Rightarrow> fact list" where
  "reopen_facts i limits x request added command s =
     [ResolutionAccepted (sp_id x) request,
      RunClosed (run_id s) ExecutionInterrupted ''indeterminate tool frontier resolved by operator''] @
     message_facts ''recovery_resolution'' added @
     message_facts ''resume_prompt'' (prompt_list request) @
     [RunOpened \<lparr>od_id = i, od_mode = ''continue'', od_recovery = True, od_limits = limits,
       od_instructions = (case s_run s of None \<Rightarrow> '''' | Some r \<Rightarrow> ar_instructions r)\<rparr>] @
     command_facts (\<lambda>c. c\<lparr>ca_run_id := i\<rparr>) command"

definition prepareResumeIndeterminate ::
  "services \<Rightarrow> go_error option \<Rightarrow> reply \<Rightarrow> string result \<Rightarrow> suspension \<Rightarrow> resume_request \<Rightarrow>
     command_payload option \<Rightarrow> world \<Rightarrow> world \<times> accepted_resume sresult" where
  "prepareResumeIndeterminate v ctx reply new_id x request command w =
     (let s = fst w in
      case answers_of v x request of
        Inl e \<Rightarrow> (w, Inl e)
      | Inr (required, answers) \<Rightarrow>
      (case resumeErrorLocked request s of
        Some e \<Rightarrow> (w, Inl e)
      | None \<Rightarrow>
      (case resolved_messages v required answers s of
        Inl e \<Rightarrow> (w, Inl e)
      | Inr added \<Rightarrow>
      (case session_limits s of
        Inl e \<Rightarrow> (w, Inl (Cause e))
      | Inr limits \<Rightarrow>
      (case new_id of
        Inl e \<Rightarrow> (w, Inl (Cause e))
      | Inr i \<Rightarrow>
          let facts = reopen_facts i limits x request added command s in
          (case encode_all v facts of
             Some e \<Rightarrow> (w, Inl (Cause e))
           | None \<Rightarrow>
               (case appendAcceptanceLocked ctx reply facts w of
                  (w, Some e) \<Rightarrow> (w, Inl e)
                | (w, None) \<Rightarrow>
                    let w = on_session (reopened i limits (added @ prompt_list request)) w in
                    (w, Inr \<lparr>am_run_id = i,
                       am_history = (case s_run (fst w) of None \<Rightarrow> [] | Some r \<Rightarrow> ar_history r),
                       am_suspension = None, am_decisions = [], am_prompt = None, am_limits = limits,
                       am_indeterminate = True\<rparr>))))))))"

definition resuming :: "session \<Rightarrow> session" where
  "resuming s =
     transition Running (update_run (\<lambda>r. r\<lparr>ar_resume_in_progress := True, ar_resume_event_seen := False,
       ar_public_new_start := length (ar_expected r)\<rparr>) (s\<lparr>s_cancel := True\<rparr>))"

definition prepareResumeWithCommand ::
  "services \<Rightarrow> go_error option \<Rightarrow> reply \<Rightarrow> string result \<Rightarrow> resume_request \<Rightarrow>
     command_payload option \<Rightarrow> world \<Rightarrow> world \<times> accepted_resume sresult" where
  "prepareResumeWithCommand v ctx reply new_id request command w =
     (let s = fst w in
      case resumeErrorLocked request s of
        Some e \<Rightarrow> (w, Inl e)
      | None \<Rightarrow>
      (case (s_suspension s, s_run s) of
         (Some x, Some r) \<Rightarrow>
           if sp_kind x = ''harness.recovery.indeterminate'' then
             prepareResumeIndeterminate v ctx reply new_id x request command w
           else
           (case vc_plan v x request of
             Inl e \<Rightarrow> (w, Inl (Cause e))
           | Inr decisions \<Rightarrow>
               let facts = ResolutionAccepted (sp_id x) request #
                     command_facts (\<lambda>c. c\<lparr>ca_run_id := ar_id r\<rparr>) command in
               (case encode_all v facts of
                  Some e \<Rightarrow> (w, Inl (Cause e))
                | None \<Rightarrow>
                    (case appendAcceptanceLocked ctx reply facts w of
                       (w, Some e) \<Rightarrow> (w, Inl e)
                     | (w, None) \<Rightarrow>
                         (on_session resuming w,
                          Inr \<lparr>am_run_id = ar_id r, am_history = ar_history r @ ar_expected r,
                            am_suspension = Some x, am_decisions = decisions, am_prompt = rq_prompt request,
                            am_limits = ar_limits r, am_indeterminate = False\<rparr>))))
       | _ \<Rightarrow> (w, Inl (InvalidResume ''suspended state has no durable frontier''))))"

subsection \<open>Writes of tools and children\<close>

definition faultOperation :: "session_error \<Rightarrow> world \<Rightarrow> world \<times> session_error option" where
  "faultOperation cause w =
     (if s_state (fst w) = Faulted then (w, Some (fault_of (fst w)))
      else if s_state (fst w) = Closed then (w, Some SessionClosed)
      else (on_session (faultLocked cause) w, Some (FaultError (s_id (fst w)) cause)))"

definition append_one :: "reply \<Rightarrow> fact \<Rightarrow> (session \<Rightarrow> session) \<Rightarrow> world \<Rightarrow> world \<times> session_error option" where
  "append_one reply e g w =
     (case w of (s, j) \<Rightarrow>
       (case journal_append reply (s_cursor s) [e] j of
          (j, Inl x) \<Rightarrow> ((faultLocked (Cause x) s, j), Some (FaultError (s_id s) (Cause x)))
        | (j, Inr cursor) \<Rightarrow> ((g (s\<lparr>s_cursor := cursor\<rparr>), j), None)))"

definition RecordOperation :: "services \<Rightarrow> reply \<Rightarrow> operation \<Rightarrow> world \<Rightarrow> world \<times> session_error option" where
  "RecordOperation v reply p w =
     (if on_id p = '''' \<or> on_kind p = '''' \<or> on_phase p = '''' then
        (w, Some (SessionError ''runtime operation ID, kind, and phase are required''))
      else (case vc_encode v (RuntimeOperation p) of
              Some e \<Rightarrow> faultOperation (Cause e) w
            | None \<Rightarrow>
                if s_state (fst w) = Faulted then (w, Some (fault_of (fst w)))
                else if s_state (fst w) = Closed then (w, Some SessionClosed)
                else if s_state (fst w) \<noteq> Running then
                  (w, Some (SessionError (''runtime operation requires a running session, got '' @ phase_text (s_state (fst w)))))
                else append_one reply (RuntimeOperation p) id w))"

definition child_record_error :: "child_record \<Rightarrow> session \<Rightarrow> session_error option" where
  "child_record_error c s =
     (let parent = (if cr_parent_id c = '''' then s_id s else cr_parent_id c) in
      if cr_session_id c = '''' then Some (SessionError ''projected child event requires a session ID'')
      else if cr_session_id c = s_id s then
        Some (SessionError ''session cannot project its own event as a child'')
      else if cr_agent c = '''' then Some (SessionError ''projected child event requires an agent name'')
      else if parent = s_id s \<and> cr_depth c \<noteq> sc_depth (s_scope s) + 1 then
        Some (SessionError ''projected child event has an invalid direct-child depth'')
      else if parent \<noteq> s_id s \<and> cr_depth c \<le> sc_depth (s_scope s) + 1 then
        Some (SessionError ''projected descendant event has an invalid topology depth'')
      else None)"

definition ProjectEvent :: "services \<Rightarrow> reply \<Rightarrow> child_record \<Rightarrow> world \<Rightarrow> world \<times> session_error option" where
  "ProjectEvent v reply c w =
     (let s = fst w; closed = (if s_state s = Faulted then Some (fault_of s)
        else if s_state s = Closed then Some SessionClosed else None);
        named = (if cr_parent_id c = '''' then c\<lparr>cr_parent_id := s_id s\<rparr> else c) in
      case child_record_error c s of
        Some e \<Rightarrow> (w, Some e)
      | None \<Rightarrow>
          if cr_nature c = EventPreview then (w, closed)
          else (case vc_encode v (ChildEvent named) of
                  Some e \<Rightarrow> faultOperation (Cause e) w
                | None \<Rightarrow>
                    (case closed of
                       Some e \<Rightarrow> (w, Some e)
                     | None \<Rightarrow> append_one reply (ChildEvent named) id w)))"

definition validateUsageCharge :: "usage_charge \<Rightarrow> session_error option" where
  "validateUsageCharge c =
     (let u = uc_usage c in
      if uc_session_id c = '''' then Some (SessionError ''child usage charge requires a session ID'')
      else if us_prompt u < 0 \<or> us_completion u < 0 \<or> us_total u < 0 \<or> us_cache_read u < 0 \<or>
        us_cache_creation u < 0 \<or> us_reasoning u < 0 \<or> us_requests u < 0 \<or> us_tool_calls u < 0 then
        Some (SessionError ''child usage charge cannot contain negative counters'')
      else None)"

text \<open>A lease of the budget, and its commitment.\<close>

record budget_lease =
  bl_limits :: "usage_limits option"
  bl_committed :: bool
  bl_closed :: bool
  bl_serialized :: bool

definition charge_child :: "usage \<Rightarrow> session \<Rightarrow> session" where
  "charge_child spent s = update_run (\<lambda>r. r\<lparr>ar_child_charged := True\<rparr>) (s\<lparr>s_usage := spent\<rparr>)"

definition lease_Commit ::
  "services \<Rightarrow> reply \<Rightarrow> usage_charge \<Rightarrow> budget_lease \<Rightarrow> world \<Rightarrow>
     budget_lease \<times> world \<times> session_error option" where
  "lease_Commit v reply c l w =
     (let s = fst w; spent = addUsage (s_usage s) (uc_usage c) in
      if bl_closed l then (l, w, Some (SessionError ''child budget lease is closed''))
      else if bl_committed l then (l, w, Some (SessionError ''child usage was already committed''))
      else (case validateUsageCharge c of
        Some e \<Rightarrow> (l, w, Some e)
      | None \<Rightarrow>
          let l = l\<lparr>bl_committed := True\<rparr> in
          if s_state s = Faulted then (l, w, Some (fault_of s))
          else if s_state s = Closed then (l, w, Some SessionClosed)
          else if s_state s \<notin> {Running, Closing, Interrupting} then
            (l, w, Some (SessionError (''child usage commit requires an active parent session, got '' @
              phase_text (s_state s))))
          else (case vc_encode v (ChildUsage c spent) of
                  Some e \<Rightarrow>
                    (l, on_session (faultLocked (Cause e)) w, Some (FaultError (s_id s) (Cause e)))
                | None \<Rightarrow>
                    (case append_one reply (ChildUsage c spent) (charge_child spent) w of
                       (w, Some e) \<Rightarrow> (l, w, Some e)
                     | (w, None) \<Rightarrow>
                         (l, w, (case s_budget s of None \<Rightarrow> None
                            | Some b \<Rightarrow> (case remainingLimits b spent of
                                Inl e \<Rightarrow> Some (Cause e) | Inr _ \<Rightarrow> None)))))))"

text \<open>\<^verbatim>\<open>AcquireBudget\<close>: a session with a budget has one lease at a time; None waits for it.\<close>

definition AcquireBudget :: "bool \<Rightarrow> session \<Rightarrow> budget_lease sresult option" where
  "AcquireBudget lease_free s =
     (if s_state s = Faulted then Some (Inl (fault_of s))
      else if s_state s \<noteq> Running then
        Some (Inl (SessionError (''child budget requires a running parent session, got '' @ phase_text (s_state s))))
      else (case s_budget s of
              None \<Rightarrow> Some (Inr \<lparr>bl_limits = None, bl_committed = False, bl_closed = False, bl_serialized = False\<rparr>)
            | Some b \<Rightarrow>
                if \<not> lease_free then None
                else Some (case remainingLimits b (s_usage s) of
                       Inl e \<Rightarrow> Inl (Cause e)
                     | Inr l \<Rightarrow> Inr \<lparr>bl_limits = Some l, bl_committed = False, bl_closed = False,
                                   bl_serialized = True\<rparr>)))"

text \<open>\<^verbatim>\<open>History\<close>: the transcript before the open frontier.\<close>

fun before_open :: "string list \<Rightarrow> message list \<Rightarrow> message list option" where
  "before_open results [] = None"
| "before_open results (m # before) =
     (if GetToolUses m = [] then before_open results before
      else if list_ex (\<lambda>c. \<not> mem_str (tu_id c) results) (GetToolUses m) then Some (rev before)
      else None)"

definition session_History :: "session \<Rightarrow> message list" where
  "session_History s =
     (case s_run s of
        None \<Rightarrow> s_messages s
      | Some r \<Rightarrow>
          (case before_open (ar_results r) (rev (s_messages s)) of
             None \<Rightarrow> s_messages s | Some ms \<Rightarrow> ms))"

subsection \<open>Rejecting a command\<close>

text \<open>The journal side of \<^verbatim>\<open>Reject\<close> (loop_acceptance.go): the command is resolved without an input or a run.\<close>

definition rejectCommand ::
  "services \<Rightarrow> go_error option \<Rightarrow> reply \<Rightarrow> command_payload \<Rightarrow> world \<Rightarrow> world \<times> session_error option" where
  "rejectCommand v ctx reply c w =
     (case vc_encode v (CommandAccepted c) of
        Some e \<Rightarrow> (w, Some (Cause e))
      | None \<Rightarrow>
          if s_state (fst w) = Faulted \<or> s_state (fst w) = Closed then
            (w, Some (Cause (Sentinel ErrSessionFaulted)))
          else appendAcceptanceLocked ctx reply [CommandAccepted c] w)"

subsection \<open>Abandoning and closing\<close>

definition abandonRun :: "session \<Rightarrow> session" where
  "abandonRun s = (if s_state s = Closed then s else faultLocked ExecutionAbandoned s)"

definition session_Close :: "session \<Rightarrow> session \<times> session_error option" where
  "session_Close s =
     (if s_state s \<in> {Running, Closing, Interrupting} then (s, Some SessionBusy)
      else (transition Closed s, None))"

end
