(* ===== verification/Session_Recovery.thy ===== *)
theory Session_Recovery
  imports Session_Resume
begin

text \<open>
  How a session is created, and how one is read back after a crash (harness/session: \<^verbatim>\<open>New\<close> of
  session.go, \<^verbatim>\<open>Recover\<close>, \<^verbatim>\<open>recoverOpenRun\<close> and \<^verbatim>\<open>continueRecovered\<close> of recovery.go).  Opening the
  journal, the environment, the event hub and the result processor, and the lifecycle hooks, are left
  out: when one of them fails there is no session and the journal is as it was.
\<close>

subsection \<open>A new session\<close>

definition validateInitialHistory :: "services \<Rightarrow> message list \<Rightarrow> message list sresult" where
  "validateInitialHistory v messages =
     (if messages = [] then Inr []
      else (case Process (vc_clone v) messages CloseInterruptedFrontier \<lparr>pn_calls = [], pn_reason = ''''\<rparr> of
              Inl _ \<Rightarrow> Inl InvalidInitialHistory
            | Inr repaired \<Rightarrow>
                if messages_equal v messages repaired then Inr messages else Inl InvalidInitialHistory))"

definition created_facts :: "usage_limits option \<Rightarrow> bool \<Rightarrow> scope \<Rightarrow> message list \<Rightarrow> fact list" where
  "created_facts budget drain_all scope history =
     SessionCreated budget drain_all (Some scope) # message_facts ''initial_history'' history"

definition blank_session :: "string \<Rightarrow> scope \<Rightarrow> session" where
  "blank_session i scope =
     \<lparr>s_id = i, s_scope = scope, s_state = Idle, s_fault = None, s_acceptance_fault = None, s_cursor = 0,
      s_messages = [], s_markers = [], s_queue = [], s_usage = zero_usage, s_budget = None,
      s_drain_all = False, s_suspension = None, s_compaction = None, s_run = None, s_cancel = False,
      s_recovery_inputs = []\<rparr>"

text \<open>The journal exists only once every creation entry is stored.\<close>

definition session_New ::
  "services \<Rightarrow> reply \<Rightarrow> string \<Rightarrow> scope \<Rightarrow> usage_limits option \<Rightarrow> bool \<Rightarrow> message list \<Rightarrow> fact list \<times> session sresult" where
  "session_New v reply i scope budget drain_all initial =
     (let scope = scope\<lparr>sc_session_id := i\<rparr> in
      case validateScope i scope of
        Some e \<Rightarrow> ([], Inl (Cause e))
      | None \<Rightarrow>
      (case validateInitialHistory v initial of
        Inl e \<Rightarrow> ([], Inl e)
      | Inr history \<Rightarrow>
          let facts = created_facts budget drain_all scope history in
          (case encode_all v facts of
             Some e \<Rightarrow> ([], Inl (Cause e))
           | None \<Rightarrow>
               (case journal_append reply 0 facts [] of
                  (j, Inl e) \<Rightarrow> (j, Inl (Cause e))
                | (j, Inr cursor) \<Rightarrow>
                    (j, Inr ((blank_session i scope)\<lparr>s_cursor := cursor, s_messages := history,
                       s_budget := budget, s_drain_all := drain_all\<rparr>))))))"

subsection \<open>A run that was open\<close>

definition inject_recovered :: "services \<Rightarrow> reply \<Rightarrow> world \<Rightarrow> world \<times> go_error option" where
  "inject_recovered v reply w =
     (let s = fst w; messages = map qe_message (s_recovery_inputs s);
          fact = RunEvent \<lparr>rn_turn = 0, rn_payload = PInjected messages (map qe_id (s_recovery_inputs s)),
                   rn_session_used = None\<rparr> in
      if s_recovery_inputs s = [] then (w, None)
      else (case vc_encode v fact of
              Some e \<Rightarrow> (w, Some e)
            | None \<Rightarrow>
                (case journal_append reply (s_cursor s) [fact] (snd w) of
                   (j, Inl e) \<Rightarrow> ((s, j), Some e)
                 | (j, Inr cursor) \<Rightarrow>
                     ((session_messages messages (s\<lparr>s_cursor := cursor, s_recovery_inputs := []\<rparr>), j), None))))"

text \<open>A call was started when its event is committed; without a result its effect is unknown.\<close>

definition call_state :: "session \<Rightarrow> tool_use \<Rightarrow> pending_state" where
  "call_state s call =
     (case s_run s of
        None \<Rightarrow> PendingPlanned
      | Some r \<Rightarrow> if mem_str (tu_id call) (ar_started r) \<and> \<not> mem_str (tu_id call) (ar_results r)
                  then PendingIndeterminate else PendingPlanned)"

definition open_pending :: "session \<Rightarrow> tool_use list \<Rightarrow> pending_call list" where
  "open_pending s calls = map (\<lambda>c. \<lparr>pe_id = tu_id c, pe_name = tu_name c, pe_state = call_state s c\<rparr>) calls"

definition suspend_recovered ::
  "services \<Rightarrow> reply \<Rightarrow> string result \<Rightarrow> tool_use list \<Rightarrow> pending_call list \<Rightarrow> world \<Rightarrow> world \<times> go_error option" where
  "suspend_recovered v reply new_id calls indeterminate w =
     (let s = fst w in
      case vc_encode_recovery v indeterminate of
        Inl e \<Rightarrow> (w, Some e)
      | Inr payload \<Rightarrow>
      (case new_id of
        Inl e \<Rightarrow> (w, Some e)
      | Inr i \<Rightarrow>
      (case vc_recovery_hash v (s_messages s) calls of
        Inl e \<Rightarrow> (w, Some (wrap_cause ''encode indeterminate recovery frontier'' e))
      | Inr hash \<Rightarrow>
          let x = \<lparr>sp_id = i, sp_kind = ''harness.recovery.indeterminate'',
                sp_frontier_hash = ''h1:'' @ hash, sp_payload = payload\<rparr> in
          (case vc_encode v (RecoverySuspension x) of
             Some e \<Rightarrow> (w, Some e)
           | None \<Rightarrow>
               (case journal_append reply (s_cursor s) [RecoverySuspension x] (snd w) of
                  (j, Inl e) \<Rightarrow> ((s, j), Some e)
                | (j, Inr cursor) \<Rightarrow>
                    ((transition Suspended (s\<lparr>s_suspension := Some x, s_cursor := cursor\<rparr>), j), None))))))"

definition recovered_facts :: "string \<Rightarrow> string \<Rightarrow> usage_limits option \<Rightarrow> message list \<Rightarrow> fact list" where
  "recovered_facts i instructions limits added =
     [SessionRecovered ''continue''] @ repair_facts ''recovery_repair'' added @
     [RunRecovered \<lparr>od_id = i, od_mode = ''continue'', od_recovery = True, od_limits = limits,
        od_instructions = instructions\<rparr>]"

definition reopened_run :: "message list \<Rightarrow> usage_limits option \<Rightarrow> session \<Rightarrow> session" where
  "reopened_run repaired limits s =
     (let instructions = (case s_run s of None \<Rightarrow> '''' | Some r \<Rightarrow> ar_instructions r) in
      transition Running (s\<lparr>s_messages := repaired, s_suspension := None,
        s_run := Some (new_run (run_id s) DriveContinue (providerHistory repaired (s_markers s)) []
          (length (s_markers s)) limits instructions)\<rparr>))"

definition repair_recovered :: "services \<Rightarrow> reply \<Rightarrow> pending_call list \<Rightarrow> world \<Rightarrow> world \<times> session_error option" where
  "repair_recovered v reply pending w =
     (let s = fst w; instructions = (case s_run s of None \<Rightarrow> '''' | Some r \<Rightarrow> ar_instructions r) in
      case repaired_tail v \<lparr>pn_calls = pending, pn_reason = ''''\<rparr>
             ''recovery repair rewrote committed messages'' s of
        Inl e \<Rightarrow> (w, Some e)
      | Inr repaired \<Rightarrow>
      (case session_limits s of
        Inl e \<Rightarrow> (w, Some (Cause e))
      | Inr limits \<Rightarrow>
          let facts = recovered_facts (run_id s) instructions limits (drop (length (s_messages s)) repaired) in
          (case encode_all v facts of
             Some e \<Rightarrow> (w, Some (Cause e))
           | None \<Rightarrow>
               (case journal_append reply (s_cursor s) facts (snd w) of
                  (j, Inl e) \<Rightarrow> ((s, j), Some (Cause e))
                | (j, Inr cursor) \<Rightarrow> ((reopened_run repaired limits (s\<lparr>s_cursor := cursor\<rparr>), j), None)))))"

definition recoverOpenRun ::
  "services \<Rightarrow> reply \<Rightarrow> reply \<Rightarrow> string result \<Rightarrow> world \<Rightarrow> world \<times> session_error option" where
  "recoverOpenRun v reply reply' new_id w =
     (case inject_recovered v reply w of
        (w, Some e) \<Rightarrow> (w, Some (Cause e))
      | (w, None) \<Rightarrow>
          (case InspectFrontier (vc_clone v) (s_messages (fst w)) of
             Inl e \<Rightarrow> (w, Some (Cause e))
           | Inr calls \<Rightarrow>
               let pending = open_pending (fst w) calls;
                   indeterminate = filter (\<lambda>c. pe_state c = PendingIndeterminate) pending in
               if indeterminate \<noteq> [] then
                 (case suspend_recovered v reply' new_id calls indeterminate w of
                    (w, e) \<Rightarrow> (w, map_option Cause e))
               else repair_recovered v reply' pending w))"

subsection \<open>Recovery\<close>

definition recovered_session :: "string \<Rightarrow> scope \<Rightarrow> folded \<Rightarrow> session" where
  "recovered_session i scope f =
     \<lparr>s_id = i, s_scope = scope, s_state = fo_state f, s_fault = None, s_acceptance_fault = None,
      s_cursor = fo_cursor f, s_messages = fo_messages f, s_markers = fo_markers f,
      s_queue = folded_queue f, s_usage = fo_usage f, s_budget = fo_budget f,
      s_drain_all = fo_drain_all f, s_suspension = fo_suspension f, s_compaction = fo_compaction f,
      s_run = fo_run f, s_cancel = False, s_recovery_inputs = folded_unapplied f\<rparr>"

text \<open>The handle of a recovery that failed is dropped: it returns an error and what the journal holds.\<close>

definition dropped_on_error :: "world \<times> session_error option \<Rightarrow> fact list \<times> session sresult" where
  "dropped_on_error x = (case x of (w, Some e) \<Rightarrow> (snd w, Inl e) | (w, None) \<Rightarrow> (snd w, Inr (fst w)))"

definition recover_idle :: "services \<Rightarrow> reply \<Rightarrow> world \<Rightarrow> world \<times> session_error option" where
  "recover_idle v reply w =
     (let w = on_session (\<lambda>s. s\<lparr>s_state := Idle\<rparr>) w in
      case vc_encode v (SessionRecovered ''idle'') of
        Some e \<Rightarrow> (w, Some (Cause e))
      | None \<Rightarrow>
          (case journal_append reply (s_cursor (fst w)) [SessionRecovered ''idle''] (snd w) of
             (j, Inl e) \<Rightarrow> ((fst w, j), Some (Cause e))
           | (j, Inr cursor) \<Rightarrow> (((fst w)\<lparr>s_cursor := cursor\<rparr>, j), None)))"

text \<open>An interrupt that was accepted for the open run is carried out first; a completion the driver
  committed is only closed; else the run goes on.\<close>

definition recover_session ::
  "services \<Rightarrow> reply \<Rightarrow> reply \<Rightarrow> string result \<Rightarrow> folded \<Rightarrow> world \<Rightarrow> world \<times> session_error option" where
  "recover_session v reply reply' new_id f w =
     (let s = fst w in
      if (case s_run s of None \<Rightarrow> False | Some r \<Rightarrow> fo_interrupt_run_id f = ar_id r) then
        finishInterrupt v reply
          (Some \<lparr>oc_status = ExecutionInterrupted, oc_report = None, oc_suspension = None\<rparr>)
          (on_session (\<lambda>s. transition Interrupting (update_run (\<lambda>r. r\<lparr>ar_interrupted := True\<rparr>) s)) w)
      else
        let w = on_session (\<lambda>s. if s_state s = Faulted then transition Running s else s) w; s = fst w in
        if s_run s \<noteq> None \<and> fo_completed f then
          finishExecution v reply
            (Some \<lparr>oc_status = ExecutionCompleted, oc_report = None, oc_suspension = None\<rparr>) None w
        else if s_run s = None then recover_idle v reply w
        else if s_state s = Suspended \<and> s_suspension s \<noteq> None then (w, None)
        else recoverOpenRun v reply reply' new_id w)"

definition Recover ::
  "services \<Rightarrow> reply \<Rightarrow> reply \<Rightarrow> string result \<Rightarrow> string \<Rightarrow> scope \<Rightarrow> fact list \<Rightarrow> fact list \<times> session sresult" where
  "Recover v reply reply' new_id i scope j =
     (case fold_log j of
        Inl e \<Rightarrow> (j, Inl (Cause e))
      | Inr f \<Rightarrow>
          (case fo_scope f of
             Some x \<Rightarrow>
               if sc_session_id x \<noteq> i then
                 (j, Inl (SessionError (''persisted session scope ID '' @ quote (sc_session_id x) @
                    '' does not match journal ID '' @ quote i)))
               else dropped_on_error (recover_session v reply reply' new_id f (recovered_session i x f, j))
           | None \<Rightarrow>
               dropped_on_error (recover_session v reply reply' new_id f
                 (recovered_session i (scope\<lparr>sc_session_id := i\<rparr>) f, j))))"

text \<open>\<^verbatim>\<open>continueRecovered\<close>: how the driver of a recovered run is called.  None: the run is settled here,
  or somebody else settled it.\<close>

definition recovered_limits :: "session \<Rightarrow> active_run \<Rightarrow> usage_limits option result" where
  "recovered_limits s r = (if ar_limits r \<noteq> None then Inr (ar_limits r) else session_limits s)"

definition continueRecovered ::
  "services \<Rightarrow> reply \<Rightarrow> world \<Rightarrow> world \<times> (drive_mode \<times> message list \<times> usage_limits option) option" where
  "continueRecovered v reply w =
     (let s = fst w in
      case s_run s of
        None \<Rightarrow> (w, None)
      | Some r \<Rightarrow>
          if s_state s = Interrupting then
            (fst (finishInterrupt v reply
               (Some \<lparr>oc_status = ExecutionInterrupted, oc_report = None, oc_suspension = None\<rparr>) w), None)
          else if s_state s \<noteq> Running then (w, None)
          else
            (case recovered_limits s r of
               Inl e \<Rightarrow> (fst (finishExecution v reply None (Some e) w), None)
             | Inr limits \<Rightarrow>
                 let history = ar_history r;
                     mode = (if history \<noteq> [] \<and> m_role (last history) = RoleAssistant
                             then DriveRecover else DriveContinue) in
                 (on_session (\<lambda>s. (update_run (\<lambda>r. r\<lparr>ar_limits := limits\<rparr>) s)\<lparr>s_cancel := True\<rparr>) w,
                  Some (mode, history, limits))))"

end
