(* ===== verification/Session_Fold.thy ===== *)
theory Session_Fold
  imports Session_Recovery
begin

text \<open>
  What the reading of a journal makes of the batches a session writes.  \<open>wf_folded\<close> is the invariant of
  the state that is read back, \<open>agree\<close> relates it to the live session; both are kept by every batch.
\<close>

subsection \<open>Reading a concatenation\<close>

lemma fold_facts_append:
  "fold_facts (xs @ ys) f = (case fold_facts xs f of Inl e \<Rightarrow> Inl e | Inr f' \<Rightarrow> fold_facts ys f')"
  by (induction xs arbitrary: f) (auto split: sum.splits)

lemma fold_facts_appendI:
  "fold_facts xs f = Inr f' \<Longrightarrow> fold_facts ys f' = r \<Longrightarrow> fold_facts (xs @ ys) f = r"
  by (simp add: fold_facts_append)

definition accepted_ids :: "fact list \<Rightarrow> string list" where
  "accepted_ids j = concat (map (\<lambda>e. case e of QueueAccepted i _ \<Rightarrow> [i] | _ \<Rightarrow> []) j)"

lemma apply_event_keeps:
  assumes "apply_event e f = Inr f'"
  shows "fo_order f' = fo_order f" "fo_cursor f' = fo_cursor f" "fo_scope f' = fo_scope f"
    "fo_created f' = fo_created f" "fo_accepted f' = fo_accepted f"
    "fo_interrupt_run_id f' = fo_interrupt_run_id f"
  using assms by (auto simp: apply_event_def add_messages_def on_run_def
      split: run_payload.splits option.splits if_splits)

lemma fold_fact_keeps:
  assumes "fold_fact e f = Inr f'"
  shows "fo_order f' = fo_order f @ accepted_ids [e]" "fo_cursor f' = Suc (fo_cursor f)"
  using assms apply_event_keeps
  by (auto simp: fold_fact_def accepted_ids_def Let_def open_run_def close_run_def add_message_payload_def
      add_system_def add_messages_def on_run_def
      split: fact.splits option.splits if_splits dest!: apply_event_keeps)

lemma fold_facts_order:
  "fold_facts es f = Inr f' \<Longrightarrow> fo_order f' = fo_order f @ accepted_ids es"
proof (induction es arbitrary: f)
  case (Cons e es)
  then obtain f1 where "fold_fact e f = Inr f1" "fold_facts es f1 = Inr f'" by (auto split: sum.splits)
  then show ?case using Cons.IH [of f1] fold_fact_keeps(1) [of e f f1] by (simp add: accepted_ids_def)
qed (simp add: accepted_ids_def)

lemma fold_facts_cursor:
  "fold_facts es f = Inr f' \<Longrightarrow> fo_cursor f' = fo_cursor f + length es"
proof (induction es arbitrary: f)
  case (Cons e es)
  then obtain f1 where "fold_fact e f = Inr f1" "fold_facts es f1 = Inr f'" by (auto split: sum.splits)
  then show ?case using Cons.IH [of f1] fold_fact_keeps(2) [of e f f1] by simp
qed simp

subsection \<open>The state read back\<close>

text \<open>The history of the driver and the transcript start with the same message.\<close>

definition same_head :: "message list \<Rightarrow> message list \<Rightarrow> bool" where
  "same_head history ms \<longleftrightarrow>
     (case history of [] \<Rightarrow> \<not> system_first ms | m # _ \<Rightarrow> ms \<noteq> [] \<and> hd ms = m)"

definition wf_markers :: "context_marker list \<Rightarrow> message list \<Rightarrow> bool" where
  "wf_markers ks ms \<longleftrightarrow> (\<forall>k \<in> set ks. 1 \<le> mk_after k \<and> mk_after k \<le> int (length ms))"

definition wf_entries :: "(string \<rightharpoonup> queue_entry) \<Rightarrow> string list \<Rightarrow> bool" where
  "wf_entries q order \<longleftrightarrow> distinct order \<and> (\<forall>i x. q i = Some x \<longrightarrow> i \<in> set order \<and> qe_id x = i)"

definition wf_run :: "active_run \<Rightarrow> folded \<Rightarrow> bool" where
  "wf_run r f \<longleftrightarrow>
     fo_state f \<in> {Running, Suspended, Faulted} \<and> fo_messages f \<noteq> [] \<and>
     same_head (ar_history r) (fo_messages f) \<and> (fo_budget f \<noteq> None \<longrightarrow> ar_limits r \<noteq> None) \<and>
     \<not> ar_resume_in_progress r"

definition wf_folded :: "folded \<Rightarrow> bool" where
  "wf_folded f \<longleftrightarrow>
     fo_created f \<and>
     (case fo_run f of None \<Rightarrow> fo_state f = Idle \<and> fo_suspension f = None | Some r \<Rightarrow> wf_run r f) \<and>
     (fo_state f = Suspended \<longrightarrow> fo_suspension f \<noteq> None) \<and>
     wf_markers (fo_markers f) (fo_messages f) \<and>
     (fo_system f \<noteq> None \<longrightarrow> system_first (fo_messages f)) \<and>
     wf_entries (fo_accepted f) (fo_order f)"

text \<open>Two usages that \<^verbatim>\<open>usageDelta\<close> cannot tell apart as the earlier one.\<close>

definition counted :: "usage \<Rightarrow> usage" where
  "counted u = u\<lparr>us_request_usages := map (\<lambda>_. \<lparr>ru_prompt = 0, ru_completion = 0, ru_total = 0,
     ru_cache_read = 0, ru_cache_creation = 0, ru_reasoning = 0\<rparr>) (us_request_usages u)\<rparr>"

text \<open>What of a run the journal keeps.\<close>

definition durable_run :: "active_run \<Rightarrow> active_run" where
  "durable_run r =
     r\<lparr>ar_last_usage := counted (ar_last_usage r), ar_injection_ids := [], ar_turn := 0,
       ar_preview_ordinal := 0, ar_interrupted := False, ar_resume_in_progress := False,
       ar_resume_event_seen := False, ar_public_new_start := 0\<rparr>"

text \<open>What of a session the journal keeps.\<close>

definition durable :: "session \<Rightarrow> session" where
  "durable s =
     s\<lparr>s_state := Idle, s_fault := None, s_acceptance_fault := None, s_cancel := False,
       s_recovery_inputs := [], s_run := map_option durable_run (s_run s)\<rparr>"

definition live :: "session \<Rightarrow> bool" where
  "live s \<longleftrightarrow> s_state s \<noteq> Faulted \<and> s_state s \<noteq> Closed"

definition resuming_run :: "active_run \<Rightarrow> bool" where
  "resuming_run r \<longleftrightarrow> ar_resume_in_progress r \<and> \<not> ar_resume_event_seen r"

definition resuming_session :: "session \<Rightarrow> bool" where
  "resuming_session s \<longleftrightarrow> (case s_run s of None \<Rightarrow> False | Some r \<Rightarrow> resuming_run r)"

definition agree_data :: "session \<Rightarrow> folded \<Rightarrow> bool" where
  "agree_data s f \<longleftrightarrow>
     s_messages s = fo_messages f \<and> s_markers s = fo_markers f \<and> s_queue s = folded_queue f \<and>
     s_usage s = fo_usage f \<and> s_budget s = fo_budget f \<and> s_drain_all s = fo_drain_all f \<and>
     s_suspension s = fo_suspension f \<and> s_compaction s = fo_compaction f \<and>
     map_option durable_run (s_run s) = map_option durable_run (fo_run f)"

text \<open>The journal knows of a suspension before the session does, and of a resumption after it.\<close>

definition agree_phase :: "session \<Rightarrow> folded \<Rightarrow> bool" where
  "agree_phase s f \<longleftrightarrow>
     (s_state s = Idle \<longleftrightarrow> s_run s = None) \<and>
     (s_state s = Suspended \<longrightarrow> fo_state f = Suspended) \<and>
     (resuming_session s \<longrightarrow> fo_state f = Suspended)"

definition agree :: "session \<Rightarrow> folded \<Rightarrow> bool" where
  "agree s f \<longleftrightarrow> agree_data s f \<and> agree_phase s f"

lemma wf_finish_fold: "wf_folded f \<Longrightarrow> finish_fold f = f"
  by (simp add: wf_folded_def finish_fold_def split: option.splits)

lemma wf_fold_log: "fold_facts j empty_folded = Inr f \<Longrightarrow> wf_folded f \<Longrightarrow> fold_log j = Inr f"
  by (simp add: fold_log_def wf_finish_fold) (simp add: wf_folded_def)

subsection \<open>Markers and heads\<close>

lemma wf_markers_append [intro]: "wf_markers ks ms \<Longrightarrow> wf_markers ks (ms @ ns)"
  by (auto simp: wf_markers_def)

lemma wf_markers_shift: "wf_markers ks ms \<Longrightarrow> wf_markers (shiftContextMarkers 1 ks) (m # ms)"
  by (auto simp: wf_markers_def shiftContextMarkers_def)

lemma wf_markers_Nil: "wf_markers ks [] \<Longrightarrow> ks = []"
  by (cases ks) (auto simp: wf_markers_def)

lemma system_first_Nil [simp]: "\<not> system_first []"
  by (simp add: system_first_def)

lemma wf_markers_none [simp]: "wf_markers [] ms"
  by (simp add: wf_markers_def)

lemma system_first_append: "ms \<noteq> [] \<Longrightarrow> system_first (ms @ ns) = system_first ms"
  by (cases ms) (auto simp: system_first_def)

lemma same_head_append [intro]: "ms \<noteq> [] \<Longrightarrow> same_head h ms \<Longrightarrow> same_head h (ms @ ns)"
  by (cases h) (auto simp: same_head_def system_first_append)

lemma same_head_refl: "ms \<noteq> [] \<Longrightarrow> same_head ms ms"
  by (cases ms) (auto simp: same_head_def)

lemma same_head_system: "same_head h ms \<Longrightarrow> ms \<noteq> [] \<Longrightarrow> system_first h = system_first ms"
  by (cases h; cases ms) (auto simp: same_head_def system_first_def)

lemma provider_loop_later:
  "\<forall>k \<in> set ks. int n < mk_after k \<Longrightarrow> provider_loop n (m # ms) ks = m # provider_loop (Suc n) ms ks"
proof -
  assume later: "\<forall>k \<in> set ks. int n < mk_after k"
  then have "takeWhile (\<lambda>k. mk_after k \<le> int n) ks = []" "dropWhile (\<lambda>k. mk_after k \<le> int n) ks = ks"
    by (cases ks; fastforce)+
  then show ?thesis by simp
qed

text \<open>The transcript keeps its first message in the driver's history.\<close>

lemma providerHistory_head:
  assumes "wf_markers ks ms" "ms \<noteq> []"
  shows "providerHistory ms ks \<noteq> []" "hd (providerHistory ms ks) = hd ms"
proof -
  obtain m ms' where ms: "ms = m # ms'" using assms(2) by (cases ms) auto
  have "\<forall>k \<in> set ks. int 0 < mk_after k" using assms(1) by (auto simp: wf_markers_def)
  then show "providerHistory ms ks \<noteq> []" "hd (providerHistory ms ks) = hd ms"
    using provider_loop_later [of ks 0 m ms'] by (simp_all add: providerHistory_def ms)
qed

lemma same_head_provider:
  assumes "wf_markers ks ms"
  shows "same_head (providerHistory ms ks) ms"
proof (cases "ms = []")
  case True
  then show ?thesis using assms wf_markers_Nil [of ks]
    by (simp add: providerHistory_def same_head_def system_first_def)
next
  case False
  then show ?thesis using providerHistory_head [OF assms False]
    by (cases "providerHistory ms ks") (auto simp: same_head_def)
qed

text \<open>Messages committed after every marker end the driver's history.\<close>

lemma provider_loop_append:
  "\<forall>k \<in> set ks. mk_after k \<le> int (n + length ms) \<Longrightarrow>
     provider_loop n (ms @ ns) ks = provider_loop n ms ks @ ns"
proof (induction ms arbitrary: n ks)
  case Nil
  have none: "provider_loop k ns [] = ns" for k by (induction ns arbitrary: k) auto
  show ?case
  proof (cases ns)
    case (Cons m ns')
    have "\<forall>k \<in> set ks. mk_after k \<le> int n" using Nil by simp
    then have all: "takeWhile (\<lambda>k. mk_after k \<le> int n) ks = ks" "dropWhile (\<lambda>k. mk_after k \<le> int n) ks = []"
      by (simp_all add: takeWhile_eq_all_conv dropWhile_eq_Nil_conv)
    have "provider_loop (Suc n) ns' [] = ns'" for n by (induction ns' arbitrary: n) auto
    then show ?thesis by (simp add: Cons all)
  qed simp
next
  case (Cons m ms)
  have "\<forall>k \<in> set (dropWhile (\<lambda>k. mk_after k \<le> int n) ks). mk_after k \<le> int (Suc n + length ms)"
    using Cons.prems set_dropWhileD by fastforce
  from Cons.IH [OF this] show ?case by simp
qed

lemma providerHistory_append:
  "wf_markers ks ms \<Longrightarrow> providerHistory (ms @ ns) ks = providerHistory ms ks @ ns"
  using provider_loop_append [of ks 0 ms ns] by (auto simp: providerHistory_def wf_markers_def)

subsection \<open>The parts of the relation\<close>

lemma durable_run_eq:
  "durable_run r = durable_run r' \<longleftrightarrow>
     ar_id r = ar_id r' \<and> ar_mode r = ar_mode r' \<and> ar_history r = ar_history r' \<and>
     ar_expected r = ar_expected r' \<and> counted (ar_last_usage r) = counted (ar_last_usage r') \<and>
     ar_planned r = ar_planned r' \<and> ar_started r = ar_started r' \<and> ar_results r = ar_results r' \<and>
     ar_marker_count r = ar_marker_count r' \<and> ar_limits r = ar_limits r' \<and>
     ar_child_charged r = ar_child_charged r' \<and> ar_instructions r = ar_instructions r'"
  by (cases r; cases r') (auto simp: durable_run_def)

lemma same_run_cases:
  assumes "map_option durable_run x = map_option durable_run y"
  obtains "x = None" "y = None"
  | r r' where "x = Some r" "y = Some r'" "durable_run r = durable_run r'"
  using assms by (cases x; cases y) auto

lemma same_run_None: "map_option durable_run x = map_option durable_run y \<Longrightarrow> x = None \<longleftrightarrow> y = None"
  by (cases x; cases y) auto

lemma same_run_map:
  assumes "map_option durable_run x = map_option durable_run y"
    and "\<And>r r'. durable_run r = durable_run r' \<Longrightarrow> durable_run (g r) = durable_run (h r')"
  shows "map_option durable_run (map_option g x) = map_option durable_run (map_option h y)"
  using assms(1) by (cases x; cases y) (auto intro: assms(2))

text \<open>The fields that neither the invariant nor the relation looks at.\<close>

lemma wf_folded_update [simp]:
  "wf_folded (f\<lparr>fo_cursor := n\<rparr>) = wf_folded f"
  "wf_folded (f\<lparr>fo_interrupt_run_id := i\<rparr>) = wf_folded f"
  "wf_folded (f\<lparr>fo_drained := d\<rparr>) = wf_folded f"
  "wf_folded (f\<lparr>fo_completed := b\<rparr>) = wf_folded f"
  "wf_folded (f\<lparr>fo_usage := u\<rparr>) = wf_folded f"
  "wf_folded (f\<lparr>fo_compaction := c\<rparr>) = wf_folded f"
  by (simp_all add: wf_folded_def wf_run_def cong: option.case_cong)

lemma folded_queue_update [simp]:
  "folded_queue (f\<lparr>fo_cursor := n\<rparr>) = folded_queue f"
  "folded_queue (f\<lparr>fo_interrupt_run_id := i\<rparr>) = folded_queue f"
  "folded_queue (f\<lparr>fo_drained := d\<rparr>) = folded_queue f"
  "folded_queue (f\<lparr>fo_completed := b\<rparr>) = folded_queue f"
  "folded_queue (f\<lparr>fo_usage := u\<rparr>) = folded_queue f"
  "folded_queue (f\<lparr>fo_compaction := c\<rparr>) = folded_queue f"
  "folded_queue (f\<lparr>fo_messages := ms\<rparr>) = folded_queue f"
  "folded_queue (f\<lparr>fo_markers := ks\<rparr>) = folded_queue f"
  "folded_queue (f\<lparr>fo_run := r\<rparr>) = folded_queue f"
  "folded_queue (f\<lparr>fo_state := p\<rparr>) = folded_queue f"
  "folded_queue (f\<lparr>fo_suspension := x\<rparr>) = folded_queue f"
  "folded_queue (f\<lparr>fo_system := m\<rparr>) = folded_queue f"
  by (simp_all add: folded_queue_def)

lemma agree_update [simp]:
  "agree s (f\<lparr>fo_cursor := n\<rparr>) = agree s f"
  "agree s (f\<lparr>fo_interrupt_run_id := i\<rparr>) = agree s f"
  "agree s (f\<lparr>fo_drained := d\<rparr>) = agree s f"
  "agree s (f\<lparr>fo_completed := b\<rparr>) = agree s f"
  by (simp_all add: agree_def agree_data_def agree_phase_def)

lemma agree_session_update [simp]:
  "agree (s\<lparr>s_cursor := n\<rparr>) f = agree s f"
  "agree (s\<lparr>s_fault := e\<rparr>) f = agree s f"
  "agree (s\<lparr>s_acceptance_fault := e\<rparr>) f = agree s f"
  "agree (s\<lparr>s_cancel := b\<rparr>) f = agree s f"
  "agree (s\<lparr>s_recovery_inputs := q\<rparr>) f = agree s f"
  by (simp_all add: agree_def agree_data_def agree_phase_def resuming_session_def)

text \<open>A session that differs only in what is volatile agrees with the same state.\<close>

lemma agree_cong:
  assumes "agree s f" "durable s' = durable s" "agree_phase s' f"
  shows "agree s' f"
proof -
  have data: "agree_data s f" using assms(1) by (simp add: agree_def)
  note same = arg_cong [OF assms(2), unfolded durable_def]
  have "s_messages s' = s_messages s" using same [of s_messages] by simp
  moreover have "s_markers s' = s_markers s" using same [of s_markers] by simp
  moreover have "s_queue s' = s_queue s" using same [of s_queue] by simp
  moreover have "s_usage s' = s_usage s" using same [of s_usage] by simp
  moreover have "s_budget s' = s_budget s" using same [of s_budget] by simp
  moreover have "s_drain_all s' = s_drain_all s" using same [of s_drain_all] by simp
  moreover have "s_suspension s' = s_suspension s" using same [of s_suspension] by simp
  moreover have "s_compaction s' = s_compaction s" using same [of s_compaction] by simp
  moreover have "map_option durable_run (s_run s') = map_option durable_run (s_run s)"
    using same [of s_run] by simp
  ultimately have "agree_data s' f" using data unfolding agree_data_def by metis
  then show ?thesis using assms(3) by (simp add: agree_def)
qed

subsection \<open>Batches\<close>

text \<open>A batch is read back as the session it leaves.\<close>

definition follows :: "fact list \<Rightarrow> session \<Rightarrow> folded \<Rightarrow> bool" where
  "follows facts s f \<longleftrightarrow>
     (\<exists>f'. fold_facts facts f = Inr f' \<and> wf_folded f' \<and> fo_scope f' = fo_scope f \<and> agree s f')"

lemma followsI:
  "fold_facts facts f = Inr f' \<Longrightarrow> wf_folded f' \<Longrightarrow> fo_scope f' = fo_scope f \<Longrightarrow> agree s f' \<Longrightarrow>
     follows facts s f"
  by (auto simp: follows_def)

lemma follows_Nil: "wf_folded f \<Longrightarrow> agree s f \<Longrightarrow> follows [] s f"
  by (auto simp: follows_def)

text \<open>Batches that follow one another, each from a well-formed state.\<close>

lemma follows_append:
  assumes "follows xs s f"
    and "\<And>f'. wf_folded f' \<Longrightarrow> agree s f' \<Longrightarrow> fo_order f' = fo_order f @ accepted_ids xs \<Longrightarrow> follows ys s' f'"
  shows "follows (xs @ ys) s' f"
proof -
  obtain f1 where f1: "fold_facts xs f = Inr f1" "wf_folded f1" "fo_scope f1 = fo_scope f" "agree s f1"
    using assms(1) by (auto simp: follows_def)
  obtain f2 where "fold_facts ys f1 = Inr f2" "wf_folded f2" "fo_scope f2 = fo_scope f1" "agree s' f2"
    using assms(2) [OF f1(2,4) fold_facts_order [OF f1(1)]] by (auto simp: follows_def)
  then show ?thesis using f1 by (auto simp: follows_def fold_facts_append)
qed

lemma follows_agree:
  "follows facts s f \<Longrightarrow> (\<And>f'. wf_folded f' \<Longrightarrow> agree s f' \<Longrightarrow> agree s' f') \<Longrightarrow> follows facts s' f"
  by (auto simp: follows_def)

lemma follows_run_None: "agree s f \<Longrightarrow> s_run s = None \<longleftrightarrow> fo_run f = None"
  unfolding agree_def agree_data_def using same_run_None by blast

end
