(* ===== verification/Session_Batch.thy ===== *)
theory Session_Batch
  imports Session_Fold
begin

text \<open>
  The batches of the session, one lemma each: read back from a state the live session agrees with, a
  batch gives a well-formed state that the session after it agrees with.
\<close>

named_theorems session_simps

subsection \<open>Changes of the run\<close>

lemma agree_run:
  assumes "agree s f"
    and "\<And>r r'. durable_run r = durable_run r' \<Longrightarrow> durable_run (g r) = durable_run (h r')"
    and "\<And>r. resuming_run (g r) \<Longrightarrow> resuming_run r"
  shows "agree (update_run g s) (on_run h f)"
proof -
  have "agree_data (update_run g s) (on_run h f)"
    using assms(1) same_run_map [OF _ assms(2), of "s_run s" "fo_run f"]
    by (simp add: agree_def agree_data_def update_run_def on_run_def)
  moreover have "agree_phase (update_run g s) (on_run h f)"
    using assms(1) assms(3)
    by (cases "s_run s")
       (auto simp: agree_def agree_phase_def update_run_def on_run_def resuming_session_def)
  ultimately show ?thesis by (simp add: agree_def)
qed

lemma wf_on_run:
  assumes "wf_folded f" "\<And>r. wf_run r f \<Longrightarrow> wf_run (h r) f"
  shows "wf_folded (on_run h f)"
proof (cases "fo_run f")
  case None
  then show ?thesis using assms(1) by (simp add: wf_folded_def on_run_def)
next
  case (Some r)
  then have "wf_run (h r) f" using assms by (simp add: wf_folded_def)
  then show ?thesis using assms(1) Some by (simp add: wf_folded_def on_run_def wf_run_def)
qed

lemma on_run_sel [simp]:
  "fo_scope (on_run h f) = fo_scope f" "fo_state (on_run h f) = fo_state f"
  "fo_messages (on_run h f) = fo_messages f" "fo_order (on_run h f) = fo_order f"
  "fo_run (on_run h f) = map_option h (fo_run f)" "fo_markers (on_run h f) = fo_markers f"
  by (simp_all add: on_run_def)

lemma add_messages_sel [simp]:
  "fo_scope (add_messages ms f) = fo_scope f" "fo_state (add_messages ms f) = fo_state f"
  "fo_messages (add_messages ms f) = fo_messages f @ ms"
  "fo_markers (add_messages ms f) = fo_markers f"
  by (simp_all add: add_messages_def)

subsection \<open>Committed messages\<close>

lemma wf_add_messages:
  assumes "wf_folded f"
  shows "wf_folded (add_messages ms f)"
proof -
  have "wf_folded (f\<lparr>fo_messages := fo_messages f @ ms\<rparr>)"
    using assms by (cases "fo_messages f = []")
      (auto simp: wf_folded_def wf_run_def system_first_append dest: wf_markers_Nil split: option.splits)
  then show ?thesis unfolding add_messages_def by (rule wf_on_run) (simp add: wf_run_def)
qed

lemma agree_add_messages:
  assumes "agree s f"
  shows "agree (session_messages ms s) (add_messages ms f)"
proof -
  have "agree (s\<lparr>s_messages := s_messages s @ ms\<rparr>) (f\<lparr>fo_messages := fo_messages f @ ms\<rparr>)"
    using assms by (simp add: agree_def agree_data_def agree_phase_def resuming_session_def)
  then show ?thesis unfolding session_messages_def add_messages_def
    by (rule agree_run) (auto simp: durable_run_eq resuming_run_def)
qed

lemma add_messages_add: "add_messages ns (add_messages ms f) = add_messages (ms @ ns) f"
  by (cases f; simp add: add_messages_def on_run_def option.map_comp o_def)

lemma add_messages_cursor:
  "add_messages ms (f\<lparr>fo_cursor := n\<rparr>) = (add_messages ms f)\<lparr>fo_cursor := n\<rparr>"
  by (simp add: add_messages_def on_run_def)

lemma fold_repair_facts:
  "ms \<noteq> [] \<Longrightarrow> \<exists>n. fold_facts (repair_facts source ms) f = Inr ((add_messages ms f)\<lparr>fo_cursor := n\<rparr>)"
proof (induction ms arbitrary: f)
  case (Cons m ms)
  show ?case
  proof (cases "ms = []")
    case False
    then show ?thesis using Cons.IH [of "(add_messages [m] f)\<lparr>fo_cursor := Suc (fo_cursor f)\<rparr>"]
      by (auto simp: repair_facts_def fold_fact_def add_messages_cursor add_messages_add)
  qed (auto simp: repair_facts_def fold_fact_def add_messages_cursor)
qed simp

lemma add_messages_Nil [simp]: "add_messages [] f = f"
proof -
  have "map_option (\<lambda>r. r\<lparr>ar_expected := ar_expected r @ []\<rparr>) x = x" for x by (cases x) auto
  then show ?thesis by (cases f) (simp add: add_messages_def on_run_def)
qed

lemma fold_message_facts:
  assumes "source \<noteq> ''next_turn''"
  shows "\<exists>n. fold_facts (message_facts source ms) f = Inr ((add_messages ms f)\<lparr>fo_cursor := n\<rparr>)"
proof (induction ms arbitrary: f)
  case Nil
  have "fold_facts (message_facts source []) f = Inr ((add_messages [] f)\<lparr>fo_cursor := fo_cursor f\<rparr>)"
    by (simp add: message_facts_def)
  then show ?case by blast
next
  case (Cons m ms)
  have "fold_fact (MessageAdded \<lparr>mp_message = m, mp_source = source, mp_queue_id = ''''\<rparr>) f =
      Inr ((add_messages [m] f)\<lparr>fo_cursor := Suc (fo_cursor f)\<rparr>)"
    using assms by (simp add: fold_fact_def add_message_payload_def add_messages_def on_run_def)
  then show ?case using Cons.IH [of "(add_messages [m] f)\<lparr>fo_cursor := Suc (fo_cursor f)\<rparr>"]
    by (auto simp: message_facts_def add_messages_cursor add_messages_add)
qed

lemma follows_repair_facts:
  "wf_folded f \<Longrightarrow> agree s f \<Longrightarrow> follows (repair_facts source ms) (session_messages ms s) f"
proof (cases "ms = []")
  case True
  assume "wf_folded f" "agree s f"
  then show ?thesis using agree_add_messages [of s f "[]"] True
    by (simp add: repair_facts_def follows_Nil)
next
  case False
  assume "wf_folded f" "agree s f"
  then show ?thesis using fold_repair_facts [OF False, of source f]
    by (auto intro!: followsI wf_add_messages agree_add_messages)
qed

lemma follows_message_facts:
  "source \<noteq> ''next_turn'' \<Longrightarrow> wf_folded f \<Longrightarrow> agree s f \<Longrightarrow>
     follows (message_facts source ms) (session_messages ms s) f"
  using fold_message_facts [of source ms f]
  by (auto intro!: followsI wf_add_messages agree_add_messages)

subsection \<open>Facts that change nothing that is live\<close>

fun silent :: "fact \<Rightarrow> bool" where
  "silent (SessionRecovered _) = True"
| "silent (ResolutionAccepted _ _) = True"
| "silent (CommandAccepted _) = True"
| "silent (RuntimeOperation _) = True"
| "silent (ChildEvent _) = True"
| "silent _ = False"

lemma follows_silent:
  "silent e \<Longrightarrow> wf_folded f \<Longrightarrow> agree s f \<Longrightarrow> follows [e] s f"
  by (cases e) (auto simp: follows_def fold_fact_def Let_def)

lemma follows_command_facts:
  "wf_folded f \<Longrightarrow> agree s f \<Longrightarrow> follows (command_facts g command) s f"
  by (cases command) (auto simp: command_facts_def intro: follows_Nil follows_silent)

subsection \<open>The queue\<close>

lemma wf_entries_remove:
  "wf_entries q order \<Longrightarrow> wf_entries (q(i := None)) order"
  by (simp add: wf_entries_def)

lemma folded_queue_accept:
  assumes "wf_entries (fo_accepted f) (fo_order f)" "i \<notin> set (fo_order f)" "qe_id q = i"
  shows "folded_queue (f\<lparr>fo_accepted := (fo_accepted f)(i \<mapsto> q), fo_order := fo_order f @ [i]\<rparr>) =
      folded_queue f @ [q]"
    and "wf_entries ((fo_accepted f)(i \<mapsto> q)) (fo_order f @ [i])"
proof -
  have "List.map_filter ((fo_accepted f)(i \<mapsto> q)) (fo_order f) = List.map_filter (fo_accepted f) (fo_order f)"
    using assms(2) by (auto simp: List.map_filter_def intro!: map_cong filter_cong)
  then show "folded_queue (f\<lparr>fo_accepted := (fo_accepted f)(i \<mapsto> q), fo_order := fo_order f @ [i]\<rparr>) =
      folded_queue f @ [q]"
    by (simp add: folded_queue_def List.map_filter_def)
  show "wf_entries ((fo_accepted f)(i \<mapsto> q)) (fo_order f @ [i])"
    using assms by (auto simp: wf_entries_def)
qed

lemma map_filter_ids:
  "\<forall>i x. q i = Some x \<longrightarrow> qe_id x = i \<Longrightarrow> distinct order \<Longrightarrow>
     distinct (map qe_id (List.map_filter q order)) \<and> set (map qe_id (List.map_filter q order)) \<subseteq> set order"
  by (induction order) (auto simp: map_filter_simps split: option.splits)

lemma folded_queue_ids:
  "wf_folded f \<Longrightarrow> distinct (map qe_id (folded_queue f))"
  using map_filter_ids [of "fo_accepted f" "fo_order f"]
  by (auto simp: wf_folded_def wf_entries_def folded_queue_def)

lemma map_filter_remove:
  "\<forall>i x. q i = Some x \<longrightarrow> qe_id x = i \<Longrightarrow>
     List.map_filter (q(i := None)) order = filter (\<lambda>x. qe_id x \<noteq> i) (List.map_filter q order)"
  by (induction order) (auto simp: map_filter_simps split: option.splits)

lemma folded_queue_remove:
  "wf_folded f \<Longrightarrow> folded_queue (f\<lparr>fo_accepted := (fo_accepted f)(i := None)\<rparr>) =
     filter (\<lambda>x. qe_id x \<noteq> i) (folded_queue f)"
  using map_filter_remove [of "fo_accepted f" i "fo_order f"]
  by (simp add: wf_folded_def wf_entries_def folded_queue_def)

lemma remove_first:
  "distinct (map qe_id qs) \<Longrightarrow>
     takeWhile (\<lambda>q. qe_id q \<noteq> i) qs @ tl (dropWhile (\<lambda>q. qe_id q \<noteq> i) qs) = filter (\<lambda>q. qe_id q \<noteq> i) qs"
proof (induction qs)
  case (Cons q qs)
  then show ?case by (cases "qe_id q = i") (auto simp: filter_id_conv image_iff intro!: filter_True [symmetric])
qed simp

lemma agree_queue_ids: "wf_folded f \<Longrightarrow> agree s f \<Longrightarrow> distinct (map qe_id (s_queue s))"
  using folded_queue_ids by (simp add: agree_def agree_data_def)

lemma agree_remove:
  assumes "wf_folded f" "agree s f"
  shows "agree (removeQueueLocked i s) (f\<lparr>fo_accepted := (fo_accepted f)(i := None)\<rparr>)"
  using assms folded_queue_remove [OF assms(1), of i] remove_first [OF agree_queue_ids [OF assms]]
  by (simp add: agree_def agree_data_def agree_phase_def resuming_session_def removeQueueLocked_def)

lemma wf_remove: "wf_folded f \<Longrightarrow> wf_folded (f\<lparr>fo_accepted := (fo_accepted f)(i := None)\<rparr>)"
  by (cases "fo_run f") (simp_all add: wf_folded_def wf_run_def wf_entries_remove)

lemma follows_remove:
  assumes "e = QueueDrained i \<or> e = QueueCancelled i reason" "wf_folded f" "agree s f"
  shows "follows [e] (removeQueueLocked i s) f"
proof -
  obtain d where "fold_fact e f =
      Inr (f\<lparr>fo_cursor := Suc (fo_cursor f), fo_drained := d, fo_accepted := (fo_accepted f)(i := None)\<rparr>)"
    using assms(1) by (cases f) (auto simp: fold_fact_def Let_def)
  then have "fold_facts [e] f = Inr
      (((f\<lparr>fo_accepted := (fo_accepted f)(i := None)\<rparr>)\<lparr>fo_drained := d\<rparr>)\<lparr>fo_cursor := Suc (fo_cursor f)\<rparr>)"
    by (cases f) simp
  then show ?thesis
    by (rule followsI) (simp_all only: wf_folded_update agree_update wf_remove agree_remove assms, simp)
qed

lemma remove_all_Cons: "remove_all (q # qs) s = remove_all qs (removeQueueLocked (qe_id q) s)"
  by (simp add: remove_all_def)

lemma follows_remove_all:
  assumes "\<And>q. g q = QueueDrained (qe_id q) \<or> g q = QueueCancelled (qe_id q) reason"
  shows "wf_folded f \<Longrightarrow> agree s f \<Longrightarrow> follows (map g qs) (remove_all qs s) f"
proof (induction qs arbitrary: f s)
  case Nil
  then show ?case by (simp add: remove_all_def follows_Nil)
next
  case (Cons q qs)
  have "follows ([g q] @ map g qs) (remove_all qs (removeQueueLocked (qe_id q) s)) f"
    using follows_remove [OF assms [of q] Cons.prems] Cons.IH by (rule follows_append)
  then show ?case by (simp add: remove_all_Cons)
qed

lemmas follows_drained = follows_remove_all [where g = "\<lambda>q. QueueDrained (qe_id q)", simplified]

lemma follows_cancelled:
  "wf_folded f \<Longrightarrow> agree s f \<Longrightarrow> follows (cancel_facts reason qs) (remove_all qs s) f"
  unfolding cancel_facts_def by (rule follows_remove_all) simp_all

lemma follows_accepted:
  assumes "wf_folded f" "agree s f" "i \<notin> set (fo_order f)" "qe_id q = i"
  shows "follows [QueueAccepted i (Some q)] (s\<lparr>s_queue := s_queue s @ [q]\<rparr>) f"
proof (rule followsI)
  let ?f = "f\<lparr>fo_accepted := (fo_accepted f)(i \<mapsto> q), fo_order := fo_order f @ [i]\<rparr>"
  have entries: "wf_entries (fo_accepted f) (fo_order f)" using assms(1) by (simp add: wf_folded_def)
  show "fold_facts [QueueAccepted i (Some q)] f = Inr (?f\<lparr>fo_cursor := Suc (fo_cursor f)\<rparr>)"
    by (simp add: fold_fact_def)
  have "wf_folded ?f"
    using assms(1) folded_queue_accept(2) [OF entries assms(3,4)]
    by (cases "fo_run f") (simp_all add: wf_folded_def wf_run_def)
  then show "wf_folded (?f\<lparr>fo_cursor := Suc (fo_cursor f)\<rparr>)" by (simp only: wf_folded_update)
  have "agree (s\<lparr>s_queue := s_queue s @ [q]\<rparr>) ?f"
    using assms(2) folded_queue_accept(1) [OF entries assms(3,4)]
    by (simp add: agree_def agree_data_def agree_phase_def resuming_session_def)
  then show "agree (s\<lparr>s_queue := s_queue s @ [q]\<rparr>) (?f\<lparr>fo_cursor := Suc (fo_cursor f)\<rparr>)"
    by (simp only: agree_update)
qed simp

subsection \<open>Usage\<close>

lemma agree_usage: "agree s f \<Longrightarrow> agree (s\<lparr>s_usage := u\<rparr>) (f\<lparr>fo_usage := u\<rparr>)"
  by (simp add: agree_def agree_data_def agree_phase_def resuming_session_def)

definition settled_usage :: "usage \<Rightarrow> usage \<Rightarrow> session \<Rightarrow> session" where
  "settled_usage run spent s = update_run (\<lambda>r. r\<lparr>ar_last_usage := run\<rparr>) (s\<lparr>s_usage := spent\<rparr>)"

lemma agree_last_usage:
  "agree s f \<Longrightarrow> agree (settled_usage run spent s)
     (on_run (\<lambda>r. r\<lparr>ar_last_usage := run\<rparr>) (f\<lparr>fo_usage := spent\<rparr>))"
  unfolding settled_usage_def
  by (rule agree_run) (auto simp: durable_run_eq resuming_run_def agree_usage)

lemma wf_last_usage: "wf_folded f \<Longrightarrow> wf_folded (on_run (\<lambda>r. r\<lparr>ar_last_usage := run\<rparr>) f)"
  by (rule wf_on_run) (auto simp: wf_run_def)

lemma on_run_cursor: "on_run g (f\<lparr>fo_cursor := n\<rparr>) = (on_run g f)\<lparr>fo_cursor := n\<rparr>"
  by (simp add: on_run_def)

lemma follows_usage:
  "wf_folded f \<Longrightarrow> agree s f \<Longrightarrow> follows [UsageCommitted run spent] (settled_usage run spent s) f"
  by (rule followsI [where f' = "(on_run (\<lambda>r. r\<lparr>ar_last_usage := run\<rparr>) (f\<lparr>fo_usage := spent\<rparr>))
        \<lparr>fo_cursor := Suc (fo_cursor f)\<rparr>"])
     (simp add: fold_fact_def on_run_def, simp_all add: wf_last_usage agree_last_usage)

lemma follows_child_usage:
  assumes "wf_folded f" "agree s f"
  shows "follows [ChildUsage c spent] (charge_child spent s) f"
proof (rule followsI)
  let ?g = "\<lambda>r. r\<lparr>ar_child_charged := True\<rparr>"
  show "fold_facts [ChildUsage c spent] f =
      Inr ((on_run ?g (f\<lparr>fo_usage := spent\<rparr>))\<lparr>fo_cursor := Suc (fo_cursor f)\<rparr>)"
    by (simp add: fold_fact_def on_run_def)
  have "wf_folded (on_run ?g (f\<lparr>fo_usage := spent\<rparr>))"
    by (rule wf_on_run) (use assms in \<open>auto simp: wf_run_def\<close>)
  then show "wf_folded ((on_run ?g (f\<lparr>fo_usage := spent\<rparr>))\<lparr>fo_cursor := Suc (fo_cursor f)\<rparr>)" by simp
  have "agree (charge_child spent s) (on_run ?g (f\<lparr>fo_usage := spent\<rparr>))"
    unfolding charge_child_def
    by (rule agree_run) (use assms in \<open>auto simp: durable_run_eq resuming_run_def agree_usage\<close>)
  then show "agree (charge_child spent s)
      ((on_run ?g (f\<lparr>fo_usage := spent\<rparr>))\<lparr>fo_cursor := Suc (fo_cursor f)\<rparr>)" by simp
qed (simp add: on_run_def)

subsection \<open>System messages, markers and the end of a run\<close>

definition with_system :: "message \<Rightarrow> session \<Rightarrow> session" where
  "with_system m s = update_run (\<lambda>r. r\<lparr>ar_history := m # ar_history r\<rparr>) (put_system (Some m) s)"

lemma follows_system:
  assumes wf: "wf_folded f" and agree: "agree s f" and r: "s_run s = Some r"
    and m: "m_role m = RoleSystem" "\<not> system_first (ar_history r)"
  shows "follows [SystemMessage \<lparr>mp_message = m, mp_source = source, mp_queue_id = i\<rparr>] (with_system m s) f"
proof (rule followsI)
  let ?g = "\<lambda>r. r\<lparr>ar_history := m # ar_history r\<rparr>"
  let ?f = "f\<lparr>fo_system := Some m, fo_markers := shiftContextMarkers 1 (fo_markers f),
      fo_messages := m # fo_messages f\<rparr>"
  obtain r' where r': "fo_run f = Some r'" "durable_run r = durable_run r'"
    using agree r by (cases "fo_run f") (auto simp: agree_def agree_data_def)
  then have head: "same_head (ar_history r') (fo_messages f)" "fo_messages f \<noteq> []" "\<not> system_first (ar_history r')"
    using wf m(2) by (auto simp: wf_folded_def wf_run_def durable_run_eq)
  then have "\<not> system_first (fo_messages f)" using same_head_system by blast
  then show "fold_facts [SystemMessage \<lparr>mp_message = m, mp_source = source, mp_queue_id = i\<rparr>] f =
      Inr ((on_run ?g ?f)\<lparr>fo_cursor := Suc (fo_cursor f)\<rparr>)"
    using head(3) r'(1) by (cases f) (simp add: fold_fact_def add_system_def Let_def on_run_def)
  have "wf_folded (on_run ?g ?f)"
    using wf r' m(1) by (auto simp: wf_folded_def wf_run_def on_run_def same_head_def wf_markers_shift system_first_def)
  then show "wf_folded ((on_run ?g ?f)\<lparr>fo_cursor := Suc (fo_cursor f)\<rparr>)" by simp
  have "agree (put_system (Some m) s) ?f"
    using agree by (simp add: agree_def agree_data_def agree_phase_def resuming_session_def put_system_def)
  then have "agree (with_system m s) (on_run ?g ?f)"
    unfolding with_system_def by (rule agree_run) (auto simp: durable_run_eq resuming_run_def)
  then show "agree (with_system m s) ((on_run ?g ?f)\<lparr>fo_cursor := Suc (fo_cursor f)\<rparr>)" by simp
qed (simp add: on_run_def)

lemma follows_marker:
  assumes "wf_folded f" "agree s f" "s_messages s \<noteq> []"
  shows "follows [InterruptMarker t] (s\<lparr>s_markers := s_markers s @
     [\<lparr>mk_after = int (length (s_messages s)), mk_message = interruptionContextMessage t\<rparr>]\<rparr>) f"
proof (rule followsI)
  let ?f = "f\<lparr>fo_markers := fo_markers f @
     [\<lparr>mk_after = int (length (fo_messages f)), mk_message = interruptionContextMessage t\<rparr>]\<rparr>"
  show "fold_facts [InterruptMarker t] f = Inr (?f\<lparr>fo_cursor := Suc (fo_cursor f)\<rparr>)"
    by (cases f) (simp add: fold_fact_def Let_def)
  have "fo_messages f \<noteq> []" using assms(2,3) by (simp add: agree_def agree_data_def)
  then have "1 \<le> int (length (fo_messages f))" by (cases "fo_messages f") auto
  then have "wf_folded ?f"
    using assms(1) by (cases "fo_run f") (auto simp: wf_folded_def wf_run_def wf_markers_def)
  then show "wf_folded (?f\<lparr>fo_cursor := Suc (fo_cursor f)\<rparr>)" by (simp only: wf_folded_update)
  have "agree (s\<lparr>s_markers := s_markers s @
     [\<lparr>mk_after = int (length (s_messages s)), mk_message = interruptionContextMessage t\<rparr>]\<rparr>) ?f"
    using assms(2) by (simp add: agree_def agree_data_def agree_phase_def resuming_session_def)
  then show "agree (s\<lparr>s_markers := s_markers s @
     [\<lparr>mk_after = int (length (s_messages s)), mk_message = interruptionContextMessage t\<rparr>]\<rparr>)
     (?f\<lparr>fo_cursor := Suc (fo_cursor f)\<rparr>)" by (simp only: agree_update)
qed simp

definition closed_run :: "session \<Rightarrow> session" where
  "closed_run s = transition Idle (s\<lparr>s_run := None, s_suspension := None\<rparr>)"

lemma follows_closed:
  assumes "wf_folded f" "agree s f"
  shows "follows [RunClosed i status e] (closed_run s) f"
proof (rule followsI)
  show "fold_facts [RunClosed i status e] f = Inr (close_run (f\<lparr>fo_cursor := Suc (fo_cursor f)\<rparr>))"
    by (simp add: fold_fact_def)
  show "wf_folded (close_run (f\<lparr>fo_cursor := Suc (fo_cursor f)\<rparr>))"
    using assms(1) by (simp add: wf_folded_def close_run_def)
  show "agree (closed_run s) (close_run (f\<lparr>fo_cursor := Suc (fo_cursor f)\<rparr>))"
    using assms(2) by (simp add: agree_def agree_data_def agree_phase_def resuming_session_def close_run_def
        closed_run_def transition_def folded_queue_def)
qed (simp add: close_run_def)

subsection \<open>Opening a run\<close>

definition opened_run :: "run_opened_payload \<Rightarrow> session \<Rightarrow> session" where
  "opened_run p s =
     transition Running (s\<lparr>s_suspension := None,
       s_run := Some (new_run (od_id p) (if od_mode p = ''continue'' then DriveContinue else DriveStart)
         (providerHistory (s_messages s) (s_markers s)) [] (length (s_markers s)) (od_limits p)
         (od_instructions p))\<rparr>)"

lemma new_run_sel [simp]:
  "ar_id (new_run i m h x n l t) = i" "ar_history (new_run i m h x n l t) = h"
  "ar_limits (new_run i m h x n l t) = l" "ar_expected (new_run i m h x n l t) = x"
  "ar_instructions (new_run i m h x n l t) = t" "\<not> ar_resume_in_progress (new_run i m h x n l t)"
  by (simp_all add: new_run_def)

lemma not_resuming_new [simp]: "\<not> resuming_run (new_run i m h x n l t)"
  by (simp add: new_run_def resuming_run_def)

lemma agree_open_run:
  "agree s f \<Longrightarrow> agree (opened_run p s) (open_run p f)"
  by (simp add: agree_def agree_data_def agree_phase_def resuming_session_def open_run_def opened_run_def
      transition_def folded_queue_def)

lemma wf_open_run:
  assumes "wf_folded f" "fo_messages f \<noteq> []" "fo_budget f \<noteq> None \<longrightarrow> od_limits p \<noteq> None"
  shows "wf_folded (open_run p f)"
  using assms same_head_provider [of "fo_markers f" "fo_messages f"]
  by (simp add: wf_folded_def wf_run_def open_run_def)

lemma follows_opened:
  assumes "wf_folded f" "agree s f" "s_messages s \<noteq> []" "s_budget s \<noteq> None \<longrightarrow> od_limits p \<noteq> None"
    and "e = RunOpened p \<or> e = RunRecovered p \<and> run_id s = od_id p \<and> s_run s \<noteq> None"
  shows "follows [e] (opened_run p s) f"
proof (rule followsI)
  let ?f = "f\<lparr>fo_cursor := Suc (fo_cursor f)\<rparr>"
  have same: "map_option durable_run (s_run s) = map_option durable_run (fo_run f)"
    using assms(2) by (simp add: agree_def agree_data_def)
  show "fold_facts [e] f = Inr (open_run p ?f)"
    using assms(5) by (cases rule: same_run_cases [OF same])
      (auto simp: fold_fact_def run_id_def durable_run_eq Let_def)
  have "fo_messages ?f \<noteq> []" "fo_budget ?f \<noteq> None \<longrightarrow> od_limits p \<noteq> None"
    using assms(2-4) by (simp_all add: agree_def agree_data_def)
  then show "wf_folded (open_run p ?f)" using assms(1) by (intro wf_open_run) simp_all
  show "agree (opened_run p s) (open_run p ?f)" using assms(2) by (intro agree_open_run) simp
qed (simp add: open_run_def)

lemma follows_suspension:
  assumes "wf_folded f" "agree s f" "s_run s \<noteq> None"
  shows "follows [RecoverySuspension x] (transition Suspended (s\<lparr>s_suspension := Some x\<rparr>)) f"
proof (rule followsI)
  let ?f = "f\<lparr>fo_suspension := Some x, fo_state := Suspended\<rparr>"
  show "fold_facts [RecoverySuspension x] f = Inr (?f\<lparr>fo_cursor := Suc (fo_cursor f)\<rparr>)"
    by (cases f) (simp add: fold_fact_def Let_def)
  have run: "fo_run f \<noteq> None" using follows_run_None [OF assms(2)] assms(3) by simp
  then have "wf_folded ?f" using assms(1) by (auto simp: wf_folded_def wf_run_def)
  then show "wf_folded (?f\<lparr>fo_cursor := Suc (fo_cursor f)\<rparr>)" by (simp only: wf_folded_update)
  have "agree (transition Suspended (s\<lparr>s_suspension := Some x\<rparr>)) ?f"
    using assms(2,3) by (simp add: agree_def agree_data_def agree_phase_def resuming_session_def transition_def)
  then show "agree (transition Suspended (s\<lparr>s_suspension := Some x\<rparr>)) (?f\<lparr>fo_cursor := Suc (fo_cursor f)\<rparr>)"
    by (simp only: agree_update)
qed simp

subsection \<open>Context projection\<close>

definition with_markers :: "int \<Rightarrow> message list \<Rightarrow> session \<Rightarrow> session" where
  "with_markers after ms s =
     s\<lparr>s_markers := s_markers s @ map (\<lambda>m. \<lparr>mk_after = after, mk_message = m\<rparr>) ms\<rparr>"

lemma follows_context_message:
  assumes "wf_folded f" "agree s f" "1 \<le> n" "n \<le> int (length (s_messages s))"
  shows "follows [ContextMessage n m] (with_markers n [m] s) f"
proof (rule followsI)
  let ?f = "f\<lparr>fo_markers := fo_markers f @ [\<lparr>mk_after = n, mk_message = m\<rparr>]\<rparr>"
  have n: "n \<le> int (length (fo_messages f))" using assms(2,4) by (simp add: agree_def agree_data_def)
  then show "fold_facts [ContextMessage n m] f = Inr (?f\<lparr>fo_cursor := Suc (fo_cursor f)\<rparr>)"
    using assms(3) by (cases f) (simp add: fold_fact_def Let_def)
  have "wf_folded ?f" using assms(1,3) n
    by (cases "fo_run f") (auto simp: wf_folded_def wf_run_def wf_markers_def)
  then show "wf_folded (?f\<lparr>fo_cursor := Suc (fo_cursor f)\<rparr>)" by (simp only: wf_folded_update)
  have "agree (with_markers n [m] s) ?f"
    using assms(2) by (simp add: agree_def agree_data_def agree_phase_def resuming_session_def with_markers_def)
  then show "agree (with_markers n [m] s) (?f\<lparr>fo_cursor := Suc (fo_cursor f)\<rparr>)" by (simp only: agree_update)
qed simp

lemma follows_context_messages:
  "wf_folded f \<Longrightarrow> agree s f \<Longrightarrow> 1 \<le> n \<Longrightarrow> n \<le> int (length (s_messages s)) \<Longrightarrow>
     follows (map (ContextMessage n) ms) (with_markers n ms s) f"
proof (induction ms arbitrary: f s)
  case Nil
  then show ?case by (simp add: with_markers_def follows_Nil)
next
  case (Cons m ms)
  have "follows ([ContextMessage n m] @ map (ContextMessage n) ms) (with_markers n ms (with_markers n [m] s)) f"
  proof (rule follows_append [OF follows_context_message [OF Cons.prems]])
    fix f' assume "wf_folded f'" "agree (with_markers n [m] s) f'"
    then show "follows (map (ContextMessage n) ms) (with_markers n ms (with_markers n [m] s)) f'"
      using Cons.prems(3,4) by (intro Cons.IH) (simp_all add: with_markers_def)
  qed
  then show ?case by (simp add: with_markers_def)
qed

lemma follows_compacted:
  assumes "wf_folded f" "agree s f"
  shows "follows [Compacted c] (s\<lparr>s_compaction := Some c\<rparr>) f"
proof (rule followsI)
  let ?f = "f\<lparr>fo_compaction := Some c\<rparr>"
  show "fold_facts [Compacted c] f = Inr (?f\<lparr>fo_cursor := Suc (fo_cursor f)\<rparr>)"
    by (cases f) (simp add: fold_fact_def Let_def)
  show "wf_folded (?f\<lparr>fo_cursor := Suc (fo_cursor f)\<rparr>)" using assms(1) by (simp only: wf_folded_update)
  have "agree (s\<lparr>s_compaction := Some c\<rparr>) ?f"
    using assms(2) by (simp add: agree_def agree_data_def agree_phase_def resuming_session_def)
  then show "agree (s\<lparr>s_compaction := Some c\<rparr>) (?f\<lparr>fo_cursor := Suc (fo_cursor f)\<rparr>)"
    by (simp only: agree_update)
qed simp

lemma follows_projection:
  assumes "wf_folded f" "agree s f" "s_messages s \<noteq> []" "cj_changed p \<longrightarrow> cj_compaction p \<noteq> None"
  shows "follows (projection_facts p (length (s_messages s))) (projection_committed p (length (s_messages s)) s) f"
proof -
  let ?n = "int (length (s_messages s))"
  have "1 \<le> ?n" using assms(3) by (cases "s_messages s") auto
  then have additions: "follows (map (ContextMessage ?n) (cj_additions p)) (with_markers ?n (cj_additions p) s) f"
    using assms by (intro follows_context_messages) simp_all
  show ?thesis
  proof (cases "cj_changed p")
    case True
    then obtain c where c: "cj_compaction p = Some c" using assms(4) by blast
    have "follows (map (ContextMessage ?n) (cj_additions p) @ [Compacted c])
        ((with_markers ?n (cj_additions p) s)\<lparr>s_compaction := Some c\<rparr>) f"
      using additions follows_compacted by (rule follows_append)
    then show ?thesis using True c
      by (simp add: projection_facts_def projection_committed_def with_markers_def)
  next
    case False
    then have "projection_committed p (length (s_messages s)) s = with_markers ?n (cj_additions p) s"
      by (cases s) (simp add: projection_committed_def with_markers_def)
    then show ?thesis using additions False by (simp add: projection_facts_def)
  qed
qed

subsection \<open>Events of the driver\<close>

lemma follows_event:
  assumes "\<And>n. apply_event (\<lparr>rn_turn = t, rn_payload = p, rn_session_used = u\<rparr>) (f\<lparr>fo_cursor := n\<rparr>) =
      Inr (f'\<lparr>fo_cursor := n\<rparr>)"
    and "wf_folded f'" "fo_scope f' = fo_scope f" "agree s f'"
  shows "follows [RunEvent \<lparr>rn_turn = t, rn_payload = p, rn_session_used = u\<rparr>] s f"
  by (rule followsI [where f' = "f'\<lparr>fo_cursor := Suc (fo_cursor f)\<rparr>"])
     (simp_all add: fold_fact_def Let_def assms)

lemma wf_run_list:
  "wf_run (r\<lparr>ar_planned := x\<rparr>) f = wf_run r f" "wf_run (r\<lparr>ar_started := y\<rparr>) f = wf_run r f"
  "wf_run (r\<lparr>ar_results := y\<rparr>) f = wf_run r f" "wf_run (r\<lparr>ar_injection_ids := y\<rparr>) f = wf_run r f"
  "wf_run (r\<lparr>ar_last_usage := u\<rparr>) f = wf_run r f" "wf_run (r\<lparr>ar_resume_event_seen := b\<rparr>) f = wf_run r f"
  by (simp_all add: wf_run_def)

lemma follows_run_event:
  assumes "wf_folded f" "agree s f"
    and app: "\<And>n. apply_event (\<lparr>rn_turn = t, rn_payload = p, rn_session_used = u\<rparr>) (f\<lparr>fo_cursor := n\<rparr>) =
      Inr ((on_run h f)\<lparr>fo_cursor := n\<rparr>)"
    and "\<And>r. wf_run r f \<Longrightarrow> wf_run (h r) f"
    and "\<And>r r'. durable_run r = durable_run r' \<Longrightarrow> durable_run (g r) = durable_run (h r')"
    and "\<And>r. resuming_run (g r) \<Longrightarrow> resuming_run r"
  shows "follows [RunEvent \<lparr>rn_turn = t, rn_payload = p, rn_session_used = u\<rparr>] (update_run g s) f"
  by (rule follows_event [OF app]) (simp_all add: assms wf_on_run agree_run)

lemma follows_quiet_event:
  assumes "wf_folded f" "agree s f"
    and "p \<in> {PTurnStarted, PRunInterrupted} \<or> (\<exists>c. p = POutputValidated c) \<or> (\<exists>x r. p = PCompleted x r) \<or>
      (\<exists>x. p = PRunError x) \<or> (\<exists>x. p = PRunEnded x)"
  shows "follows [RunEvent \<lparr>rn_turn = t, rn_payload = p, rn_session_used = u\<rparr>] s f"
proof -
  obtain b where "\<And>n. apply_event (\<lparr>rn_turn = t, rn_payload = p, rn_session_used = u\<rparr>) (f\<lparr>fo_cursor := n\<rparr>) =
      Inr ((f\<lparr>fo_completed := b\<rparr>)\<lparr>fo_cursor := n\<rparr>)"
    using assms(3) by (cases f) (auto simp: apply_event_def)
  then show ?thesis by (rule follows_event) (simp_all add: assms)
qed

lemma update_run_comp: "update_run g (update_run h s) = update_run (g \<circ> h) s"
  by (simp add: update_run_def option.map_comp)

lemma session_messages_update: "session_messages ms s =
    update_run (\<lambda>r. r\<lparr>ar_expected := ar_expected r @ ms\<rparr>) (s\<lparr>s_messages := s_messages s @ ms\<rparr>)"
  by (simp add: session_messages_def)

lemma follows_messages_event:
  assumes "wf_folded f" "agree s f"
    and app: "\<And>n. apply_event (\<lparr>rn_turn = t, rn_payload = p, rn_session_used = u\<rparr>) (f\<lparr>fo_cursor := n\<rparr>) =
      Inr ((on_run h (add_messages ms (f\<lparr>fo_drained := d\<rparr>)))\<lparr>fo_cursor := n\<rparr>)"
    and "\<And>r f. wf_run r f \<Longrightarrow> wf_run (h r) f"
    and "\<And>r r'. durable_run r = durable_run r' \<Longrightarrow> durable_run (g r) = durable_run (h r')"
    and "\<And>r. resuming_run (g r) \<Longrightarrow> resuming_run r"
  shows "follows [RunEvent \<lparr>rn_turn = t, rn_payload = p, rn_session_used = u\<rparr>]
    (update_run g (session_messages ms s)) f"
proof (rule follows_event [OF app])
  have "wf_folded (add_messages ms (f\<lparr>fo_drained := d\<rparr>))" using assms(1) by (simp add: wf_add_messages)
  then show "wf_folded (on_run h (add_messages ms (f\<lparr>fo_drained := d\<rparr>)))" by (rule wf_on_run) (rule assms(4))
  have "agree (session_messages ms s) (add_messages ms (f\<lparr>fo_drained := d\<rparr>))"
    using assms(2) by (simp add: agree_add_messages)
  then show "agree (update_run g (session_messages ms s)) (on_run h (add_messages ms (f\<lparr>fo_drained := d\<rparr>)))"
    by (rule agree_run) (auto simp: assms(5,6))
qed simp

text \<open>The session after a durable event of the driver.\<close>

definition after_event :: "services \<Rightarrow> event \<Rightarrow> usage option \<Rightarrow> session \<Rightarrow> session" where
  "after_event v e used s = settle_turn e used (applyAgenticEventLocked v e s)"

lemma map_option_cong_id: "map_option (\<lambda>r. r) = (\<lambda>x. x)"
  by (rule ext) (simp add: option.map_ident)

lemma update_run_id [simp]: "update_run (\<lambda>r. r) s = s"
  by (simp add: update_run_def map_option_cong_id)

lemma on_run_id [simp]: "on_run (\<lambda>r. r) f = f"
  by (simp add: on_run_def map_option_cong_id)

lemma follows_started_event:
  assumes "wf_folded f" "agree s f" "s_run s = Some r" "s_state s \<noteq> Suspended"
  shows "follows [RunEvent \<lparr>rn_turn = t, rn_payload = PRunStarted, rn_session_used = u\<rparr>]
    (update_run (\<lambda>a. if ar_resume_in_progress a then a\<lparr>ar_resume_event_seen := True\<rparr> else a) s) f"
proof -
  let ?g = "\<lambda>a. if ar_resume_in_progress a then a\<lparr>ar_resume_event_seen := True\<rparr> else a"
  obtain r' where r': "fo_run f = Some r'" "durable_run r = durable_run r'"
    using assms(2,3) by (cases "fo_run f") (auto simp: agree_def agree_data_def)
  define f' where "f' = (if fo_state f = Suspended
      then on_run (\<lambda>r. r\<lparr>ar_resume_event_seen := True\<rparr>) (f\<lparr>fo_state := Running\<rparr>) else f)"
  have "wf_folded f'"
    using assms(1) r'(1) by (auto simp: f'_def wf_folded_def wf_run_def on_run_def)
  moreover have "agree (update_run ?g s) f'"
    using assms(2-4) r'
    by (auto simp: f'_def agree_def agree_data_def agree_phase_def resuming_session_def resuming_run_def
        update_run_def on_run_def durable_run_eq)
  ultimately show ?thesis using r'(1)
    by (intro follows_event [where f' = f']) (simp_all add: apply_event_def f'_def on_run_def)
qed

lemma follows_suspended_event:
  assumes "wf_folded f" "agree s f" "s_run s \<noteq> None"
  shows "follows [RunEvent \<lparr>rn_turn = t, rn_payload = PSuspended x, rn_session_used = u\<rparr>]
    (s\<lparr>s_suspension := Some x\<rparr>) f"
proof (rule follows_event [where f' = "f\<lparr>fo_suspension := Some x, fo_state := Suspended\<rparr>"])
  show "apply_event \<lparr>rn_turn = t, rn_payload = PSuspended x, rn_session_used = u\<rparr> (f\<lparr>fo_cursor := n\<rparr>) =
      Inr (f\<lparr>fo_suspension := Some x, fo_state := Suspended, fo_cursor := n\<rparr>)" for n
    by (cases f) (simp add: apply_event_def)
  have run: "fo_run f \<noteq> None" using follows_run_None [OF assms(2)] assms(3) by simp
  then show "wf_folded (f\<lparr>fo_suspension := Some x, fo_state := Suspended\<rparr>)"
    using assms(1) by (auto simp: wf_folded_def wf_run_def)
  show "agree (s\<lparr>s_suspension := Some x\<rparr>) (f\<lparr>fo_suspension := Some x, fo_state := Suspended\<rparr>)"
    using assms(2) by (simp add: agree_def agree_data_def agree_phase_def resuming_session_def)
qed simp

lemma follows_turn_ended:
  assumes "wf_folded f" "agree s f" 
  shows "follows [RunEvent \<lparr>rn_turn = t, rn_payload = PTurnEnded c run, rn_session_used = Some spent\<rparr>]
    (settled_usage run spent s) f"
  by (rule follows_event [where f' = "on_run (\<lambda>r. r\<lparr>ar_last_usage := run\<rparr>) (f\<lparr>fo_usage := spent\<rparr>)"])
     (simp add: apply_event_def on_run_def, simp_all add: wf_last_usage agree_last_usage assms)

lemma put_usage_None: "put_usage None s = s" by (simp add: put_usage_def)

lemma settle_turn_other: "(\<And>t c u. e \<noteq> TurnEnded t c u) \<Longrightarrow> settle_turn e used s = s"
  by (cases e) (auto simp: settle_turn_def split: option.splits)

text \<open>Every durable event of the driver.\<close>

lemma follows_driver_event:
  assumes "wf_folded f" "agree s f" "s_run s = Some r" "s_state s \<noteq> Suspended"
    and "event_Nature e \<noteq> EventPreview" "next_usage e r s = Inr used"
  shows "follows [RunEvent \<lparr>rn_turn = event_turn e, rn_payload = event_payload v e ids, rn_session_used = used\<rparr>]
    (after_event v e used s) f"
proof (cases e)
  case (AssistantCommitted t m)
  show ?thesis
    using follows_messages_event [OF assms(1,2), of "event_turn e" "PAssistant m" used "\<lambda>r. r" "[m]" "fo_drained f" "\<lambda>r. r"]
    by (simp add: AssistantCommitted event_payload_def after_event_def settle_turn_def
        applyAgenticEventLocked_def apply_event_def add_messages_cursor)
next
  case (ToolResultCommitted t x)
  let ?ms = "[NewToolResultMessageFor (er_tool_use_id x) (er_tool_name x)
      (FormatToolResult (vc_marshal v) (er_content x)) (er_is_error x)]"
  let ?g = "\<lambda>a. a\<lparr>ar_results := insert_id (er_tool_use_id x) (ar_results a)\<rparr>"
  show ?thesis
    using follows_messages_event [OF assms(1,2), of "event_turn e" "event_payload v e ids" used ?g ?ms "fo_drained f" ?g]
    by (simp add: ToolResultCommitted event_payload_def after_event_def settle_turn_def on_run_cursor
        applyAgenticEventLocked_def apply_event_def add_messages_cursor wf_run_list durable_run_eq resuming_run_def)
next
  case (TurnMessagesInjected t ms)
  let ?g = "\<lambda>a. a\<lparr>ar_injection_ids := []\<rparr>"
  have app: "apply_event \<lparr>rn_turn = event_turn e, rn_payload = event_payload v e ids, rn_session_used = used\<rparr>
      (f\<lparr>fo_cursor := n\<rparr>) =
    Inr ((on_run ?g (add_messages ms (f\<lparr>fo_drained := fo_drained f |` (- set ids)\<rparr>)))\<lparr>fo_cursor := n\<rparr>)" for n
    by (cases f) (simp add: TurnMessagesInjected event_payload_def apply_event_def on_run_def add_messages_def)
  show ?thesis
    using follows_messages_event [OF assms(1,2) app, of ?g]
    by (simp add: TurnMessagesInjected after_event_def settle_turn_def
        applyAgenticEventLocked_def wf_run_list durable_run_eq resuming_run_def)
next
  case (ToolBatchPlanned t calls)
  let ?g = "\<lambda>a. a\<lparr>ar_planned := ar_planned a @ calls\<rparr>"
  show ?thesis
    using follows_run_event [OF assms(1,2), of "event_turn e" "event_payload v e ids" used ?g ?g]
    by (simp add: ToolBatchPlanned event_payload_def after_event_def settle_turn_def on_run_cursor
        applyAgenticEventLocked_def apply_event_def wf_run_list durable_run_eq resuming_run_def)
next
  case (ToolStarted t call attempt)
  let ?g = "\<lambda>a. a\<lparr>ar_started := insert_id (tu_id call) (ar_started a)\<rparr>"
  show ?thesis
    using follows_run_event [OF assms(1,2), of "event_turn e" "event_payload v e ids" used ?g ?g]
    by (simp add: ToolStarted event_payload_def after_event_def settle_turn_def on_run_cursor
        applyAgenticEventLocked_def apply_event_def wf_run_list durable_run_eq resuming_run_def)
next
  case (TurnEnded t c u)
  then obtain spent where used: "used = Some spent"
    using assms(6) by (auto simp: next_usage_def split: sum.splits)
  show ?thesis using follows_turn_ended [OF assms(1,2), of t c u spent]
    by (simp add: TurnEnded used event_payload_def after_event_def settle_turn_def settled_usage_def
        applyAgenticEventLocked_def)
next
  case (RunStarted t)
  show ?thesis using follows_started_event [OF assms(1-4)]
    by (simp add: RunStarted event_payload_def after_event_def settle_turn_def applyAgenticEventLocked_def)
next
  case (RunSuspended t x)
  show ?thesis using follows_suspended_event [OF assms(1,2)] assms(3)
    by (simp add: RunSuspended event_payload_def after_event_def settle_turn_def applyAgenticEventLocked_def)
next
  case (TurnStarted t')
  have "agree (update_run (\<lambda>a. a\<lparr>ar_turn := t', ar_preview_ordinal := 0\<rparr>) s) (on_run (\<lambda>r. r) f)"
    using assms(2) by (rule agree_run) (auto simp: durable_run_eq resuming_run_def)
  then have agree: "agree (update_run (\<lambda>a. a\<lparr>ar_turn := t', ar_preview_ordinal := 0\<rparr>) s) f"
    by (simp add: on_run_id del: on_run_def)
  show ?thesis using follows_quiet_event [OF assms(1) agree, of PTurnStarted]
    by (simp add: TurnStarted event_payload_def after_event_def settle_turn_def applyAgenticEventLocked_def)
qed (use assms(5) follows_quiet_event [OF assms(1,2)] in
  \<open>simp_all add: event_payload_def after_event_def settle_turn_def applyAgenticEventLocked_def\<close>)

subsection \<open>Starting a run\<close>

lemma remove_all_sel [simp]:
  "s_messages (remove_all qs s) = s_messages s" "s_markers (remove_all qs s) = s_markers s"
  "s_usage (remove_all qs s) = s_usage s" "s_budget (remove_all qs s) = s_budget s"
  "s_drain_all (remove_all qs s) = s_drain_all s" "s_suspension (remove_all qs s) = s_suspension s"
  "s_compaction (remove_all qs s) = s_compaction s" "s_run (remove_all qs s) = s_run s"
  "s_state (remove_all qs s) = s_state s" "s_id (remove_all qs s) = s_id s"
  "s_scope (remove_all qs s) = s_scope s" "s_cursor (remove_all qs s) = s_cursor s"
  by (induction qs arbitrary: s; simp add: remove_all_def removeQueueLocked_def)+

definition drop_entries :: "queue_entry list \<Rightarrow> folded \<Rightarrow> folded" where
  "drop_entries qs f = f\<lparr>fo_accepted := foldl (\<lambda>a q. a(qe_id q := None)) (fo_accepted f) qs\<rparr>"

lemma drop_entries_Cons:
  "drop_entries (q # qs) f = drop_entries qs (f\<lparr>fo_accepted := (fo_accepted f)(qe_id q := None)\<rparr>)"
  by (simp add: drop_entries_def)

lemma drop_entries_sel [simp]:
  "fo_messages (drop_entries qs f) = fo_messages f" "fo_markers (drop_entries qs f) = fo_markers f"
  "fo_scope (drop_entries qs f) = fo_scope f" "fo_budget (drop_entries qs f) = fo_budget f"
  "fo_run (drop_entries qs f) = fo_run f"
  by (simp_all add: drop_entries_def)

lemma drop_entries_all:
  "wf_folded f \<Longrightarrow> agree s f \<Longrightarrow> wf_folded (drop_entries qs f) \<and> agree (remove_all qs s) (drop_entries qs f)"
proof (induction qs arbitrary: f s)
  case (Cons q qs)
  show ?case unfolding drop_entries_Cons remove_all_Cons
    by (rule Cons.IH) (simp_all only: wf_remove agree_remove Cons.prems)
qed (simp add: drop_entries_def remove_all_def)

definition next_folded :: "queue_entry list \<Rightarrow> folded \<Rightarrow> folded" where
  "next_folded qs f =
     on_run (\<lambda>r. r\<lparr>ar_history := ar_history r @ map qe_message qs\<rparr>)
       ((drop_entries qs f)\<lparr>fo_messages := fo_messages f @ map qe_message qs\<rparr>)"

lemma fold_next:
  "fo_run f = Some r \<Longrightarrow> \<exists>n d. fold_facts (concat (map (\<lambda>q. [QueueDrained (qe_id q), MessageAdded
     \<lparr>mp_message = qe_message q, mp_source = ''next_turn'', mp_queue_id = qe_id q\<rparr>]) qs)) f =
   Inr ((next_folded qs f)\<lparr>fo_drained := d, fo_cursor := n\<rparr>)"
proof (induction qs arbitrary: f r)
  case Nil
  then show ?case
    by (intro exI [of _ "fo_cursor f"] exI [of _ "fo_drained f"], cases f)
       (simp add: next_folded_def drop_entries_def on_run_def)
next
  case (Cons q qs)
  have "\<exists>n d. fold_facts [QueueDrained (qe_id q), MessageAdded
      \<lparr>mp_message = qe_message q, mp_source = ''next_turn'', mp_queue_id = qe_id q\<rparr>] f =
    Inr ((next_folded [q] f)\<lparr>fo_drained := d, fo_cursor := n\<rparr>)"
    by (cases f; cases "fo_accepted f (qe_id q)"; cases "qe_id q = ''''")
       (simp_all add: fold_fact_def next_folded_def drop_entries_def add_message_payload_def on_run_def Let_def)
  then obtain n d where step: "fold_facts [QueueDrained (qe_id q), MessageAdded
      \<lparr>mp_message = qe_message q, mp_source = ''next_turn'', mp_queue_id = qe_id q\<rparr>] f =
    Inr ((next_folded [q] f)\<lparr>fo_drained := d, fo_cursor := n\<rparr>)" (is "fold_facts ?q f = Inr ?f") by blast
  have "fo_run ?f = Some (r\<lparr>ar_history := ar_history r @ [qe_message q]\<rparr>)"
    using Cons.prems by (simp add: next_folded_def on_run_def)
  from Cons.IH [OF this] obtain n' d' where "fold_facts (concat (map (\<lambda>q. [QueueDrained (qe_id q), MessageAdded
     \<lparr>mp_message = qe_message q, mp_source = ''next_turn'', mp_queue_id = qe_id q\<rparr>]) qs)) ?f =
   Inr ((next_folded qs ?f)\<lparr>fo_drained := d', fo_cursor := n'\<rparr>)" by blast
  moreover have "(next_folded qs ?f)\<lparr>fo_drained := d', fo_cursor := n'\<rparr> =
      (next_folded (q # qs) f)\<lparr>fo_drained := d', fo_cursor := n'\<rparr>"
    using Cons.prems by (cases f) (simp add: next_folded_def drop_entries_def on_run_def)
  ultimately have "fold_facts (?q @ concat (map (\<lambda>q. [QueueDrained (qe_id q), MessageAdded
     \<lparr>mp_message = qe_message q, mp_source = ''next_turn'', mp_queue_id = qe_id q\<rparr>]) qs)) f =
    Inr ((next_folded (q # qs) f)\<lparr>fo_drained := d', fo_cursor := n'\<rparr>)"
    using step by (simp only: fold_facts_append sum.case)
  then show ?case by auto
qed

lemma start_folded:
  assumes wf: "wf_folded f" and agree: "agree s f" and idle: "s_run s = None"
    and prompt: "m_role prompt = RoleUser" and limits: "s_budget s \<noteq> None \<longrightarrow> limits \<noteq> None"
  defines "F i instructions qs \<equiv> add_messages [prompt] (next_folded qs (open_run
    \<lparr>od_id = i, od_mode = ''start'', od_recovery = False, od_limits = limits, od_instructions = instructions\<rparr> f))"
  shows "wf_folded (F i instructions qs)" "agree (started i limits instructions qs prompt s) (F i instructions qs)"
proof -
  have data: "s_messages s = fo_messages f" "s_markers s = fo_markers f" "s_budget s = fo_budget f"
    "s_usage s = fo_usage f" "s_drain_all s = fo_drain_all f" "s_suspension s = fo_suspension f"
    "s_compaction s = fo_compaction f"
    using agree by (simp_all add: agree_def agree_data_def)
  have none: "fo_run f = None" using follows_run_None [OF agree] idle by simp
  have susp: "fo_suspension f = None" using wf none by (simp add: wf_folded_def)
  have markers: "wf_markers (fo_markers f) (fo_messages f)" using wf by (simp add: wf_folded_def)
  note history = providerHistory_append [OF markers]
  have drop: "wf_folded (drop_entries qs f)" "agree (remove_all qs s) (drop_entries qs f)"
    using drop_entries_all [OF wf agree] by blast+
  have queue: "s_queue (remove_all qs s) = folded_queue (drop_entries qs f)"
    using drop(2) by (simp add: agree_def agree_data_def)
  have entries: "folded_queue (F i instructions qs) = folded_queue (drop_entries qs f)"
    by (simp add: F_def next_folded_def add_messages_def on_run_def drop_entries_def open_run_def folded_queue_def)
  show "agree (started i limits instructions qs prompt s) (F i instructions qs)"
    using queue entries data none susp
    by (simp add: agree_def agree_data_def agree_phase_def resuming_session_def started_def transition_def history)
       (simp add: F_def next_folded_def add_messages_def on_run_def drop_entries_def open_run_def new_run_def history)
  let ?ms = "fo_messages f @ map qe_message qs"
  have "same_head (providerHistory ?ms (fo_markers f)) (?ms @ [prompt])"
  proof (cases "?ms = []")
    case True
    then show ?thesis using prompt wf_markers_Nil [of "fo_markers f"] markers
      by (simp add: providerHistory_def same_head_def system_first_def)
  next
    case False
    then show ?thesis using same_head_provider [of "fo_markers f" ?ms] markers by blast
  qed
  moreover have "wf_entries (fo_accepted (drop_entries qs f)) (fo_order f)"
    using drop(1) by (simp add: wf_folded_def drop_entries_def)
  moreover have "fo_system f \<noteq> None \<longrightarrow> system_first (?ms @ [prompt])"
    using wf system_first_append [of "fo_messages f" "map qe_message qs @ [prompt]"]
    by (cases "fo_messages f") (auto simp: wf_folded_def)
  ultimately show "wf_folded (F i instructions qs)"
    using wf wf_markers_append [OF markers, of "map qe_message qs @ [prompt]"] none limits
    by (simp add: F_def wf_folded_def wf_run_def next_folded_def add_messages_def on_run_def drop_entries_def
        open_run_def new_run_def history data)
qed

lemma follows_start:
  assumes wf: "wf_folded f" and agree: "agree s f" and idle: "s_run s = None"
    and prompt: "m_role prompt = RoleUser" and limits: "s_budget s \<noteq> None \<longrightarrow> limits \<noteq> None"
  shows "follows (start_facts i limits instructions qs prompt command) (started i limits instructions qs prompt s) f"
proof -
  let ?p = "\<lparr>od_id = i, od_mode = ''start'', od_recovery = False, od_limits = limits, od_instructions = instructions\<rparr>"
  let ?f = "add_messages [prompt] (next_folded qs (open_run ?p f))"
  let ?s = "started i limits instructions qs prompt s"
  let ?next = "concat (map (\<lambda>q. [QueueDrained (qe_id q), MessageAdded
     \<lparr>mp_message = qe_message q, mp_source = ''next_turn'', mp_queue_id = qe_id q\<rparr>]) qs)"
  have "fo_run (open_run ?p f) = Some (new_run i DriveStart (providerHistory (fo_messages f) (fo_markers f)) []
      (length (fo_markers f)) limits instructions)"
    by (simp add: open_run_def)
  from fold_next [of "(open_run ?p f)\<lparr>fo_cursor := Suc (fo_cursor f)\<rparr>"] this obtain n d where
    "fold_facts ?next ((open_run ?p f)\<lparr>fo_cursor := Suc (fo_cursor f)\<rparr>) =
      Inr ((next_folded qs ((open_run ?p f)\<lparr>fo_cursor := Suc (fo_cursor f)\<rparr>))\<lparr>fo_drained := d, fo_cursor := n\<rparr>)"
    by fastforce
  then have run: "fold_facts ([RunOpened ?p] @ ?next @
      message_facts ''prompt'' [prompt]) f = Inr (?f\<lparr>fo_drained := d, fo_cursor := Suc n\<rparr>)"
    by (cases f) (simp add: fold_facts_append fold_fact_def message_facts_def open_run_def next_folded_def
        drop_entries_def on_run_def add_messages_def add_message_payload_def Let_def)
  note after = start_folded [OF wf agree idle prompt limits, where i = i and instructions = instructions and qs = qs]
  have "fo_scope ?f = fo_scope f" by (simp add: next_folded_def open_run_def)
  then have "follows ([RunOpened ?p] @ ?next @ message_facts ''prompt'' [prompt]) ?s f"
    by (intro followsI [OF run]) (simp_all only: wf_folded_update agree_update after folded.select_convs, simp)
  then have "follows (([RunOpened ?p] @ ?next @ message_facts ''prompt'' [prompt]) @
      command_facts (\<lambda>c. c\<lparr>ca_run_id := i\<rparr>) command) ?s f"
    by (rule follows_append) (rule follows_command_facts)
  then show ?thesis by (simp add: start_facts_def message_facts_def)
qed

end
