(* ===== verification/Session_Sound.thy ===== *)
theory Session_Sound
  imports Session_Batch
begin

text \<open>
  Every handler of the session keeps its journal readable and, while the session is live, in agreement
  with it: what an append may do, then one lemma for each handler.
\<close>

subsection \<open>A session and its journal\<close>

definition readable :: "scope \<Rightarrow> fact list \<Rightarrow> bool" where
  "readable c j \<longleftrightarrow> (\<exists>f. fold_facts j empty_folded = Inr f \<and> wf_folded f \<and> fo_scope f = Some c)"

definition tracked :: "session \<Rightarrow> fact list \<Rightarrow> bool" where
  "tracked s j \<longleftrightarrow>
     s_cursor s = length j \<and>
     (\<exists>f. fold_facts j empty_folded = Inr f \<and> wf_folded f \<and> fo_scope f = Some (s_scope s) \<and> agree s f)"

definition sound :: "string \<Rightarrow> scope \<Rightarrow> world \<Rightarrow> bool" where
  "sound i c w \<longleftrightarrow>
     s_id (fst w) = i \<and> s_scope (fst w) = c \<and> readable c (snd w) \<and>
     (live (fst w) \<longrightarrow> tracked (fst w) (snd w))"

lemma tracked_readable: "tracked s j \<Longrightarrow> readable (s_scope s) j"
  by (auto simp: tracked_def readable_def)

lemma soundI_live: "tracked s j \<Longrightarrow> s_id s = i \<Longrightarrow> s_scope s = c \<Longrightarrow> sound i c (s, j)"
  by (auto simp: sound_def tracked_readable)

lemma soundI_dead: "readable c j \<Longrightarrow> \<not> live s \<Longrightarrow> s_id s = i \<Longrightarrow> s_scope s = c \<Longrightarrow> sound i c (s, j)"
  by (auto simp: sound_def)

lemma soundD:
  assumes "sound i c (s, j)"
  shows "s_id s = i" "s_scope s = c" "readable c j" "live s \<Longrightarrow> tracked s j"
  using assms by (auto simp: sound_def)

lemma faulted_sel [simp]:
  "\<not> live (faultLocked e s)" "s_id (faultLocked e s) = s_id s" "s_scope (faultLocked e s) = s_scope s"
  "s_state (faultLocked e s) = Faulted"
  by (simp_all add: live_def faultLocked_def)

lemma sound_fault: "sound i c (s, j) \<Longrightarrow> sound i c (faultLocked e s, j)"
  by (auto simp: sound_def)

text \<open>A change of what is volatile.\<close>

lemma tracked_volatile:
  assumes "tracked s j" "s_scope s' = s_scope s" "s_cursor s' = s_cursor s" "\<And>f. agree s f \<Longrightarrow> agree s' f"
  shows "tracked s' j"
  using assms by (auto simp: tracked_def)

lemma sound_volatile:
  assumes "sound i c (s, j)" "s_id s' = s_id s" "s_scope s' = s_scope s" "s_cursor s' = s_cursor s"
    "live s' \<Longrightarrow> live s" "live s' \<Longrightarrow> (\<And>f. agree s f \<Longrightarrow> agree s' f)"
  shows "sound i c (s', j)"
  using assms tracked_volatile [of s j s'] by (auto simp: sound_def)

subsection \<open>Appending\<close>

lemma journal_append_cases:
  assumes "journal_append reply n facts j = (j', r)"
  obtains "n = length j" "j' = j @ facts" "r = Inr (length j + length facts)"
  | e where "r = Inl e" "j' = j \<or> n = length j \<and> j' = j @ facts"
  using assms by (auto simp: journal_append_def split: if_splits reply.splits)

text \<open>The last word of the driver on a suspension, in the journal.\<close>

fun announces :: "fact \<Rightarrow> bool option" where
  "announces (RunEvent e) =
     (case rn_payload e of PSuspended _ \<Rightarrow> Some True | PRunStarted \<Rightarrow> Some False | _ \<Rightarrow> None)"
| "announces (RunOpened _) = Some False"
| "announces (RunRecovered _) = Some False"
| "announces (RunClosed _ _ _) = Some False"
| "announces (SessionFault _) = Some False"
| "announces _ = None"

definition announced :: "fact list \<Rightarrow> bool" where
  "announced j = (case rev (List.map_filter announces j) of [] \<Rightarrow> False | b # _ \<Rightarrow> b)"

lemma announces_fold:
  assumes "fold_fact e f = Inr f'"
  shows "announces e = Some True \<Longrightarrow> fo_state f' = Suspended"
    and "announces e = None \<Longrightarrow> fo_state f = Suspended \<Longrightarrow> fo_state f' = Suspended"
  using assms
  by (auto simp: fold_fact_def apply_event_def Let_def add_messages_def on_run_def add_message_payload_def
      add_system_def split: fact.splits option.splits if_splits run_payload.splits)

lemma announced_snoc:
  "announced (j @ [e]) = (case announces e of None \<Rightarrow> announced j | Some b \<Rightarrow> b)"
  by (simp add: announced_def List.map_filter_def split: option.splits)

lemma announced_suspended:
  "fold_facts j f0 = Inr f \<Longrightarrow> announced j \<Longrightarrow> fo_state f = Suspended"
proof (induction j arbitrary: f rule: rev_induct)
  case Nil
  then show ?case by (simp add: announced_def List.map_filter_def)
next
  case (snoc e j)
  then obtain f1 where f1: "fold_facts j f0 = Inr f1" "fold_fact e f1 = Inr f"
    by (auto simp: fold_facts_append split: sum.splits)
  show ?case
  proof (cases "announces e")
    case None
    then show ?thesis using snoc announces_fold(2) [OF f1(2)] f1(1) by (simp add: announced_snoc)
  next
    case (Some b)
    then show ?thesis using snoc announces_fold(1) [OF f1(2)] by (simp add: announced_snoc)
  qed
qed

text \<open>A batch that follows from every state the session agrees with.\<close>

definition batch :: "session \<Rightarrow> fact list \<Rightarrow> fact list \<Rightarrow> (session \<Rightarrow> session) \<Rightarrow> bool" where
  "batch s j facts g \<longleftrightarrow>
     (\<forall>f n. wf_folded f \<longrightarrow> agree s f \<longrightarrow> fo_order f = accepted_ids j \<longrightarrow>
        (announced j \<longrightarrow> fo_state f = Suspended) \<longrightarrow> follows facts (g (s\<lparr>s_cursor := n\<rparr>)) f) \<and>
     (\<forall>n. s_cursor (g (s\<lparr>s_cursor := n\<rparr>)) = n \<and> s_scope (g (s\<lparr>s_cursor := n\<rparr>)) = s_scope s \<and>
        s_id (g (s\<lparr>s_cursor := n\<rparr>)) = s_id s)"

lemma batchI:
  assumes "\<And>f n. wf_folded f \<Longrightarrow> agree (s\<lparr>s_cursor := n\<rparr>) f \<Longrightarrow> fo_order f = accepted_ids j \<Longrightarrow>
      (announced j \<Longrightarrow> fo_state f = Suspended) \<Longrightarrow> follows facts (g (s\<lparr>s_cursor := n\<rparr>)) f"
    and "\<And>n. s_cursor (g (s\<lparr>s_cursor := n\<rparr>)) = n" "\<And>n. s_scope (g (s\<lparr>s_cursor := n\<rparr>)) = s_scope s"
    and "\<And>n. s_id (g (s\<lparr>s_cursor := n\<rparr>)) = s_id s"
  shows "batch s j facts g"
  using assms by (auto simp: batch_def)

lemma batch_append:
  assumes "tracked s j" "batch s j facts g"
  shows "tracked (g (s\<lparr>s_cursor := length j + length facts\<rparr>)) (j @ facts)"
    "readable (s_scope s) (j @ facts)"
proof -
  let ?s = "g (s\<lparr>s_cursor := length j + length facts\<rparr>)"
  obtain f where f: "fold_facts j empty_folded = Inr f" "wf_folded f" "fo_scope f = Some (s_scope s)" "agree s f"
    using assms(1) by (auto simp: tracked_def)
  have "fo_order f = accepted_ids j" using fold_facts_order [OF f(1)] by (simp add: empty_folded_def)
  then obtain f' where f': "fold_facts facts f = Inr f'" "wf_folded f'" "fo_scope f' = fo_scope f" "agree ?s f'"
    using assms(2) f(2,4) announced_suspended [OF f(1)] unfolding batch_def follows_def by blast
  have scope: "s_scope ?s = s_scope s" "s_cursor ?s = length (j @ facts)" using assms(2) by (simp_all add: batch_def)
  have "fold_facts (j @ facts) empty_folded = Inr f'" using f(1) f'(1) by (simp add: fold_facts_append)
  then show "tracked ?s (j @ facts)" unfolding tracked_def using f'(2-4) f(3) scope by auto
  then show "readable (s_scope s) (j @ facts)" using tracked_readable scope(1) by fastforce
qed

lemma batch_sel:
  "batch s j facts g \<Longrightarrow> s_scope (g (s\<lparr>s_cursor := n\<rparr>)) = s_scope s \<and> s_id (g (s\<lparr>s_cursor := n\<rparr>)) = s_id s"
  by (simp add: batch_def)

text \<open>An append of a live session, stored or not.\<close>

lemma append_stored:
  assumes "sound i c (s, j)" "live s" "batch s j facts g"
    and "journal_append reply (s_cursor s) facts j = (j', Inr cursor)"
  shows "sound i c (g (s\<lparr>s_cursor := cursor\<rparr>), j')"
  using assms(4)
proof (cases rule: journal_append_cases)
  case 1
  then show ?thesis
    using batch_append(1) [OF soundD(4) [OF assms(1,2)] assms(3)] batch_sel [OF assms(3)] soundD [OF assms(1)]
    by (simp add: soundI_live)
qed simp

lemma append_failed:
  assumes "sound i c (s, j)" "live s" "batch s j facts g"
    and "journal_append reply (s_cursor s) facts j = (j', Inl e)" "\<not> live s'" "s_id s' = s_id s" "s_scope s' = s_scope s"
  shows "sound i c (s', j')"
  using assms(4)
proof (cases rule: journal_append_cases)
  case 1
  then show ?thesis by simp
next
  case 2
  then show ?thesis
    using batch_append(2) [OF soundD(4) [OF assms(1,2)] assms(3)] soundD [OF assms(1)] assms(5-7)
    by (auto intro: soundI_dead)
qed

lemma commit_sound:
  assumes "sound i c (s, j)" "live s" "batch s j facts g" "commit_or_fault v reply facts (s, j) = (w, r)"
  shows "r = None \<Longrightarrow> sound i c (on_session g w)" "r \<noteq> None \<Longrightarrow> sound i c w \<and> \<not> live (fst w)"
  using assms(4) append_stored [OF assms(1-3)] append_failed [OF assms(1-3)] sound_fault [OF assms(1)]
  by (auto simp: commit_or_fault_def on_session_def split: option.splits prod.splits sum.splits)

lemma acceptance_sound:
  assumes "sound i c (s, j)" "live s" "batch s j facts g" "appendAcceptanceLocked ctx reply facts (s, j) = (w, r)"
  shows "r = None \<Longrightarrow> sound i c (on_session g w)" "r \<noteq> None \<Longrightarrow> sound i c w"
  using assms(4) append_stored [OF assms(1-3)] append_failed [OF assms(1-3)] assms(1)
  by (auto simp: appendAcceptanceLocked_def on_session_def faultLocked_def live_def
      split: option.splits prod.splits sum.splits)

lemma append_one_sound:
  assumes "sound i c (s, j)" "live s" "batch s j [e] g"
  shows "sound i c (fst (append_one reply e g (s, j)))"
  using append_stored [OF assms] append_failed [OF assms]
  by (auto simp: append_one_def split: prod.splits sum.splits)

subsection \<open>Accepting and starting\<close>

lemma acceptance_live: "acceptanceErrorLocked kind s = None \<Longrightarrow> live s"
  by (auto simp: acceptanceErrorLocked_def live_def split: if_splits)

lemma follows_then_command:
  "follows facts s f \<Longrightarrow> follows (facts @ command_facts g command) s f"
  by (erule follows_append) (rule follows_command_facts)

lemma accept_sound:
  assumes "sound i c w" "\<And>n. new_id = Inr n \<Longrightarrow> n \<notin> set (accepted_ids (snd w))"
  shows "sound i c (fst (acceptWithCursorCommand v ctx reply clock new_id kind m target command w))"
proof (cases w)
  case (Pair s j)
  have "sound i c (fst (acceptWithCursorCommand v ctx reply clock (Inr n) kind m target command (s, j)))"
    if live: "live s" and fresh: "n \<notin> set (accepted_ids j)" for n
  proof -
    let ?q = "\<lparr>qe_id = n, qe_kind = kind, qe_message = m, qe_accepted = clock\<rparr>"
    let ?facts = "QueueAccepted n (Some ?q) # command_facts (\<lambda>x. x\<lparr>ca_queue_id := n\<rparr>) command"
    have b: "batch s j ?facts (\<lambda>s. s\<lparr>s_queue := s_queue s @ [?q]\<rparr>)"
    proof (rule batchI)
      fix f k assume f: "wf_folded f" "agree (s\<lparr>s_cursor := k\<rparr>) f" "fo_order f = accepted_ids j"
      then have "follows [QueueAccepted n (Some ?q)]
          ((s\<lparr>s_cursor := k\<rparr>)\<lparr>s_queue := s_queue (s\<lparr>s_cursor := k\<rparr>) @ [?q]\<rparr>) f"
        using fresh by (intro follows_accepted) simp_all
      from follows_then_command [OF this]
      show "follows ?facts ((s\<lparr>s_cursor := k\<rparr>)\<lparr>s_queue := s_queue (s\<lparr>s_cursor := k\<rparr>) @ [?q]\<rparr>) f" by simp
    qed simp_all
    have s: "sound i c (s, j)" using assms(1) Pair by simp
    obtain w' r where a: "appendAcceptanceLocked ctx reply ?facts (s, j) = (w', r)" by fastforce
    show ?thesis using acceptance_sound [OF s live b a] a s
      by (cases r) (auto simp: acceptWithCursorCommand_def Let_def on_session_def split: option.splits)
  qed
  then show ?thesis using assms acceptance_live [of kind s] Pair
    by (cases new_id; cases "acceptanceErrorLocked kind s"; cases "staleTargetLocked target s")
       (auto simp: acceptWithCursorCommand_def)
qed

lemma prompt_error_idle: "promptErrorLocked s = None \<Longrightarrow> s_state s = Idle"
  by (cases "s_state s") (auto simp: promptErrorLocked_def)

lemma session_limits_Some: "session_limits s = Inr l \<Longrightarrow> s_budget s \<noteq> None \<Longrightarrow> l \<noteq> None"
  by (auto simp: session_limits_def split: option.splits sum.splits)

lemma started_sel [simp]:
  "s_cursor (started i l t qs p s) = s_cursor s" "s_scope (started i l t qs p s) = s_scope s"
  "s_id (started i l t qs p s) = s_id s"
  by (simp_all add: started_def transition_def)

lemma start_sound:
  assumes "sound i c w"
  shows "sound i c (fst (prepareStartWithCommand v ctx reply new_id instructions prompt command w))"
proof (cases w)
  case (Pair s j)
  have "sound i c (fst (prepareStartWithCommand v ctx reply (Inr n) (Inr text) prompt command (s, j)))"
    if idle: "s_state s = Idle" and role: "m_role prompt = RoleUser" and limits: "session_limits s = Inr l" for n "text" l
  proof -
    have s: "sound i c (s, j)" using assms Pair by simp
    let ?qs = "queueByKindsLocked [QueueNextTurn] s"
    have b: "batch s j (start_facts n l text ?qs prompt command) (started n l text ?qs prompt)"
    proof (rule batchI)
      fix f k assume f: "wf_folded f" "agree (s\<lparr>s_cursor := k\<rparr>) f"
      then have "s_run (s\<lparr>s_cursor := k\<rparr>) = None"
        using idle by (simp add: agree_def agree_phase_def)
      then show "follows (start_facts n l text ?qs prompt command) (started n l text ?qs prompt (s\<lparr>s_cursor := k\<rparr>)) f"
        using f role session_limits_Some [OF limits] by (intro follows_start) simp_all
    qed simp_all
    have live: "live s" using idle by (simp add: live_def)
    show ?thesis using acceptance_sound [OF s live b, of ctx reply] s role idle limits
      by (simp add: prepareStartWithCommand_def promptErrorLocked_def Let_def split: option.splits prod.splits)
  qed
  then show ?thesis using assms Pair prompt_error_idle [of s]
    by (cases new_id; cases instructions; cases "promptErrorLocked s"; cases "session_limits s")
       (auto simp: prepareStartWithCommand_def)
qed

subsection \<open>The handlers of a run\<close>

lemma tracked_phase:
  assumes "tracked s j" "s_run s \<noteq> None" "p \<noteq> Idle" "p \<noteq> Suspended"
  shows "tracked (transition p s) j"
  using assms by (auto simp: tracked_def transition_def agree_def agree_data_def agree_phase_def resuming_session_def)

lemma sound_phase:
  assumes "sound i c (s, j)" "live s" "s_run s \<noteq> None" "p \<noteq> Idle" "p \<noteq> Suspended"
  shows "sound i c (transition p s, j)"
  using soundI_live [OF tracked_phase [OF soundD(4) [OF assms(1,2)] assms(3-5)]] soundD [OF assms(1)]
  by (simp add: transition_def)

lemma agree_volatile_run:
  assumes "agree s f" "\<And>r. durable_run (g r) = durable_run r" "\<And>r. resuming_run (g r) \<Longrightarrow> resuming_run r"
  shows "agree (update_run g s) f"
  using agree_run [of s f g "\<lambda>r. r"] assms by simp

lemma agree_ids: "agree s f \<Longrightarrow> agree (update_run (\<lambda>r. r\<lparr>ar_injection_ids := ids\<rparr>) s) f"
  by (erule agree_volatile_run) (simp_all add: durable_run_eq resuming_run_def)

lemma update_run_sel [simp]:
  "s_cursor (update_run g s) = s_cursor s" "s_scope (update_run g s) = s_scope s"
  "s_id (update_run g s) = s_id s" "s_state (update_run g s) = s_state s"
  "s_messages (update_run g s) = s_messages s" "s_queue (update_run g s) = s_queue s"
  "s_run (update_run g s) = map_option g (s_run s)"
  by (simp_all add: update_run_def)

lemma turn_hook_sound:
  assumes "sound i c w"
  shows "sound i c (fst (turnHook v reply candidate w))"
proof (cases w)
  case (Pair s j)
  have s: "sound i c (s, j)" using assms Pair by simp
  show ?thesis
  proof (cases "s_state s = Running \<and> s_run s \<noteq> None")
    case True
    then have live: "live s" by (simp add: live_def)
    let ?qs = "hook_entries candidate s"
    let ?g = "\<lambda>s. update_run (\<lambda>r. r\<lparr>ar_injection_ids := map qe_id ?qs\<rparr>) (remove_all ?qs s)"
    have b: "batch s j (map (\<lambda>q. QueueDrained (qe_id q)) ?qs) ?g"
    proof (rule batchI)
      fix f k assume "wf_folded f" "agree (s\<lparr>s_cursor := k\<rparr>) f"
      then have "follows (map (\<lambda>q. QueueDrained (qe_id q)) ?qs) (remove_all ?qs (s\<lparr>s_cursor := k\<rparr>)) f"
        by (rule follows_drained)
      then show "follows (map (\<lambda>q. QueueDrained (qe_id q)) ?qs) (?g (s\<lparr>s_cursor := k\<rparr>)) f"
        by (rule follows_agree) (rule agree_ids)
    qed simp_all
    have "sound i c (transition Closing s, j)" using sound_phase [OF s live] True by simp
    then show ?thesis using commit_sound [OF s live b, of v reply] s True Pair
      by (auto simp: turnHook_def on_session_def Let_def split: option.splits prod.splits)
  qed (use s Pair in \<open>auto simp: turnHook_def Let_def\<close>)
qed

lemma after_event_sel [simp]:
  "s_cursor (after_event v e u s) = s_cursor s" "s_scope (after_event v e u s) = s_scope s"
  "s_id (after_event v e u s) = s_id s"
  by (cases e; cases u; simp add: after_event_def settle_turn_def applyAgenticEventLocked_def session_messages_def)+

lemma preview_sound: "sound i c (s, j) \<Longrightarrow> sound i c (emit_preview e s, j)"
proof (erule sound_volatile)
  show "agree s f \<Longrightarrow> agree (emit_preview e s) f" for f
    unfolding emit_preview_def
    by (erule agree_volatile_run) (auto simp: durable_run_eq resuming_run_def Let_def split: if_splits)
qed (simp_all add: emit_preview_def live_def)

lemma emit_sound:
  assumes "sound i c w" "s_state (fst w) \<noteq> Suspended" "s_state (fst w) \<noteq> Closed"
  shows "sound i c (fst (session_Emit v reply e w))"
proof (cases w)
  case (Pair s j)
  have s: "sound i c (s, j)" using assms Pair by simp
  have early: "sound i c (fst (session_Emit v reply e w))"
    if "vc_event_error v e \<noteq> None \<or> event_Nature e = EventPreview \<or> s_state s = Faulted \<or> s_run s = None"
    using that s sound_fault [OF s] preview_sound [OF s, of e] Pair
    by (auto simp: session_Emit_def on_session_def fault_once_def Let_def split: option.splits)
  show ?thesis
  proof (cases "vc_event_error v e \<noteq> None \<or> event_Nature e = EventPreview \<or> s_state s = Faulted \<or> s_run s = None")
    case False
    then obtain r where r: "s_run s = Some r" by blast
    have live: "live s" using False assms(3) Pair by (simp add: live_def)
    show ?thesis
    proof (cases "next_usage e r s")
      case (Inl x)
      then show ?thesis using False r sound_fault [OF s] Pair
        by (simp add: session_Emit_def on_session_def Let_def)
    next
      case (Inr used)
      let ?facts = "[RunEvent \<lparr>rn_turn = event_turn e, rn_payload = event_payload v e (ar_injection_ids r),
          rn_session_used = used\<rparr>]"
      have b: "batch s j ?facts (after_event v e used)"
      proof (rule batchI)
        fix f k assume f: "wf_folded f" "agree (s\<lparr>s_cursor := k\<rparr>) f"
        have "next_usage e r (s\<lparr>s_cursor := k\<rparr>) = Inr used" using Inr by (auto simp: next_usage_def split: event.splits sum.splits)
        then show "follows ?facts (after_event v e used (s\<lparr>s_cursor := k\<rparr>)) f"
          using f r assms(2) False Pair by (intro follows_driver_event) simp_all
      qed simp_all
      have after: "on_session (settle_turn e used \<circ> applyAgenticEventLocked v e) w = on_session (after_event v e used) w" for w
        by (simp add: on_session_def after_event_def)
      obtain w' x where a: "commit_or_fault v reply ?facts (s, j) = (w', x)" by fastforce
      have "session_Emit v reply e w =
          (case x of Some x \<Rightarrow> (w', Some (Cause x)) | None \<Rightarrow> (on_session (after_event v e used) w', None))"
        using False r Inr Pair a by (simp add: session_Emit_def Let_def after split: option.splits)
      then show ?thesis using commit_sound [OF s live b a] by (cases x) auto
    qed
  qed (rule early)
qed

lemma projection_sound:
  assumes "sound i c w" "cj_changed p \<longrightarrow> cj_compaction p \<noteq> None"
  shows "sound i c (fst (commit_projection v reply p w))"
proof (cases w)
  case (Pair s j)
  have s: "sound i c (s, j)" using assms Pair by simp
  show ?thesis
  proof (cases "s_state s = Running \<and> s_run s \<noteq> None")
    case True
    then have live: "live s" by (simp add: live_def)
    let ?n = "length (s_messages s)"
    obtain f where f: "wf_folded f" "agree s f"
      using soundD(4) [OF s live] by (auto simp: tracked_def)
    then have "s_messages s \<noteq> []"
      using True follows_run_None [OF f(2)] by (auto simp: wf_folded_def wf_run_def agree_def agree_data_def)
    then have b: "batch s j (projection_facts p ?n) (projection_committed p ?n)"
      using follows_projection [of _ "s\<lparr>s_cursor := k\<rparr>" p for k] assms(2)
      by (intro batchI) (simp_all add: projection_committed_def)
    obtain w' x where a: "commit_or_fault v reply (projection_facts p ?n) (s, j) = (w', x)" by fastforce
    show ?thesis using commit_sound [OF s live b a] s True Pair a
      by (cases x) (auto simp: commit_projection_def Let_def)
  qed (use s Pair in \<open>auto simp: commit_projection_def Let_def\<close>)
qed

lemma view_sound: "sound i c w \<Longrightarrow> sound i c (fst (project_view v ms w))"
  by (cases w) (auto simp: project_view_def on_session_def Let_def sound_fault split: prod.splits)

lemma project_history_sound:
  assumes "sound i c w" "\<And>ms k p. policy ms k = Inr p \<Longrightarrow> cj_changed p \<Longrightarrow> cj_compaction p \<noteq> None"
  shows "sound i c (fst (projectHistory v reply policy ms w))"
proof -
  obtain w1 x where 1: "project_view v ms w = (w1, x)" by fastforce
  then have w1: "sound i c w1" using view_sound [OF assms(1), of v ms] by simp
  show ?thesis
  proof (cases x)
    case (Inr full)
    show ?thesis
    proof (cases "policy full (s_compaction (fst w1))")
      case (Inr p)
      obtain w2 y where 2: "commit_projection v reply p w1 = (w2, y)" by fastforce
      then have "sound i c w2" using projection_sound [OF w1, of p v reply] assms(2) [OF Inr] by simp
      then show ?thesis using 1 2 Inr \<open>x = Inr full\<close>
        by (cases y) (simp_all add: projectHistory_def Let_def split: sum.splits)
    qed (use 1 w1 Inr in \<open>simp add: projectHistory_def Let_def\<close>)
  qed (use 1 w1 in \<open>simp add: projectHistory_def\<close>)
qed

subsection \<open>Operations of tools and children\<close>

lemma batch_silent: "silent e \<Longrightarrow> batch s j [e] id"
  by (rule batchI) (simp_all add: follows_silent)

lemma operation_fault_sound: "sound i c w \<Longrightarrow> sound i c (fst (faultOperation e w))"
  by (cases w) (simp add: faultOperation_def on_session_def sound_fault)

lemma operation_sound: "sound i c w \<Longrightarrow> sound i c (fst (RecordOperation v reply p w))"
  using operation_fault_sound [of i c w] append_one_sound [OF _ _ batch_silent, of i c "fst w" "snd w" "RuntimeOperation p" reply]
  by (auto simp: RecordOperation_def live_def split: option.splits)

lemma child_event_sound: "sound i c w \<Longrightarrow> sound i c (fst (ProjectEvent v reply r w))"
  using operation_fault_sound [of i c w] append_one_sound [OF _ _ batch_silent, of i c "fst w" "snd w" "ChildEvent e" reply for e]
  by (auto simp: ProjectEvent_def live_def Let_def split: option.splits)

lemma reject_sound: "sound i c w \<Longrightarrow> sound i c (fst (rejectCommand v ctx reply p w))"
  using acceptance_sound [OF _ _ batch_silent, of i c "fst w" "snd w" "CommandAccepted p" ctx reply]
  by (cases "appendAcceptanceLocked ctx reply [CommandAccepted p] w"; cases "snd (appendAcceptanceLocked ctx reply [CommandAccepted p] w)")
     (auto simp: rejectCommand_def live_def on_session_def split: option.splits)

lemma batch_child_usage: "batch s j [ChildUsage x spent] (charge_child spent)"
  by (rule batchI) (simp_all add: follows_child_usage, simp_all add: charge_child_def)

lemma lease_sound: "sound i c w \<Longrightarrow> sound i c (fst (snd (lease_Commit v reply x l w)))"
proof (cases w)
  case (Pair s j)
  assume "sound i c w"
  then have s: "sound i c (s, j)" using Pair by simp
  let ?spent = "addUsage (s_usage s) (uc_usage x)"
  obtain w' y where a: "append_one reply (ChildUsage x ?spent) (charge_child ?spent) (s, j) = (w', y)" by fastforce
  then have "live s \<Longrightarrow> sound i c w'"
    using append_one_sound [OF s _ batch_child_usage, of reply x ?spent] by simp
  then show ?thesis using s sound_fault [OF s] a Pair
    by (auto simp: lease_Commit_def on_session_def live_def Let_def split: option.splits)
qed

end
