(* ===== verification/Session_Ends.thy ===== *)
theory Session_Ends
  imports Session_Sound
begin

text \<open>
  The handlers that end, interrupt, resume and recover a run, and what the code relies on there: the
  codec tells different messages apart, and a driver puts a system message only in front of a history
  that has none and reports the suspension it announced.
\<close>

subsection \<open>What the session relies on\<close>

definition faithful :: "services \<Rightarrow> bool" where
  "faithful v \<longleftrightarrow> (\<forall>a b. messages_equal v a b \<longrightarrow> a = b)"

definition keeps_system :: "services \<Rightarrow> outcome option \<Rightarrow> session \<Rightarrow> bool" where
  "keeps_system v x s \<longleftrightarrow>
     (case (outcome_report x, s_run s) of
        (Some y, Some r) \<Rightarrow>
          system_first (ar_history r) \<longrightarrow> messages_equal v (take 1 (rt_messages y)) (take 1 (ar_history r))
      | _ \<Rightarrow> True)"

definition keeps_suspension :: "outcome option \<Rightarrow> world \<Rightarrow> bool" where
  "keeps_suspension x w \<longleftrightarrow>
     (case x of None \<Rightarrow> True
      | Some y \<Rightarrow> oc_status y = ExecutionSuspended \<longrightarrow>
          announced (snd w) \<and> oc_suspension y = s_suspension (fst w))"

lemma inserted_system:
  assumes "validateProjectionLocked v x s = Inr (Some m)" "keeps_system v x s"
  obtains r where "s_run s = Some r" "\<not> system_first (ar_history r)" "m_role m = RoleSystem"
  using assms
  by (auto simp: validateProjectionLocked_def keeps_system_def Let_def system_first_def
      split: option.splits if_splits list.splits)

lemma repaired_messages:
  assumes "faithful v" "repaired_tail v pending msg s = Inr repaired"
  shows "repaired = s_messages s @ drop (length (s_messages s)) repaired"
proof -
  have "take (length (s_messages s)) repaired = s_messages s"
    using assms by (auto simp: repaired_tail_def faithful_def split: sum.splits if_splits)
  then show ?thesis by (metis append_take_drop_id)
qed

subsection \<open>A fault that is written down\<close>

lemma persist_fault_sound:
  assumes "sound i c (s, j)" "live s" "s_run s \<noteq> None" "persistFaultLocked v reply e (s, j) = (w, x)"
  shows "sound i c w"
proof -
  obtain f where f: "fold_facts j empty_folded = Inr f" "wf_folded f" "fo_scope f = Some (s_scope s)" "agree s f"
    using soundD(4) [OF assms(1,2)] by (auto simp: tracked_def)
  have "fo_run f \<noteq> None" using follows_run_None [OF f(4)] assms(3) by simp
  then have "wf_folded (f\<lparr>fo_cursor := Suc (fo_cursor f), fo_state := Faulted\<rparr>)"
    using f(2) by (auto simp: wf_folded_def wf_run_def)
  then have fault: "readable (s_scope s) (j @ [SessionFault t])" for t
    using f(1,3) by (auto simp: readable_def fold_facts_append fold_fact_def)
  show ?thesis using assms(4) fault soundD [OF assms(1)]
    by (auto simp: persistFaultLocked_def Let_def journal_append_def intro!: soundI_dead
        split: option.splits prod.splits sum.splits if_splits reply.splits)
qed

lemma persist_fault_error: "persistFaultLocked v reply e w = (w', x) \<Longrightarrow> x \<noteq> None"
  by (cases w) (auto simp: persistFaultLocked_def Let_def split: prod.splits)

subsection \<open>The batches of the end of a run\<close>

definition settled :: "(usage \<times> usage) option \<Rightarrow> message option \<Rightarrow> session \<Rightarrow> session" where
  "settled used system s =
     (let s = (case used of None \<Rightarrow> s | Some (run, spent) \<Rightarrow> settled_usage run spent s) in
      case system of None \<Rightarrow> s | Some m \<Rightarrow> with_system m s)"

lemma settled_usage_sel [simp]:
  "s_run (settled_usage u t s) = map_option (\<lambda>r. r\<lparr>ar_last_usage := u\<rparr>) (s_run s)"
  "s_messages (settled_usage u t s) = s_messages s" "s_markers (settled_usage u t s) = s_markers s"
  "s_queue (settled_usage u t s) = s_queue s" "s_usage (settled_usage u t s) = t"
  "s_state (settled_usage u t s) = s_state s" "s_budget (settled_usage u t s) = s_budget s"
  "s_drain_all (settled_usage u t s) = s_drain_all s" "s_suspension (settled_usage u t s) = s_suspension s"
  "s_compaction (settled_usage u t s) = s_compaction s"
  by (simp_all add: settled_usage_def update_run_def)

lemma with_system_sel [simp]:
  "s_run (with_system m s) = map_option (\<lambda>r. r\<lparr>ar_history := m # ar_history r\<rparr>) (s_run s)"
  "s_messages (with_system m s) = m # s_messages s"
  "s_markers (with_system m s) = shiftContextMarkers 1 (s_markers s)"
  "s_queue (with_system m s) = s_queue s" "s_usage (with_system m s) = s_usage s"
  "s_state (with_system m s) = s_state s" "s_budget (with_system m s) = s_budget s"
  "s_drain_all (with_system m s) = s_drain_all s" "s_suspension (with_system m s) = s_suspension s"
  "s_compaction (with_system m s) = s_compaction s"
  by (simp_all add: with_system_def update_run_def put_system_def)

lemma follows_settled:
  assumes "wf_folded f" "agree s f"
    and "\<And>m. system = Some m \<Longrightarrow> m_role m = RoleSystem \<and> (\<exists>r. s_run s = Some r \<and> \<not> system_first (ar_history r))"
  shows "follows (usage_facts used @ system_facts system) (settled used system s) f"
proof -
  let ?s = "case used of None \<Rightarrow> s | Some (run, spent) \<Rightarrow> settled_usage run spent s"
  have "follows (usage_facts used) ?s f"
    using assms(1,2) by (auto simp: usage_facts_def follows_Nil follows_usage split: option.splits)
  then show ?thesis
  proof (rule follows_append)
    fix f' assume f': "wf_folded f'" "agree ?s f'"
    show "follows (system_facts system) (settled used system s) f'"
    proof (cases system)
      case None
      then show ?thesis using f' by (simp add: system_facts_def settled_def follows_Nil)
    next
      case (Some m)
      then obtain r where r: "s_run s = Some r" "\<not> system_first (ar_history r)" "m_role m = RoleSystem"
        using assms(3) by blast
      obtain r' where "s_run ?s = Some r'" "\<not> system_first (ar_history r')"
        using r by (cases used) (auto split: prod.splits)
      from follows_system [OF f' this(1) r(3) this(2)] show ?thesis
        using Some by (simp add: system_facts_def settled_def)
    qed
  qed
qed

lemma remove_all_queue:
  "s_queue (remove_all qs s) = foldl (\<lambda>q x. takeWhile (\<lambda>y. qe_id y \<noteq> qe_id x) q @
     tl (dropWhile (\<lambda>y. qe_id y \<noteq> qe_id x) q)) (s_queue s) qs"
  by (induction qs arbitrary: s) (simp_all add: remove_all_def removeQueueLocked_def)

text \<open>Sessions the journal cannot tell apart.\<close>

lemma agree_transfer:
  assumes "agree t f" "s_messages s = s_messages t" "s_markers s = s_markers t" "s_queue s = s_queue t"
    "s_usage s = s_usage t" "s_budget s = s_budget t" "s_drain_all s = s_drain_all t"
    "s_suspension s = s_suspension t" "s_compaction s = s_compaction t"
    "map_option durable_run (s_run s) = map_option durable_run (s_run t)" "agree_phase s f"
  shows "agree s f"
proof -
  have "agree_data t f" using assms(1) by (simp add: agree_def)
  then have "agree_data s f" using assms(2-10) unfolding agree_data_def by metis
  then show ?thesis using assms(11) by (simp add: agree_def)
qed

lemma agree_phase_idle [simp]: "agree_phase (transition Idle (s\<lparr>s_run := None, s_suspension := x\<rparr>)) f"
  "agree_phase (transition Idle (s\<lparr>s_run := None, s_cancel := b, s_suspension := x\<rparr>)) f"
  by (simp_all add: agree_phase_def transition_def resuming_session_def)

subsection \<open>Interrupting\<close>

text \<open>The batch of an interrupt, read back step by step.\<close>

definition marked :: "string \<Rightarrow> session \<Rightarrow> session" where
  "marked t s = s\<lparr>s_markers := s_markers s @
     [\<lparr>mk_after = int (length (s_messages s)), mk_message = interruptionContextMessage t\<rparr>]\<rparr>"

lemma follows_interrupted:
  assumes wf: "wf_folded f" and agree: "agree s f" and messages: "s_messages s \<noteq> []"
    and system: "\<And>m. system = Some m \<Longrightarrow> m_role m = RoleSystem \<and> (\<exists>r. s_run s = Some r \<and> \<not> system_first (ar_history r))"
  shows "follows (repair_facts source added @ usage_facts used @ system_facts system @ cancel_facts reason qs @
      [InterruptMarker interrupt_text, RunClosed i status e])
    (interrupted (s_messages s @ added) system used qs s) f"
proof -
  let ?s1 = "session_messages added s"
  let ?s2 = "settled used system ?s1"
  let ?s3 = "remove_all qs ?s2"
  let ?s4 = "marked interrupt_text ?s3"
  have 1: "follows (repair_facts source added) ?s1 f" using wf agree by (rule follows_repair_facts)
  have run: "m_role m = RoleSystem \<and> (\<exists>r. s_run ?s1 = Some r \<and> \<not> system_first (ar_history r))" if m: "system = Some m" for m
    using system [OF m] by (auto simp: session_messages_def update_run_def)
  have 2: "follows (repair_facts source added @ usage_facts used @ system_facts system) ?s2 f"
    using 1 by (rule follows_append) (rule follows_settled, assumption, assumption, rule run)
  have 3: "follows ((repair_facts source added @ usage_facts used @ system_facts system) @ cancel_facts reason qs) ?s3 f"
    using 2 by (rule follows_append) (rule follows_cancelled)
  have nonempty: "s_messages ?s3 \<noteq> []"
    using messages by (cases used; cases system; auto simp: settled_def session_messages_def)
  have 4: "follows (((repair_facts source added @ usage_facts used @ system_facts system) @ cancel_facts reason qs) @
      [InterruptMarker interrupt_text]) ?s4 f"
    using 3 by (rule follows_append) (unfold marked_def, rule follows_marker, assumption, assumption, rule nonempty)
  have 5: "follows ((((repair_facts source added @ usage_facts used @ system_facts system) @ cancel_facts reason qs) @
      [InterruptMarker interrupt_text]) @ [RunClosed i status e]) (closed_run ?s4) f"
    using 4 by (rule follows_append) (rule follows_closed)
  have "agree (interrupted (s_messages s @ added) system used qs s) f'" if "agree (closed_run ?s4) f'" for f'
    using that
    by (rule agree_transfer)
       (auto simp: interrupted_def closed_run_def marked_def settled_def put_system_def put_usage_def
         session_messages_def update_run_def transition_def remove_all_queue agree_phase_def resuming_session_def
         Let_def split: option.splits prod.splits)
  from follows_agree [OF 5 this] show ?thesis by simp
qed

lemma interrupted_sel [simp]:
  "s_cursor (interrupted ms m u qs s) = s_cursor s" "s_scope (interrupted ms m u qs s) = s_scope s"
  "s_id (interrupted ms m u qs s) = s_id s" "s_state (interrupted ms m u qs s) = Idle"
  "s_run (interrupted ms m u qs s) = None"
proof -
  have system: "s_cursor (put_system m t) = s_cursor t" "s_scope (put_system m t) = s_scope t"
    "s_id (put_system m t) = s_id t" for t
    by (cases m; simp add: put_system_def)+
  have "s_cursor (put_usage u t) = s_cursor t" "s_scope (put_usage u t) = s_scope t"
    "s_id (put_usage u t) = s_id t" for t
    by (simp_all add: put_usage_def split: option.splits prod.splits)
  with system show "s_cursor (interrupted ms m u qs s) = s_cursor s" "s_scope (interrupted ms m u qs s) = s_scope s"
    "s_id (interrupted ms m u qs s) = s_id s" "s_state (interrupted ms m u qs s) = Idle"
    "s_run (interrupted ms m u qs s) = None"
    by (simp_all add: interrupted_def transition_def Let_def)
qed

lemma tracked_messages:
  assumes "tracked s j" "s_run s \<noteq> None"
  shows "s_messages s \<noteq> []"
proof -
  obtain f where f: "wf_folded f" "agree s f" using assms(1) by (auto simp: tracked_def)
  then obtain r where "fo_run f = Some r" using assms(2) follows_run_None [OF f(2)] by auto
  then have "fo_messages f \<noteq> []" using f(1) by (simp add: wf_folded_def wf_run_def)
  moreover have "s_messages s = fo_messages f" using f(2) by (simp add: agree_def agree_data_def)
  ultimately show ?thesis by simp
qed

lemma live_not_faulted: "live s \<Longrightarrow> s_state s \<noteq> Faulted"
  by (simp add: live_def)

lemma interrupt_sound:
  assumes "sound i c (s, j)" "live s" "faithful v" "keeps_system v x s" "s_run s \<noteq> None"
    and "finishInterrupt v reply x (s, j) = (w, r)"
  shows "sound i c w" "r = None \<Longrightarrow> s_state (fst w) = Idle"
proof -
  have fault: "sound i c w \<and> (r = None \<longrightarrow> s_state (fst w) = Idle)"
    if "persistFaultLocked v reply e (s, j) = (w, r)" for e
    using persist_fault_sound [OF assms(1,2,5) that] persist_fault_error [OF that] by blast
  have not_faulted: "s_state s \<noteq> Faulted" using assms(2) by (simp add: live_def)
  have "sound i c w \<and> (r = None \<longrightarrow> s_state (fst w) = Idle)"
  proof (cases "validateProjectionLocked v x s")
    case (Inl e)
    then have "persistFaultLocked v reply e (s, j) = (w, r)" using assms(5,6) not_faulted
      by (auto simp: finishInterrupt_def)
      then show ?thesis by (rule fault)
  next
    case (Inr system)
    note system = Inr
    show ?thesis
    proof (cases "repaired_tail v (pendingCallsLocked v s) ''interrupt repair rewrote committed messages'' s")
      case (Inl e)
      then have "persistFaultLocked v reply e (s, j) = (w, r)" using assms(5,6) system not_faulted
        by (auto simp: finishInterrupt_def)
        then show ?thesis by (rule fault)
    next
      case (Inr repaired)
      note repaired = Inr
      then have added: "repaired = s_messages s @ drop (length (s_messages s)) repaired"
        using repaired_messages [OF assms(3)] by blast
      show ?thesis
      proof (cases "settle_usage x s")
        case (Inl e)
        then have "persistFaultLocked v reply (Cause e) (s, j) = (w, r)" using assms(5,6) system repaired not_faulted
          by (auto simp: finishInterrupt_def)
          then show ?thesis by (rule fault)
      next
        case (Inr used)
        let ?qs = "queueByKindsLocked [QueueSteer, QueueFollowUp] s"
        let ?facts = "repair_facts ''interrupt_repair'' (drop (length (s_messages s)) repaired) @
            usage_facts used @ system_facts system @ cancel_facts ''interrupted'' ?qs @
            [InterruptMarker interrupt_text, RunClosed (run_id s) ExecutionInterrupted (kind_text CtxCanceled)]"
        have messages: "s_messages s \<noteq> []" using tracked_messages [OF soundD(4) [OF assms(1,2)] assms(5)] .
        have b: "batch s j ?facts (interrupted repaired system used ?qs)"
        proof (rule batchI)
          fix f k assume f: "wf_folded f" "agree (s\<lparr>s_cursor := k\<rparr>) f"
          have head: "m_role m = RoleSystem \<and> (\<exists>r. s_run (s\<lparr>s_cursor := k\<rparr>) = Some r \<and> \<not> system_first (ar_history r))"
            if "system = Some m" for m
            using inserted_system [of v x s m] system assms(4) that by (auto split: option.splits)
          have "follows ?facts (interrupted (s_messages (s\<lparr>s_cursor := k\<rparr>) @ drop (length (s_messages s)) repaired)
              system used ?qs (s\<lparr>s_cursor := k\<rparr>)) f"
            using f messages head by (intro follows_interrupted) simp_all
          then show "follows ?facts (interrupted repaired system used ?qs (s\<lparr>s_cursor := k\<rparr>)) f"
            using added by simp
        qed simp_all
        obtain w' y where a: "commit_or_fault v reply ?facts (s, j) = (w', y)" by fastforce
        have "(w, r) = (case y of Some e \<Rightarrow> (w', Some (FaultError (s_id s) (Cause e)))
            | None \<Rightarrow> (on_session (interrupted repaired system used ?qs) w', None))"
          using assms(5,6) system repaired Inr not_faulted a by (auto simp: finishInterrupt_def Let_def split: option.splits)
        then show ?thesis using commit_sound [OF assms(1,2) b a] by (cases y) (auto simp: on_session_def)
      qed
    qed
  qed
  then show "sound i c w" "r = None \<Longrightarrow> s_state (fst w) = Idle" by blast+
qed

lemma interrupting_tracked:
  assumes "sound i c (s, j)" "live s" "s_run s \<noteq> None"
  shows "sound i c (update_run (\<lambda>r. r\<lparr>ar_interrupted := True\<rparr>) (transition Interrupting s), j)"
proof -
  have s: "sound i c (transition Interrupting s, j)" using assms by (intro sound_phase) simp_all
  then show ?thesis
    by (rule sound_volatile)
       (auto simp: live_def transition_def intro!: agree_volatile_run simp: durable_run_eq resuming_run_def)
qed

lemma request_interrupt_sound:
  assumes "sound i c w"
  shows "sound i c (fst (requestInterruptCommand v ctx reply expected command w))"
proof (cases w)
  case (Pair s j)
  have s: "sound i c (s, j)" using assms Pair by simp
  let ?c = "\<lambda>x. CommandAccepted (x\<lparr>ca_run_id := run_id s\<rparr>)"
  show ?thesis
  proof (cases "live s \<and> s_state s \<noteq> Idle")
    case True
    then have live: "live s" and run: "s_run s \<noteq> None"
      using soundD(4) [OF s] by (auto simp: tracked_def agree_def agree_phase_def)
    have go: "sound i c (update_run (\<lambda>r. r\<lparr>ar_interrupted := True\<rparr>) (transition Interrupting s'), j')"
      if "sound i c (s', j')" "s_state s' = s_state s" for s' j'
    proof -
      have "live s'" using that True by (simp add: live_def)
      moreover have "s_run s' \<noteq> None"
        using soundD(4) [OF that(1)] \<open>live s'\<close> that(2) True by (auto simp: tracked_def agree_def agree_phase_def)
      ultimately show ?thesis using that(1) by (intro interrupting_tracked)
    qed
    show ?thesis
    proof (cases command)
      case None
      then show ?thesis using s go [OF s] Pair
        by (auto simp: requestInterruptCommand_def Let_def on_session_def split: option.splits)
    next
      case (Some x)
      obtain w' r where a: "appendAcceptanceLocked ctx reply [?c x] (s, j) = (w', r)" by fastforce
      have b: "batch s j [?c x] id" by (rule batch_silent) simp
      have state: "r = None \<Longrightarrow> s_state (fst w') = s_state s"
        using a by (auto simp: appendAcceptanceLocked_def split: option.splits prod.splits sum.splits)
      have "sound i c w'" using acceptance_sound [OF s live b a] by (cases r) (auto simp: on_session_def)
      then show ?thesis using s a Some Pair state go [of "fst w'" "snd w'"]
        by (cases r) (auto simp: requestInterruptCommand_def Let_def on_session_def split: option.splits)
    qed
  next
    case False
    then show ?thesis using s Pair
      by (auto simp: requestInterruptCommand_def Let_def live_def split: option.splits)
  qed
qed

subsection \<open>Ending a run\<close>

lemma settle_usage_None:
  assumes "settle_usage x s = Inr None" "outcome_report x = Some y" "s_run s = Some r"
  shows "counted (rt_usage y) = counted (ar_last_usage r)"
proof -
  obtain d where d: "usageDelta (rt_usage y) (ar_last_usage r) = Inr d" "usageEmpty d"
    using assms by (auto simp: settle_usage_def split: sum.splits if_splits)
  then have "\<not> usage_backwards (rt_usage y) (ar_last_usage r)" by (auto simp: usageDelta_def split: if_splits)
  then have "length (us_request_usages (rt_usage y)) = length (us_request_usages (ar_last_usage r))"
    using d by (auto simp: usageDelta_def usageEmpty_def usage_backwards_def)
  then have "map (\<lambda>_. z) (us_request_usages (rt_usage y)) = map (\<lambda>_. z) (us_request_usages (ar_last_usage r))" for z :: request_usage
    by (simp add: map_replicate_const)
  then show ?thesis using d
    by (cases "rt_usage y"; cases "ar_last_usage r")
       (auto simp: counted_def usageDelta_def usageEmpty_def split: if_splits)
qed

lemma fold_keeps_suspended:
  "list_all (\<lambda>e. announces e = None) es \<Longrightarrow> fold_facts es f = Inr f' \<Longrightarrow> fo_state f = Suspended \<Longrightarrow>
     fo_state f' = Suspended"
proof (induction es arbitrary: f)
  case (Cons e es)
  then show ?case using announces_fold(2) [of e f] by (auto split: sum.splits)
qed simp

definition suspended_end :: "outcome \<Rightarrow> message option \<Rightarrow> (usage \<times> usage) option \<Rightarrow> session \<Rightarrow> session" where
  "suspended_end x system used s =
     transition Suspended ((update_run
       (\<lambda>r. r\<lparr>ar_last_usage := (case oc_report x of None \<Rightarrow> ar_last_usage r | Some y \<Rightarrow> rt_usage y),
              ar_history := (case system of None \<Rightarrow> ar_history r | Some m \<Rightarrow> m # ar_history r),
              ar_resume_in_progress := False\<rparr>)
       (put_system system (put_usage used s)))
       \<lparr>s_suspension := oc_suspension x, s_cancel := False\<rparr>)"

lemma put_sel [simp]:
  "s_cursor (put_system m s) = s_cursor s" "s_scope (put_system m s) = s_scope s" "s_id (put_system m s) = s_id s"
  "s_run (put_system m s) = s_run s" "s_cursor (put_usage u s) = s_cursor s"
  "s_scope (put_usage u s) = s_scope s" "s_id (put_usage u s) = s_id s" "s_run (put_usage u s) = s_run s"
  by (simp_all add: put_system_def put_usage_def split: option.splits prod.splits)

lemma suspended_end_sel [simp]:
  "s_cursor (suspended_end x m u s) = s_cursor s" "s_scope (suspended_end x m u s) = s_scope s"
  "s_id (suspended_end x m u s) = s_id s"
  by (simp_all add: suspended_end_def transition_def)

lemma follows_suspended_end:
  assumes "wf_folded f" "agree s f" "fo_state f = Suspended" and run: "s_run s = Some r"
    and system: "\<And>m. system = Some m \<Longrightarrow> m_role m = RoleSystem \<and> \<not> system_first (ar_history r)"
    and x: "oc_report x = Some y" "oc_suspension x = s_suspension s"
    and used: "used = None \<and> counted (rt_usage y) = counted (ar_last_usage r) \<or> (\<exists>t. used = Some (rt_usage y, t))"
  shows "follows (usage_facts used @ system_facts system) (suspended_end x system used s) f"
proof -
  have "follows (usage_facts used @ system_facts system) (settled used system s) f"
    using assms(1,2) system run by (intro follows_settled) auto
  then obtain f' where f': "fold_facts (usage_facts used @ system_facts system) f = Inr f'" "wf_folded f'"
      "fo_scope f' = fo_scope f" "agree (settled used system s) f'"
    by (auto simp: follows_def)
  have "list_all (\<lambda>e. announces e = None) (usage_facts used @ system_facts system)"
    by (auto simp: usage_facts_def system_facts_def split: option.splits)
  then have "fo_state f' = Suspended" using fold_keeps_suspended f'(1) assms(3) by blast
  then have phase: "agree_phase (suspended_end x system used s) f'"
    using run by (simp add: agree_phase_def suspended_end_def transition_def resuming_session_def resuming_run_def)
  have "agree (suspended_end x system used s) f'"
    using f'(4)
    by (rule agree_transfer)
       (use used x run phase in \<open>auto simp: suspended_end_def settled_def put_system_def put_usage_def transition_def
         update_run_def durable_run_eq split: option.splits prod.splits\<close>)
  then show ?thesis using f' by (intro followsI)
qed

definition closed_end :: "queue_entry list \<Rightarrow> message option \<Rightarrow> (usage \<times> usage) option \<Rightarrow> session \<Rightarrow> session" where
  "closed_end qs system used s =
     transition Idle ((remove_all qs (put_system system (put_usage used s)))\<lparr>s_run := None, s_suspension := None\<rparr>)"

lemma closed_end_sel [simp]:
  "s_cursor (closed_end qs m u s) = s_cursor s" "s_scope (closed_end qs m u s) = s_scope s"
  "s_id (closed_end qs m u s) = s_id s"
  by (simp_all add: closed_end_def transition_def)

lemma follows_closed_end:
  assumes "wf_folded f" "agree s f"
    and system: "\<And>m. system = Some m \<Longrightarrow> m_role m = RoleSystem \<and> (\<exists>r. s_run s = Some r \<and> \<not> system_first (ar_history r))"
  shows "follows (usage_facts used @ system_facts system @ cancel_facts reason qs @ [RunClosed i status e])
    (closed_end qs system used s) f"
proof -
  have 1: "follows (usage_facts used @ system_facts system) (settled used system s) f"
    using assms by (rule follows_settled)
  have 2: "follows ((usage_facts used @ system_facts system) @ cancel_facts reason qs)
      (remove_all qs (settled used system s)) f"
    using 1 by (rule follows_append) (rule follows_cancelled)
  have 3: "follows (((usage_facts used @ system_facts system) @ cancel_facts reason qs) @ [RunClosed i status e])
      (closed_run (remove_all qs (settled used system s))) f"
    using 2 by (rule follows_append) (rule follows_closed)
  have "agree (closed_end qs system used s) f'" if "agree (closed_run (remove_all qs (settled used system s))) f'" for f'
    using that
    by (rule agree_transfer)
       (auto simp: closed_end_def closed_run_def settled_def put_system_def put_usage_def transition_def
         remove_all_queue agree_phase_def resuming_session_def split: option.splits prod.splits)
  from follows_agree [OF 3 this] show ?thesis by simp
qed

lemma persist_fault_fst:
  assumes "sound i c (s, j)" "live s" "s_run s \<noteq> None"
  shows "sound i c (fst (persistFaultLocked v reply e (s, j)))"
  using persist_fault_sound [OF assms, of v reply e] by (cases "persistFaultLocked v reply e (s, j)") simp

lemma system_head:
  assumes "validateProjectionLocked v x s = Inr system" "keeps_system v x s" "system = Some m"
  shows "m_role m = RoleSystem \<and> (\<exists>r. s_run s = Some r \<and> \<not> system_first (ar_history r))"
  using inserted_system [of v x s m] assms by blast

lemma suspended_batch:
  assumes run: "s_run s = Some r" and system: "keeps_system v (Some x) s"
    and announced: "announced j" "oc_suspension x = s_suspension s"
    and y: "oc_report x = Some y" and valid: "validateProjectionLocked v (Some x) s = Inr m"
    and used: "settle_usage (Some x) s = Inr used"
  shows "batch s j (usage_facts used @ system_facts m) (suspended_end x m used)"
proof (rule batchI)
  fix f k assume f: "wf_folded f" "agree (s\<lparr>s_cursor := k\<rparr>) f" "announced j \<Longrightarrow> fo_state f = Suspended"
  have report: "outcome_report (Some x) = Some y" using y by (simp add: outcome_report_def)
  have spent: "used = None \<and> counted (rt_usage y) = counted (ar_last_usage r) \<or> (\<exists>t. used = Some (rt_usage y, t))"
    using used settle_usage_None [of "Some x" s y r] report run
    by (auto simp: settle_usage_def split: sum.splits if_splits)
  have head: "m_role z = RoleSystem \<and> \<not> system_first (ar_history r)" if "m = Some z" for z
    using system_head [OF valid system that] run by simp
  show "follows (usage_facts used @ system_facts m) (suspended_end x m used (s\<lparr>s_cursor := k\<rparr>)) f"
    using f announced run head y spent
    by (intro follows_suspended_end [where r = r and y = y]) simp_all
qed simp_all

lemma finish_suspended_sound:
  assumes s: "sound i c (s, j)" and live: "live s" and run: "s_run s = Some r"
    and system: "keeps_system v (Some x) s" and announced: "announced j" "oc_suspension x = s_suspension s"
  shows "sound i c (fst (finish_suspended v reply (Some x) e (s, j)))"
proof -
  have fault: "sound i c (fst (persistFaultLocked v reply a (s, j)))" for a
    using persist_fault_fst [OF s live, of v reply] run by simp
  consider "oc_report x = None \<or> oc_suspension x = None"
    | a where "oc_report x \<noteq> None" "oc_suspension x \<noteq> None" "validateProjectionLocked v (Some x) s = Inl a"
    | m a where "oc_report x \<noteq> None" "oc_suspension x \<noteq> None" "validateProjectionLocked v (Some x) s = Inr m"
        "settle_usage (Some x) s = Inl a"
    | y m used where "oc_report x = Some y" "oc_suspension x \<noteq> None" "validateProjectionLocked v (Some x) s = Inr m"
        "settle_usage (Some x) s = Inr used"
    by (cases "oc_report x"; cases "oc_suspension x"; cases "validateProjectionLocked v (Some x) s"; cases "settle_usage (Some x) s")
      simp_all
  then show ?thesis
  proof cases
    case (4 y m used)
    let ?facts = "usage_facts used @ system_facts m"
    have b: "batch s j ?facts (suspended_end x m used)"
      using suspended_batch [OF run system announced 4(1,3,4)] .
    have empty: "sound i c (suspended_end x m used s, j)" if "?facts = []"
    proof -
      have "tracked (suspended_end x m used (s\<lparr>s_cursor := length j\<rparr>)) j"
        using batch_append(1) [OF soundD(4) [OF s live] b] that by simp
      moreover have "s\<lparr>s_cursor := length j\<rparr> = s" using soundD(4) [OF s live] by (simp add: tracked_def)
      ultimately show ?thesis using soundD [OF s] by (intro soundI_live) simp_all
    qed
    obtain w z where a: "commit_or_fault v reply ?facts (s, j) = (w, z)" by fastforce
    have "fst (finish_suspended v reply (Some x) e (s, j)) =
        (case encode_all v ?facts of Some e \<Rightarrow> fst (persistFaultLocked v reply (Cause e) (s, j))
         | None \<Rightarrow> if ?facts = [] then (suspended_end x m used s, j)
                    else if z = None then on_session (suspended_end x m used) w else w)"
      using 4 a by (cases z) (auto simp: finish_suspended_def on_session_def suspended_end_def Let_def split: option.splits)
    then show ?thesis using commit_sound [OF s live b a] fault empty
      by (auto split: option.splits)
  qed (auto simp: finish_suspended_def fault)
qed

lemma keeps_system_run: "s_run t = s_run s \<Longrightarrow> keeps_system v x t = keeps_system v x s"
  by (simp add: keeps_system_def)

lemma finish_closed_sound:
  assumes "sound i c (s, j)" "live s" "s_run s \<noteq> None" "keeps_system v x s"
  shows "sound i c (fst (finish_closed v reply x status e (s, j)))"
proof -
  define t where "t = (if s_state s = Running then transition Closing s else s)"
  have t: "sound i c (t, j)" "live t" "s_run t \<noteq> None" "keeps_system v x t"
    using assms sound_phase [OF assms(1-3), of Closing] keeps_system_run [of t s v x]
    by (auto simp: t_def live_def transition_def)
  have start: "finish_closed v reply x status e (s, j) = finish_closed v reply x status e (t, j)"
    by (simp add: finish_closed_def t_def transition_def)
  have settled: "\<not> s_state t = Running" by (simp add: t_def transition_def)
  note fault = persist_fault_fst [OF t(1-3), of v reply]
  show ?thesis
  proof (cases "validateProjectionLocked v x t")
    case (Inl a)
    then show ?thesis using fault settled unfolding start by (simp add: finish_closed_def Let_def)
  next
    case (Inr m)
    note valid = Inr
    show ?thesis
    proof (cases "settle_usage x t")
      case (Inl a)
      then show ?thesis using fault settled valid unfolding start by (simp add: finish_closed_def Let_def)
    next
      case (Inr used)
      let ?qs = "if status \<noteq> ExecutionCompleted \<or> e \<noteq> None then queueByKindsLocked [QueueSteer, QueueFollowUp] t else []"
      let ?facts = "usage_facts used @ system_facts m @ cancel_facts ''run ended'' ?qs @
          [RunClosed (run_id t) status (error_text (run_error t e))]"
      have b: "batch t j ?facts (closed_end ?qs m used)"
      proof (rule batchI)
        fix f k assume f: "wf_folded f" "agree (t\<lparr>s_cursor := k\<rparr>) f"
        show "follows ?facts (closed_end ?qs m used (t\<lparr>s_cursor := k\<rparr>)) f"
          using f system_head [OF valid t(4)] by (intro follows_closed_end) simp_all
      qed simp_all
      obtain w z where a: "commit_or_fault v reply ?facts (t, j) = (w, z)" by fastforce
      have "fst (finish_closed v reply x status e (t, j)) =
          (if z = None then on_session (closed_end ?qs m used) w else w)"
        using settled valid Inr a by (cases z) (auto simp: finish_closed_def closed_end_def [abs_def] Let_def)
      then show ?thesis using commit_sound [OF t(1,2) b a] unfolding start by auto
    qed
  qed
qed

lemma bounce_tracked:
  assumes "tracked s j" "s_run s = Some r" "resuming_run r"
  shows "tracked (transition Suspended (update_run (\<lambda>r. r\<lparr>ar_resume_in_progress := False\<rparr>) s)) j"
proof (rule tracked_volatile [OF assms(1)])
  fix f assume f: "agree s f"
  then have "fo_state f = Suspended" using assms(2,3) by (simp add: agree_def agree_phase_def resuming_session_def)
  then show "agree (transition Suspended (update_run (\<lambda>r. r\<lparr>ar_resume_in_progress := False\<rparr>) s)) f"
    using f assms(2)
    by (intro agree_transfer [OF f])
       (simp_all add: transition_def update_run_def durable_run_eq agree_phase_def resuming_session_def resuming_run_def)
qed (simp_all add: transition_def)

lemma finish_sound:
  assumes "sound i c w" "s_state (fst w) \<noteq> Closed" "faithful v" "keeps_system v x (fst w)" "keeps_suspension x w"
  shows "sound i c (fst (finishExecution v reply x e w))"
proof (cases w)
  case (Pair s j)
  define t where "t = s\<lparr>s_cancel := False\<rparr>"
  have t: "sound i c (t, j)" "s_state t = s_state s" "s_run t = s_run s" "s_suspension t = s_suspension s"
    using assms(1) Pair by (auto simp: t_def live_def intro: sound_volatile)
  have kt: "keeps_system v x t" using assms(4) Pair keeps_system_run [of t s v x] by (simp add: t_def)
  have "on_session (\<lambda>s. s\<lparr>s_cancel := False\<rparr>) w = (t, j)" by (simp add: on_session_def t_def Pair)
  note start = finishExecution_def [of v reply x e w, unfolded this Let_def fst_conv]
  show ?thesis
  proof (cases "s_state t = Faulted \<or> s_run t = None")
    case True
    have "finishInterrupt v reply x (t, j) = ((t, j), Some (SessionError ''interrupt has no active run''))"
      if "s_state t \<noteq> Faulted" "s_run t = None"
      using that by (simp add: finishInterrupt_def)
    then show ?thesis using True t(1) unfolding start by (auto split: prod.splits)
  next
    case False
    then obtain r where r: "s_run t = Some r" by blast
    have live: "live t" using False assms(2) t(2) Pair by (simp add: live_def)
    obtain w' z where int: "finishInterrupt v reply x (t, j) = (w', z)" by fastforce
    have interrupt: "sound i c w'" using interrupt_sound(1) [OF t(1) live assms(3) kt _ int] r by simp
    have closed: "sound i c (fst (finish_closed v reply x status e (t, j)))" for status
      using finish_closed_sound [OF t(1) live _ kt] r by simp
    have suspended: "sound i c (fst (finish_suspended v reply x e (t, j)))"
      if status: "(case x of None \<Rightarrow> ExecutionFailed | Some x \<Rightarrow> oc_status x) = ExecutionSuspended"
    proof -
      from status obtain y where y: "x = Some y" "oc_status y = ExecutionSuspended"
        by (auto split: option.splits)
      then have "announced j" "oc_suspension y = s_suspension t"
        using assms(5) Pair t(4) by (simp_all add: keeps_suspension_def)
      then show ?thesis using finish_suspended_sound [OF t(1) live r] kt y by simp
    qed
    have bounce: "sound i c (transition Suspended (update_run (\<lambda>r. r\<lparr>ar_resume_in_progress := False\<rparr>) t), j)"
      if "ar_resume_in_progress r" "\<not> ar_resume_event_seen r"
      using bounce_tracked [OF soundD(4) [OF t(1) live] r] that soundD [OF t(1)]
      by (intro soundI_live) (simp_all add: resuming_run_def transition_def)
    show ?thesis using False r interrupt closed suspended bounce unfolding start
      by (auto simp: int on_session_def split: option.splits prod.splits)
  qed
qed

end
