(* ===== verification/Session_Return.thy ===== *)
theory Session_Return
  imports Session_Ends
begin

text \<open>The handlers that bring a run back: resumption of a suspended one, recovery after a crash.\<close>

subsection \<open>Resuming\<close>

lemma resume_error_suspended:
  assumes "resumeErrorLocked request s = None"
  shows "s_state s = Suspended" "s_run s \<noteq> None" "s_suspension s \<noteq> None" "live s"
  using assms by (auto simp: resumeErrorLocked_def live_def split: phase.splits option.splits if_splits)

lemma reopened_sel [simp]:
  "s_cursor (reopened i l ms s) = s_cursor s" "s_scope (reopened i l ms s) = s_scope s"
  "s_id (reopened i l ms s) = s_id s"
  by (simp_all add: reopened_def transition_def Let_def)

lemma opened_run_sel [simp]:
  "s_messages (opened_run p s) = s_messages s" "s_markers (opened_run p s) = s_markers s"
  by (simp_all add: opened_run_def transition_def)

lemma session_messages_sel [simp]:
  "s_messages (session_messages ms s) = s_messages s @ ms" "s_markers (session_messages ms s) = s_markers s"
  "s_budget (session_messages ms s) = s_budget s" "s_state (session_messages ms s) = s_state s"
  "s_id (session_messages ms s) = s_id s" "s_scope (session_messages ms s) = s_scope s"
  "s_cursor (session_messages ms s) = s_cursor s" "s_queue (session_messages ms s) = s_queue s"
  "s_usage (session_messages ms s) = s_usage s" "s_drain_all (session_messages ms s) = s_drain_all s"
  "s_compaction (session_messages ms s) = s_compaction s"
  "s_suspension (session_messages ms s) = s_suspension s"
  by (simp_all add: session_messages_def update_run_def)

lemma session_messages_idle [simp]: "(s_run (session_messages ms s) = None) = (s_run s = None)"
  by (simp add: session_messages_def)

lemma closed_run_sel [simp]:
  "s_messages (closed_run s) = s_messages s" "s_markers (closed_run s) = s_markers s"
  "s_budget (closed_run s) = s_budget s" "s_run (closed_run s) = None"
  by (simp_all add: closed_run_def transition_def)

lemma follows_reopened:
  assumes "wf_folded f" "agree s f" "s_messages s \<noteq> []" "s_budget s \<noteq> None \<longrightarrow> limits \<noteq> None"
  shows "follows (reopen_facts i limits x request added command s) (reopened i limits (added @ prompt_list request) s) f"
proof -
  let ?t = "case s_run s of None \<Rightarrow> '''' | Some r \<Rightarrow> ar_instructions r"
  let ?p = "\<lparr>od_id = i, od_mode = ''continue'', od_recovery = True, od_limits = limits, od_instructions = ?t\<rparr>"
  let ?s3 = "session_messages (prompt_list request) (session_messages added (closed_run s))"
  let ?e = "RunClosed (run_id s) ExecutionInterrupted ''indeterminate tool frontier resolved by operator''"
  have 1: "follows ([ResolutionAccepted (sp_id x) request] @ [?e]) (closed_run s) f"
    using follows_silent [OF _ assms(1,2)] by (rule follows_append) (simp, rule follows_closed)
  have 2: "follows (([ResolutionAccepted (sp_id x) request] @ [?e]) @ message_facts ''recovery_resolution'' added)
      (session_messages added (closed_run s)) f"
    using 1 by (rule follows_append) (rule follows_message_facts, simp_all)
  have 3: "follows ((([ResolutionAccepted (sp_id x) request] @ [?e]) @ message_facts ''recovery_resolution'' added) @
      message_facts ''resume_prompt'' (prompt_list request)) ?s3 f"
    using 2 by (rule follows_append) (rule follows_message_facts, simp_all)
  have 4: "follows (((([ResolutionAccepted (sp_id x) request] @ [?e]) @ message_facts ''recovery_resolution'' added) @
      message_facts ''resume_prompt'' (prompt_list request)) @ [RunOpened ?p]) (opened_run ?p ?s3) f"
    using 3 by (rule follows_append) (rule follows_opened, simp_all add: assms)
  have "agree (reopened i limits (added @ prompt_list request) s) f'" if "agree (opened_run ?p ?s3) f'" for f'
    using that
    by (rule agree_transfer)
       (simp_all add: reopened_def opened_run_def closed_run_def session_messages_def update_run_def transition_def
         agree_phase_def resuming_session_def Let_def)
  from follows_then_command [OF follows_agree [OF 4 this], where g = "\<lambda>c. c\<lparr>ca_run_id := i\<rparr>" and command = command]
  show ?thesis by (simp add: reopen_facts_def)
qed

lemma resume_indeterminate_sound:
  assumes "sound i c w"
  shows "sound i c (fst (prepareResumeIndeterminate v ctx reply new_id x request command w))"
proof (cases w)
  case (Pair s j)
  have s: "sound i c (s, j)" using assms Pair by simp
  have go: "sound i c (fst (prepareResumeIndeterminate v ctx reply (Inr n) x request command (s, j)))"
    if a: "answers_of v x request = Inr (required, answers)" "resumeErrorLocked request s = None"
      "resolved_messages v required answers s = Inr added" "session_limits s = Inr limits"
    for n required answers added limits
  proof -
    note suspended = resume_error_suspended [OF a(2)]
    let ?facts = "reopen_facts n limits x request added command s"
    let ?g = "reopened n limits (added @ prompt_list request)"
    have messages: "s_messages s \<noteq> []" using tracked_messages [OF soundD(4) [OF s suspended(4)] suspended(2)] .
    have b: "batch s j ?facts ?g"
    proof (rule batchI)
      fix f k assume f: "wf_folded f" "agree (s\<lparr>s_cursor := k\<rparr>) f"
      have "reopen_facts n limits x request added command (s\<lparr>s_cursor := k\<rparr>) = ?facts"
        by (simp add: reopen_facts_def run_id_def)
      then show "follows ?facts (?g (s\<lparr>s_cursor := k\<rparr>)) f"
        using follows_reopened [OF f, of limits n x request added command] messages session_limits_Some [OF a(4)] by simp
    qed simp_all
    obtain w' r where app: "appendAcceptanceLocked ctx reply ?facts (s, j) = (w', r)" by fastforce
    show ?thesis using acceptance_sound [OF s suspended(4) b app] s a app
      by (cases r) (auto simp: prepareResumeIndeterminate_def Let_def split: option.splits)
  qed
  show ?thesis
  proof (cases "answers_of v x request")
    case (Inr ra)
    then show ?thesis using s go Pair
      by (cases ra; cases "resumeErrorLocked request s"; cases "resolved_messages v (fst ra) (snd ra) s";
          cases "session_limits s"; cases new_id) (auto simp: prepareResumeIndeterminate_def)
  qed (use s Pair in \<open>simp add: prepareResumeIndeterminate_def\<close>)
qed

lemma resuming_sel [simp]:
  "s_cursor (resuming s) = s_cursor s" "s_scope (resuming s) = s_scope s" "s_id (resuming s) = s_id s"
  by (simp_all add: resuming_def transition_def)

lemma agree_resuming:
  assumes "agree s f" "s_state s = Suspended" "s_run s \<noteq> None"
  shows "agree (resuming s) f"
  using assms(2,3) assms(1)
  by (intro agree_transfer [OF assms(1)])
     (auto simp: resuming_def transition_def update_run_def durable_run_eq agree_def agree_phase_def
       option.map_comp o_def resuming_session_def intro!: option.map_cong)

lemma resume_sound:
  assumes "sound i c w"
  shows "sound i c (fst (prepareResumeWithCommand v ctx reply new_id request command w))"
proof (cases w)
  case (Pair s j)
  have s: "sound i c (s, j)" using assms Pair by simp
  show ?thesis
  proof (cases "resumeErrorLocked request s")
    case None
    note suspended = resume_error_suspended [OF None]
    obtain x r where x: "s_suspension s = Some x" "s_run s = Some r" using suspended by blast
    show ?thesis
    proof (cases "sp_kind x = ''harness.recovery.indeterminate''")
      case True
      then show ?thesis using None x resume_indeterminate_sound [OF assms] Pair
        by (simp add: prepareResumeWithCommand_def)
    next
      case False
      let ?facts = "ResolutionAccepted (sp_id x) request # command_facts (\<lambda>c. c\<lparr>ca_run_id := ar_id r\<rparr>) command"
      have b: "batch s j ?facts resuming"
      proof (rule batchI)
        fix f k assume f: "wf_folded f" "agree (s\<lparr>s_cursor := k\<rparr>) f"
        have "agree (resuming (s\<lparr>s_cursor := k\<rparr>)) f" using f(2) suspended by (intro agree_resuming) simp_all
        from follows_then_command [OF follows_silent [OF _ f(1) this]]
        show "follows ?facts (resuming (s\<lparr>s_cursor := k\<rparr>)) f" by fastforce
      qed simp_all
      obtain w' z where app: "appendAcceptanceLocked ctx reply ?facts (s, j) = (w', z)" by fastforce
      show ?thesis using acceptance_sound [OF s suspended(4) b app] s None x False Pair app
        by (cases z; cases "vc_plan v x request")
           (auto simp: prepareResumeWithCommand_def Let_def split: option.splits)
    qed
  qed (use s Pair in \<open>simp add: prepareResumeWithCommand_def\<close>)
qed

subsection \<open>Recovering\<close>

text \<open>What an operation of the recovery leaves: a readable journal, and a sound session unless it failed.\<close>

definition recovers :: "string \<Rightarrow> scope \<Rightarrow> world \<Rightarrow> 'e option \<Rightarrow> bool" where
  "recovers i c w r \<longleftrightarrow> readable c (snd w) \<and> (r = None \<longrightarrow> sound i c w)"

lemma recovers_same: "sound i c w \<Longrightarrow> recovers i c w r"
  by (cases w) (simp add: recovers_def sound_def)

lemma append_recovers:
  assumes "sound i c (s, j)" "live s" "batch s j facts g"
    and "journal_append reply (s_cursor s) facts j = (j', r)"
  shows "recovers i c ((case r of Inl e \<Rightarrow> s | Inr cursor \<Rightarrow> g (s\<lparr>s_cursor := cursor\<rparr>)), j')
     (case r of Inl e \<Rightarrow> Some e | Inr cursor \<Rightarrow> None)"
proof (cases r)
  case (Inl e)
  have "sound i c (faultLocked (Cause e) s, j')"
    using append_failed [OF assms(1-3)] assms(4) Inl by simp
  then show ?thesis using Inl by (simp add: recovers_def sound_def)
next
  case (Inr cursor)
  then show ?thesis using append_stored [OF assms(1-3)] assms(4) by (simp add: recovers_same)
qed

lemma inject_recovers:
  assumes "sound i c (s, j)" "live s" "inject_recovered v reply (s, j) = (w, r)"
  shows "recovers i c w r" "s_state (fst w) = s_state s" "(s_run (fst w) = None) = (s_run s = None)"
proof -
  let ?ms = "map qe_message (s_recovery_inputs s)"
  let ?ids = "map qe_id (s_recovery_inputs s)"
  let ?facts = "[RunEvent \<lparr>rn_turn = 0, rn_payload = PInjected ?ms ?ids, rn_session_used = None\<rparr>]"
  let ?g = "\<lambda>s. session_messages ?ms (s\<lparr>s_recovery_inputs := []\<rparr>)"
  have b: "batch s j ?facts ?g"
  proof (rule batchI)
    fix f k assume f: "wf_folded f" "agree (s\<lparr>s_cursor := k\<rparr>) f"
    let ?h = "\<lambda>a. a\<lparr>ar_injection_ids := []\<rparr>"
    have app: "apply_event \<lparr>rn_turn = 0, rn_payload = PInjected ?ms ?ids, rn_session_used = None\<rparr> (f\<lparr>fo_cursor := n\<rparr>) =
      Inr ((on_run ?h (add_messages ?ms (f\<lparr>fo_drained := fo_drained f |` (- set ?ids)\<rparr>)))\<lparr>fo_cursor := n\<rparr>)" for n
      by (cases f) (simp add: apply_event_def on_run_def add_messages_def)
    have "agree ((s\<lparr>s_cursor := k\<rparr>)\<lparr>s_recovery_inputs := []\<rparr>) f" using f(2) by simp
    from follows_messages_event [OF f(1) this app, of "\<lambda>r. r"]
    show "follows ?facts (?g (s\<lparr>s_cursor := k\<rparr>)) f"
      by (simp add: wf_run_list durable_run_eq)
  qed (simp_all add: session_messages_def)
  obtain j' x where a: "journal_append reply (s_cursor s) ?facts j = (j', x)" by fastforce
  have swap: "s\<lparr>s_cursor := n, s_recovery_inputs := []\<rparr> = s\<lparr>s_cursor := n\<rparr>\<lparr>s_recovery_inputs := []\<rparr>" for n by simp
  have "recovers i c w r \<and> s_state (fst w) = s_state s \<and> (s_run (fst w) = None) = (s_run s = None)"
    using assms(3) append_recovers [OF assms(1,2) b a] recovers_same [OF assms(1)] a
    by (cases x) (auto simp: inject_recovered_def Let_def split: option.splits if_splits)
  then show "recovers i c w r" "s_state (fst w) = s_state s" "(s_run (fst w) = None) = (s_run s = None)"
    by blast+
qed

lemma suspend_recovers:
  assumes "sound i c (s, j)" "live s" "s_run s \<noteq> None" "suspend_recovered v reply new_id calls ind (s, j) = (w, r)"
  shows "recovers i c w r"
proof -
  have b: "batch s j [RecoverySuspension x] (\<lambda>s. transition Suspended (s\<lparr>s_suspension := Some x\<rparr>))" for x
    using assms(3) by (intro batchI follows_suspension) (simp_all add: transition_def)
  have step: "recovers i c w r"
    if e: "(case journal_append reply (s_cursor s) [RecoverySuspension x] j of
        (j, Inl e) \<Rightarrow> ((s, j), Some e)
      | (j, Inr cursor) \<Rightarrow> ((transition Suspended (s\<lparr>s_suspension := Some x, s_cursor := cursor\<rparr>), j), None)) = (w, r)" for x
  proof -
    obtain j' y where a: "journal_append reply (s_cursor s) [RecoverySuspension x] j = (j', y)" by fastforce
    have swap: "s\<lparr>s_suspension := Some x, s_cursor := n\<rparr> = s\<lparr>s_cursor := n\<rparr>\<lparr>s_suspension := Some x\<rparr>" for n by simp
    show ?thesis using append_recovers [OF assms(1,2) b a] e a by (cases y) (auto simp: swap)
  qed
  show ?thesis
    using assms(4) step recovers_same [OF assms(1)]
    by (auto simp: suspend_recovered_def Let_def split: sum.splits option.splits)
qed

lemma reopened_run_sel [simp]:
  "s_cursor (reopened_run ms l s) = s_cursor s" "s_scope (reopened_run ms l s) = s_scope s"
  "s_id (reopened_run ms l s) = s_id s"
  by (simp_all add: reopened_run_def transition_def Let_def)

lemma run_id_messages [simp]: "run_id (session_messages ms s) = run_id s"
  by (simp add: run_id_def session_messages_def split: option.splits)

lemma follows_recovered:
  assumes "wf_folded f" "agree s f" "s_messages s \<noteq> []" "s_budget s \<noteq> None \<longrightarrow> limits \<noteq> None" "s_run s = Some r"
  shows "follows (recovered_facts (run_id s) (ar_instructions r) limits added)
    (reopened_run (s_messages s @ added) limits s) f"
proof -
  let ?p = "\<lparr>od_id = run_id s, od_mode = ''continue'', od_recovery = True, od_limits = limits,
      od_instructions = ar_instructions r\<rparr>"
  have 1: "follows ([SessionRecovered ''continue''] @ repair_facts ''recovery_repair'' added) (session_messages added s) f"
    using follows_silent [OF _ assms(1,2)] by (rule follows_append) (simp, rule follows_repair_facts)
  have 2: "follows (([SessionRecovered ''continue''] @ repair_facts ''recovery_repair'' added) @ [RunRecovered ?p])
      (opened_run ?p (session_messages added s)) f"
    using 1 by (rule follows_append) (rule follows_opened, simp_all add: assms)
  have "agree (reopened_run (s_messages s @ added) limits s) f'" if "agree (opened_run ?p (session_messages added s)) f'" for f'
    using that
    by (rule agree_transfer)
       (simp_all add: reopened_run_def opened_run_def session_messages_def update_run_def transition_def assms(5)
         agree_phase_def resuming_session_def run_id_def Let_def)
  from follows_agree [OF 2 this] show ?thesis by (simp add: recovered_facts_def)
qed

lemma repair_recovers:
  assumes "sound i c (s, j)" "live s" "s_run s \<noteq> None" "faithful v" "repair_recovered v reply pending (s, j) = (w, x)"
  shows "recovers i c w x"
proof -
  obtain r where r: "s_run s = Some r" using assms(3) by blast
  have messages: "s_messages s \<noteq> []" using tracked_messages [OF soundD(4) [OF assms(1,2)] assms(3)] .
  show ?thesis
  proof (cases "repaired_tail v \<lparr>pn_calls = pending, pn_reason = ''''\<rparr> ''recovery repair rewrote committed messages'' s")
    case (Inl e)
    then show ?thesis using assms(5) recovers_same [OF assms(1)] by (auto simp: repair_recovered_def Let_def)
  next
    case (Inr repaired)
    note repaired = Inr
    have added: "repaired = s_messages s @ drop (length (s_messages s)) repaired"
      using repaired_messages [OF assms(4) Inr] .
    show ?thesis
    proof (cases "session_limits s")
      case (Inl e)
      then show ?thesis using assms(5) repaired recovers_same [OF assms(1)] by (auto simp: repair_recovered_def Let_def)
    next
      case (Inr limits)
      let ?facts = "recovered_facts (run_id s) (ar_instructions r) limits (drop (length (s_messages s)) repaired)"
      have b: "batch s j ?facts (reopened_run repaired limits)"
      proof (rule batchI)
        fix f k assume f: "wf_folded f" "agree (s\<lparr>s_cursor := k\<rparr>) f"
        have "run_id (s\<lparr>s_cursor := k\<rparr>) = run_id s" by (simp add: run_id_def)
        then show "follows ?facts (reopened_run repaired limits (s\<lparr>s_cursor := k\<rparr>)) f"
          using follows_recovered [OF f, of limits r "drop (length (s_messages s)) repaired"] messages r
            session_limits_Some [OF Inr] added by simp
      qed simp_all
      obtain j' y where a: "journal_append reply (s_cursor s) ?facts j = (j', y)" by fastforce
      show ?thesis
        using assms(5) append_recovers [OF assms(1,2) b a] soundD(3) [OF assms(1)] a repaired Inr r
        by (cases y) (auto simp: repair_recovered_def recovers_def Let_def split: option.splits)
    qed
  qed
qed

lemma recover_open_run:
  assumes "sound i c (s, j)" "live s" "s_run s \<noteq> None" "faithful v"
    and "recoverOpenRun v reply reply' new_id (s, j) = (w, r)"
  shows "recovers i c w r"
proof -
  obtain w1 x where 1: "inject_recovered v reply (s, j) = (w1, x)" by fastforce
  note inject = inject_recovers [OF assms(1,2) 1]
  show ?thesis
  proof (cases x)
    case (Some e)
    then show ?thesis using inject(1) assms(5) 1 by (auto simp: recoverOpenRun_def recovers_def)
  next
    case None
    obtain s1 j1 where w1: "w1 = (s1, j1)" by fastforce
    have s1: "sound i c (s1, j1)" "live s1" "s_run s1 \<noteq> None"
      using inject None w1 assms(2,3) by (auto simp: recovers_def live_def)
    show ?thesis
    proof (cases "InspectFrontier (vc_clone v) (s_messages s1)")
      case (Inl e)
      then show ?thesis using assms(5) 1 None w1 recovers_same [OF s1(1)] by (auto simp: recoverOpenRun_def)
    next
      case (Inr calls)
      let ?ind = "filter (\<lambda>c. pe_state c = PendingIndeterminate) (open_pending s1 calls)"
      obtain w2 y where 2: "suspend_recovered v reply' new_id calls ?ind (s1, j1) = (w2, y)" by fastforce
      show ?thesis
      proof (cases "?ind = []")
        case True
        then show ?thesis using assms(5) 1 None w1 Inr repair_recovers [OF s1 assms(4)]
          by (auto simp: recoverOpenRun_def Let_def)
      next
        case False
        then have "w = w2" "r = map_option Cause y" using assms(5) 1 None w1 Inr 2 by (auto simp: recoverOpenRun_def Let_def)
        then show ?thesis using suspend_recovers [OF s1 2] by (simp add: recovers_def)
      qed
    qed
  qed
qed

subsection \<open>The recovered session\<close>

lemma agree_recovered:
  assumes "wf_folded f" "s_state s = Idle \<longleftrightarrow> fo_run f = None" "s_state s = Suspended \<longrightarrow> fo_state f = Suspended"
    and "durable s = durable (recovered_session i c f)" "s_run s = None \<or> (\<exists>r. s_run s = Some r \<and> \<not> resuming_run r)"
    "s_run s = None \<longleftrightarrow> fo_run f = None"
  shows "agree s f"
proof -
  have "agree_data (recovered_session i c f) f" by (simp add: agree_data_def recovered_session_def)
  moreover define t where "t = (recovered_session i c f)\<lparr>s_state := (if fo_run f = None then Idle else Running)\<rparr>"
  ultimately have "agree t f"
    using assms(1) by (auto simp: agree_def agree_data_def agree_phase_def resuming_session_def t_def
        recovered_session_def wf_folded_def wf_run_def resuming_run_def split: option.splits)
  moreover have "durable s = durable t" using assms(4) by (simp add: durable_def t_def)
  moreover have "agree_phase s f" using assms(2,3,5,6) by (auto simp: agree_phase_def resuming_session_def)
  ultimately show ?thesis by (rule agree_cong)
qed

lemma sound_recovered:
  assumes "fold_facts j empty_folded = Inr f" "wf_folded f" "fo_scope f = Some c"
    and "s = (recovered_session i c f)\<lparr>s_state := p, s_run := map_option g (fo_run f)\<rparr>"
    and "\<And>r. durable_run (g r) = durable_run r" "\<And>r. resuming_run (g r) \<Longrightarrow> resuming_run r"
    and "p = Idle \<longleftrightarrow> fo_run f = None" "p = Suspended \<longrightarrow> fo_state f = Suspended"
  shows "sound i c (s, j)"
proof (rule soundI_live)
  have run: "s_run s = map_option g (fo_run f)" "s_state s = p"
    by (simp_all add: assms(4))
  have "durable s = durable (recovered_session i c f)"
    using assms(5) by (simp add: durable_def assms(4) recovered_session_def option.map_comp o_def)
  moreover have "\<not> resuming_run (g r)" if "fo_run f = Some r" for r
    using assms(2) assms(6) [of r] that by (auto simp: wf_folded_def wf_run_def resuming_run_def)
  then have "s_run s = None \<or> (\<exists>r. s_run s = Some r \<and> \<not> resuming_run r)"
    by (cases "fo_run f") (simp_all add: run)
  moreover have "s_run s = None \<longleftrightarrow> fo_run f = None" by (simp add: run)
  ultimately have "agree s f"
    using assms(2,7,8) by (intro agree_recovered [where i = i and c = c]) (simp_all only: run)
  moreover have "s_cursor s = length j"
    using fold_facts_cursor [OF assms(1)] by (simp add: assms(4) recovered_session_def empty_folded_def)
  moreover have "s_scope s = c" by (simp add: assms(4) recovered_session_def)
  ultimately show "tracked s j" unfolding tracked_def using assms(1-3) by blast
qed (simp_all add: assms(4) recovered_session_def)

lemma recover_idle_recovers:
  assumes "sound i c (s, j)" "s_state s = Idle" "recover_idle v reply (s, j) = (w, r)"
  shows "recovers i c w r"
proof -
  have b: "batch s j [SessionRecovered ''idle''] id" by (rule batch_silent) simp
  have live: "live s" using assms(2) by (simp add: live_def)
  have idle: "s\<lparr>s_state := Idle\<rparr> = s" using assms(2) by simp
  obtain j' y where a: "journal_append reply (s_cursor s) [SessionRecovered ''idle''] j = (j', y)" by fastforce
  show ?thesis
    using assms(3) append_recovers [OF assms(1) live b a] soundD(3) [OF assms(1)] a
    by (cases y) (auto simp: recover_idle_def recovers_def on_session_def idle Let_def split: option.splits)
qed

lemma recover_session_recovers:
  assumes f: "fold_facts j empty_folded = Inr f" "wf_folded f" "fo_scope f = Some c" and v: "faithful v"
    and r: "recover_session v reply reply' new_id f (recovered_session i c f, j) = (w, r)"
  shows "recovers i c w r"
proof -
  let ?s = "recovered_session i c f"
  have run: "s_run ?s = fo_run f" "s_state ?s = fo_state f" by (simp_all add: recovered_session_def)
  have states: "fo_run f = None \<Longrightarrow> fo_state f = Idle"
    "fo_run f \<noteq> None \<Longrightarrow> fo_state f = Running \<or> fo_state f = Suspended \<or> fo_state f = Faulted"
    "fo_state f = Suspended \<Longrightarrow> fo_suspension f \<noteq> None"
    using f(2) by (auto simp: wf_folded_def wf_run_def split: option.splits)
  show ?thesis
  proof (cases "case s_run ?s of None \<Rightarrow> False | Some r \<Rightarrow> fo_interrupt_run_id f = ar_id r")
    case True
    then have some: "fo_run f \<noteq> None" by (auto simp: run split: option.splits)
    let ?x = "Some \<lparr>oc_status = ExecutionInterrupted, oc_report = None, oc_suspension = None\<rparr>"
    let ?t = "transition Interrupting (update_run (\<lambda>r. r\<lparr>ar_interrupted := True\<rparr>) ?s)"
    have t: "sound i c (?t, j)"
      using some by (intro sound_recovered [OF f, where p = Interrupting and g = "\<lambda>r. r\<lparr>ar_interrupted := True\<rparr>"])
        (simp_all add: transition_def update_run_def run durable_run_eq resuming_run_def)
    have "live ?t" "keeps_system v ?x ?t" "s_run ?t \<noteq> None"
      using some by (simp_all add: live_def transition_def keeps_system_def outcome_report_def run)
    moreover have "finishInterrupt v reply ?x (?t, j) = (w, r)"
      using r True by (simp add: recover_session_def on_session_def)
    ultimately show ?thesis using interrupt_sound(1) [OF t _ v] by (intro recovers_same) blast
  next
    case False
    define t where "t = (if s_state ?s = Faulted then transition Running ?s else ?s)"
    have t_run: "s_run t = fo_run f" by (simp add: t_def transition_def run)
    have id: "map_option (\<lambda>r. r) (fo_run f) = fo_run f" by (simp add: option.map_ident)
    have t: "sound i c (t, j)"
    proof (rule sound_recovered [OF f, where p = "if fo_state f = Faulted then Running else fo_state f" and g = "\<lambda>r. r"])
      show "t = ?s\<lparr>s_state := if fo_state f = Faulted then Running else fo_state f, s_run := map_option (\<lambda>r. r) (fo_run f)\<rparr>"
        by (cases f) (simp add: t_def recovered_session_def transition_def option.map_ident)
      show "((if fo_state f = Faulted then Running else fo_state f) = Idle) = (fo_run f = None)"
        using states by (cases "fo_run f") auto
      show "(if fo_state f = Faulted then Running else fo_state f) = Suspended \<longrightarrow> fo_state f = Suspended" by simp
    qed simp_all
    have live: "fo_run f \<noteq> None \<Longrightarrow> live t" using states by (auto simp: t_def live_def transition_def run)
    have r: "(if fo_run f \<noteq> None \<and> fo_completed f then
          finishExecution v reply
            (Some \<lparr>oc_status = ExecutionCompleted, oc_report = None, oc_suspension = None\<rparr>) None (t, j)
        else if fo_run f = None then recover_idle v reply (t, j)
        else if s_state t = Suspended \<and> s_suspension t \<noteq> None then ((t, j), None)
        else recoverOpenRun v reply reply' new_id (t, j)) = (w, r)"
      using r False
      by (cases "fo_state f = Faulted")
         (simp_all add: t_def recover_session_def on_session_def run transition_def Let_def cong: if_cong)
    show ?thesis
    proof (cases "fo_run f = None")
      case True
      then have "s_state t = Idle" using states(1) by (simp add: t_def run)
      then show ?thesis using recover_idle_recovers [OF t] r True by simp
    next
      case False
      note some = this
      have open_run: "recoverOpenRun v reply reply' new_id (t, j) = (w, r) \<Longrightarrow> recovers i c w r"
        using recover_open_run [OF t live _ v] False t_run by simp
      have finish: "sound i c (fst (finishExecution v reply
            (Some \<lparr>oc_status = ExecutionCompleted, oc_report = None, oc_suspension = None\<rparr>) None (t, j)))"
      proof (rule finish_sound [OF t _ v])
        show "s_state (fst (t, j)) \<noteq> Closed" using live [OF some] by (simp add: live_def)
      qed (simp_all add: keeps_system_def outcome_report_def keeps_suspension_def)
      show ?thesis
      proof (cases "fo_completed f")
        case True
        then have "fst (finishExecution v reply
            (Some \<lparr>oc_status = ExecutionCompleted, oc_report = None, oc_suspension = None\<rparr>) None (t, j)) = w"
          using r some by simp
        then show ?thesis using recovers_same finish by metis
      next
        case not_completed: False
        show ?thesis
        proof (cases "s_state t = Suspended \<and> s_suspension t \<noteq> None")
          case True
          then have "w = (t, j)" using r some not_completed by simp
          then show ?thesis using t by (simp only: recovers_same)
        qed (use r some not_completed open_run in \<open>auto split: if_splits\<close>)
      qed
    qed
  qed
qed

lemma Recover_sound:
  assumes "readable c j" "sc_session_id c = i" "faithful v" "Recover v reply reply' new_id i scope j = (j', r)"
  shows "readable c j'" "r = Inr s \<Longrightarrow> sound i c (s, j')"
proof -
  obtain f where f: "fold_facts j empty_folded = Inr f" "wf_folded f" "fo_scope f = Some c"
    using assms(1) by (auto simp: readable_def)
  obtain w x where w: "recover_session v reply reply' new_id f (recovered_session i c f, j) = (w, x)" by fastforce
  have "recovers i c w x" using recover_session_recovers [OF f assms(3) w] .
  moreover have "dropped_on_error (w, x) = (j', r)"
    using assms(2,4) f w by (simp add: Recover_def wf_fold_log)
  ultimately have "readable c j' \<and> (r = Inr s \<longrightarrow> sound i c (s, j'))"
    by (cases w; cases x) (auto simp: dropped_on_error_def recovers_def)
  then show "readable c j'" "r = Inr s \<Longrightarrow> sound i c (s, j')" by blast+
qed

end
