(* ===== verification/Session_Run.thy ===== *)
theory Session_Run
  imports Session_Return
begin

text \<open>
  The session over time: a step relation whose state is the live handle, if there is one, and the
  journal, and whose label is the command of the session loop the step may accept.  Any handler may run at any moment with any answer of the journal; the process may be lost
  at any moment; recovery may fail and be tried again.
\<close>

subsection \<open>Creation and the last handlers\<close>

lemma message_facts_created:
  "message_facts source ms = map (\<lambda>m. MessageAdded \<lparr>mp_message = m, mp_source = source, mp_queue_id = ''''\<rparr>) ms"
  by (simp add: message_facts_def)

lemma new_sound:
  assumes "session_New v reply i scope budget drain_all initial = (j, r)" "j \<noteq> []"
  shows "readable (scope\<lparr>sc_session_id := i\<rparr>) j"
    "r = Inr s \<Longrightarrow> sound i (scope\<lparr>sc_session_id := i\<rparr>) (s, j)"
proof -
  let ?c = "scope\<lparr>sc_session_id := i\<rparr>"
  obtain history where h: "validateScope i ?c = None" "validateInitialHistory v initial = Inr history"
    using assms by (auto simp: session_New_def Let_def split: option.splits sum.splits)
  let ?facts = "created_facts budget drain_all ?c history"
  have facts: "j = ?facts"
    using assms h by (auto simp: session_New_def Let_def journal_append_def split: option.splits prod.splits sum.splits reply.splits if_splits)
  define f0 where "f0 = empty_folded\<lparr>fo_created := True, fo_drain_all := drain_all, fo_budget := budget,
      fo_scope := Some ?c, fo_cursor := 1\<rparr>"
  have first: "fold_facts [SessionCreated budget drain_all (Some ?c)] empty_folded = Inr f0"
    using h(1) by (cases budget) (simp_all add: fold_fact_def empty_folded_def f0_def)
  have wf0: "wf_folded f0" by (simp add: f0_def empty_folded_def wf_folded_def wf_entries_def)
  define s0 where "s0 = (blank_session i ?c)\<lparr>s_budget := budget, s_drain_all := drain_all\<rparr>"
  have agree0: "agree s0 f0"
    by (simp add: agree_def agree_data_def agree_phase_def resuming_session_def s0_def f0_def blank_session_def
        empty_folded_def folded_queue_def List.map_filter_def)
  have "follows (message_facts ''initial_history'' history) (session_messages history s0) f0"
    using wf0 agree0 by (intro follows_message_facts) simp_all
  then obtain f where f: "fold_facts (message_facts ''initial_history'' history) f0 = Inr f" "wf_folded f"
      "fo_scope f = fo_scope f0" "agree (session_messages history s0) f"
    by (auto simp: follows_def)
  have "fold_facts ([SessionCreated budget drain_all (Some ?c)] @ message_facts ''initial_history'' history)
      empty_folded = Inr f"
    using first f(1) by (simp only: fold_facts_append sum.case)
  then have f: "fold_facts ?facts empty_folded = Inr f" "wf_folded f" "fo_scope f = Some ?c"
      "agree (session_messages history s0) f"
    using f by (simp_all add: created_facts_def f0_def)
  then show "readable ?c j" using facts by (auto simp: readable_def)
  assume "r = Inr s"
  then have s: "s = (blank_session i ?c)\<lparr>s_cursor := length ?facts, s_messages := history, s_budget := budget,
      s_drain_all := drain_all\<rparr>"
    using assms h by (auto simp: session_New_def Let_def journal_append_def split: option.splits prod.splits sum.splits reply.splits if_splits)
  have "agree s f"
    using f(4) by (rule agree_transfer)
      (simp_all add: s s0_def blank_session_def session_messages_def update_run_def agree_phase_def resuming_session_def)
  then have "tracked s j" using f(1-3) facts by (auto simp: tracked_def s blank_session_def)
  then show "sound i ?c (s, j)" by (rule soundI_live) (simp_all add: s blank_session_def)
qed

lemma continue_sound:
  assumes "sound i c w" "faithful v"
  shows "sound i c (fst (continueRecovered v reply w))"
proof (cases w)
  case (Pair s j)
  have s: "sound i c (s, j)" using assms(1) Pair by simp
  show ?thesis
  proof (cases "s_run s")
    case (Some r)
    let ?x = "Some \<lparr>oc_status = ExecutionInterrupted, oc_report = None, oc_suspension = None\<rparr>"
    have trivial: "keeps_system v ?x s" "keeps_system v None s"
      by (simp_all add: keeps_system_def outcome_report_def)
    have 1: "sound i c (fst (finishInterrupt v reply ?x (s, j)))" if "s_state s = Interrupting"
    proof -
      have "live s" using that by (simp add: live_def)
      then show ?thesis using interrupt_sound(1) [OF s _ assms(2) trivial(1)] Some
        by (cases "finishInterrupt v reply ?x (s, j)") auto
    qed
    have 2: "sound i c (fst (finishExecution v reply None e (s, j)))" if "s_state s = Running" for e
      using finish_sound [OF s _ assms(2), of None reply e] trivial(2) that by (simp add: keeps_suspension_def)
    have 3: "sound i c ((update_run (\<lambda>r. r\<lparr>ar_limits := l\<rparr>) s)\<lparr>s_cancel := True\<rparr>, j)"
      if "s_state s = Running" "recovered_limits s r = Inr l" for l
    proof -
      have live: "live s" using that by (simp add: live_def)
      obtain f where f: "wf_folded f" "agree s f" using soundD(4) [OF s live] by (auto simp: tracked_def)
      obtain r' where r': "fo_run f = Some r'" "durable_run r = durable_run r'"
        using f(2) Some by (cases "fo_run f") (auto simp: agree_def agree_data_def)
      have "s_budget s \<noteq> None \<longrightarrow> ar_limits r \<noteq> None"
        using f r' by (auto simp: wf_folded_def wf_run_def agree_def agree_data_def durable_run_eq)
      then have "l = ar_limits r"
        using that(2) by (auto simp: recovered_limits_def session_limits_def split: if_splits option.splits)
      then have "update_run (\<lambda>r. r\<lparr>ar_limits := l\<rparr>) s = s"
        using Some by (cases s) (simp add: update_run_def)
      then show ?thesis using s by (auto intro: sound_volatile simp: live_def)
    qed
    show ?thesis using Some s 1 2 3 Pair
      by (auto simp: continueRecovered_def on_session_def Let_def split: sum.splits)
  qed (use s Pair in \<open>simp add: continueRecovered_def\<close>)
qed

subsection \<open>The steps\<close>

text \<open>While the driver of a run is at work.\<close>

definition driven :: "session \<Rightarrow> bool" where
  "driven s \<longleftrightarrow> s_state s \<noteq> Idle \<and> s_state s \<noteq> Suspended \<and> s_state s \<noteq> Closed"

type_synonym handle = "session option \<times> fact list"

definition held :: "world \<Rightarrow> handle" where
  "held w = (Some (fst w), snd w)"

definition recovered_handle :: "fact list \<times> session sresult \<Rightarrow> handle" where
  "recovered_handle x = ((case snd x of Inl _ \<Rightarrow> None | Inr s \<Rightarrow> Some s), fst x)"

inductive session_step :: "services \<Rightarrow> string \<Rightarrow> command_payload option \<Rightarrow> handle \<Rightarrow> handle \<Rightarrow> bool" for v i where
  step_accept: "(\<And>n. new_id = Inr n \<Longrightarrow> n \<notin> set (accepted_ids j)) \<Longrightarrow> session_step v i command (Some s, j)
    (held (fst (acceptWithCursorCommand v ctx reply clock new_id kind m target command (s, j))))"
| step_start: "session_step v i command (Some s, j)
    (held (fst (prepareStartWithCommand v ctx reply new_id instructions prompt command (s, j))))"
| step_hook: "driven s \<Longrightarrow> session_step v i None (Some s, j) (held (fst (turnHook v reply candidate (s, j))))"
| step_event: "driven s \<Longrightarrow> session_step v i None (Some s, j) (held (fst (session_Emit v reply e (s, j))))"
| step_view: "driven s \<Longrightarrow> session_step v i None (Some s, j) (held (fst (project_view v ms (s, j))))"
| step_projection: "driven s \<Longrightarrow> (cj_changed p \<longrightarrow> cj_compaction p \<noteq> None) \<Longrightarrow>
    session_step v i None (Some s, j) (held (fst (commit_projection v reply p (s, j))))"
| step_operation: "session_step v i None (Some s, j) (held (fst (RecordOperation v reply on (s, j))))"
| step_child_event: "session_step v i None (Some s, j) (held (fst (ProjectEvent v reply record (s, j))))"
| step_child_usage: "session_step v i None (Some s, j) (held (fst (snd (lease_Commit v reply charge lease (s, j)))))"
| step_finish: "driven s \<Longrightarrow> keeps_system v x s \<Longrightarrow> keeps_suspension x (s, j) \<Longrightarrow>
    session_step v i None (Some s, j) (held (fst (finishExecution v reply x e (s, j))))"
| step_request_interrupt: "session_step v i command (Some s, j)
    (held (fst (requestInterruptCommand v ctx reply expected command (s, j))))"
| step_interrupt: "s_state s = Interrupting \<Longrightarrow> session_step v i None (Some s, j)
    (held (fst (finishInterrupt v reply
      (Some \<lparr>oc_status = ExecutionInterrupted, oc_report = None, oc_suspension = None\<rparr>) (s, j))))"
| step_resume: "session_step v i command (Some s, j)
    (held (fst (prepareResumeWithCommand v ctx reply new_id request command (s, j))))"
| step_continue: "session_step v i None (Some s, j) (held (fst (continueRecovered v reply (s, j))))"
| step_reject: "session_step v i (Some c) (Some s, j) (held (fst (rejectCommand v ctx reply c (s, j))))"
| step_abandon: "session_step v i None (Some s, j) (Some (abandonRun s), j)"
| step_close: "session_step v i None (Some s, j) (Some (fst (session_Close s)), j)"
| step_crash: "session_step v i None (Some s, j) (None, j)"
| step_recover: "session_step v i None (None, j) (recovered_handle (Recover v reply reply' new_id i scope j))"

inductive session_reachable :: "services \<Rightarrow> string \<Rightarrow> handle \<Rightarrow> bool" for v i where
  reach_new: "session_New v reply i scope budget drain_all initial = (j, Inr s) \<Longrightarrow> session_reachable v i (Some s, j)"
| reach_lost: "session_New v reply i scope budget drain_all initial = (j, Inl e) \<Longrightarrow> j \<noteq> [] \<Longrightarrow>
    session_reachable v i (None, j)"
| reach_step: "session_reachable v i x \<Longrightarrow> session_step v i c x y \<Longrightarrow> session_reachable v i y"

subsection \<open>The invariant\<close>

definition handle_ok :: "string \<Rightarrow> handle \<Rightarrow> bool" where
  "handle_ok i x \<longleftrightarrow>
     (\<exists>c. sc_session_id c = i \<and> readable c (snd x) \<and>
        (case fst x of None \<Rightarrow> True | Some s \<Rightarrow> sound i c (s, snd x)))"

lemma handle_held: "sound i c w \<Longrightarrow> sc_session_id c = i \<Longrightarrow> handle_ok i (held w)"
  by (cases w) (auto simp: handle_ok_def held_def sound_def)

lemma handle_sound:
  assumes "handle_ok i (Some s, j)"
  obtains c where "sc_session_id c = i" "sound i c (s, j)"
  using assms by (auto simp: handle_ok_def)

lemma driven_states: "driven s \<Longrightarrow> s_state s \<noteq> Suspended \<and> s_state s \<noteq> Closed"
  by (simp add: driven_def)

lemma new_journal: "session_New v reply i scope budget drain_all initial = (j, Inr s) \<Longrightarrow> j \<noteq> []"
  by (auto simp: session_New_def Let_def journal_append_def created_facts_def
      split: option.splits sum.splits prod.splits if_splits reply.splits)

lemma abandon_sound: "sound i c (s, j) \<Longrightarrow> sound i c (abandonRun s, j)"
  by (simp add: abandonRun_def sound_fault)

lemma close_sound: "sound i c (s, j) \<Longrightarrow> sound i c (fst (session_Close s), j)"
  by (auto simp: session_Close_def sound_def transition_def live_def)

lemma interrupt_step_sound:
  assumes "sound i c (s, j)" "s_state s = Interrupting" "faithful v"
  shows "sound i c (fst (finishInterrupt v reply
      (Some \<lparr>oc_status = ExecutionInterrupted, oc_report = None, oc_suspension = None\<rparr>) (s, j)))"
proof -
  let ?x = "Some \<lparr>oc_status = ExecutionInterrupted, oc_report = None, oc_suspension = None\<rparr>"
  have live: "live s" using assms(2) by (simp add: live_def)
  then have "s_run s \<noteq> None"
    using soundD(4) [OF assms(1)] assms(2) by (auto simp: tracked_def agree_def agree_phase_def)
  moreover have "keeps_system v ?x s" by (simp add: keeps_system_def outcome_report_def)
  ultimately show ?thesis using interrupt_sound(1) [OF assms(1) live assms(3)]
    by (cases "finishInterrupt v reply ?x (s, j)") auto
qed

text \<open>Every handler, as one lemma over the steps.\<close>

lemma step_sound:
  assumes "session_step v i command (Some s, j) y" "sound i c (s, j)" "sc_session_id c = i" "faithful v"
  shows "handle_ok i y"
  using assms(1)
proof cases
  case (step_accept new_id ctx reply clock kind m target)
  then show ?thesis using accept_sound [OF assms(2)] handle_held [OF _ assms(3)] by simp
next
  case (step_crash)
  then show ?thesis using assms(2,3) by (auto simp: handle_ok_def sound_def)
next
  case step_abandon
  then show ?thesis using handle_held [OF abandon_sound [OF assms(2)] assms(3)] by (simp add: held_def)
next
  case step_close
  then show ?thesis using handle_held [OF close_sound [OF assms(2)] assms(3)] by (simp add: held_def)
next
  case (step_event reply e)
  then show ?thesis using driven_states [of s]
    by (auto intro!: handle_held [OF emit_sound [OF assms(2)] assms(3)])
next
  case (step_finish x reply e)
  then show ?thesis using driven_states [of s]
    by (auto intro!: handle_held [OF finish_sound [OF assms(2) _ assms(4)] assms(3)])
qed (auto intro!: handle_held [OF _ assms(3)] dest: driven_states
    intro: start_sound turn_hook_sound view_sound projection_sound operation_sound child_event_sound
      lease_sound reject_sound request_interrupt_sound interrupt_step_sound resume_sound continue_sound
      assms(2,4))

lemma recover_step_sound:
  assumes "handle_ok i (None, j)" "faithful v"
  shows "handle_ok i (recovered_handle (Recover v reply reply' new_id i scope j))"
proof -
  obtain c where c: "sc_session_id c = i" "readable c j" using assms(1) by (auto simp: handle_ok_def)
  obtain j' r where r: "Recover v reply reply' new_id i scope j = (j', r)" by fastforce
  show ?thesis
    using Recover_sound [OF c(2,1) assms(2) r] c(1) r
    by (auto simp: handle_ok_def recovered_handle_def split: sum.splits)
qed

lemma reachable_ok:
  assumes "session_reachable v i x" "faithful v"
  shows "handle_ok i x"
  using assms
proof induction
  case (reach_new reply scope budget drain_all initial j s)
  from new_sound [OF reach_new(1) new_journal [OF reach_new(1)]] show ?case
    by (auto simp: handle_ok_def intro!: exI [of _ "scope\<lparr>sc_session_id := i\<rparr>"])
next
  case (reach_lost reply scope budget drain_all initial j e)
  from new_sound(1) [OF reach_lost(1,2)] show ?case
    by (auto simp: handle_ok_def intro!: exI [of _ "scope\<lparr>sc_session_id := i\<rparr>"])
next
  case (reach_step x c y)
  show ?case
  proof (cases "fst x")
    case None
    then obtain j where x: "x = (None, j)" by (cases x) auto
    from reach_step(2) show ?thesis unfolding x
    proof cases
      case step_recover
      then show ?thesis using recover_step_sound reach_step(3,4) x by simp
    qed
  next
    case (Some s)
    then obtain j where x: "x = (Some s, j)" by (cases x) auto
    then obtain c where "sc_session_id c = i" "sound i c (s, j)"
      using handle_sound reach_step.IH [OF reach_step.prems] by metis
    then show ?thesis using step_sound reach_step(2) reach_step.prems x by blast
  qed
qed

end
