(* ===== verification/Session_Grow.thy ===== *)
theory Session_Grow
  imports Session_Run
begin

text \<open>
  What a handler may do to the journal: no handler, and no recovery, takes back or changes an entry,
  whatever the journal answers; and only the handler of a command writes the acceptance of a command, at
  most one, and it is that command's.  A session that is faulted or closed writes nothing.
\<close>

subsection \<open>Acceptances\<close>

definition accepted_command :: "fact \<Rightarrow> command_payload option" where
  "accepted_command e = (case e of CommandAccepted c \<Rightarrow> Some c | _ \<Rightarrow> None)"

declare accepted_command_def [simp]

definition acceptances :: "fact list \<Rightarrow> command_payload list" where
  "acceptances j = List.map_filter accepted_command j"

lemma acceptances_simps [simp]:
  "acceptances [] = []"
  "acceptances (e # j) = (case accepted_command e of None \<Rightarrow> acceptances j | Some c \<Rightarrow> c # acceptances j)"
  "acceptances (j @ j') = acceptances j @ acceptances j'"
  by (induction j) (auto simp: acceptances_def List.map_filter_def split: option.split)

lemma acceptances_none: "(\<And>e. e \<in> set j \<Longrightarrow> accepted_command e = None) \<Longrightarrow> acceptances j = []"
  by (induction j) simp_all

lemma plain_facts [simp]:
  "acceptances (usage_facts u) = []" "acceptances (system_facts m) = []" "acceptances (cancel_facts t qs) = []"
  "acceptances (repair_facts t ms) = []" "acceptances (message_facts t ms) = []"
  "acceptances (projection_facts p n) = []" "acceptances (map (\<lambda>q. QueueDrained (qe_id q)) qs) = []"
  "acceptances (recovered_facts i t l ms) = []"
  by (auto intro!: acceptances_none simp: usage_facts_def system_facts_def cancel_facts_def repair_facts_def
      message_facts_def projection_facts_def recovered_facts_def accepted_command_def split: option.splits if_splits)

text \<open>The acceptance of a command is the command with the run or the queue entry filled in.\<close>

definition filled :: "command_payload \<Rightarrow> command_payload \<Rightarrow> bool" where
  "filled c p \<longleftrightarrow> (\<exists>run queue. p = c\<lparr>ca_run_id := run, ca_queue_id := queue\<rparr>)"

definition admits :: "command_payload option \<Rightarrow> fact list \<Rightarrow> bool" where
  "admits c xs \<longleftrightarrow> acceptances xs = [] \<or> (\<exists>c' p. c = Some c' \<and> acceptances xs = [p] \<and> filled c' p)"

lemma admits_plain [simp]: "acceptances xs = [] \<Longrightarrow> admits c xs"
  by (simp add: admits_def)

lemma filled_intros [simp]: "filled c c" "filled c (c\<lparr>ca_run_id := i\<rparr>)" "filled c (c\<lparr>ca_queue_id := i\<rparr>)"
  unfolding filled_def by (cases c; auto)+

lemma admits_command [simp]:
  "acceptances xs = [] \<Longrightarrow> admits command (xs @ command_facts (\<lambda>c. c\<lparr>ca_run_id := i\<rparr>) command)"
  "acceptances xs = [] \<Longrightarrow> admits command (xs @ command_facts (\<lambda>c. c\<lparr>ca_queue_id := i\<rparr>) command)"
  by (auto simp: admits_def command_facts_def accepted_command_def split: option.split)

lemma admits_one [simp]: "admits (Some c) [CommandAccepted c]" "admits (Some c) [CommandAccepted (c\<lparr>ca_run_id := i\<rparr>)]"
  by (simp_all add: admits_def accepted_command_def)

lemma admits_queue [simp]: "admits command (QueueAccepted i q # command_facts (\<lambda>c. c\<lparr>ca_queue_id := i\<rparr>) command)"
  by (auto simp: admits_def command_facts_def accepted_command_def split: option.split)

lemma admits_resolution [simp]:
  "admits command (ResolutionAccepted i r # command_facts (\<lambda>c. c\<lparr>ca_run_id := t\<rparr>) command)"
  by (auto simp: admits_def command_facts_def accepted_command_def split: option.split)

lemma start_entries: "acceptances (concat (map (\<lambda>q. [QueueDrained (f q), MessageAdded (g q)]) qs)) = []"
  by (induction qs) (simp_all add: accepted_command_def)

lemma admits_start [simp]: "admits command (start_facts i limits text next prompt command)"
  by (auto simp: admits_def start_facts_def command_facts_def accepted_command_def start_entries split: option.split)

lemma admits_reopen [simp]: "admits command (reopen_facts i limits x request added command s)"
  by (auto simp: admits_def reopen_facts_def command_facts_def accepted_command_def split: option.split)

subsection \<open>Growth\<close>

definition grows :: "command_payload option \<Rightarrow> world \<Rightarrow> world \<Rightarrow> bool" where
  "grows c w w' \<longleftrightarrow> (\<exists>xs. snd w' = snd w @ xs \<and> admits c xs)"

lemma grows_refl [simp, intro]: "snd w' = snd w \<Longrightarrow> grows c w w'"
  by (simp add: grows_def)

lemma grows_trans: "grows None w w' \<Longrightarrow> grows None w' w'' \<Longrightarrow> grows None w w''"
  by (auto simp: grows_def admits_def)

lemma grows_on_session [simp]: "grows c w (on_session g w') = grows c w w'" "grows c (on_session g w) w' = grows c w w'"
  by (simp_all add: grows_def on_session_def)

lemma grows_append: "journal_append reply n facts j = (j', r) \<Longrightarrow> admits c facts \<Longrightarrow> \<exists>xs. j' = j @ xs \<and> admits c xs"
  by (auto simp: journal_append_def split: reply.splits if_splits)

lemma grows_commit: "commit_or_fault v reply facts w = (w', r) \<Longrightarrow> admits c facts \<Longrightarrow> grows c w w'"
  by (cases w) (auto simp: commit_or_fault_def grows_def split: option.splits prod.splits sum.splits dest: grows_append)

lemma grows_acceptance: "appendAcceptanceLocked ctx reply facts w = (w', r) \<Longrightarrow> admits c facts \<Longrightarrow> grows c w w'"
  by (cases w) (auto simp: appendAcceptanceLocked_def grows_def split: option.splits prod.splits sum.splits dest: grows_append)

lemma grows_one: "append_one reply e g w = (w', r) \<Longrightarrow> admits c [e] \<Longrightarrow> grows c w w'"
  by (cases w) (auto simp: append_one_def grows_def split: prod.splits sum.splits dest: grows_append)

lemma grows_persist: "persistFaultLocked v reply e w = (w', r) \<Longrightarrow> grows c w w'"
  by (cases w) (auto simp: persistFaultLocked_def grows_def Let_def accepted_command_def
      split: option.splits prod.splits sum.splits dest!: grows_append [where c = c])

lemmas grows_intros = grows_commit grows_acceptance grows_one grows_persist

lemma grows_accept: "grows command w (fst (acceptWithCursorCommand v ctx reply clock new_id kind m target command w))"
  by (auto simp: acceptWithCursorCommand_def Let_def split: option.splits sum.splits prod.splits intro: grows_intros)

lemma grows_start: "grows command w (fst (prepareStartWithCommand v ctx reply new_id instructions prompt command w))"
  by (auto simp: prepareStartWithCommand_def Let_def split: option.splits sum.splits prod.splits intro: grows_intros)

lemma grows_hook: "grows None w (fst (turnHook v reply candidate w))"
  by (auto simp: turnHook_def Let_def split: option.splits prod.splits intro: grows_intros)

lemma grows_emit: "grows None w (fst (session_Emit v reply e w))"
  by (auto simp: session_Emit_def Let_def split: option.splits prod.splits sum.splits intro: grows_intros)

lemma grows_view: "grows None w (fst (project_view v ms w))"
  by (auto simp: project_view_def Let_def split: prod.splits)

lemma grows_projection: "grows None w (fst (commit_projection v reply p w))"
  by (auto simp: commit_projection_def Let_def split: option.splits prod.splits intro: grows_intros)

lemma grows_fault: "grows None w (fst (faultOperation e w))"
  by (simp add: faultOperation_def)

lemma grows_fst_one: "accepted_command e = None \<Longrightarrow> grows None w (fst (append_one reply e g w))"
  using grows_one [of reply e g w _ _ None]
  by (cases "append_one reply e g w") (simp del: accepted_command_def)

lemma grows_operation: "grows None w (fst (RecordOperation v reply p w))"
  by (simp add: RecordOperation_def grows_fault grows_fst_one split: option.split)

lemma grows_child_event: "grows None w (fst (ProjectEvent v reply r w))"
  by (simp add: ProjectEvent_def grows_fault grows_fst_one Let_def split: option.split)

lemma grows_lease: "grows None w (fst (snd (lease_Commit v reply x l w)))"
  by (auto simp: lease_Commit_def Let_def split: option.splits prod.splits intro: grows_intros)

lemma grows_fst_persist: "grows None w (fst (persistFaultLocked v reply e w))"
  by (cases "persistFaultLocked v reply e w") (simp add: grows_persist)

lemma grows_interrupt: "grows None w (fst (finishInterrupt v reply x w))"
  by (auto simp: finishInterrupt_def Let_def grows_fst_persist split: option.splits prod.splits sum.splits intro: grows_intros)

lemma grows_suspended: "grows None w (fst (finish_suspended v reply x e w))"
  by (auto simp: finish_suspended_def Let_def grows_fst_persist split: option.splits prod.splits sum.splits intro: grows_intros)

lemma grows_closed: "grows None w (fst (finish_closed v reply x status e w))"
proof -
  define u where "u = (if s_state (fst w) = Running then transition Closing (fst w) else fst w)"
  define t where "t = (u, snd w)"
  have w: "grows None t w' \<Longrightarrow> grows None w w'" for w' by (simp add: grows_def t_def)
  note persist = w [OF grows_fst_persist]
  have commit: "grows None w (fst (case commit_or_fault v reply facts t of
      (w, Some e) \<Rightarrow> (w, Some (a e)) | (w, None) \<Rightarrow> (on_session g w, b)))" if "admits None facts" for facts a b g
  proof -
    obtain w' r where "commit_or_fault v reply facts t = (w', r)" by fastforce
    moreover from this that have "grows None w w'" by (intro w grows_commit)
    ultimately show ?thesis by (cases r) simp_all
  qed
  show ?thesis unfolding finish_closed_def Let_def u_def [symmetric] t_def [symmetric]
    by (cases "validateProjectionLocked v x u"; cases "settle_usage x u") (simp_all only: persist sum.case, intro commit, simp)
qed

lemma grows_finish: "grows None w (fst (finishExecution v reply x e w))"
proof -
  let ?w = "on_session (\<lambda>s. s\<lparr>s_cancel := False\<rparr>) w"
  have w: "grows None ?w w' \<Longrightarrow> grows None w w'" for w' by simp
  note closed = w [OF grows_closed [of ?w]] and suspended = w [OF grows_suspended [of ?w]]
  obtain w' r where int: "finishInterrupt v reply x ?w = (w', r)" by fastforce
  then have "grows None w w'" using grows_interrupt [of ?w v reply x] by simp
  then show ?thesis
    by (cases r) (simp_all add: finishExecution_def Let_def int closed suspended split: option.split)
qed

lemma grows_request: "grows command w (fst (requestInterruptCommand v ctx reply expected command w))"
  by (auto simp: requestInterruptCommand_def Let_def split: option.splits prod.splits intro: grows_intros)

lemma grows_indeterminate: "grows command w (fst (prepareResumeIndeterminate v ctx reply new_id x request command w))"
  by (auto simp: prepareResumeIndeterminate_def Let_def split: option.splits prod.splits sum.splits intro: grows_intros)

lemma grows_resume: "grows command w (fst (prepareResumeWithCommand v ctx reply new_id request command w))"
  by (auto simp: prepareResumeWithCommand_def Let_def grows_indeterminate split: option.splits prod.splits sum.splits
      intro: grows_intros)

lemma grows_continue: "grows None w (fst (continueRecovered v reply w))"
  by (auto simp: continueRecovered_def Let_def grows_interrupt grows_finish split: option.splits prod.splits sum.splits)

lemma grows_inject: "inject_recovered v reply w = (w', r) \<Longrightarrow> grows None w w'"
  by (auto simp: inject_recovered_def grows_def Let_def split: option.splits prod.splits sum.splits if_splits dest: grows_append)

lemma grows_suspend_recovered: "grows None w (fst (suspend_recovered v reply new_id calls ind w))"
  by (auto simp: suspend_recovered_def grows_def Let_def split: option.splits prod.splits sum.splits dest: grows_append)

lemma grows_repair_recovered: "grows None w (fst (repair_recovered v reply pending w))"
  by (auto simp: repair_recovered_def grows_def Let_def split: option.splits prod.splits sum.splits dest: grows_append)

lemma grows_open_run: "grows None w (fst (recoverOpenRun v reply reply' new_id w))"
proof -
  obtain w1 x where 1: "inject_recovered v reply w = (w1, x)" by fastforce
  have g: "grows None w w1" using grows_inject [OF 1] .
  have suspend: "grows None w (fst (case suspend_recovered v reply' new_id calls ind w1 of (w, e) \<Rightarrow> (w, map_option Cause e)))" for calls ind
    using grows_trans [OF g grows_suspend_recovered, of v reply' new_id calls ind] by (simp add: case_prod_unfold)
  show ?thesis
    using g suspend grows_trans [OF g grows_repair_recovered]
    by (cases x) (simp_all add: recoverOpenRun_def 1 Let_def split: sum.split)
qed

lemma grows_recover_idle: "grows None w (fst (recover_idle v reply w))"
  by (auto simp: recover_idle_def grows_def on_session_def Let_def split: option.splits prod.splits sum.splits dest: grows_append)

lemma grows_recover_session: "grows None w (fst (recover_session v reply reply' new_id f w))"
proof -
  let ?w = "on_session (\<lambda>s. if s_state s = Faulted then transition Running s else s) w"
  have "grows None ?w w' \<Longrightarrow> grows None w w'" for w' by simp
  note under = this [OF grows_finish] this [OF grows_recover_idle] this [OF grows_open_run]
  show ?thesis
    using under grows_interrupt [of "on_session (\<lambda>s. transition Interrupting (update_run (\<lambda>r. r\<lparr>ar_interrupted := True\<rparr>) s)) w"]
    by (simp add: recover_session_def Let_def)
qed

lemma grows_Recover: "\<exists>xs. fst (Recover v reply reply' new_id i scope j) = j @ xs"
proof -
  have "\<exists>xs. fst (dropped_on_error (recover_session v reply reply' new_id f (s, j))) = j @ xs" for f s
    using grows_recover_session [of "(s, j)" v reply reply' new_id f]
    by (cases "recover_session v reply reply' new_id f (s, j)")
       (auto simp: dropped_on_error_def grows_def split: option.splits)
  then show ?thesis by (simp add: Recover_def split: sum.split option.split)
qed

end
