(* ===== verification/Session_Example.thy ===== *)
theory Session_Example
  imports Session_Grow
begin

text \<open>
  A small session the claims are tried on: it is created, given a prompt, and asks for a tool.  The codec
  of transcripts knows the transcripts of the example and refuses any other.
\<close>

definition ex_call :: tool_use where
  "ex_call = \<lparr>tu_id = ''c1'', tu_name = ''read'', tu_input = JNull\<rparr>"

definition ex_prompt :: message where
  "ex_prompt = NewTextMessage RoleUser ''hi''"

definition ex_encode :: "message list \<Rightarrow> string result" where
  "ex_encode ms =
     (if ms = [ex_prompt] then Inr ''1''
      else if ms = [ex_prompt, NewToolUseMessage [ex_call]] then Inr ''2''
      else Inl (Plain ''unknown transcript''))"

definition ex_services :: services where
  "ex_services =
     \<lparr>vc_encode = (\<lambda>_. None), vc_event_error = (\<lambda>_. None), vc_encode_messages = ex_encode,
      vc_clone = Inr, vc_marshal = (\<lambda>_. Inr ''''), vc_encode_recovery = (\<lambda>_. Inr ''calls''),
      vc_decode_recovery = (\<lambda>_. Inl (Plain ''not JSON'')), vc_recovery_hash = (\<lambda>_ _. Inr ''00''),
      vc_plan = (\<lambda>_ _. Inr [])\<rparr>"

definition ex_scope :: scope where
  "ex_scope = \<lparr>sc_session_id = ''s'', sc_parent_id = '''', sc_agent = ''a'', sc_depth = 0\<rparr>"

definition ex_journal :: "fact list" where
  "ex_journal = [SessionCreated None False (Some ex_scope)]"

definition ex_session :: session where
  "ex_session = (blank_session ''s'' ex_scope)\<lparr>s_cursor := 1\<rparr>"

definition ex_started :: world where
  "ex_started = fst (prepareStartWithCommand ex_services None Stored (Inr ''r1'') (Inr '''') ex_prompt None
     (ex_session, ex_journal))"

definition ex_asked :: world where
  "ex_asked = fst (session_Emit ex_services Stored
     (AssistantCommitted 1 (NewToolUseMessage [ex_call])) ex_started)"

definition ex_queued :: world where
  "ex_queued = fst (acceptWithCursorCommand ex_services None Stored 0 (Inr ''q1'') QueueSteer ex_prompt ''''
     None ex_asked)"

lemma ex_faithful: "faithful ex_services"
  by (auto simp: faithful_def messages_equal_def ex_services_def ex_encode_def split: if_splits)

lemma ex_new: "session_New ex_services Stored ''s'' ex_scope None False [] = (ex_journal, Inr ex_session)"
  by (simp add: session_New_def validateInitialHistory_def validateScope_def ex_scope_def created_facts_def
      message_facts_def ex_services_def journal_append_def ex_journal_def ex_session_def blank_session_def Let_def)

lemma ex_reachable: "session_reachable ex_services ''s'' (Some ex_session, ex_journal)"
  using ex_new by (rule reach_new)

lemma held_pair: "held w = (Some (fst w), snd w)"
  by (simp add: held_def)

lemma ex_reachable_started: "session_reachable ex_services ''s'' (Some (fst ex_started), snd ex_started)"
  unfolding ex_started_def held_pair [symmetric] using ex_reachable step_start by (rule reach_step)

lemma ex_states:
  "s_state (fst ex_started) = Running" "s_state (fst ex_asked) = Running" "s_state (fst ex_queued) = Running"
  by code_simp+

lemma ex_reachable_asked: "session_reachable ex_services ''s'' (Some (fst ex_asked), snd ex_asked)"
proof -
  have "driven (fst ex_started)" by (simp add: driven_def ex_states)
  from step_event [OF this, of ex_services "''s''" "snd ex_started" Stored
      "AssistantCommitted 1 (NewToolUseMessage [ex_call])"]
  have "session_step ex_services ''s'' None (Some (fst ex_started), snd ex_started) (held ex_asked)"
    by (simp only: prod.collapse ex_asked_def)
  with ex_reachable_started show ?thesis unfolding held_pair [symmetric] by (rule reach_step)
qed

lemma ex_reachable_queued: "session_reachable ex_services ''s'' (Some (fst ex_queued), snd ex_queued)"
proof -
  have "accepted_ids (snd ex_asked) = []" by code_simp
  then have "session_step ex_services ''s'' None (Some (fst ex_asked), snd ex_asked)
      (held (fst (acceptWithCursorCommand ex_services None Stored 0 (Inr ''q1'') QueueSteer ex_prompt ''''
        None (fst ex_asked, snd ex_asked))))"
    by (intro step_accept) simp
  then have "session_step ex_services ''s'' None (Some (fst ex_asked), snd ex_asked) (held ex_queued)"
    by (simp only: prod.collapse ex_queued_def)
  with ex_reachable_asked show ?thesis unfolding held_pair [symmetric] by (rule reach_step)
qed

lemma ex_live: "live (fst ex_started)" "live (fst ex_asked)" "live (fst ex_queued)"
  by (simp_all add: live_def ex_states)

end
