(* ===== verification/Session_Accept.thy ===== *)
theory Session_Accept
  imports Session_Grow
begin

text \<open>
  The handlers seen from the commands they accept: a handler that answers with success has written the
  acceptance of its command as the last entry; one that answers with an error has written nothing, or has
  lost the handle.  A handle that is faulted or closed is silent.
\<close>

subsection \<open>Silence\<close>

definition silent :: "world \<Rightarrow> world \<Rightarrow> bool" where
  "silent w w' \<longleftrightarrow> snd w' = snd w \<and> \<not> live (fst w') \<and>
     s_acceptance_fault (fst w') = s_acceptance_fault (fst w) \<and>
     s_messages (fst w') = s_messages (fst w) \<and> s_queue (fst w') = s_queue (fst w)"

lemma update_run_fault [simp]: "s_acceptance_fault (update_run g s) = s_acceptance_fault s"
  by (simp add: update_run_def)

lemma silent_event: "s_state s = Faulted \<Longrightarrow> silent (s, j) (fst (session_Emit v reply e (s, j)))"
  by (auto simp: silent_def live_def session_Emit_def on_session_def fault_once_def emit_preview_def Let_def
      split: option.splits)

lemma silent_lease: "\<not> live s \<Longrightarrow> silent (s, j) (fst (snd (lease_Commit v reply charge lease (s, j))))"
  by (auto simp: silent_def live_def lease_Commit_def Let_def split: option.splits)

lemma silent_interrupt:
  "s_state s = Faulted \<Longrightarrow> silent (s, j) (fst (finishExecution v reply x e (s, j)))"
  by (auto simp: silent_def live_def finishExecution_def on_session_def Let_def finishInterrupt_def
      split: option.splits)

lemma silent_accept: "\<not> live s \<Longrightarrow> silent (s, j) (fst (acceptWithCursorCommand v ctx reply clock new_id kind m target command (s, j)))"
  by (cases "s_state s") (simp_all add: silent_def live_def acceptWithCursorCommand_def acceptanceErrorLocked_def Let_def split: option.split)

lemma silent_start: "\<not> live s \<Longrightarrow> silent (s, j) (fst (prepareStartWithCommand v ctx reply new_id instructions prompt command (s, j)))"
  by (cases "s_state s") (simp_all add: silent_def live_def prepareStartWithCommand_def promptErrorLocked_def Let_def split: option.split)

lemma silent_request: "\<not> live s \<Longrightarrow> silent (s, j) (fst (requestInterruptCommand v ctx reply expected command (s, j)))"
  by (cases "s_state s") (simp_all add: silent_def live_def requestInterruptCommand_def Let_def split: option.split)

lemma silent_resume: "\<not> live s \<Longrightarrow> silent (s, j) (fst (prepareResumeWithCommand v ctx reply new_id request command (s, j)))"
  by (cases "s_state s") (simp_all add: silent_def live_def prepareResumeWithCommand_def resumeErrorLocked_def Let_def split: option.split)

lemma silent_reject: "\<not> live s \<Longrightarrow> silent (s, j) (fst (rejectCommand v ctx reply c (s, j)))"
  by (cases "s_state s") (simp_all add: silent_def live_def rejectCommand_def Let_def split: option.split)

lemma silent_operation: "\<not> live s \<Longrightarrow> silent (s, j) (fst (RecordOperation v reply on (s, j)))"
  by (cases "s_state s") (simp_all add: silent_def live_def RecordOperation_def faultOperation_def Let_def split: option.split)

lemma silent_child_event: "\<not> live s \<Longrightarrow> silent (s, j) (fst (ProjectEvent v reply record (s, j)))"
  by (cases "s_state s") (simp_all add: silent_def live_def ProjectEvent_def faultOperation_def Let_def split: option.split)

lemma silent_continue: "\<not> live s \<Longrightarrow> silent (s, j) (fst (continueRecovered v reply (s, j)))"
  by (cases "s_state s") (simp_all add: silent_def live_def continueRecovered_def Let_def split: option.split)

lemma silent_end: "\<not> live s \<Longrightarrow> silent (s, j) (abandonRun s, j)" "\<not> live s \<Longrightarrow> silent (s, j) (fst (session_Close s), j)"
  by (auto simp: silent_def live_def abandonRun_def faultLocked_def session_Close_def transition_def)

lemma silent_driven:
  assumes "s_state s = Faulted"
  shows "silent (s, j) (fst (turnHook v reply candidate (s, j)))" "silent (s, j) (fst (project_view v ms (s, j)))"
    "silent (s, j) (fst (commit_projection v reply p (s, j)))"
  using assms by (auto simp: silent_def live_def turnHook_def project_view_def commit_projection_def Let_def
      split: option.splits)

text \<open>A handle that is faulted or closed stays so, and writes nothing.\<close>

lemma dead_step:
  assumes "session_step v i command (Some s, j) y" "\<not> live s"
  shows "snd y = j \<and> (case fst y of None \<Rightarrow> True | Some s' \<Rightarrow> silent (s, j) (s', j))"
proof -
  have driven: "s_state s = Faulted" if "driven s" using that assms(2) by (auto simp: driven_def live_def)
  have held: "snd (held w) = j \<and> (case fst (held w) of None \<Rightarrow> True | Some s' \<Rightarrow> silent (s, j) (s', j))"
    if "silent (s, j) w" for w using that by (cases w) (auto simp: held_def silent_def)
  note quiet = silent_accept silent_start silent_request silent_resume silent_reject silent_operation
    silent_child_event silent_continue silent_lease
    silent_driven [OF driven] silent_interrupt [OF driven] silent_event [OF driven]
  from assms(1) show ?thesis
  proof cases
    case (step_interrupt reply)
    then show ?thesis using assms(2) by (simp add: live_def)
  next
    case step_crash
    then show ?thesis by simp
  next
    case step_abandon
    then show ?thesis using silent_end(1) [OF assms(2)] by simp
  next
    case step_close
    then show ?thesis using silent_end(2) [OF assms(2)] by simp
  qed (use assms(2) in \<open>simp_all only: held quiet driven simp_thms\<close>)
qed

subsection \<open>Acceptance and refusal\<close>

definition accepts :: "command_payload \<Rightarrow> world \<Rightarrow> world \<Rightarrow> bool" where
  "accepts p w w' \<longleftrightarrow>
     (\<exists>xs. snd w' = snd w @ xs @ [CommandAccepted p] \<and> acceptances xs = []) \<and>
     s_cursor (fst w') = length (snd w') \<and> s_id (fst w') = s_id (fst w)"

definition refuses :: "world \<Rightarrow> world \<Rightarrow> bool" where
  "refuses w w' \<longleftrightarrow> snd w' = snd w \<or> \<not> live (fst w') \<and> s_acceptance_fault (fst w') \<noteq> None"

lemma refuses_refl [simp]: "refuses w w"
  by (simp add: refuses_def)

lemma accepts_on_session:
  "accepts p w w' \<Longrightarrow> s_cursor (g (fst w')) = s_cursor (fst w') \<Longrightarrow> s_id (g (fst w')) = s_id (fst w') \<Longrightarrow>
     accepts p w (on_session g w')"
  by (simp add: accepts_def on_session_def)

lemma append_accepts:
  "appendAcceptanceLocked ctx reply (xs @ [CommandAccepted p]) w = (w', None) \<Longrightarrow> acceptances xs = [] \<Longrightarrow>
     accepts p w w'"
  by (cases w) (auto simp: appendAcceptanceLocked_def accepts_def journal_append_def
      split: option.splits prod.splits sum.splits reply.splits if_splits)

lemma append_refuses: "appendAcceptanceLocked ctx reply facts w = (w', Some e) \<Longrightarrow> refuses w w'"
  by (cases w) (auto simp: appendAcceptanceLocked_def refuses_def faultLocked_def live_def
      split: option.splits prod.splits sum.splits)

text \<open>The last entry of every accepted batch is the acceptance.\<close>

lemma append_accepts_behind:
  "appendAcceptanceLocked ctx reply [e, CommandAccepted p] w = (w', None) \<Longrightarrow> accepted_command e = None \<Longrightarrow>
     accepts p w w'"
  using append_accepts [of ctx reply "[e]" p w w'] by simp

lemma start_batch:
  "\<exists>xs. start_facts i limits text next prompt (Some c) = xs @ [CommandAccepted (c\<lparr>ca_run_id := i\<rparr>)] \<and> acceptances xs = []"
proof -
  have "start_facts i limits text next prompt (Some c) =
      start_facts i limits text next prompt None @ [CommandAccepted (c\<lparr>ca_run_id := i\<rparr>)]"
    by (simp add: start_facts_def command_facts_def)
  moreover have "acceptances (start_facts i limits text next prompt None) = []"
    by (simp add: start_facts_def command_facts_def start_entries)
  ultimately show ?thesis by blast
qed

lemma reopen_batch:
  "\<exists>xs. reopen_facts i limits x request added (Some c) s = xs @ [CommandAccepted (c\<lparr>ca_run_id := i\<rparr>)] \<and> acceptances xs = []"
proof -
  have "reopen_facts i limits x request added (Some c) s =
      reopen_facts i limits x request added None s @ [CommandAccepted (c\<lparr>ca_run_id := i\<rparr>)]"
    by (simp add: reopen_facts_def command_facts_def)
  moreover have "acceptances (reopen_facts i limits x request added None s) = []"
    by (simp add: reopen_facts_def command_facts_def)
  ultimately show ?thesis by blast
qed

lemma kept_fields [simp]:
  "s_cursor (transition p s) = s_cursor s" "s_id (transition p s) = s_id s"
  "s_cursor (update_run g s) = s_cursor s" "s_id (update_run g s) = s_id s"
  "s_cursor (remove_all qs s) = s_cursor s" "s_id (remove_all qs s) = s_id s"
  "s_cursor (started i limits text next prompt s) = s_cursor s" "s_id (started i limits text next prompt s) = s_id s"
  "s_cursor (resuming s) = s_cursor s" "s_id (resuming s) = s_id s"
  "s_cursor (reopened i limits added s) = s_cursor s" "s_id (reopened i limits added s) = s_id s"
proof -
  have "s_cursor (remove_all qs s) = s_cursor s \<and> s_id (remove_all qs s) = s_id s" for qs s
    by (induction qs arbitrary: s) (simp_all add: remove_all_def removeQueueLocked_def)
  then show remove: "s_cursor (remove_all qs s) = s_cursor s" "s_id (remove_all qs s) = s_id s" for qs s by auto
  show "s_cursor (started i limits text next prompt s) = s_cursor s" "s_id (started i limits text next prompt s) = s_id s"
    by (simp_all add: started_def transition_def remove Let_def)
qed (simp_all add: transition_def update_run_def resuming_def reopened_def Let_def)

lemma append_start:
  "appendAcceptanceLocked ctx reply (start_facts i limits text next prompt (Some c)) w = (w', None) \<Longrightarrow>
     accepts (c\<lparr>ca_run_id := i\<rparr>) w w'"
  by (metis start_batch append_accepts)

lemma append_reopen:
  "appendAcceptanceLocked ctx reply (reopen_facts i limits x request added (Some c) s) w = (w', None) \<Longrightarrow>
     accepts (c\<lparr>ca_run_id := i\<rparr>) w w'"
  by (metis reopen_batch append_accepts)

lemma on_session_fst [simp]: "fst (on_session g w) = g (fst w)"
  by (simp add: on_session_def)

lemma accept_ok:
  "acceptWithCursorCommand v ctx reply clock new_id kind m target (Some c) w = (w', Inr (i, n)) \<Longrightarrow>
     accepts (c\<lparr>ca_queue_id := i\<rparr>) w w' \<and> n = s_cursor (fst w')"
  by (auto simp: acceptWithCursorCommand_def Let_def command_facts_def
      split: option.splits sum.splits prod.splits if_splits intro!: accepts_on_session dest!: append_accepts_behind)

lemma accept_error:
  "acceptWithCursorCommand v ctx reply clock new_id kind m target command w = (w', Inl e) \<Longrightarrow> refuses w w'"
  by (auto simp: acceptWithCursorCommand_def Let_def split: option.splits sum.splits prod.splits if_splits
      dest!: append_refuses)

lemma start_ok:
  "prepareStartWithCommand v ctx reply new_id instructions prompt (Some c) w = (w', Inr x) \<Longrightarrow>
     accepts (c\<lparr>ca_run_id := st_run_id x\<rparr>) w w'"
  by (auto simp: prepareStartWithCommand_def Let_def split: option.splits sum.splits prod.splits if_splits
      intro!: accepts_on_session dest!: append_start)

lemma start_error:
  "prepareStartWithCommand v ctx reply new_id instructions prompt command w = (w', Inl e) \<Longrightarrow> refuses w w'"
  by (auto simp: prepareStartWithCommand_def Let_def split: option.splits sum.splits prod.splits if_splits
      dest!: append_refuses)

lemma reject_ok: "rejectCommand v ctx reply c w = (w', None) \<Longrightarrow> accepts c w w'"
  using append_accepts [of ctx reply "[]" c w w'] by (auto simp: rejectCommand_def split: option.splits if_splits)

lemma reject_error: "rejectCommand v ctx reply c w = (w', Some e) \<Longrightarrow> refuses w w'"
  by (auto simp: rejectCommand_def split: option.splits if_splits dest!: append_refuses)

lemma request_error:
  "requestInterruptCommand v ctx reply expected command w = (w', Inl e) \<Longrightarrow> refuses w w'"
  by (auto simp: requestInterruptCommand_def Let_def split: option.splits prod.splits if_splits dest!: append_refuses)

lemma request_ok:
  assumes "requestInterruptCommand v ctx reply expected (Some c) w = (w', Inr i)" "expected \<noteq> ''''"
  shows "accepts (c\<lparr>ca_run_id := expected\<rparr>) w w'"
proof -
  have run: "staleTargetLocked expected (fst w) = None \<Longrightarrow> run_id (fst w) = expected"
    using assms(2) by (auto simp: staleTargetLocked_def run_id_def split: if_splits option.splits)
  show ?thesis using assms(1) append_accepts [of ctx reply "[]" "c\<lparr>ca_run_id := expected\<rparr>" w]
    by (auto simp: requestInterruptCommand_def Let_def run split: option.splits prod.splits if_splits
        intro!: accepts_on_session)
qed

lemma indeterminate_ok:
  "prepareResumeIndeterminate v ctx reply new_id x request (Some c) w = (w', Inr y) \<Longrightarrow>
     accepts (c\<lparr>ca_run_id := am_run_id y\<rparr>) w w'"
  by (auto simp: prepareResumeIndeterminate_def Let_def split: option.splits sum.splits prod.splits if_splits
      intro!: accepts_on_session dest!: append_reopen)

lemma indeterminate_error:
  "prepareResumeIndeterminate v ctx reply new_id x request command w = (w', Inl e) \<Longrightarrow> refuses w w'"
  by (auto simp: prepareResumeIndeterminate_def Let_def split: option.splits sum.splits prod.splits if_splits
      dest!: append_refuses)

lemma resume_ok:
  "prepareResumeWithCommand v ctx reply new_id request (Some c) w = (w', Inr y) \<Longrightarrow>
     accepts (c\<lparr>ca_run_id := am_run_id y\<rparr>) w w'"
  by (auto simp: prepareResumeWithCommand_def Let_def indeterminate_ok command_facts_def
      split: option.splits sum.splits prod.splits if_splits intro!: accepts_on_session dest!: append_accepts_behind)

lemma resume_error:
  "prepareResumeWithCommand v ctx reply new_id request command w = (w', Inl e) \<Longrightarrow> refuses w w'"
  by (auto simp: prepareResumeWithCommand_def Let_def indeterminate_error
      split: option.splits sum.splits prod.splits if_splits dest!: append_refuses)

lemmas handler_outcomes = accept_ok accept_error start_ok start_error reject_ok reject_error request_ok request_error
  resume_ok resume_error

subsection \<open>Every step\<close>

lemma held_grows: "grows c (s, j) w \<Longrightarrow> \<exists>xs. snd (held w) = j @ xs \<and> admits c xs"
  by (simp add: held_def grows_def)

lemma grows_reject: "grows (Some c) w (fst (rejectCommand v ctx reply c w))"
  by (cases "appendAcceptanceLocked ctx reply [CommandAccepted c] w")
    (simp add: rejectCommand_def grows_acceptance split: option.split)

lemma step_grows:
  assumes "session_step v i command (Some s, j) y"
  shows "\<exists>xs. snd y = j @ xs \<and> admits command xs"
  using assms
proof cases
  case step_abandon
  then show ?thesis by simp
next
  case step_close
  then show ?thesis by simp
next
  case step_crash
  then show ?thesis by simp
qed (auto intro!: held_grows grows_accept grows_start grows_hook grows_emit grows_view grows_projection
    grows_operation grows_child_event grows_lease grows_finish grows_request grows_interrupt grows_resume
    grows_continue grows_reject)

end
