(* ===== verification/Session_Props.thy ===== *)
theory Session_Props
  imports Session_Example Session_Accept "HOL-Library.Sublist"
begin

text \<open>
  What the session promises: its journal is the session, no journal it wrote is unreadable, an accepted
  input or interrupt is not lost, a faulted session is silent, and recovery never hands the driver a
  call that may have run.
\<close>

subsection \<open>The journal is the session\<close>

lemma agree_durable:
  assumes "agree s f" "s_cursor s = fo_cursor f" "fo_scope f = Some (s_scope s)"
  shows "durable s = durable (recovered_session (s_id s) (s_scope s) f)"
  using assms by (cases s) (simp add: durable_def recovered_session_def agree_def agree_data_def)

text \<open>
  C3. The journal is the session.  Whatever handlers ran in whatever order, with whatever answers of the
  journal, crashes and recoveries: as long as the handle is live, reading its journal gives the transcript,
  context markers, queue, usage, budget, compaction, suspension and run that the handle holds (of a run,
  what is not durable is set aside: the turn, the previews, the flags of a resumption under way and, of the
  last usage, all but the counters and the number of requests).
  An idle session has no open run in the journal and a suspended one is suspended there.  The codec is
  assumed to tell different transcripts apart; the duties of a driver are guards of the steps.
\<close>

theorem session_follows_journal:
  assumes "faithful v" "session_reachable v i (Some s, j)" "live s"
  shows "\<exists>f. fold_log j = Inr f \<and> durable s = durable (recovered_session i (s_scope s) f) \<and>
    (s_state s = Idle \<longleftrightarrow> fo_run f = None) \<and> (s_state s = Suspended \<longrightarrow> fo_state f = Suspended)"
proof -
  obtain c where c: "sound i c (s, j)" using handle_sound [OF reachable_ok [OF assms(2,1)]] by blast
  then obtain f where f: "fold_facts j empty_folded = Inr f" "wf_folded f" "fo_scope f = Some (s_scope s)"
      "agree s f" "s_cursor s = length j" "s_id s = i"
    using assms(3) by (auto simp: sound_def tracked_def)
  have "fo_cursor f = length j" using fold_facts_cursor [OF f(1)] by (simp add: empty_folded_def)
  then have same: "durable s = durable (recovered_session i (s_scope s) f)"
    using agree_durable [OF f(4) _ f(3)] f(5,6) by simp
  have "s_state s = Idle \<longleftrightarrow> s_run s = None" using f(4) by (simp add: agree_def agree_phase_def)
  then have idle: "s_state s = Idle \<longleftrightarrow> fo_run f = None" using follows_run_None [OF f(4)] by (simp only:)
  have suspended: "s_state s = Suspended \<longrightarrow> fo_state f = Suspended"
    using f(4) by (simp add: agree_def agree_phase_def)
  show ?thesis
    by (intro exI [of _ f] conjI) (fact wf_fold_log [OF f(1,2)], fact same, fact idle, fact suspended)
qed

lemma session_follows_journal_witness:
  "\<exists>f. fold_log (snd ex_queued) = Inr f \<and>
     durable (fst ex_queued) = durable (recovered_session ''s'' (s_scope (fst ex_queued)) f) \<and>
     fo_run f \<noteq> None"
proof -
  obtain f where "fold_log (snd ex_queued) = Inr f"
      "durable (fst ex_queued) = durable (recovered_session ''s'' (s_scope (fst ex_queued)) f)"
      "s_state (fst ex_queued) = Idle \<longleftrightarrow> fo_run f = None"
    by (rule exE [OF session_follows_journal [OF ex_faithful ex_reachable_queued ex_live(3)]]) (elim conjE, rule that)
  then show ?thesis using ex_states(3) by (intro exI [of _ f]) simp
qed

lemma recover_without_run:
  assumes "fold_facts j empty_folded = Inr f" "wf_folded f" "fo_scope f = Some c" "sc_session_id c = i"
    and "fo_run f = None" "vc_encode v (SessionRecovered ''idle'') = None"
  shows "Recover v Stored reply' new_id i scope j = (j @ [SessionRecovered ''idle''],
    Inr ((recovered_session i c f)\<lparr>s_state := Idle, s_cursor := Suc (length j)\<rparr>))"
proof -
  have cursor: "fo_cursor f = length j" using fold_facts_cursor [OF assms(1)] by (simp add: empty_folded_def)
  have idle: "fo_state f = Idle" using assms(2,5) by (simp add: wf_folded_def)
  have "recover_session v Stored reply' new_id f (recovered_session i c f, j) =
      (((recovered_session i c f)\<lparr>s_state := Idle, s_cursor := Suc (length j)\<rparr>, j @ [SessionRecovered ''idle'']), None)"
    using assms(5,6) idle cursor
    by (simp add: recover_session_def recover_idle_def on_session_def recovered_session_def journal_append_def)
  then show ?thesis using wf_fold_log [OF assms(1,2)] assms(3,4) by (simp add: Recover_def dropped_on_error_def)
qed

text \<open>A run that waits for the operator: suspended, not completed, and not asked to stop.\<close>

definition waits_for_operator :: "folded \<Rightarrow> bool" where
  "waits_for_operator f \<longleftrightarrow>
     (case fo_run f of None \<Rightarrow> False | Some r \<Rightarrow> fo_interrupt_run_id f \<noteq> ar_id r) \<and>
     \<not> fo_completed f \<and> fo_state f = Suspended \<and> fo_suspension f \<noteq> None"

lemma recover_suspended:
  assumes "fold_log j = Inr f" "fo_scope f = Some c" "sc_session_id c = i" "waits_for_operator f"
  shows "Recover v reply reply' new_id i scope j = (j, Inr (recovered_session i c f))"
proof -
  obtain r where r: "fo_run f = Some r" "fo_interrupt_run_id f \<noteq> ar_id r" "\<not> fo_completed f" "fo_state f = Suspended"
      "fo_suspension f \<noteq> None"
    using assms(4) by (auto simp: waits_for_operator_def split: option.splits)
  then show ?thesis using assms(1-3)
    by (simp add: Recover_def recover_session_def on_session_def recovered_session_def dropped_on_error_def)
qed

text \<open>
  C12. No journal of a session is unreadable: whatever a reachable journal holds, also after an append
  whose answer was lost, after faults, and after recoveries that failed half-way, the reading succeeds,
  and a further recovery, whatever it is answered, keeps every entry and leaves a journal that reads again.
  Where no run is open, a recovery whose entry is stored returns an idle session; where a run waits for the
  operator, every recovery returns it suspended and writes nothing; both with the transcript that was read.
  The recovery of any other open run may be refused, by its budget or by a service it asks, and this is not
  claimed to succeed.
\<close>

theorem journal_always_reads:
  assumes "faithful v" "session_reachable v i (h, j)"
  shows "\<exists>f xs f'. fold_log j = Inr f \<and> fst (Recover v reply reply' new_id i scope j) = j @ xs \<and>
    fold_log (j @ xs) = Inr f' \<and>
    (fo_run f = None \<and> vc_encode v (SessionRecovered ''idle'') = None \<longrightarrow>
      (\<exists>s. Recover v Stored reply' new_id i scope j = (j @ [SessionRecovered ''idle''], Inr s) \<and>
         s_state s = Idle \<and> s_messages s = fo_messages f)) \<and>
    (waits_for_operator f \<longrightarrow>
      (\<exists>s. Recover v reply reply' new_id i scope j = (j, Inr s) \<and>
         s_state s = Suspended \<and> s_messages s = fo_messages f))"
proof -
  have "handle_ok i (h, j)" using reachable_ok [OF assms(2,1)] .
  then obtain c where c: "sc_session_id c = i" "readable c j" by (auto simp: handle_ok_def)
  then obtain f where f: "fold_facts j empty_folded = Inr f" "wf_folded f" "fo_scope f = Some c"
    by (auto simp: readable_def)
  have log: "fold_log j = Inr f" using wf_fold_log [OF f(1,2)] .
  obtain j' r where r: "Recover v reply reply' new_id i scope j = (j', r)" by fastforce
  have "readable c j'" using Recover_sound(1) [OF c(2,1) assms(1) r] .
  then obtain f' where f': "fold_log j' = Inr f'" using wf_fold_log by (auto simp: readable_def)
  obtain xs where xs: "j' = j @ xs" using grows_Recover [of v reply reply' new_id i scope j] r by auto
  have idle: "\<exists>s. Recover v Stored reply' new_id i scope j = (j @ [SessionRecovered ''idle''], Inr s) \<and>
      s_state s = Idle \<and> s_messages s = fo_messages f"
    if "fo_run f = None \<and> vc_encode v (SessionRecovered ''idle'') = None"
    using recover_without_run [OF f c(1)] that by (simp add: recovered_session_def)
  have suspended: "\<exists>s. Recover v reply reply' new_id i scope j = (j, Inr s) \<and>
      s_state s = Suspended \<and> s_messages s = fo_messages f" if "waits_for_operator f"
    using recover_suspended [OF log f(3) c(1) that] that
    by (simp add: recovered_session_def waits_for_operator_def)
  show ?thesis using log f' idle suspended unfolding r xs fst_conv by blast
qed

lemma journal_always_reads_witness:
  "\<exists>f xs f' s. fold_log ex_journal = Inr f \<and>
     fst (Recover ex_services (Lost (Plain ''gone'')) Stored (Inr ''x'') ''s'' ex_scope ex_journal) =
       ex_journal @ xs \<and> fold_log (ex_journal @ xs) = Inr f' \<and>
     Recover ex_services Stored Stored (Inr ''x'') ''s'' ex_scope ex_journal =
       (ex_journal @ [SessionRecovered ''idle''], Inr s) \<and> s_state s = Idle"
proof -
  have "case fold_log ex_journal of Inl _ \<Rightarrow> False | Inr f \<Rightarrow> fo_run f = None" by code_simp
  then have none: "fo_run f = None" if "fold_log ex_journal = Inr f" for f using that by simp
  have "vc_encode ex_services (SessionRecovered ''idle'') = None" by (simp add: ex_services_def)
  then show ?thesis
    using journal_always_reads [OF ex_faithful ex_reachable, of "Lost (Plain ''gone'')" Stored "Inr ''x''" ex_scope]
      none by blast
qed

subsection \<open>A faulted session is silent\<close>

text \<open>
  C23. A faulted or closed session is silent.  Once an append failed, its answer was lost, or the handle was
  abandoned or closed, no handler of that handle writes to the journal again or touches its transcript or
  queue, and none brings it back: it stays so until the handle is dropped and the journal is recovered.
\<close>

theorem faulted_session_silent:
  assumes "session_step v i command (Some s, j) y" "s_state s = Faulted \<or> s_state s = Closed"
  shows "snd y = j \<and> (case fst y of None \<Rightarrow> True
    | Some s' \<Rightarrow> s_state s' \<in> {Faulted, Closed} \<and> s_messages s' = s_messages s \<and> s_queue s' = s_queue s)"
  using dead_step [OF assms(1)] assms(2) by (auto simp: live_def silent_def split: option.splits)

lemma faulted_session_silent_witness:
  "let w = fst (session_Emit ex_services Stored (RunEnded 1 ExecutionFailed)
       (abandonRun (fst ex_asked), snd ex_asked)) in
   snd w = snd ex_asked \<and> s_state (fst w) \<in> {Faulted, Closed} \<and>
   s_messages (fst w) = s_messages (abandonRun (fst ex_asked)) \<and>
   s_queue (fst w) = s_queue (abandonRun (fst ex_asked))"
proof -
  have faulted: "s_state (abandonRun (fst ex_asked)) = Faulted" by (simp add: abandonRun_def ex_states)
  then have "driven (abandonRun (fst ex_asked))" by (simp add: driven_def)
  from faulted_session_silent [OF step_event [OF this, where v = ex_services and i = "''s''" and
      reply = Stored and e = "RunEnded 1 ExecutionFailed" and j = "snd ex_asked"] disjI1 [OF faulted]]
  show ?thesis by (simp add: held_def Let_def)
qed

subsection \<open>Accepted inputs\<close>

definition taken :: "string \<Rightarrow> fact list \<Rightarrow> bool" where
  "taken n j \<longleftrightarrow> QueueDrained n \<in> set j \<or> (\<exists>reason. QueueCancelled n reason \<in> set j)"

lemma fold_fact_accepted:
  assumes "fold_fact e f = Inr f'"
  shows "fo_accepted f' = (case e of QueueAccepted i (Some q) \<Rightarrow> (fo_accepted f)(i \<mapsto> q)
      | QueueDrained i \<Rightarrow> (fo_accepted f)(i := None) | QueueCancelled i _ \<Rightarrow> (fo_accepted f)(i := None)
      | _ \<Rightarrow> fo_accepted f)"
  using assms apply_event_keeps(5)
  by (cases e) (auto simp: fold_fact_def Let_def open_run_def close_run_def add_message_payload_def add_system_def
      add_messages_def on_run_def dest!: apply_event_keeps(5) split: option.splits if_splits)

lemma accepted_ids_append: "accepted_ids (xs @ ys) = accepted_ids xs @ accepted_ids ys"
  by (simp add: accepted_ids_def)

lemma accepted_id: "QueueAccepted n q \<in> set j \<Longrightarrow> n \<in> set (accepted_ids j)"
  by (force simp: accepted_ids_def)

lemma map_filter_subseq:
  "\<forall>i x. q i = Some x \<longrightarrow> qe_id x = i \<Longrightarrow> subseq (map qe_id (List.map_filter q xs)) xs"
  by (induction xs) (auto simp: map_filter_simps split: option.splits)

text \<open>An entry is in the map from its acceptance on, until it is drained or cancelled.\<close>

lemma fold_accepted:
  "fold_facts j empty_folded = Inr f \<Longrightarrow> distinct (accepted_ids j) \<Longrightarrow> QueueAccepted n (Some q) \<in> set j \<Longrightarrow>
     \<not> taken n j \<Longrightarrow> fo_accepted f n = Some q"
proof (induction j arbitrary: f rule: rev_induct)
  case (snoc e j)
  then obtain f1 where f1: "fold_facts j empty_folded = Inr f1" "fold_fact e f1 = Inr f"
    by (auto simp: fold_facts_append split: sum.splits)
  note step = fold_fact_accepted [OF f1(2)]
  have free: "e \<noteq> QueueDrained n" "\<And>r. e \<noteq> QueueCancelled n r" "\<not> taken n j"
    using snoc.prems(4) by (auto simp: taken_def)
  show ?case
  proof (cases "e = QueueAccepted n (Some q)")
    case True
    then show ?thesis using step by simp
  next
    case False
    then have j: "QueueAccepted n (Some q) \<in> set j" using snoc.prems(3) by simp
    have "fo_accepted f1 n = Some q"
      using snoc.IH [OF f1(1) _ j free(3)] snoc.prems(2) by (simp add: accepted_ids_append)
    moreover have "\<And>x. e \<noteq> QueueAccepted n x"
      using snoc.prems(2) accepted_id [OF j] by (auto simp: accepted_ids_append accepted_ids_def)
    ultimately show ?thesis using step free by (auto split: fact.splits option.splits)
  qed
qed simp

text \<open>
  C10. No accepted input is lost: an input whose acceptance is in the journal of a live session is in its
  queue, unless the journal also says that it was handed to a run or cancelled.  The queue holds the inputs
  in the order in which they were accepted.
\<close>

theorem accepted_input_kept:
  assumes "faithful v" "session_reachable v i (Some s, j)" "live s"
  shows "(\<forall>n q. QueueAccepted n (Some q) \<in> set j \<longrightarrow> \<not> taken n j \<longrightarrow> q \<in> set (s_queue s)) \<and>
    subseq (map qe_id (s_queue s)) (accepted_ids j)"
proof -
  obtain c where c: "sound i c (s, j)" using handle_sound [OF reachable_ok [OF assms(2,1)]] by blast
  then obtain f where f: "fold_facts j empty_folded = Inr f" "wf_folded f" "agree s f"
    using assms(3) by (auto simp: sound_def tracked_def)
  have order: "fo_order f = accepted_ids j" using fold_facts_order [OF f(1)] by (simp add: empty_folded_def)
  have entries: "wf_entries (fo_accepted f) (fo_order f)" using f(2) by (simp add: wf_folded_def)
  have queue: "s_queue s = List.map_filter (fo_accepted f) (fo_order f)"
    using f(3) by (simp add: agree_def agree_data_def folded_queue_def)
  have "q \<in> set (s_queue s)" if "QueueAccepted n (Some q) \<in> set j" "\<not> taken n j" for n q
  proof -
    have "fo_accepted f n = Some q"
      using fold_accepted [OF f(1) _ that] entries order by (simp add: wf_entries_def)
    then show ?thesis using accepted_id [OF that(1)] by (force simp: queue order List.map_filter_def)
  qed
  moreover have "subseq (map qe_id (s_queue s)) (accepted_ids j)"
    using entries map_filter_subseq [of "fo_accepted f" "fo_order f"] by (simp add: queue order wf_entries_def)
  ultimately show ?thesis by blast
qed

lemma accepted_input_kept_witness:
  "\<lparr>qe_id = ''q1'', qe_kind = QueueSteer, qe_message = ex_prompt, qe_accepted = 0\<rparr> \<in> set (s_queue (fst ex_queued)) \<and>
   subseq (map qe_id (s_queue (fst ex_queued))) (accepted_ids (snd ex_queued))"
proof -
  let ?q = "\<lparr>qe_id = ''q1'', qe_kind = QueueSteer, qe_message = ex_prompt, qe_accepted = 0\<rparr>"
  have accepted: "last (snd ex_queued) = QueueAccepted ''q1'' (Some ?q)" "snd ex_queued \<noteq> []" by code_simp+
  then have entry: "QueueAccepted ''q1'' (Some ?q) \<in> set (snd ex_queued)" by (metis last_in_set)
  have "list_all (\<lambda>e. case e of QueueDrained _ \<Rightarrow> False | QueueCancelled _ _ \<Rightarrow> False | _ \<Rightarrow> True) (snd ex_queued)"
    by code_simp
  then have open_entry: "\<not> taken ''q1'' (snd ex_queued)" by (force simp: taken_def list_all_iff)
  show ?thesis
    using accepted_input_kept [OF ex_faithful ex_reachable_queued ex_live(3)] entry open_entry by blast
qed

subsection \<open>Recovery\<close>

text \<open>
  C22. Closing the process and opening it again is the identity on an idle session: recovery writes one
  entry and returns a session with the same transcript, markers, queue, usage, budget and compaction.
\<close>

theorem idle_recovery_restores:
  assumes "faithful v" "session_reachable v i (Some s, j)" "s_state s = Idle"
    and "vc_encode v (SessionRecovered ''idle'') = None"
  shows "\<exists>s'. Recover v Stored reply' new_id i scope j = (j @ [SessionRecovered ''idle''], Inr s') \<and>
    s_state s' = Idle \<and> durable s' = (durable s)\<lparr>s_cursor := Suc (length j)\<rparr>"
proof -
  obtain c where c: "sc_session_id c = i" "sound i c (s, j)" using handle_sound [OF reachable_ok [OF assms(2,1)]] by blast
  moreover have live: "live s" using assms(3) by (simp add: live_def)
  ultimately obtain f where f: "fold_facts j empty_folded = Inr f" "wf_folded f" "fo_scope f = Some c"
      "agree s f" "s_cursor s = length j" "s_id s = i" "s_scope s = c"
    by (auto simp: sound_def tracked_def)
  have cursor: "fo_cursor f = length j" using fold_facts_cursor [OF f(1)] by (simp add: empty_folded_def)
  have "s_run s = None" using f(4) assms(3) by (simp add: agree_def agree_phase_def)
  then have run: "fo_run f = None" using follows_run_None [OF f(4)] by (simp only:)
  let ?s = "(recovered_session i c f)\<lparr>s_state := Idle, s_cursor := Suc (length j)\<rparr>"
  have "Recover v Stored reply' new_id i scope j = (j @ [SessionRecovered ''idle''], Inr ?s)"
    by (rule recover_without_run [OF f(1-3) c(1) run assms(4)])
  moreover have "durable ?s = (durable s)\<lparr>s_cursor := Suc (length j)\<rparr>"
    using agree_durable [OF f(4) _ _] f(3,5-7) cursor by (simp add: durable_def)
  ultimately show ?thesis by (intro exI [of _ ?s]) simp
qed

lemma idle_recovery_restores_witness:
  "\<exists>s'. Recover ex_services Stored Stored (Inr ''x'') ''s'' ex_scope ex_journal =
       (ex_journal @ [SessionRecovered ''idle''], Inr s') \<and>
     s_state s' = Idle \<and> durable s' = (durable ex_session)\<lparr>s_cursor := Suc (length ex_journal)\<rparr>"
  by (rule idle_recovery_restores [OF ex_faithful ex_reachable])
     (simp_all add: ex_session_def blank_session_def ex_services_def)

lemma recover_running:
  assumes "recover_session v reply reply' new_id f (recovered_session i c f, j) = ((s, j'), None)" "s_state s = Running"
  shows "recoverOpenRun v reply reply' new_id ((if fo_state f = Faulted then transition Running (recovered_session i c f)
      else recovered_session i c f), j) = ((s, j'), None)"
proof -
  have idle: "s_state (fst w) \<noteq> Running" if "finishInterrupt v reply x (t, j) = (w, None)" for w x t
    using that by (auto simp: finishInterrupt_def persistFaultLocked_def commit_or_fault_def on_session_def Let_def
        split: if_splits option.splits sum.splits prod.splits)
  have finish: "s_state (fst w) \<noteq> Running" if "finishExecution v reply
      (Some \<lparr>oc_status = ExecutionCompleted, oc_report = None, oc_suspension = None\<rparr>) None (t, j) = (w, None)" for w t
    using that
    by (auto simp: finishExecution_def finish_closed_def persistFaultLocked_def commit_or_fault_def on_session_def
        isResumeValidationError_def transition_def Let_def split: if_splits option.splits sum.splits prod.splits)
  have recovered: "s_run (recovered_session i c f) = fo_run f" "s_state (recovered_session i c f) = fo_state f"
    by (simp_all add: recovered_session_def)
  have none: "s_state (fst w) = Idle" if "recover_idle v reply (t, j) = (w, None)" for w t
    using that by (auto simp: recover_idle_def on_session_def Let_def split: option.splits sum.splits prod.splits)
  define t where "t = (if fo_state f = Faulted then transition Running (recovered_session i c f)
      else recovered_session i c f)"
  have t: "s_run t = fo_run f" by (simp add: t_def transition_def recovered)
  have "\<not> (case fo_run f of None \<Rightarrow> False | Some r \<Rightarrow> fo_interrupt_run_id f = ar_id r)"
  proof
    assume "case fo_run f of None \<Rightarrow> False | Some r \<Rightarrow> fo_interrupt_run_id f = ar_id r"
    then show False using assms idle by (auto simp: recover_session_def on_session_def recovered)
  qed
  then have "(if fo_run f \<noteq> None \<and> fo_completed f then
        finishExecution v reply
          (Some \<lparr>oc_status = ExecutionCompleted, oc_report = None, oc_suspension = None\<rparr>) None (t, j)
      else if fo_run f = None then recover_idle v reply (t, j)
      else if s_state t = Suspended \<and> s_suspension t \<noteq> None then ((t, j), None)
      else recoverOpenRun v reply reply' new_id (t, j)) = ((s, j'), None)"
    using assms(1)
    by (cases "fo_state f = Faulted")
       (simp_all add: t_def recover_session_def on_session_def recovered transition_def Let_def cong: if_cong)
  then show ?thesis using assms(2) idle finish none unfolding t_def [symmetric]
    by (auto split: if_splits)
qed

text \<open>
  C4. Recovery never hands the driver a call that may have run.  When it lets a run go on, the transcript
  of the session is the journal's, followed by the drained inputs the journal never saw applied, followed
  by the repair; the transcript checker accepts it, with no open call.  And of the calls that are open
  before the repair, at the end of the journal's messages and those inputs, none had been started without a
  result: a started call without a result suspends the session for the operator instead, and is never
  answered by the repair.
\<close>

theorem recovery_never_reruns:
  assumes "fold_log j = Inr f" "fo_run f = Some r" "Recover v reply reply' new_id i scope j = (j', Inr s)"
    and "s_state s = Running" "faithful v"
  shows "\<exists>calls repair.
    s_messages s = (fo_messages f @ map qe_message (folded_unapplied f)) @ repair \<and>
    inspectTranscript (s_messages s) = Inr [] \<and>
    rawFinalFrontier (fo_messages f @ map qe_message (folded_unapplied f)) = Inr calls \<and>
    (\<forall>call \<in> set calls. mem_str (tu_id call) (ar_started r) \<longrightarrow> mem_str (tu_id call) (ar_results r))"
proof -
  obtain c where run: "recover_session v reply reply' new_id f (recovered_session i c f, j) = ((s, j'), None)"
    using assms(1,3) by (auto simp: Recover_def dropped_on_error_def split: option.splits if_splits prod.splits)
  define t where "t = (if fo_state f = Faulted then transition Running (recovered_session i c f)
      else recovered_session i c f)"
  have t: "s_run t = Some r" "s_messages t = fo_messages f" "s_recovery_inputs t = folded_unapplied f"
    by (simp_all add: t_def transition_def recovered_session_def assms(2))
  have open_run: "recoverOpenRun v reply reply' new_id (t, j) = ((s, j'), None)"
    using recover_running [OF run assms(4)] by (simp add: t_def)
  obtain u k x where inject: "inject_recovered v reply (t, j) = ((u, k), x)" by (metis surj_pair)
  with open_run have x: "x = None" by (cases x) (auto simp: recoverOpenRun_def)
  with open_run inject obtain calls where calls: "InspectFrontier (vc_clone v) (s_messages u) = Inr calls"
    by (cases "InspectFrontier (vc_clone v) (s_messages u)") (auto simp: recoverOpenRun_def)
  have u: "inject_recovered v reply (t, j) = ((u, k), None)" "InspectFrontier (vc_clone v) (s_messages u) = Inr calls"
      "(let ind = filter (\<lambda>c. pe_state c = PendingIndeterminate) (open_pending u calls) in
        if ind \<noteq> [] then (case suspend_recovered v reply' new_id calls ind (u, k) of (w, e) \<Rightarrow> (w, map_option Cause e))
        else repair_recovered v reply' (open_pending u calls) (u, k)) = ((s, j'), None)"
    using open_run inject x calls by (simp_all add: recoverOpenRun_def Let_def)
  obtain r' where injected: "s_messages u = fo_messages f @ map qe_message (folded_unapplied f)"
      "s_run u = Some r'" "ar_started r' = ar_started r" "ar_results r' = ar_results r"
    using u(1) t by (auto simp: inject_recovered_def Let_def session_messages_def
        split: if_splits option.splits sum.splits prod.splits)
  have frontier: "rawFinalFrontier (s_messages u) = Inr calls"
    using u(2) by (simp add: InspectFrontier_def split: sum.splits)
  have suspended: "s_state s = Suspended" if "suspend_recovered v reply' new_id calls ind (u, k) = ((s, j'), None)" for ind
    using that by (auto simp: suspend_recovered_def Let_def transition_def split: sum.splits option.splits prod.splits)
  have ind: "filter (\<lambda>c. pe_state c = PendingIndeterminate) (open_pending u calls) = []"
    using u(3) suspended assms(4) by (auto simp: Let_def split: if_splits prod.splits)
  then have repaired: "repair_recovered v reply' (open_pending u calls) (u, k) = ((s, j'), None)"
    using u(3) by (simp add: Let_def)
  then obtain ms where ms: "repaired_tail v \<lparr>pn_calls = open_pending u calls, pn_reason = ''''\<rparr>
      ''recovery repair rewrote committed messages'' u = Inr ms" "s_messages s = ms"
    by (auto simp: repair_recovered_def reopened_run_def transition_def Let_def
        split: sum.splits option.splits prod.splits)
  then have "inspectTranscript (s_messages s) = Inr []"
    using Process_closed [of "vc_clone v" "s_messages u"]
    by (auto simp: repaired_tail_def inspectTranscript_closed split: sum.splits if_splits)
  moreover have "s_messages s = s_messages u @ drop (length (s_messages u)) ms"
    using repaired_messages [OF assms(5) ms(1)] ms(2) by simp
  moreover have "mem_str (tu_id call) (ar_results r)"
    if "call \<in> set calls" "mem_str (tu_id call) (ar_started r)" for call
    using ind that injected by (auto simp: open_pending_def call_state_def filter_empty_conv split: if_splits)
  ultimately show ?thesis using frontier injected(1) by metis
qed

lemma recovery_never_reruns_witness:
  "\<exists>s. snd (Recover ex_services Stored Stored (Inr ''x'') ''s'' ex_scope (snd ex_asked)) = Inr s \<and>
     s_state s = Running \<and> inspectTranscript (s_messages s) = Inr []"
proof -
  have "case fold_log (snd ex_asked) of Inl _ \<Rightarrow> False | Inr f \<Rightarrow> fo_run f \<noteq> None" by code_simp
  then obtain f r where f: "fold_log (snd ex_asked) = Inr f" "fo_run f = Some r"
    by (cases "fold_log (snd ex_asked)") auto
  have "case snd (Recover ex_services Stored Stored (Inr ''x'') ''s'' ex_scope (snd ex_asked)) of
      Inl _ \<Rightarrow> False | Inr s \<Rightarrow> s_state s = Running" by code_simp
  then obtain j s where s: "Recover ex_services Stored Stored (Inr ''x'') ''s'' ex_scope (snd ex_asked) = (j, Inr s)"
      "s_state s = Running"
    by (cases "Recover ex_services Stored Stored (Inr ''x'') ''s'' ex_scope (snd ex_asked)")
       (auto split: sum.splits)
  then show ?thesis using recovery_never_reruns [OF f s ex_faithful] by simp
qed

subsection \<open>An interrupt that is in the journal\<close>

text \<open>What a journal is given while a run stays open: anything, except the close of the run, the opening
  of another one, and an accepted interrupt of another one.\<close>

definition goes_on :: "string \<Rightarrow> fact \<Rightarrow> bool" where
  "goes_on run e =
     (case e of
        RunOpened _ \<Rightarrow> False
      | RunClosed _ _ _ \<Rightarrow> False
      | CommandAccepted c \<Rightarrow> ca_kind c = ''interrupt'' \<and> ca_rejection c = '''' \<longrightarrow> ca_run_id c = run
      | _ \<Rightarrow> True)"

definition asked :: "string \<Rightarrow> folded \<Rightarrow> bool" where
  "asked run f \<longleftrightarrow> fo_interrupt_run_id f = run \<and> (\<exists>r. fo_run f = Some r \<and> ar_id r = run)"

lemma asked_on_run: "(\<And>r. ar_id (g r) = ar_id r) \<Longrightarrow> asked run (on_run g f) = asked run f"
  by (auto simp: asked_def on_run_def)

lemma apply_event_asked: "apply_event e f = Inr f' \<Longrightarrow> asked run f \<Longrightarrow> asked run f'"
  by (cases "rn_payload e")
    (auto simp: apply_event_def asked_def on_run_def add_messages_def split: if_splits option.splits)

lemma fold_fact_asked:
  assumes "fold_fact e f = Inr f'" "goes_on run e" "asked run f"
  shows "asked run f'"
proof (cases e)
  case (RunEvent r)
  then show ?thesis using assms apply_event_asked [of r "f\<lparr>fo_cursor := Suc (fo_cursor f)\<rparr>" f' run]
    by (simp add: fold_fact_def asked_def)
next
  case (QueueAccepted i q)
  then show ?thesis using assms by (cases q) (auto simp: fold_fact_def asked_def)
qed (use assms in \<open>auto simp: fold_fact_def goes_on_def asked_def on_run_def open_run_def new_run_def
    add_messages_def add_message_payload_def add_system_def Let_def split: if_splits option.splits\<close>)

lemma fold_facts_asked:
  "fold_facts es f = Inr f' \<Longrightarrow> list_all (goes_on run) es \<Longrightarrow> asked run f \<Longrightarrow> asked run f'"
  by (induction es arbitrary: f) (auto split: sum.splits intro: fold_fact_asked)

lemma finish_fold_asked [simp]: "asked run (finish_fold f) = asked run f"
  by (auto simp: finish_fold_def asked_def split: option.split)

lemma finish_interrupt_closes:
  assumes "finishInterrupt v reply x (s, j) = ((s', j'), None)" "s_run s \<noteq> None"
  shows "s_state s' = Idle \<and> s_run s' = None \<and>
    (\<exists>facts. j' = j @ facts @ [RunClosed (run_id s) ExecutionInterrupted (kind_text CtxCanceled)])"
  using assms
  by (auto simp: finishInterrupt_def persistFaultLocked_def commit_or_fault_def on_session_def interrupted_def
      transition_def Let_def journal_append_def
      split: if_splits option.splits sum.splits prod.splits reply.splits)

lemma recovery_settles_asked:
  assumes "fold_log j = Inr f" "asked run f" "Recover v reply reply' new_id i scope j = (j', Inr s)"
  shows "s_state s = Idle \<and> s_run s = None \<and>
    (\<exists>facts. j' = j @ facts @ [RunClosed run ExecutionInterrupted (kind_text CtxCanceled)])"
proof -
  obtain x where rec: "recover_session v reply reply' new_id f (recovered_session i x f, j) = ((s, j'), None)"
    using assms(1,3) by (auto simp: Recover_def dropped_on_error_def split: option.splits if_splits prod.splits)
  obtain r where r: "fo_run f = Some r" "fo_interrupt_run_id f = ar_id r" "ar_id r = run"
    using assms(2) by (auto simp: asked_def)
  define t where "t = transition Interrupting (update_run (\<lambda>r. r\<lparr>ar_interrupted := True\<rparr>) (recovered_session i x f))"
  have "s_run t \<noteq> None" "run_id t = run"
    using r by (simp_all add: t_def transition_def update_run_def recovered_session_def run_id_def)
  moreover have "finishInterrupt v reply
      (Some \<lparr>oc_status = ExecutionInterrupted, oc_report = None, oc_suspension = None\<rparr>) (t, j) = ((s, j'), None)"
    using rec r by (simp add: recover_session_def recovered_session_def on_session_def t_def)
  ultimately show ?thesis using finish_interrupt_closes by metis
qed

text \<open>
  C11. An accepted interrupt survives a crash.  Once the interrupt of a live run is in the journal, the
  still running driver may go on writing, as long as the run stays open; when the process is then lost, at
  any point, recovering settles that run: a recovery that succeeds writes the close of the run as
  interrupted and returns an idle session with no run, whatever was open in the run, and never one that
  drives it on.
\<close>

theorem accepted_interrupt_survives:
  assumes "faithful v" "session_reachable v i (Some s, j)" "live s"
    and "requestInterruptCommand v ctx Stored expected (Some command) (s, j) = ((s1, j1), Inr run)"
    and "ca_kind command = ''interrupt''" "ca_rejection command = ''''"
    and "list_all (goes_on run) later"
    and "Recover v reply reply' new_id i scope (j1 @ later) = (j2, Inr s2)"
  shows "s_state s2 = Idle \<and> s_run s2 = None \<and>
    (\<exists>facts. j2 = (j1 @ later) @ facts @ [RunClosed run ExecutionInterrupted (kind_text CtxCanceled)])"
proof -
  obtain c where c: "sc_session_id c = i" "sound i c (s, j)" using handle_sound [OF reachable_ok [OF assms(2,1)]] by blast
  obtain f where f: "fold_facts j empty_folded = Inr f" "wf_folded f" "fo_scope f = Some c"
      "agree s f" "s_cursor s = length j" "s_id s = i" "s_scope s = c"
    using assms(3) c(2) by (auto simp: sound_def tracked_def)
  let ?e = "CommandAccepted (command\<lparr>ca_run_id := run_id s\<rparr>)"
  have j1: "j1 = j @ [?e]" and idle: "s_state s \<noteq> Idle" and run: "run = run_id s"
    using assms(3,4) f(5)
    by (auto simp: requestInterruptCommand_def appendAcceptanceLocked_def journal_append_def live_def on_session_def Let_def
        split: option.splits if_splits)
  have "s_run s \<noteq> None" using idle f(4) by (simp add: agree_def agree_phase_def)
  then obtain r where r: "s_run s = Some r" by blast
  obtain r' where r': "fo_run f = Some r'" "ar_id r' = run_id s"
    using f(4) r by (cases "fo_run f") (auto simp: agree_def agree_data_def durable_run_eq run_id_def)
  let ?f = "f\<lparr>fo_cursor := Suc (fo_cursor f), fo_interrupt_run_id := run_id s\<rparr>"
  have fold: "fold_facts j1 empty_folded = Inr ?f"
    using f(1) assms(5,6) by (simp add: j1 fold_facts_append fold_fact_def)
  obtain f2 where f2: "fold_log (j1 @ later) = Inr f2"
    using assms(8) by (cases "fold_log (j1 @ later)") (auto simp: Recover_def)
  then obtain f1 where f1: "fold_facts later ?f = Inr f1" "f2 = finish_fold f1"
    using fold by (auto simp: fold_log_def fold_facts_append split: sum.splits if_splits)
  have "asked run ?f" using r' by (simp add: asked_def run)
  then have "asked run f2" using fold_facts_asked [OF f1(1) assms(7)] by (simp add: f1(2))
  from recovery_settles_asked [OF f2 this assms(8)] show ?thesis .
qed

definition ex_command :: command_payload where
  "ex_command = \<lparr>ca_command_id = ''k'', ca_kind = ''interrupt'', ca_idempotency_key = '''', ca_digest = '''',
     ca_run_id = '''', ca_queue_id = '''', ca_rejection = ''''\<rparr>"

definition ex_interrupted :: "world \<times> string sresult" where
  "ex_interrupted = requestInterruptCommand ex_services None Stored ''r1'' (Some ex_command) ex_queued"

text \<open>The driver starts the call it was about to start, and is lost with it.\<close>

definition ex_later :: "fact list" where
  "ex_later = [RunEvent \<lparr>rn_turn = 1, rn_payload = PToolStarted ex_call 0, rn_session_used = None\<rparr>]"

lemma accepted_interrupt_survives_witness:
  "\<exists>s. snd (Recover ex_services Stored Stored (Inr ''x'') ''s'' ex_scope
       (snd (fst ex_interrupted) @ ex_later)) = Inr s \<and> s_state s = Idle \<and> s_run s = None"
proof -
  have accepted: "case snd ex_interrupted of Inl _ \<Rightarrow> False | Inr _ \<Rightarrow> True" by code_simp
  obtain s1 j1 y where y: "ex_interrupted = ((s1, j1), y)" by (metis surj_pair)
  have "case y of Inl _ \<Rightarrow> False | Inr _ \<Rightarrow> True" using accepted unfolding y snd_conv .
  with y obtain run where i: "ex_interrupted = ((s1, j1), Inr run)" by (cases y) auto
  have "case snd (Recover ex_services Stored Stored (Inr ''x'') ''s'' ex_scope
      (snd (fst ex_interrupted) @ ex_later)) of Inl _ \<Rightarrow> False | Inr s \<Rightarrow> True" by code_simp
  then obtain j2 s2 where s: "Recover ex_services Stored Stored (Inr ''x'') ''s'' ex_scope (j1 @ ex_later) = (j2, Inr s2)"
    by (cases "Recover ex_services Stored Stored (Inr ''x'') ''s'' ex_scope (j1 @ ex_later)")
       (auto simp: i split: sum.splits)
  have later: "list_all (goes_on run) ex_later" by (simp add: ex_later_def goes_on_def)
  have "requestInterruptCommand ex_services None Stored ''r1'' (Some ex_command) (fst ex_queued, snd ex_queued) =
      ((s1, j1), Inr run)"
    using i by (simp add: ex_interrupted_def)
  from accepted_interrupt_survives [OF ex_faithful ex_reachable_queued ex_live(3) this _ _ later s]
  show ?thesis using s by (simp add: ex_command_def i)
qed

subsection \<open>An input that comes back in another run\<close>

text \<open>
  A steering input is drained for run \<^verbatim>\<open>a\<close>, which is then interrupted before the driver injects it: the
  closing of the run does not settle the drained input.  If a later run \<^verbatim>\<open>b\<close> is open when the process
  is lost, the recovery of \<^verbatim>\<open>b\<close> is given the input of \<^verbatim>\<open>a\<close> to inject.
\<close>

definition stale_entry :: queue_entry where
  "stale_entry = \<lparr>qe_id = ''q1'', qe_kind = QueueSteer, qe_message = ex_prompt, qe_accepted = 0\<rparr>"

definition stale_journal :: "fact list" where
  "stale_journal =
     start_facts ''a'' None '''' [] ex_prompt None @
     [QueueAccepted ''q1'' (Some stale_entry), QueueDrained ''q1'',
      InterruptMarker interrupt_text, RunClosed ''a'' ExecutionInterrupted (kind_text CtxCanceled)] @
     start_facts ''b'' None '''' [] ex_prompt None"

lemma stale_drained_input:
  "(case fold_log (ex_journal @ stale_journal) of Inl _ \<Rightarrow> False
    | Inr f \<Rightarrow> map_option ar_id (fo_run f) = Some ''b'' \<and> folded_unapplied f = [stale_entry])"
  by code_simp

end
