(* ===== verification/Session_Store.thy ===== *)
theory Session_Store
  imports Session_State Journal_Store
begin

text \<open>
  The journal as the session sees it and the store that provides it.  The locale is the contract of
  \<^verbatim>\<open>Journal.Append\<close> (harness/store/store.go): a success adds the whole batch behind the exact last
  cursor and returns the new one, an error leaves the entries.  The in-memory repository satisfies it, so
  each of its answers is one that \<open>journal_append\<close> allows.  A store whose answer can be lost has the third
  reply as well.
\<close>

locale session_journal =
  fixes entries :: "'s \<Rightarrow> 'e list"
    and last_at :: "'s \<Rightarrow> 'c"
    and append :: "'c \<Rightarrow> 'e list \<Rightarrow> 's \<Rightarrow> 's \<times> 'c result"
  assumes stored: "append c es s = (s', Inr c') \<Longrightarrow>
      c = last_at s \<and> entries s' = entries s @ es \<and> c' = last_at s'"
    and refused: "append c es s = (s', Inl e) \<Longrightarrow> entries s' = entries s"
begin

lemma stale_refused: "c \<noteq> last_at s \<Longrightarrow> \<exists>e. snd (append c es s) = Inl e"
  using stored by (cases "append c es s"; cases "snd (append c es s)") auto

lemma answered:
  assumes "append c es s = (s', r)"
  shows "\<exists>reply. journal_append reply (length (entries s)) (map decode es) (map decode (entries s)) =
    (map decode (entries s'), case r of Inl e \<Rightarrow> Inl e | Inr _ \<Rightarrow> Inr (length (entries s')))"
proof (cases r)
  case (Inl e)
  then show ?thesis using refused assms
    by (intro exI [of _ "Refused e"]) (simp add: journal_append_def)
next
  case (Inr c')
  then show ?thesis using stored assms
    by (intro exI [of _ Stored]) (simp add: journal_append_def)
qed

end

subsection \<open>The in-memory store provides it\<close>

definition entry_content :: "entry \<Rightarrow> pending_entry" where
  "entry_content e = \<lparr>pq_kind = je_kind e, pq_payload = je_payload e, pq_durability = je_durability e\<rparr>"

definition handle_entries :: "nat \<Rightarrow> repository \<Rightarrow> pending_entry list" where
  "handle_entries j r = map entry_content (session_entries (jn_session (mr_journals r ! j)) r)"

definition handle_tail :: "nat \<Rightarrow> repository \<Rightarrow> cursor" where
  "handle_tail j r = tail (session_entries (jn_session (mr_journals r ! j)) r)"

definition handle_append ::
  "(nat \<Rightarrow> 8 word list result) \<Rightarrow> (nat \<Rightarrow> 64 word) \<Rightarrow> go_error option \<Rightarrow> nat \<Rightarrow> cursor \<Rightarrow>
     pending_entry list \<Rightarrow> repository \<Rightarrow> repository \<times> cursor result" where
  "handle_append rand millis ctx j c pending r =
     (case Append rand millis ctx j c pending r of
        (r', Inl e) \<Rightarrow> (r', Inl e) | (r', Inr k) \<Rightarrow> (r', Inr (jc_cursor k)))"

lemma sequence_from_content:
  "sequence_from i rand millis c pending = Inr new \<Longrightarrow> map entry_content new = pending"
proof (induction pending arbitrary: i c new)
  case (Cons item rest)
  then show ?case
    by (cases item) (auto simp: entry_content_def Let_def split: if_splits durability.splits sum.splits)
qed simp

lemma Append_stored:
  assumes "Append rand millis ctx j c pending r = (r', Inr k)"
  shows "c = handle_tail j r \<and> handle_entries j r' = handle_entries j r @ pending \<and> jc_cursor k = handle_tail j r'"
proof -
  obtain new where "c = handle_tail j r" "sequence_entries rand millis c pending = Inr new"
    "r' = r\<lparr>mr_sessions := (mr_sessions r)(jn_session (mr_journals r ! j) \<mapsto>
       session_entries (jn_session (mr_journals r ! j)) r @ new)\<rparr>" "k = NewCommit new c"
    using assms by (auto simp: Append_def handle_tail_def Let_def split: option.splits sum.splits if_splits)
  then show ?thesis using sequence_from_content [of 0 rand millis c pending new]
    by (auto simp: handle_entries_def handle_tail_def session_entries_def sequence_entries_def NewCommit_def tail_def)
qed

lemma Append_refused: "Append rand millis ctx j c pending r = (r', Inl e) \<Longrightarrow> r' = r"
  by (auto simp: Append_def Let_def split: option.splits sum.splits if_splits)

interpretation memory_journal: session_journal "handle_entries j" "handle_tail j" "handle_append rand millis ctx j"
  by unfold_locales
     (auto simp: handle_append_def split: prod.splits sum.splits dest: Append_stored Append_refused)

text \<open>Every answer of the in-memory store to the session is an answer of the session's journal.\<close>

lemma memory_store_answers:
  assumes "handle_append rand millis ctx j c pending r = (r', x)"
  shows "\<exists>reply. journal_append reply (length (handle_entries j r)) (map decode pending)
      (map decode (handle_entries j r)) =
    (map decode (handle_entries j r'), case x of Inl e \<Rightarrow> Inl e | Inr _ \<Rightarrow> Inr (length (handle_entries j r')))"
  using assms by (rule memory_journal.answered)

end
