(* ===== verification/Loop_View.thy ===== *)
theory Loop_View
  imports Session_Grow Delivery
begin

text \<open>
  The view of a session the actor protocol talks to (harness/session/loop_view.go, loop_acceptance.go):
  commands are accepted in the journal of the session, a command with an idempotency key at most once,
  and its receipt is found again after a restart.

  A dispatch has three parts, between which other goroutines run: it claims its key, has the session accept
  the command in the session's critical section, and remembers the receipt and releases the claim.  Each
  part is a definition; \<open>loop_Dispatch\<close> is their composition.  The goroutines that drive an accepted run are
  steps of the session.  JSON, SHA-256 and the entry IDs of the journal are arguments.
\<close>

subsection \<open>The view\<close>

record view_env =
  ve_services :: services
  ve_json_valid :: "string \<Rightarrow> bool"
  ve_unmarshal :: "string \<Rightarrow> content_value result"
  ve_digest :: "session_command \<Rightarrow> string result"
  ve_token :: "nat \<Rightarrow> string"

record loop_view =
  lv_closed :: bool
  lv_caps :: "string list"
  lv_run_commands :: "string \<rightharpoonup> string"
  lv_queue_commands :: "string \<rightharpoonup> string"
  lv_resolution_commands :: "nat \<rightharpoonup> string"
  lv_idempotency :: "string \<rightharpoonup> string \<times> receipt"
  lv_claims :: "string list"

definition standard_caps :: "bool \<Rightarrow> string list" where
  "standard_caps structured =
     [''acceptance.durable'', ''stream.replay'', ''stream.preview'', ''input.steer'', ''input.follow_up'',
      ''input.next_turn'', ''run.interrupt'', ''run.suspension.resolve'', ''tools.detailed'',
      ''dispatch.idempotent''] @ (if structured then [''output.structured''] else [])"

definition empty_view :: "string list \<Rightarrow> loop_view" where
  "empty_view caps =
     \<lparr>lv_closed = False, lv_caps = caps, lv_run_commands = Map.empty, lv_queue_commands = Map.empty,
      lv_resolution_commands = Map.empty, lv_idempotency = Map.empty, lv_claims = []\<rparr>"

subsection \<open>Errors of the protocol\<close>

text \<open>\<^verbatim>\<open>errors.Is\<close> on an error of the session, against a sentinel of its package or of another.\<close>

fun session_error_is :: "(session_error \<Rightarrow> bool) \<Rightarrow> session_error \<Rightarrow> bool" where
  "session_error_is p (FaultError i e) = (p (FaultError i e) \<or> session_error_is p e)"
| "session_error_is p (BudgetExceeded e) = (p (BudgetExceeded e) \<or> session_error_is p e)"
| "session_error_is p e = p e"

text \<open>An error of the session as a Go error, with the causes that errors.Is can find.\<close>

fun exported_error :: "session_error \<Rightarrow> go_error" where
  "exported_error (Cause e) = e"
| "exported_error (FaultError i e) = Wrapped (session_error_text (FaultError i e)) (exported_error e)"
| "exported_error (BudgetExceeded e) = Wrapped (session_error_text (BudgetExceeded e)) (exported_error e)"
| "exported_error (InvalidResume s) = wrap_kind ErrInvalidResumeRequest s"
| "exported_error e = Plain (session_error_text e)"

definition cause_is :: "err_kind \<Rightarrow> session_error \<Rightarrow> bool" where
  "cause_is k e = (case e of Cause x \<Rightarrow> errors_is k x | _ \<Rightarrow> False)"

definition sentinel_pairs :: "((session_error \<Rightarrow> bool) \<times> err_kind) list" where
  "sentinel_pairs =
     [(\<lambda>e. e = SessionBusy, ErrSessionBusy),
      (\<lambda>e. e = RunClosing, ErrLoopConflict),
      (\<lambda>e. e = NotRunning, ErrNotRunning),
      (\<lambda>e. e = SessionSuspended, ErrSuspended),
      (\<lambda>e. case e of FaultError _ _ \<Rightarrow> True | _ \<Rightarrow> False, ErrSessionFaulted),
      (\<lambda>e. e = SessionClosed, ErrSessionClosed),
      (cause_is ErrSessionOpen, ErrLoopOpen),
      (\<lambda>e. case e of StaleRunTarget _ \<Rightarrow> True | _ \<Rightarrow> False, ErrStaleRun),
      (\<lambda>e. e = InvalidMessage, ErrInvalidCommand),
      (\<lambda>e. (case e of InvalidResume _ \<Rightarrow> True | _ \<Rightarrow> False) \<or> cause_is ErrInvalidResumeRequest e, ErrInvalidCommand)]"

definition mapLoopError :: "session_error \<Rightarrow> go_error" where
  "mapLoopError e =
     (case find (\<lambda>(p, _). session_error_is p e) sentinel_pairs of
        None \<Rightarrow> exported_error e
      | Some (_, k) \<Rightarrow>
          Wrapped (kind_text k @ '': '' @ session_error_text e) (Joined (Sentinel k) (exported_error e)))"

definition loopClosedError :: go_error where
  "loopClosedError =
     Wrapped (kind_text ErrSessionClosed @ '': '' @ session_error_text SessionClosed)
       (Joined (Sentinel ErrSessionClosed) (exported_error SessionClosed))"

definition availability :: "loop_view \<Rightarrow> session \<Rightarrow> go_error option" where
  "availability view s =
     (if lv_closed view then Some loopClosedError
      else map_option (\<lambda>e. mapLoopError (FaultError (s_id s) e)) (s_acceptance_fault s))"

subsection \<open>Receipts\<close>

definition loopPosition :: "view_env \<Rightarrow> nat \<Rightarrow> position" where
  "loopPosition env n = \<lparr>ps_sequence = of_nat n, ps_token = ve_token env n\<rparr>"

definition rejection_text :: "rejection \<Rightarrow> string" where
  "rejection_text r =
     (case r of RejectionNone \<Rightarrow> '''' | RejectionStaleRun \<Rightarrow> ''stale_run'' | RejectionNotRunning \<Rightarrow> ''not_running''
      | RejectionUnsupported \<Rightarrow> ''unsupported'' | RejectionInvalidCommand \<Rightarrow> ''invalid_command'' | RejectionOther s \<Rightarrow> s)"

definition rejection_of :: "string \<Rightarrow> rejection" where
  "rejection_of s =
     (if s = '''' then RejectionNone else if s = ''stale_run'' then RejectionStaleRun
      else if s = ''not_running'' then RejectionNotRunning else if s = ''unsupported'' then RejectionUnsupported
      else if s = ''invalid_command'' then RejectionInvalidCommand else RejectionOther s)"

text \<open>The receipt a journaled acceptance stands for.\<close>

definition accepted_receipt :: "view_env \<Rightarrow> string \<Rightarrow> nat \<Rightarrow> command_payload \<Rightarrow> receipt" where
  "accepted_receipt env session seq p =
     \<lparr>rp_command_id = ca_command_id p, rp_session_id = session, rp_run_id = ca_run_id p,
      rp_queue_id = ca_queue_id p, rp_position = loopPosition env seq, rp_guarantee = AcceptanceDurable,
      rp_rejection = rejection_of (ca_rejection p)\<rparr>"

subsection \<open>Restoring acceptances\<close>

definition remember_restored :: "command_payload \<Rightarrow> receipt \<Rightarrow> nat \<Rightarrow> loop_view \<Rightarrow> loop_view" where
  "remember_restored p r last_resolution view =
     (let view = view\<lparr>lv_idempotency := (lv_idempotency view)(ca_idempotency_key p \<mapsto> (ca_digest p, r))\<rparr> in
      if ca_rejection p \<noteq> '''' then view
      else if ca_kind p = ''start'' then
        view\<lparr>lv_run_commands := (lv_run_commands view)(ca_run_id p \<mapsto> rp_command_id r)\<rparr>
      else if ca_kind p = ''steer'' \<or> ca_kind p = ''follow_up'' \<or> ca_kind p = ''next_turn'' then
        view\<lparr>lv_queue_commands := (lv_queue_commands view)(ca_queue_id p \<mapsto> rp_command_id r)\<rparr>
      else if ca_kind p = ''resolve'' then
        view\<lparr>lv_run_commands := (if lv_run_commands view (ca_run_id p) = None
               then (lv_run_commands view)(ca_run_id p \<mapsto> rp_command_id r) else lv_run_commands view),
             lv_resolution_commands := (if last_resolution \<noteq> 0
               then (lv_resolution_commands view)(last_resolution \<mapsto> rp_command_id r)
               else lv_resolution_commands view)\<rparr>
      else view)"

definition restore_one :: "view_env \<Rightarrow> string \<Rightarrow> nat \<Rightarrow> nat \<Rightarrow> command_payload \<Rightarrow> loop_view \<Rightarrow> loop_view result" where
  "restore_one env session seq last_resolution p view =
     (if ca_command_id p = '''' \<or> ca_idempotency_key p = '''' \<or> ca_digest p = '''' then
        Inl (Plain (''invalid durable command acceptance at sequence '' @ show_nat seq))
      else if ca_rejection p \<noteq> '''' \<and>
        (\<not> rejection_valid (rejection_of (ca_rejection p)) \<or> ca_run_id p \<noteq> '''' \<or> ca_queue_id p \<noteq> '''') then
        Inl (Plain (''invalid durable command rejection at sequence '' @ show_nat seq))
      else
        let r = accepted_receipt env session seq p in
        (case lv_idempotency view (ca_idempotency_key p) of
           Some (digest, previous) \<Rightarrow>
             if digest \<noteq> ca_digest p \<or> previous \<noteq> r then
               Inl (Plain (''conflicting durable idempotency key '' @ quote (ca_idempotency_key p)))
             else Inr view
         | None \<Rightarrow> Inr (remember_restored p r last_resolution view)))"

fun restore_from :: "view_env \<Rightarrow> string \<Rightarrow> nat \<Rightarrow> nat \<Rightarrow> fact list \<Rightarrow> loop_view \<Rightarrow> loop_view result" where
  "restore_from env session seq last_resolution [] view = Inr view"
| "restore_from env session seq last_resolution (e # es) view =
     (case e of
        ResolutionAccepted _ _ \<Rightarrow> restore_from env session (Suc seq) seq es view
      | CommandAccepted p \<Rightarrow>
          (case restore_one env session seq last_resolution p view of
             Inl x \<Rightarrow> Inl x
           | Inr view \<Rightarrow> restore_from env session (Suc seq) last_resolution es view)
      | BrokenFact kind \<Rightarrow>
          if kind = ''sessionloop.command.accepted'' then Inl (Plain (''decode '' @ kind @ '' entry''))
          else restore_from env session (Suc seq) last_resolution es view
      | _ \<Rightarrow> restore_from env session (Suc seq) last_resolution es view)"

definition restoreCommandAcceptances :: "view_env \<Rightarrow> session \<Rightarrow> fact list \<Rightarrow> loop_view \<Rightarrow> loop_view result" where
  "restoreCommandAcceptances env s j view = restore_from env (s_id s) 1 0 j view"

definition NewLoopView :: "view_env \<Rightarrow> string list \<Rightarrow> session \<Rightarrow> fact list \<Rightarrow> loop_view result" where
  "NewLoopView env caps s j =
     (case availability (empty_view caps) s of
        Some e \<Rightarrow> Inl e
      | None \<Rightarrow>
          if Supports caps ''dispatch.idempotent'' then restoreCommandAcceptances env s j (empty_view caps)
          else Inr (empty_view caps))"

subsection \<open>Inputs\<close>

text \<open>Only text blocks become parts of the user message.\<close>

fun translate_blocks :: "input_block list \<Rightarrow> part list result" where
  "translate_blocks [] = Inr []"
| "translate_blocks (b # bs) =
     (if ib_kind b \<noteq> InputBlockText then
        Inl (wrap_cause (input_block_kind_text (ib_kind b) @ '' input blocks are not supported by this host'')
          (Sentinel ErrUnsupported))
      else (case translate_blocks bs of
              Inl e \<Rightarrow> Inl e
            | Inr ps \<Rightarrow> Inr ((zero_part ContentText)\<lparr>p_text := ib_text b\<rparr> # ps)))"

definition translateInputToMessage :: "view_env \<Rightarrow> session_input \<Rightarrow> message result" where
  "translateInputToMessage env i =
     (case ValidateInput (ve_json_valid env) i of
        Some e \<Rightarrow> Inl e
      | None \<Rightarrow>
          (case translate_blocks (si_blocks i) of
             Inl e \<Rightarrow> Inl e
           | Inr ps \<Rightarrow> Inr \<lparr>m_role = RoleUser, m_content = ps\<rparr>))"

definition input_message :: "view_env \<Rightarrow> session_command \<Rightarrow> message result" where
  "input_message env c =
     (case sk_input c of None \<Rightarrow> Inl (Plain ''nil input'') | Some i \<Rightarrow> translateInputToMessage env i)"

definition decision_resolution :: "view_env \<Rightarrow> resolution_decision \<Rightarrow> tool_resolution result" where
  "decision_resolution env d =
     (let r = \<lparr>tn_call_id = xd_id d, tn_action = ResolutionInvalid, tn_override_args = None, tn_result = CNil,
            tn_reason = xd_reason d\<rparr> in
      case xd_action d of
        Session_Commands.ResolutionApprove \<Rightarrow> Inr (r\<lparr>tn_action := Resume_Planner.ResolutionApprove\<rparr>)
      | Session_Commands.ResolutionDeny \<Rightarrow> Inr (r\<lparr>tn_action := Resume_Planner.ResolutionDeny\<rparr>)
      | Session_Commands.ResolutionExternalResult \<Rightarrow>
          let r = r\<lparr>tn_action := Resume_Planner.ResolutionExternalResult\<rparr> in
          if xd_data d = '''' then Inr r
          else (case ve_unmarshal env (xd_data d) of
                  Inl e \<Rightarrow> Inl (invalid_command (''resolution decision '' @ quote (xd_id d) @ '' data''))
                | Inr x \<Rightarrow> Inr (r\<lparr>tn_result := x\<rparr>))
      | Session_Commands.ResolutionOther _ \<Rightarrow> Inr r)"

fun decision_resolutions :: "view_env \<Rightarrow> resolution_decision list \<Rightarrow> tool_resolution list result" where
  "decision_resolutions env [] = Inr []"
| "decision_resolutions env (d # ds) =
     (case decision_resolution env d of
        Inl e \<Rightarrow> Inl e
      | Inr r \<Rightarrow> (case decision_resolutions env ds of Inl e \<Rightarrow> Inl e | Inr rs \<Rightarrow> Inr (r # rs)))"

definition loopResumeRequest :: "view_env \<Rightarrow> session_command \<Rightarrow> resume_request result" where
  "loopResumeRequest env c =
     (case sk_resolution c of
        None \<Rightarrow> Inl (Plain ''nil resolution'')
      | Some x \<Rightarrow>
          (case decision_resolutions env (rx_decisions x) of
             Inl e \<Rightarrow> Inl e
           | Inr rs \<Rightarrow>
               let request = \<lparr>rq_suspension_id = rx_suspension_id x, rq_resolutions = rs, rq_prompt = None\<rparr> in
               if sk_input c = None then Inr request
               else (case input_message env c of
                       Inl e \<Rightarrow> Inl e
                     | Inr m \<Rightarrow> Inr (request\<lparr>rq_prompt := Some m\<rparr>))))"

subsection \<open>Claims\<close>

text \<open>The identity and the key of a command do not count for its digest.\<close>

definition loopCommandDigest :: "view_env \<Rightarrow> session_command \<Rightarrow> string result" where
  "loopCommandDigest env c =
     (case ve_digest env (c\<lparr>sk_id := '''', sk_idempotency_key := ''''\<rparr>) of
        Inl e \<Rightarrow> Inl (wrap_cause ''encode command digest'' e)
      | Inr d \<Rightarrow> Inr d)"

definition commandAcceptance :: "session_command \<Rightarrow> string \<Rightarrow> string \<Rightarrow> command_payload option" where
  "commandAcceptance c i digest =
     (if sk_idempotency_key c = '''' then None
      else Some \<lparr>ca_command_id = i, ca_kind = command_kind_text (sk_kind c),
        ca_idempotency_key = sk_idempotency_key c, ca_digest = digest, ca_run_id = '''', ca_queue_id = '''',
        ca_rejection = ''''\<rparr>)"

text \<open>One round of the loop: \<open>ClaimWaits\<close> is the wait for the dispatch that holds the key.\<close>

datatype claim = Claimed | Replayed receipt | ClaimWaits | ClaimFails go_error

definition claimIdempotencyKey :: "string \<Rightarrow> string \<Rightarrow> session \<Rightarrow> loop_view \<Rightarrow> claim \<times> loop_view" where
  "claimIdempotencyKey key digest s view =
     (case availability view s of
        Some e \<Rightarrow> (ClaimFails e, view)
      | None \<Rightarrow>
          (case lv_idempotency view key of
             Some (accepted, r) \<Rightarrow>
               if accepted \<noteq> digest then
                 (ClaimFails (wrap_cause (''idempotency key '' @ quote key @ '' was accepted for a different command'')
                    (Sentinel ErrCommandConflict)), view)
               else (Replayed r, view)
           | None \<Rightarrow>
               if key \<in> set (lv_claims view) then (ClaimWaits, view)
               else (Claimed, view\<lparr>lv_claims := key # lv_claims view\<rparr>)))"

definition releaseIdempotencyClaim :: "string \<Rightarrow> loop_view \<Rightarrow> loop_view" where
  "releaseIdempotencyClaim key view = view\<lparr>lv_claims := removeAll key (lv_claims view)\<rparr>"

definition rememberCommandAcceptance :: "command_payload option \<Rightarrow> receipt \<Rightarrow> loop_view \<Rightarrow> loop_view" where
  "rememberCommandAcceptance marker r view =
     (case marker of
        None \<Rightarrow> view
      | Some p \<Rightarrow> view\<lparr>lv_idempotency := (lv_idempotency view)(ca_idempotency_key p \<mapsto> (ca_digest p, r))\<rparr>)"

end
