(* ===== verification/Loop_Dispatch.thy ===== *)
theory Loop_Dispatch
  imports Loop_View
begin

text \<open>
  Dispatch, Acceptance and Reject of the session view (harness/session/loop_view.go, loop_acceptance.go),
  and its life over time: dispatches in flight, each holding its key, between which the goroutines of the
  session take their steps, the process is lost, the journal recovered and the view built again.
\<close>

subsection \<open>The parts of a dispatch\<close>

text \<open>What the environment supplies to one dispatch.\<close>

record dispatch_args =
  da_ctx :: "go_error option"
  da_reply :: reply
  da_clock :: int
  da_command_id :: "string result"
  da_new_id :: "string result"
  da_instructions :: "string result"

text \<open>A dispatch that was let in: with a reason it records a rejection.\<close>

record flight =
  fl_command :: session_command
  fl_id :: string
  fl_marker :: "command_payload option"
  fl_reason :: "rejection option"

datatype begun = Answered "receipt result" | Waits | Begun flight

definition begin_claimed :: "session_command \<Rightarrow> string \<Rightarrow> string \<Rightarrow> rejection option \<Rightarrow> claim \<times> loop_view \<Rightarrow> begun \<times> loop_view" where
  "begin_claimed c i digest reason x =
     ((case fst x of
         ClaimFails e \<Rightarrow> Answered (Inl e)
       | Replayed r \<Rightarrow>
           if reason \<noteq> None \<and> rp_command_id r \<noteq> sk_id c then Answered (Inl (Sentinel ErrCommandConflict))
           else Answered (Inr r)
       | ClaimWaits \<Rightarrow> Waits
       | Claimed \<Rightarrow> Begun \<lparr>fl_command = c, fl_id = i, fl_marker =
           map_option (\<lambda>p. p\<lparr>ca_rejection := (case reason of None \<Rightarrow> '''' | Some r \<Rightarrow> rejection_text r)\<rparr>)
             (commandAcceptance c i digest), fl_reason = reason\<rparr>), snd x)"

definition dispatch_begin :: "view_env \<Rightarrow> dispatch_args \<Rightarrow> session_command \<Rightarrow> loop_view \<Rightarrow> session \<Rightarrow> begun \<times> loop_view" where
  "dispatch_begin env a c view s =
     (case ValidateCommand (ve_json_valid env) c (lv_caps view) of
        Some e \<Rightarrow> (Answered (Inl e), view)
      | None \<Rightarrow>
      (case availability view s of
         Some e \<Rightarrow> (Answered (Inl e), view)
       | None \<Rightarrow>
       (case (if sk_id c = '''' then da_command_id a else Inr (sk_id c)) of
          Inl e \<Rightarrow> (Answered (Inl e), view)
        | Inr i \<Rightarrow>
        (case loopCommandDigest env c of
           Inl e \<Rightarrow> (Answered (Inl e), view)
         | Inr digest \<Rightarrow>
             begin_claimed c i digest None
               (if sk_idempotency_key c = '''' then (Claimed, view)
                else claimIdempotencyKey (sk_idempotency_key c) digest s view)))))"

definition reject_begin ::
  "view_env \<Rightarrow> dispatch_args \<Rightarrow> session_command \<Rightarrow> rejection \<Rightarrow> loop_view \<Rightarrow> session \<Rightarrow> begun \<times> loop_view" where
  "reject_begin env a c reason view s =
     (case da_ctx a of
        Some e \<Rightarrow> (Answered (Inl e), view)
      | None \<Rightarrow>
      (case Validate (ve_json_valid env) c of
         Some e \<Rightarrow> (Answered (Inl e), view)
       | None \<Rightarrow>
         if sk_id c = '''' \<or> sk_idempotency_key c = '''' \<or> \<not> rejection_valid reason then
           (Answered (Inl (Sentinel ErrInvalidCommand)), view)
         else
         (case availability view s of
            Some e \<Rightarrow> (Answered (Inl e), view)
          | None \<Rightarrow>
          (case loopCommandDigest env c of
             Inl e \<Rightarrow> (Answered (Inl e), view)
           | Inr digest \<Rightarrow>
               begin_claimed c (sk_id c) digest (Some reason)
                 (claimIdempotencyKey (sk_idempotency_key c) digest s view)))))"

subsection \<open>The session accepts\<close>

definition dispatch_receipt :: "view_env \<Rightarrow> string \<Rightarrow> session \<Rightarrow> receipt" where
  "dispatch_receipt env i s =
     \<lparr>rp_command_id = i, rp_session_id = s_id s, rp_run_id = '''', rp_queue_id = '''',
      rp_position = loopPosition env (s_cursor s), rp_guarantee = AcceptanceDurable, rp_rejection = RejectionNone\<rparr>"

type_synonym accepting = "receipt result \<times> loop_view \<times> world"

definition dispatchStart :: "view_env \<Rightarrow> dispatch_args \<Rightarrow> flight \<Rightarrow> loop_view \<Rightarrow> world \<Rightarrow> accepting" where
  "dispatchStart env a f view w =
     (case input_message env (fl_command f) of
        Inl e \<Rightarrow> (Inl e, view, w)
      | Inr m \<Rightarrow>
          (case prepareStartWithCommand (ve_services env) (da_ctx a) (da_reply a) (da_new_id a) (da_instructions a)
              m (fl_marker f) w of
             (w, Inl e) \<Rightarrow> (Inl (mapLoopError e), view, w)
           | (w, Inr x) \<Rightarrow>
               (Inr ((dispatch_receipt env (fl_id f) (fst w))\<lparr>rp_run_id := st_run_id x\<rparr>),
                view\<lparr>lv_run_commands := (lv_run_commands view)(st_run_id x \<mapsto> fl_id f)\<rparr>, w)))"

definition dispatchQueue :: "view_env \<Rightarrow> dispatch_args \<Rightarrow> queue_kind \<Rightarrow> flight \<Rightarrow> loop_view \<Rightarrow> world \<Rightarrow> accepting" where
  "dispatchQueue env a kind f view w =
     (case input_message env (fl_command f) of
        Inl e \<Rightarrow> (Inl e, view, w)
      | Inr m \<Rightarrow>
          (case acceptWithCursorCommand (ve_services env) (da_ctx a) (da_reply a) (da_clock a) (da_new_id a) kind m
              (if kind = QueueNextTurn then '''' else sk_run_id (fl_command f)) (fl_marker f) w of
             (w, Inl e) \<Rightarrow> (Inl (mapLoopError e), view, w)
           | (w, Inr (q, cursor)) \<Rightarrow>
               (Inr ((dispatch_receipt env (fl_id f) (fst w))\<lparr>rp_queue_id := q, rp_position := loopPosition env cursor\<rparr>),
                view\<lparr>lv_queue_commands := (lv_queue_commands view)(q \<mapsto> fl_id f)\<rparr>, w)))"

text \<open>The sequence numbers of the resolutions in a batch that starts behind position \<open>n\<close>.\<close>

fun resolution_seqs :: "nat \<Rightarrow> fact list \<Rightarrow> nat list" where
  "resolution_seqs n [] = []"
| "resolution_seqs n (ResolutionAccepted i r # es) = Suc n # resolution_seqs (Suc n) es"
| "resolution_seqs n (e # es) = resolution_seqs (Suc n) es"

definition resolve_accepted :: "string \<Rightarrow> string \<Rightarrow> nat list \<Rightarrow> loop_view \<Rightarrow> loop_view" where
  "resolve_accepted i run seqs view =
     view\<lparr>lv_run_commands := (if lv_run_commands view run = None then (lv_run_commands view)(run \<mapsto> i)
            else lv_run_commands view),
          lv_resolution_commands := foldl (\<lambda>m n. m(n \<mapsto> i)) (lv_resolution_commands view) seqs\<rparr>"

definition dispatchResolve :: "view_env \<Rightarrow> dispatch_args \<Rightarrow> flight \<Rightarrow> loop_view \<Rightarrow> world \<Rightarrow> accepting" where
  "dispatchResolve env a f view w =
     (case loopResumeRequest env (fl_command f) of
        Inl e \<Rightarrow> (Inl e, view, w)
      | Inr request \<Rightarrow>
          (case prepareResumeWithCommand (ve_services env) (da_ctx a) (da_reply a) (da_new_id a) request (fl_marker f) w of
             (w', Inl e) \<Rightarrow> (Inl (mapLoopError e), view, w')
           | (w', Inr x) \<Rightarrow>
               (Inr ((dispatch_receipt env (fl_id f) (fst w'))\<lparr>rp_run_id := am_run_id x\<rparr>),
                resolve_accepted (fl_id f) (am_run_id x)
                  (resolution_seqs (length (snd w)) (drop (length (snd w)) (snd w'))) view, w')))"

text \<open>The position of a keyed interrupt is read when its receipt is remembered.\<close>

definition dispatchInterrupt :: "view_env \<Rightarrow> dispatch_args \<Rightarrow> flight \<Rightarrow> loop_view \<Rightarrow> world \<Rightarrow> accepting" where
  "dispatchInterrupt env a f view w =
     (case requestInterruptCommand (ve_services env) (da_ctx a) (da_reply a) (sk_run_id (fl_command f)) (fl_marker f) w of
        (w, Inl e) \<Rightarrow> (Inl (mapLoopError e), view, w)
      | (w, Inr _) \<Rightarrow>
          (Inr ((dispatch_receipt env (fl_id f) (fst w))
             \<lparr>rp_run_id := sk_run_id (fl_command f), rp_position := \<lparr>ps_sequence = 0, ps_token = ''''\<rparr>,
              rp_guarantee := AcceptanceAccepted\<rparr>), view, w))"

definition interrupt_receipt :: "view_env \<Rightarrow> flight \<Rightarrow> session \<Rightarrow> receipt \<Rightarrow> receipt" where
  "interrupt_receipt env f s r =
     (if sk_kind (fl_command f) = CommandInterrupt \<and> fl_reason f = None \<and> fl_marker f \<noteq> None then
        r\<lparr>rp_position := loopPosition env (s_cursor s), rp_guarantee := AcceptanceDurable\<rparr>
      else r)"

definition reject_accept :: "view_env \<Rightarrow> dispatch_args \<Rightarrow> rejection \<Rightarrow> flight \<Rightarrow> loop_view \<Rightarrow> world \<Rightarrow> accepting" where
  "reject_accept env a reason f view w =
     (case fl_marker f of
        None \<Rightarrow> (Inl (Plain ''nil marker''), view, w)
      | Some p \<Rightarrow>
          (case vc_encode (ve_services env) (CommandAccepted p) of
             Some e \<Rightarrow> (Inl e, view, w)
           | None \<Rightarrow>
               (case rejectCommand (ve_services env) (da_ctx a) (da_reply a) p w of
                  (w, Some e) \<Rightarrow> (Inl (mapLoopError e), view, w)
                | (w, None) \<Rightarrow>
                    (Inr ((dispatch_receipt env (fl_id f) (fst w))\<lparr>rp_rejection := reason\<rparr>), view, w))))"

definition targeted :: "command_kind \<Rightarrow> bool" where
  "targeted k = (k = CommandSteer \<or> k = CommandFollowUp \<or> k = CommandResolve \<or> k = CommandInterrupt)"

definition dispatch_accept :: "view_env \<Rightarrow> dispatch_args \<Rightarrow> flight \<Rightarrow> loop_view \<Rightarrow> world \<Rightarrow> accepting" where
  "dispatch_accept env a f view w =
     (case fl_reason f of
        Some reason \<Rightarrow> reject_accept env a reason f view w
      | None \<Rightarrow>
          let c = fl_command f in
          if targeted (sk_kind c) \<and> run_id (fst w) \<noteq> sk_run_id c then
            (Inl (wrap_cause (''run '' @ quote (sk_run_id c) @ '' is not the active run'') (Sentinel ErrStaleRun)), view, w)
          else (case sk_kind c of
              CommandStart \<Rightarrow> dispatchStart env a f view w
            | CommandSteer \<Rightarrow> dispatchQueue env a QueueSteer f view w
            | CommandFollowUp \<Rightarrow> dispatchQueue env a QueueFollowUp f view w
            | CommandNextTurn \<Rightarrow> dispatchQueue env a QueueNextTurn f view w
            | CommandResolve \<Rightarrow> dispatchResolve env a f view w
            | _ \<Rightarrow> dispatchInterrupt env a f view w))"

definition dispatch_finish ::
  "view_env \<Rightarrow> flight \<Rightarrow> receipt result \<Rightarrow> session \<Rightarrow> loop_view \<Rightarrow> receipt result \<times> loop_view" where
  "dispatch_finish env f out s view =
     (let release = (if sk_idempotency_key (fl_command f) = '''' then id
            else releaseIdempotencyClaim (sk_idempotency_key (fl_command f))) in
      case out of
        Inl e \<Rightarrow> (Inl e, release view)
      | Inr r \<Rightarrow>
          let r = interrupt_receipt env f s r in
          (Inr r, release (rememberCommandAcceptance (fl_marker f) r view)))"

subsection \<open>Whole calls\<close>

text \<open>None: the call still waits for another dispatch of its key.\<close>

definition finish_call ::
  "view_env \<Rightarrow> dispatch_args \<Rightarrow> begun \<times> loop_view \<Rightarrow> world \<Rightarrow> receipt result option \<times> loop_view \<times> world" where
  "finish_call env a x w =
     (case x of
        (Answered r, view) \<Rightarrow> (Some r, view, w)
      | (Waits, view) \<Rightarrow> (map_option Inl (da_ctx a), view, w)
      | (Begun f, view) \<Rightarrow>
          (case dispatch_accept env a f view w of
             (out, view, w) \<Rightarrow>
               (case dispatch_finish env f out (fst w) view of (r, view) \<Rightarrow> (Some r, view, w))))"

definition loop_Dispatch ::
  "view_env \<Rightarrow> dispatch_args \<Rightarrow> session_command \<Rightarrow> loop_view \<Rightarrow> world \<Rightarrow> receipt result option \<times> loop_view \<times> world" where
  "loop_Dispatch env a c view w = finish_call env a (dispatch_begin env a c view (fst w)) w"

definition loop_Reject ::
  "view_env \<Rightarrow> dispatch_args \<Rightarrow> session_command \<Rightarrow> rejection \<Rightarrow> loop_view \<Rightarrow> world \<Rightarrow>
     receipt result option \<times> loop_view \<times> world" where
  "loop_Reject env a c reason view w = finish_call env a (reject_begin env a c reason view (fst w)) w"

definition zero_receipt :: receipt where
  "zero_receipt = \<lparr>rp_command_id = '''', rp_session_id = '''', rp_run_id = '''', rp_queue_id = '''',
     rp_position = \<lparr>ps_sequence = 0, ps_token = ''''\<rparr>, rp_guarantee = GuaranteeOther '''', rp_rejection = RejectionNone\<rparr>"

definition loop_Acceptance ::
  "view_env \<Rightarrow> go_error option \<Rightarrow> session_command \<Rightarrow> loop_view \<Rightarrow> session \<Rightarrow> (receipt \<times> bool) result" where
  "loop_Acceptance env ctx c view s =
     (case ctx of
        Some e \<Rightarrow> Inl e
      | None \<Rightarrow>
      (case Validate (ve_json_valid env) c of
         Some e \<Rightarrow> Inl e
       | None \<Rightarrow>
         if sk_idempotency_key c = '''' then
           Inl (wrap_cause ''acceptance lookup requires an idempotency key'' (Sentinel ErrInvalidCommand))
         else
         (case availability view s of
            Some e \<Rightarrow> Inl e
          | None \<Rightarrow>
          (case loopCommandDigest env c of
             Inl e \<Rightarrow> Inl e
           | Inr digest \<Rightarrow>
               (case lv_idempotency view (sk_idempotency_key c) of
                  None \<Rightarrow> Inr (zero_receipt, False)
                | Some (accepted, r) \<Rightarrow>
                    if accepted \<noteq> digest \<or> sk_id c \<noteq> '''' \<and> rp_command_id r \<noteq> sk_id c then
                      Inl (Sentinel ErrCommandConflict)
                    else Inr (r, True))))))"

text \<open>The first step of closing; the interrupt of an active run and its end are steps of the session.\<close>

definition close_view :: "bool \<Rightarrow> loop_view \<Rightarrow> session \<Rightarrow> loop_view \<times> session" where
  "close_view abandon view s = (view\<lparr>lv_closed := True\<rparr>, if abandon then abandonRun s else s)"

end
