(* ===== verification/Session_Cursor.thy ===== *)
theory Session_Cursor
  imports Session_Accept
begin

text \<open>
  The cursor of a handle never goes back and never passes the end of the journal, whatever the journal answers,
  also when the handle is lost half-way.
\<close>

definition climbs :: "world \<Rightarrow> world \<Rightarrow> bool" where
  "climbs w w' \<longleftrightarrow> s_cursor (fst w) \<le> s_cursor (fst w') \<and>
     (s_cursor (fst w) \<le> length (snd w) \<longrightarrow> s_cursor (fst w') \<le> length (snd w'))"

lemma climbs_refl [simp]: "climbs w w"
  by (simp add: climbs_def)

lemma climbs_trans: "climbs w w' \<Longrightarrow> climbs w' w'' \<Longrightarrow> climbs w w''"
  by (auto simp: climbs_def)

lemma climbs_same: "s_cursor s' = s_cursor s \<Longrightarrow> climbs (s, j) (s', j)"
  by (simp add: climbs_def)

lemma climbs_on_session [simp]:
  "s_cursor (g (fst w')) = s_cursor (fst w') \<Longrightarrow> climbs w (on_session g w') = climbs w w'"
  "s_cursor (g (fst w)) = s_cursor (fst w) \<Longrightarrow> climbs (on_session g w) w' = climbs w w'"
  by (simp_all add: climbs_def on_session_def)

lemma cursor_sel [simp]:
  "s_cursor (faultLocked e s) = s_cursor s" "s_cursor (transition p s) = s_cursor s"
  "s_cursor (update_run h s) = s_cursor s" "s_cursor (fault_once x s) = s_cursor s"
  "s_cursor (emit_preview ev s) = s_cursor s" "s_cursor (put_usage u s) = s_cursor s"
  "s_cursor (put_system m s) = s_cursor s" "s_cursor (projection_committed cp n s) = s_cursor s"
  "s_cursor (charge_child c s) = s_cursor s" "s_cursor (abandonRun s) = s_cursor s"
  by (simp_all add: faultLocked_def transition_def update_run_def fault_once_def emit_preview_def put_usage_def
      put_system_def projection_committed_def charge_child_def abandonRun_def split: option.split)

lemma cursor_remove [simp]: "s_cursor (remove_all qs s) = s_cursor s"
  by (induction qs arbitrary: s) (simp_all add: remove_all_def removeQueueLocked_def)

lemma cursor_runs [simp]:
  "s_cursor (started i l t next p s) = s_cursor s" "s_cursor (interrupted ms m u qs s) = s_cursor s"
  "s_cursor (applyAgenticEventLocked v ev s) = s_cursor s" "s_cursor (settle_turn ev used s) = s_cursor s"
  "s_cursor (session_messages ms s) = s_cursor s"
  by (simp_all add: started_def interrupted_def applyAgenticEventLocked_def settle_turn_def session_messages_def Let_def
      split: event.split option.split)

subsection \<open>Appends\<close>

lemma append_cursor:
  "journal_append reply n facts j = (j', Inr m) \<Longrightarrow> n \<le> m \<and> m = length j'"
  "journal_append reply n facts j = (j', r) \<Longrightarrow> length j \<le> length j'"
  by (auto simp: journal_append_def split: reply.splits if_splits)

lemma climbs_commit: "commit_or_fault v reply facts w = (w', r) \<Longrightarrow> climbs w w'"
  by (cases w) (auto simp: commit_or_fault_def climbs_def split: option.splits prod.splits sum.splits dest: append_cursor)

lemma climbs_acceptance: "appendAcceptanceLocked ctx reply facts w = (w', r) \<Longrightarrow> climbs w w'"
  by (cases w) (auto simp: appendAcceptanceLocked_def climbs_def split: option.splits prod.splits sum.splits dest: append_cursor)

lemma climbs_one: "append_one reply e g w = (w', r) \<Longrightarrow> (\<And>s. s_cursor (g s) = s_cursor s) \<Longrightarrow> climbs w w'"
  by (cases w) (auto simp: append_one_def climbs_def split: prod.splits sum.splits dest: append_cursor)

lemma climbs_persist: "climbs w (fst (persistFaultLocked v reply e w))"
  by (cases w) (auto simp: persistFaultLocked_def climbs_def Let_def split: option.splits prod.splits sum.splits dest: append_cursor)

lemmas climbs_intros = climbs_commit climbs_acceptance climbs_persist

subsection \<open>Handlers\<close>

lemma climbs_accept: "climbs w (fst (acceptWithCursorCommand v ctx reply clock new_id kind m target command w))"
  by (auto simp: acceptWithCursorCommand_def Let_def split: option.splits sum.splits prod.splits intro: climbs_intros)

lemma climbs_start: "climbs w (fst (prepareStartWithCommand v ctx reply new_id instructions prompt command w))"
  by (auto simp: prepareStartWithCommand_def Let_def split: option.splits sum.splits prod.splits intro: climbs_intros)

lemma climbs_hook: "climbs w (fst (turnHook v reply candidate w))"
  by (auto simp: turnHook_def Let_def split: option.splits prod.splits intro: climbs_intros)

lemma climbs_emit: "climbs w (fst (session_Emit v reply e w))"
  by (auto simp: session_Emit_def Let_def split: option.splits prod.splits sum.splits intro: climbs_intros)

lemma climbs_view: "climbs w (fst (project_view v ms w))"
  by (auto simp: project_view_def Let_def split: prod.splits)

lemma climbs_projection: "climbs w (fst (commit_projection v reply p w))"
  by (auto simp: commit_projection_def Let_def split: option.splits prod.splits intro: climbs_intros)

lemma climbs_fault: "climbs w (fst (faultOperation e w))"
  by (simp add: faultOperation_def)

lemma climbs_fst_one: "(\<And>s. s_cursor (g s) = s_cursor s) \<Longrightarrow> climbs w (fst (append_one reply e g w))"
  by (cases "append_one reply e g w") (simp add: climbs_one)

lemma climbs_operation: "climbs w (fst (RecordOperation v reply p w))"
  by (simp add: RecordOperation_def climbs_fault climbs_fst_one split: option.split)

lemma climbs_child_event: "climbs w (fst (ProjectEvent v reply r w))"
  by (simp add: ProjectEvent_def climbs_fault climbs_fst_one Let_def split: option.split)

lemma climbs_lease: "climbs w (fst (snd (lease_Commit v reply x l w)))"
proof -
  have charge: "climbs w w'" if "append_one reply (ChildUsage x u) (charge_child u) w = (w', r)" for u w' r
    using climbs_one [OF that] by simp
  show ?thesis by (auto simp: lease_Commit_def Let_def split: option.splits prod.splits intro: charge)
qed

lemma climbs_interrupt: "climbs w (fst (finishInterrupt v reply x w))"
  by (auto simp: finishInterrupt_def Let_def split: option.splits prod.splits sum.splits intro: climbs_intros)

lemma climbs_suspended: "climbs w (fst (finish_suspended v reply x e w))"
  by (auto simp: finish_suspended_def Let_def split: option.splits prod.splits sum.splits intro: climbs_intros)

lemma climbs_closed: "climbs w (fst (finish_closed v reply x status e w))"
proof -
  define u where "u = (if s_state (fst w) = Running then transition Closing (fst w) else fst w)"
  define t where "t = (u, snd w)"
  have "s_cursor u = s_cursor (fst w)" by (simp add: u_def)
  then have w: "climbs t w' \<Longrightarrow> climbs w w'" for w' by (simp add: climbs_def t_def)
  note persist = w [OF climbs_persist]
  have commit: "climbs w (fst (case commit_or_fault v reply facts t of
      (w, Some e) \<Rightarrow> (w, Some (a e)) | (w, None) \<Rightarrow> (on_session g w, b)))" if "\<And>s. s_cursor (g s) = s_cursor s" for facts a b g
  proof -
    obtain w' r where c: "commit_or_fault v reply facts t = (w', r)" by fastforce
    from w [OF climbs_commit [OF c]] have "climbs w w'" .
    then show ?thesis using c that by (cases r) simp_all
  qed
  show ?thesis unfolding finish_closed_def Let_def u_def [symmetric] t_def [symmetric]
    by (cases "validateProjectionLocked v x u"; cases "settle_usage x u") (simp_all only: persist sum.case, intro commit, simp)
qed

lemma climbs_finish: "climbs w (fst (finishExecution v reply x e w))"
proof -
  let ?w = "on_session (\<lambda>s. s\<lparr>s_cancel := False\<rparr>) w"
  have w: "climbs ?w w' \<Longrightarrow> climbs w w'" for w' by simp
  note closed = w [OF climbs_closed [of ?w]] and suspended = w [OF climbs_suspended [of ?w]]
  obtain w' r where int: "finishInterrupt v reply x ?w = (w', r)" by fastforce
  then have "climbs w w'" using climbs_interrupt [of ?w v reply x] by simp
  then show ?thesis
    by (cases r) (simp_all add: finishExecution_def Let_def int closed suspended split: option.split)
qed

lemma climbs_request: "climbs w (fst (requestInterruptCommand v ctx reply expected command w))"
  by (auto simp: requestInterruptCommand_def Let_def split: option.splits prod.splits intro: climbs_intros)

lemma climbs_indeterminate: "climbs w (fst (prepareResumeIndeterminate v ctx reply new_id x request command w))"
  by (auto simp: prepareResumeIndeterminate_def Let_def split: option.splits prod.splits sum.splits intro: climbs_intros)

lemma climbs_resume: "climbs w (fst (prepareResumeWithCommand v ctx reply new_id request command w))"
  by (auto simp: prepareResumeWithCommand_def Let_def climbs_indeterminate split: option.splits prod.splits sum.splits
      intro: climbs_intros)

lemma climbs_continue: "climbs w (fst (continueRecovered v reply w))"
  by (auto simp: continueRecovered_def Let_def climbs_interrupt climbs_finish split: option.splits prod.splits sum.splits)

lemma climbs_reject: "climbs w (fst (rejectCommand v ctx reply c w))"
  by (cases "appendAcceptanceLocked ctx reply [CommandAccepted c] w")
     (auto simp: rejectCommand_def split: option.split intro: climbs_intros)

subsection \<open>Recovery\<close>

lemma climbs_inject: "inject_recovered v reply w = (w', r) \<Longrightarrow> climbs w w'"
  by (cases w) (auto simp: inject_recovered_def climbs_def Let_def split: option.splits prod.splits sum.splits if_splits dest: append_cursor)

lemma climbs_suspend_recovered: "climbs w (fst (suspend_recovered v reply new_id calls ind w))"
  by (cases w) (auto simp: suspend_recovered_def climbs_def Let_def split: option.splits prod.splits sum.splits dest: append_cursor)

lemma climbs_repair_recovered: "climbs w (fst (repair_recovered v reply pending w))"
  by (cases w) (auto simp: repair_recovered_def climbs_def Let_def split: option.splits prod.splits sum.splits dest: append_cursor)

lemma climbs_open_run: "climbs w (fst (recoverOpenRun v reply reply' new_id w))"
proof -
  obtain w1 x where 1: "inject_recovered v reply w = (w1, x)" by fastforce
  have g: "climbs w w1" using climbs_inject [OF 1] .
  have suspend: "climbs w (fst (case suspend_recovered v reply' new_id calls ind w1 of (w, e) \<Rightarrow> (w, map_option Cause e)))" for calls ind
    using climbs_trans [OF g climbs_suspend_recovered, of v reply' new_id calls ind] by (simp add: case_prod_unfold)
  show ?thesis
    using g suspend climbs_trans [OF g climbs_repair_recovered]
    by (cases x) (simp_all add: recoverOpenRun_def 1 Let_def split: sum.split)
qed

lemma climbs_recover_idle: "climbs w (fst (recover_idle v reply w))"
  by (cases w) (auto simp: recover_idle_def climbs_def on_session_def Let_def split: option.splits prod.splits sum.splits dest: append_cursor)

lemma climbs_recover_session: "climbs w (fst (recover_session v reply reply' new_id f w))"
proof -
  define t where "t = on_session (\<lambda>s. if s_state s = Faulted then transition Running s else s) w"
  have "s_cursor (fst t) = s_cursor (fst w)" "snd t = snd w" by (simp_all add: t_def on_session_def)
  then have w: "climbs t w' \<Longrightarrow> climbs w w'" for w' by (simp add: climbs_def)
  have int: "climbs w (fst (finishInterrupt v reply x
      (on_session (\<lambda>s. transition Interrupting (update_run (\<lambda>r. r\<lparr>ar_interrupted := True\<rparr>) s)) w)))" for x
    using climbs_interrupt [of "on_session (\<lambda>s. transition Interrupting (update_run (\<lambda>r. r\<lparr>ar_interrupted := True\<rparr>) s)) w"]
    by simp
  show ?thesis unfolding recover_session_def Let_def t_def [symmetric]
    using int w [OF climbs_finish] w [OF climbs_recover_idle] w [OF climbs_open_run] w [OF climbs_refl] by simp
qed

subsection \<open>Steps\<close>

lemma step_climbs:
  assumes "session_step v i command (Some s, j) (Some s', j')"
  shows "climbs (s, j) (s', j')"
proof -
  have held: "climbs (s, j) w \<Longrightarrow> (Some s', j') = held w \<Longrightarrow> climbs (s, j) (s', j')" for w
    by (cases w) (simp add: held_def)
  note handlers = climbs_accept climbs_start climbs_hook climbs_emit climbs_view climbs_projection climbs_operation
    climbs_child_event climbs_lease climbs_finish climbs_request climbs_interrupt climbs_resume climbs_continue climbs_reject
  from assms show ?thesis
    by cases (auto intro: handlers [THEN held] climbs_same simp: session_Close_def)
qed

lemma fold_log_cursor: "fold_log j = Inr f \<Longrightarrow> fo_cursor f = length j"
  by (auto simp: fold_log_def finish_fold_def empty_folded_def dest: fold_facts_cursor
      split: sum.splits if_splits option.splits)

lemma Recover_cursor:
  assumes "Recover v reply reply' new_id i scope j = (j', Inr s)"
  shows "s_cursor s \<le> length j'"
proof -
  have dropped: "s_cursor s \<le> length j'"
    if "dropped_on_error (recover_session v reply reply' new_id f (recovered_session i c f, j)) = (j', Inr s)"
      "fo_cursor f = length j" for c f
    using that climbs_recover_session [of "(recovered_session i c f, j)" v reply reply' new_id f]
    by (cases "recover_session v reply reply' new_id f (recovered_session i c f, j)")
       (auto simp: dropped_on_error_def climbs_def recovered_session_def split: option.splits)
  have "fo_cursor f = length j" if "fold_log j = Inr f" for f
    using fold_log_cursor [OF that] .
  then show ?thesis using assms dropped by (auto simp: Recover_def split: sum.splits option.splits if_splits)
qed

lemma reachable_cursor:
  "session_reachable v i x \<Longrightarrow> x = (Some s, j) \<Longrightarrow> s_cursor s \<le> length j"
proof (induction arbitrary: s j rule: session_reachable.induct)
  case (reach_new reply scope budget drain_all initial j s)
  then show ?case
    by (auto simp: session_New_def Let_def blank_session_def split: option.splits sum.splits prod.splits dest: append_cursor)
next
  case (reach_step x c y)
  obtain h j0 where x: "x = (h, j0)" by fastforce
  show ?case
  proof (cases h)
    case (Some s0)
    then have "s_cursor s0 \<le> length j0" using reach_step.IH x by blast
    then show ?thesis using step_climbs reach_step x Some by (fastforce simp: climbs_def)
  next
    case None
    from reach_step.hyps(2) show ?thesis unfolding x None
    proof cases
      case (step_recover reply reply' new_id scope)
      then show ?thesis using Recover_cursor [of v reply reply' new_id i scope j0] reach_step.prems
        by (cases "Recover v reply reply' new_id i scope j0") (auto simp: recovered_handle_def split: sum.splits)
    qed
  qed
qed simp

end
