(* ===== verification/Loop_Safe.thy ===== *)
theory Loop_Safe
  imports Loop_Dispatch Session_Cursor
begin

text \<open>
  The session view over time, and its invariant: the keys of the journal are distinct, the view knows
  exactly the acceptances that no dispatch in flight is about to remember, and a dispatch that has not
  accepted its command holds a key the journal does not have.
\<close>

subsection \<open>Steps\<close>

type_synonym loop_state = "loop_view option \<times> (flight \<times> receipt result option) list \<times> handle"

definition fresh_ids :: "dispatch_args \<Rightarrow> fact list \<Rightarrow> bool" where
  "fresh_ids a j \<longleftrightarrow> (case da_new_id a of Inr n \<Rightarrow> n \<notin> set (accepted_ids j) | Inl _ \<Rightarrow> True) \<and> da_command_id a \<noteq> Inr ''''"

inductive loop_step :: "view_env \<Rightarrow> string \<Rightarrow> loop_state \<Rightarrow> loop_state \<Rightarrow> bool" for env i where
  loop_begin: "dispatch_begin env a c view s = (Begun f, view') \<Longrightarrow> fresh_ids a j \<Longrightarrow>
    loop_step env i (Some view, fs, Some s, j) (Some view', fs @ [(f, None)], Some s, j)"
| loop_begin_reject: "reject_begin env a c reason view s = (Begun f, view') \<Longrightarrow>
    loop_step env i (Some view, fs, Some s, j) (Some view', fs @ [(f, None)], Some s, j)"
| loop_accept: "dispatch_accept env a f view (s, j) = (out, view', w) \<Longrightarrow> (fl_reason f = None \<Longrightarrow> fresh_ids a j) \<Longrightarrow>
    loop_step env i (Some view, fs @ (f, None) # gs, Some s, j) (Some view', fs @ (f, Some out) # gs, held w)"
| loop_finish: "dispatch_finish env f out s view = (r, view') \<Longrightarrow>
    loop_step env i (Some view, fs @ (f, Some out) # gs, Some s, j) (Some view', fs @ gs, Some s, j)"
| loop_session: "session_step (ve_services env) i None (Some s, j) (Some s', j') \<Longrightarrow>
    loop_step env i (view, fs, Some s, j) (view, fs, Some s', j')"
| loop_close: "close_view abandon view s = (view', s') \<Longrightarrow>
    loop_step env i (Some view, fs, Some s, j) (Some view', fs, Some s', j)"
| loop_crash: "loop_step env i (view, fs, Some s, j) (None, [], None, j)"
| loop_recover: "loop_step env i (None, [], None, j)
    (None, [], recovered_handle (Session_Recovery.Recover (ve_services env) reply reply' new_id i scope j))"
| loop_open: "NewLoopView env (standard_caps structured) s j = Inr view \<Longrightarrow>
    loop_step env i (None, [], Some s, j) (Some view, [], Some s, j)"

inductive loop_reachable :: "view_env \<Rightarrow> string \<Rightarrow> loop_state \<Rightarrow> bool" for env i where
  loop_new: "session_New (ve_services env) reply i scope budget drain_all initial = (j, Inr s) \<Longrightarrow>
    loop_reachable env i (None, [], Some s, j)"
| loop_lost: "session_New (ve_services env) reply i scope budget drain_all initial = (j, Inl e) \<Longrightarrow> j \<noteq> [] \<Longrightarrow>
    loop_reachable env i (None, [], None, j)"
| loop_next: "loop_reachable env i x \<Longrightarrow> loop_step env i x y \<Longrightarrow> loop_reachable env i y"

subsection \<open>Steps of the session\<close>

lemma handler_steps:
  "prepareStartWithCommand v ctx reply new_id instructions prompt command (s, j) = (w, r) \<Longrightarrow>
     session_step v i command (Some s, j) (held w)"
  "acceptWithCursorCommand v ctx reply clock new_id kind m target command (s, j) = (w, r') \<Longrightarrow>
     (\<And>n. new_id = Inr n \<Longrightarrow> n \<notin> set (accepted_ids j)) \<Longrightarrow> session_step v i command (Some s, j) (held w)"
  "prepareResumeWithCommand v ctx reply new_id request command (s, j) = (w, x) \<Longrightarrow>
     session_step v i command (Some s, j) (held w)"
  "requestInterruptCommand v ctx reply expected command (s, j) = (w, y) \<Longrightarrow>
     session_step v i command (Some s, j) (held w)"
  "rejectCommand v ctx reply c (s, j) = (w, z) \<Longrightarrow> session_step v i (Some c) (Some s, j) (held w)"
  by (metis step_start fst_conv, metis step_accept fst_conv, metis step_resume fst_conv,
      metis step_request_interrupt fst_conv, metis step_reject fst_conv)

text \<open>The critical section of a dispatch is a step of the session, or nothing.\<close>

lemma accept_is_step:
  assumes "dispatch_accept env a f view (s, j) = (out, view', w)" "fl_reason f = None \<Longrightarrow> fresh_ids a j"
  shows "w = (s, j) \<or> session_step (ve_services env) i (fl_marker f) (Some s, j) (held w)"
proof -
  have ids: "fl_reason f = None \<Longrightarrow> da_new_id a = Inr n \<Longrightarrow> n \<notin> set (accepted_ids j)" for n
    using assms(2) by (auto simp: fresh_ids_def)
  show ?thesis using assms(1) ids
    by (auto simp: dispatch_accept_def Let_def dispatchStart_def dispatchQueue_def dispatchResolve_def
        dispatchInterrupt_def reject_accept_def split: option.splits sum.splits prod.splits command_kind.splits if_splits
        intro: handler_steps)
qed

text \<open>The view over a session is the session: it refines its steps.\<close>

lemma loop_step_session:
  assumes "loop_step env i (view, fs, h) (view', fs', h')"
  shows "h' = h \<or> (\<exists>c. session_step (ve_services env) i c h h')"
  using assms
proof cases
  case (loop_accept a f view s j out view' w fs gs)
  then show ?thesis using accept_is_step [of env a f view s j out view' w i] by (auto simp: held_def)
next
  case (loop_close abandon view s view' s' j)
  then show ?thesis using step_abandon [of "ve_services env" i s j] by (auto simp: close_view_def split: if_splits)
next
  case (loop_crash s j)
  then show ?thesis using step_crash by blast
next
  case (loop_recover j reply reply' new_id scope)
  then show ?thesis using step_recover by blast
qed auto

lemma loop_reachable_session: "loop_reachable env i x \<Longrightarrow> session_reachable (ve_services env) i (snd (snd x))"
proof (induction rule: loop_reachable.induct)
  case (loop_next x y)
  obtain view fs h view' fs' h' where xy: "x = (view, fs, h)" "y = (view', fs', h')" by (metis prod_cases3)
  have "h' = h \<or> (\<exists>c. session_step (ve_services env) i c h h')" using loop_step_session loop_next(2) xy by blast
  then show ?case using reach_step [of "ve_services env" i h _ h'] loop_next(3) xy by (metis snd_conv)
qed (auto intro: reach_new reach_lost)

subsection \<open>Well-formed flights\<close>

definition flight_key :: "flight \<Rightarrow> string" where
  "flight_key f = sk_idempotency_key (fl_command f)"

definition flight_ok :: "flight \<Rightarrow> bool" where
  "flight_ok f \<longleftrightarrow>
     (let c = fl_command f in
      (case fl_marker f of
         None \<Rightarrow> sk_idempotency_key c = '''' \<and> fl_reason f = None
       | Some p \<Rightarrow> sk_idempotency_key c \<noteq> '''' \<and> fl_id f \<noteq> '''' \<and> ca_command_id p = fl_id f \<and>
           ca_idempotency_key p = sk_idempotency_key c \<and> ca_digest p \<noteq> '''' \<and> ca_run_id p = '''' \<and>
           ca_queue_id p = '''' \<and> ca_kind p = command_kind_text (sk_kind c) \<and>
           ca_rejection p = (case fl_reason f of None \<Rightarrow> '''' | Some r \<Rightarrow> rejection_text r)) \<and>
      (\<forall>r. fl_reason f = Some r \<longrightarrow> rejection_valid r) \<and>
      (\<forall>k. sk_kind c \<noteq> CommandKindOther k) \<and> (sk_kind c = CommandInterrupt \<longrightarrow> sk_run_id c \<noteq> ''''))"

definition digests :: "view_env \<Rightarrow> bool" where
  "digests env \<longleftrightarrow> (\<forall>c. ve_digest env c \<noteq> Inr '''')"

lemma Validate_kind: "Validate jv c = None \<Longrightarrow> sk_kind c \<noteq> CommandKindOther k"
  by (auto simp: Validate_def)

lemma Validate_interrupt: "Validate jv c = None \<Longrightarrow> sk_kind c = CommandInterrupt \<Longrightarrow> sk_run_id c \<noteq> ''''"
  by (auto simp: Validate_def split: if_splits)

lemma loopCommandDigest_nonempty: "digests env \<Longrightarrow> loopCommandDigest env c = Inr d \<Longrightarrow> d \<noteq> ''''"
  by (auto simp: loopCommandDigest_def digests_def split: sum.splits)

lemma begin_claimed_flight:
  assumes "begin_claimed c i d reason x = (Begun f, view')"
  shows "fl_command f = c \<and> fl_id f = i \<and> fl_reason f = reason \<and> fst x = Claimed \<and> view' = snd x \<and>
    fl_marker f = map_option (\<lambda>p. p\<lparr>ca_rejection := (case reason of None \<Rightarrow> '''' | Some r \<Rightarrow> rejection_text r)\<rparr>)
      (commandAcceptance c i d)"
  using assms by (auto simp: begin_claimed_def split: claim.splits if_splits)

text \<open>What a begun flight did to the view: it took its key, if it has one.\<close>

definition takes_key :: "string \<Rightarrow> session \<Rightarrow> loop_view \<Rightarrow> loop_view \<Rightarrow> bool" where
  "takes_key k s view view' \<longleftrightarrow>
     (if k = '''' then view' = view
      else s_acceptance_fault s = None \<and> lv_idempotency view k = None \<and> k \<notin> set (lv_claims view) \<and>
        view' = view\<lparr>lv_claims := k # lv_claims view\<rparr>)"

lemma claim_takes: "claimIdempotencyKey k d s view = (Claimed, view') \<Longrightarrow> k \<noteq> '''' \<Longrightarrow> takes_key k s view view'"
  by (auto simp: claimIdempotencyKey_def takes_key_def availability_def split: option.splits if_splits)

lemma dispatch_begins:
  assumes "dispatch_begin env a c view s = (Begun f, view')" "digests env" "da_command_id a \<noteq> Inr ''''"
  shows "flight_ok f" "takes_key (flight_key f) s view view'"
proof -
  let ?x = "\<lambda>d. if sk_idempotency_key c = '''' then (Claimed, view) else claimIdempotencyKey (sk_idempotency_key c) d s view"
  obtain i d where v: "ValidateCommand (ve_json_valid env) c (lv_caps view) = None"
    and i: "(if sk_id c = '''' then da_command_id a else Inr (sk_id c)) = Inr i"
    and d: "loopCommandDigest env c = Inr d" and b: "begin_claimed c i d None (?x d) = (Begun f, view')"
    using assms(1) by (auto simp: dispatch_begin_def split: option.splits sum.splits)
  have "Validate (ve_json_valid env) c = None" using v by (auto simp: ValidateCommand_def split: option.splits)
  note valid = Validate_kind [OF this] Validate_interrupt [OF this]
  have "i \<noteq> ''''" using i assms(3) by (auto split: if_splits)
  moreover have "d \<noteq> ''''" using loopCommandDigest_nonempty assms(2) d by blast
  moreover note f = begin_claimed_flight [OF b]
  ultimately show "flight_ok f" using valid by (auto simp: flight_ok_def Let_def commandAcceptance_def split: option.splits)
  show "takes_key (flight_key f) s view view'"
    using f claim_takes [of "sk_idempotency_key c" d s view view']
    by (cases "?x d") (auto simp: flight_key_def takes_key_def split: if_splits)
qed

lemma reject_begins:
  assumes "reject_begin env a c reason view s = (Begun f, view')" "digests env"
  shows "flight_ok f" "takes_key (flight_key f) s view view'"
proof -
  let ?x = "\<lambda>d. claimIdempotencyKey (sk_idempotency_key c) d s view"
  obtain d where v: "Validate (ve_json_valid env) c = None"
    and i: "sk_id c \<noteq> ''''" "sk_idempotency_key c \<noteq> ''''" "rejection_valid reason"
    and d: "loopCommandDigest env c = Inr d" and b: "begin_claimed c (sk_id c) d (Some reason) (?x d) = (Begun f, view')"
    using assms(1) by (auto simp: reject_begin_def split: option.splits sum.splits if_splits)
  note valid = Validate_kind [OF v] Validate_interrupt [OF v]
  have "d \<noteq> ''''" using loopCommandDigest_nonempty assms(2) d by blast
  moreover note f = begin_claimed_flight [OF b]
  ultimately show "flight_ok f" using valid i by (auto simp: flight_ok_def Let_def commandAcceptance_def)
  show "takes_key (flight_key f) s view view'"
    using f claim_takes [of "sk_idempotency_key c" d s view view'] i(2)
    by (cases "?x d") (auto simp: flight_key_def)
qed

subsection \<open>What the critical section answers\<close>

definition payload_ok :: "command_payload \<Rightarrow> bool" where
  "payload_ok p \<longleftrightarrow> ca_command_id p \<noteq> '''' \<and> ca_idempotency_key p \<noteq> '''' \<and> ca_digest p \<noteq> '''' \<and>
     (ca_rejection p = '''' \<or>
      rejection_valid (rejection_of (ca_rejection p)) \<and> ca_run_id p = '''' \<and> ca_queue_id p = '''')"

text \<open>The receipt in the hands of the dispatch, before it is remembered.\<close>

definition raw_receipt :: "view_env \<Rightarrow> string \<Rightarrow> flight \<Rightarrow> nat \<Rightarrow> command_payload \<Rightarrow> receipt \<Rightarrow> bool" where
  "raw_receipt env i f n p r \<longleftrightarrow>
     r = (if sk_kind (fl_command f) = CommandInterrupt \<and> fl_reason f = None then
            (accepted_receipt env i n p)\<lparr>rp_position := \<lparr>ps_sequence = 0, ps_token = ''''\<rparr>, rp_guarantee := AcceptanceAccepted\<rparr>
          else accepted_receipt env i n p)"

definition flight_accepts :: "view_env \<Rightarrow> flight \<Rightarrow> receipt \<Rightarrow> world \<Rightarrow> world \<Rightarrow> bool" where
  "flight_accepts env f r w w' \<longleftrightarrow>
     (case fl_marker f of
        None \<Rightarrow> True
      | Some p \<Rightarrow> \<exists>run queue. (let p' = p\<lparr>ca_run_id := run, ca_queue_id := queue\<rparr> in
          accepts p' w w' \<and> payload_ok p' \<and> raw_receipt env (s_id (fst w)) f (length (snd w')) p' r))"

lemma rejection_text_of [simp]: "rejection_valid r \<Longrightarrow> rejection_of (rejection_text r) = r"
  "rejection_valid r \<Longrightarrow> rejection_text r \<noteq> ''''" "rejection_of '''' = RejectionNone"
  by (cases r; simp add: rejection_valid_def rejection_of_def rejection_text_def)+

lemma flight_acceptsI:
  assumes "flight_ok f" "fl_marker f = Some p" "accepts (p\<lparr>ca_run_id := run, ca_queue_id := queue\<rparr>) w w'"
    "fl_reason f = None \<or> run = '''' \<and> queue = ''''"
    "r = (dispatch_receipt env (fl_id f) (fst w'))\<lparr>rp_run_id := run, rp_queue_id := queue,
       rp_rejection := (case fl_reason f of None \<Rightarrow> RejectionNone | Some r \<Rightarrow> r),
       rp_position := position, rp_guarantee := g\<rparr>"
    "if sk_kind (fl_command f) = CommandInterrupt \<and> fl_reason f = None
     then position = \<lparr>ps_sequence = 0, ps_token = ''''\<rparr> \<and> g = AcceptanceAccepted
     else position = loopPosition env (s_cursor (fst w')) \<and> g = AcceptanceDurable"
  shows "flight_accepts env f r w w'"
proof -
  let ?p = "p\<lparr>ca_run_id := run, ca_queue_id := queue\<rparr>"
  have "payload_ok ?p" using assms(1,2,4) by (auto simp: payload_ok_def flight_ok_def Let_def split: option.splits)
  moreover have "raw_receipt env (s_id (fst w)) f (length (snd w')) ?p r"
    using assms by (auto simp: raw_receipt_def accepted_receipt_def dispatch_receipt_def accepts_def flight_ok_def
        Let_def split: option.splits if_splits)
  ultimately show ?thesis using assms(2,3) by (auto simp: flight_accepts_def Let_def)
qed

lemma accepted_shape:
  assumes "flight_ok f" "fl_marker f = Some p"
  shows "p\<lparr>ca_run_id := x\<rparr> = p\<lparr>ca_run_id := x, ca_queue_id := ''''\<rparr>"
    "p\<lparr>ca_queue_id := x\<rparr> = p\<lparr>ca_run_id := '''', ca_queue_id := x\<rparr>"
    "p = p\<lparr>ca_run_id := '''', ca_queue_id := ''''\<rparr>"
  using assms by (auto simp: flight_ok_def Let_def)

definition same_keys :: "loop_view \<Rightarrow> loop_view \<Rightarrow> bool" where
  "same_keys view view' \<longleftrightarrow> lv_idempotency view' = lv_idempotency view \<and> lv_claims view' = lv_claims view"

lemma same_keys_refl [simp]: "same_keys view view"
  by (simp add: same_keys_def)

lemma start_answers:
  assumes "dispatchStart env a f view w = (out, view', w')" "flight_ok f" "fl_reason f = None"
    "sk_kind (fl_command f) = CommandStart"
  shows "same_keys view view' \<and> (case out of Inl _ \<Rightarrow> refuses w w' | Inr r \<Rightarrow> flight_accepts env f r w w')"
proof (cases "input_message env (fl_command f)")
  case (Inr m)
  obtain w1 x where h: "prepareStartWithCommand (ve_services env) (da_ctx a) (da_reply a) (da_new_id a)
      (da_instructions a) m (fl_marker f) w = (w1, x)" by fastforce
  show ?thesis
  proof (cases x)
    case (Inl e)
    then show ?thesis using assms(1) Inr h by (auto simp: dispatchStart_def intro: start_error)
  next
    case (Inr y)
    have "flight_accepts env f r w w1" if "r = (dispatch_receipt env (fl_id f) (fst w1))\<lparr>rp_run_id := st_run_id y\<rparr>" for r
    proof (cases "fl_marker f")
      case (Some p)
      have "accepts (p\<lparr>ca_run_id := st_run_id y, ca_queue_id := ''''\<rparr>) w w1"
        using start_ok h Some Inr accepted_shape(1) [OF assms(2) Some] by metis
      from flight_acceptsI [OF assms(2) Some this _ refl, where env = env and position = "loopPosition env (s_cursor (fst w1))" and g = AcceptanceDurable]
      show ?thesis using assms(3,4) that by (simp add: dispatch_receipt_def)
    qed (simp add: flight_accepts_def)
    then show ?thesis using assms(1) \<open>input_message env (fl_command f) = Inr m\<close> h Inr
      by (auto simp: dispatchStart_def same_keys_def)
  qed
qed (use assms(1) in \<open>auto simp: dispatchStart_def\<close>)

lemma queue_answers:
  assumes "dispatchQueue env a kind f view w = (out, view', w')" "flight_ok f" "fl_reason f = None"
    "sk_kind (fl_command f) \<noteq> CommandInterrupt"
  shows "same_keys view view' \<and> (case out of Inl _ \<Rightarrow> refuses w w' | Inr r \<Rightarrow> flight_accepts env f r w w')"
proof (cases "input_message env (fl_command f)")
  case (Inr m)
  define target where "target = (if kind = QueueNextTurn then '''' else sk_run_id (fl_command f))"
  obtain w1 x where h: "acceptWithCursorCommand (ve_services env) (da_ctx a) (da_reply a) (da_clock a) (da_new_id a)
      kind m target (fl_marker f) w = (w1, x)" by fastforce
  show ?thesis
  proof (cases x)
    case (Inl e)
    then show ?thesis using assms(1) Inr h by (auto simp: dispatchQueue_def target_def intro: accept_error)
  next
    case (Inr y)
    obtain q n where y: "y = (q, n)" by fastforce
    have "flight_accepts env f r w w1"
      if "r = (dispatch_receipt env (fl_id f) (fst w1))\<lparr>rp_queue_id := q, rp_position := loopPosition env n\<rparr>" for r
    proof (cases "fl_marker f")
      case (Some p)
      have a: "accepts (p\<lparr>ca_run_id := '''', ca_queue_id := q\<rparr>) w w1" "n = s_cursor (fst w1)"
        using accept_ok h Some Inr y accepted_shape(2) [OF assms(2) Some] by metis+
      from flight_acceptsI [OF assms(2) Some a(1) _ refl, where env = env and position = "loopPosition env (s_cursor (fst w1))" and g = AcceptanceDurable]
      show ?thesis using assms(3,4) that a(2) by (simp add: dispatch_receipt_def)
    qed (simp add: flight_accepts_def)
    then show ?thesis using assms(1) \<open>input_message env (fl_command f) = Inr m\<close> h Inr y
      by (auto simp: dispatchQueue_def same_keys_def target_def)
  qed
qed (use assms(1) in \<open>auto simp: dispatchQueue_def\<close>)

lemma resolve_answers:
  assumes "dispatchResolve env a f view w = (out, view', w')" "flight_ok f" "fl_reason f = None"
    "sk_kind (fl_command f) \<noteq> CommandInterrupt"
  shows "same_keys view view' \<and> (case out of Inl _ \<Rightarrow> refuses w w' | Inr r \<Rightarrow> flight_accepts env f r w w')"
proof (cases "loopResumeRequest env (fl_command f)")
  case (Inr m)
  obtain w1 x where h: "prepareResumeWithCommand (ve_services env) (da_ctx a) (da_reply a) (da_new_id a)
      m (fl_marker f) w = (w1, x)" by fastforce
  show ?thesis
  proof (cases x)
    case (Inl e)
    then show ?thesis using assms(1) Inr h by (auto simp: dispatchResolve_def intro: resume_error)
  next
    case (Inr y)
    have "flight_accepts env f r w w1" if "r = (dispatch_receipt env (fl_id f) (fst w1))\<lparr>rp_run_id := am_run_id y\<rparr>" for r
    proof (cases "fl_marker f")
      case (Some p)
      have "accepts (p\<lparr>ca_run_id := am_run_id y, ca_queue_id := ''''\<rparr>) w w1"
        using resume_ok h Some Inr accepted_shape(1) [OF assms(2) Some] by metis
      from flight_acceptsI [OF assms(2) Some this _ refl, where env = env and position = "loopPosition env (s_cursor (fst w1))" and g = AcceptanceDurable]
      show ?thesis using assms(3,4) that by (simp add: dispatch_receipt_def)
    qed (simp add: flight_accepts_def)
    then show ?thesis using assms(1) \<open>loopResumeRequest env (fl_command f) = Inr m\<close> h Inr
      by (auto simp: dispatchResolve_def same_keys_def resolve_accepted_def)
  qed
qed (use assms(1) in \<open>auto simp: dispatchResolve_def\<close>)

lemma interrupt_answers:
  assumes "dispatchInterrupt env a f view w = (out, view', w')" "flight_ok f" "fl_reason f = None"
    "sk_kind (fl_command f) = CommandInterrupt"
  shows "same_keys view view' \<and> (case out of Inl _ \<Rightarrow> refuses w w' | Inr r \<Rightarrow> flight_accepts env f r w w')"
proof -
  let ?run = "sk_run_id (fl_command f)"
  obtain w1 x where h: "requestInterruptCommand (ve_services env) (da_ctx a) (da_reply a) ?run (fl_marker f) w = (w1, x)"
    by fastforce
  show ?thesis
  proof (cases x)
    case (Inl e)
    then show ?thesis using assms(1) h by (auto simp: dispatchInterrupt_def intro: request_error)
  next
    case (Inr y)
    have "flight_accepts env f r w w1"
      if "r = (dispatch_receipt env (fl_id f) (fst w1))\<lparr>rp_run_id := ?run,
        rp_position := \<lparr>ps_sequence = 0, ps_token = ''''\<rparr>, rp_guarantee := AcceptanceAccepted\<rparr>" for r
    proof (cases "fl_marker f")
      case (Some p)
      have "?run \<noteq> ''''" using assms(2,4) by (simp add: flight_ok_def Let_def)
      then have "accepts (p\<lparr>ca_run_id := ?run, ca_queue_id := ''''\<rparr>) w w1"
        using request_ok h Some Inr accepted_shape(1) [OF assms(2) Some] by metis
      from flight_acceptsI [OF assms(2) Some this _ refl, where env = env and position = "\<lparr>ps_sequence = 0, ps_token = ''''\<rparr>" and g = AcceptanceAccepted]
      show ?thesis using assms(3,4) that by (simp add: dispatch_receipt_def)
    qed (simp add: flight_accepts_def)
    then show ?thesis using assms(1) h Inr by (auto simp: dispatchInterrupt_def)
  qed
qed

lemma reject_answers:
  assumes "reject_accept env a reason f view w = (out, view', w')" "flight_ok f" "fl_reason f = Some reason"
  shows "same_keys view view' \<and> (case out of Inl _ \<Rightarrow> refuses w w' | Inr r \<Rightarrow> flight_accepts env f r w w')"
proof -
  obtain p where p: "fl_marker f = Some p" using assms(2,3) by (auto simp: flight_ok_def Let_def split: option.splits)
  obtain w1 x where h: "rejectCommand (ve_services env) (da_ctx a) (da_reply a) p w = (w1, x)" by fastforce
  have "flight_accepts env f r w w1"
    if "x = None" "r = (dispatch_receipt env (fl_id f) (fst w1))\<lparr>rp_rejection := reason\<rparr>" for r
  proof -
    have "accepts (p\<lparr>ca_run_id := '''', ca_queue_id := ''''\<rparr>) w w1"
      using reject_ok h that(1) accepted_shape(3) [OF assms(2) p] by metis
    from flight_acceptsI [OF assms(2) p this _ refl, where env = env and position = "loopPosition env (s_cursor (fst w1))" and g = AcceptanceDurable]
    show ?thesis using assms(3) that by (simp add: dispatch_receipt_def)
  qed
  then show ?thesis using assms(1) p h
    by (auto simp: reject_accept_def split: option.splits intro: reject_error)
qed

lemma dispatch_answers:
  assumes "dispatch_accept env a f view w = (out, view', w')" "flight_ok f"
  shows "same_keys view view' \<and> (case out of Inl _ \<Rightarrow> refuses w w' | Inr r \<Rightarrow> flight_accepts env f r w w')"
proof (cases "fl_reason f")
  case None
  have kind: "sk_kind (fl_command f) \<noteq> CommandKindOther k" for k using assms(2) by (simp add: flight_ok_def Let_def)
  show ?thesis
  proof (cases "targeted (sk_kind (fl_command f)) \<and> run_id (fst w) \<noteq> sk_run_id (fl_command f)")
    case True
    then show ?thesis using assms(1) None by (auto simp: dispatch_accept_def Let_def)
  next
    case False
    then have d: "dispatch_accept env a f view w = (case sk_kind (fl_command f) of
        CommandStart \<Rightarrow> dispatchStart env a f view w
      | CommandSteer \<Rightarrow> dispatchQueue env a QueueSteer f view w
      | CommandFollowUp \<Rightarrow> dispatchQueue env a QueueFollowUp f view w
      | CommandNextTurn \<Rightarrow> dispatchQueue env a QueueNextTurn f view w
      | CommandResolve \<Rightarrow> dispatchResolve env a f view w
      | _ \<Rightarrow> dispatchInterrupt env a f view w)"
      using None by (simp only: dispatch_accept_def Let_def option.case if_False)
    show ?thesis using assms(1) kind [of "case sk_kind (fl_command f) of CommandKindOther k \<Rightarrow> k | _ \<Rightarrow> ''''"] unfolding d
      by (cases "sk_kind (fl_command f)")
        (simp_all add: start_answers [OF _ assms(2) None] queue_answers [OF _ assms(2) None]
          resolve_answers [OF _ assms(2) None] interrupt_answers [OF _ assms(2) None])
  qed
next
  case (Some reason)
  then show ?thesis using assms(1) reject_answers [OF _ assms(2) Some] by (simp add: dispatch_accept_def)
qed

subsection \<open>The invariant\<close>

text \<open>The receipt of the acceptance at position \<open>n\<close> of a journal of length \<open>l\<close>.  That of an accepted
  interrupt names the position the session had when the receipt was remembered, which lies between the
  acceptance and the end of the journal.\<close>

definition receipt_of :: "view_env \<Rightarrow> string \<Rightarrow> nat \<Rightarrow> nat \<Rightarrow> command_payload \<Rightarrow> receipt \<Rightarrow> bool" where
  "receipt_of env i l n p r \<longleftrightarrow>
     r = accepted_receipt env i n p \<or>
     ca_kind p = ''interrupt'' \<and> ca_rejection p = '''' \<and>
       (\<exists>m. n \<le> m \<and> m \<le> l \<and> r = (accepted_receipt env i n p)\<lparr>rp_position := loopPosition env m\<rparr>)"

lemma receipt_of_later:
  "ca_kind p = ''interrupt'' \<Longrightarrow> ca_rejection p = '''' \<Longrightarrow> n \<le> m \<Longrightarrow> m \<le> l \<Longrightarrow>
     receipt_of env i l n p ((accepted_receipt env i n p)\<lparr>rp_position := loopPosition env m\<rparr>)"
  unfolding receipt_of_def by (intro disjI2 conjI exI [of _ m]) simp_all

lemma receipt_of_longer: "receipt_of env i l n p r \<Longrightarrow> l \<le> l' \<Longrightarrow> receipt_of env i l' n p r"
  using receipt_of_later [of p n _ l'] by (auto simp: receipt_of_def [of env i l])
    (simp add: receipt_of_def)

text \<open>The journal has the acceptance a remembered receipt stands for.\<close>

definition journaled :: "view_env \<Rightarrow> string \<Rightarrow> fact list \<Rightarrow> string \<Rightarrow> string \<Rightarrow> receipt \<Rightarrow> bool" where
  "journaled env i j k d r \<longleftrightarrow>
     (\<exists>n p. n < length j \<and> j ! n = CommandAccepted p \<and> ca_idempotency_key p = k \<and> ca_digest p = d \<and>
        receipt_of env i (length j) (Suc n) p r)"

text \<open>The journal has the acceptance of a dispatch in flight, and the session, at cursor \<open>c\<close>, is behind it.\<close>

definition flight_journaled :: "view_env \<Rightarrow> string \<Rightarrow> nat \<Rightarrow> fact list \<Rightarrow> flight \<Rightarrow> receipt \<Rightarrow> bool" where
  "flight_journaled env i c j f r \<longleftrightarrow>
     (\<exists>n p q. n < length j \<and> n < c \<and> j ! n = CommandAccepted p \<and> fl_marker f = Some q \<and>
        ca_idempotency_key p = flight_key f \<and> ca_digest p = ca_digest q \<and> ca_kind p = ca_kind q \<and>
        ca_rejection p = ca_rejection q \<and> raw_receipt env i f (Suc n) p r)"

definition keys_ok :: "fact list \<Rightarrow> bool" where
  "keys_ok j \<longleftrightarrow> distinct (map ca_idempotency_key (acceptances j)) \<and> (\<forall>p\<in>set (acceptances j). payload_ok p)"

abbreviation journal_keys :: "fact list \<Rightarrow> string set" where
  "journal_keys j \<equiv> ca_idempotency_key ` set (acceptances j)"

type_synonym flights = "(flight \<times> receipt result option) list"

definition flight_keys :: "flights \<Rightarrow> string list" where
  "flight_keys fs = filter (\<lambda>k. k \<noteq> '''') (map (\<lambda>x. flight_key (fst x)) fs)"

definition trusted :: "session \<Rightarrow> bool" where
  "trusted s \<longleftrightarrow> s_acceptance_fault s = None \<or> live s"

definition unaccepted :: "flight \<times> receipt result option \<Rightarrow> bool" where
  "unaccepted x \<longleftrightarrow> flight_key (fst x) \<noteq> '''' \<and> (case snd x of Some (Inr _) \<Rightarrow> False | _ \<Rightarrow> True)"

definition landed :: "flights \<Rightarrow> string set" where
  "landed fs = {flight_key f | f r. (f, Some (Inr r)) \<in> set fs}"

definition knows :: "view_env \<Rightarrow> string \<Rightarrow> fact list \<Rightarrow> loop_view \<Rightarrow> bool" where
  "knows env i j view \<longleftrightarrow> (\<forall>k d r. lv_idempotency view k = Some (d, r) \<longrightarrow> journaled env i j k d r)"

definition claims_ok :: "loop_view \<Rightarrow> flights \<Rightarrow> bool" where
  "claims_ok view fs \<longleftrightarrow> distinct (flight_keys fs) \<and> set (lv_claims view) = set (flight_keys fs) \<and>
     (\<forall>k\<in>set (flight_keys fs). lv_idempotency view k = None)"

definition flights_ok :: "view_env \<Rightarrow> string \<Rightarrow> nat \<Rightarrow> fact list \<Rightarrow> flights \<Rightarrow> bool" where
  "flights_ok env i c j fs \<longleftrightarrow>
     (\<forall>x\<in>set fs. flight_ok (fst x) \<and>
        (\<forall>r. snd x = Some (Inr r) \<and> flight_key (fst x) \<noteq> '''' \<longrightarrow> flight_journaled env i c j (fst x) r))"

definition covers :: "fact list \<Rightarrow> loop_view \<Rightarrow> flights \<Rightarrow> bool" where
  "covers j view fs \<longleftrightarrow> journal_keys j \<subseteq> dom (lv_idempotency view) \<union> landed fs"

definition unaccepted_new :: "fact list \<Rightarrow> flights \<Rightarrow> bool" where
  "unaccepted_new j fs \<longleftrightarrow> (\<forall>x\<in>set fs. unaccepted x \<longrightarrow> flight_key (fst x) \<notin> journal_keys j)"

definition view_ok :: "view_env \<Rightarrow> string \<Rightarrow> loop_view \<Rightarrow> flights \<Rightarrow> session \<Rightarrow> fact list \<Rightarrow> bool" where
  "view_ok env i view fs s j \<longleftrightarrow> knows env i j view \<and> claims_ok view fs \<and> flights_ok env i (s_cursor s) j fs \<and>
     (trusted s \<longrightarrow> covers j view fs \<and> unaccepted_new j fs)"

fun loop_ok :: "view_env \<Rightarrow> string \<Rightarrow> loop_state \<Rightarrow> bool" where
  "loop_ok env i (None, fs, h, j) = (keys_ok j \<and> fs = [])"
| "loop_ok env i (Some view, fs, None, j) = False"
| "loop_ok env i (Some view, fs, Some s, j) = (keys_ok j \<and> view_ok env i view fs s j)"

subsection \<open>A longer journal\<close>


lemma journaled_extends: "journaled env i j k d r \<Longrightarrow> journaled env i (j @ xs) k d r"
proof -
  assume "journaled env i j k d r"
  then obtain n p where n: "n < length j" "j ! n = CommandAccepted p" "ca_idempotency_key p = k" "ca_digest p = d"
      "receipt_of env i (length j) (Suc n) p r"
    by (auto simp: journaled_def)
  from n(5) have "receipt_of env i (length (j @ xs)) (Suc n) p r" by (rule receipt_of_longer) simp
  with n(1-4) show ?thesis unfolding journaled_def
    by (intro exI [of _ n] exI [of _ p]) (simp add: nth_append)
qed

lemma knows_extends: "knows env i j view \<Longrightarrow> same_keys view view' \<Longrightarrow> knows env i (j @ xs) view'"
  unfolding knows_def same_keys_def by (auto intro: journaled_extends)

lemma flight_journaled_extends:
  "flight_journaled env i c j f r \<Longrightarrow> c \<le> c' \<Longrightarrow> flight_journaled env i c' (j @ xs) f r"
proof -
  assume "flight_journaled env i c j f r" "c \<le> c'"
  then obtain n p q where n: "n < length j" "n < c'" "j ! n = CommandAccepted p" "fl_marker f = Some q"
      "ca_idempotency_key p = flight_key f" "ca_digest p = ca_digest q" "ca_kind p = ca_kind q"
      "ca_rejection p = ca_rejection q" "raw_receipt env i f (Suc n) p r"
    by (auto simp: flight_journaled_def)
  then show ?thesis unfolding flight_journaled_def
    by (intro exI [of _ n] exI [of _ p] exI [of _ q]) (simp add: nth_append)
qed

lemma flights_extends: "flights_ok env i c j fs \<Longrightarrow> c \<le> c' \<Longrightarrow> flights_ok env i c' (j @ xs) fs"
  unfolding flights_ok_def by (blast intro: flight_journaled_extends)

lemma landed_simps [simp]:
  "landed (fs @ gs) = landed fs \<union> landed gs" "landed [] = {}"
  "landed ((f, out) # fs) = (case out of Some (Inr r) \<Rightarrow> insert (flight_key f) (landed fs) | _ \<Rightarrow> landed fs)"
  by (auto simp: landed_def split: option.split sum.split)

lemma flight_keys_simps [simp]:
  "flight_keys (fs @ gs) = flight_keys fs @ flight_keys gs" "flight_keys [] = []"
  "flight_keys ((f, out) # fs) = (if flight_key f = '''' then flight_keys fs else flight_key f # flight_keys fs)"
  by (simp_all add: flight_keys_def)

lemma landed_keys: "k \<in> landed fs \<Longrightarrow> k \<noteq> '''' \<Longrightarrow> k \<in> set (flight_keys fs)"
  by (force simp: landed_def flight_keys_def)

lemma unaccepted_simps [simp]:
  "unaccepted (f, None) = (flight_key f \<noteq> '''')" "unaccepted (f, Some (Inl e)) = (flight_key f \<noteq> '''')"
  "\<not> unaccepted (f, Some (Inr r))"
  by (simp_all add: unaccepted_def)

lemma journal_key_nonempty: "keys_ok j \<Longrightarrow> k \<in> journal_keys j \<Longrightarrow> k \<noteq> ''''"
  by (auto simp: keys_ok_def payload_ok_def)

subsection \<open>Steps of the session leave the keys alone\<close>

lemma silent_trusted: "silent (s, j) w \<Longrightarrow> \<not> live s \<Longrightarrow> trusted (fst w) \<Longrightarrow> trusted s"
  by (auto simp: silent_def trusted_def)

lemma step_trusted:
  assumes "session_step v i c (Some s, j) (Some s', j')" "trusted s'"
  shows "trusted s"
  using dead_step [OF assms(1)] assms(2) silent_trusted [of s j "(s', j)"] by (auto simp: trusted_def)

lemma step_writes:
  assumes "session_step v i c (Some s, j) (Some s', j')" "j' \<noteq> j"
  shows "live s"
  using dead_step [OF assms(1)] assms(2) by auto

lemma step_plain:
  assumes "session_step v i None (Some s, j) (Some s', j')"
  shows "\<exists>xs. j' = j @ xs \<and> acceptances j' = acceptances j"
  using step_grows [OF assms] by (auto simp: admits_def)

lemma view_ok_extends:
  assumes "view_ok env i view fs s j" "acceptances (j @ xs) = acceptances j" "trusted s' \<longrightarrow> trusted s"
    "s_cursor s \<le> s_cursor s'"
  shows "view_ok env i view fs s' (j @ xs)"
  using assms knows_extends [of env i j view view xs] flights_extends [of env i "s_cursor s" j fs "s_cursor s'" xs]
  by (auto simp: view_ok_def covers_def unaccepted_new_def)

lemma session_step_ok:
  assumes "session_step v i None (Some s, j) (Some s', j')" "view_ok env k view fs s j"
  shows "view_ok env k view fs s' j'"
  using step_plain [OF assms(1)] view_ok_extends [OF assms(2)] step_trusted [OF assms(1)] step_climbs [OF assms(1)]
  by (auto simp: climbs_def)

subsection \<open>A dispatch begins, lands and ends\<close>

lemma begin_ok:
  assumes "view_ok env i view fs s j" "keys_ok j" "flight_ok f" "takes_key (flight_key f) s view view'"
  shows "view_ok env i view' (fs @ [(f, None)]) s j"
proof (cases "flight_key f = ''''")
  case True
  then show ?thesis using assms
    by (auto simp: takes_key_def view_ok_def claims_ok_def flights_ok_def covers_def unaccepted_new_def)
next
  case False
  have t: "s_acceptance_fault s = None" "lv_idempotency view (flight_key f) = None" "flight_key f \<notin> set (lv_claims view)"
    "view' = view\<lparr>lv_claims := flight_key f # lv_claims view\<rparr>"
    using assms(4) False by (auto simp: takes_key_def)
  have new: "flight_key f \<notin> set (flight_keys fs)" using t(3) assms(1) by (simp add: view_ok_def claims_ok_def)
  have "trusted s" using t(1) by (simp add: trusted_def)
  then have "flight_key f \<notin> journal_keys j"
    using assms(1) t(2) new landed_keys False by (auto simp: view_ok_def covers_def domIff)
  then show ?thesis using assms(1,3) False t new
    by (auto simp: view_ok_def knows_def claims_ok_def flights_ok_def covers_def unaccepted_new_def)
qed

lemma claims_split:
  assumes "distinct (flight_keys (fs @ (f, out) # gs))" "x \<in> set (fs @ gs)" "flight_key (fst x) \<noteq> ''''"
  shows "flight_key (fst x) \<noteq> flight_key f"
proof -
  have "flight_key (fst x) \<in> set (flight_keys (fs @ gs))" using assms(2,3) by (force simp: flight_keys_def)
  then show ?thesis using assms(1,3) by (auto split: if_splits)
qed

lemma reject_writes:
  "rejectCommand v ctx reply p w = (w', r) \<Longrightarrow> snd w' \<noteq> snd w \<Longrightarrow> snd w' = snd w @ [CommandAccepted p]"
  by (cases w) (auto simp: rejectCommand_def appendAcceptanceLocked_def journal_append_def
      split: option.splits prod.splits if_splits reply.splits sum.splits)

text \<open>The critical section, as the journal sees it.\<close>

lemma accept_grows:
  assumes "dispatch_accept env a f view (s, j) = (out, view', (s', j'))" "fl_reason f = None \<Longrightarrow> fresh_ids a j" "flight_ok f" "keys_ok j"
    "trusted s \<longrightarrow> flight_key f \<noteq> '''' \<longrightarrow> flight_key f \<notin> journal_keys j"
  obtains xs where "j' = j @ xs" "keys_ok j'" "trusted s' \<longrightarrow> trusted s" "s_cursor s \<le> s_cursor s'"
    "acceptances j' = acceptances j \<or> (flight_key f \<noteq> '''' \<and> journal_keys j' = insert (flight_key f) (journal_keys j) \<and>
        (trusted s' \<longrightarrow> (\<exists>r. out = Inr r)))"
proof -
  have step: "(s', j') = (s, j) \<or> session_step (ve_services env) i (fl_marker f) (Some s, j) (Some s', j')" for i
    using accept_is_step [OF assms(1,2), of i] by (simp add: held_def)
  then have trust: "trusted s' \<longrightarrow> trusted s" "s_cursor s \<le> s_cursor s'"
    using step_trusted step_climbs by (blast, fastforce simp: climbs_def)
  obtain xs where xs: "j' = j @ xs" "admits (fl_marker f) xs"
    using step [of undefined] step_grows [of "ve_services env" undefined "fl_marker f" s j "(Some s', j')"] by auto
  show ?thesis
  proof (cases "acceptances xs = []")
    case True
    then show ?thesis using that xs(1) trust assms(4) by (simp add: keys_ok_def)
  next
    case False
    then obtain p p' where p: "fl_marker f = Some p" "acceptances xs = [p']" "filled p p'"
      using xs(2) by (auto simp: admits_def)
    have key: "ca_idempotency_key p' = flight_key f" "flight_key f \<noteq> ''''"
      using p assms(3) by (auto simp: filled_def flight_ok_def flight_key_def Let_def)
    have "j' \<noteq> j" using False xs(1) by auto
    then have "live s" using step step_writes by blast
    then have new: "flight_key f \<notin> journal_keys j" using assms(5) key(2) by (simp add: trusted_def)
    have out: "case out of Inl _ \<Rightarrow> refuses (s, j) (s', j') | Inr r \<Rightarrow> flight_accepts env f r (s, j) (s', j')"
      using dispatch_answers [OF assms(1,3)] by simp
    have "payload_ok p'"
    proof (cases "fl_reason f")
      case None
      then show ?thesis using p assms(3) by (auto simp: payload_ok_def filled_def flight_ok_def Let_def)
    next
      case (Some reason)
      then have "reject_accept env a reason f view (s, j) = (out, view', (s', j'))"
        using assms(1) by (simp add: dispatch_accept_def)
      then have "j' = j @ [CommandAccepted p]"
        using p(1) \<open>j' \<noteq> j\<close> by (auto simp: reject_accept_def split: option.splits prod.splits dest: reject_writes)
      then show ?thesis using p(1,2) xs(1) assms(3) Some by (auto simp: payload_ok_def flight_ok_def Let_def)
    qed
    then show ?thesis using that [of xs] xs(1) trust assms(4) p(2) key new out \<open>j' \<noteq> j\<close>
      by (auto simp: keys_ok_def refuses_def trusted_def split: sum.splits)
  qed
qed

lemma accepted_journaled:
  assumes "flight_accepts env f r (s, j) (s', j')" "flight_ok f" "flight_key f \<noteq> ''''"
  shows "flight_journaled env (s_id s) (s_cursor s') j' f r"
proof -
  obtain q where q: "fl_marker f = Some q" "ca_idempotency_key q = flight_key f"
    using assms(2,3) by (auto simp: flight_ok_def flight_key_def Let_def split: option.splits)
  then obtain run queue xs where a: "j' = j @ xs @ [CommandAccepted (q\<lparr>ca_run_id := run, ca_queue_id := queue\<rparr>)]"
      "s_cursor s' = length j'" "raw_receipt env (s_id s) f (length j') (q\<lparr>ca_run_id := run, ca_queue_id := queue\<rparr>) r"
    using assms(1) by (auto simp: flight_accepts_def accepts_def Let_def)
  let ?p = "q\<lparr>ca_run_id := run, ca_queue_id := queue\<rparr>" let ?n = "length (j @ xs)"
  have "?n < length j'" "j' ! ?n = CommandAccepted ?p" using a(1) by (simp, simp add: nth_append)
  moreover have "raw_receipt env (s_id s) f (Suc ?n) ?p r" using a by simp
  ultimately show ?thesis using q a(2) unfolding flight_journaled_def
    by (intro exI [of _ ?n] exI [of _ ?p] exI [of _ q]) simp
qed

lemma accepting_ok:
  assumes "view_ok env (s_id s) view (fs @ (f, None) # gs) s j" "keys_ok j" "fl_reason f = None \<Longrightarrow> fresh_ids a j"
    "dispatch_accept env a f view (s, j) = (out, view', (s', j'))"
  shows "keys_ok j' \<and> view_ok env (s_id s) view' (fs @ (f, Some out) # gs) s' j'"
proof -
  let ?fs = "fs @ (f, None) # gs" let ?fs' = "fs @ (f, Some out) # gs"
  have f: "flight_ok f" using assms(1) by (auto simp: view_ok_def flights_ok_def)
  note answers = dispatch_answers [OF assms(4) f]
  have same: "lv_idempotency view' = lv_idempotency view" "lv_claims view' = lv_claims view" "same_keys view view'"
    using answers by (simp_all add: same_keys_def)
  have new: "trusted s \<longrightarrow> flight_key f \<noteq> '''' \<longrightarrow> flight_key f \<notin> journal_keys j"
    using assms(1) by (auto simp: view_ok_def unaccepted_new_def)
  obtain xs where j': "j' = j @ xs" "keys_ok j'" "trusted s' \<longrightarrow> trusted s" "s_cursor s \<le> s_cursor s'"
    "acceptances j' = acceptances j \<or> (flight_key f \<noteq> '''' \<and> journal_keys j' = insert (flight_key f) (journal_keys j) \<and>
        (trusted s' \<longrightarrow> (\<exists>r. out = Inr r)))"
    using accept_grows [OF assms(4,3) f assms(2) new] .
  have claims: "claims_ok view ?fs" using assms(1) by (simp add: view_ok_def)
  have "claims_ok view' ?fs'" using claims same by (simp add: claims_ok_def)
  moreover have "knows env (s_id s) j' view'" using assms(1) same knows_extends j'(1) by (auto simp: view_ok_def)
  moreover have "flights_ok env (s_id s) (s_cursor s') j' ?fs'"
  proof -
    have "flights_ok env (s_id s) (s_cursor s') j' ?fs"
      using assms(1) flights_extends [OF _ j'(4)] j'(1) by (auto simp: view_ok_def)
    moreover have "flight_journaled env (s_id s) (s_cursor s') j' f r" if "out = Inr r" "flight_key f \<noteq> ''''" for r
      using accepted_journaled [of env f r s j s' j'] answers f that by simp
    ultimately show ?thesis by (auto simp: flights_ok_def)
  qed
  moreover have "covers j' view' ?fs' \<and> unaccepted_new j' ?fs'" if t: "trusted s'"
  proof -
    have old: "covers j view ?fs" "unaccepted_new j ?fs" using assms(1) t j'(3) by (auto simp: view_ok_def)
    have others: "flight_key (fst x) \<noteq> flight_key f" if "x \<in> set (fs @ gs)" "unaccepted x" for x
      using claims_split [of fs f None gs x] claims that by (auto simp: claims_ok_def unaccepted_def)
    show ?thesis
    proof (cases "acceptances j' = acceptances j")
      case True
      then show ?thesis using old same
        by (auto simp: covers_def unaccepted_new_def unaccepted_def split: option.splits sum.splits)
    next
      case False
      then obtain r where k: "journal_keys j' = insert (flight_key f) (journal_keys j)" "out = Inr r"
        using j'(5) t by auto
      then show ?thesis using old same others unfolding covers_def unaccepted_new_def k(1) by auto
    qed
  qed
  ultimately show ?thesis using j'(2) by (simp add: view_ok_def)
qed

lemma finished_receipt:
  assumes "flight_journaled env i (s_cursor s) j f r" "flight_ok f" "s_cursor s \<le> length j"
  shows "\<exists>q. fl_marker f = Some q \<and> ca_idempotency_key q = flight_key f \<and>
    journaled env i j (flight_key f) (ca_digest q) (interrupt_receipt env f s r)"
proof -
  obtain n p q where x: "n < length j" "n < s_cursor s" "j ! n = CommandAccepted p" "fl_marker f = Some q"
      "ca_idempotency_key p = flight_key f" "ca_digest p = ca_digest q" "ca_kind p = ca_kind q"
      "ca_rejection p = ca_rejection q" "raw_receipt env i f (Suc n) p r"
    using assms(1) by (auto simp: flight_journaled_def)
  have q: "ca_idempotency_key q = flight_key f" "ca_kind q = command_kind_text (sk_kind (fl_command f))"
      "fl_reason f = None \<Longrightarrow> ca_rejection q = ''''"
    using x(4) assms(2) by (auto simp: flight_ok_def flight_key_def Let_def)
  have "receipt_of env i (length j) (Suc n) p (interrupt_receipt env f s r)"
  proof (cases "sk_kind (fl_command f) = CommandInterrupt \<and> fl_reason f = None")
    case True
    then have "interrupt_receipt env f s r = (accepted_receipt env i (Suc n) p)\<lparr>rp_position := loopPosition env (s_cursor s)\<rparr>"
      using x(4,9) by (simp add: raw_receipt_def interrupt_receipt_def accepted_receipt_def)
    moreover have "ca_kind p = ''interrupt''" "ca_rejection p = ''''" using True x(7,8) q(2,3) by simp_all
    ultimately show ?thesis using receipt_of_later [of p "Suc n" "s_cursor s" "length j"] x(2) assms(3) by simp
  next
    case False
    then show ?thesis using x(9) by (auto simp: receipt_of_def raw_receipt_def interrupt_receipt_def)
  qed
  then show ?thesis using x q(1) unfolding journaled_def by (intro exI [of _ q]) auto
qed

lemma finish_ok:
  assumes "view_ok env i view (fs @ (f, Some out) # gs) s j" "dispatch_finish env f out s view = (r, view')" "keys_ok j"
    "s_cursor s \<le> length j"
  shows "view_ok env i view' (fs @ gs) s j"
proof (cases "flight_key f = ''''")
  case True
  then have "fl_marker f = None" using assms(1)
    by (auto simp: view_ok_def flights_ok_def flight_ok_def flight_key_def Let_def split: option.splits)
  then have "view' = view" using assms(2) True
    by (auto simp: dispatch_finish_def flight_key_def rememberCommandAcceptance_def Let_def split: sum.splits)
  moreover have "covers j view (fs @ gs)" if c: "covers j view (fs @ (f, Some out) # gs)"
  proof -
    have "landed (fs @ (f, Some out) # gs) \<subseteq> insert '''' (landed (fs @ gs))" using True by (cases out) auto
    then show ?thesis using c journal_key_nonempty [OF assms(3)] unfolding covers_def by blast
  qed
  ultimately show ?thesis using assms(1) True
    by (auto simp: view_ok_def claims_ok_def flights_ok_def unaccepted_new_def)
next
  case False
  have ok: "flight_ok f" using assms(1) by (auto simp: view_ok_def flights_ok_def)
  have distinct: "flight_key f \<notin> set (flight_keys (fs @ gs))"
    using assms(1) False by (auto simp: view_ok_def claims_ok_def)
  show ?thesis
  proof (cases out)
    case (Inl e)
    then have "view' = releaseIdempotencyClaim (flight_key f) view"
      using assms(2) False by (auto simp: dispatch_finish_def flight_key_def)
    then show ?thesis using assms(1) False distinct Inl
      by (auto simp: view_ok_def knows_def claims_ok_def flights_ok_def covers_def unaccepted_new_def releaseIdempotencyClaim_def)
  next
    case (Inr r0)
    then obtain q where q: "fl_marker f = Some q" "ca_idempotency_key q = flight_key f"
        "journaled env i j (flight_key f) (ca_digest q) (interrupt_receipt env f s r0)"
      using finished_receipt [of env i s j f r0] ok assms(1,4) False by (auto simp: view_ok_def flights_ok_def)
    then have view': "view' = releaseIdempotencyClaim (flight_key f)
        (view\<lparr>lv_idempotency := (lv_idempotency view)(flight_key f \<mapsto> (ca_digest q, interrupt_receipt env f s r0))\<rparr>)"
      using assms(2) False Inr by (auto simp: dispatch_finish_def flight_key_def rememberCommandAcceptance_def Let_def)
    then have know: "knows env i j view'" "claims_ok view' (fs @ gs)" "flights_ok env i (s_cursor s) j (fs @ gs)"
      using assms(1) False distinct q(3)
      by (auto simp: view_ok_def knows_def claims_ok_def flights_ok_def releaseIdempotencyClaim_def)
    moreover have "covers j view' (fs @ gs) \<and> unaccepted_new j (fs @ gs)" if "trusted s"
      using assms(1) that view' Inr
      by (auto simp: view_ok_def covers_def unaccepted_new_def releaseIdempotencyClaim_def)
    ultimately show ?thesis by (simp add: view_ok_def)
  qed
qed

subsection \<open>Opening a view\<close>

text \<open>What a journal says about a key.\<close>

definition recorded :: "view_env \<Rightarrow> string \<Rightarrow> nat \<Rightarrow> fact list \<Rightarrow> string \<Rightarrow> string \<Rightarrow> receipt \<Rightarrow> bool" where
  "recorded env i m j k d r \<longleftrightarrow>
     (\<exists>n p. n < length j \<and> j ! n = CommandAccepted p \<and> ca_idempotency_key p = k \<and> ca_digest p = d \<and>
        r = accepted_receipt env i (m + n) p)"

lemma recorded_Nil [simp]: "\<not> recorded env i m [] k d r"
  by (simp add: recorded_def)

lemma recorded_Cons: "recorded env i m (e # j) k d r \<longleftrightarrow>
    (\<exists>p. e = CommandAccepted p \<and> ca_idempotency_key p = k \<and> ca_digest p = d \<and> r = accepted_receipt env i m p) \<or>
    recorded env i (Suc m) j k d r"
proof
  assume "recorded env i m (e # j) k d r"
  then obtain n p where n: "n < Suc (length j)" "(e # j) ! n = CommandAccepted p" "ca_idempotency_key p = k"
      "ca_digest p = d" "r = accepted_receipt env i (m + n) p" by (auto simp: recorded_def)
  show "(\<exists>p. e = CommandAccepted p \<and> ca_idempotency_key p = k \<and> ca_digest p = d \<and> r = accepted_receipt env i m p) \<or>
      recorded env i (Suc m) j k d r"
  proof (cases n)
    case 0
    then show ?thesis using n by auto
  next
    case (Suc n')
    then show ?thesis using n unfolding recorded_def by (intro disjI2 exI [of _ n'] exI [of _ p]) auto
  qed
next
  assume "(\<exists>p. e = CommandAccepted p \<and> ca_idempotency_key p = k \<and> ca_digest p = d \<and> r = accepted_receipt env i m p) \<or>
      recorded env i (Suc m) j k d r"
  then show "recorded env i m (e # j) k d r"
  proof
    assume "recorded env i (Suc m) j k d r"
    then obtain n p where "n < length j" "j ! n = CommandAccepted p" "ca_idempotency_key p = k"
        "ca_digest p = d" "r = accepted_receipt env i (Suc m + n) p" by (auto simp: recorded_def)
    then show ?thesis unfolding recorded_def by (intro exI [of _ "Suc n"] exI [of _ p]) simp
  qed (auto simp: recorded_def)
qed

lemma recorded_key: "recorded env i m j k d r \<Longrightarrow> k \<in> journal_keys j"
  by (induction j arbitrary: m) (auto simp: recorded_Cons split: option.splits fact.splits)

definition decodes :: "fact list \<Rightarrow> bool" where
  "decodes j \<longleftrightarrow> (\<forall>kind. BrokenFact kind \<notin> set j)"

lemma remember_restored_keys:
  "lv_idempotency (remember_restored p r l view) = (lv_idempotency view)(ca_idempotency_key p \<mapsto> (ca_digest p, r))"
  "lv_claims (remember_restored p r l view) = lv_claims view"
  by (simp_all add: remember_restored_def Let_def)

lemma restore_one_ok:
  "payload_ok p \<Longrightarrow> lv_idempotency view (ca_idempotency_key p) = None \<Longrightarrow>
     restore_one env i n l p view = Inr (remember_restored p (accepted_receipt env i n p) l view)"
  by (auto simp: restore_one_def payload_ok_def)

text \<open>Restoring from a well-formed journal succeeds and remembers each acceptance once.\<close>

lemma restore_exact:
  assumes "keys_ok j" "decodes j" "journal_keys j \<inter> dom (lv_idempotency view) = {}"
  shows "\<exists>view'. restore_from env i n l j view = Inr view' \<and> lv_claims view' = lv_claims view \<and>
    (\<forall>k d r. lv_idempotency view' k = Some (d, r) \<longleftrightarrow> lv_idempotency view k = Some (d, r) \<or> recorded env i n j k d r)"
  using assms
proof (induction j arbitrary: n l view)
  case (Cons e j)
  show ?case
  proof (cases "\<exists>p. e = CommandAccepted p")
    case True
    then obtain p where e: "e = CommandAccepted p" by blast
    let ?view = "remember_restored p (accepted_receipt env i n p) l view"
    have p: "payload_ok p" "ca_idempotency_key p \<notin> journal_keys j" "keys_ok j" "decodes j"
      using Cons.prems e by (auto simp: keys_ok_def decodes_def)
    have free: "lv_idempotency view (ca_idempotency_key p) = None" using Cons.prems(3) e by auto
    have "journal_keys j \<inter> dom (lv_idempotency ?view) = {}"
      using Cons.prems(3) p(2) e by (auto simp: remember_restored_keys)
    from Cons.IH [OF p(3,4) this, of "Suc n" l] obtain view' where v:
      "restore_from env i (Suc n) l j ?view = Inr view'" "lv_claims view' = lv_claims ?view"
      "\<And>k d r. lv_idempotency view' k = Some (d, r) \<longleftrightarrow> lv_idempotency ?view k = Some (d, r) \<or> recorded env i (Suc n) j k d r"
      by blast
    have "restore_from env i n l (e # j) view = Inr view'"
      using v(1) restore_one_ok [OF p(1) free] e by simp
    moreover have "lv_idempotency view' k = Some (d, r) \<longleftrightarrow> lv_idempotency view k = Some (d, r) \<or> recorded env i n (e # j) k d r" for k d r
      unfolding v(3) recorded_Cons remember_restored_keys using free e by auto
    ultimately show ?thesis using v(2) by (auto simp: remember_restored_keys)
  next
    case False
    then have j: "keys_ok j" "decodes j" "journal_keys j \<inter> dom (lv_idempotency view) = {}" "\<And>k. e \<noteq> BrokenFact k"
      using Cons.prems by (auto simp: keys_ok_def decodes_def split: fact.splits)
    obtain l' where "restore_from env i n l (e # j) view = restore_from env i (Suc n) l' j view"
      using False j(4) by (cases e) auto
    then show ?thesis using Cons.IH [OF j(1-3), of "Suc n" l'] False unfolding recorded_Cons by auto
  qed
qed simp

lemma standard_idempotent [simp]: "Supports (standard_caps b) ''dispatch.idempotent''"
  by (simp add: Supports_def standard_caps_def)

lemma open_exact:
  assumes "keys_ok j" "decodes j" "availability (empty_view (standard_caps b)) s = None"
  shows "\<exists>view. NewLoopView env (standard_caps b) s j = Inr view \<and> lv_claims view = [] \<and>
    (\<forall>k d r. lv_idempotency view k = Some (d, r) \<longleftrightarrow> recorded env (s_id s) 1 j k d r)"
  using restore_exact [OF assms(1,2), of "empty_view (standard_caps b)" env "s_id s" 1 0] assms(3)
  by (simp add: NewLoopView_def restoreCommandAcceptances_def empty_view_def)

end
