(* ===== verification/Loop_Props.thy ===== *)
theory Loop_Props
  imports Loop_Safe Session_Example
begin

text \<open>
  What the session view promises its callers: a key is accepted at most once, the receipt of an accepted
  command is found again after any restart, an answered dispatch is in the journal, and an actor that hands
  its mailbox to the view loses and repeats nothing.
\<close>

subsection \<open>The invariant holds\<close>

lemma new_keys: "session_New v reply i scope budget drain_all initial = (j, r) \<Longrightarrow> keys_ok j"
  by (auto simp: session_New_def Let_def journal_append_def created_facts_def keys_ok_def
      split: option.splits sum.splits prod.splits if_splits reply.splits)

lemma reachable_decodes:
  assumes "session_reachable v i (h, j)" "faithful v"
  shows "decodes j"
proof -
  have fold: "fold_facts j f = Inr f' \<Longrightarrow> decodes j" for f f' and j :: "fact list"
  proof (induction j arbitrary: f)
    case (Cons e j)
    then show ?case by (cases e) (auto simp: fold_fact_def decodes_def split: sum.splits)
  qed (simp add: decodes_def)
  show ?thesis using reachable_ok [OF assms] fold by (auto simp: handle_ok_def readable_def)
qed

lemma reachable_id: "session_reachable v i (Some s, j) \<Longrightarrow> faithful v \<Longrightarrow> s_id s = i"
  using reachable_ok [of v i "(Some s, j)"] by (auto simp: handle_ok_def sound_def)

lemma accepted_member: "CommandAccepted p \<in> set j \<longleftrightarrow> p \<in> set (acceptances j)"
  by (induction j) (auto split: fact.splits)

lemma open_ok:
  assumes "NewLoopView env (standard_caps b) s j = Inr view" "keys_ok j" "decodes j"
  shows "view_ok env (s_id s) view [] s j"
proof -
  have "availability (empty_view (standard_caps b)) s = None"
    using assms(1) by (simp add: NewLoopView_def split: option.splits)
  from open_exact [OF assms(2,3) this, of env] assms(1) have v: "lv_claims view = []"
    "\<And>k d r. lv_idempotency view k = Some (d, r) \<longleftrightarrow> recorded env (s_id s) 1 j k d r" by auto
  have "recorded env (s_id s) 1 j k d r \<Longrightarrow> journaled env (s_id s) j k d r" for k d r
    by (auto simp: recorded_def journaled_def receipt_of_def)
  moreover have "\<exists>d r. recorded env (s_id s) 1 j k d r" if "k \<in> journal_keys j" for k
  proof -
    obtain p where p: "p \<in> set (acceptances j)" "k = ca_idempotency_key p" using \<open>k \<in> journal_keys j\<close> by auto
    then obtain n where "n < length j" "j ! n = CommandAccepted p" by (metis accepted_member in_set_conv_nth)
    then show ?thesis using p(2) by (auto simp: recorded_def)
  qed
  ultimately show ?thesis using v
    by (auto simp: view_ok_def knows_def claims_ok_def flights_ok_def covers_def unaccepted_new_def domIff)
qed

lemma recover_keys: "keys_ok j \<Longrightarrow> keys_ok (fst (Session_Recovery.Recover v reply reply' new_id i scope j))"
proof -
  have none: "\<exists>xs. fst (dropped_on_error (recover_session v reply reply' new_id f (s, j))) = j @ xs \<and> acceptances xs = []" for f s
    using grows_recover_session [of "(s, j)" v reply reply' new_id f]
    by (cases "recover_session v reply reply' new_id f (s, j)")
       (auto simp: dropped_on_error_def grows_def admits_def split: option.splits)
  have "\<exists>xs. fst (Session_Recovery.Recover v reply reply' new_id i scope j) = j @ xs \<and> acceptances xs = []"
    using none by (simp add: Session_Recovery.Recover_def split: sum.split option.split)
  then show "keys_ok j \<Longrightarrow> ?thesis" by (auto simp: keys_ok_def)
qed

lemma loop_step_ok:
  assumes "loop_step env i x y" "loop_ok env i x" "session_reachable (ve_services env) i (snd (snd x))"
    "faithful (ve_services env)" "digests env"
  shows "loop_ok env i y"
  using assms(1)
proof cases
  case (loop_begin a c view s f view' j fs)
  then show ?thesis using assms(2) begin_ok dispatch_begins [OF _ assms(5)] by (auto simp: fresh_ids_def)
next
  case (loop_begin_reject a c reason view s f view' fs j)
  then show ?thesis using assms(2) begin_ok reject_begins [OF _ assms(5)] by auto
next
  case (loop_accept a f view s j out view' w fs gs)
  have "s_id s = i" using reachable_id assms(3,4) loop_accept(1) by simp
  then show ?thesis using accepting_ok [of env s view fs f gs j a out view' "fst w" "snd w"] assms(2) loop_accept
    by (simp add: held_def)
next
  case (loop_finish f out s view r view' fs gs j)
  then have "s_cursor s \<le> length j" using reachable_cursor [OF assms(3)] by simp
  then show ?thesis using assms(2) finish_ok loop_finish by auto
next
  case (loop_session s j s' j' view fs)
  then have "keys_ok j'" using step_plain [of _ _ s j s' j'] assms(2) by (cases view) (auto simp: keys_ok_def)
  then show ?thesis using session_step_ok [OF loop_session(3), of env i] assms(2) loop_session by (cases view) auto
next
  case (loop_close abandon view s view' s' fs j)
  have "trusted s' \<Longrightarrow> trusted s"
    using loop_close(3) silent_trusted [OF silent_end(1), of s j] by (auto simp: close_view_def trusted_def split: if_splits)
  moreover have "s_cursor s' = s_cursor s" using loop_close(3) by (auto simp: close_view_def split: if_splits)
  ultimately show ?thesis using assms(2) loop_close
    by (auto simp: close_view_def view_ok_def knows_def claims_ok_def covers_def)
next
  case (loop_crash view fs s j)
  then show ?thesis using assms(2) by (cases view) auto
next
  case (loop_recover j reply reply' new_id scope)
  then show ?thesis using assms(2) recover_keys by (auto simp: recovered_handle_def)
next
  case (loop_open structured s j view)
  then show ?thesis using assms(2) open_ok [OF loop_open(3)] reachable_decodes reachable_id assms(3,4)
    by (metis loop_ok.simps(1,3) snd_conv)
qed

lemma reachable_loop_ok:
  assumes "loop_reachable env i x" "faithful (ve_services env)" "digests env"
  shows "loop_ok env i x"
  using assms(1)
proof (induction rule: loop_reachable.induct)
  case (loop_next x y)
  then show ?case using loop_step_ok loop_reachable_session assms(2,3) by blast
qed (auto simp: new_keys)

subsection \<open>An example\<close>

definition ex_env :: view_env where
  "ex_env = \<lparr>ve_services = ex_services, ve_json_valid = (\<lambda>_. True), ve_unmarshal = (\<lambda>x. Inr (CText x)),
     ve_digest = (\<lambda>c. Inr (''d'' @ command_kind_text (sk_kind c))), ve_token = (\<lambda>n. ''e'')\<rparr>"

definition ex_command :: session_command where
  "ex_command = \<lparr>sk_id = ''c1'', sk_kind = CommandStart, sk_run_id = '''',
     sk_input = Some \<lparr>si_blocks = [\<lparr>ib_kind = InputBlockText, ib_text = ''hi'', ib_media_type = '''', ib_data = ''''\<rparr>],
       si_meta = []\<rparr>, sk_resolution = None, sk_idempotency_key = ''k1''\<rparr>"

definition ex_args :: dispatch_args where
  "ex_args = \<lparr>da_ctx = None, da_reply = Stored, da_clock = 0, da_command_id = Inr ''g'', da_new_id = Inr ''r1'',
     da_instructions = Inr ''''\<rparr>"

definition ex_view :: loop_view where
  "ex_view = empty_view (standard_caps False)"

definition ex_dispatched :: "receipt result option \<times> loop_view \<times> world" where
  "ex_dispatched = loop_Dispatch ex_env ex_args ex_command ex_view (ex_session, ex_journal)"

lemma ex_env_services [simp]: "ve_services ex_env = ex_services"
  by (simp add: ex_env_def)

lemma ex_digests: "digests ex_env"
  by (simp add: digests_def ex_env_def)

lemma ex_opened: "NewLoopView ex_env (standard_caps False) ex_session ex_journal = Inr ex_view"
  by (simp add: NewLoopView_def availability_def empty_view_def ex_session_def blank_session_def
      restoreCommandAcceptances_def ex_journal_def ex_view_def)

lemma ex_loop_reachable: "loop_reachable ex_env ''s'' (Some ex_view, [], Some ex_session, ex_journal)"
proof -
  have "loop_reachable ex_env ''s'' (None, [], Some ex_session, ex_journal)"
    by (rule loop_new) (simp only: ex_env_services, rule ex_new)
  then show ?thesis using loop_open [OF ex_opened] by (rule loop_next)
qed

subsection \<open>Whole dispatches are steps\<close>

lemma finish_call_reachable:
  assumes "loop_reachable env i (Some view, fs, Some s, j)" "finish_call env a b (s, j) = (r, view', (s', j'))"
    "\<And>f view1. b = (Begun f, view1) \<Longrightarrow> fl_reason f = None \<Longrightarrow> fresh_ids a j"
    "\<And>f view1. b = (Begun f, view1) \<Longrightarrow> loop_step env i (Some view, fs, Some s, j) (Some view1, fs @ [(f, None)], Some s, j)"
    "\<And>x view1. b = (x, view1) \<Longrightarrow> (\<And>f. x \<noteq> Begun f) \<Longrightarrow> view1 = view"
  shows "loop_reachable env i (Some view', fs, Some s', j')"
proof (cases b)
  case (Pair x view1)
  show ?thesis
  proof (cases x)
    case (Begun f)
    obtain out view2 w where a: "dispatch_accept env a f view1 (s, j) = (out, view2, w)" by (metis prod_cases3)
    obtain r' view3 where f: "dispatch_finish env f out (fst w) view2 = (r', view3)" by fastforce
    have "loop_reachable env i (Some view1, fs @ [(f, None)], Some s, j)"
      using assms(1,4) Pair Begun by (blast intro: loop_next)
    then have "loop_reachable env i (Some view2, fs @ [(f, Some out)], held w)"
      by (rule loop_next) (rule loop_accept [OF a, of _ fs "[]"], use assms(3) Pair Begun in simp)
    then have "loop_reachable env i (Some view3, fs @ [], held w)" unfolding held_def
      by (rule loop_next) (rule loop_finish [OF f, of _ fs "[]"])
    then show ?thesis using assms(2) Pair Begun a f by (auto simp: finish_call_def held_def)
  qed (use assms Pair in \<open>auto simp: finish_call_def\<close>)
qed

lemma claim_keeps: "claimIdempotencyKey k d s view = (x, view') \<Longrightarrow> x \<noteq> Claimed \<Longrightarrow> view' = view"
  by (auto simp: claimIdempotencyKey_def split: option.splits if_splits)

lemma begun_or_same:
  "dispatch_begin env a c view s = (x, view') \<Longrightarrow> (\<And>f. x \<noteq> Begun f) \<Longrightarrow> view' = view"
  "reject_begin env a c reason view s = (x, view') \<Longrightarrow> (\<And>f. x \<noteq> Begun f) \<Longrightarrow> view' = view"
  by (auto simp: dispatch_begin_def reject_begin_def begin_claimed_def split: option.splits sum.splits if_splits claim.splits
      intro: claim_keeps [OF prod.collapse [symmetric]])

lemma reject_begun_reason: "reject_begin env a c reason view s = (Begun f, view') \<Longrightarrow> fl_reason f = Some reason"
  by (auto simp: reject_begin_def begin_claimed_def split: option.splits sum.splits if_splits claim.splits)

lemma loop_Dispatch_reachable:
  assumes "loop_reachable env i (Some view, fs, Some s, j)" "loop_Dispatch env a c view (s, j) = (r, view', (s', j'))"
    "fresh_ids a j"
  shows "loop_reachable env i (Some view', fs, Some s', j')"
  using assms(2) unfolding loop_Dispatch_def
  by (rule finish_call_reachable [OF assms(1)]) (auto intro: loop_begin assms(3) begun_or_same)

lemma loop_Reject_reachable:
  assumes "loop_reachable env i (Some view, fs, Some s, j)" "loop_Reject env a c reason view (s, j) = (r, view', (s', j'))"
  shows "loop_reachable env i (Some view', fs, Some s', j')"
  using assms(2) unfolding loop_Reject_def
  by (rule finish_call_reachable [OF assms(1)]) (auto intro: loop_begin_reject begun_or_same dest: reject_begun_reason)

subsection \<open>At most once\<close>

lemma keys_distinct:
  "distinct (map ca_idempotency_key (acceptances j)) \<Longrightarrow> m < length j \<Longrightarrow> n < length j \<Longrightarrow>
     j ! m = CommandAccepted p \<Longrightarrow> j ! n = CommandAccepted q \<Longrightarrow>
     ca_idempotency_key p = ca_idempotency_key q \<Longrightarrow> m = n"
proof (induction j arbitrary: m n)
  case (Cons e j)
  have mem: "k < length j \<Longrightarrow> j ! k = CommandAccepted r \<Longrightarrow> ca_idempotency_key r \<in> journal_keys j" for k r
    by (metis (no_types, lifting) accepted_member image_eqI nth_mem)
  show ?case using Cons mem [of _ p] mem [of _ q] by (cases m; cases n) (auto split: option.splits fact.splits)
qed simp

text \<open>
  C6. A command is accepted at most once: in every journal reachable by concurrent dispatches and rejections
  with retries, lost answers of the store, crashes between any two steps, recoveries and reopened views, two
  acceptance entries never carry the same idempotency key.
\<close>

theorem command_accepted_once:
  assumes "loop_reachable env i (view, fs, h, j)" "faithful (ve_services env)" "digests env"
    "j ! m = CommandAccepted p" "j ! n = CommandAccepted q" "m < length j" "n < length j"
    "ca_idempotency_key p = ca_idempotency_key q"
  shows "m = n"
proof -
  have "loop_ok env i (view, fs, h, j)" using reachable_loop_ok assms(1-3) by blast
  then have "distinct (map ca_idempotency_key (acceptances j))" by (cases view; cases h) (auto simp: keys_ok_def)
  then show ?thesis using keys_distinct assms(4-8) by blast
qed
lemma ex_accepted: "snd (snd (snd ex_dispatched)) ! 3 = CommandAccepted
    \<lparr>ca_command_id = ''c1'', ca_kind = ''start'', ca_idempotency_key = ''k1'', ca_digest = ''dstart'', ca_run_id = ''r1'',
     ca_queue_id = '''', ca_rejection = ''''\<rparr>" "length (snd (snd (snd ex_dispatched))) = 4"
  by code_simp+

lemma ex_dispatched_reachable:
  "loop_reachable ex_env ''s'' (Some (fst (snd ex_dispatched)), [], Some (fst (snd (snd ex_dispatched))), snd (snd (snd ex_dispatched)))"
proof -
  have "accepted_ids ex_journal = []" by code_simp
  then have "fresh_ids ex_args ex_journal" by (simp add: fresh_ids_def ex_args_def)
  then show ?thesis
    using loop_Dispatch_reachable [OF ex_loop_reachable, of ex_args ex_command "fst ex_dispatched" "fst (snd ex_dispatched)"
        "fst (snd (snd ex_dispatched))" "snd (snd (snd ex_dispatched))"]
    by (simp add: ex_dispatched_def)
qed

lemma command_accepted_once_witness:
  "3 = length (snd (snd (snd ex_dispatched))) - 1"
  using command_accepted_once [OF ex_dispatched_reachable _ ex_digests ex_accepted(1), of "length (snd (snd (snd ex_dispatched))) - 1"]
    ex_accepted ex_faithful by simp

subsection \<open>Reopening\<close>

text \<open>
  C18. Receipts survive restarts.  Whenever the journal of a session was recovered, the view can be built
  again over any handle whose acceptances are intact, and it then knows exactly the acceptances of the
  journal: for each, the digest and the receipt with the sequence number of its entry, and for no other key
  anything.
\<close>

theorem view_reopens_exactly:
  assumes "loop_reachable env i (None, [], Some s, j)" "faithful (ve_services env)" "digests env"
    "s_acceptance_fault s = None"
  shows "\<exists>view. NewLoopView env (standard_caps b) s j = Inr view \<and>
    (\<forall>k d r. lv_idempotency view k = Some (d, r) \<longleftrightarrow>
       (\<exists>n p. n < length j \<and> j ! n = CommandAccepted p \<and> ca_idempotency_key p = k \<and> ca_digest p = d \<and>
          r = accepted_receipt env i (Suc n) p))"
proof -
  have j: "keys_ok j" using reachable_loop_ok [OF assms(1-3)] by simp
  have s: "session_reachable (ve_services env) i (Some s, j)" using loop_reachable_session [OF assms(1)] by simp
  have "availability (empty_view (standard_caps b)) s = None" using assms(4) by (simp add: availability_def empty_view_def)
  from open_exact [OF j reachable_decodes [OF s assms(2)] this, of env] reachable_id [OF s assms(2)]
  show ?thesis by (auto simp: recorded_def)
qed

text \<open>The example dispatch, a crash, and recovery.\<close>

definition ex_recovered :: "fact list \<times> session sresult" where
  "ex_recovered = Session_Recovery.Recover ex_services Stored Stored (Inr ''x'') ''s'' ex_scope (snd (snd (snd ex_dispatched)))"

lemma ex_recovered_run:
  "case snd ex_recovered of Inr s \<Rightarrow> s_acceptance_fault s = None | Inl _ \<Rightarrow> False"
  "3 < length (fst ex_recovered)" "fst ex_recovered ! 3 = snd (snd (snd ex_dispatched)) ! 3"
  by code_simp+

lemma ex_recovered_reachable:
  "snd ex_recovered = Inr s \<Longrightarrow> loop_reachable ex_env ''s'' (None, [], Some s, fst ex_recovered)"
proof -
  assume s: "snd ex_recovered = Inr s"
  have "loop_reachable ex_env ''s'' (None, [], None, snd (snd (snd ex_dispatched)))"
    using ex_dispatched_reachable loop_crash by (rule loop_next)
  then have "loop_reachable ex_env ''s'' (None, [], recovered_handle ex_recovered)"
    unfolding ex_recovered_def by (rule loop_next) (rule loop_recover [where env = ex_env, simplified])
  then show ?thesis using s by (simp add: recovered_handle_def)
qed

lemma view_reopens_exactly_witness:
  "\<exists>s view r. snd ex_recovered = Inr s \<and> NewLoopView ex_env (standard_caps True) s (fst ex_recovered) = Inr view \<and>
     lv_idempotency view ''k1'' = Some (''dstart'', r) \<and> rp_run_id r = ''r1''"
proof -
  obtain s where s: "snd ex_recovered = Inr s" "s_acceptance_fault s = None"
    using ex_recovered_run(1) by (auto split: sum.splits)
  obtain view where v: "NewLoopView ex_env (standard_caps True) s (fst ex_recovered) = Inr view"
    "\<And>k d r. lv_idempotency view k = Some (d, r) \<longleftrightarrow>
       (\<exists>n p. n < length (fst ex_recovered) \<and> fst ex_recovered ! n = CommandAccepted p \<and> ca_idempotency_key p = k \<and>
          ca_digest p = d \<and> r = accepted_receipt ex_env ''s'' (Suc n) p)"
    using view_reopens_exactly [OF ex_recovered_reachable [OF s(1)] _ ex_digests s(2), of True] ex_faithful by auto
  obtain p where p: "fst ex_recovered ! 3 = CommandAccepted p" "ca_idempotency_key p = ''k1''" "ca_digest p = ''dstart''"
    "ca_run_id p = ''r1''" using ex_accepted(1) ex_recovered_run(3) by simp
  then have "lv_idempotency view ''k1'' = Some (''dstart'', accepted_receipt ex_env ''s'' (Suc 3) p)"
    unfolding v(2) using ex_recovered_run(2) by blast
  then show ?thesis using s(1) v(1) p(4) by (auto simp: accepted_receipt_def)
qed

subsection \<open>Retries\<close>

lemma known_key:
  assumes "loop_ok env i (Some view, fs, Some s, j)" "s_acceptance_fault s = None" "n < length j" "j ! n = CommandAccepted p"
    "ca_idempotency_key p \<notin> set (flight_keys fs)"
  obtains r where "lv_idempotency view (ca_idempotency_key p) = Some (ca_digest p, r)"
    "receipt_of env i (length j) (Suc n) p r"
proof -
  have ok: "keys_ok j" "view_ok env i view fs s j" using assms(1) by simp_all
  have p: "p \<in> set (acceptances j)" using assms(3,4) by (metis accepted_member nth_mem)
  then have "ca_idempotency_key p \<noteq> ''''" using ok(1) by (auto simp: keys_ok_def payload_ok_def)
  then have "ca_idempotency_key p \<notin> landed fs" using assms(5) landed_keys by blast
  then obtain d r where r: "lv_idempotency view (ca_idempotency_key p) = Some (d, r)"
    using ok(2) p assms(2) by (auto simp: view_ok_def covers_def trusted_def domIff)
  then have "journaled env i j (ca_idempotency_key p) d r" using ok(2) unfolding view_ok_def knows_def by blast
  then obtain n' p' where x: "n' < length j" "j ! n' = CommandAccepted p'" "ca_idempotency_key p' = ca_idempotency_key p"
      "ca_digest p' = d" "receipt_of env i (length j) (Suc n') p' r"
    unfolding journaled_def by blast
  have "n' = n" using keys_distinct [OF _ x(1) assms(3) x(2) assms(4) x(3)] ok(1) by (simp add: keys_ok_def)
  then show ?thesis using that r x assms(4) by simp
qed

text \<open>
  C16. A retry is answered from the journal.  Once a command is in the journal of a view that is available and
  its own dispatch is over, dispatching a command with its key again, before or after a restart, changes
  neither journal nor session nor view: the same command gets the receipt the view remembers for the key,
  and any other command that carries the key gets a conflict.  That receipt is the one of the acceptance in
  the journal, with the position of its entry; only an accepted interrupt's may name a later position, up
  to the end of the journal, so that its receipt after a restart can differ from the one before.
\<close>

theorem retry_is_answered:
  assumes "loop_reachable env i (Some view, fs, Some s, j)" "faithful (ve_services env)" "digests env"
    "n < length j" "j ! n = CommandAccepted p" "ca_idempotency_key p = sk_idempotency_key c"
    "ca_idempotency_key p \<notin> set (flight_keys fs)" "availability view s = None"
    "ValidateCommand (ve_json_valid env) c (lv_caps view) = None" "sk_id c \<noteq> ''''" "loopCommandDigest env c = Inr d"
  shows "\<exists>out. loop_Dispatch env a c view (s, j) = (Some out, view, (s, j)) \<and>
    (case out of
       Inr r \<Rightarrow> d = ca_digest p \<and> lv_idempotency view (sk_idempotency_key c) = Some (d, r) \<and>
         receipt_of env i (length j) (Suc n) p r
     | Inl e \<Rightarrow> d \<noteq> ca_digest p \<and> errors_is ErrCommandConflict e)"
proof -
  have ok: "loop_ok env i (Some view, fs, Some s, j)" using reachable_loop_ok [OF assms(1-3)] .
  have "s_acceptance_fault s = None" using assms(8) by (auto simp: availability_def split: if_splits)
  from known_key [OF ok this assms(4,5,7)] obtain r where
    r: "lv_idempotency view (sk_idempotency_key c) = Some (ca_digest p, r)" "receipt_of env i (length j) (Suc n) p r"
    using assms(6) by auto
  have "sk_idempotency_key c \<noteq> ''''"
    using ok assms(4,5,6) journal_key_nonempty accepted_member by (metis image_eqI loop_ok.simps(3) nth_mem)
  then show ?thesis using assms(8-11) r
    by (simp add: loop_Dispatch_def dispatch_begin_def begin_claimed_def claimIdempotencyKey_def finish_call_def wrap_cause_def)
qed

lemma retry_is_answered_witness:
  "\<exists>r. loop_Dispatch ex_env ex_args ex_command (fst (snd ex_dispatched)) (snd (snd ex_dispatched)) =
     (Some (Inr r), fst (snd ex_dispatched), snd (snd ex_dispatched)) \<and> rp_run_id r = ''r1'' \<and>
     lv_idempotency (fst (snd ex_dispatched)) (sk_idempotency_key ex_command) = Some (''dstart'', r)"
proof -
  let ?p = "\<lparr>ca_command_id = ''c1'', ca_kind = ''start'', ca_idempotency_key = ''k1'', ca_digest = ''dstart'',
    ca_run_id = ''r1'', ca_queue_id = '''', ca_rejection = ''''\<rparr>"
  have x: "availability (fst (snd ex_dispatched)) (fst (snd (snd ex_dispatched))) = None"
    "ValidateCommand (ve_json_valid ex_env) ex_command (lv_caps (fst (snd ex_dispatched))) = None"
    "loopCommandDigest ex_env ex_command = Inr ''dstart''" "sk_id ex_command \<noteq> ''''"
    "ca_idempotency_key ?p = sk_idempotency_key ex_command"
    by code_simp+
  obtain out where "loop_Dispatch ex_env ex_args ex_command (fst (snd ex_dispatched)) (snd (snd ex_dispatched)) =
      (Some out, fst (snd ex_dispatched), snd (snd ex_dispatched))"
    "case out of Inr r \<Rightarrow> ''dstart'' = ca_digest ?p \<and>
         lv_idempotency (fst (snd ex_dispatched)) (sk_idempotency_key ex_command) = Some (''dstart'', r) \<and>
         receipt_of ex_env ''s'' (length (snd (snd (snd ex_dispatched)))) (Suc 3) ?p r
       | Inl e \<Rightarrow> ''dstart'' \<noteq> ca_digest ?p \<and> errors_is ErrCommandConflict e"
    using retry_is_answered [OF ex_dispatched_reachable _ ex_digests _ ex_accepted(1) x(5) _ x(1,2,4,3), of ex_args]
      ex_accepted(2) ex_faithful by auto
  then show ?thesis by (cases out) (auto simp: receipt_of_def accepted_receipt_def)
qed

end
