(* ===== verification/Loop_Port.thy ===== *)
theory Loop_Port
  imports Loop_Props
begin

text \<open>
  Answers and the journal: what a dispatch that returned says about the journal, and the session view as
  the session an actor's worker delivers to (harness/sessionloop/actor/worker.go and adapter.go).
\<close>

subsection \<open>Answered dispatches\<close>

lemma claim_replays:
  "claimIdempotencyKey k d s view = (Replayed r, view') \<Longrightarrow> lv_idempotency view k = Some (d, r) \<and> view' = view"
  by (auto simp: claimIdempotencyKey_def split: option.splits if_splits)

definition remembers :: "loop_view \<Rightarrow> view_env \<Rightarrow> session_command \<Rightarrow> receipt \<Rightarrow> bool" where
  "remembers view env c r \<longleftrightarrow>
     (\<exists>d. loopCommandDigest env c = Inr d \<and> lv_idempotency view (sk_idempotency_key c) = Some (d, r))"

text \<open>A dispatch with a key that was answered with a receipt is remembered under its key.\<close>

lemma dispatch_remembers:
  assumes "loop_Dispatch env a c view w = (Some (Inr r), view', w')" "sk_idempotency_key c \<noteq> ''''"
  shows "remembers view' env c r"
proof -
  obtain x view1 where b: "dispatch_begin env a c view (fst w) = (x, view1)" by fastforce
  then have call: "finish_call env a (x, view1) w = (Some (Inr r), view', w')" using assms(1) by (simp add: loop_Dispatch_def)
  have "x \<noteq> Waits" using call by (auto simp: finish_call_def split: option.splits)
  then obtain i d where d: "loopCommandDigest env c = Inr d"
      "begin_claimed c i d None (claimIdempotencyKey (sk_idempotency_key c) d (fst w) view) = (x, view1)"
    if "\<And>e. x \<noteq> Answered (Inl e)"
    using b assms(2) by (auto simp: dispatch_begin_def split: option.splits sum.splits)
  have "x \<noteq> Answered (Inl e)" for e using call by (auto simp: finish_call_def)
  note d = d [OF this]
  show ?thesis
  proof (cases x)
    case (Answered y)
    then have "x = Answered (Inr r)" "view' = view1" using call by (auto simp: finish_call_def)
    then have "claimIdempotencyKey (sk_idempotency_key c) d (fst w) view = (Replayed r, view1)"
      using d(2) by (cases "claimIdempotencyKey (sk_idempotency_key c) d (fst w) view")
        (auto simp: begin_claimed_def split: claim.splits)
    then show ?thesis using claim_replays [of "sk_idempotency_key c" d "fst w" view r view1] d(1) \<open>view' = view1\<close>
      by (auto simp: remembers_def)
  next
    case (Begun f)
    have f: "fl_command f = c" "fl_marker f = map_option (\<lambda>p. p\<lparr>ca_rejection := ''''\<rparr>) (commandAcceptance c i d)"
      using begin_claimed_flight [of c i d None _ f view1] d(2) Begun by auto
    obtain out view2 w2 where a: "dispatch_accept env a f view1 w = (out, view2, w2)" by (metis prod_cases3)
    have "dispatch_finish env f out (fst w2) view2 = (Inr r, view')" using call Begun a
      by (auto simp: finish_call_def split: prod.splits)
    then show ?thesis using f assms(2) d(1)
      by (auto simp: dispatch_finish_def remembers_def rememberCommandAcceptance_def commandAcceptance_def
          releaseIdempotencyClaim_def Let_def split: sum.splits)
  qed (use \<open>x \<noteq> Waits\<close> in simp)
qed

lemma dispatch_error:
  assumes "loop_Dispatch env a c view w = (Some (Inl e), view', w')" "digests env" "da_command_id a \<noteq> Inr ''''"
  shows "refuses w w'"
proof -
  obtain x view1 where b: "dispatch_begin env a c view (fst w) = (x, view1)" by fastforce
  then have call: "finish_call env a (x, view1) w = (Some (Inl e), view', w')" using assms(1) by (simp add: loop_Dispatch_def)
  show ?thesis
  proof (cases x)
    case (Begun f)
    have ok: "flight_ok f" using dispatch_begins(1) [OF _ assms(2,3)] b Begun by blast
    obtain out view2 w2 where a: "dispatch_accept env a f view1 w = (out, view2, w2)" by (metis prod_cases3)
    have "dispatch_finish env f out (fst w2) view2 = (Inl e, view')" "w2 = w'" using call Begun a
      by (auto simp: finish_call_def split: prod.splits)
    then show ?thesis using dispatch_answers [OF a ok] by (auto simp: dispatch_finish_def Let_def split: sum.splits)
  qed (use call in \<open>auto simp: finish_call_def\<close>)
qed

lemma remembered_journaled:
  assumes "loop_ok env i (Some view, fs, Some s, j)" "remembers view env c r"
  shows "\<exists>n p. n < length j \<and> j ! n = CommandAccepted p \<and> ca_idempotency_key p = sk_idempotency_key c \<and>
    loopCommandDigest env c = Inr (ca_digest p) \<and> receipt_of env i (length j) (Suc n) p r"
  using assms by (fastforce simp: remembers_def view_ok_def knows_def journaled_def)

text \<open>
  C17. The answer of a dispatch of a command with an idempotency key tells the truth; a command without one
  writes no acceptance, and its receipt promises none.  A receipt means that the journal holds the acceptance
  of that very command under its key and digest, that the view remembers the receipt, and that it names the
  run or queue entry and the position of the acceptance, or, for an accepted interrupt, a position between
  the acceptance and the end of the journal.  An error means that nothing was written, or, when the answer
  of the store was lost, that the view refuses everything from then on, so that only recovery can tell.
\<close>

theorem dispatch_answer_is_true:
  assumes "loop_reachable env i (Some view, fs, Some s, j)" "faithful (ve_services env)" "digests env"
    "fresh_ids a j" "sk_idempotency_key c \<noteq> ''''" "loop_Dispatch env a c view (s, j) = (Some out, view', (s', j'))"
  shows "case out of
      Inr r \<Rightarrow> remembers view' env c r \<and>
        (\<exists>n p. n < length j' \<and> j' ! n = CommandAccepted p \<and> ca_idempotency_key p = sk_idempotency_key c \<and>
          loopCommandDigest env c = Inr (ca_digest p) \<and> receipt_of env i (length j') (Suc n) p r)
    | Inl e \<Rightarrow> j' = j \<or> availability view' s' \<noteq> None"
proof (cases out)
  case (Inl e)
  then show ?thesis using dispatch_error [of env a c view "(s, j)" e view' "(s', j')"] assms(3,4,6)
    by (auto simp: refuses_def availability_def fresh_ids_def)
next
  case (Inr r)
  have "loop_ok env i (Some view', fs, Some s', j')"
    using loop_Dispatch_reachable [OF assms(1,6,4)] assms(2,3) by (rule reachable_loop_ok)
  then show ?thesis using remembered_journaled dispatch_remembers [OF _ assms(5)] assms(6) Inr by auto
qed

lemma ex_fresh: "fresh_ids ex_args ex_journal"
proof -
  have "accepted_ids ex_journal = []" by code_simp
  then show ?thesis by (simp add: fresh_ids_def ex_args_def)
qed

lemma dispatch_answer_is_true_witness:
  "\<exists>n p. snd (snd (snd ex_dispatched)) ! n = CommandAccepted p \<and> ca_digest p = ''dstart''"
proof -
  have d: "loopCommandDigest ex_env ex_command = Inr ''dstart''" "sk_idempotency_key ex_command \<noteq> ''''"
    "case fst ex_dispatched of Some (Inr _) \<Rightarrow> True | _ \<Rightarrow> False" by code_simp+
  then obtain r where r: "fst ex_dispatched = Some (Inr r)" by (auto split: option.splits sum.splits)
  obtain n p where "snd (snd (snd ex_dispatched)) ! n = CommandAccepted p" "ca_digest p = ''dstart''"
    using dispatch_answer_is_true [OF ex_loop_reachable _ ex_digests ex_fresh d(2), of "Inr r" "fst (snd ex_dispatched)"
        "fst (snd (snd ex_dispatched))" "snd (snd (snd ex_dispatched))"] ex_faithful d(1) r
    by (auto simp: ex_dispatched_def prod_eq_iff)
  then show ?thesis by blast
qed

subsection \<open>The view behind an actor\<close>

text \<open>
  The IDs a dispatch may need are fresh: they depend on the journal.  A wait for another dispatch of the key
  ends with the context.
\<close>

definition loop_port ::
  "view_env \<Rightarrow> (fact list \<Rightarrow> dispatch_args) \<Rightarrow> dispatch_args \<Rightarrow> string \<Rightarrow> (loop_view \<times> world) session_port" where
  "loop_port env a b i =
     \<lparr>se_id = i,
      se_acceptance = (\<lambda>c x. (loop_Acceptance env (da_ctx b) c (fst x) (fst (snd x)), x)),
      se_dispatch = (\<lambda>c x. case loop_Dispatch env (a (snd (snd x))) c (fst x) (snd x) of
         (None, y) \<Rightarrow> (Inl (Plain ''context canceled''), y) | (Some out, y) \<Rightarrow> (out, y)),
      se_reject = (\<lambda>c reason x. case loop_Reject env b c reason (fst x) (snd x) of
         (None, y) \<Rightarrow> (Inl (Plain ''context canceled''), y) | (Some out, y) \<Rightarrow> (out, y))\<rparr>"

definition fresh_supply :: "(fact list \<Rightarrow> dispatch_args) \<Rightarrow> bool" where
  "fresh_supply a \<longleftrightarrow> (\<forall>j. fresh_ids (a j) j)"

definition port_reachable :: "view_env \<Rightarrow> string \<Rightarrow> loop_view \<times> world \<Rightarrow> bool" where
  "port_reachable env i x \<longleftrightarrow> (\<exists>fs. loop_reachable env i (Some (fst x), fs, held (snd x)))"

text \<open>Any supply, with the IDs that would repeat replaced.\<close>

definition some_supply :: "(fact list \<Rightarrow> dispatch_args) \<Rightarrow> fact list \<Rightarrow> dispatch_args" where
  "some_supply a j =
     (if fresh_ids (a j) j then a j else (a j)\<lparr>da_new_id := Inr (concat (accepted_ids j) @ ''x''), da_command_id := Inr ''c''\<rparr>)"

lemma concat_longer: "x \<in> set xs \<Longrightarrow> length x \<le> length (concat xs)"
  by (induction xs) auto

lemma some_supply_fresh: "fresh_supply (some_supply a)"
proof -
  have "concat (accepted_ids j) @ ''x'' \<notin> set (accepted_ids j)" for j
    using concat_longer [of "concat (accepted_ids j) @ ''x''" "accepted_ids j"] by auto
  then show ?thesis by (auto simp: fresh_supply_def some_supply_def fresh_ids_def)
qed

interpretation view_port: port_invariant "loop_port env (some_supply a) b i" "port_reachable env i"
proof
  fix c x reason
  assume "port_reachable env i x"
  then obtain fs where r: "loop_reachable env i (Some (fst x), fs, Some (fst (snd x)), snd (snd x))"
    by (auto simp: port_reachable_def held_def)
  show "port_reachable env i (snd (se_acceptance (loop_port env (some_supply a) b i) c x))"
    using r by (auto simp: loop_port_def port_reachable_def held_def)
  have keeps: "port_reachable env i y"
    if "loop_Dispatch env (some_supply a (snd (snd x))) c (fst x) (snd x) = (out, y)" for out y
    using loop_Dispatch_reachable [OF r, of "some_supply a (snd (snd x))" c out "fst y" "fst (snd y)" "snd (snd y)"]
      some_supply_fresh [of a] that by (auto simp: port_reachable_def held_def fresh_supply_def)
  then show "port_reachable env i (snd (se_dispatch (loop_port env (some_supply a) b i) c x))"
    by (auto simp: loop_port_def split: prod.splits option.splits)
  have "port_reachable env i y" if "loop_Reject env b c reason (fst x) (snd x) = (out, y)" for out y
    using loop_Reject_reachable [OF r, of b c reason out "fst y" "fst (snd y)" "snd (snd y)"]
      that by (auto simp: port_reachable_def held_def)
  then show "port_reachable env i (snd (se_reject (loop_port env (some_supply a) b i) c reason x))"
    by (auto simp: loop_port_def split: prod.splits option.splits)
qed

lemma supply_fresh: "fresh_supply a \<Longrightarrow> some_supply a = a"
  by (rule ext) (simp add: some_supply_def fresh_supply_def)

lemma acceptance_remembered:
  assumes "loop_Acceptance env ctx c view s = Inr (r, True)"
  shows "remembers view env c r \<and> (sk_id c \<noteq> '''' \<longrightarrow> rp_command_id r = sk_id c)"
  using assms by (auto simp: loop_Acceptance_def remembers_def split: option.splits sum.splits if_splits)

text \<open>
  C7. From mailbox to journal.  When the worker of an actor hands a command to a session view and the
  delivery state of the mailbox changes, the journal of the session then holds the acceptance of that
  command, under its own identity and with its digest, and no journal of this session ever holds a second
  acceptance of its key.
\<close>

theorem delivered_command_is_journaled:
  assumes "port_reachable env i x" "fresh_supply a" "faithful (ve_services env)" "digests env"
    "deliver jv adapter ctx now l (loop_port env a b i) snap input st x = (r, st', y)" "st' \<noteq> st"
  shows "\<exists>canonical n p. Normalize jv input = Inr canonical \<and> n < length (snd (snd y)) \<and>
    snd (snd y) ! n = CommandAccepted p \<and> ca_command_id p = cm_id input \<and>
    ca_idempotency_key p = sk_idempotency_key (cm_command canonical) \<and>
    loopCommandDigest env (cm_command canonical) = Inr (ca_digest p)"
proof -
  have "port_reachable env i y"
    using view_port.deliver_keeps [OF assms(1)] assms(2,5) supply_fresh by (metis snd_conv)
  then obtain fs where r: "loop_reachable env i (Some (fst y), fs, Some (fst (snd y)), snd (snd y))"
    by (auto simp: port_reachable_def held_def)
  obtain canonical receipt s1 where d: "Normalize jv input = Inr canonical" "sk_id (cm_command canonical) = cm_id input"
    "se_acceptance (loop_port env a b i) (cm_command canonical) s1 = (Inr (receipt, True), y)"
    using deliver_settles [OF assms(5,6)] by blast
  then have "loop_Acceptance env (da_ctx b) (cm_command canonical) (fst y) (fst (snd y)) = Inr (receipt, True)"
    by (auto simp: loop_port_def)
  from acceptance_remembered [OF this] have m: "remembers (fst y) env (cm_command canonical) receipt"
    "rp_command_id receipt = cm_id input"
    using d(2) Normalize_identity [OF d(1)] by auto
  obtain n p where "n < length (snd (snd y))" "snd (snd y) ! n = CommandAccepted p"
    "ca_idempotency_key p = sk_idempotency_key (cm_command canonical)"
    "loopCommandDigest env (cm_command canonical) = Inr (ca_digest p)"
    "receipt_of env i (length (snd (snd y))) (Suc n) p receipt"
    using remembered_journaled [OF reachable_loop_ok [OF r assms(3,4)] m(1)] by blast
  then show ?thesis using d(1) m(2)
    by (intro exI [of _ canonical] exI [of _ n] exI [of _ p]) (auto simp: receipt_of_def accepted_receipt_def)
qed

text \<open>The example: the worker of an actor delivers the command of the example to the view.\<close>

definition ex_supply :: "fact list \<Rightarrow> dispatch_args" where
  "ex_supply = some_supply (\<lambda>_. ex_args)"

definition ex_delivery :: "string result \<times> store \<times> (loop_view \<times> world)" where
  "ex_delivery =
     deliver (\<lambda>_. True) AcceptanceDurable None 8 (example_lease ''w2'' 2 12) (loop_port ex_env ex_supply ex_args ''s'')
       example_idle ((example_command ''b'')\<lparr>cm_command := ex_command\<lparr>sk_id := ''b''\<rparr>\<rparr>)
       (fst (run_ops example_ops (New, []))) (ex_view, (ex_session, ex_journal))"

lemma delivered_command_is_journaled_witness:
  "\<exists>n p. snd (snd (snd (snd ex_delivery))) ! n = CommandAccepted p \<and> ca_command_id p = ''b''"
proof -
  let ?st = "fst (run_ops example_ops (New, []))"
  obtain r st' y where d: "ex_delivery = (r, st', y)" by (metis prod_cases3)
  have "(case ex_delivery of (r, st', y) \<Rightarrow> ss_pending (lookup st' ''s'')) = []" by code_simp
  then have delivered: "ss_pending (lookup st' ''s'') = []" unfolding d by simp
  have "ss_pending (lookup ?st ''s'') = [''b'']" by code_simp
  then have "st' \<noteq> ?st" using delivered by (metis list.distinct(1))
  moreover have "port_reachable ex_env ''s'' (ex_view, (ex_session, ex_journal))"
    using ex_loop_reachable by (auto simp: port_reachable_def held_def)
  moreover have "fresh_supply ex_supply" by (simp add: ex_supply_def some_supply_fresh)
  ultimately obtain n p where "snd (snd y) ! n = CommandAccepted p" "ca_command_id p = ''b''"
    using delivered_command_is_journaled [OF _ _ _ ex_digests d [unfolded ex_delivery_def]] ex_faithful
    by (auto simp: example_command_def)
  then show ?thesis unfolding d snd_conv by blast
qed

end
