(* ===== verification/Loop_Projection.thy ===== *)
theory Loop_Projection
  imports Loop_View
begin

text \<open>
  The projection of a session's records to the events of the actor protocol
  (harness/session/loop_projection.go, loop_fold.go, loop_history.go, and Snapshot and Subscribe of
  loop_view.go).  It reads the journal and decides nothing.

  A record of the journal is its entry with its sequence number; a record of the event hub may also be a
  preview.  The kind of an event is the constructor of its body; its session is the session of the
  projector, and positions carry the sequence number only.  JSON, the view on suspensions, summaries of calls and
  the attribution of commands are arguments.  A record of a child names the child's session, so it never takes the
  way of the session's own records.
\<close>

subsection \<open>Events\<close>

datatype entry_role = EntryUser | EntryAssistant | EntryTool

datatype entry_origin = OriginStart | OriginSteer | OriginFollowUp | OriginNextTurn | OriginAssistant | OriginTool

datatype entry_block =
    TextBlock string
  | ToolCallBlock string string "string option" string
  | ToolResultBlock string "string option" string string bool

record loop_entry =
  lo_id :: string
  lo_run :: string
  lo_command :: string
  lo_position :: nat
  lo_role :: entry_role
  lo_origin :: entry_origin
  lo_blocks :: "entry_block list"

record queued_input =
  qi_id :: string
  qi_kind :: command_kind
  qi_command :: string
  qi_position :: nat
  qi_blocks :: "string list"

record safe_decision =
  sy_id :: string
  sy_name :: string
  sy_capability :: string
  sy_action :: string
  sy_resource :: string

record safe_suspension =
  sf_id :: string
  sf_kind :: string
  sf_description :: string
  sf_decisions :: "safe_decision list"

datatype outcome_kind = SettledCompleted | SettledInterrupted | SettledFailed

datatype queue_change = QueueIn | QueueOut | QueueGone

datatype preview =
    PreviewText string | PreviewThinking string | PreviewTool string string

datatype event_body =
    EvCommandAccepted
  | EvEntry loop_entry
  | EvQueue queue_change queued_input
  | EvRunStarted
  | EvSuspended safe_suspension
  | EvSettled string outcome_kind string "string option"
  | EvState session_phase
  | EvUsage usage
  | EvCompaction
  | EvChild child_record
  | EvPreview preview

record loop_event =
  lx_position :: nat
  lx_ordinal :: nat
  lx_run :: string
  lx_command :: string
  lx_dropped :: nat
  lx_body :: event_body

definition authoritative :: "loop_event \<Rightarrow> bool" where
  "authoritative e = (case lx_body e of EvPreview _ \<Rightarrow> False | _ \<Rightarrow> True)"

subsection \<open>The fold\<close>

record queue_fact =
  qf_kind :: command_kind
  qf_blocks :: "string list"
  qf_position :: nat

record loop_fold =
  lf_queue :: "string \<rightharpoonup> queue_fact"
  lf_run :: string
  lf_pending :: "loop_entry list"
  lf_last :: nat
  lf_ordinal :: nat
  lf_dropped :: nat

definition newLoopFold :: loop_fold where
  "newLoopFold = \<lparr>lf_queue = Map.empty, lf_run = '''', lf_pending = [], lf_last = 0, lf_ordinal = 0, lf_dropped = 0\<rparr>"

definition loopCommandKind :: "queue_kind \<Rightarrow> command_kind" where
  "loopCommandKind k =
     (case k of QueueSteer \<Rightarrow> CommandSteer | QueueFollowUp \<Rightarrow> CommandFollowUp | QueueNextTurn \<Rightarrow> CommandNextTurn
      | QueueOther s \<Rightarrow> CommandKindOther s)"

definition rememberQueue :: "string \<Rightarrow> queue_kind \<Rightarrow> string list \<Rightarrow> nat \<Rightarrow> loop_fold \<Rightarrow> loop_fold" where
  "rememberQueue i kind blocks n f =
     f\<lparr>lf_queue := (lf_queue f)(i \<mapsto> \<lparr>qf_kind = loopCommandKind kind, qf_blocks = blocks, qf_position = n\<rparr>)\<rparr>"

definition queuedInput :: "string \<Rightarrow> loop_fold \<Rightarrow> queued_input" where
  "queuedInput i f =
     (case lf_queue f i of
        None \<Rightarrow> \<lparr>qi_id = i, qi_kind = CommandKindOther '''', qi_command = '''', qi_position = 0, qi_blocks = []\<rparr>
      | Some x \<Rightarrow> \<lparr>qi_id = i, qi_kind = qf_kind x, qi_command = '''', qi_position = qf_position x, qi_blocks = qf_blocks x\<rparr>)"

definition injectedOrigin :: "string \<Rightarrow> loop_fold \<Rightarrow> entry_origin" where
  "injectedOrigin i f =
     (case lf_queue f i of
        Some x \<Rightarrow> if qf_kind x = CommandFollowUp then OriginFollowUp else OriginSteer
      | None \<Rightarrow> OriginSteer)"

definition loopEntryID :: "nat \<Rightarrow> nat \<Rightarrow> string" where
  "loopEntryID n index = (if index = 0 then ''e'' @ show_nat n else ''e'' @ show_nat n @ ''.'' @ show_nat index)"

subsection \<open>The projector\<close>

text \<open>The hooks of the projector: \<open>lp_finalized\<close> is the wait for the drive of a run, with the error that ends it.\<close>

record projector =
  lp_session :: string
  lp_suspend :: "suspension \<Rightarrow> safe_suspension result"
  lp_summarize :: "tool_use \<Rightarrow> string"
  lp_json_valid :: "string \<Rightarrow> bool"
  lp_marshal :: "json \<Rightarrow> string result"
  lp_available :: "go_error option"
  lp_run_command :: "string \<Rightarrow> string result"
  lp_queue_command :: "string \<Rightarrow> string result"
  lp_resolution_command :: "nat \<Rightarrow> string result"
  lp_finalized :: "string \<Rightarrow> go_error option"
  lp_output :: "string \<Rightarrow> string option"

definition runCommand :: "projector \<Rightarrow> string \<Rightarrow> string result" where
  "runCommand p i = (if i = '''' then Inr '''' else lp_run_command p i)"

definition queueCommand :: "projector \<Rightarrow> string \<Rightarrow> string result" where
  "queueCommand p i = (if i = '''' then Inr '''' else lp_queue_command p i)"

definition json_data :: "projector \<Rightarrow> string \<Rightarrow> string option" where
  "json_data p s = (if s \<noteq> '''' \<and> lp_json_valid p s then Some s else None)"

definition project_part :: "projector \<Rightarrow> (tool_use \<Rightarrow> string) \<Rightarrow> part \<Rightarrow> entry_block list" where
  "project_part p summary x =
     (case p_type x of
        ContentText \<Rightarrow> if p_text x \<noteq> '''' then [TextBlock (p_text x)] else []
      | ContentToolUse \<Rightarrow>
          (case p_tool_use x of
             None \<Rightarrow> []
           | Some u \<Rightarrow> [ToolCallBlock (tu_id u) (tu_name u)
               (case lp_marshal p (tu_input u) of Inr d \<Rightarrow> Some d | Inl _ \<Rightarrow> None) (summary u)])
      | ContentToolResult \<Rightarrow>
          (case p_tool_result x of
             None \<Rightarrow> []
           | Some r \<Rightarrow> [ToolResultBlock (tr_content r) (json_data p (tr_content r)) (tr_tool_use_id r) (tr_name r) (tr_is_error r)])
      | _ \<Rightarrow> [])"

definition projectMessageToEntryBlocks :: "projector \<Rightarrow> (tool_use \<Rightarrow> string) \<Rightarrow> message \<Rightarrow> entry_block list" where
  "projectMessageToEntryBlocks p summary m = concat (map (project_part p summary) (m_content m))"

definition projectMessageToInputBlocks :: "message \<Rightarrow> string list" where
  "projectMessageToInputBlocks m =
     concat (map (\<lambda>x. if p_type x = ContentText \<and> p_text x \<noteq> '''' then [p_text x] else []) (m_content m))"

definition loopRole :: "message_role \<Rightarrow> entry_role" where
  "loopRole r = (if r = RoleAssistant then EntryAssistant else if r = RoleTool then EntryTool else EntryUser)"

definition loopOutcomeKind :: "execution_status \<Rightarrow> outcome_kind" where
  "loopOutcomeKind s =
     (if s = ExecutionCompleted then SettledCompleted else if s = ExecutionInterrupted then SettledInterrupted else SettledFailed)"

definition entry :: "nat \<Rightarrow> nat \<Rightarrow> entry_role \<Rightarrow> entry_origin \<Rightarrow> string \<Rightarrow> string \<Rightarrow> entry_block list \<Rightarrow> loop_entry" where
  "entry n index role origin run command blocks =
     \<lparr>lo_id = loopEntryID n index, lo_run = run, lo_command = command, lo_position = n, lo_role = role,
      lo_origin = origin, lo_blocks = blocks\<rparr>"

definition event_at :: "nat \<Rightarrow> string \<Rightarrow> string \<Rightarrow> event_body \<Rightarrow> loop_event" where
  "event_at n run command body =
     \<lparr>lx_position = n, lx_ordinal = 0, lx_run = run, lx_command = command, lx_dropped = 0, lx_body = body\<rparr>"

definition entryEvent :: "nat \<Rightarrow> loop_entry \<Rightarrow> loop_event" where
  "entryEvent n e = event_at n (lo_run e) (lo_command e) (EvEntry e)"

definition with_command :: "string result \<Rightarrow> (string \<Rightarrow> loop_event list) \<Rightarrow> loop_event list result" where
  "with_command c g = (case c of Inl e \<Rightarrow> Inl e | Inr command \<Rightarrow> Inr (g command))"

type_synonym projected = "loop_fold \<times> loop_event list result"

definition suspendedEvent :: "projector \<Rightarrow> nat \<Rightarrow> suspension \<Rightarrow> loop_fold \<Rightarrow> loop_event list result" where
  "suspendedEvent p n x f =
     (case lp_suspend p x of
        Inl e \<Rightarrow> Inl e
      | Inr safe \<Rightarrow> with_command (runCommand p (lf_run f)) (\<lambda>c. [event_at n (lf_run f) c (EvSuspended safe)]))"

definition queueEvent :: "projector \<Rightarrow> queue_change \<Rightarrow> nat \<Rightarrow> string \<Rightarrow> loop_fold \<Rightarrow> loop_event list result" where
  "queueEvent p change n i f =
     with_command (queueCommand p i)
       (\<lambda>c. [event_at n (lf_run f) c (EvQueue change ((queuedInput i f)\<lparr>qi_command := c\<rparr>))])"

definition stateEvent :: "nat \<Rightarrow> session_phase \<Rightarrow> loop_event list" where
  "stateEvent n x = [event_at n '''' '''' (EvState x)]"

definition messageEvents :: "projector \<Rightarrow> nat \<Rightarrow> message_payload \<Rightarrow> loop_fold \<Rightarrow> projected" where
  "messageEvents p n x f =
     (if m_role (mp_message x) = RoleSystem then (f, Inr [])
      else
        let role = loopRole (m_role (mp_message x));
            blocks = projectMessageToEntryBlocks p (\<lambda>_. '''') (mp_message x);
            committed = (\<lambda>origin run c. [entryEvent n (entry n 0 role origin run c blocks)]) in
        if mp_source x = ''prompt'' then (f, with_command (runCommand p (lf_run f)) (committed OriginStart (lf_run f)))
        else if mp_source x = ''next_turn'' then
          (f, with_command (queueCommand p (mp_queue_id x)) (committed OriginNextTurn (lf_run f)))
        else if mp_source x = ''initial_history'' then (f, Inr (committed OriginStart '''' ''''))
        else if mp_source x = ''recovery_resolution'' \<or> mp_source x = ''resume_prompt'' then
          (f\<lparr>lf_pending := lf_pending f @ [entry n 0 role OriginStart '''' '''' blocks]\<rparr>, Inr [])
        else (f, with_command (runCommand p (lf_run f)) (committed OriginStart (lf_run f))))"

fun injected_events :: "projector \<Rightarrow> nat \<Rightarrow> nat \<Rightarrow> message list \<Rightarrow> string list \<Rightarrow> loop_fold \<Rightarrow> loop_event list result" where
  "injected_events p n index [] ids f = Inr []"
| "injected_events p n index (m # ms) ids f =
     (let i = (case ids of [] \<Rightarrow> '''' | i # _ \<Rightarrow> i) in
      case queueCommand p i of
        Inl e \<Rightarrow> Inl e
      | Inr c \<Rightarrow>
          (case injected_events p n (Suc index) ms (tl ids) f of
             Inl e \<Rightarrow> Inl e
           | Inr es \<Rightarrow> Inr (entryEvent n (entry n index EntryUser (injectedOrigin i f) (lf_run f) c
               (projectMessageToEntryBlocks p (\<lambda>_. '''') m)) # es)))"

definition applyAgentic :: "projector \<Rightarrow> nat \<Rightarrow> run_payload \<Rightarrow> loop_fold \<Rightarrow> loop_event list result" where
  "applyAgentic p n x f =
     (case x of
        PAssistant m \<Rightarrow>
          with_command (runCommand p (lf_run f)) (\<lambda>c. [entryEvent n (entry n 0 EntryAssistant OriginAssistant (lf_run f) c
            (projectMessageToEntryBlocks p (lp_summarize p) m))])
      | PToolResult call name content failed _ \<Rightarrow>
          with_command (runCommand p (lf_run f)) (\<lambda>c. [entryEvent n (entry n 0 EntryTool OriginTool (lf_run f) c
            [ToolResultBlock content (json_data p content) call name failed])])
      | PInjected ms ids \<Rightarrow> injected_events p n 0 ms ids f
      | PSuspended s \<Rightarrow>
          (case lp_finalized p (lf_run f) of Some e \<Rightarrow> Inl e | None \<Rightarrow> suspendedEvent p n s f)
      | PBroken \<Rightarrow> Inl (Plain ''decode event payload'')
      | _ \<Rightarrow> Inr [])"

definition decoded_kinds :: "string list" where
  "decoded_kinds = [''run.recovered'', ''run.opened'', ''run.closed'', ''message'', ''queue.accepted'', ''queue.drained'',
     ''queue.cancelled'', ''usage.committed'', ''subagent.usage'', ''resolution.accepted'', ''recovery.suspension'',
     ''session.recovered'', ''session.fault'']"

definition applyHarness :: "projector \<Rightarrow> nat \<Rightarrow> fact \<Rightarrow> loop_fold \<Rightarrow> projected" where
  "applyHarness p n x f =
     (case x of
        RunRecovered o1 \<Rightarrow>
          if lf_run f \<noteq> od_id o1 then (f, Inl (Sentinel ErrCorruptLog))
          else (f, with_command (runCommand p (od_id o1)) (\<lambda>c. [event_at n (od_id o1) c (EvState StateRunning)]))
      | RunOpened o1 \<Rightarrow>
          let f = f\<lparr>lf_run := od_id o1\<rparr> in
          (case runCommand p (od_id o1) of
             Inl e \<Rightarrow> (f, Inl e)
           | Inr c \<Rightarrow> (f\<lparr>lf_pending := []\<rparr>,
               Inr (map (\<lambda>e. entryEvent (lo_position e) (e\<lparr>lo_run := od_id o1, lo_command := c\<rparr>)) (lf_pending f) @
                 [event_at n (od_id o1) c EvRunStarted])))
      | RunClosed i status text \<Rightarrow>
          let kind = loopOutcomeKind status in
          (f\<lparr>lf_run := ''''\<rparr>, with_command (runCommand p i)
            (\<lambda>c. [event_at n i c (EvSettled i kind text (if kind = SettledCompleted then lp_output p i else None))]))
      | MessageAdded m \<Rightarrow> messageEvents p n m f
      | QueueAccepted i q \<Rightarrow>
          (case q of
             None \<Rightarrow> (f, Inl (Plain ''accepted queue entry has no payload''))
           | Some q \<Rightarrow>
               let f = rememberQueue i (qe_kind q) (projectMessageToInputBlocks (qe_message q)) n f in
               (f, queueEvent p QueueIn n i f))
      | QueueDrained i \<Rightarrow> (f, queueEvent p QueueOut n i f)
      | QueueCancelled i _ \<Rightarrow> (f, queueEvent p QueueGone n i f)
      | UsageCommitted _ u \<Rightarrow> (f, Inr [event_at n (lf_run f) '''' (EvUsage u)])
      | ChildUsage _ u \<Rightarrow> (f, Inr [event_at n (lf_run f) '''' (EvUsage u)])
      | ResolutionAccepted _ _ \<Rightarrow>
          (f, with_command (lp_resolution_command p n) (\<lambda>c. [event_at n (lf_run f) c EvCommandAccepted]))
      | RecoverySuspension s \<Rightarrow> (f, suspendedEvent p n s f)
      | SessionRecovered s \<Rightarrow> (f, Inr (stateEvent n (if s = phase_text Idle then StateIdle else StateRunning)))
      | SessionFault _ \<Rightarrow> (f, Inr (stateEvent n StateFaulted))
      | Compacted _ \<Rightarrow> (f, Inr [event_at n (lf_run f) '''' EvCompaction])
      | BrokenFact kind \<Rightarrow>
          (f, if kind \<in> set decoded_kinds then Inl (Plain (''decode '' @ kind @ '' entry'')) else Inr [])
      | _ \<Rightarrow> (f, Inr []))"

subsection \<open>Records\<close>

text \<open>What a record of the hub holds: an entry of the journal with its number, or a preview of one of the shapes.\<close>

datatype preview_record =
    TextDelta string | ThinkingDelta string | ToolCallDelta "tool_use list" | ToolArgumentDelta string string
  | ToolUpdate string | UnknownPreview

datatype stream_record = Durable nat fact nat | Preview nat preview_record nat

definition record_dropped :: "stream_record \<Rightarrow> nat" where
  "record_dropped r = (case r of Durable _ _ d \<Rightarrow> d | Preview _ _ d \<Rightarrow> d)"

definition previewPayload :: "preview_record \<Rightarrow> preview option" where
  "previewPayload r =
     (case r of
        ToolUpdate name \<Rightarrow> Some (PreviewTool name '''')
      | TextDelta s \<Rightarrow> Some (PreviewText s)
      | ThinkingDelta s \<Rightarrow> Some (PreviewThinking s)
      | ToolCallDelta calls \<Rightarrow> (case calls of [] \<Rightarrow> None | u # _ \<Rightarrow> Some (PreviewTool '''' (tu_id u)))
      | ToolArgumentDelta i s \<Rightarrow> Some (PreviewTool s i)
      | UnknownPreview \<Rightarrow> None)"

definition applyPreview :: "nat \<Rightarrow> preview_record \<Rightarrow> loop_fold \<Rightarrow> loop_fold \<times> loop_event list" where
  "applyPreview n r f =
     (case previewPayload r of
        None \<Rightarrow> (f, [])
      | Some x \<Rightarrow>
          let f = f\<lparr>lf_ordinal := Suc (lf_ordinal f)\<rparr> in
          (f, [(event_at (if lf_last f = 0 then n else lf_last f) (lf_run f) '''' (EvPreview x))\<lparr>lx_ordinal := lf_ordinal f\<rparr>]))"

text \<open>The first event of a record reports the previews that were lost before it.\<close>

definition deliver_events :: "loop_fold \<Rightarrow> loop_event list \<Rightarrow> projected" where
  "deliver_events f es =
     (case es of
        [] \<Rightarrow> (f, Inr [])
      | e # es' \<Rightarrow>
          if lf_dropped f > 0 then (f\<lparr>lf_dropped := 0\<rparr>, Inr (e\<lparr>lx_dropped := lf_dropped f\<rparr> # es'))
          else (f, Inr (e # es')))"

definition delivered :: "projected \<Rightarrow> projected" where
  "delivered x = (case x of (f, Inl e) \<Rightarrow> (f, Inl e) | (f, Inr es) \<Rightarrow> deliver_events f es)"

definition seen :: "nat \<Rightarrow> loop_fold \<Rightarrow> loop_fold" where
  "seen n f = (if n > lf_last f then f\<lparr>lf_last := n\<rparr> else f)"

definition child_progress :: "projector \<Rightarrow> nat \<Rightarrow> child_record \<Rightarrow> loop_fold \<Rightarrow> projected" where
  "child_progress p n r f =
     (if cr_session_id r \<noteq> '''' \<and> cr_session_id r \<noteq> lp_session p then
        if cr_parent_id r = lp_session p \<and> cr_nature r \<noteq> EventPreview then
          deliver_events (seen n f) [event_at n '''' '''' (EvChild (r\<lparr>cr_text := ''''\<rparr>))]
        else (f, Inr [])
      else (f, Inr []))"

definition apply_record :: "projector \<Rightarrow> stream_record \<Rightarrow> loop_fold \<Rightarrow> projected" where
  "apply_record p r f =
     (case lp_available p of
        Some e \<Rightarrow> (f, Inl e)
      | None \<Rightarrow>
          let f = f\<lparr>lf_dropped := lf_dropped f + record_dropped r\<rparr> in
          (case r of
             Preview n x _ \<Rightarrow> (case applyPreview n x f of (f, es) \<Rightarrow> deliver_events f es)
           | Durable n x _ \<Rightarrow>
               (case x of
                  ChildEvent c \<Rightarrow> child_progress p n c f
                | RunEvent e \<Rightarrow> delivered (seen n f, applyAgentic p n (rn_payload e) (seen n f))
                | _ \<Rightarrow> delivered (applyHarness p n x (seen n f)))))"

subsection \<open>The journal as records\<close>

definition agentic_kinds :: "string list" where
  "agentic_kinds = map (\<lambda>s. ''agentic.'' @ s)
     [''assistant_committed'', ''tool_batch_planned'', ''tool_started'', ''tool_result'', ''messages_injected'',
      ''turn_started'', ''turn_ended'', ''run_started'', ''run_suspended'', ''run_completed'', ''run_interrupted'',
      ''run_error'', ''run_ended'', ''output_validated'']"

definition isAgenticKind :: "string \<Rightarrow> bool" where
  "isAgenticKind kind = mem_str kind agentic_kinds"

fun records_from :: "nat \<Rightarrow> fact list \<Rightarrow> stream_record list result" where
  "records_from n [] = Inr []"
| "records_from n (x # xs) =
     (if (case x of BrokenFact kind \<Rightarrow> isAgenticKind kind \<or> kind = ''subagent.event'' | _ \<Rightarrow> False) then
        Inl (Plain ''decode event record'')
      else (case records_from (Suc n) xs of Inl e \<Rightarrow> Inl e | Inr rs \<Rightarrow> Inr (Durable n x 0 # rs)))"

definition loopRecords :: "fact list \<Rightarrow> stream_record list result" where
  "loopRecords j = records_from 1 j"

definition record_cursor :: "stream_record \<Rightarrow> nat" where
  "record_cursor r = (case r of Durable n _ _ \<Rightarrow> n | Preview n _ _ \<Rightarrow> n)"

text \<open>Records are projected in their order; the first error ends the projection.\<close>

fun project_records :: "projector \<Rightarrow> stream_record list \<Rightarrow> loop_fold \<Rightarrow> projected" where
  "project_records p [] f = (f, Inr [])"
| "project_records p (r # rs) f =
     (case apply_record p r f of
        (f, Inl e) \<Rightarrow> (f, Inl e)
      | (f, Inr es) \<Rightarrow>
          (case project_records p rs f of
             (f, Inl e) \<Rightarrow> (f, Inl e)
           | (f, Inr es') \<Rightarrow> (f, Inr (es @ es'))))"

subsection \<open>Replay\<close>

fun replay_loop :: "projector \<Rightarrow> nat \<Rightarrow> nat \<Rightarrow> stream_record list \<Rightarrow> loop_fold \<Rightarrow> loop_event list result" where
  "replay_loop p after through [] f = Inr []"
| "replay_loop p after through (r # rs) f =
     (if record_cursor r > through then Inr []
      else (case apply_record p r f of
              (f, Inl e) \<Rightarrow> Inl e
            | (f, Inr es) \<Rightarrow>
                (case replay_loop p after through rs f of
                   Inl e \<Rightarrow> Inl e
                 | Inr es' \<Rightarrow>
                     Inr ((if record_cursor r \<le> after then []
                           else filter (\<lambda>e. authoritative e \<and> lx_position e \<noteq> 0) es) @ es'))))"

definition Replay :: "projector \<Rightarrow> nat \<Rightarrow> nat \<Rightarrow> fact list \<Rightarrow> loop_event list result" where
  "Replay p after through j =
     (case lp_available p of
        Some e \<Rightarrow> Inl e
      | None \<Rightarrow>
          if after > through \<or> through > length j then Inl (Sentinel ErrUnknownPosition)
          else (case loopRecords j of Inl e \<Rightarrow> Inl e | Inr rs \<Rightarrow> replay_loop p after through rs newLoopFold))"

subsection \<open>Snapshot\<close>

record loop_snapshot =
  ln_position :: nat
  ln_state :: session_phase
  ln_active_run :: string
  ln_entries :: "loop_entry list"
  ln_pending :: "queued_input list"
  ln_suspension :: "safe_suspension option"
  ln_usage :: usage

definition phase_of :: "phase \<Rightarrow> session_phase" where
  "phase_of p =
     (case p of Idle \<Rightarrow> StateIdle | Running \<Rightarrow> StateRunning | Closing \<Rightarrow> StateClosing | Suspended \<Rightarrow> StateSuspended
      | Interrupting \<Rightarrow> StateInterrupting | Faulted \<Rightarrow> StateFaulted | Closed \<Rightarrow> StateClosed)"

definition entries_of :: "loop_event list \<Rightarrow> loop_entry list" where
  "entries_of es = concat (map (\<lambda>e. case lx_body e of EvEntry x \<Rightarrow> [x] | _ \<Rightarrow> []) es)"

text \<open>A projector that waits for no run and attaches no output.\<close>

definition pure_projector :: "projector \<Rightarrow> projector" where
  "pure_projector p = p\<lparr>lp_finalized := \<lambda>_. None, lp_output := \<lambda>_. None\<rparr>"

fun snapshot_pending :: "projector \<Rightarrow> loop_fold \<Rightarrow> queue_entry list \<Rightarrow> queued_input list result" where
  "snapshot_pending p f [] = Inr []"
| "snapshot_pending p f (q # qs) =
     (case lp_queue_command p (qe_id q) of
        Inl e \<Rightarrow> Inl e
      | Inr c \<Rightarrow>
          (case snapshot_pending p f qs of
             Inl e \<Rightarrow> Inl e
           | Inr xs \<Rightarrow> Inr ((queuedInput (qe_id q) f)\<lparr>qi_command := c\<rparr> # xs)))"

text \<open>The journal is read first, then the session.\<close>

definition loop_Snapshot :: "projector \<Rightarrow> fact list \<Rightarrow> session \<Rightarrow> loop_snapshot result" where
  "loop_Snapshot p j s =
     (case lp_available p of
        Some e \<Rightarrow> Inl e
      | None \<Rightarrow>
      (case loopRecords j of
         Inl e \<Rightarrow> Inl e
       | Inr rs \<Rightarrow>
       (case project_records (pure_projector p) rs newLoopFold of
          (f, Inl e) \<Rightarrow> Inl e
        | (f, Inr es) \<Rightarrow>
        (case s_acceptance_fault s of
           Some e \<Rightarrow> Inl (mapLoopError (FaultError (s_id s) e))
         | None \<Rightarrow>
         (case snapshot_pending p f (s_queue s) of
            Inl e \<Rightarrow> Inl e
          | Inr pending \<Rightarrow>
              let snap = \<lparr>ln_position = length j, ln_state = phase_of (s_state s), ln_active_run = run_id s,
                    ln_entries = entries_of es, ln_pending = pending, ln_suspension = None, ln_usage = s_usage s\<rparr> in
              (case s_suspension s of
                 None \<Rightarrow> Inr snap
               | Some x \<Rightarrow>
                   (case lp_suspend p x of
                      Inl e \<Rightarrow> Inl e
                    | Inr safe \<Rightarrow> Inr (snap\<lparr>ln_suspension := Some safe\<rparr>))))))))"

subsection \<open>Streams\<close>

record loop_stream =
  ll_fold :: loop_fold
  ll_queue :: "loop_event list"
  ll_terminal :: "go_error option"
  ll_closed :: bool

text \<open>The fold of a stream is seeded with what precedes its position.\<close>

fun seed_fold :: "projector \<Rightarrow> nat \<Rightarrow> stream_record list \<Rightarrow> loop_fold \<Rightarrow> loop_fold result" where
  "seed_fold p after [] f = Inr f"
| "seed_fold p after (r # rs) f =
     (if record_cursor r > after then Inr f
      else (case apply_record p r f of (f, Inl e) \<Rightarrow> Inl e | (f, Inr _) \<Rightarrow> seed_fold p after rs f))"

definition loop_Subscribe :: "projector \<Rightarrow> go_error option \<Rightarrow> nat \<Rightarrow> fact list \<Rightarrow> session \<Rightarrow> loop_stream result" where
  "loop_Subscribe p ctx after j s =
     (case lp_available p of
        Some e \<Rightarrow> Inl e
      | None \<Rightarrow>
      (case ctx of
         Some e \<Rightarrow> Inl e
       | None \<Rightarrow>
         if after > s_cursor s then
           Inl (wrap_cause (''replay position '' @ show_nat after @ '' is beyond the durable history at '' @
             show_nat (s_cursor s)) (Sentinel ErrUnknownPosition))
         else
           (case (if after > 0 then
                    (case loopRecords j of Inl e \<Rightarrow> Inl e | Inr rs \<Rightarrow> seed_fold p after rs newLoopFold)
                  else Inr newLoopFold) of
              Inl e \<Rightarrow> Inl e
            | Inr f \<Rightarrow> Inr \<lparr>ll_fold = f, ll_queue = [], ll_terminal = None, ll_closed = False\<rparr>)))"

definition inject_event :: "loop_event \<Rightarrow> loop_stream \<Rightarrow> loop_stream" where
  "inject_event e st =
     (if ll_closed st \<or> ll_terminal st \<noteq> None then st else st\<lparr>ll_queue := ll_queue st @ [e]\<rparr>)"

text \<open>The event of a resolution that bounced: it has no position and is not replayed.\<close>

definition announceLiveState :: "string \<Rightarrow> string \<Rightarrow> session_phase \<Rightarrow> loop_stream list \<Rightarrow> loop_stream list" where
  "announceLiveState run command state streams =
     map (inject_event (event_at 0 run command (EvState state))) streams"

text \<open>How the subscription ended, and what \<^verbatim>\<open>Next\<close> answers from then on.\<close>

datatype stream_end = EndClean | EndLagged go_error | EndError go_error

definition io_EOF :: go_error where
  "io_EOF = Plain ''EOF''"

definition settle_stream :: "stream_end \<Rightarrow> loop_stream \<Rightarrow> loop_stream" where
  "settle_stream e st =
     st\<lparr>ll_terminal := Some (case e of
          EndClean \<Rightarrow> io_EOF
        | EndLagged e \<Rightarrow> Wrapped (kind_text ErrLagged @ '': '' @ err_text e) (Joined (Sentinel ErrLagged) e)
        | EndError e \<Rightarrow> e)\<rparr>"

definition close_stream :: "loop_stream \<Rightarrow> loop_stream" where
  "close_stream st = st\<lparr>ll_closed := True\<rparr>"

text \<open>
  One call of \<^verbatim>\<open>Next\<close>, given the records the subscription holds and how it ended: it takes records until an event
  is there.  None: it waits.
\<close>

fun stream_next ::
  "projector \<Rightarrow> stream_record list \<Rightarrow> stream_end option \<Rightarrow> loop_stream \<Rightarrow>
     loop_event result option \<times> stream_record list \<times> loop_stream" where
  "stream_next p rs ended st =
     (case lp_available p of
        Some e \<Rightarrow> (Some (Inl e), rs, st)
      | None \<Rightarrow>
      (case ll_queue st of
         e # es \<Rightarrow> (Some (Inr e), rs, st\<lparr>ll_queue := es\<rparr>)
       | [] \<Rightarrow>
       (case ll_terminal st of
          Some e \<Rightarrow> (Some (Inl e), rs, st)
        | None \<Rightarrow>
          if ll_closed st then (Some (Inl io_EOF), rs, st)
          else (case rs of
              [] \<Rightarrow>
                (case ended of
                   None \<Rightarrow> (None, [], st)
                 | Some e \<Rightarrow> (map_option Inl (ll_terminal (settle_stream e st)), [], settle_stream e st))
            | r # rs' \<Rightarrow>
                (case apply_record p r (ll_fold st) of
                   (f, Inl e) \<Rightarrow> (Some (Inl e), rs', st\<lparr>ll_fold := f\<rparr>)
                 | (f, Inr es) \<Rightarrow> stream_next p rs' ended (st\<lparr>ll_fold := f, ll_queue := es\<rparr>))))))"

end
