(* ===== verification/Loop_Replay.thy ===== *)
theory Loop_Replay
  imports Loop_Projection Session_Example
begin

text \<open>
  What the projection promises: it does not show what is private in the journal, previews do not touch what is
  authoritative, a stream is the replay of its journal, the parts of a replay fit together, and a snapshot has the
  entries of the replay.
\<close>

subsection \<open>An example\<close>

definition ex_projector :: projector where
  "ex_projector = \<lparr>lp_session = ''s'', lp_suspend = \<lambda>_. Inl (Plain ''no view''), lp_summarize = \<lambda>_. '''',
     lp_json_valid = \<lambda>_. False, lp_marshal = \<lambda>_. Inr ''{}'', lp_available = None, lp_run_command = \<lambda>i. Inr (''c'' @ i),
     lp_queue_command = \<lambda>i. Inr (''c'' @ i), lp_resolution_command = \<lambda>_. Inr '''', lp_finalized = \<lambda>_. None,
     lp_output = \<lambda>_. Some ''1''\<rparr>"

definition ex_opened :: "string \<Rightarrow> string \<Rightarrow> fact" where
  "ex_opened i mode = RunOpened \<lparr>od_id = i, od_mode = mode, od_recovery = False, od_limits = None, od_instructions = mode\<rparr>"

definition ex_message :: "string \<Rightarrow> part list \<Rightarrow> fact" where
  "ex_message source ps = MessageAdded \<lparr>mp_message = \<lparr>m_role = RoleUser, m_content = ps\<rparr>, mp_source = source, mp_queue_id = ''''\<rparr>"

text \<open>A run, and a second that resumes with a prompt; the arguments are private.\<close>

definition ex_history :: "string \<Rightarrow> part list \<Rightarrow> fact list" where
  "ex_history mode hidden =
     [SessionCreated None False None, ex_opened ''r1'' mode,
      ex_message ''prompt'' (hidden @ [(zero_part ContentText)\<lparr>p_text := ''hi''\<rparr>]),
      RunClosed ''r1'' ExecutionCompleted '''',
      ex_message ''resume_prompt'' [(zero_part ContentText)\<lparr>p_text := ''more''\<rparr>], ex_opened ''r2'' mode]"

definition ex_late :: session where
  "ex_late = ex_session\<lparr>s_cursor := 6\<rparr>"

text \<open>The last three entries as a stream has them, with previews between.\<close>

definition ex_records :: "stream_record list" where
  "ex_records = [Preview 3 (TextDelta ''a'') 0, Durable 4 (ex_history '''' [] ! 3) 0, Preview 4 UnknownPreview 2,
     Durable 5 (ex_history '''' [] ! 4) 0, Durable 6 (ex_history '''' [] ! 5) 1]"

subsection \<open>Private content\<close>

definition public_part :: "part \<Rightarrow> part list" where
  "public_part x =
     (case p_type x of
        ContentText \<Rightarrow> [(zero_part ContentText)\<lparr>p_text := p_text x\<rparr>]
      | ContentToolUse \<Rightarrow> [(zero_part ContentToolUse)\<lparr>p_tool_use := p_tool_use x\<rparr>]
      | ContentToolResult \<Rightarrow> [(zero_part ContentToolResult)\<lparr>p_tool_result := p_tool_result x\<rparr>]
      | _ \<Rightarrow> [])"

definition public_message :: "message \<Rightarrow> message" where
  "public_message m = m\<lparr>m_content := concat (map public_part (m_content m))\<rparr>"

definition public_payload :: "run_payload \<Rightarrow> run_payload" where
  "public_payload x =
     (case x of
        PAssistant m \<Rightarrow> PAssistant (public_message m)
      | PToolResult call name content failed _ \<Rightarrow> PToolResult call name content failed ''''
      | PInjected ms ids \<Rightarrow> PInjected (map public_message ms) ids
      | PSuspended s \<Rightarrow> PSuspended s
      | PBroken \<Rightarrow> PBroken
      | _ \<Rightarrow> PRunStarted)"

text \<open>
  What is left of an entry when everything private is taken out: instructions and limits of runs, system,
  repair and context messages, reasoning and media parts, the reasons of cancellations and faults, receipts of
  commands, progress of tools, what a resolution says, the content of children, and the text of a compaction.
\<close>

definition public_fact :: "fact \<Rightarrow> fact" where
  "public_fact x =
     (case x of
        RunOpened o1 \<Rightarrow> RunOpened \<lparr>od_id = od_id o1, od_mode = '''', od_recovery = False, od_limits = None, od_instructions = ''''\<rparr>
      | RunRecovered o1 \<Rightarrow> RunRecovered \<lparr>od_id = od_id o1, od_mode = '''', od_recovery = False, od_limits = None, od_instructions = ''''\<rparr>
      | RunClosed i status text \<Rightarrow> RunClosed i status text
      | MessageAdded m \<Rightarrow> if m_role (mp_message m) = RoleSystem then OtherFact ''''
          else MessageAdded (m\<lparr>mp_message := public_message (mp_message m)\<rparr>)
      | QueueAccepted i q \<Rightarrow> QueueAccepted i (map_option (\<lambda>q. q\<lparr>qe_message := public_message (qe_message q), qe_accepted := 0\<rparr>) q)
      | QueueDrained i \<Rightarrow> QueueDrained i
      | QueueCancelled i _ \<Rightarrow> QueueCancelled i ''''
      | RunEvent e \<Rightarrow> RunEvent \<lparr>rn_turn = 0, rn_payload = public_payload (rn_payload e), rn_session_used = None\<rparr>
      | UsageCommitted _ u \<Rightarrow> UsageCommitted zero_usage u
      | ChildUsage _ u \<Rightarrow> ChildUsage \<lparr>uc_session_id = '''', uc_agent = '''', uc_usage = zero_usage\<rparr> u
      | ChildEvent r \<Rightarrow> ChildEvent (r\<lparr>cr_text := ''''\<rparr>)
      | RecoverySuspension s \<Rightarrow> RecoverySuspension s
      | SessionFault _ \<Rightarrow> SessionFault ''''
      | Compacted _ \<Rightarrow> Compacted \<lparr>cp_version = 0, cp_start = 0, cp_cut = 0, cp_prefix_hash = '''', cp_summary = \<lparr>m_role = RoleUser, m_content = []\<rparr>\<rparr>
      | ResolutionAccepted _ _ \<Rightarrow> ResolutionAccepted '''' \<lparr>rq_suspension_id = '''', rq_resolutions = [], rq_prompt = None\<rparr>
      | SessionRecovered s \<Rightarrow> SessionRecovered s
      | BrokenFact kind \<Rightarrow> BrokenFact kind
      | _ \<Rightarrow> OtherFact '''')"

lemma public_blocks [simp]:
  "projectMessageToEntryBlocks p g (public_message m) = projectMessageToEntryBlocks p g m"
proof -
  have "concat (map (project_part p g) (public_part x)) = project_part p g x" for x
    by (auto simp: public_part_def project_part_def zero_part_def split: content_type.split)
  then have "concat (map (project_part p g) (concat (map public_part xs))) = concat (map (project_part p g) xs)" for xs
    by (induction xs) simp_all
  then show ?thesis by (simp add: projectMessageToEntryBlocks_def public_message_def)
qed

lemma public_input [simp]: "projectMessageToInputBlocks (public_message m) = projectMessageToInputBlocks m"
proof -
  let ?g = "\<lambda>x. if p_type x = ContentText \<and> p_text x \<noteq> '''' then [p_text x] else []"
  have "concat (map ?g (public_part x)) = ?g x" for x
    by (auto simp: public_part_def zero_part_def split: content_type.split)
  then have "concat (map ?g (concat (map public_part xs))) = concat (map ?g xs)" for xs
    by (induction xs) simp_all
  then show ?thesis by (simp add: projectMessageToInputBlocks_def public_message_def)
qed

lemma public_role [simp]: "m_role (public_message m) = m_role m"
  by (simp add: public_message_def)

lemma public_injected [simp]: "injected_events p n k (map public_message ms) ids f = injected_events p n k ms ids f"
  by (induction ms arbitrary: k ids) (auto simp: Let_def split: sum.split)

lemma public_agentic [simp]: "applyAgentic p n (public_payload x) f = applyAgentic p n x f"
  by (cases x) (simp_all add: applyAgentic_def public_payload_def)

lemma public_apply: "apply_record p (Durable n (public_fact x) d) f = apply_record p (Durable n x d) f"
  by (cases x) (auto simp: apply_record_def public_fact_def record_dropped_def applyHarness_def messageEvents_def Let_def
      child_progress_def split: option.split sum.split)

definition public_record :: "stream_record \<Rightarrow> stream_record" where
  "public_record r = (case r of Durable n x d \<Rightarrow> Durable n (public_fact x) d | Preview n x d \<Rightarrow> Preview n x d)"

lemma public_records:
  "records_from n (map public_fact j) = (case records_from n j of Inl e \<Rightarrow> Inl e | Inr rs \<Rightarrow> Inr (map public_record rs))"
proof (induction j arbitrary: n)
  case (Cons x j)
  have "(case public_fact x of BrokenFact kind \<Rightarrow> isAgenticKind kind \<or> kind = ''subagent.event'' | _ \<Rightarrow> False) =
      (case x of BrokenFact kind \<Rightarrow> isAgenticKind kind \<or> kind = ''subagent.event'' | _ \<Rightarrow> False)"
    by (cases x) (simp_all add: public_fact_def)
  then show ?case using Cons [of "Suc n"] by (auto simp: public_record_def split: sum.splits)
qed simp

lemma public_record_apply: "apply_record p (public_record r) f = apply_record p r f" "record_cursor (public_record r) = record_cursor r"
  by (cases r; simp add: public_record_def public_apply record_cursor_def)+

lemma public_replay: "replay_loop p after through (map public_record rs) f = replay_loop p after through rs f"
  by (induction rs arbitrary: f) (auto simp: public_record_apply split: prod.split sum.split)

lemma public_project: "project_records p (map public_record rs) f = project_records p rs f"
  by (induction rs arbitrary: f) (auto simp: public_record_apply split: prod.split sum.split)

lemma public_seed: "seed_fold p after (map public_record rs) f = seed_fold p after rs f"
  by (induction rs arbitrary: f) (auto simp: public_record_apply split: prod.split sum.split)

lemma public_loaded: "loopRecords (map public_fact j) = (case loopRecords j of Inl e \<Rightarrow> Inl e | Inr rs \<Rightarrow> Inr (map public_record rs))"
  by (simp add: loopRecords_def public_records)

lemma public_views:
  "Replay p after through (map public_fact j) = Replay p after through j"
  "loop_Snapshot p (map public_fact j) s = loop_Snapshot p j s"
  "loop_Subscribe p ctx after (map public_fact j) s = loop_Subscribe p ctx after j s"
proof -
  show "Replay p after through (map public_fact j) = Replay p after through j"
    by (cases "loopRecords j") (simp_all add: Replay_def public_loaded public_replay split: option.split)
  show "loop_Snapshot p (map public_fact j) s = loop_Snapshot p j s"
    unfolding loop_Snapshot_def public_loaded length_map
    by (cases "loopRecords j") (simp_all only: sum.case public_project)
  show "loop_Subscribe p ctx after (map public_fact j) s = loop_Subscribe p ctx after j s"
    unfolding loop_Subscribe_def public_loaded by (cases "loopRecords j") (simp_all only: sum.case public_seed)
qed

subsection \<open>Previews\<close>

definition plain :: "loop_event \<Rightarrow> loop_event" where
  "plain e = e\<lparr>lx_dropped := 0\<rparr>"

definition durable_record :: "stream_record \<Rightarrow> bool" where
  "durable_record r = (case r of Durable _ _ _ \<Rightarrow> True | Preview _ _ _ \<Rightarrow> False)"

text \<open>What a durable record says, without the count of lost previews.\<close>

definition record_body :: "stream_record \<Rightarrow> nat \<times> fact option" where
  "record_body r = (case r of Durable n x _ \<Rightarrow> (n, Some x) | Preview n _ _ \<Rightarrow> (n, None))"

text \<open>Folds that differ in what only previews use.\<close>

definition same_fold :: "loop_fold \<Rightarrow> loop_fold \<Rightarrow> bool" where
  "same_fold f g \<longleftrightarrow> lf_queue f = lf_queue g \<and> lf_run f = lf_run g \<and> lf_pending f = lf_pending g"

definition same_projected :: "projected \<Rightarrow> projected \<Rightarrow> bool" where
  "same_projected x y \<longleftrightarrow> same_fold (fst x) (fst y) \<and>
     (case (snd x, snd y) of
        (Inl e, Inl e') \<Rightarrow> e = e'
      | (Inr es, Inr es') \<Rightarrow> map plain es = map plain es'
      | _ \<Rightarrow> False)"

lemma same_fold_refl [simp]: "same_fold f f"
  by (simp add: same_fold_def)

lemma same_fold_volatile [simp]:
  "same_fold (f\<lparr>lf_dropped := d\<rparr>) g = same_fold f g" "same_fold f (g\<lparr>lf_dropped := d\<rparr>) = same_fold f g"
  "same_fold (f\<lparr>lf_ordinal := d\<rparr>) g = same_fold f g" "same_fold f (g\<lparr>lf_ordinal := d\<rparr>) = same_fold f g"
  "same_fold (seen n f) g = same_fold f g" "same_fold f (seen n g) = same_fold f g"
  by (simp_all add: same_fold_def seen_def)

lemma same_queued: "same_fold f g \<Longrightarrow> queuedInput i f = queuedInput i g" "same_fold f g \<Longrightarrow> injectedOrigin i f = injectedOrigin i g"
  by (simp_all add: same_fold_def queuedInput_def injectedOrigin_def)

lemma same_events:
  "same_fold f g \<Longrightarrow> suspendedEvent p n s f = suspendedEvent p n s g"
  "same_fold f g \<Longrightarrow> queueEvent p c n i f = queueEvent p c n i g"
  "same_fold f g \<Longrightarrow> injected_events p n k ms ids f = injected_events p n k ms ids g"
  "same_fold f g \<Longrightarrow> applyAgentic p n x f = applyAgentic p n x g"
proof -
  assume f: "same_fold f g"
  then have run: "lf_run f = lf_run g" by (simp add: same_fold_def)
  show s: "suspendedEvent p n s f = suspendedEvent p n s g" for s using run by (cases "lp_suspend p s") (simp_all add: suspendedEvent_def)
  show "queueEvent p c n i f = queueEvent p c n i g" using run same_queued [OF f] by (simp add: queueEvent_def)
  show i: "injected_events p n k ms ids f = injected_events p n k ms ids g" for k ms ids
    by (induction ms arbitrary: k ids) (auto simp: run same_queued [OF f] Let_def split: sum.split)
  show "applyAgentic p n x f = applyAgentic p n x g" using run s i by (cases x) (simp_all add: applyAgentic_def split: option.split)
qed

lemma same_remember: "same_fold f g \<Longrightarrow> same_fold (rememberQueue i k b n f) (rememberQueue i k b n g)"
  by (simp add: same_fold_def rememberQueue_def)

lemma same_message:
  "same_fold f g \<Longrightarrow> same_fold (fst (messageEvents p n m f)) (fst (messageEvents p n m g)) \<and>
     snd (messageEvents p n m f) = snd (messageEvents p n m g)"
  by (simp add: messageEvents_def same_fold_def Let_def)

lemma same_harness:
  assumes "same_fold f g"
  shows "same_fold (fst (applyHarness p n x f)) (fst (applyHarness p n x g)) \<and>
    snd (applyHarness p n x f) = snd (applyHarness p n x g)"
proof (cases x)
  case (MessageAdded m)
  then show ?thesis using same_message [OF assms] by (simp add: applyHarness_def)
next
  case (QueueAccepted i q)
  then show ?thesis using assms same_remember [OF assms] same_events(2) [OF same_remember [OF assms]]
    by (cases q) (simp_all add: applyHarness_def Let_def)
qed (use assms same_events [OF assms] in \<open>auto simp: applyHarness_def same_fold_def Let_def split: sum.split\<close>)

lemma same_delivered:
  assumes "same_fold (fst x) (fst y)" "snd x = snd y"
  shows "same_projected (delivered x) (delivered y)"
proof -
  obtain f r g where xy: "x = (f, r)" "y = (g, r)" using assms(2) by (metis prod.collapse)
  then have f: "same_fold f g" using assms(1) by simp
  show ?thesis
  proof (cases r)
    case (Inr es)
    then show ?thesis using f xy by (cases es) (auto simp: same_projected_def delivered_def deliver_events_def plain_def)
  qed (use f xy in \<open>simp add: same_projected_def delivered_def\<close>)
qed

lemma same_child: "same_fold f g \<Longrightarrow> same_projected (child_progress p n r f) (child_progress p n r g)"
  by (auto simp: child_progress_def same_projected_def deliver_events_def plain_def)

lemma same_durable:
  assumes "same_fold f g"
  shows "same_projected (apply_record p (Durable n x d) f) (apply_record p (Durable n x d') g)"
proof (cases "lp_available p")
  case None
  let ?f = "f\<lparr>lf_dropped := lf_dropped f + d\<rparr>" let ?g = "g\<lparr>lf_dropped := lf_dropped g + d'\<rparr>"
  have fg: "same_fold ?f ?g" "same_fold (seen n ?f) (seen n ?g)" using assms by simp_all
  have h: "same_projected (delivered (applyHarness p n x (seen n ?f))) (delivered (applyHarness p n x (seen n ?g)))"
    using same_harness [OF fg(2)] by (intro same_delivered) simp_all
  have a: "same_projected (delivered (seen n ?f, applyAgentic p n z (seen n ?f))) (delivered (seen n ?g, applyAgentic p n z (seen n ?g)))" for z
    using fg(2) same_events(4) [OF fg(2)] by (intro same_delivered) simp_all
  show ?thesis using None h a same_child [OF fg(1)] by (cases x) (simp_all add: apply_record_def record_dropped_def Let_def)
next
  case (Some e)
  then show ?thesis using assms by (simp add: apply_record_def same_projected_def)
qed

lemma deliver_previews:
  assumes "filter authoritative es = []"
  shows "\<exists>f' es'. deliver_events f es = (f', Inr es') \<and> same_fold f' f \<and> filter authoritative es' = []"
  using assms by (cases es) (auto simp: deliver_events_def authoritative_def)

lemma preview_shape:
  assumes "lp_available p = None"
  shows "\<exists>f' es. apply_record p (Preview n x d) f = (f', Inr es) \<and> same_fold f' f \<and> filter authoritative es = []"
proof -
  let ?f = "f\<lparr>lf_dropped := lf_dropped f + d\<rparr>"
  obtain g es where g: "applyPreview n x ?f = (g, es)" by fastforce
  have "filter authoritative es = []" "same_fold g f"
    using g by (auto simp: applyPreview_def authoritative_def event_at_def Let_def split: option.splits)
  then show ?thesis using deliver_previews [of es g] assms g
    by (auto simp: apply_record_def record_dropped_def Let_def same_fold_def)
qed

definition agrees :: "loop_event list result \<Rightarrow> loop_event list result \<Rightarrow> bool" where
  "agrees x y \<longleftrightarrow>
     (case (x, y) of
        (Inl e, Inl e') \<Rightarrow> e = e'
      | (Inr es, Inr es') \<Rightarrow> map plain (filter authoritative es) = map plain (filter authoritative es')
      | _ \<Rightarrow> False)"

lemma plain_authoritative [simp]: "authoritative (plain e) = authoritative e"
  by (simp add: authoritative_def plain_def)

lemma plain_filter: "map plain es = map plain es' \<Longrightarrow> map plain (filter authoritative es) = map plain (filter authoritative es')"
proof -
  have "map plain (filter authoritative es) = filter authoritative (map plain es)" for es
    by (induction es) simp_all
  then show "map plain es = map plain es' \<Longrightarrow> ?thesis" by simp
qed

text \<open>Dropping the previews of a stream changes nothing that is authoritative.\<close>

lemma previews_do_not_matter:
  assumes "lp_available p = None"
  shows "same_fold f g \<Longrightarrow> map record_body (filter durable_record rs) = map record_body qs \<Longrightarrow>
    \<forall>q\<in>set qs. durable_record q \<Longrightarrow> agrees (snd (project_records p rs f)) (snd (project_records p qs g))"
proof (induction rs arbitrary: f g qs)
  case Nil
  then show ?case by (simp add: agrees_def)
next
  case (Cons r rs)
  show ?case
  proof (cases r)
    case (Preview n x d)
    obtain f' es where r: "apply_record p r f = (f', Inr es)" "same_fold f' f" "filter authoritative es = []"
      using preview_shape [OF assms] Preview by blast
    have "same_fold f' g" using r(2) Cons.prems(1) by (simp add: same_fold_def)
    then have "agrees (snd (project_records p rs f')) (snd (project_records p qs g))"
      using Cons.IH [of f' g qs] Cons.prems(2,3) Preview by (simp add: durable_record_def)
    then show ?thesis using r by (auto simp: agrees_def split: prod.split sum.splits)
  next
    case (Durable n x d)
    then have "durable_record r" by (simp add: durable_record_def)
    then obtain q qs' where q: "qs = q # qs'" "record_body q = record_body r"
        "map record_body (filter durable_record rs) = map record_body qs'"
      using Cons.prems(2) by (cases qs) auto
    then obtain d' where d': "q = Durable n x d'"
      using Durable by (cases q) (auto simp: record_body_def)
    obtain f1 r1 where 1: "apply_record p r f = (f1, r1)" by fastforce
    obtain g1 r2 where 2: "apply_record p q g = (g1, r2)" by fastforce
    have s: "same_projected (f1, r1) (g1, r2)" using same_durable [OF Cons.prems(1)] 1 2 Durable d' by metis
    then have "same_fold f1 g1" by (simp add: same_projected_def)
    from Cons.IH [OF this q(3)] Cons.prems(3) q(1)
    have ih: "agrees (snd (project_records p rs f1)) (snd (project_records p qs' g1))" by simp
    obtain f2 r3 where 3: "project_records p rs f1 = (f2, r3)" by fastforce
    obtain g2 r4 where 4: "project_records p qs' g1 = (g2, r4)" by fastforce
    show ?thesis
    proof (cases r1)
      case (Inl e)
      then have "r2 = Inl e" using s by (cases r2) (simp_all add: same_projected_def)
      then show ?thesis using Inl 1 2 q(1) by (simp add: agrees_def)
    next
      case (Inr es)
      then obtain es' where es': "r2 = Inr es'" "map plain es = map plain es'" using s by (cases r2) (simp_all add: same_projected_def)
      show ?thesis using ih 1 2 3 4 Inr es'(1) plain_filter [OF es'(2)] q(1)
        by (cases r3; cases r4) (simp_all add: agrees_def)
    qed
  qed
qed

subsection \<open>Positions\<close>

text \<open>The records of a journal are numbered from one.\<close>

lemma records_from_shape:
  "records_from n j = Inr rs \<Longrightarrow> map record_body rs = map (\<lambda>(k, x). (k, Some x)) (List.enumerate n j) \<and>
     (\<forall>r\<in>set rs. durable_record r) \<and> map record_cursor rs = [n..<n + length j]"
proof (induction j arbitrary: n rs)
  case (Cons x j)
  then obtain rs' where "rs = Durable n x 0 # rs'" "records_from (Suc n) j = Inr rs'"
    by (auto split: if_splits sum.splits)
  then show ?case using Cons.IH [of "Suc n" rs'] by (simp add: record_body_def record_cursor_def durable_record_def upt_rec)
qed simp

text \<open>The positions in a fold and in its events lie behind the start of the journal.\<close>

definition placed :: "loop_fold \<Rightarrow> bool" where
  "placed f \<longleftrightarrow> (\<forall>e\<in>set (lf_pending f). 0 < lo_position e)"

lemma entry_sel [simp]: "lo_position (entry n k role origin run c blocks) = n" "lx_position (entryEvent n e) = n"
  "lx_position (event_at n run c body) = n"
  by (simp_all add: entry_def entryEvent_def event_at_def)

lemma injected_placed: "injected_events p n k ms ids f = Inr es \<Longrightarrow> 0 < n \<Longrightarrow> \<forall>e\<in>set es. 0 < lx_position e"
  by (induction ms arbitrary: k ids es) (auto simp: Let_def split: sum.splits)

lemma events_placed:
  "0 < n \<Longrightarrow> suspendedEvent p n s f = Inr es \<Longrightarrow> \<forall>e\<in>set es. 0 < lx_position e"
  "0 < n \<Longrightarrow> queueEvent p c n i f = Inr es \<Longrightarrow> \<forall>e\<in>set es. 0 < lx_position e"
  "0 < n \<Longrightarrow> with_command w (\<lambda>c. [entryEvent n (h c)]) = Inr es \<Longrightarrow> \<forall>e\<in>set es. 0 < lx_position e"
  "0 < n \<Longrightarrow> with_command w (\<lambda>c. [event_at n run c body]) = Inr es \<Longrightarrow> \<forall>e\<in>set es. 0 < lx_position e"
  by (auto simp: suspendedEvent_def queueEvent_def with_command_def split: sum.splits)

lemma agentic_placed: "applyAgentic p n x f = Inr es \<Longrightarrow> 0 < n \<Longrightarrow> \<forall>e\<in>set es. 0 < lx_position e"
  by (cases x) (auto simp: applyAgentic_def with_command_def dest: injected_placed events_placed split: option.splits sum.splits)

lemma message_placed:
  "messageEvents p n m f = (f', r) \<Longrightarrow> 0 < n \<Longrightarrow> placed f \<Longrightarrow> placed f' \<and> (\<forall>es. r = Inr es \<longrightarrow> (\<forall>e\<in>set es. 0 < lx_position e))"
  by (auto simp: messageEvents_def placed_def with_command_def Let_def split: if_splits sum.splits)

lemma harness_placed:
  assumes "applyHarness p n x f = (f', r)" "0 < n" "placed f"
  shows "placed f' \<and> (\<forall>es. r = Inr es \<longrightarrow> (\<forall>e\<in>set es. 0 < lx_position e))"
proof (cases x)
  case (MessageAdded m)
  then show ?thesis using message_placed assms by (simp add: applyHarness_def)
qed (use assms in \<open>auto simp: applyHarness_def placed_def Let_def with_command_def stateEvent_def rememberQueue_def
    dest: events_placed split: if_splits sum.splits option.splits\<close>)

lemma delivered_placed:
  assumes "delivered (f, r) = (f', Inr es)" "placed f" "\<And>es. r = Inr es \<Longrightarrow> \<forall>e\<in>set es. 0 < lx_position e"
  shows "placed f' \<and> (\<forall>e\<in>set es. 0 < lx_position e)"
proof -
  obtain es' where r: "r = Inr es'" using assms(1) by (cases r) (auto simp: delivered_def)
  show ?thesis using assms r by (cases es') (auto simp: delivered_def deliver_events_def placed_def split: if_splits)
qed

lemma placed_seen [simp]: "placed (seen n f) = placed f" "placed (f\<lparr>lf_dropped := d\<rparr>) = placed f"
  by (simp_all add: placed_def seen_def)

lemma apply_placed:
  assumes "apply_record p r f = (f', Inr es)" "0 < record_cursor r" "placed f" "durable_record r"
  shows "placed f' \<and> (\<forall>e\<in>set es. 0 < lx_position e)"
proof -
  obtain n x d where r: "r = Durable n x d" using assms(4) by (cases r) (auto simp: durable_record_def)
  then have n: "0 < n" using assms(2) by (simp add: record_cursor_def)
  define g where "g = f\<lparr>lf_dropped := lf_dropped f + d\<rparr>"
  have g: "placed (seen n g)" "placed g" using assms(3) by (simp_all add: g_def)
  have ap: "lp_available p = None" using assms(1) by (auto simp: apply_record_def split: option.splits)
  have h: "placed f' \<and> (\<forall>e\<in>set es. 0 < lx_position e)" if "delivered (applyHarness p n x (seen n g)) = (f', Inr es)"
  proof -
    obtain f1 r1 where 1: "applyHarness p n x (seen n g) = (f1, r1)" by fastforce
    show ?thesis using harness_placed [OF 1 n g(1)] that 1 by (intro delivered_placed [of f1 r1]) auto
  qed
  show ?thesis
  proof (cases x)
    case (RunEvent e)
    then have "delivered (seen n g, applyAgentic p n (rn_payload e) (seen n g)) = (f', Inr es)"
      using assms(1) r ap by (simp add: apply_record_def record_dropped_def g_def Let_def)
    then show ?thesis by (rule delivered_placed) (use g agentic_placed n in auto)
  next
    case (ChildEvent c)
    then have "child_progress p n c g = (f', Inr es)"
      using assms(1) r ap by (simp add: apply_record_def record_dropped_def g_def Let_def)
    then show ?thesis using g n
      by (auto simp: child_progress_def deliver_events_def placed_def seen_def split: if_splits)
  qed (use assms(1) r ap h in \<open>simp_all add: apply_record_def record_dropped_def g_def Let_def\<close>)
qed

subsection \<open>Replays\<close>

text \<open>A replay is the projection of the records up to its end, without the events of those up to its start.\<close>

fun project_each :: "projector \<Rightarrow> stream_record list \<Rightarrow> loop_fold \<Rightarrow> (nat \<times> loop_event list) list result" where
  "project_each p [] f = Inr []"
| "project_each p (r # rs) f =
     (case apply_record p r f of
        (f, Inl e) \<Rightarrow> Inl e
      | (f, Inr es) \<Rightarrow>
          (case project_each p rs f of Inl e \<Rightarrow> Inl e | Inr xs \<Rightarrow> Inr ((record_cursor r, es) # xs)))"

definition between :: "nat \<Rightarrow> (nat \<times> loop_event list) list \<Rightarrow> loop_event list" where
  "between after xs = filter authoritative (concat (map snd (filter (\<lambda>x. after < fst x) xs)))"

lemma replay_each:
  assumes "\<forall>r\<in>set rs. durable_record r \<and> 0 < record_cursor r \<and> record_cursor r \<le> through" "placed f"
  shows "replay_loop p after through rs f = map_sum id (between after) (project_each p rs f)"
  using assms
proof (induction rs arbitrary: f)
  case (Cons r rs)
  obtain f' x where a: "apply_record p r f = (f', x)" by fastforce
  show ?case
  proof (cases x)
    case (Inr es)
    have p: "placed f'" "\<forall>e\<in>set es. 0 < lx_position e" using apply_placed [of p r f f' es] a Inr Cons.prems by auto
    then have "filter (\<lambda>e. authoritative e \<and> lx_position e \<noteq> 0) es = filter authoritative es"
      by (intro filter_cong) auto
    then show ?thesis using Cons.IH [OF _ p(1)] Cons.prems a Inr
      by (cases "project_each p rs f'") (auto simp: between_def)
  qed (use Cons.prems a in simp)
qed (simp add: between_def)

lemma replay_truncates:
  "replay_loop p after through rs f = replay_loop p after through (takeWhile (\<lambda>r. record_cursor r \<le> through) rs) f"
  by (induction rs arbitrary: f) (auto split: prod.split sum.split)

lemma project_records_each:
  "snd (project_records p rs f) = map_sum id (\<lambda>xs. concat (map snd xs)) (project_each p rs f)"
proof (induction rs arbitrary: f)
  case (Cons r rs)
  obtain f' x where a: "apply_record p r f = (f', x)" by fastforce
  obtain g y where b: "project_records p rs f' = (g, y)" by fastforce
  from Cons.IH [of f'] a b show ?case
    by (cases x; cases y; cases "project_each p rs f'") simp_all
qed simp

lemma each_cursors: "project_each p rs f = Inr xs \<Longrightarrow> map fst xs = map record_cursor rs"
proof (induction rs arbitrary: f xs)
  case (Cons r rs)
  obtain f' x where a: "apply_record p r f = (f', x)" by fastforce
  with Cons.prems Cons.IH [of f'] show ?case
    by (cases x; cases "project_each p rs f'") auto
qed simp

definition fold_after :: "projector \<Rightarrow> stream_record list \<Rightarrow> loop_fold \<Rightarrow> loop_fold result" where
  "fold_after p rs f = (case project_records p rs f of (f', Inl e) \<Rightarrow> Inl e | (f', Inr _) \<Rightarrow> Inr f')"

lemma fold_after_simps [simp]:
  "fold_after p [] f = Inr f"
  "fold_after p (r # rs) f = (case apply_record p r f of (f', Inl e) \<Rightarrow> Inl e | (f', Inr _) \<Rightarrow> fold_after p rs f')"
  by (auto simp: fold_after_def split: prod.split sum.split)

lemma seed_fold_after: "seed_fold p after rs f = fold_after p (takeWhile (\<lambda>r. record_cursor r \<le> after) rs) f"
  by (induction rs arbitrary: f) (auto split: prod.split sum.split)

lemma each_append:
  "project_each p (rs @ qs) f =
     (case project_each p rs f of
        Inl e \<Rightarrow> Inl e
      | Inr xs \<Rightarrow> (case fold_after p rs f of Inl e \<Rightarrow> Inl e
          | Inr f' \<Rightarrow> (case project_each p qs f' of Inl e \<Rightarrow> Inl e | Inr ys \<Rightarrow> Inr (xs @ ys))))"
  by (induction rs arbitrary: f) (auto split: prod.split sum.split)

lemma fold_after_each: "project_each p rs f = Inr xs \<Longrightarrow> \<exists>f'. fold_after p rs f = Inr f'"
  by (induction rs arbitrary: f xs) (auto split: prod.splits sum.splits)

text \<open>The records of a journal from one position to another.\<close>

definition span :: "nat \<Rightarrow> nat \<Rightarrow> fact list \<Rightarrow> stream_record list" where
  "span a b j = map (\<lambda>k. Durable (Suc k) (j ! k) 0) [a..<b]"

lemma span_append: "a \<le> b \<Longrightarrow> b \<le> c \<Longrightarrow> span a c j = span a b j @ span b c j"
  using upt_add_eq_append [of a b "c - b"] by (simp add: span_def)

lemma span_cursors [simp]: "map record_cursor (span a b j) = map Suc [a..<b]"
  by (simp add: span_def record_cursor_def)

lemma span_member:
  "r \<in> set (span a b j) \<Longrightarrow> durable_record r \<and> 0 < record_cursor r \<and> a < record_cursor r \<and> record_cursor r \<le> b"
  by (auto simp: span_def record_cursor_def durable_record_def)

lemma records_from_positions: "records_from n j = Inr rs \<Longrightarrow> rs = map (\<lambda>k. Durable (n + k) (j ! k) 0) [0..<length j]"
proof (induction j arbitrary: n rs)
  case (Cons x j)
  then obtain rs' where "rs = Durable n x 0 # rs'" "records_from (Suc n) j = Inr rs'"
    by (auto split: if_splits sum.splits)
  then show ?case using Cons.IH [of "Suc n" rs'] by (simp add: upt_conv_Cons map_Suc_upt [symmetric] del: upt_Suc)
qed simp

lemma records_span: "loopRecords j = Inr rs \<Longrightarrow> rs = span 0 (length j) j"
  using records_from_positions [of "Suc 0" j rs] by (simp add: loopRecords_def span_def)

lemma span_prefix:
  assumes "m \<le> length j"
  shows "takeWhile (\<lambda>r. record_cursor r \<le> m) (span 0 (length j) j) = span 0 m j"
proof -
  have "takeWhile (\<lambda>r. record_cursor r \<le> m) (span 0 m j @ span m (length j) j) =
      span 0 m j @ takeWhile (\<lambda>r. record_cursor r \<le> m) (span m (length j) j)"
    by (rule takeWhile_append2) (auto dest: span_member)
  moreover have "takeWhile (\<lambda>r. record_cursor r \<le> m) (span m (length j) j) = []"
    by (cases "m < length j") (simp_all add: span_def upt_conv_Cons record_cursor_def)
  ultimately show ?thesis using span_append [of 0 m "length j" j] assms by simp
qed

lemma placed_new [simp]: "placed newLoopFold"
  by (simp add: placed_def newLoopFold_def)

lemma replay_span:
  assumes "Replay p after through j = Inr es"
  obtains xs where "after \<le> through" "through \<le> length j" "lp_available p = None" "loopRecords j = Inr (span 0 (length j) j)"
    "project_each p (span 0 through j) newLoopFold = Inr xs" "es = between after xs" "map fst xs = map Suc [0..<through]"
proof -
  have a: "after \<le> through" "through \<le> length j" "lp_available p = None"
    using assms by (auto simp: Replay_def split: option.splits if_splits)
  then obtain rs where rs: "loopRecords j = Inr rs" "replay_loop p after through rs newLoopFold = Inr es"
    using assms by (auto simp: Replay_def split: sum.splits)
  have r: "rs = span 0 (length j) j" using records_span [OF rs(1)] .
  have "replay_loop p after through (span 0 through j) newLoopFold = Inr es"
    using rs(2) replay_truncates [of p after through rs] span_prefix [OF a(2)] r by simp
  then have "map_sum id (between after) (project_each p (span 0 through j) newLoopFold) = Inr es"
    using replay_each [of "span 0 through j" through newLoopFold p after] span_member [of _ 0 through j] by simp
  then obtain xs where "project_each p (span 0 through j) newLoopFold = Inr xs" "es = between after xs"
    by (cases "project_each p (span 0 through j) newLoopFold") auto
  then show ?thesis using that a rs(1) r each_cursors [of p "span 0 through j" newLoopFold xs] by simp
qed

text \<open>The records up to a position and those after it, told apart by their cursors.\<close>

lemma filter_parts:
  assumes "map fst xs = map Suc [a..<b]" "map fst ys = map Suc [b..<c]"
  shows "filter (\<lambda>x. b < fst x) xs = []" "filter (\<lambda>y. b < fst y) ys = ys" "d \<le> b \<Longrightarrow> filter (\<lambda>y. d < fst y) ys = ys"
proof -
  have xs: "\<not> b < fst x" if "x \<in> set xs" for x
  proof -
    have "fst x \<in> set (map fst xs)" using that by simp
    then show ?thesis unfolding assms(1) by (auto simp del: upt_Suc)
  qed
  have ys: "b < fst y" if "y \<in> set ys" for y
  proof -
    have "fst y \<in> set (map fst ys)" using that by simp
    then show ?thesis unfolding assms(2) by (auto simp del: upt_Suc)
  qed
  show "filter (\<lambda>x. b < fst x) xs = []" using xs by (simp add: filter_empty_conv)
  show "filter (\<lambda>y. b < fst y) ys = ys" using ys by simp
  show "filter (\<lambda>y. d < fst y) ys = ys" if "d \<le> b" using le_less_trans [OF that ys] by (simp add: filter_id_conv)
qed

lemma replay_parts:
  assumes "Replay p after through j = Inr es"
  obtains xs f ys where "project_each p (span 0 after j) newLoopFold = Inr xs" "fold_after p (span 0 after j) newLoopFold = Inr f"
    "project_each p (span after through j) f = Inr ys" "es = filter authoritative (concat (map snd ys))"
    "loopRecords j = Inr (span 0 (length j) j)" "after \<le> through" "through \<le> length j" "lp_available p = None"
proof -
  obtain zs where z: "after \<le> through" "through \<le> length j" "lp_available p = None" "loopRecords j = Inr (span 0 (length j) j)"
    "project_each p (span 0 through j) newLoopFold = Inr zs" "es = between after zs"
    using replay_span [OF assms] by blast
  have s: "span 0 through j = span 0 after j @ span after through j" by (rule span_append [OF le0 z(1)])
  obtain xs f ys where x: "project_each p (span 0 after j) newLoopFold = Inr xs" "fold_after p (span 0 after j) newLoopFold = Inr f"
    "project_each p (span after through j) f = Inr ys" "zs = xs @ ys"
    using z(5) unfolding s each_append by (auto split: sum.splits)
  have "filter (\<lambda>x. after < fst x) (xs @ ys) = ys"
    using filter_parts [of xs 0 after ys through] each_cursors [OF x(1)] each_cursors [OF x(3)] by simp
  then have "es = filter authoritative (concat (map snd ys))" using z(6) x(4) by (simp add: between_def del: filter_append)
  then show ?thesis using that [OF x(1-3) _ z(4) z(1-3)] by simp
qed

text \<open>
  Replays fit together: the replay up to a position, followed by the replay from that position to another, is the
  replay of both parts at once.
\<close>

lemma replays_compose:
  assumes "Replay p a b j = Inr es" "Replay p b c j = Inr es'"
  shows "Replay p a c j = Inr (es @ es')"
proof -
  obtain xs where x: "a \<le> b" "project_each p (span 0 b j) newLoopFold = Inr xs" "es = between a xs"
    using replay_span [OF assms(1)] by metis
  obtain zs where z: "b \<le> c" "c \<le> length j" "lp_available p = None" "loopRecords j = Inr (span 0 (length j) j)"
    "project_each p (span 0 c j) newLoopFold = Inr zs" "es' = between b zs" "map fst zs = map Suc [0..<c]"
    using replay_span [OF assms(2)] by metis
  obtain ys f where y: "zs = xs @ ys" "project_each p (span b c j) f = Inr ys"
    using z(5) x(2) span_append [of 0 b c j] z(1) by (auto simp: each_append split: sum.splits)
  have "filter (\<lambda>x. b < fst x) zs = ys" "filter (\<lambda>x. a < fst x) zs = filter (\<lambda>x. a < fst x) xs @ ys"
    using filter_parts [of xs 0 b ys c] each_cursors [OF x(2)] each_cursors [OF y(2)] x(1) y(1) by simp_all
  then have e: "es @ es' = between a zs" using x(3) z(6) by (simp add: between_def)
  have "replay_loop p a c (span 0 (length j) j) newLoopFold = Inr (between a zs)"
    using replay_truncates [of p a c "span 0 (length j) j"] span_prefix [OF z(2)]
      replay_each [of "span 0 c j" c newLoopFold p a] span_member [of _ 0 c j] z(5) by simp
  then show ?thesis using e x(1) z by (simp add: Replay_def)
qed

lemma replays_fit:
  "\<exists>es es'. Replay ex_projector 0 3 (ex_history '''' []) = Inr es \<and> Replay ex_projector 3 6 (ex_history '''' []) = Inr es' \<and>
     Replay ex_projector 0 6 (ex_history '''' []) = Inr (es @ es')"
proof -
  have "case Replay ex_projector 0 3 (ex_history '''' []) of Inr _ \<Rightarrow> True | Inl _ \<Rightarrow> False"
    "case Replay ex_projector 3 6 (ex_history '''' []) of Inr _ \<Rightarrow> True | Inl _ \<Rightarrow> False" by code_simp+
  then obtain es es' where "Replay ex_projector 0 3 (ex_history '''' []) = Inr es" "Replay ex_projector 3 6 (ex_history '''' []) = Inr es'"
    by (auto split: sum.splits)
  then show ?thesis using replays_compose by blast
qed

text \<open>
  The prompt of a resumption is shown when its run opens, under the position of its own entry: a replay strictly
  after that position shows it.
\<close>

lemma replay_shows_prompt_late:
  "case Replay ex_projector 5 6 (ex_history '''' []) of Inr (e # _) \<Rightarrow> lx_position e = 5 | _ \<Rightarrow> False"
  by code_simp

subsection \<open>Streams\<close>

declare stream_next.simps [simp del]

text \<open>What a client reads in \<open>k\<close> calls of \<^verbatim>\<open>Next\<close>, up to the first that waits.\<close>

fun stream_read :: "nat \<Rightarrow> projector \<Rightarrow> stream_record list \<Rightarrow> loop_stream \<Rightarrow> loop_event result list" where
  "stream_read 0 p rs st = []"
| "stream_read (Suc k) p rs st =
     (case stream_next p rs None st of (None, _) \<Rightarrow> [] | (Some x, rs', st') \<Rightarrow> x # stream_read k p rs' st')"

text \<open>Reading does not depend on what is private in the durable records.\<close>

lemma public_next: "stream_next p (map public_record rs) ended st =
    (case stream_next p rs ended st of (x, rs', st') \<Rightarrow> (x, map public_record rs', st'))"
proof (induction rs arbitrary: st)
  case (Cons r rs)
  obtain f x where a: "apply_record p r (ll_fold st) = (f, x)" by fastforce
  show ?case using Cons.IH
    by (cases x; cases ended)
      (simp_all add: stream_next.simps [of p "r # rs"] stream_next.simps [of p "public_record r # map public_record rs"]
        public_record_apply a split: option.split list.split)
qed (simp add: stream_next.simps [of p "[]"] split: option.split list.split)

lemma public_read: "stream_read k p (map public_record rs) st = stream_read k p rs st"
proof (induction k arbitrary: rs st)
  case (Suc k)
  then show ?case
    by (cases "stream_next p rs None st") (simp add: public_next split: option.split)
qed simp

text \<open>
  C21. What is private in the journal stays private.  Two journals that differ only in private content
  (instructions and limits of runs, system, repair and context messages, reasoning and media parts, tool progress,
  the content of children, resolutions, receipts, summaries) have the same replays, the same snapshots and the
  same seeds of streams, whatever the hooks of the host are; and two streams whose durable records differ only in
  private content, with the same previews between them, deliver the same events and errors.  Previews are live and
  are not part of the claim: they carry the reasoning and the names of running tools to the client as they are.
\<close>

theorem projection_hides_private:
  assumes "map public_fact j = map public_fact j'" "map public_record rs = map public_record rs'"
  shows "Replay p after through j = Replay p after through j' \<and> loop_Snapshot p j s = loop_Snapshot p j' s \<and>
    loop_Subscribe p ctx after j s = loop_Subscribe p ctx after j' s \<and>
    stream_read k p rs st = stream_read k p rs' st"
  using public_views public_read assms by metis

text \<open>The records of the example with other limits and instructions of the run, and the same previews.\<close>

definition ex_private :: "stream_record list" where
  "ex_private = [Preview 3 (TextDelta ''a'') 0, Durable 4 (ex_history ''m'' [] ! 3) 0, Preview 4 UnknownPreview 2,
     Durable 5 (ex_history ''m'' [] ! 4) 0, Durable 6 (ex_history ''m'' [] ! 5) 1]"

lemma projection_hides_private_witness:
  "Replay ex_projector 0 6 (ex_history ''m'' [zero_part ContentThinking]) = Replay ex_projector 0 6 (ex_history '''' []) \<and>
   loop_Snapshot ex_projector (ex_history ''m'' [zero_part ContentThinking]) ex_late =
     loop_Snapshot ex_projector (ex_history '''' []) ex_late \<and>
   (\<forall>st. stream_read 9 ex_projector ex_private st = stream_read 9 ex_projector ex_records st)"
proof -
  have "map public_fact (ex_history ''m'' [zero_part ContentThinking]) = map public_fact (ex_history '''' [])"
    by (simp add: ex_history_def ex_opened_def ex_message_def public_fact_def public_message_def public_part_def zero_part_def)
  moreover have "map public_record ex_private = map public_record ex_records"
    by (simp add: ex_private_def ex_records_def ex_history_def ex_opened_def public_record_def public_fact_def)
  ultimately show ?thesis using projection_hides_private by blast
qed

definition open_stream :: "projector \<Rightarrow> stream_record list \<Rightarrow> loop_stream \<Rightarrow> loop_event list \<Rightarrow> bool" where
  "open_stream p rs st es \<longleftrightarrow> lp_available p = None \<and> ll_terminal st = None \<and> \<not> ll_closed st \<and>
     (\<exists>xs. snd (project_records p rs (ll_fold st)) = Inr xs \<and> ll_queue st @ xs = es)"

lemma next_waits: "open_stream p rs st [] \<Longrightarrow> fst (stream_next p rs None st) = None"
proof (induction rs arbitrary: st)
  case (Cons r rs)
  obtain f x where a: "apply_record p r (ll_fold st) = (f, x)" by fastforce
  obtain g y where b: "project_records p rs f = (g, y)" by fastforce
  have "x = Inr []" "y = Inr []" "ll_queue st = []"
    using Cons.prems a b by (cases x; cases y; auto simp: open_stream_def)+
  with Cons.IH [of "st\<lparr>ll_fold := f, ll_queue := []\<rparr>"] Cons.prems a b show ?case
    by (simp add: open_stream_def stream_next.simps [of p "r # rs"])
qed (simp add: open_stream_def stream_next.simps [of _ "[]"])

lemma next_event:
  "open_stream p rs st (e # es) \<Longrightarrow>
     \<exists>rs' st'. stream_next p rs None st = (Some (Inr e), rs', st') \<and> open_stream p rs' st' es"
proof (induction rs arbitrary: st)
  case Nil
  then show ?case by (auto simp: open_stream_def stream_next.simps [of _ "[]"])
next
  case (Cons r rs)
  show ?case
  proof (cases "ll_queue st")
    case Nil
    obtain f x where a: "apply_record p r (ll_fold st) = (f, x)" by fastforce
    obtain g y where b: "project_records p rs f = (g, y)" by fastforce
    obtain es0 es1 where "x = Inr es0" "y = Inr es1" "es0 @ es1 = e # es"
      using Cons.prems Nil a b by (cases x; cases y; auto simp: open_stream_def)
    with Cons.IH [of "st\<lparr>ll_fold := f, ll_queue := es0\<rparr>"] Cons.prems a b Nil show ?thesis
      by (simp add: open_stream_def stream_next.simps [of p "r # rs"])
  next
    case Q: (Cons e' q)
    then show ?thesis using Cons.prems
      by (auto simp: open_stream_def stream_next.simps [of p "r # rs"])
  qed
qed

lemma stream_reads: "open_stream p rs st es \<Longrightarrow> stream_read k p rs st = map Inr (take k es)"
proof (induction k arbitrary: rs st es)
  case (Suc k)
  show ?case
  proof (cases es)
    case Nil
    then have "fst (stream_next p rs None st) = None" using next_waits Suc.prems by simp
    then show ?thesis using Nil by (cases "stream_next p rs None st") simp
  next
    case (Cons e es')
    then obtain rs' st' where "stream_next p rs None st = (Some (Inr e), rs', st')" "open_stream p rs' st' es'"
      using next_event Suc.prems by blast
    then show ?thesis using Suc.IH Cons by simp
  qed
qed simp

lemma span_take: "b \<le> m \<Longrightarrow> span a b (take m j) = span a b j"
  by (simp add: span_def)

text \<open>A stream opened at a position has the fold of the records up to it.\<close>

lemma subscribed:
  assumes "loop_Subscribe p None after j s = Inr st" "after \<le> length j"
  shows "ll_queue st = []" "ll_terminal st = None" "\<not> ll_closed st" "lp_available p = None"
    "fold_after p (span 0 after j) newLoopFold = Inr (ll_fold st)"
proof -
  have "\<exists>f. st = \<lparr>ll_fold = f, ll_queue = [], ll_terminal = None, ll_closed = False\<rparr> \<and> lp_available p = None \<and>
      fold_after p (span 0 after j) newLoopFold = Inr f"
  proof (cases "0 < after")
    case True
    then obtain rs f where "loopRecords j = Inr rs" "seed_fold p after rs newLoopFold = Inr f" "lp_available p = None"
        "st = \<lparr>ll_fold = f, ll_queue = [], ll_terminal = None, ll_closed = False\<rparr>"
      using assms(1) by (auto simp: loop_Subscribe_def split: option.splits if_splits sum.splits)
    then show ?thesis using records_span [of j rs] span_prefix [OF assms(2)] by (simp add: seed_fold_after)
  next
    case False
    then show ?thesis using assms(1) by (auto simp: loop_Subscribe_def span_def split: option.splits if_splits)
  qed
  then show "ll_queue st = []" "ll_terminal st = None" "\<not> ll_closed st" "lp_available p = None"
    "fold_after p (span 0 after j) newLoopFold = Inr (ll_fold st)" by auto
qed

text \<open>
  The records a stream reads: those of a part of the journal, in their order, with previews between them.
\<close>

definition carries :: "stream_record list \<Rightarrow> nat \<Rightarrow> nat \<Rightarrow> fact list \<Rightarrow> bool" where
  "carries rs a b j \<longleftrightarrow> map record_body (filter durable_record rs) = map record_body (span a b j)"

lemma stream_opened:
  assumes "loop_Subscribe p None a (take m j) s = Inr st" "a \<le> m" "m \<le> length j" "carries rs a b j"
    "fold_after p (span 0 a j) newLoopFold = Inr f" "project_each p (span a b j) f = Inr ys"
  obtains es where "open_stream p rs st es" "map plain (filter authoritative es) = map plain (filter authoritative (concat (map snd ys)))"
proof -
  note s = subscribed [OF assms(1)]
  have f: "ll_fold st = f" using s(5) assms(2,3,5) by (simp add: span_take)
  have "agrees (snd (project_records p rs f)) (snd (project_records p (span a b j) f))"
    using previews_do_not_matter [of p f f rs "span a b j"] s(4) assms(2-4) span_member [of _ a b j]
    by (simp add: carries_def)
  then have "agrees (snd (project_records p rs f)) (Inr (concat (map snd ys)))"
    using assms(6) by (simp add: project_records_each)
  then obtain es where "snd (project_records p rs f) = Inr es"
      "map plain (filter authoritative es) = map plain (filter authoritative (concat (map snd ys)))"
    by (auto simp: agrees_def split: sum.splits)
  then show ?thesis using that s f assms(2,3) by (simp add: open_stream_def)
qed

text \<open>
  C20. A stream is the replay of what follows its position.  A client that subscribes at a position and reads the
  durable records of the journal that follow, whatever previews come between them, gets from \<^verbatim>\<open>Next\<close>,
  previews and loss counts apart, the events \<^verbatim>\<open>Replay\<close> gives for the same part of the journal, in the same order,
  and then waits.
\<close>

theorem stream_is_replay:
  assumes "Replay p a b j = Inr es" "loop_Subscribe p None a (take m j) s = Inr st" "a \<le> m" "m \<le> length j"
    "carries rs a b j"
  shows "\<exists>es'. (\<forall>k. stream_read k p rs st = map Inr (take k es')) \<and>
    map plain (filter authoritative es') = map plain es"
proof -
  obtain f ys where y: "fold_after p (span 0 a j) newLoopFold = Inr f" "project_each p (span a b j) f = Inr ys"
      "es = filter authoritative (concat (map snd ys))"
    using replay_parts [OF assms(1)] by metis
  from stream_opened [OF assms(2-5) y(1,2)]
  obtain es' where "open_stream p rs st es'" "map plain (filter authoritative es') = map plain es"
    using y(3) by metis
  then show ?thesis using stream_reads by blast
qed

lemma ex_subscribed:
  "\<exists>st. loop_Subscribe ex_projector None 3 (take 6 (ex_history '''' [])) ex_late = Inr st"
proof -
  have "case loop_Subscribe ex_projector None 3 (take 6 (ex_history '''' [])) ex_late of Inr _ \<Rightarrow> True | Inl _ \<Rightarrow> False"
    by code_simp
  then show ?thesis by (auto split: sum.splits)
qed

lemma ex_carries: "carries ex_records 3 6 (ex_history '''' [])" "length (ex_history '''' []) = 6"
  by (simp_all add: carries_def ex_records_def span_def durable_record_def record_body_def upt_rec ex_history_def)

lemma stream_is_replay_witness:
  "\<exists>st es es'. loop_Subscribe ex_projector None 3 (take 6 (ex_history '''' [])) ex_late = Inr st \<and>
     Replay ex_projector 3 6 (ex_history '''' []) = Inr es \<and>
     stream_read 9 ex_projector ex_records st = map Inr (take 9 es') \<and> map plain (filter authoritative es') = map plain es"
proof -
  obtain st where st: "loop_Subscribe ex_projector None 3 (take 6 (ex_history '''' [])) ex_late = Inr st"
    using ex_subscribed by blast
  obtain es where es: "Replay ex_projector 3 6 (ex_history '''' []) = Inr es" using replays_fit by blast
  have "3 \<le> (6::nat)" "6 \<le> length (ex_history '''' [])" by (simp_all add: ex_carries(2))
  from stream_is_replay [OF es st this ex_carries(1)] st es show ?thesis by blast
qed

subsection \<open>Snapshots\<close>

lemma entries_simps [simp]:
  "entries_of [] = []"
  "entries_of (e # es) = (case lx_body e of EvEntry x \<Rightarrow> [x] | _ \<Rightarrow> []) @ entries_of es"
  "entries_of (es @ es') = entries_of es @ entries_of es'"
  by (simp_all add: entries_of_def)

lemma entries_authoritative: "entries_of (filter authoritative es) = entries_of es"
  by (induction es) (auto simp: authoritative_def split: event_body.splits)

lemma entries_plain: "entries_of (map plain es) = entries_of es"
  by (induction es) (simp_all add: plain_def)

lemma entries_same: "map plain (filter authoritative es) = map plain (filter authoritative es') \<Longrightarrow> entries_of es = entries_of es'"
  using entries_plain [of "filter authoritative es"] entries_plain [of "filter authoritative es'"]
  by (simp only: entries_authoritative)

text \<open>The projector of a snapshot: what it projects differs in the outcome of a run only.\<close>

lemma pure_fields [simp]:
  "lp_available (pure_projector p) = lp_available p" "lp_session (pure_projector p) = lp_session p"
  "runCommand (pure_projector p) = runCommand p" "queueCommand (pure_projector p) = queueCommand p"
  "lp_resolution_command (pure_projector p) = lp_resolution_command p" "lp_summarize (pure_projector p) = lp_summarize p"
  "lp_suspend (pure_projector p) = lp_suspend p" "json_data (pure_projector p) = json_data p"
  by (auto simp: pure_projector_def fun_eq_iff runCommand_def queueCommand_def json_data_def)

lemma pure_part [simp]: "project_part (pure_projector p) = project_part p"
  by (auto simp: fun_eq_iff project_part_def pure_projector_def json_data_def split: content_type.split option.split)

lemma pure_events [simp]:
  "projectMessageToEntryBlocks (pure_projector p) h m = projectMessageToEntryBlocks p h m"
  "suspendedEvent (pure_projector p) n y f = suspendedEvent p n y f"
  "queueEvent (pure_projector p) c n i f = queueEvent p c n i f"
  "messageEvents (pure_projector p) n x f = messageEvents p n x f"
  by (simp_all add: projectMessageToEntryBlocks_def suspendedEvent_def queueEvent_def messageEvents_def Let_def split: sum.split)

lemma pure_injected [simp]: "injected_events (pure_projector p) n k ms ids f = injected_events p n k ms ids f"
  by (induction ms arbitrary: k ids) (simp_all add: Let_def split: sum.split)

definition pure_of :: "projected \<Rightarrow> projected \<Rightarrow> bool" where
  "pure_of x y \<longleftrightarrow> (\<forall>f es. x = (f, Inr es) \<longrightarrow>
     (\<exists>es'. y = (f, Inr es') \<and> length es' = length es \<and> entries_of es' = entries_of es))"

lemma pure_of_refl [simp]: "pure_of x x"
  by (simp add: pure_of_def)

lemma pure_agentic: "pure_of (g, applyAgentic p n x f) (g, applyAgentic (pure_projector p) n x f)"
proof (cases x)
  case (PSuspended s)
  have "lp_finalized (pure_projector p) = (\<lambda>_. None)" by (simp add: pure_projector_def)
  then show ?thesis using PSuspended by (cases "lp_finalized p (lf_run f)") (simp_all add: applyAgentic_def pure_of_def)
qed (simp_all add: applyAgentic_def)

lemma pure_harness: "pure_of (applyHarness p n x f) (applyHarness (pure_projector p) n x f)"
proof (cases x)
  case (RunClosed i status t)
  then show ?thesis
    by (auto simp: applyHarness_def pure_of_def with_command_def Let_def event_at_def split: sum.splits)
qed (simp_all add: applyHarness_def)

lemma pure_delivered: "pure_of x y \<Longrightarrow> pure_of (delivered x) (delivered y)"
proof -
  assume xy: "pure_of x y"
  obtain f r where x: "x = (f, r)" by fastforce
  show ?thesis
  proof (cases r)
    case (Inr es)
    then obtain es' where "y = (f, Inr es')" "length es' = length es" "entries_of es' = entries_of es"
      using xy x by (auto simp: pure_of_def)
    then show ?thesis using x Inr
      by (cases es; cases es') (simp_all add: pure_of_def delivered_def deliver_events_def)
  qed (simp add: x delivered_def pure_of_def)
qed

lemma pure_apply: "pure_of (apply_record p r f) (apply_record (pure_projector p) r f)"
proof (cases "lp_available p")
  case None
  note d = pure_delivered [OF pure_harness] pure_delivered [OF pure_agentic]
  show ?thesis
  proof (cases r)
    case (Durable n x l)
    then show ?thesis using None d
      by (cases x) (simp_all add: apply_record_def child_progress_def Let_def)
  qed (simp add: apply_record_def None Let_def)
qed (simp add: apply_record_def pure_of_def)

lemma pure_project:
  "project_records p rs f = (g, Inr es) \<Longrightarrow>
     \<exists>es'. project_records (pure_projector p) rs f = (g, Inr es') \<and> entries_of es' = entries_of es"
proof (induction rs arbitrary: f es)
  case (Cons r rs)
  obtain f' x where a: "apply_record p r f = (f', x)" by fastforce
  then obtain es0 where es0: "apply_record p r f = (f', Inr es0)" using Cons.prems by (cases x) auto
  obtain es1 where es1: "project_records p rs f' = (g, Inr es1)" "es = es0 @ es1"
    using Cons.prems es0 by (auto split: prod.splits sum.splits)
  obtain es2 where "apply_record (pure_projector p) r f = (f', Inr es2)" "entries_of es2 = entries_of es0"
    using pure_apply [of p r f] es0 by (auto simp: pure_of_def)
  then show ?case using Cons.IH [OF es1(1)] es1(2) by auto
qed simp

lemma snapshot_entries:
  assumes "loop_Snapshot p j s = Inr snap" "project_each p (span 0 (length j) j) newLoopFold = Inr xs"
  shows "ln_position snap = length j" "ln_entries snap = entries_of (concat (map snd xs))"
proof -
  obtain rs f es where r: "loopRecords j = Inr rs" "project_records (pure_projector p) rs newLoopFold = (f, Inr es)"
      "ln_position snap = length j" "ln_entries snap = entries_of es"
    using assms(1) by (auto simp: loop_Snapshot_def Let_def split: option.splits sum.splits prod.splits)
  obtain g y where y: "project_records p rs newLoopFold = (g, y)" by fastforce
  have "y = Inr (concat (map snd xs))"
    using project_records_each [of p rs newLoopFold] y assms(2) records_span [OF r(1)] by simp
  then show "ln_position snap = length j" "ln_entries snap = entries_of (concat (map snd xs))"
    using pure_project y r by fastforce+
qed

text \<open>
  C19. A snapshot and a stream from its position are the whole history.  A client takes a snapshot of a journal and
  subscribes at the position the snapshot names, perhaps when the journal has grown; the entries of the snapshot
  and the entries it then reads, put together, are the entries of the full replay: none is lost between the
  two calls and none is shown twice.
\<close>

theorem snapshot_then_stream:
  assumes "Replay p 0 n j = Inr es" "loop_Snapshot p (take m j) s = Inr snap" "m \<le> m'" "m' \<le> length j" "m \<le> n"
    "loop_Subscribe p None (ln_position snap) (take m' j) s' = Inr st" "carries rs (ln_position snap) n j"
  shows "\<exists>es'. (\<forall>k. stream_read k p rs st = map Inr (take k es')) \<and>
    entries_of es = ln_entries snap @ entries_of es'"
proof -
  have m: "length (take m j) = m" using assms(3,4) by simp
  obtain zs where z: "project_each p (span 0 n j) newLoopFold = Inr zs" "es = between 0 zs" "map fst zs = map Suc [0..<n]"
    using replay_span [OF assms(1)] by metis
  obtain xs f ys where x: "project_each p (span 0 m j) newLoopFold = Inr xs" "fold_after p (span 0 m j) newLoopFold = Inr f"
    "project_each p (span m n j) f = Inr ys" "zs = xs @ ys"
    using z(1) assms(5) span_append [of 0 m n j] by (auto simp: each_append split: sum.splits)
  have snap: "ln_position snap = m" "ln_entries snap = entries_of (concat (map snd xs))"
    using snapshot_entries [OF assms(2), of xs] x(1) m by (simp_all add: span_take)
  from stream_opened [OF assms(6) _ assms(4,7), of f ys]
  obtain es' where es': "open_stream p rs st es'" "entries_of es' = entries_of (concat (map snd ys))"
    using assms(3) snap(1) x(2,3) entries_same by metis
  have "filter (\<lambda>x. 0 < fst x) zs = zs" using filter_parts(2) [of "[]" 0 0 zs n] z(3) by simp
  then have "entries_of es = entries_of (concat (map snd zs))" using z(2) by (simp add: between_def entries_authoritative)
  then show ?thesis using x(4) snap(2) es' stream_reads by fastforce
qed

lemma snapshot_then_stream_witness:
  "\<exists>snap st es es'. loop_Snapshot ex_projector (take 3 (ex_history '''' [])) ex_late = Inr snap \<and>
     Replay ex_projector 0 6 (ex_history '''' []) = Inr es \<and>
     stream_read 9 ex_projector ex_records st = map Inr (take 9 es') \<and> entries_of es = ln_entries snap @ entries_of es'"
proof -
  have "case loop_Snapshot ex_projector (take 3 (ex_history '''' [])) ex_late of Inr x \<Rightarrow> ln_position x = 3 | Inl _ \<Rightarrow> False"
    by code_simp
  then obtain snap where snap: "loop_Snapshot ex_projector (take 3 (ex_history '''' [])) ex_late = Inr snap" "ln_position snap = 3"
    by (auto split: sum.splits)
  obtain st where st: "loop_Subscribe ex_projector None 3 (take 6 (ex_history '''' [])) ex_late = Inr st"
    using ex_subscribed by blast
  obtain es where es: "Replay ex_projector 0 6 (ex_history '''' []) = Inr es" using replays_fit by blast
  have n: "3 \<le> (6::nat)" "6 \<le> length (ex_history '''' [])" by (simp_all add: ex_carries(2))
  have "loop_Subscribe ex_projector None (ln_position snap) (take 6 (ex_history '''' [])) ex_late = Inr st"
    "carries ex_records (ln_position snap) 6 (ex_history '''' [])" using snap(2) st ex_carries(1) by simp_all
  from snapshot_then_stream [OF es snap(1) n n(1) this] snap(1) es show ?thesis by blast
qed

end
