(* ===== verification/Spec2Isabelle.thy ===== *)
theory Spec2Isabelle
  imports Run_Props Capability_Order Delivery Fenced_Journal Event_Hub Compactor Session_Props Session_Store Loop_Port
    Loop_Replay
begin

text \<open>
  \<^bold>\<open>The program.\<close>  The repository is a Go framework for agents that call language models and tools.
  Its root package drives one run: it sends the transcript to a model, gates and executes the tool
  calls of the answer, commits their results and repeats until an output is accepted, the run is
  suspended, or a limit or an error ends it.  The package \<^verbatim>\<open>harness\<close> keeps runs in durable
  sessions: a journal of entries per session, a mailbox that hands commands to one worker at a time,
  an event hub, a policy that shortens the context, a repair of transcripts, capabilities and
  permissions.  This development models the logic of both and leaves out the translation to the
  wire formats of model vendors, terminal interfaces, telemetry and tests.

  \<^bold>\<open>Conventions.\<close>  A Go function with results (T, error) returns a value of \<^typ>\<open>go_error + 'a\<close>; a
  panic is the error \<open>RuntimePanic\<close>.  Structs are records, enumerations datatypes whose last
  constructor holds any other string, strings the list of their bytes, \<^verbatim>\<open>uint64\<close> the type
  \<open>64 word\<close> where the code tests or counts on its width, \<^verbatim>\<open>int\<close> the type \<open>int\<close> where the code
  cannot approach its bounds (lengths, counters of one run, token estimates).  Functions that copy
  values to keep callers from sharing memory are identities.  A method under a mutex is one step.
  Code outside the repository and its standard library is an argument: models and tool handlers
  (the record \<open>env\<close> of Loop_State), JSON, SHA-256, randomness and clocks.

  \<^bold>\<open>Foundations.\<close>  Go_Base: errors, rendering of numbers and quoted strings, results.  Go_Text:
  trimming and joining.  Messages, Usage, Chat, Tool_Types, History: the data of
  internal/core and history_processor.go with their operations.  Tool_Registry: tool/registry.go, tool/toolset.go and
  the registry of one run; it refines an abstract table.  Path_Match: \<^verbatim>\<open>path.Match\<close> of the standard library.

  \<^bold>\<open>The transcript.\<close>  Transcript: transcript.go.  \<open>inspectTranscript\<close> walks the messages with the
  open calls and their answered IDs; an inductive definition of closed and open transcripts is its
  specification, and the checker decides it.  Repair: harness/repair/repair.go; its projections
  satisfy the checker and leave valid closed transcripts alone.  Context_Policy and Compactor:
  harness/contextpolicy; a cut never splits a frontier, so that compaction keeps a transcript valid.

  \<^bold>\<open>The driver.\<close>  Tool_Gate: dispositions and the check of a gate's decision.  Loop_State: the
  state \<^verbatim>\<open>loopState\<close>, its environment and the log of effects and events.  Scheduler:
  tool_scheduler.go, where handlers reply in any order, given as a list of arrivals with
  cancellations and the grace timer.  Suspension: suspension.go.  Turn, with Turn_Props and
  Turn_Limits: turn.go.  Execution_Loop, Run_Loop, Run_Props: execution_loop.go and the loop
  \<^verbatim>\<open>driveLoop\<close>.  Execution_Entry and Execution_Resume: preparation and resumption.  The properties
  trace whole runs: handlers of a loop start only behind the gate, the transcripts a fresh run sends to the
  model are paired when nothing rewrites them, requests are bounded, completed runs carry accepted outputs,
  and a run ends when the handlers it started reply or are given up.  A suspension resumes where its codec
  carries its payload: \<open>codec_carries\<close> asks for the fields, not for the bytes of raw JSON inside.

  \<^bold>\<open>Permissions.\<close>  Permission_Policy compiles rules and decides requests; Permission_Gate is the
  chain of gate middleware (harness/capability) with the permission middleware in it: a call that
  stays executable has an effect the policy allows, and middleware can only narrow.  Resume_Planner
  turns an operator's answers into decisions for the driver.  Capability_Order is the stable
  topological order of capabilities.

  \<^bold>\<open>The session.\<close>  harness/session keeps one agent's transcript, queue, usage and run in a journal.
  Session_Log: the entries (a datatype, one constructor per kind) and \<^verbatim>\<open>fold\<close>, which reads a journal
  back.  Session_State, Session_Settle, Session_Resume: the live session and every handler that
  changes it (accepting input, starting, the turn hook, events, context projection, finishing, interrupting,
  resuming, tool operations, child events and usage, abandoning, closing), each a function of the session
  and its journal, which may store an append, refuse it, or store it and lose the answer.
  Session_Recovery: creation, recovery and the continuation of a recovered run.  Session_Run:
  the step relation of a handle and its journal, with crashes and failed recoveries; what a session relies on
  its driver and host for stands in the steps as guards.  The invariant is that reading the journal gives the live session: Session_Fold
  states it and what an entry does to both sides, Session_Batch treats the batch of each handler, Session_Sound,
  Session_Ends and Session_Return the handlers, Session_Grow that a journal only grows and only the handler of a
  command writes its acceptance, Session_Accept what success, refusal and silence of a handler mean for the journal,
  Session_Cursor that the cursor of a handle never goes back nor passes the end of the journal.  Session_Props
  holds the properties, Session_Example a run to apply them to, and Session_Store the contract of the
  journal as a locale with the in-memory store as its interpretation.

  \<^bold>\<open>Sessions and ownership.\<close>  Session_Commands: the command protocol of harness/sessionloop.
  Local_Channel with Channel_Props: the mailbox of actor/localchannel, with receiving, leases and
  fences.  Journal_Store: harness/store and its in-memory adapter.  Fenced_Journal: every journal
  primitive under a grant (store/authority.go), through a locale that states the contract of an
  authority and its interpretation by the mailbox; the step relation \<open>system_run\<close> interleaves
  both.  Delivery: the hand-over of a command by the worker.  Event_Hub: the hub of
  harness/event/inproc with bounded subscribers.

  \<^bold>\<open>The view of a session.\<close>  harness/session/loop_view.go and loop_acceptance.go, through which the actor
  protocol reaches a session.  Loop_View: the maps of the view, the translation of commands, the claim of an
  idempotency key, and the restoring of accepted commands from the journal.  Loop_Dispatch: Dispatch, Reject and
  Acceptance, in the three parts between which other goroutines run.  Loop_Safe: the step relation of the view
  over the steps of Session_Run, with dispatches in flight, crashes and reopening, and its invariant; every step of
  it is a step of the session, so that what holds of the session holds behind the view.  Loop_Props: a key is
  accepted at most once, receipts survive restarts (that of an interrupt up to its position, which lies between the
  acceptance and the end of the journal), retries are answered from the journal.  Loop_Port: a view is a
  session of the worker in Delivery, through the locale of what a hand-over keeps.  Loop_Projection: the projection
  of the journal and of the records of the hub to the events a client sees (loop_projection.go, loop_fold.go), with
  Replay (loop_history.go), Snapshot, Subscribe and the streams of loop_view.go.  Loop_Replay: private content of the
  journal does not reach a client, though live previews do show reasoning and the names of tools; previews do not touch what is authoritative, replays fit together, a stream is the replay of
  what follows its position, and a snapshot with a stream from its position is the whole history.

  \<^bold>\<open>Bounds and fuel.\<close>  No definition uses fuel.  \<open>iterate\<close>, the loop of \<open>driveLoop\<close>,
  terminates on the iterations that remain, since every turn counts one; \<open>order_loop\<close> on the sum
  of its ready list and the positive in-degrees; matching of patterns and validity of UTF-8 on the
  bytes left.  The stream of a response and the arrivals of a batch are finite lists of what the
  environment does; a wait they do not end is the value None of \<open>collect\<close>, and
  \<open>collect_terminates\<close> and \<open>driveLoop_terminates\<close> state when it does not occur.

  \<^bold>\<open>Not modelled.\<close>  Provider adapters (provider/), reflection and JSON schemas (typed_agent.go,
  output.go), retrieval, subagents, code mode, memory and artifact capabilities, MCP, realtime, otel,
  tui and e2e: they translate between formats or do input and output around the modelled core.  Of
  modelled packages: instrumentation spans, the goroutines that renew leases and pump events in the
  worker, the JSONL journal adapter, and of harness/session observation, publication to the hub, the default view
  on suspensions (JSON), lifecycle hooks and contexts.
\<close>

end
